(* ===== verification/SMD_Prelude.thy ===== *)
theory SMD_Prelude
  imports Main "HOL-Library.List_Lexorder" "HOL-Library.Char_ord" "HOL-Library.Word"
begin

text \<open>
  Shared material of the development: the collections of simplification rules, the Go standard
  library routines that the sources rely on (\<^verbatim>\<open>strings.Compare\<close>, \<^verbatim>\<open>sort.Search\<close>, the early-exit
  iteration protocol of the map interfaces), and the theory of three-way comparators.

  A comparator is a function returning a negative, zero or positive \<^verbatim>\<open>int\<close>, as all
  \<^verbatim>\<open>Compare\<close> functions of the repository do.  The locale \<open>comparator\<close> states the laws that the sorted
  containers of package \<^verbatim>\<open>fieldpath\<close> rely on; \<open>key_order\<close> adds the agreement of a separately written
  \<^verbatim>\<open>Equals\<close> with the comparator.  Both are interpreted on the orders of values, field lists, path
  elements and paths in the theories that define them.
\<close>

named_theorems cmp_simps \<open>rewrite rules for comparator results\<close>
named_theorems has_simps \<open>membership after a container operation\<close>
named_theorems wf_intros \<open>preservation of the container invariants\<close>

section \<open>Three-way comparators\<close>

locale comparator =
  fixes ok :: "'a \<Rightarrow> bool"
    and cmp :: "'a \<Rightarrow> 'a \<Rightarrow> int"
  assumes cmp_range: "ok x \<Longrightarrow> ok y \<Longrightarrow> cmp x y \<in> {- 1, 0, 1}"
    and cmp_flip: "ok x \<Longrightarrow> ok y \<Longrightarrow> cmp y x = - cmp x y"
    and cmp_le_trans: "ok x \<Longrightarrow> ok y \<Longrightarrow> ok z \<Longrightarrow> cmp x y \<le> 0 \<Longrightarrow> cmp y z \<le> 0 \<Longrightarrow> cmp x z \<le> 0"
begin

lemma cmp_refl: "ok x \<Longrightarrow> cmp x x = 0"
  using cmp_flip [of x x] by simp

lemma cmp_sym_iff:
  assumes "ok x" "ok y"
  shows "cmp y x = 0 \<longleftrightarrow> cmp x y = 0" and "cmp y x < 0 \<longleftrightarrow> 0 < cmp x y"
  using cmp_flip [OF assms] by auto

lemma cmp_less_le_trans:
  assumes "ok x" "ok y" "ok z" "cmp x y < 0" "cmp y z \<le> 0"
  shows "cmp x z < 0"
proof (rule ccontr)
  assume "\<not> cmp x z < 0"
  with assms have "cmp z x \<le> 0" using cmp_flip [of x z] by simp
  with assms have "cmp y x \<le> 0" using cmp_le_trans [of y z x] by simp
  with assms show False using cmp_flip [of x y] by simp
qed

lemma cmp_le_less_trans:
  assumes "ok x" "ok y" "ok z" "cmp x y \<le> 0" "cmp y z < 0"
  shows "cmp x z < 0"
proof (rule ccontr)
  assume "\<not> cmp x z < 0"
  with assms have "cmp z x \<le> 0" using cmp_flip [of x z] by simp
  with assms have "cmp z y \<le> 0" using cmp_le_trans [of z x y] by simp
  with assms show False using cmp_flip [of y z] by simp
qed

lemma cmp_less_trans:
  "ok x \<Longrightarrow> ok y \<Longrightarrow> ok z \<Longrightarrow> cmp x y < 0 \<Longrightarrow> cmp y z < 0 \<Longrightarrow> cmp x z < 0"
  by (rule cmp_less_le_trans [of x y z]) auto

text \<open>Elements that compare equal are interchangeable in every comparison.\<close>

lemma cmp_zero_right:
  assumes "ok x" "ok y" "ok z" "cmp y z = 0"
  shows "cmp x y = cmp x z"
proof -
  have zy: "cmp z y = 0" using assms cmp_flip [of y z] by simp
  have *: "cmp x z < 0 \<longleftrightarrow> cmp x y < 0" "cmp x z \<le> 0 \<longleftrightarrow> cmp x y \<le> 0"
    using assms zy cmp_less_le_trans [of x y z] cmp_less_le_trans [of x z y]
      cmp_le_trans [of x y z] cmp_le_trans [of x z y] by auto
  show ?thesis using * cmp_range [of x y] cmp_range [of x z] assms by auto
qed

lemma cmp_zero_left:
  assumes "ok x" "ok y" "ok z" "cmp x y = 0"
  shows "cmp x z = cmp y z"
  using cmp_zero_right [of z x y] cmp_flip [of z x] cmp_flip [of z y] assms by simp

lemma cmp_zero_trans:
  "ok x \<Longrightarrow> ok y \<Longrightarrow> ok z \<Longrightarrow> cmp x y = 0 \<Longrightarrow> cmp y z = 0 \<Longrightarrow> cmp x z = 0"
  using cmp_zero_left [of x y z] by simp

text \<open>Lists that are strictly ascending in the comparator: the shape of all sorted containers.\<close>

definition ascending :: "'a list \<Rightarrow> bool" where
  "ascending xs \<longleftrightarrow> list_all ok xs \<and> sorted_wrt (\<lambda>x y. cmp x y < 0) xs"

lemma ascending_Nil [simp]: "ascending []"
  by (simp add: ascending_def)

lemma ascending_Cons:
  "ascending (x # xs) \<longleftrightarrow> ok x \<and> (\<forall>y \<in> set xs. cmp x y < 0) \<and> ascending xs"
  by (auto simp: ascending_def)

lemma ascending_append:
  "ascending (xs @ ys) \<longleftrightarrow> ascending xs \<and> ascending ys \<and> (\<forall>x \<in> set xs. \<forall>y \<in> set ys. cmp x y < 0)"
  by (auto simp: ascending_def sorted_wrt_append)

lemma ascending_split:
  assumes "ascending xs"
  shows "ascending (takeWhile P xs)" "ascending (dropWhile P xs)"
    "\<And>x y. x \<in> set (takeWhile P xs) \<Longrightarrow> y \<in> set (dropWhile P xs) \<Longrightarrow> cmp x y < 0"
  using assms ascending_append [of "takeWhile P xs" "dropWhile P xs"] by auto

lemma ascending_ok: "ascending xs \<Longrightarrow> x \<in> set xs \<Longrightarrow> ok x"
  by (auto simp: ascending_def list_all_iff)

text \<open>Membership up to the comparator.\<close>

definition covers :: "'a list \<Rightarrow> 'a \<Rightarrow> bool" where
  "covers xs p \<longleftrightarrow> (\<exists>x \<in> set xs. cmp x p = 0)"

lemma covers_simps [simp]:
  "\<not> covers [] p" "covers (x # xs) p \<longleftrightarrow> cmp x p = 0 \<or> covers xs p"
  "covers (xs @ ys) p \<longleftrightarrow> covers xs p \<or> covers ys p"
  by (auto simp: covers_def)

lemma covers_below:
  assumes "ascending ys" "ok x" "ok p" "\<forall>y \<in> set ys. cmp x y < 0" "cmp p x \<le> 0"
  shows "\<not> covers ys p"
proof
  assume "covers ys p"
  then obtain y where y: "y \<in> set ys" "cmp y p = 0" by (auto simp: covers_def)
  with assms have "ok y" "cmp p y < 0"
    using ascending_ok cmp_le_less_trans [of p x y] by auto
  with y assms show False using cmp_flip [of y p] by auto
qed

lemma covers_less_head:
  assumes "ascending (y # ys)" "ok x" "ok p" "cmp x y < 0" "cmp x p = 0"
  shows "\<not> covers (y # ys) p"
proof -
  have "\<forall>z \<in> set (y # ys). cmp x z < 0"
    using assms cmp_less_trans [of x y] by (auto simp: ascending_Cons dest: ascending_ok)
  with assms show ?thesis
    using covers_below [of "y # ys" x p] cmp_flip [of x p] by simp
qed

text \<open>Two ascending lists covering the same elements have pairwise equivalent entries.\<close>

lemma covers_cong: "ascending xs \<Longrightarrow> ok p \<Longrightarrow> ok q \<Longrightarrow> cmp p q = 0 \<Longrightarrow> covers xs p \<longleftrightarrow> covers xs q"
  unfolding covers_def using cmp_zero_right [of _ p q] by (intro bex_cong refl) (auto dest: ascending_ok)

lemma covers_self: "ascending xs \<Longrightarrow> x \<in> set xs \<Longrightarrow> covers xs x"
  by (auto simp: covers_def cmp_refl dest: ascending_ok intro!: bexI [of _ x])

lemma covers_antisym:
  assumes "ascending xs" "ascending ys" "\<And>p. ok p \<Longrightarrow> covers xs p \<longleftrightarrow> covers ys p"
  shows "list_all2 (\<lambda>x y. cmp x y = 0) xs ys"
  using assms
proof (induction xs arbitrary: ys)
  case Nil
  then show ?case using covers_self [of ys "hd ys"] ascending_ok [of ys "hd ys"] by (cases ys) auto
next
  case (Cons x xs)
  have x: "ok x" "\<forall>z \<in> set xs. cmp x z < 0" "ascending xs" using Cons.prems(1) by (auto simp: ascending_Cons)
  have "covers ys x" using Cons.prems(3) [of x] x cmp_refl by simp
  then obtain y ys' where ys: "ys = y # ys'" by (cases ys) auto
  have y: "ok y" "\<forall>z \<in> set ys'. cmp y z < 0" "ascending ys'" using Cons.prems(2) ys by (auto simp: ascending_Cons)
  have xy: "cmp x y = 0"
  proof (rule ccontr)
    assume "cmp x y \<noteq> 0"
    then consider "cmp x y < 0" | "cmp y x < 0" using cmp_flip [of x y] x y by linarith
    then show False
    proof cases
      case 1
      then show False using covers_less_head [of y ys' x x] \<open>covers ys x\<close> Cons.prems(2) ys x cmp_refl by simp
    next
      case 2
      have "covers (x # xs) y" using Cons.prems(3) [of y] y ys cmp_refl by simp
      then show False using 2 covers_less_head [of x xs y y] Cons.prems(1) y cmp_refl by simp
    qed
  qed
  have "covers xs p \<longleftrightarrow> covers ys' p" if p: "ok p" for p
  proof (cases "cmp x p = 0")
    case True
    then have "cmp y p = 0" using xy x y p cmp_zero_left [of x y p] by simp
    with True have "\<not> covers xs p" "\<not> covers ys' p"
      using covers_below [of xs x p] covers_below [of ys' y p] x y p cmp_flip [of x p] cmp_flip [of y p] by auto
    then show ?thesis by simp
  next
    case False
    then have "cmp y p \<noteq> 0" using xy x y p cmp_zero_left [of x y p] by simp
    with False Cons.prems(3) [OF p] ys show ?thesis by simp
  qed
  with Cons.IH [of ys'] x y ys xy show ?case by simp
qed

end

text \<open>A comparator read off a linear order; \<^verbatim>\<open>strings.Compare\<close> and \<^verbatim>\<open>IntCompare\<close> are of this form.\<close>

definition linorder_cmp :: "'a::linorder \<Rightarrow> 'a \<Rightarrow> int" where
  "linorder_cmp x y = (if x = y then 0 else if x < y then - 1 else 1)"

lemma linorder_cmp_iff [simp]:
  "linorder_cmp x y = 0 \<longleftrightarrow> x = y" "linorder_cmp x y < 0 \<longleftrightarrow> x < y" "linorder_cmp x y \<le> 0 \<longleftrightarrow> x \<le> y"
  by (auto simp: linorder_cmp_def)

lemma comparator_linorder_cmp: "comparator (\<lambda>_. True) linorder_cmp"
  by unfold_locales (auto simp: linorder_cmp_def split: if_splits)

lemma comparator_subset:
  assumes "comparator A c" and "\<And>x. B x \<Longrightarrow> A x"
  shows "comparator B c"
proof (rule comparator.intro)
  show "\<And>x y. B x \<Longrightarrow> B y \<Longrightarrow> c x y \<in> {- 1, 0, 1}"
    by (rule comparator.cmp_range [OF assms(1)]) (rule assms(2), assumption)+
  show "\<And>x y. B x \<Longrightarrow> B y \<Longrightarrow> c y x = - c x y"
    by (rule comparator.cmp_flip [OF assms(1)]) (rule assms(2), assumption)+
  show "c x z \<le> 0" if "B x" "B y" "B z" "c x y \<le> 0" "c y z \<le> 0" for x y z
    using that assms(2) by (intro comparator.cmp_le_trans [OF assms(1), of x y z]) auto
qed

subsection \<open>Lexicographic extension\<close>

text \<open>
  The loop shared by \<^verbatim>\<open>ListCompareUsing\<close>, \<^verbatim>\<open>FieldList.Compare\<close> and \<^verbatim>\<open>Path.Compare\<close>: compare
  positionwise, a proper prefix is smaller.
\<close>

fun lexcmp :: "('a \<Rightarrow> 'a \<Rightarrow> int) \<Rightarrow> 'a list \<Rightarrow> 'a list \<Rightarrow> int" where
  "lexcmp c [] [] = 0"
| "lexcmp c [] (y # ys) = - 1"
| "lexcmp c (x # xs) [] = 1"
| "lexcmp c (x # xs) (y # ys) = (let r = c x y in if r \<noteq> 0 then r else lexcmp c xs ys)"

lemma lexcmp_Nil_iff [simp]: "lexcmp c [] ys \<le> 0" "lexcmp c xs [] \<le> 0 \<longleftrightarrow> xs = []"
  by (cases ys; simp) (cases xs; simp)

lemma lexcmp_cong [fundef_cong]:
  "xs = xs' \<Longrightarrow> ys = ys' \<Longrightarrow> (\<And>x y. x \<in> set xs' \<Longrightarrow> y \<in> set ys' \<Longrightarrow> c x y = d x y)
    \<Longrightarrow> lexcmp c xs ys = lexcmp d xs' ys'"
  by (induction c xs ys arbitrary: xs' ys' rule: lexcmp.induct) (auto simp: Let_def)

lemma lexcmp_map: "lexcmp c (map f xs) (map g ys) = lexcmp (\<lambda>x y. c (f x) (g y)) xs ys"
  by (induction "\<lambda>x y. c (f x) (g y)" xs ys rule: lexcmp.induct) (auto simp: Let_def)

lemma lexcmp_zero_iff:
  "lexcmp c xs ys = 0 \<longleftrightarrow> list_all2 (\<lambda>x y. c x y = 0) xs ys"
  by (induction c xs ys rule: lexcmp.induct) (auto simp: Let_def)

context comparator
begin

lemma lexcmp_range: "list_all ok xs \<Longrightarrow> list_all ok ys \<Longrightarrow> lexcmp cmp xs ys \<in> {- 1, 0, 1}"
proof (induction xs arbitrary: ys)
  case (Cons x xs)
  then show ?case using cmp_range [of x] by (cases ys) (auto simp: Let_def)
next
  case Nil
  then show ?case by (cases ys) auto
qed

lemma lexcmp_flip: "list_all ok xs \<Longrightarrow> list_all ok ys \<Longrightarrow> lexcmp cmp ys xs = - lexcmp cmp xs ys"
proof (induction xs arbitrary: ys)
  case (Cons x xs)
  then show ?case using cmp_flip [of x] by (cases ys) (auto simp: Let_def)
next
  case Nil
  then show ?case by (cases ys) auto
qed

lemma lexcmp_le_trans:
  "list_all ok xs \<Longrightarrow> list_all ok ys \<Longrightarrow> list_all ok zs \<Longrightarrow>
    lexcmp cmp xs ys \<le> 0 \<Longrightarrow> lexcmp cmp ys zs \<le> 0 \<Longrightarrow> lexcmp cmp xs zs \<le> 0"
proof (induction xs arbitrary: ys zs)
  case (Cons x xs)
  from Cons.prems obtain y ys' where ys: "ys = y # ys'" by (cases ys) auto
  with Cons.prems obtain z zs' where zs: "zs = z # zs'" by (cases zs) auto
  have okx: "ok x" "ok y" "ok z" using Cons.prems ys zs by auto
  have xy: "cmp x y \<le> 0" and yz: "cmp y z \<le> 0"
    using Cons.prems ys zs by (auto simp: Let_def split: if_splits)
  have xz: "cmp x z \<le> 0" using cmp_le_trans okx xy yz by blast
  show ?case
  proof (cases "cmp x z = 0")
    case True
    have "cmp x y = 0" "cmp y z = 0"
      using True xy yz okx cmp_less_le_trans [of x y z] cmp_le_less_trans [of x y z] by linarith+
    with Cons ys zs True show ?thesis by auto
  qed (use xz ys zs in auto)
qed simp

lemma comparator_lexcmp: "comparator (list_all ok) (lexcmp cmp)"
  by (rule comparator.intro) (fact lexcmp_range lexcmp_flip lexcmp_le_trans)+

end

subsection \<open>Building comparators\<close>

lemma comparator_pullback:
  assumes "comparator A c" and "\<And>x. B x \<Longrightarrow> A (f x)"
    and "\<And>x y. B x \<Longrightarrow> B y \<Longrightarrow> d x y = c (f x) (f y)"
  shows "comparator B d"
proof (rule comparator.intro)
  show "d x y \<in> {- 1, 0, 1}" if "B x" "B y" for x y
    using comparator.cmp_range [OF assms(1), of "f x" "f y"] that by (simp add: assms(2,3))
  show "d y x = - d x y" if "B x" "B y" for x y
    using comparator.cmp_flip [OF assms(1), of "f x" "f y"] that by (simp add: assms(2,3))
  show "d x z \<le> 0" if "B x" "B y" "B z" "d x y \<le> 0" "d y z \<le> 0" for x y z
    using comparator.cmp_le_trans [OF assms(1), of "f x" "f y" "f z"] that assms(2,3) by simp
qed

text \<open>A comparator that first compares a rank and is a comparator within each rank.\<close>

lemma comparator_rank:
  fixes rank :: "'a \<Rightarrow> nat"
  assumes lt: "\<And>x y. A x \<Longrightarrow> A y \<Longrightarrow> rank x < rank y \<Longrightarrow> c x y = - 1 \<and> c y x = 1"
    and same: "\<And>r. comparator (\<lambda>x. A x \<and> rank x = r) c"
  shows "comparator A c"
proof (rule comparator.intro)
  have cases: "c x y = - 1 \<and> c y x = 1 \<and> rank x < rank y \<or> c x y = 1 \<and> c y x = - 1 \<and> rank y < rank x
      \<or> rank x = rank y" if "A x" "A y" for x y
    using lt [OF that] lt [of y x] that by (metis nat_neq_iff)
  show "c x y \<in> {- 1, 0, 1}" if "A x" "A y" for x y
    using cases [OF that] comparator.cmp_range [OF same [of "rank y"], of x y] that by auto
  show "c y x = - c x y" if "A x" "A y" for x y
    using cases [OF that] comparator.cmp_flip [OF same [of "rank y"], of x y] that by auto
  show "c x z \<le> 0" if a: "A x" "A y" "A z" and le: "c x y \<le> 0" "c y z \<le> 0" for x y z
  proof (cases "rank x = rank y \<and> rank y = rank z")
    case True
    then show ?thesis
      using comparator.cmp_le_trans [OF same [of "rank z"], of x y z] a le by simp
  next
    case False
    with cases [of x y] cases [of y z] a le have "rank x < rank z" by force
    with lt [of x z] a show ?thesis by simp
  qed
qed

definition pair_cmp :: "('a \<Rightarrow> 'a \<Rightarrow> int) \<Rightarrow> ('b \<Rightarrow> 'b \<Rightarrow> int) \<Rightarrow> 'a \<times> 'b \<Rightarrow> 'a \<times> 'b \<Rightarrow> int" where
  "pair_cmp c d x y = (let r = c (fst x) (fst y) in if r \<noteq> 0 then r else d (snd x) (snd y))"

lemma comparator_pair:
  assumes c: "comparator A c" and d: "comparator B d"
  shows "comparator (\<lambda>p. A (fst p) \<and> B (snd p)) (pair_cmp c d)"
proof (rule comparator.intro)
  fix x y z :: "'a \<times> 'b"
  assume ok: "A (fst x) \<and> B (snd x)" "A (fst y) \<and> B (snd y)"
  show "pair_cmp c d x y \<in> {- 1, 0, 1}"
    using ok comparator.cmp_range [OF c, of "fst x" "fst y"] comparator.cmp_range [OF d, of "snd x" "snd y"]
    by (auto simp: pair_cmp_def Let_def)
  show "pair_cmp c d y x = - pair_cmp c d x y"
    using ok comparator.cmp_flip [OF c, of "fst x" "fst y"] comparator.cmp_flip [OF d, of "snd x" "snd y"]
    by (auto simp: pair_cmp_def Let_def)
  assume okz: "A (fst z) \<and> B (snd z)" and le: "pair_cmp c d x y \<le> 0" "pair_cmp c d y z \<le> 0"
  have cle: "c (fst x) (fst y) \<le> 0" "c (fst y) (fst z) \<le> 0"
    using le by (auto simp: pair_cmp_def Let_def split: if_splits)
  show "pair_cmp c d x z \<le> 0"
  proof (cases "c (fst x) (fst y) = 0 \<and> c (fst y) (fst z) = 0")
    case True
    then have "c (fst x) (fst z) = 0"
      using ok okz comparator.cmp_zero_trans [OF c, of "fst x" "fst y" "fst z"] by simp
    with True le ok okz show ?thesis
      using comparator.cmp_le_trans [OF d, of "snd x" "snd y" "snd z"] by (simp add: pair_cmp_def)
  next
    case False
    with cle ok okz have "c (fst x) (fst z) < 0"
      using comparator.cmp_less_le_trans [OF c, of "fst x" "fst y" "fst z"]
        comparator.cmp_le_less_trans [OF c, of "fst x" "fst y" "fst z"] by linarith
    then show ?thesis by (simp add: pair_cmp_def Let_def)
  qed
qed

text \<open>Agreement of a separately written equality test with a comparator.\<close>

locale key_order = comparator ok cmp
  for ok :: "'a \<Rightarrow> bool" and cmp :: "'a \<Rightarrow> 'a \<Rightarrow> int" +
  fixes eqv :: "'a \<Rightarrow> 'a \<Rightarrow> bool"
  assumes eqv_iff: "ok x \<Longrightarrow> ok y \<Longrightarrow> eqv x y \<longleftrightarrow> cmp x y = 0"
begin

lemma eqv_refl: "ok x \<Longrightarrow> eqv x x"
  by (simp add: eqv_iff cmp_refl)

lemma eqv_sym: "ok x \<Longrightarrow> ok y \<Longrightarrow> eqv x y \<Longrightarrow> eqv y x"
  by (simp add: eqv_iff cmp_sym_iff)

lemma eqv_trans: "ok x \<Longrightarrow> ok y \<Longrightarrow> ok z \<Longrightarrow> eqv x y \<Longrightarrow> eqv y z \<Longrightarrow> eqv x z"
  using cmp_zero_trans [of x y z] by (simp add: eqv_iff)

end

section \<open>The Go standard library used by the sources\<close>

text \<open>\<^verbatim>\<open>strings.Compare\<close> and \<^verbatim>\<open><\<close> on Go strings are the bytewise lexicographic order.\<close>

definition strings_Compare :: "string \<Rightarrow> string \<Rightarrow> int" where
  "strings_Compare a b = linorder_cmp a b"

lemma strings_Compare_iff [simp]:
  "strings_Compare a b = 0 \<longleftrightarrow> a = b" "strings_Compare a b < 0 \<longleftrightarrow> a < b"
  by (simp_all add: strings_Compare_def)

interpretation str: comparator "\<lambda>_. True" strings_Compare
  using comparator_linorder_cmp [where 'a = string] by (simp add: strings_Compare_def [abs_def])

text \<open>
  \<^verbatim>\<open>sort.Search(n, f)\<close>: the least \<open>i < n\<close> with \<open>f i\<close> (or \<open>n\<close>), found by bisection under the
  precondition that \<open>f\<close> is monotone.
\<close>

function sort_Search_loop :: "(nat \<Rightarrow> bool) \<Rightarrow> nat \<Rightarrow> nat \<Rightarrow> nat" where
  "sort_Search_loop f i j =
     (if i < j then
        let h = (i + j) div 2
        in if \<not> f h then sort_Search_loop f (h + 1) j else sort_Search_loop f i h
      else i)"
  by pat_completeness auto
termination
  by (relation "measure (\<lambda>(f, i, j). j - i)") auto

declare sort_Search_loop.simps [simp del]

definition sort_Search :: "nat \<Rightarrow> (nat \<Rightarrow> bool) \<Rightarrow> nat" where
  "sort_Search n f = sort_Search_loop f 0 n"

lemma sort_Search_loop_le: "i \<le> j \<Longrightarrow> sort_Search_loop f i j \<le> j"
proof (induction f i j rule: sort_Search_loop.induct)
  case (1 f i j)
  show ?case
  proof (cases "i < j")
    case True
    let ?h = "(i + j) div 2"
    have "i \<le> ?h" "?h < j" using True by auto
    with True "1.IH" show ?thesis
      by (subst sort_Search_loop.simps) (force simp: Let_def)
  next
    case False
    with "1.prems" show ?thesis by (subst sort_Search_loop.simps) simp
  qed
qed

lemma sort_Search_le: "sort_Search n f \<le> n"
  by (simp add: sort_Search_def sort_Search_loop_le)

lemma sort_Search_loop_eq:
  assumes "i \<le> k" "k \<le> j" "\<And>h. i \<le> h \<Longrightarrow> h < j \<Longrightarrow> f h \<longleftrightarrow> k \<le> h"
  shows "sort_Search_loop f i j = k"
  using assms
proof (induction f i j rule: sort_Search_loop.induct)
  case (1 f i j)
  show ?case
  proof (cases "i < j")
    case True
    let ?h = "(i + j) div 2"
    have h: "i \<le> ?h" "?h < j" using True by auto
    with "1.prems" have fh: "f ?h \<longleftrightarrow> k \<le> ?h" by blast
    show ?thesis
    proof (cases "f ?h")
      case True
      with fh h "1.prems" have "sort_Search_loop f i ?h = k"
        by (intro "1.IH" (2)) auto
      with True \<open>i < j\<close> show ?thesis by (simp add: sort_Search_loop.simps [of f i j] Let_def)
    next
      case False
      with fh h "1.prems" have "sort_Search_loop f (?h + 1) j = k"
        by (intro "1.IH" (1)) auto
      with False \<open>i < j\<close> show ?thesis by (simp add: sort_Search_loop.simps [of f i j] Let_def)
    qed
  next
    case False
    with "1.prems" show ?thesis by (simp add: sort_Search_loop.simps [of f i j])
  qed
qed

text \<open>On a list whose elements satisfying \<open>P\<close> form a prefix, the bisection for the first element
  violating \<open>P\<close> returns the length of that prefix.\<close>

lemma sort_Search_takeWhile:
  assumes "\<And>i j. i < j \<Longrightarrow> j < length xs \<Longrightarrow> P (xs ! j) \<Longrightarrow> P (xs ! i)"
  shows "sort_Search (length xs) (\<lambda>i. \<not> P (xs ! i)) = length (takeWhile P xs)"
proof -
  let ?k = "length (takeWhile P xs)"
  have k: "?k \<le> length xs" by (rule length_takeWhile_le)
  have "\<not> P (xs ! h) \<longleftrightarrow> ?k \<le> h" if "h < length xs" for h
  proof (cases "h < ?k")
    case True
    then have "P (xs ! h)" by (metis nth_mem set_takeWhileD takeWhile_nth)
    with True show ?thesis by simp
  next
    case False
    then have "?k < length xs" using that by simp
    then have "\<not> P (xs ! ?k)" by (rule nth_length_takeWhile)
    with False assms [of ?k h] that show ?thesis by (cases "h = ?k") auto
  qed
  then show ?thesis unfolding sort_Search_def using k by (intro sort_Search_loop_eq) auto
qed

text \<open>
  Iteration with a callback that returns \<^verbatim>\<open>false\<close> to stop: the protocol of
  \<^verbatim>\<open>Map.Iterate\<close> and \<^verbatim>\<open>Map.Zip\<close>.  The callback's captured variables are the state \<open>'s\<close>.
\<close>

fun iterate_until :: "('k \<Rightarrow> 's \<Rightarrow> bool \<times> 's) \<Rightarrow> 'k list \<Rightarrow> 's \<Rightarrow> bool \<times> 's" where
  "iterate_until f [] s = (True, s)"
| "iterate_until f (k # ks) s =
     (case f k s of (go, s') \<Rightarrow> if go then iterate_until f ks s' else (False, s'))"

lemma iterate_until_cong [fundef_cong]:
  "ks = ks' \<Longrightarrow> s = s' \<Longrightarrow> (\<And>k t. k \<in> set ks' \<Longrightarrow> f k t = g k t)
    \<Longrightarrow> iterate_until f ks s = iterate_until g ks' s'"
proof (induction f ks s arbitrary: ks' s' rule: iterate_until.induct)
  case (2 f k ks s)
  have "f k s = g k s" using 2 by auto
  then show ?case using 2 by (auto split: prod.splits)
qed auto

section \<open>Association lists\<close>

lemma map_of_size [termination_simp]:
  "map_of m k = Some v \<Longrightarrow> size v < Suc (size_list (size_prod (\<lambda>_. 0) size) m)"
  by (induction m) (auto split: if_splits)

lemma map_of_Some_in_set: "map_of m k = Some v \<Longrightarrow> v \<in> snd ` set m"
  by (force dest: map_of_SomeD)

text \<open>A loop that writes at most one entry per key it visits, of a map with distinct keys.\<close>

lemma fold_entries:
  assumes "distinct (map fst xs)"
    and "\<And>k v d q. map_of (f (k, v) d) q = (if q = k then (case g k v of None \<Rightarrow> map_of d q | r \<Rightarrow> r) else map_of d q)"
  shows "map_of (fold f xs d) k =
    (case map_of xs k of None \<Rightarrow> map_of d k | Some v \<Rightarrow> (case g k v of None \<Rightarrow> map_of d k | r \<Rightarrow> r))"
  using assms(1)
proof (induction xs arbitrary: d)
  case (Cons e xs)
  then have "map_of xs (fst e) = None" by (simp add: map_of_eq_None_iff)
  with Cons show ?case by (cases e) (auto simp: assms(2) split: option.splits)
qed simp

end
