(* ===== verification/Values.thy ===== *)
theory Values
  imports SMD_Prelude
begin

text \<open>
  Package \<^verbatim>\<open>value\<close>: \<^verbatim>\<open>scalar.go\<close>, \<^verbatim>\<open>value.go\<close>, \<^verbatim>\<open>list.go\<close>, \<^verbatim>\<open>map.go\<close>, and the unstructured
  implementations of lists and maps.  A \<^verbatim>\<open>Value\<close> is modelled by what its interface shows: exactly one
  constructor per \<^verbatim>\<open>IsXXX\<close> method, the discriminators and selectors of the datatype being the
  \<^verbatim>\<open>IsXXX\<close> and \<^verbatim>\<open>AsXXX\<close> methods; a selector applied to another constructor is unspecified, where the
  Go method panics.  \<open>VOther\<close> is a value for which every \<^verbatim>\<open>IsXXX\<close> is false.  A Go map is an
  association list whose order is the order in which the runtime iterates it; every theorem about
  maps is for an arbitrary such order.  Allocators only recycle memory and are left out.
\<close>

section \<open>Numbers\<close>

text \<open>
  An IEEE 754 binary64 number: \<open>Finite k\<close> stands for \<open>k \<cdot> 2\<^sup>-\<^sup>1\<^sup>0\<^sup>7\<^sup>4\<close>, every finite double being an
  integer multiple of the least subnormal.  The two zeros, which \<^verbatim>\<open>==\<close> and \<^verbatim>\<open><\<close> do not tell apart,
  are one element.
\<close>

datatype float64 = NaN | NegInf | PosInf | Finite int

fun float64_less :: "float64 \<Rightarrow> float64 \<Rightarrow> bool" where
  "float64_less NaN _ = False"
| "float64_less _ NaN = False"
| "float64_less (Finite a) (Finite b) = (a < b)"
| "float64_less NegInf y = (y \<noteq> NegInf)"
| "float64_less x PosInf = (x \<noteq> PosInf)"
| "float64_less _ _ = False"

definition float64_eq :: "float64 \<Rightarrow> float64 \<Rightarrow> bool" where
  "float64_eq x y \<longleftrightarrow> x \<noteq> NaN \<and> y \<noteq> NaN \<and> x = y"

text \<open>Conversion \<^verbatim>\<open>float64(i)\<close>: 53 significant bits, round to nearest, ties to even.\<close>

fun excess_bits :: "nat \<Rightarrow> nat" where
  "excess_bits a = (if a < 2 ^ 53 then 0 else Suc (excess_bits (a div 2)))"

declare excess_bits.simps [simp del]

definition round53 :: "int \<Rightarrow> int" where
  "round53 i =
     (let a = nat \<bar>i\<bar>; e = excess_bits a; q = a div 2 ^ e; r = a mod 2 ^ e;
          q' = (if 2 * r > 2 ^ e \<or> (2 * r = 2 ^ e \<and> odd q) then q + 1 else q)
      in sgn i * int (q' * 2 ^ e))"

definition float64_of_int64 :: "64 word \<Rightarrow> float64" where
  "float64_of_int64 i = Finite (round53 (sint i) * 2 ^ 1074)"

definition FloatCompare :: "float64 \<Rightarrow> float64 \<Rightarrow> int" where
  "FloatCompare lhs rhs =
     (if float64_less rhs lhs then 1 else if float64_less lhs rhs then - 1 else 0)"

definition IntCompare :: "64 word \<Rightarrow> 64 word \<Rightarrow> int" where
  "IntCompare lhs rhs = (if sint lhs > sint rhs then 1 else if sint lhs < sint rhs then - 1 else 0)"

definition BoolCompare :: "bool \<Rightarrow> bool \<Rightarrow> int" where
  "BoolCompare lhs rhs = (if lhs = rhs then 0 else if lhs = False then - 1 else 1)"

section \<open>Maps: iteration in parallel\<close>

datatype MapTraverseOrder = Unordered | LexicalKeyOrder

text \<open>A possibly nil \<^verbatim>\<open>Map\<close> interface value is an optional association list.\<close>

definition map_Length :: "(string \<times> 'v) list option \<Rightarrow> nat" where
  "map_Length m = (case m of None \<Rightarrow> 0 | Some kvs \<Rightarrow> length kvs)"

definition map_Get :: "(string \<times> 'v) list option \<Rightarrow> string \<Rightarrow> 'v option" where
  "map_Get m k = (case m of None \<Rightarrow> None | Some kvs \<Rightarrow> map_of kvs k)"

definition map_keys :: "(string \<times> 'v) list option \<Rightarrow> string list" where
  "map_keys m = (case m of None \<Rightarrow> [] | Some kvs \<Rightarrow> map fst kvs)"

definition unorderedMapZip ::
  "(string \<times> 'v) list option \<Rightarrow> (string \<times> 'v) list option \<Rightarrow>
   (string \<Rightarrow> 'v option \<Rightarrow> 'v option \<Rightarrow> 's \<Rightarrow> bool \<times> 's) \<Rightarrow> 's \<Rightarrow> bool \<times> 's" where
  "unorderedMapZip lhs rhs fn s =
     (if map_Length lhs = 0 \<and> map_Length rhs = 0 then (True, s)
      else case iterate_until (\<lambda>(k, v). fn k (Some v) (map_Get rhs k)) (case_option [] id lhs) s of
        (ok, s') \<Rightarrow>
          if \<not> ok then (False, s')
          else iterate_until
                 (\<lambda>(k, v) t. if k \<notin> set (map_keys lhs) then fn k None (Some v) t else (True, t))
                 (case_option [] id rhs) s')"

definition lexicalKeyOrderedMapZip ::
  "(string \<times> 'v) list option \<Rightarrow> (string \<times> 'v) list option \<Rightarrow>
   (string \<Rightarrow> 'v option \<Rightarrow> 'v option \<Rightarrow> 's \<Rightarrow> bool \<times> 's) \<Rightarrow> 's \<Rightarrow> bool \<times> 's" where
  "lexicalKeyOrderedMapZip lhs rhs fn s =
     (if map_Length lhs = 0 \<and> map_Length rhs = 0 then (True, s)
      else let ordered = sort (map_keys lhs @ filter (\<lambda>k. k \<notin> set (map_keys lhs)) (map_keys rhs))
           in iterate_until (\<lambda>k. fn k (map_Get lhs k) (map_Get rhs k)) ordered s)"

definition defaultMapZip ::
  "(string \<times> 'v) list option \<Rightarrow> (string \<times> 'v) list option \<Rightarrow> MapTraverseOrder \<Rightarrow>
   (string \<Rightarrow> 'v option \<Rightarrow> 'v option \<Rightarrow> 's \<Rightarrow> bool \<times> 's) \<Rightarrow> 's \<Rightarrow> bool \<times> 's" where
  "defaultMapZip lhs rhs order fn s =
     (case order of
        Unordered \<Rightarrow> unorderedMapZip lhs rhs fn s
      | LexicalKeyOrder \<Rightarrow> lexicalKeyOrderedMapZip lhs rhs fn s)"

definition MapZipUsing ::
  "(string \<times> 'v) list option \<Rightarrow> (string \<times> 'v) list option \<Rightarrow> MapTraverseOrder \<Rightarrow>
   (string \<Rightarrow> 'v option \<Rightarrow> 'v option \<Rightarrow> 's \<Rightarrow> bool \<times> 's) \<Rightarrow> 's \<Rightarrow> bool \<times> 's" where
  "MapZipUsing lhs rhs order fn s =
     (if lhs \<noteq> None then defaultMapZip lhs rhs order fn s
      else if rhs \<noteq> None then defaultMapZip rhs lhs order (\<lambda>k r l. fn k l r) s
      else (True, s))"

lemma map_Get_in: "map_Get m k = Some v \<Longrightarrow> \<exists>kvs. m = Some kvs \<and> v \<in> snd ` set kvs"
  by (auto simp: map_Get_def dest: map_of_Some_in_set split: option.splits)

section \<open>Values, equality and comparison\<close>

datatype Value =
    is_null: VNull
  | is_bool: VBool (AsBool: bool)
  | is_int: VInt (AsInt: "64 word")
  | is_float: VFloat (AsFloat: float64)
  | is_string: VString (AsString: string)
  | is_list: VList (AsList: "Value list")
  | is_map: VMap (AsMap: "(string \<times> Value) list")
  | VOther

type_synonym GoMap = "(string \<times> Value) list"

text \<open>\<^verbatim>\<open>ListEqualsUsing\<close>: the lengths, then position by position.\<close>

definition ListEqualsUsing :: "('v \<Rightarrow> 'v \<Rightarrow> bool) \<Rightarrow> 'v list \<Rightarrow> 'v list \<Rightarrow> bool" where
  "ListEqualsUsing eq lhs rhs \<longleftrightarrow>
     (if length lhs \<noteq> length rhs then False else list_all (\<lambda>(l, r). eq l r) (zip lhs rhs))"

text \<open>\<^verbatim>\<open>EqualsUsing\<close> of \<^verbatim>\<open>mapUnstructuredString\<close> and \<^verbatim>\<open>mapUnstructuredInterface\<close>: iterate the other map.\<close>

definition mapUnstructured_EqualsUsing ::
  "('v \<Rightarrow> 'v \<Rightarrow> bool) \<Rightarrow> (string \<times> 'v) list \<Rightarrow> (string \<times> 'v) list \<Rightarrow> bool" where
  "mapUnstructured_EqualsUsing eq m other \<longleftrightarrow>
     (if length m \<noteq> length other then False
      else if length m = 0 then True
      else fst (iterate_until
             (\<lambda>(k, v) _. (case map_of m k of None \<Rightarrow> False | Some lv \<Rightarrow> eq lv v, ())) other ()))"

text \<open>The generic \<^verbatim>\<open>MapEqualsUsing\<close>, by an unordered zip.\<close>

definition MapEqualsUsing ::
  "('v \<Rightarrow> 'v \<Rightarrow> bool) \<Rightarrow> (string \<times> 'v) list option \<Rightarrow> (string \<times> 'v) list option \<Rightarrow> bool" where
  "MapEqualsUsing eq lhs rhs \<longleftrightarrow>
     (if lhs = None \<and> rhs = None then True
      else if lhs = None \<or> rhs = None then False
      else if map_Length lhs \<noteq> map_Length rhs then False
      else fst (MapZipUsing lhs rhs Unordered
             (\<lambda>k l r _. (case l of None \<Rightarrow> False
                         | Some lv \<Rightarrow> (case r of None \<Rightarrow> False | Some rv \<Rightarrow> eq lv rv), ())) ()))"

text \<open>The callback of \<^verbatim>\<open>MapCompareUsing\<close>, over its captured variables \<^verbatim>\<open>c\<close> and \<^verbatim>\<open>i\<close>.\<close>

definition MapCompare_step ::
  "('v \<Rightarrow> 'v \<Rightarrow> int) \<Rightarrow> nat \<Rightarrow> nat \<Rightarrow> string \<Rightarrow> 'v option \<Rightarrow> 'v option \<Rightarrow> int \<times> nat \<Rightarrow> bool \<times> (int \<times> nat)" where
  "MapCompare_step cmp llength rlength k l r = (\<lambda>(_, i).
     let c = (if i = llength then - 1
              else if i = rlength then 1
              else case l of None \<Rightarrow> 1
                   | Some lv \<Rightarrow> (case r of None \<Rightarrow> - 1 | Some rv \<Rightarrow> cmp lv rv))
     in (c = 0, (c, i + 1)))"

definition MapCompareUsing ::
  "('v \<Rightarrow> 'v \<Rightarrow> int) \<Rightarrow> (string \<times> 'v) list option \<Rightarrow> (string \<times> 'v) list option \<Rightarrow> int" where
  "MapCompareUsing cmp lhs rhs =
     (let llength = map_Length lhs; rlength = map_Length rhs
      in if llength = 0 \<and> rlength = 0 then 0
         else fst (snd (MapZipUsing lhs rhs LexicalKeyOrder (MapCompare_step cmp llength rlength) (0, 0))))"

lemma ListEqualsUsing_cong [fundef_cong]:
  assumes "xs = xs'" "ys = ys'" and "\<And>x y. x \<in> set xs' \<Longrightarrow> y \<in> set ys' \<Longrightarrow> e x y = f x y"
  shows "ListEqualsUsing e xs ys = ListEqualsUsing f xs' ys'"
proof -
  have "e x y = f x y" if "(x, y) \<in> set (zip xs' ys')" for x y
    using that by (intro assms(3)) (auto dest: set_zip_leftD set_zip_rightD)
  then show ?thesis by (auto simp: ListEqualsUsing_def list_all_iff assms(1,2))
qed

lemma mapUnstructured_EqualsUsing_cong [fundef_cong]:
  assumes "m = m'" "ot = ot'"
    and "\<And>x y. x \<in> snd ` set m' \<Longrightarrow> y \<in> snd ` set ot' \<Longrightarrow> e x y = f x y"
  shows "mapUnstructured_EqualsUsing e m ot = mapUnstructured_EqualsUsing f m' ot'"
proof -
  have "e x y = f x y" if "map_of m' k = Some x" "(k, y) \<in> set ot'" for k x y
    using that by (intro assms(3)) (force dest: map_of_Some_in_set)+
  then show ?thesis
    unfolding mapUnstructured_EqualsUsing_def assms(1,2)
    by (intro if_cong refl arg_cong [where f = fst] iterate_until_cong) (auto split: option.splits)
qed

lemma lexicalKeyOrderedMapZip_cong:
  assumes "\<And>k s. f k (map_Get lhs k) (map_Get rhs k) s = g k (map_Get lhs k) (map_Get rhs k) s"
  shows "lexicalKeyOrderedMapZip lhs rhs f s = lexicalKeyOrderedMapZip lhs rhs g s"
  unfolding lexicalKeyOrderedMapZip_def Let_def
  by (intro if_cong refl iterate_until_cong) (simp add: assms)

lemma MapZipUsing_LexicalKeyOrder_cong:
  assumes "\<And>k s. f k (map_Get lhs k) (map_Get rhs k) s = g k (map_Get lhs k) (map_Get rhs k) s"
  shows "MapZipUsing lhs rhs LexicalKeyOrder f s = MapZipUsing lhs rhs LexicalKeyOrder g s"
  unfolding MapZipUsing_def defaultMapZip_def MapTraverseOrder.case
  by (intro if_cong refl lexicalKeyOrderedMapZip_cong) (rule assms)+

lemma MapCompareUsing_cong [fundef_cong]:
  assumes "m = m'" "ot = ot'"
    and "\<And>x y. x \<in> snd ` set (case_option [] id m') \<Longrightarrow> y \<in> snd ` set (case_option [] id ot') \<Longrightarrow> c x y = d x y"
  shows "MapCompareUsing c m ot = MapCompareUsing d m' ot'"
proof -
  have "c x y = d x y" if "map_Get m' k = Some x" "map_Get ot' k = Some y" for k x y
    using that map_Get_in [of m' k x] map_Get_in [of ot' k y] by (intro assms(3)) auto
  then have *: "MapCompare_step c lenl lenr k (map_Get m' k) (map_Get ot' k) s =
      MapCompare_step d lenl lenr k (map_Get m' k) (map_Get ot' k) s" for lenl lenr k s
    by (auto simp: MapCompare_step_def split: option.splits prod.splits)
  show ?thesis
    unfolding MapCompareUsing_def assms(1,2) Let_def
    by (intro if_cong refl arg_cong [where f = fst] arg_cong [where f = snd]
        MapZipUsing_LexicalKeyOrder_cong *)
qed

text \<open>\<^verbatim>\<open>EqualsUsing\<close>, branch by branch.\<close>

definition asFloatOrInt :: "Value \<Rightarrow> float64 option" where
  "asFloatOrInt v =
     (if is_float v then Some (AsFloat v)
      else if is_int v then Some (float64_of_int64 (AsInt v)) else None)"

lemma AsList_size [termination_simp]: "is_list v \<Longrightarrow> x \<in> set (AsList v) \<Longrightarrow> size x < size v"
  by (cases v) (auto simp: less_Suc_eq_le intro: size_list_estimation')

lemma in_alist_size: "(k, x) \<in> set m \<Longrightarrow> size x < Suc (size_list (size_prod (\<lambda>_. 0) size) m)"
  by (induction m) auto

lemma AsMap_size [termination_simp]: "is_map v \<Longrightarrow> (k, x) \<in> set (AsMap v) \<Longrightarrow> size x < size v"
  by (cases v) (auto dest: in_alist_size)

function Equals :: "Value \<Rightarrow> Value \<Rightarrow> bool" where
  "Equals lhs rhs =
     (if is_float lhs \<or> is_float rhs then
        (case asFloatOrInt lhs of
           None \<Rightarrow> False
         | Some lf \<Rightarrow> (case asFloatOrInt rhs of None \<Rightarrow> False | Some rf \<Rightarrow> float64_eq lf rf))
      else if is_int lhs then (if is_int rhs then AsInt lhs = AsInt rhs else False)
      else if is_int rhs then False
      else if is_string lhs then (if is_string rhs then AsString lhs = AsString rhs else False)
      else if is_string rhs then False
      else if is_bool lhs then (if is_bool rhs then AsBool lhs = AsBool rhs else False)
      else if is_bool rhs then False
      else if is_list lhs then
        (if is_list rhs then ListEqualsUsing Equals (AsList lhs) (AsList rhs) else False)
      else if is_list rhs then False
      else if is_map lhs then
        (if is_map rhs then mapUnstructured_EqualsUsing Equals (AsMap lhs) (AsMap rhs) else False)
      else if is_map rhs then False
      else if is_null lhs then (if is_null rhs then True else False)
      else if is_null rhs then False
      else True)"
  by pat_completeness auto
termination
  by (relation "measure (size \<circ> fst)") (auto simp: AsList_size AsMap_size)

function Compare :: "Value \<Rightarrow> Value \<Rightarrow> int" where
  "Compare lhs rhs =
     (if is_float lhs then
        (if \<not> is_float rhs then
           (if is_int rhs then FloatCompare (AsFloat lhs) (float64_of_int64 (AsInt rhs)) else - 1)
         else FloatCompare (AsFloat lhs) (AsFloat rhs))
      else if is_float rhs then
        (if is_int lhs then FloatCompare (float64_of_int64 (AsInt lhs)) (AsFloat rhs) else 1)
      else if is_int lhs then (if \<not> is_int rhs then - 1 else IntCompare (AsInt lhs) (AsInt rhs))
      else if is_int rhs then 1
      else if is_string lhs then
        (if \<not> is_string rhs then - 1 else strings_Compare (AsString lhs) (AsString rhs))
      else if is_string rhs then 1
      else if is_bool lhs then (if \<not> is_bool rhs then - 1 else BoolCompare (AsBool lhs) (AsBool rhs))
      else if is_bool rhs then 1
      else if is_list lhs then
        (if \<not> is_list rhs then - 1 else lexcmp Compare (AsList lhs) (AsList rhs))
      else if is_list rhs then 1
      else if is_map lhs then
        (if \<not> is_map rhs then - 1
         else MapCompareUsing Compare (Some (AsMap lhs)) (Some (AsMap rhs)))
      else if is_map rhs then 1
      else if is_null lhs then (if \<not> is_null rhs then - 1 else 0)
      else if is_null rhs then 1
      else 0)"
  by pat_completeness auto
termination
  by (relation "measure (size \<circ> fst)") (auto simp: AsList_size AsMap_size)

declare Equals.simps [simp del] Compare.simps [simp del]

text \<open>
  \<^verbatim>\<open>fields.go\<close>: a \<^verbatim>\<open>FieldList\<close> is a list of name/value pairs.  \<^verbatim>\<open>Sort\<close> is a stable sort by name (its
  special cases for length below three do the same); \<^verbatim>\<open>Compare\<close> is lexicographic.
\<close>

type_synonym Field = "string \<times> Value"
type_synonym FieldList = "Field list"

definition FieldList_Sort :: "FieldList \<Rightarrow> FieldList" where
  "FieldList_Sort f =
     (if length f < 2 then f
      else if length f = 2 then (if fst (f ! 1) < fst (f ! 0) then [f ! 1, f ! 0] else f)
      else sort_key fst f)"

definition Field_Compare :: "Field \<Rightarrow> Field \<Rightarrow> int" where
  "Field_Compare x y =
     (let c = strings_Compare (fst x) (fst y) in if c \<noteq> 0 then c else Compare (snd x) (snd y))"

definition FieldList_Compare :: "FieldList \<Rightarrow> FieldList \<Rightarrow> int" where
  "FieldList_Compare f rhs = lexcmp Field_Compare f rhs"

definition FieldList_Less :: "FieldList \<Rightarrow> FieldList \<Rightarrow> bool" where
  "FieldList_Less f rhs \<longleftrightarrow> FieldList_Compare f rhs = - 1"

definition FieldList_Equals :: "FieldList \<Rightarrow> FieldList \<Rightarrow> bool" where
  "FieldList_Equals f rhs \<longleftrightarrow>
     (if length f \<noteq> length rhs then False
      else list_all (\<lambda>(x, y). if fst x \<noteq> fst y then False else Equals (snd x) (snd y)) (zip f rhs))"

definition Less :: "Value \<Rightarrow> Value \<Rightarrow> bool" where
  "Less lhs rhs \<longleftrightarrow> Compare lhs rhs = - 1"

end
