(* ===== verification/Value_Order.thy ===== *)
theory Value_Order
  imports Values
begin

text \<open>
  The order on values.  \<^verbatim>\<open>Compare\<close> is meant to be a total order that agrees with \<^verbatim>\<open>Equals\<close>.  It is
  one on two classes of values, described by \<open>value_ok\<close>: values without floating point numbers, and
  values whose floats are not NaN and whose integers survive the conversion to \<^verbatim>\<open>float64\<close>.  The class
  is a parameter of all later results.  Outside of it the claim fails, which the last section shows.
\<close>

lemma pair_cmp_same: "c a a = 0 \<Longrightarrow> pair_cmp c d (a, x) (a, y) = d x y"
  by (simp add: pair_cmp_def)

section \<open>Map comparison is the lexicographic comparison of sorted field lists\<close>

lemma MapCompare_iter:
  assumes "sorted_wrt (<) (map fst L)" "sorted_wrt (<) (map fst R)"
    and "\<And>k. k \<in> fst ` set L \<union> fst ` set R \<Longrightarrow> gl k = map_of L k \<and> gr k = map_of R k"
  shows "fst (snd (iterate_until
           (\<lambda>k. MapCompare_step cmp (i + length L) (i + length R) k (gl k) (gr k))
           (sorted_list_of_set (fst ` set L \<union> fst ` set R)) (0, i)))
         = lexcmp (pair_cmp strings_Compare cmp) L R"
  using assms
proof (induction L arbitrary: R i)
  case Nil
  show ?case
  proof (cases R)
    case (Cons y R')
    let ?A = "fst ` set R"
    have "sorted_list_of_set ?A = Min ?A # sorted_list_of_set (?A - {Min ?A})"
      using Cons by (intro sorted_list_of_set_nonempty) auto
    with Cons show ?thesis by (simp add: MapCompare_step_def)
  qed simp
next
  case (Cons x L')
  show ?case
  proof (cases R)
    case Nil
    let ?A = "fst ` set (x # L')"
    have "sorted_list_of_set ?A = Min ?A # sorted_list_of_set (?A - {Min ?A})"
      by (intro sorted_list_of_set_nonempty) auto
    with Nil show ?thesis by (simp add: MapCompare_step_def)
  next
    case R: (Cons y R')
    obtain xk xv yk yv where xy: "x = (xk, xv)" "y = (yk, yv)" by fastforce
    let ?A = "fst ` set (x # L') \<union> fst ` set R" and ?k = "min xk yk"
    have xk: "k \<in> fst ` set L' \<Longrightarrow> xk < k" and yk: "k \<in> fst ` set R' \<Longrightarrow> yk < k" for k
      using Cons.prems(1,2) R xy by auto
    have min: "Min ?A = ?k"
      using R xy by (intro Min_eqI) (auto simp: min_def dest!: xk yk imageI [of _ _ fst] less_imp_le)
    have L: "sorted_list_of_set ?A = ?k # sorted_list_of_set (?A - {?k})"
      using min sorted_list_of_set_nonempty [of ?A] by simp
    have g: "gl ?k = map_of (x # L') ?k" "gr ?k = map_of R ?k"
      using Cons.prems(3) [of ?k] R xy by (auto simp: min_def)
    show ?thesis
    proof (cases xk yk rule: linorder_cases)
      case less
      have "map_of R' xk = None" using yk [of xk] less unfolding map_of_eq_None_iff by force
      moreover have "?k = xk" "xk \<noteq> yk" using less by auto
      ultimately show ?thesis using less g R xy L
        by (simp add: MapCompare_step_def pair_cmp_def strings_Compare_def linorder_cmp_def)
    next
      case greater
      have "map_of L' yk = None" using xk [of yk] greater unfolding map_of_eq_None_iff by force
      moreover have "?k = yk" "xk \<noteq> yk" using greater by auto
      ultimately show ?thesis using greater g R xy L
        by (simp add: MapCompare_step_def pair_cmp_def strings_Compare_def linorder_cmp_def)
    next
      case equal
      have "xk \<notin> fst ` set L'" "xk \<notin> fst ` set R'"
        using xk [of xk] yk [of yk] equal by auto
      then have rest: "?A - {?k} = fst ` set L' \<union> fst ` set R'"
        using R xy equal by auto
      have "gl k = map_of L' k \<and> gr k = map_of R' k" if "k \<in> fst ` set L' \<union> fst ` set R'" for k
        using Cons.prems(3) [of k] that R xy equal xk [of k] yk [of k] by auto
      then have "fst (snd (iterate_until
           (\<lambda>k. MapCompare_step cmp (Suc i + length L') (Suc i + length R') k (gl k) (gr k))
           (sorted_list_of_set (fst ` set L' \<union> fst ` set R')) (0, Suc i)))
         = lexcmp (pair_cmp strings_Compare cmp) L' R'"
        using Cons.prems(1,2) R by (intro Cons.IH) auto
      moreover have "lexcmp (pair_cmp strings_Compare cmp) (x # L') R =
          (if cmp xv yv \<noteq> 0 then cmp xv yv else lexcmp (pair_cmp strings_Compare cmp) L' R')"
        using R xy equal by (simp add: pair_cmp_same Let_def)
      ultimately show ?thesis using equal g R xy L rest
        by (simp add: MapCompare_step_def Let_def)
    qed
  qed
qed

lemma sort_key_fst_strict: "distinct (map fst m) \<Longrightarrow> sorted_wrt (<) (map fst (sort_key fst m))"
  by (simp add: strict_sorted_iff distinct_map inj_on_def)

lemma sort_filter_union:
  assumes "distinct xs" "distinct ys"
  shows "sort (xs @ filter (\<lambda>k. k \<notin> set xs) ys) = sorted_list_of_set (set xs \<union> set ys)"
  using assms by (intro sorted_distinct_set_unique) auto

lemma MapCompareUsing_sorted:
  assumes "distinct (map fst l)" "distinct (map fst r)"
  shows "MapCompareUsing cmp (Some l) (Some r) =
    lexcmp (pair_cmp strings_Compare cmp) (sort_key fst l) (sort_key fst r)"
proof -
  let ?L = "sort_key fst l" and ?R = "sort_key fst r"
  have m: "map_of ?L = map_of l" "map_of ?R = map_of r"
    using assms by (auto simp: map_of_inject_set distinct_map)
  have "fst (snd (iterate_until
           (\<lambda>k. MapCompare_step cmp (0 + length ?L) (0 + length ?R) k (map_of l k) (map_of r k))
           (sorted_list_of_set (fst ` set ?L \<union> fst ` set ?R)) (0, 0)))
         = lexcmp (pair_cmp strings_Compare cmp) ?L ?R"
    by (intro MapCompare_iter) (auto simp: sort_key_fst_strict assms m)
  moreover have "lexcmp (pair_cmp strings_Compare cmp) ?L ?R = 0" if "l = []" "r = []"
    using that by simp
  ultimately show ?thesis
    using sort_filter_union [OF assms]
    by (auto simp: MapCompareUsing_def MapZipUsing_def defaultMapZip_def lexicalKeyOrderedMapZip_def
        map_Length_def map_Get_def map_keys_def Let_def)
qed

section \<open>The class of comparable values\<close>

datatype num_mode = No_Floats | Exact_Ints

definition exact_int64 :: "64 word \<Rightarrow> bool" where
  "exact_int64 i \<longleftrightarrow> round53 (sint i) = sint i"

lemma exact_int64_small:
  assumes "\<bar>sint i\<bar> < 2 ^ 53"
  shows "exact_int64 i"
proof -
  have "excess_bits (nat \<bar>sint i\<bar>) = 0" using assms by (simp add: excess_bits.simps)
  then show ?thesis by (simp add: exact_int64_def round53_def sgn_mult_abs)
qed

fun value_ok :: "num_mode \<Rightarrow> Value \<Rightarrow> bool" where
  "value_ok m (VInt i) = (m = Exact_Ints \<longrightarrow> exact_int64 i)"
| "value_ok m (VFloat f) = (m = Exact_Ints \<and> f \<noteq> NaN)"
| "value_ok m (VList xs) = list_all (value_ok m) xs"
| "value_ok m (VMap kvs) = (distinct (map fst kvs) \<and> list_all (\<lambda>kv. value_ok m (snd kv)) kvs)"
| "value_ok m _ = True"

section \<open>Comparison on the classes of values\<close>

lemma FloatCompare_comparator: "comparator (\<lambda>f. f \<noteq> NaN) FloatCompare"
proof (rule comparator.intro)
  show "FloatCompare x y \<in> {- 1, 0, 1}" for x y
    by (auto simp: FloatCompare_def)
  show "FloatCompare y x = - FloatCompare x y" for x y
    by (cases x; cases y) (auto simp: FloatCompare_def)
  show "FloatCompare x z \<le> 0" if "y \<noteq> NaN" "FloatCompare x y \<le> 0" "FloatCompare y z \<le> 0" for x y z
    using that by (cases x; cases y; cases z) (auto simp: FloatCompare_def split: if_splits)
qed

lemma IntCompare_comparator: "comparator (\<lambda>_. True) IntCompare"
  by (rule comparator_pullback [OF comparator_linorder_cmp, where f = sint])
     (auto simp: IntCompare_def linorder_cmp_def)

lemma BoolCompare_comparator: "comparator (\<lambda>_. True) BoolCompare"
  by (rule comparator_pullback [OF comparator_linorder_cmp, where f = id])
     (auto simp: BoolCompare_def linorder_cmp_def)

text \<open>The rank of a value is the position of its kind in the \<^verbatim>\<open>if\<close> cascade of \<^verbatim>\<open>CompareUsing\<close>.\<close>

fun value_rank :: "Value \<Rightarrow> nat" where
  "value_rank (VFloat _) = 0"
| "value_rank (VInt _) = 0"
| "value_rank (VString _) = 1"
| "value_rank (VBool _) = 2"
| "value_rank (VList _) = 3"
| "value_rank (VMap _) = 4"
| "value_rank VNull = 5"
| "value_rank VOther = 6"

lemma Compare_rank: "value_rank v < value_rank w \<Longrightarrow> Compare v w = - 1 \<and> Compare w v = 1"
  by (cases v; cases w) (auto simp: Compare.simps)

lemma Compare_same [cmp_simps]:
  "Compare (VString a) (VString b) = strings_Compare a b"
  "Compare (VBool p) (VBool q) = BoolCompare p q"
  "Compare (VInt i) (VInt j) = IntCompare i j"
  "Compare (VFloat f) (VFloat g) = FloatCompare f g"
  "Compare (VFloat f) (VInt j) = FloatCompare f (float64_of_int64 j)"
  "Compare (VInt i) (VFloat g) = FloatCompare (float64_of_int64 i) g"
  "Compare (VList xs) (VList ys) = lexcmp Compare xs ys"
  "Compare (VMap l) (VMap r) = MapCompareUsing Compare (Some l) (Some r)"
  "Compare VNull VNull = 0" "Compare VOther VOther = 0"
  by (simp_all add: Compare.simps)

lemma FloatCompare_exact:
  "exact_int64 i \<Longrightarrow> exact_int64 j \<Longrightarrow> FloatCompare (float64_of_int64 i) (float64_of_int64 j) = IntCompare i j"
  by (simp add: FloatCompare_def float64_of_int64_def IntCompare_def exact_int64_def)

lemma float64_of_int64_not_NaN [simp]: "float64_of_int64 i \<noteq> NaN"
  by (simp add: float64_of_int64_def)

lemma value_rank_cases:
  "value_rank v = 0 \<Longrightarrow> (\<exists>f. v = VFloat f) \<or> (\<exists>i. v = VInt i)"
  "value_rank v = Suc 0 \<Longrightarrow> \<exists>s. v = VString s" "value_rank v = 2 \<Longrightarrow> \<exists>b. v = VBool b"
  "value_rank v = 3 \<Longrightarrow> \<exists>xs. v = VList xs" "value_rank v = 4 \<Longrightarrow> \<exists>m. v = VMap m"
  "value_rank v = 5 \<Longrightarrow> v = VNull" "value_rank v = 6 \<Longrightarrow> v = VOther"
  by (cases v; simp)+

lemma value_rank_le: "value_rank v \<le> 6"
  by (cases v) auto

lemma comparator_numbers: "comparator (\<lambda>v. value_ok m v \<and> value_rank v = 0) Compare"
proof (cases m)
  case No_Floats
  show ?thesis
    by (rule comparator_pullback [OF IntCompare_comparator, where f = AsInt])
       (auto simp: No_Floats cmp_simps dest!: value_rank_cases)
next
  case Exact_Ints
  show ?thesis
    by (rule comparator_pullback [OF FloatCompare_comparator, where f = "\<lambda>v. the (asFloatOrInt v)"])
       (auto simp: Exact_Ints cmp_simps asFloatOrInt_def FloatCompare_exact
             dest!: value_rank_cases)
qed

lemma comparator_scalars:
  assumes "r \<in> {1, 2, 5, 6}"
  shows "comparator (\<lambda>v. value_ok m v \<and> value_rank v = r) Compare"
proof -
  have "comparator (\<lambda>v. value_rank v = 1) Compare"
    by (rule comparator_pullback [OF str.comparator_axioms, where f = AsString])
       (auto simp: cmp_simps dest!: value_rank_cases)
  moreover have "comparator (\<lambda>v. value_rank v = 2) Compare"
    by (rule comparator_pullback [OF BoolCompare_comparator, where f = AsBool])
       (auto simp: cmp_simps dest!: value_rank_cases)
  moreover have "comparator (\<lambda>v. value_rank v = 5) Compare" "comparator (\<lambda>v. value_rank v = 6) Compare"
    by (unfold_locales; auto simp: cmp_simps dest!: value_rank_cases)+
  ultimately show ?thesis using assms by (auto elim: comparator_subset)
qed

lemma value_ok_list_size:
  "value_ok m (VList xs) \<Longrightarrow> size (VList xs) < Suc n \<Longrightarrow> list_all (\<lambda>v. value_ok m v \<and> size v < n) xs"
  using AsList_size [of "VList xs"] by (fastforce simp: list_all_iff)

lemma value_ok_map_size:
  "value_ok m (VMap kvs) \<Longrightarrow> size (VMap kvs) < Suc n \<Longrightarrow>
    list_all (\<lambda>kv. value_ok m (snd kv) \<and> size (snd kv) < n) (sort_key fst kvs)"
  using AsMap_size [of "VMap kvs"] by (fastforce simp: list_all_iff)

lemma comparator_lists:
  assumes "comparator (\<lambda>v. value_ok m v \<and> size v < n) Compare"
  shows "comparator (\<lambda>v. (value_ok m v \<and> size v < Suc n) \<and> value_rank v = 3) Compare"
  by (rule comparator_pullback [OF comparator.comparator_lexcmp [OF assms], where f = AsList])
     (auto simp: cmp_simps simp del: value_ok.simps dest!: value_rank_cases intro!: value_ok_list_size)

lemma comparator_maps:
  assumes "comparator (\<lambda>v. value_ok m v \<and> size v < n) Compare"
  shows "comparator (\<lambda>v. (value_ok m v \<and> size v < Suc n) \<and> value_rank v = 4) Compare"
proof -
  have "comparator (\<lambda>kv. True \<and> value_ok m (snd kv) \<and> size (snd kv) < n) (pair_cmp strings_Compare Compare)"
    by (rule comparator_pair [OF str.comparator_axioms assms])
  from comparator.comparator_lexcmp [OF this] show ?thesis
    by (rule comparator_pullback [where f = "\<lambda>v. sort_key fst (AsMap v)"])
       (auto simp: cmp_simps MapCompareUsing_sorted dest!: value_rank_cases
         dest: value_ok_map_size [rotated])
qed

lemma comparator_bounded: "comparator (\<lambda>v. value_ok m v \<and> size v < n) Compare"
proof (induction n)
  case 0
  show ?case by unfold_locales auto
next
  case (Suc n)
  show ?case
  proof (rule comparator_rank [of _ value_rank])
    fix r :: nat
    consider "r = 0" | "r \<in> {1, 2, 5, 6}" | "r = 3" | "r = 4" | "6 < r" by force
    then show "comparator (\<lambda>v. (value_ok m v \<and> size v < Suc n) \<and> value_rank v = r) Compare"
    proof cases
      case 1
      then show ?thesis by (intro comparator_subset [OF comparator_numbers [of m]]) simp
    next
      case 2
      then show ?thesis by (intro comparator_subset [OF comparator_scalars [OF 2, of m]]) simp
    next
      case 3
      then show ?thesis using comparator_lists [OF Suc.IH] by simp
    next
      case 4
      then show ?thesis using comparator_maps [OF Suc.IH] by simp
    next
      case 5
      then have "value_rank v \<noteq> r" for v using value_rank_le [of v] by simp
      then show ?thesis by unfold_locales simp_all
    qed
  qed (use Compare_rank in blast)
qed

lemma comparator_Compare: "comparator (value_ok m) Compare"
proof (rule comparator.intro)
  fix x y z :: Value
  let ?n = "Suc (size x + size y + size z)"
  note c = comparator_bounded [of m ?n]
  assume ok: "value_ok m x" "value_ok m y"
  show "Compare x y \<in> {- 1, 0, 1}" and "Compare y x = - Compare x y"
    using comparator.cmp_range [OF c, of x y] comparator.cmp_flip [OF c, of x y] ok by auto
  assume "value_ok m z" "Compare x y \<le> 0" "Compare y z \<le> 0"
  then show "Compare x z \<le> 0"
    using comparator.cmp_le_trans [OF c, of x y z] ok by auto
qed

section \<open>Agreement of equality and comparison\<close>

lemma iterate_until_pairs:
  "fst (iterate_until (\<lambda>(k, v) _. (Q k v, ())) xs ()) \<longleftrightarrow> (\<forall>(k, v) \<in> set xs. Q k v)"
  by (induction xs) (auto split: prod.splits)

lemma mapUnstructured_EqualsUsing_iff:
  "mapUnstructured_EqualsUsing eq m ot \<longleftrightarrow>
     length m = length ot \<and> (\<forall>(k, v) \<in> set ot. \<exists>lv. map_of m k = Some lv \<and> eq lv v)"
  unfolding mapUnstructured_EqualsUsing_def iterate_until_pairs
  by (auto split: option.splits)

text \<open>For maps with distinct keys: the same keys, and related values under each.\<close>

definition same_map :: "('v \<Rightarrow> 'v \<Rightarrow> bool) \<Rightarrow> (string \<times> 'v) list \<Rightarrow> (string \<times> 'v) list \<Rightarrow> bool" where
  "same_map eq l r \<longleftrightarrow> fst ` set l = fst ` set r \<and>
     (\<forall>k x y. map_of l k = Some x \<longrightarrow> map_of r k = Some y \<longrightarrow> eq x y)"

lemma mapUnstructured_EqualsUsing_same_map:
  assumes "distinct (map fst l)" "distinct (map fst r)"
  shows "mapUnstructured_EqualsUsing eq l r \<longleftrightarrow> same_map eq l r"
proof -
  have len: "length l = card (fst ` set l)" "length r = card (fst ` set r)"
    using assms by (metis distinct_card length_map list.set_map)+
  have keys: "(\<forall>(k, v) \<in> set r. \<exists>lv. map_of l k = Some lv \<and> eq lv v) \<longleftrightarrow>
      fst ` set r \<subseteq> fst ` set l \<and> (\<forall>k x y. map_of l k = Some x \<longrightarrow> map_of r k = Some y \<longrightarrow> eq x y)"
    (is "?L \<longleftrightarrow> ?S \<and> ?R")
  proof
    assume L: ?L
    have "\<exists>lv. map_of l k = Some lv" if "(k, v) \<in> set r" for k v using L that by auto
    then have ?S by (auto simp flip: dom_map_of_conv_image_fst dest: map_of_SomeD)
    moreover have ?R using L by (fastforce dest: map_of_SomeD)
    ultimately show "?S \<and> ?R" ..
  next
    assume SR: "?S \<and> ?R"
    have "\<exists>lv. map_of l k = Some lv \<and> eq lv v" if kv: "(k, v) \<in> set r" for k v
    proof -
      have "k \<in> fst ` set l" using SR kv by force
      then obtain lv where "map_of l k = Some lv" by (metis domD dom_map_of_conv_image_fst)
      with SR assms(2) kv show ?thesis by (simp add: map_of_eq_Some_iff)
    qed
    then show ?L by blast
  qed
  show ?thesis
    unfolding mapUnstructured_EqualsUsing_iff keys same_map_def len
    using card_subset_eq [of "fst ` set l" "fst ` set r"] by (metis List.finite_set finite_imageI subset_refl)
qed

lemma sorted_fields_same_map:
  assumes "distinct (map fst l)" "distinct (map fst r)"
  shows "list_all2 (\<lambda>x y. fst x = fst y \<and> eq (snd x) (snd y)) (sort_key fst l) (sort_key fst r)
    \<longleftrightarrow> same_map eq l r"
    (is "list_all2 ?Q ?L ?R \<longleftrightarrow> _")
proof -
  have m: "map_of ?L = map_of l" "map_of ?R = map_of r"
    using assms by (auto simp: map_of_inject_set distinct_map)
  have d: "distinct (map fst ?L)" "distinct (map fst ?R)"
    using assms by (simp_all add: distinct_map)
  have keys: "map fst ?L = map fst ?R \<longleftrightarrow> fst ` set l = fst ` set r"
  proof -
    have "sorted (map fst ?L)" "sorted (map fst ?R)" by simp_all
    then have "map fst ?L = map fst ?R" if "set (map fst ?L) = set (map fst ?R)"
      using d that by (intro sorted_distinct_set_unique)
    then show ?thesis by (metis list.set_map set_sort)
  qed
  have nth: "map_of l (fst (?L ! i)) = Some (snd (?L ! i))" if "i < length ?L" for i
    using d(1) nth_mem [OF that] by (simp flip: m add: map_of_eq_Some_iff)
  have nth': "map_of r (fst (?R ! i)) = Some (snd (?R ! i))" if "i < length ?R" for i
    using d(2) nth_mem [OF that] by (simp flip: m add: map_of_eq_Some_iff)
  have ex: "\<exists>i < length ?L. fst (?L ! i) = k" if "map_of l k = Some x" for k x
    using map_of_SomeD [OF that] by (metis fst_conv in_set_conv_nth set_sort)
  show ?thesis
  proof
    assume Q: "list_all2 ?Q ?L ?R"
    then have keq: "map fst ?L = map fst ?R"
      by (auto simp: list_all2_conv_all_nth intro: nth_equalityI)
    moreover have "eq x y" if xy: "map_of l k = Some x" "map_of r k = Some y" for k x y
    proof -
      obtain i where i: "i < length ?L" "fst (?L ! i) = k" using ex xy(1) by blast
      with Q have "?Q (?L ! i) (?R ! i)" "i < length ?R" by (auto simp: list_all2_conv_all_nth)
      with i xy nth [of i] nth' [of i] show ?thesis by auto
    qed
    ultimately show "same_map eq l r" by (auto simp: same_map_def keys)
  next
    assume S: "same_map eq l r"
    then have keq: "map fst ?L = map fst ?R" by (simp add: same_map_def keys)
    then have len: "length ?L = length ?R" by (metis length_map)
    have "?Q (?L ! i) (?R ! i)" if "i < length ?L" for i
    proof -
      have "fst (?L ! i) = fst (?R ! i)" using arg_cong [OF keq, of "\<lambda>ks. ks ! i"] that len by simp
      with nth [of i] nth' [of i] that len S show ?thesis by (auto simp: same_map_def)
    qed
    with len show "list_all2 ?Q ?L ?R" by (simp add: list_all2_conv_all_nth)
  qed
qed

lemma Equals_same [cmp_simps]:
  "Equals (VString a) (VString b) \<longleftrightarrow> a = b"
  "Equals (VBool p) (VBool q) \<longleftrightarrow> p = q"
  "Equals (VInt i) (VInt j) \<longleftrightarrow> i = j"
  "Equals (VFloat f) (VFloat g) \<longleftrightarrow> float64_eq f g"
  "Equals (VFloat f) (VInt j) \<longleftrightarrow> float64_eq f (float64_of_int64 j)"
  "Equals (VInt i) (VFloat g) \<longleftrightarrow> float64_eq (float64_of_int64 i) g"
  "Equals (VList xs) (VList ys) \<longleftrightarrow> ListEqualsUsing Equals xs ys"
  "Equals (VMap l) (VMap r) \<longleftrightarrow> mapUnstructured_EqualsUsing Equals l r"
  "Equals VNull VNull" "Equals VOther VOther"
  by (simp_all add: Equals.simps asFloatOrInt_def)

lemma Equals_rank: "value_rank v \<noteq> value_rank w \<Longrightarrow> \<not> Equals v w"
  by (cases v; cases w) (auto simp: Equals.simps asFloatOrInt_def)

lemma ListEqualsUsing_list_all2: "ListEqualsUsing eq xs ys \<longleftrightarrow> list_all2 eq xs ys"
  by (auto simp: ListEqualsUsing_def list_all2_iff list_all_iff)

lemma FloatCompare_zero: "f \<noteq> NaN \<Longrightarrow> g \<noteq> NaN \<Longrightarrow> FloatCompare f g = 0 \<longleftrightarrow> float64_eq f g"
  by (cases f; cases g) (auto simp: FloatCompare_def float64_eq_def)

lemma IntCompare_zero: "IntCompare i j = 0 \<longleftrightarrow> i = j"
  by (auto simp: IntCompare_def word_eq_iff_signed [where ?'a = int])

lemma pair_cmp_zero: "pair_cmp strings_Compare c x y = 0 \<longleftrightarrow> fst x = fst y \<and> c (snd x) (snd y) = 0"
  by (auto simp: pair_cmp_def Let_def)

lemma Equals_iff_Compare:
  "value_ok m v \<Longrightarrow> value_ok m w \<Longrightarrow> Equals v w \<longleftrightarrow> Compare v w = 0"
proof (induction "size v" arbitrary: v w rule: less_induct)
  case less
  note ok = less.prems
  show ?case
  proof (cases "value_rank v = value_rank w")
    case False
    then have "Compare v w \<noteq> 0" using Compare_rank [of v w] Compare_rank [of w v] by fastforce
    with Equals_rank [OF False] show ?thesis by simp
  next
    case rank: True
    show ?thesis
    proof (cases v)
      case (VList xs)
      then obtain ys where w: "w = VList ys" using rank by (cases w) auto
      have "Equals x y \<longleftrightarrow> Compare x y = 0" if "x \<in> set xs" "y \<in> set ys" for x y
        using AsList_size [of v x] VList w that ok by (intro less.hyps) (auto simp: list_all_iff)
      then show ?thesis
        by (auto simp: VList w cmp_simps ListEqualsUsing_list_all2 lexcmp_zero_iff
            intro: list.rel_mono_strong)
    next
      case (VMap l)
      then obtain r where w: "w = VMap r" using rank by (cases w) auto
      have d: "distinct (map fst l)" "distinct (map fst r)" using ok VMap w by auto
      have "Equals x y \<longleftrightarrow> Compare x y = 0" if "map_of l k = Some x" "map_of r k = Some y" for k x y
        using AsMap_size [of v k x] VMap w map_of_SomeD [OF that(1)] map_of_SomeD [OF that(2)] ok
        by (intro less.hyps) (auto simp: list_all_iff)
      then have "same_map Equals l r \<longleftrightarrow> same_map (\<lambda>x y. Compare x y = 0) l r"
        by (auto simp: same_map_def)
      moreover have "Compare v w = 0 \<longleftrightarrow> same_map (\<lambda>x y. Compare x y = 0) l r"
        using sorted_fields_same_map [OF d, of "\<lambda>x y. Compare x y = 0"]
        by (simp add: VMap w cmp_simps MapCompareUsing_sorted d lexcmp_zero_iff pair_cmp_zero)
      ultimately show ?thesis
        by (simp add: VMap w cmp_simps mapUnstructured_EqualsUsing_same_map d)
    qed (use rank ok in \<open>cases w; auto simp: cmp_simps BoolCompare_def IntCompare_zero FloatCompare_zero\<close>)+
  qed
qed

interpretation val: key_order "value_ok m" Compare Equals
  for m
  by (intro key_order.intro comparator_Compare key_order_axioms.intro Equals_iff_Compare)

section \<open>Field lists\<close>

definition fields_ok :: "num_mode \<Rightarrow> FieldList \<Rightarrow> bool" where
  "fields_ok m f \<longleftrightarrow> list_all (\<lambda>x. value_ok m (snd x)) f"

lemma Field_Compare_pair: "Field_Compare = pair_cmp strings_Compare Compare"
  by (simp add: fun_eq_iff Field_Compare_def pair_cmp_def)

lemma comparator_FieldList: "comparator (fields_ok m) FieldList_Compare"
proof -
  have "comparator (\<lambda>x. True \<and> value_ok m (snd x)) Field_Compare"
    unfolding Field_Compare_pair by (rule comparator_pair [OF str.comparator_axioms comparator_Compare])
  from comparator.comparator_lexcmp [OF this] show ?thesis
    by (rule comparator_pullback [where f = id]) (simp_all add: fields_ok_def FieldList_Compare_def)
qed

lemma FieldList_Equals_iff:
  assumes "fields_ok m f" "fields_ok m g"
  shows "FieldList_Equals f g \<longleftrightarrow> FieldList_Compare f g = 0"
proof -
  have "Equals (snd x) (snd y) \<longleftrightarrow> Compare (snd x) (snd y) = 0" if "(x, y) \<in> set (zip f g)" for x y
    using assms set_zip_leftD [OF that] set_zip_rightD [OF that]
    by (intro val.eqv_iff [of m]) (auto simp: fields_ok_def list_all_iff)
  then show ?thesis
    unfolding FieldList_Equals_def FieldList_Compare_def Field_Compare_pair lexcmp_zero_iff
    by (auto simp: list_all2_iff list_all_iff pair_cmp_zero split: if_splits)
qed

interpretation fld: key_order "fields_ok m" FieldList_Compare FieldList_Equals
  for m
  by (intro key_order.intro comparator_FieldList key_order_axioms.intro FieldList_Equals_iff)

lemma FieldList_Sort_sort_key: "FieldList_Sort f = sort_key fst f"
proof -
  consider "length f < 2" | x y where "f = [x, y]" | "2 < length f"
    by (cases f; cases "tl f"; cases "tl (tl f)") auto
  then show ?thesis
  proof cases
    case 1
    then show ?thesis by (cases f; cases "tl f") (auto simp: FieldList_Sort_def)
  qed (auto simp: FieldList_Sort_def)
qed

lemma fields_ok_Sort [simp]: "fields_ok m (FieldList_Sort f) \<longleftrightarrow> fields_ok m f"
  by (simp add: FieldList_Sort_sort_key fields_ok_def list_all_iff)

end
