(* ===== verification/Path_Elements.thy ===== *)
theory Path_Elements
  imports Value_Order
begin

text \<open>
  \<^verbatim>\<open>fieldpath/element.go\<close>, \<^verbatim>\<open>fieldpath/path.go\<close> and \<^verbatim>\<open>fieldpath/pathelementmap.go\<close>: path elements and
  their order, sorted sets of path elements, sorted maps keyed by path elements, and paths.  A path
  element is a struct of four pointers of which at most one should be set; the code also passes around
  the zero struct, so the record keeps all four options.
\<close>

section \<open>Path elements\<close>

record PathElement =
  FieldName :: "string option"
  Key :: "FieldList option"
  Value :: "Value option"
  Index :: "64 word option"

definition PathElement_zero :: PathElement where
  "PathElement_zero = \<lparr>FieldName = None, Key = None, Value = None, Index = None\<rparr>"

definition pe_field :: "string \<Rightarrow> PathElement" where
  "pe_field n = \<lparr>FieldName = Some n, Key = None, Value = None, Index = None\<rparr>"

definition pe_key :: "FieldList \<Rightarrow> PathElement" where
  "pe_key f = \<lparr>FieldName = None, Key = Some f, Value = None, Index = None\<rparr>"

definition pe_value :: "Value \<Rightarrow> PathElement" where
  "pe_value v = \<lparr>FieldName = None, Key = None, Value = Some v, Index = None\<rparr>"

definition pe_index :: "64 word \<Rightarrow> PathElement" where
  "pe_index i = \<lparr>FieldName = None, Key = None, Value = None, Index = Some i\<rparr>"

definition PathElement_Compare :: "PathElement \<Rightarrow> PathElement \<Rightarrow> int" where
  "PathElement_Compare e rhs =
     (case FieldName e of
        Some n \<Rightarrow> (case FieldName rhs of None \<Rightarrow> - 1 | Some n' \<Rightarrow> strings_Compare n n')
      | None \<Rightarrow>
     if FieldName rhs \<noteq> None then 1 else
     (case Key e of
        Some k \<Rightarrow> (case Key rhs of None \<Rightarrow> - 1 | Some k' \<Rightarrow> FieldList_Compare k k')
      | None \<Rightarrow>
     if Key rhs \<noteq> None then 1 else
     (case Value e of
        Some v \<Rightarrow> (case Value rhs of None \<Rightarrow> - 1 | Some v' \<Rightarrow> Compare v v')
      | None \<Rightarrow>
     if Value rhs \<noteq> None then 1 else
     (case Index e of
        Some i \<Rightarrow> (case Index rhs of None \<Rightarrow> - 1
                   | Some i' \<Rightarrow> if sint i < sint i' then - 1 else if i = i' then 0 else 1)
      | None \<Rightarrow> if Index rhs \<noteq> None then 1 else 0))))"

definition PathElement_Less :: "PathElement \<Rightarrow> PathElement \<Rightarrow> bool" where
  "PathElement_Less e rhs \<longleftrightarrow> PathElement_Compare e rhs < 0"

definition PathElement_Equals :: "PathElement \<Rightarrow> PathElement \<Rightarrow> bool" where
  "PathElement_Equals e rhs \<longleftrightarrow>
     (case FieldName e of
        Some n \<Rightarrow> (case FieldName rhs of None \<Rightarrow> False | Some n' \<Rightarrow> n = n')
      | None \<Rightarrow>
     if FieldName rhs \<noteq> None then False else
     (case Key e of
        Some k \<Rightarrow> (case Key rhs of None \<Rightarrow> False | Some k' \<Rightarrow> FieldList_Equals k k')
      | None \<Rightarrow>
     if Key rhs \<noteq> None then False else
     (case Value e of
        Some v \<Rightarrow> (case Value rhs of None \<Rightarrow> False | Some v' \<Rightarrow> Equals v v')
      | None \<Rightarrow>
     if Value rhs \<noteq> None then False else
     (case Index e of
        Some i \<Rightarrow> (case Index rhs of None \<Rightarrow> False | Some i' \<Rightarrow> i = i')
      | None \<Rightarrow> if Index rhs \<noteq> None then False else True))))"

text \<open>\<^verbatim>\<open>KeyByFields\<close>: its alternating names and values are given as pairs (an odd number of them panics).\<close>

definition KeyByFields :: "(string \<times> Value) list \<Rightarrow> FieldList" where
  "KeyByFields nameValues = FieldList_Sort nameValues"

section \<open>Sorted sets of path elements\<close>

type_synonym PathElementSet = "PathElement list"

definition pe_search :: "PathElement list \<Rightarrow> PathElement \<Rightarrow> nat" where
  "pe_search members pe = sort_Search (length members) (\<lambda>i. \<not> PathElement_Less (members ! i) pe)"

definition PathElementSet_Insert :: "PathElementSet \<Rightarrow> PathElement \<Rightarrow> PathElementSet" where
  "PathElementSet_Insert s pe =
     (let loc = pe_search s pe
      in if loc = length s then s @ [pe]
         else if PathElement_Equals (s ! loc) pe then s
         else take loc s @ pe # drop loc s)"

fun PathElementSet_Union :: "PathElementSet \<Rightarrow> PathElementSet \<Rightarrow> PathElementSet" where
  "PathElementSet_Union (x # xs) (y # ys) =
     (if PathElement_Less x y then x # PathElementSet_Union xs (y # ys)
      else y # (if \<not> PathElement_Less y x then PathElementSet_Union xs ys
                else PathElementSet_Union (x # xs) ys))"
| "PathElementSet_Union xs [] = xs"
| "PathElementSet_Union [] ys = ys"

fun PathElementSet_Intersection :: "PathElementSet \<Rightarrow> PathElementSet \<Rightarrow> PathElementSet" where
  "PathElementSet_Intersection (x # xs) (y # ys) =
     (if PathElement_Less x y then PathElementSet_Intersection xs (y # ys)
      else if \<not> PathElement_Less y x then x # PathElementSet_Intersection xs ys
      else PathElementSet_Intersection (x # xs) ys)"
| "PathElementSet_Intersection _ _ = []"

fun PathElementSet_Difference :: "PathElementSet \<Rightarrow> PathElementSet \<Rightarrow> PathElementSet" where
  "PathElementSet_Difference (x # xs) (y # ys) =
     (if PathElement_Less x y then x # PathElementSet_Difference xs (y # ys)
      else if \<not> PathElement_Less y x then PathElementSet_Difference xs ys
      else PathElementSet_Difference (x # xs) ys)"
| "PathElementSet_Difference xs [] = xs"
| "PathElementSet_Difference [] ys = []"

definition PathElementSet_Size :: "PathElementSet \<Rightarrow> nat" where
  "PathElementSet_Size s = length s"

definition PathElementSet_Has :: "PathElementSet \<Rightarrow> PathElement \<Rightarrow> bool" where
  "PathElementSet_Has s pe =
     (let loc = pe_search s pe
      in if loc = length s then False
         else if PathElement_Equals (s ! loc) pe then True else False)"

definition PathElementSet_Equals :: "PathElementSet \<Rightarrow> PathElementSet \<Rightarrow> bool" where
  "PathElementSet_Equals s s2 \<longleftrightarrow>
     (if length s \<noteq> length s2 then False
      else list_all (\<lambda>(x, y). PathElement_Equals x y) (zip s s2))"

text \<open>\<^verbatim>\<open>Iterate\<close> calls its argument on the members in order; the captured state is threaded.\<close>

definition PathElementSet_Iterate :: "PathElementSet \<Rightarrow> (PathElement \<Rightarrow> 's \<Rightarrow> 's) \<Rightarrow> 's \<Rightarrow> 's" where
  "PathElementSet_Iterate s f st = fold f s st"

section \<open>Maps keyed by path elements\<close>

type_synonym 'v PathElementMap = "(PathElement \<times> 'v) list"

definition PathElementMap_Insert :: "'v PathElementMap \<Rightarrow> PathElement \<Rightarrow> 'v \<Rightarrow> 'v PathElementMap" where
  "PathElementMap_Insert s pe v =
     (let loc = pe_search (map fst s) pe
      in if loc = length s then s @ [(pe, v)]
         else if PathElement_Equals (fst (s ! loc)) pe then s[loc := (fst (s ! loc), v)]
         else take loc s @ (pe, v) # drop loc s)"

definition PathElementMap_Get :: "'v PathElementMap \<Rightarrow> PathElement \<Rightarrow> 'v option" where
  "PathElementMap_Get s pe =
     (let loc = pe_search (map fst s) pe
      in if loc = length s then None
         else if PathElement_Equals (fst (s ! loc)) pe then Some (snd (s ! loc)) else None)"

section \<open>Paths\<close>

type_synonym Path = "PathElement list"

definition Path_Equals :: "Path \<Rightarrow> Path \<Rightarrow> bool" where
  "Path_Equals fp fp2 \<longleftrightarrow>
     (if length fp \<noteq> length fp2 then False
      else list_all (\<lambda>(x, y). PathElement_Equals x y) (zip fp fp2))"

definition Path_Compare :: "Path \<Rightarrow> Path \<Rightarrow> int" where
  "Path_Compare fp rhs = lexcmp PathElement_Compare fp rhs"

text \<open>The dynamic argument types that \<^verbatim>\<open>MakePath\<close> distinguishes; \<open>PartOther\<close> is any other type.\<close>

datatype path_part =
    PartPE PathElement
  | PartInt "64 word"
  | PartString string
  | PartKey FieldList
  | PartValue Value
  | PartOther

datatype MakePath_error = EmptyKey | BadPart

fun MakePath :: "path_part list \<Rightarrow> MakePath_error + Path" where
  "MakePath [] = Inr []"
| "MakePath (p # ps) =
     (case (case p of
              PartPE t \<Rightarrow> Inr t
            | PartInt t \<Rightarrow> Inr (pe_index t)
            | PartString t \<Rightarrow> Inr (pe_field t)
            | PartKey t \<Rightarrow> if length t = 0 then Inl EmptyKey else Inr (pe_key t)
            | PartValue t \<Rightarrow> Inr (pe_value t)
            | PartOther \<Rightarrow> Inl BadPart) of
        Inl e \<Rightarrow> Inl e
      | Inr pe \<Rightarrow> (case MakePath ps of Inl e \<Rightarrow> Inl e | Inr fp \<Rightarrow> Inr (pe # fp)))"

section \<open>The order on path elements\<close>

text \<open>\<^verbatim>\<open>PathElement\<close> documents that exactly one field should be set; the zero element is tolerated.\<close>

definition pe_single :: "PathElement \<Rightarrow> bool" where
  "pe_single e \<longleftrightarrow>
     (FieldName e \<noteq> None \<longrightarrow> Key e = None \<and> Value e = None \<and> Index e = None) \<and>
     (Key e \<noteq> None \<longrightarrow> Value e = None \<and> Index e = None) \<and> (Value e \<noteq> None \<longrightarrow> Index e = None)"

definition pe_ok :: "num_mode \<Rightarrow> PathElement \<Rightarrow> bool" where
  "pe_ok m e \<longleftrightarrow> pred_option (fields_ok m) (Key e) \<and> pred_option (value_ok m) (Value e) \<and> pe_single e"

definition pe_rank :: "PathElement \<Rightarrow> nat" where
  "pe_rank e =
     (if FieldName e \<noteq> None then 0 else if Key e \<noteq> None then 1 else if Value e \<noteq> None then 2
      else if Index e \<noteq> None then 3 else 4)"

lemma PathElement_Compare_rank:
  "pe_rank x < pe_rank y \<Longrightarrow> PathElement_Compare x y = - 1 \<and> PathElement_Compare y x = 1"
  by (auto simp: pe_rank_def PathElement_Compare_def split: if_splits option.splits)

lemma pe_rank_cases:
  "pe_rank e = 0 \<Longrightarrow> \<exists>n. FieldName e = Some n"
  "pe_rank e = Suc 0 \<Longrightarrow> FieldName e = None \<and> (\<exists>k. Key e = Some k)"
  "pe_rank e = 2 \<Longrightarrow> FieldName e = None \<and> Key e = None \<and> (\<exists>v. Value e = Some v)"
  "pe_rank e = 3 \<Longrightarrow> FieldName e = None \<and> Key e = None \<and> Value e = None \<and> (\<exists>i. Index e = Some i)"
  "4 \<le> pe_rank e \<Longrightarrow> FieldName e = None \<and> Key e = None \<and> Value e = None \<and> Index e = None"
  by (auto simp: pe_rank_def split: if_splits)

lemma comparator_Index: "comparator (\<lambda>_. True) (\<lambda>i i' :: 64 word. if sint i < sint i' then - 1 else if i = i' then 0 else 1)"
  by (rule comparator_pullback [OF comparator_linorder_cmp, where f = sint])
     (auto simp: linorder_cmp_def word_eq_iff_signed [where ?'a = int])

lemma comparator_pe_rank: "comparator (\<lambda>x. pe_ok m x \<and> pe_rank x = r) PathElement_Compare"
proof -
  consider "r = 0" | "r = 1" | "r = 2" | "r = 3" | "r \<ge> 4" by linarith
  then show ?thesis
  proof cases
    case 1
    show ?thesis
      by (rule comparator_pullback [OF str.comparator_axioms, where f = "the \<circ> FieldName"])
         (auto simp: 1 PathElement_Compare_def dest!: pe_rank_cases)
  next
    case 2
    show ?thesis
      by (rule comparator_pullback [OF comparator_FieldList [of m], where f = "the \<circ> Key"])
         (auto simp: 2 pe_ok_def PathElement_Compare_def dest!: pe_rank_cases)
  next
    case 3
    show ?thesis
      by (rule comparator_pullback [OF comparator_Compare [of m], where f = "the \<circ> Value"])
         (auto simp: 3 pe_ok_def PathElement_Compare_def dest!: pe_rank_cases)
  next
    case 4
    show ?thesis
      by (rule comparator_pullback [OF comparator_Index, where f = "the \<circ> Index"])
         (auto simp: 4 PathElement_Compare_def dest!: pe_rank_cases)
  next
    case 5
    then have "PathElement_Compare x y = 0" if "pe_rank x = r" "pe_rank y = r" for x y
      using that pe_rank_cases(5) [of x] pe_rank_cases(5) [of y] by (simp add: PathElement_Compare_def)
    then show ?thesis by unfold_locales simp_all
  qed
qed

lemma comparator_PathElement: "comparator (pe_ok m) PathElement_Compare"
  by (rule comparator_rank [of _ pe_rank]) (simp_all add: PathElement_Compare_rank comparator_pe_rank)

lemma option_layer:
  assumes "\<And>n n'. a = Some n \<Longrightarrow> b = Some n' \<Longrightarrow> e n n' \<longleftrightarrow> c n n' = (0::int)" and "R \<longleftrightarrow> S = 0"
  shows "(case a of Some n \<Rightarrow> (case b of None \<Rightarrow> False | Some n' \<Rightarrow> e n n')
          | None \<Rightarrow> if b \<noteq> None then False else R) \<longleftrightarrow>
         (case a of Some n \<Rightarrow> (case b of None \<Rightarrow> - 1 | Some n' \<Rightarrow> c n n')
          | None \<Rightarrow> if b \<noteq> None then 1 else S) = 0"
  using assms by (cases a; cases b) auto

lemma PathElement_Equals_iff:
  "pe_ok m x \<Longrightarrow> pe_ok m y \<Longrightarrow> PathElement_Equals x y \<longleftrightarrow> PathElement_Compare x y = 0"
  unfolding PathElement_Equals_def PathElement_Compare_def
  by (intro option_layer) (auto simp: pe_ok_def val.eqv_iff [of m] fld.eqv_iff [of m])

interpretation pe: key_order "pe_ok m" PathElement_Compare PathElement_Equals
  for m
  by (intro key_order.intro comparator_PathElement key_order_axioms.intro PathElement_Equals_iff)

end
