(* ===== verification/Element_Sets.thy ===== *)
theory Element_Sets
  imports Path_Elements
begin

text \<open>
  Correctness of the sorted containers of \<^verbatim>\<open>fieldpath\<close>: binary search finds the insertion point, the
  set operations are the operations on sets of path elements up to \<^verbatim>\<open>Equals\<close>, every operation keeps
  the members strictly ascending, and the keyed map satisfies the laws of a map.
\<close>

section \<open>Binary search\<close>

abbreviation pe_asc :: "num_mode \<Rightarrow> PathElement list \<Rightarrow> bool" where
  "pe_asc m \<equiv> comparator.ascending (pe_ok m) PathElement_Compare"

abbreviation pe_covers :: "PathElement list \<Rightarrow> PathElement \<Rightarrow> bool" where
  "pe_covers \<equiv> comparator.covers PathElement_Compare"

lemma pe_search_eq:
  assumes "pe_asc m s" "pe_ok m p"
  shows "pe_search s p = length (takeWhile (\<lambda>x. PathElement_Less x p) s)"
  unfolding pe_search_def
proof (rule sort_Search_takeWhile)
  fix i j assume ij: "i < j" "j < length s" "PathElement_Less (s ! j) p"
  have "PathElement_Compare (s ! i) (s ! j) < 0"
    using assms ij sorted_wrt_nth_less [OF _ ij(1,2)] by (auto simp: pe.ascending_def)
  then show "PathElement_Less (s ! i) p"
    using ij assms pe.ascending_ok [OF assms(1)] pe.cmp_less_trans [of m "s ! i" "s ! j" p]
    by (simp add: PathElement_Less_def)
qed

text \<open>The list splits at the insertion point into a smaller and a not smaller part.\<close>

lemma pe_search_split:
  assumes "pe_asc m s" "pe_ok m p"
  shows "take (pe_search s p) s = takeWhile (\<lambda>x. PathElement_Less x p) s"
    and "drop (pe_search s p) s = dropWhile (\<lambda>x. PathElement_Less x p) s"
  unfolding pe_search_eq [OF assms] by (metis takeWhile_eq_take, metis dropWhile_eq_drop)

lemma pe_below:
  assumes "pe_asc m s" "pe_ok m p" "x \<in> set (takeWhile (\<lambda>x. PathElement_Less x p) s)"
  shows "PathElement_Compare x p < 0" "pe_ok m x"
  using assms set_takeWhileD [OF assms(3)] pe.ascending_ok [OF assms(1)] by (auto simp: PathElement_Less_def)

lemma pe_above:
  assumes "pe_asc m s" "pe_ok m p" "x \<in> set (dropWhile (\<lambda>x. PathElement_Less x p) s)"
  shows "0 \<le> PathElement_Compare x p" "pe_ok m x"
proof -
  let ?d = "dropWhile (\<lambda>x. PathElement_Less x p) s"
  have asc: "pe_asc m ?d" using assms(1) by (rule pe.ascending_split)
  obtain y ys where d: "?d = y # ys" using assms(3) by (cases ?d) auto
  have y: "\<not> PathElement_Less y p" using hd_dropWhile [of "\<lambda>x. PathElement_Less x p" s] d by simp
  show x: "pe_ok m x" using asc assms(3) by (rule pe.ascending_ok)
  have "x = y \<or> PathElement_Compare y x < 0" using assms(3) asc d by (auto simp: pe.ascending_Cons)
  moreover have "pe_ok m y" "\<not> PathElement_Compare y p < 0"
    using asc d y by (auto simp: PathElement_Less_def pe.ascending_Cons)
  ultimately show "0 \<le> PathElement_Compare x p"
    using x assms(2) pe.cmp_less_trans [of m y x p] by fastforce
qed

section \<open>The set operations\<close>

lemma pe_search_hit:
  assumes "pe_asc m s" "pe_ok m p"
  shows "pe_search s p < length s \<and> PathElement_Equals (s ! pe_search s p) p \<longleftrightarrow> pe_covers s p"
proof -
  let ?P = "\<lambda>x. PathElement_Less x p"
  have below: "\<not> pe_covers (takeWhile ?P s) p"
    using pe_below(1) [OF assms] by (force simp: pe.covers_def)
  have "pe_covers s p \<longleftrightarrow> pe_covers (takeWhile ?P s @ dropWhile ?P s) p" by simp
  also have "\<dots> \<longleftrightarrow> pe_covers (dropWhile ?P s) p" using below unfolding pe.covers_simps by blast
  also have "\<dots> \<longleftrightarrow> pe_search s p < length s \<and> PathElement_Equals (s ! pe_search s p) p"
  proof (cases "dropWhile ?P s")
    case Nil
    then have "pe_search s p = length s" using pe_search_split(2) [OF assms] pe_search_eq [OF assms]
      by (metis append_Nil2 takeWhile_dropWhile_id)
    with Nil show ?thesis unfolding Nil by simp
  next
    case (Cons y ys)
    then have dr: "drop (pe_search s p) s = y # ys" using pe_search_split(2) [OF assms] by simp
    then have loc: "pe_search s p < length s" "s ! pe_search s p = y"
      by (metis drop_eq_Nil list.distinct(1) not_le_imp_less) (metis dr nth_via_drop)
    have asc: "pe_asc m (y # ys)"
      using assms(1) Cons by (metis pe.ascending_append takeWhile_dropWhile_id)
    have "\<not> pe_covers ys p" if "PathElement_Compare y p \<noteq> 0"
    proof -
      have "0 \<le> PathElement_Compare y p" "pe_ok m y" using pe_above [OF assms, of y] Cons by auto
      with that asc assms(2) show ?thesis
        using pe.covers_below [of m ys y p] pe.cmp_flip [of m y p] by (auto simp: pe.ascending_Cons)
    qed
    with Cons loc asc assms(2) show ?thesis
      by (auto simp: pe.ascending_Cons pe.eqv_iff [of m])
  qed
  finally show ?thesis by simp
qed

lemma PathElementSet_Has_iff [has_simps]:
  assumes "pe_asc m s" "pe_ok m p"
  shows "PathElementSet_Has s p \<longleftrightarrow> pe_covers s p"
proof -
  have "pe_search s p \<le> length s" using pe_search_eq [OF assms] by (simp add: length_takeWhile_le)
  with pe_search_hit [OF assms] show ?thesis by (auto simp: PathElementSet_Has_def Let_def)
qed

lemma PathElementSet_Insert_cases:
  assumes "pe_asc m s" "pe_ok m p"
  shows "PathElementSet_Insert s p =
    (if pe_covers s p then s
     else takeWhile (\<lambda>x. PathElement_Less x p) s @ p # dropWhile (\<lambda>x. PathElement_Less x p) s)"
proof -
  have le: "pe_search s p \<le> length s" using pe_search_eq [OF assms] by (simp add: length_takeWhile_le)
  note sp = pe_search_split [OF assms, symmetric]
  show ?thesis
    using pe_search_hit [OF assms] le by (auto simp: PathElementSet_Insert_def Let_def sp)
qed

lemma PathElementSet_Insert_correct:
  assumes "pe_asc m s" "pe_ok m p"
  shows "pe_asc m (PathElementSet_Insert s p)"
    and "pe_ok m q \<Longrightarrow> pe_covers (PathElementSet_Insert s p) q \<longleftrightarrow> PathElement_Equals p q \<or> pe_covers s q"
proof -
  let ?P = "\<lambda>x. PathElement_Less x p"
  let ?t = "takeWhile ?P s" and ?d = "dropWhile ?P s"
  note td = pe.ascending_split [OF assms(1), where P = ?P]
  have ins: "pe_asc m (?t @ p # ?d)" if "\<not> pe_covers s p"
  proof -
    have "PathElement_Compare p y < 0" if y: "y \<in> set ?d" for y
    proof -
      have "PathElement_Compare y p \<noteq> 0" using \<open>\<not> pe_covers s p\<close> set_dropWhileD [OF y] by (auto simp: pe.covers_def)
      with pe_above [OF assms y] pe.cmp_flip [of m y p] assms(2) show ?thesis by linarith
    qed
    with td assms pe_below [OF assms] show ?thesis by (auto simp: pe.ascending_append pe.ascending_Cons)
  qed
  then show "pe_asc m (PathElementSet_Insert s p)"
    using assms(1) by (simp add: PathElementSet_Insert_cases [OF assms])
  assume q: "pe_ok m q"
  have eq: "PathElement_Equals p q \<longleftrightarrow> PathElement_Compare p q = 0" using assms q by (intro pe.eqv_iff)
  have "pe_covers s q \<longleftrightarrow> pe_covers (?t @ ?d) q" by simp
  moreover have "pe_covers s q" if "pe_covers s p" "PathElement_Compare p q = 0"
    using that assms q pe.covers_cong [of m s p q] by simp
  ultimately show "pe_covers (PathElementSet_Insert s p) q \<longleftrightarrow> PathElement_Equals p q \<or> pe_covers s q"
    unfolding eq PathElementSet_Insert_cases [OF assms] pe.covers_simps by (auto simp: pe.covers_simps)
qed

lemma pe_less_cases:
  assumes "pe_ok m x" "pe_ok m y"
  obtains "PathElement_Less x y" "\<not> PathElement_Less y x" "PathElement_Compare x y < 0"
  | "\<not> PathElement_Less x y" "\<not> PathElement_Less y x" "PathElement_Compare x y = 0" "PathElement_Compare y x = 0"
  | "\<not> PathElement_Less x y" "PathElement_Less y x" "PathElement_Compare y x < 0"
  using pe.cmp_flip [OF assms]
  by (cases "PathElement_Compare x y" "0 :: int" rule: linorder_cases) (auto simp: PathElement_Less_def)

text \<open>Every member of a result comes from an argument, so lower bounds are inherited.\<close>

lemma PathElementSet_Union_subset: "set (PathElementSet_Union s t) \<subseteq> set s \<union> set t"
  by (induction s t rule: PathElementSet_Union.induct) auto

lemma PathElementSet_Intersection_subset: "set (PathElementSet_Intersection s t) \<subseteq> set s"
  by (induction s t rule: PathElementSet_Intersection.induct) auto

lemma PathElementSet_Difference_subset: "set (PathElementSet_Difference s t) \<subseteq> set s"
  by (induction s t rule: PathElementSet_Difference.induct) auto

lemma pe_asc_below:
  assumes "pe_asc m (y # ys)" "pe_ok m x" "PathElement_Compare x y \<le> 0"
  shows "z \<in> set ys \<Longrightarrow> PathElement_Compare x z < 0"
  using assms pe.cmp_le_less_trans [of m x y z] by (auto simp: pe.ascending_Cons dest: pe.ascending_ok)

lemma pe_asc_head:
  assumes "pe_asc m (x # xs)" "pe_asc m (y # ys)"
  shows "pe_ok m x" "pe_ok m y"
  using assms by (auto simp: pe.ascending_Cons)

lemma PathElementSet_Union_asc [wf_intros]:
  "pe_asc m s \<Longrightarrow> pe_asc m t \<Longrightarrow> pe_asc m (PathElementSet_Union s t)"
proof (induction s t rule: PathElementSet_Union.induct)
  case (1 x xs y ys)
  note ok = pe_asc_head [OF "1.prems"] and asc = "1.prems" [unfolded pe.ascending_Cons]
  from ok show ?case
  proof (cases rule: pe_less_cases)
    case 1
    with asc "1.IH"(1) "1.prems" show ?thesis
      using PathElementSet_Union_subset [of xs "y # ys"] pe_asc_below [OF "1.prems"(2) ok(1)]
      by (fastforce simp: pe.ascending_Cons)
  next
    case 2
    with asc "1.IH"(2) show ?thesis
      using PathElementSet_Union_subset [of xs ys] pe_asc_below [OF "1.prems"(1) ok(2)]
      by (fastforce simp: pe.ascending_Cons)
  next
    case 3
    with asc "1.IH"(3) "1.prems" show ?thesis
      using PathElementSet_Union_subset [of "x # xs" ys] pe_asc_below [OF "1.prems"(1) ok(2)]
      by (fastforce simp: pe.ascending_Cons)
  qed
qed auto

lemma PathElementSet_Intersection_asc [wf_intros]:
  "pe_asc m s \<Longrightarrow> pe_asc m (PathElementSet_Intersection s t)"
proof (induction s t rule: PathElementSet_Intersection.induct)
  case (1 x xs y ys)
  then show ?case using PathElementSet_Intersection_subset [of xs ys] by (auto simp: pe.ascending_Cons)
qed auto

lemma PathElementSet_Difference_asc [wf_intros]:
  "pe_asc m s \<Longrightarrow> pe_asc m (PathElementSet_Difference s t)"
proof (induction s t rule: PathElementSet_Difference.induct)
  case (1 x xs y ys)
  then show ?case using PathElementSet_Difference_subset [of xs "y # ys"] by (auto simp: pe.ascending_Cons)
qed auto

lemma PathElementSet_Union_covers:
  "pe_asc m s \<Longrightarrow> pe_asc m t \<Longrightarrow> pe_ok m p \<Longrightarrow>
    pe_covers (PathElementSet_Union s t) p \<longleftrightarrow> pe_covers s p \<or> pe_covers t p"
proof (induction s t rule: PathElementSet_Union.induct)
  case (1 x xs y ys)
  note ok = pe_asc_head [OF "1.prems"(1,2)] and asc = "1.prems"(1,2) [unfolded pe.ascending_Cons]
  from ok show ?case
  proof (cases rule: pe_less_cases)
    case 2
    then have "PathElement_Compare x p = PathElement_Compare y p"
      using pe.cmp_zero_left [of m x y p] ok "1.prems"(3) by simp
    with 2 asc 1 show ?thesis by auto
  qed (use asc 1 in auto)
qed auto

lemma PathElementSet_Intersection_covers:
  "pe_asc m s \<Longrightarrow> pe_asc m t \<Longrightarrow> pe_ok m p \<Longrightarrow>
    pe_covers (PathElementSet_Intersection s t) p \<longleftrightarrow> pe_covers s p \<and> pe_covers t p"
proof (induction s t rule: PathElementSet_Intersection.induct)
  case (1 x xs y ys)
  note ok = pe_asc_head [OF "1.prems"(1,2)] and asc = "1.prems"(1,2) [unfolded pe.ascending_Cons]
  from ok show ?case
  proof (cases rule: pe_less_cases)
    case 1
    then have "PathElement_Compare x p = 0 \<Longrightarrow> \<not> pe_covers (y # ys) p"
      using pe.covers_less_head [OF "1.prems"(2) ok(1) "1.prems"(3)] by simp
    with 1 asc "1.IH"(1) "1.prems" show ?thesis by auto
  next
    case 2
    have xy: "PathElement_Compare x p = PathElement_Compare y p"
      using pe.cmp_zero_left [of m x y p] 2 ok "1.prems"(3) by simp
    have "\<not> pe_covers xs p" "\<not> pe_covers ys p" if "PathElement_Compare y p = 0"
      using that xy asc "1.prems"(3) pe.covers_below [of m xs x p] pe.covers_below [of m ys y p]
        pe.cmp_flip [of m x p] pe.cmp_flip [of m y p] by auto
    with 2 xy asc "1.IH"(2) "1.prems"(3) show ?thesis by auto
  next
    case 3
    then have "PathElement_Compare y p = 0 \<Longrightarrow> \<not> pe_covers (x # xs) p"
      using pe.covers_less_head [OF "1.prems"(1) ok(2) "1.prems"(3)] by simp
    with 3 asc "1.IH"(3) "1.prems" show ?thesis by auto
  qed
qed auto

lemma PathElementSet_Difference_covers:
  "pe_asc m s \<Longrightarrow> pe_asc m t \<Longrightarrow> pe_ok m p \<Longrightarrow>
    pe_covers (PathElementSet_Difference s t) p \<longleftrightarrow> pe_covers s p \<and> \<not> pe_covers t p"
proof (induction s t rule: PathElementSet_Difference.induct)
  case (1 x xs y ys)
  note ok = pe_asc_head [OF "1.prems"(1,2)] and asc = "1.prems"(1,2) [unfolded pe.ascending_Cons]
  from ok show ?case
  proof (cases rule: pe_less_cases)
    case 1
    then have "PathElement_Compare x p = 0 \<Longrightarrow> \<not> pe_covers (y # ys) p"
      using pe.covers_less_head [OF "1.prems"(2) ok(1) "1.prems"(3)] by simp
    with 1 asc "1.IH"(1) "1.prems" show ?thesis by auto
  next
    case 2
    have xy: "PathElement_Compare x p = PathElement_Compare y p"
      using pe.cmp_zero_left [of m x y p] 2 ok "1.prems"(3) by simp
    have "\<not> pe_covers xs p" "\<not> pe_covers ys p" if "PathElement_Compare y p = 0"
      using that xy asc "1.prems"(3) pe.covers_below [of m xs x p] pe.covers_below [of m ys y p]
        pe.cmp_flip [of m x p] pe.cmp_flip [of m y p] by auto
    with 2 xy asc "1.IH"(2) "1.prems"(3) show ?thesis by auto
  next
    case 3
    then have "PathElement_Compare y p = 0 \<Longrightarrow> \<not> pe_covers (x # xs) p"
      using pe.covers_less_head [OF "1.prems"(1) ok(2) "1.prems"(3)] by simp
    with 3 asc "1.IH"(3) "1.prems" show ?thesis by auto
  qed
qed auto

lemma PathElementSet_Equals_iff:
  assumes "pe_asc m s" "pe_asc m t"
  shows "PathElementSet_Equals s t \<longleftrightarrow> (\<forall>p. pe_ok m p \<longrightarrow> pe_covers s p = pe_covers t p)"
proof -
  have eq: "PathElementSet_Equals s t \<longleftrightarrow> list_all2 (\<lambda>x y. PathElement_Compare x y = 0) s t"
  proof -
    have "PathElement_Equals x y \<longleftrightarrow> PathElement_Compare x y = 0" if "(x, y) \<in> set (zip s t)" for x y
      using assms set_zip_leftD [OF that] set_zip_rightD [OF that]
      by (intro pe.eqv_iff [of m]) (auto dest: pe.ascending_ok)
    then show ?thesis by (auto simp: PathElementSet_Equals_def list_all2_iff list_all_iff)
  qed
  have "pe_covers s p = pe_covers t p"
    if l: "list_all2 (\<lambda>x y. PathElement_Compare x y = 0) s t" and p: "pe_ok m p" for p
    using l assms
  proof (induction rule: list_all2_induct)
    case (Cons x xs y ys)
    then show ?case using pe.cmp_zero_left [of m x y p] p by (auto simp: pe.ascending_Cons)
  qed simp
  with eq pe.covers_antisym [OF assms] show ?thesis by auto
qed

section \<open>The keyed map\<close>

text \<open>The reference lookup: the first entry whose key is equivalent.\<close>

fun pe_assoc :: "(PathElement \<times> 'v) list \<Rightarrow> PathElement \<Rightarrow> 'v option" where
  "pe_assoc [] p = None"
| "pe_assoc ((k, v) # s) p = (if PathElement_Compare k p = 0 then Some v else pe_assoc s p)"

lemma pe_assoc_append:
  "(\<And>k. k \<in> fst ` set a \<Longrightarrow> PathElement_Compare k p \<noteq> 0) \<Longrightarrow> pe_assoc (a @ b) p = pe_assoc b p"
  by (induction a) auto

lemma pe_assoc_append_same:
  "pe_assoc b p = pe_assoc c p \<Longrightarrow> pe_assoc (a @ b) p = pe_assoc (a @ c) p"
  by (induction a) auto

lemma pe_assoc_None_iff: "pe_assoc s p = None \<longleftrightarrow> \<not> pe_covers (map fst s) p"
  by (induction s p rule: pe_assoc.induct) auto

lemma pe_assoc_Some:
  assumes "pe_assoc s p = Some v"
  shows "\<exists>k. (k, v) \<in> set s \<and> PathElement_Compare k p = 0"
  using assms by (induction s p rule: pe_assoc.induct) (auto split: if_splits)

lemma pe_assoc_in:
  assumes "pe_asc m (map fst s)" "(k, v) \<in> set s"
  shows "pe_assoc s k = Some v"
  using assms
proof (induction s)
  case (Cons kv s)
  obtain k' v' where kv: "kv = (k', v')" by force
  have ok: "pe_ok m k'" "pe_ok m k"
    using Cons.prems(2) kv by (auto intro!: pe.ascending_ok [OF Cons.prems(1)] simp: image_iff) force+
  show ?case
  proof (cases "(k, v) \<in> set s")
    case True
    then have "PathElement_Compare k' k < 0" using Cons.prems(1) kv by (force simp: pe.ascending_Cons)
    with Cons True kv show ?thesis by (simp add: pe.ascending_Cons)
  next
    case False
    with Cons.prems(2) kv ok show ?thesis using pe.cmp_refl [of m k] by simp
  qed
qed simp

lemma pe_assoc_cong:
  assumes "pe_asc m (map fst s)" "pe_ok m p" "pe_ok m q" "PathElement_Compare p q = 0"
  shows "pe_assoc s p = pe_assoc s q"
  using assms(1)
proof (induction s)
  case (Cons kv s)
  then show ?case
    using pe.cmp_zero_right [of m "fst kv" p q] assms(2-4) by (cases kv) (auto simp: pe.ascending_Cons)
qed simp

text \<open>The binary search splits a keyed list as it splits its keys.\<close>

lemma pe_search_split_keys:
  fixes s :: "(PathElement \<times> 'v) list"
  assumes "pe_asc m (map fst s)" "pe_ok m p"
  defines "loc \<equiv> pe_search (map fst s) p"
  shows "k \<in> fst ` set (take loc s) \<Longrightarrow> PathElement_Compare k p < 0 \<and> pe_ok m k"
    and "loc \<le> length s"
    and "loc < length s \<and> PathElement_Equals (fst (s ! loc)) p \<longleftrightarrow> pe_covers (map fst s) p"
proof -
  have "take loc (map fst s) = takeWhile (\<lambda>x. PathElement_Less x p) (map fst s)"
    unfolding loc_def by (rule pe_search_split [OF assms(1,2)])
  then show "k \<in> fst ` set (take loc s) \<Longrightarrow> PathElement_Compare k p < 0 \<and> pe_ok m k"
    using pe_below [OF assms(1,2), of k] by (metis list.set_map take_map)
  show le: "loc \<le> length s"
    unfolding loc_def pe_search_eq [OF assms(1,2)] by (metis length_map length_takeWhile_le)
  show "loc < length s \<and> PathElement_Equals (fst (s ! loc)) p \<longleftrightarrow> pe_covers (map fst s) p"
    using pe_search_hit [OF assms(1,2)] by (auto simp: loc_def)
qed

lemma PathElementMap_Get_assoc:
  assumes "pe_asc m (map fst s)" "pe_ok m p"
  shows "PathElementMap_Get s p = pe_assoc s p"
proof -
  let ?loc = "pe_search (map fst s) p"
  note sp = pe_search_split_keys [OF assms]
  show ?thesis
  proof (cases "pe_covers (map fst s) p")
    case True
    then have hit: "?loc < length s" "PathElement_Equals (fst (s ! ?loc)) p" using sp(3) by auto
    have "pe_ok m (fst (s ! ?loc))" using hit(1) by (intro pe.ascending_ok [OF assms(1)]) simp
    then have "PathElement_Compare (fst (s ! ?loc)) p = 0" using hit(2) assms(2) pe.eqv_iff [of m] by simp
    moreover have "pe_assoc s p = pe_assoc (s ! ?loc # drop (Suc ?loc) s) p"
      using pe_assoc_append [of "take ?loc s" p] sp(1) id_take_nth_drop [OF hit(1)]
      by (metis less_irrefl)
    ultimately show ?thesis
      using hit by (cases "s ! ?loc") (simp add: PathElementMap_Get_def)
  next
    case False
    with sp(2,3) show ?thesis
      using pe_assoc_None_iff [of s p] by (auto simp: PathElementMap_Get_def Let_def)
  qed
qed

lemma PathElementMap_Insert_keys:
  assumes "pe_asc m (map fst s)" "pe_ok m p"
  shows "map fst (PathElementMap_Insert s p v) = PathElementSet_Insert (map fst s) p"
  using pe_search_split_keys(2) [OF assms]
  by (auto simp: PathElementMap_Insert_def PathElementSet_Insert_def Let_def map_update take_map drop_map
      intro: list_update_same_conv [THEN iffD2])

lemma PathElementMap_Insert_assoc:
  assumes "pe_asc m (map fst s)" "pe_ok m p" "pe_ok m q"
  shows "pe_assoc (PathElementMap_Insert s p v) q =
    (if PathElement_Equals p q then Some v else pe_assoc s q)"
proof -
  let ?loc = "pe_search (map fst s) p"
  note sp = pe_search_split_keys [OF assms(1,2)]
  obtain k b where ins: "PathElementMap_Insert s p v = take ?loc s @ (k, v) # b"
    and k: "PathElement_Compare k p = 0" "pe_ok m k"
    and rest: "PathElement_Compare k q \<noteq> 0 \<Longrightarrow> pe_assoc (drop ?loc s) q = pe_assoc b q"
  proof (cases "pe_covers (map fst s) p")
    case True
    then have hit: "?loc < length s" "PathElement_Equals (fst (s ! ?loc)) p" using sp(3) by auto
    have ok: "pe_ok m (fst (s ! ?loc))" using hit(1) by (intro pe.ascending_ok [OF assms(1)]) simp
    show thesis
    proof (rule that)
      show "PathElementMap_Insert s p v = take ?loc s @ (fst (s ! ?loc), v) # drop (Suc ?loc) s"
        using hit by (simp add: PathElementMap_Insert_def Let_def upd_conv_take_nth_drop)
      show "PathElement_Compare (fst (s ! ?loc)) p = 0" using hit ok assms(2) pe.eqv_iff [of m] by simp
      show "pe_assoc (drop ?loc s) q = pe_assoc (drop (Suc ?loc) s) q" if "PathElement_Compare (fst (s ! ?loc)) q \<noteq> 0"
        using that hit(1) by (cases "s ! ?loc") (simp flip: Cons_nth_drop_Suc)
    qed (rule ok)
  next
    case False
    show thesis
    proof (rule that)
      show "PathElementMap_Insert s p v = take ?loc s @ (p, v) # drop ?loc s"
        using False sp(2,3) by (auto simp: PathElementMap_Insert_def Let_def)
    qed (use assms(2) pe.cmp_refl [of m p] in auto)
  qed
  have eq: "PathElement_Equals p q \<longleftrightarrow> PathElement_Compare k q = 0"
    using k assms pe.eqv_iff [of m p q] pe.cmp_zero_left [of m k p q] by simp
  show ?thesis
  proof (cases "PathElement_Equals p q")
    case True
    then have "PathElement_Compare p q = 0" using assms pe.eqv_iff by simp
    then have "PathElement_Compare x q \<noteq> 0" if "x \<in> fst ` set (take ?loc s)" for x
      using sp(1) [OF that] pe.cmp_zero_right [of m x p q] assms by auto
    with True eq ins show ?thesis by (simp add: pe_assoc_append)
  next
    case False
    then have "pe_assoc (take ?loc s @ (k, v) # b) q = pe_assoc (take ?loc s @ drop ?loc s) q"
      using eq rest by (intro pe_assoc_append_same) simp
    with False ins show ?thesis by simp
  qed
qed

lemma PathElementMap_Insert_asc [wf_intros]:
  "pe_asc m (map fst s) \<Longrightarrow> pe_ok m p \<Longrightarrow> pe_asc m (map fst (PathElementMap_Insert s p v))"
  by (simp add: PathElementMap_Insert_keys PathElementSet_Insert_correct(1))

text \<open>Inserting keeps the other entries and adds at most the new one.\<close>

lemma PathElementMap_Insert_set:
  "set (PathElementMap_Insert s p v) \<subseteq> set s \<union> {(k, v) | k. True}"
  by (auto simp: PathElementMap_Insert_def Let_def dest: in_set_takeD in_set_dropD set_update_subset_insert [THEN subsetD])

text \<open>The map interface that the walkers of package \<^verbatim>\<open>typed\<close> rely on.\<close>

locale keyed_map =
  fixes ok :: "'k \<Rightarrow> bool" and eqv :: "'k \<Rightarrow> 'k \<Rightarrow> bool"
    and invar :: "'m \<Rightarrow> bool" and empty :: 'm
    and get :: "'m \<Rightarrow> 'k \<Rightarrow> 'v option" and insert :: "'m \<Rightarrow> 'k \<Rightarrow> 'v \<Rightarrow> 'm"
  assumes invar_empty: "invar empty"
    and get_empty: "get empty k = None"
    and invar_insert: "invar s \<Longrightarrow> ok k \<Longrightarrow> invar (insert s k v)"
    and get_insert: "invar s \<Longrightarrow> ok k \<Longrightarrow> ok q \<Longrightarrow> get (insert s k v) q = (if eqv k q then Some v else get s q)"
begin

lemma insert_all_invar:
  assumes "invar s" "list_all (\<lambda>kv. ok (fst kv)) kvs"
  shows "invar (foldl (\<lambda>s (k, v). insert s k v) s kvs)"
  using assms by (induction kvs arbitrary: s) (auto simp: invar_insert)

lemma get_insert_all:
  assumes "invar s" "list_all (\<lambda>kv. ok (fst kv)) kvs" "ok q"
  shows "get (foldl (\<lambda>s (k, v). insert s k v) s kvs) q =
    (case find (\<lambda>kv. eqv (fst kv) q) (rev kvs) of None \<Rightarrow> get s q | Some kv \<Rightarrow> Some (snd kv))"
  using assms
proof (induction kvs rule: rev_induct)
  case (snoc kv kvs)
  then have "invar (foldl (\<lambda>s (k, v). insert s k v) s kvs)" by (intro insert_all_invar) auto
  with snoc show ?case by (cases kv) (auto simp: get_insert)
qed simp

end

interpretation pem: keyed_map "pe_ok m" PathElement_Equals "\<lambda>s. pe_asc m (map fst s)" "[]"
  PathElementMap_Get PathElementMap_Insert
  for m
proof (unfold_locales, goal_cases)
  case (3 s k v)
  then show ?case by (rule PathElementMap_Insert_asc)
next
  case (4 s k q v)
  then show ?case
    by (simp add: PathElementMap_Get_assoc [of m] PathElementMap_Insert_assoc [of m] PathElementMap_Insert_asc)
qed (simp_all add: PathElementMap_Get_def pe_search_def sort_Search_def sort_Search_loop.simps)

end
