(* ===== verification/Field_Set.thy ===== *)
theory Field_Set
  imports Element_Sets
begin

text \<open>
  \<^verbatim>\<open>fieldpath/set.go\<close>: sets of paths as tries.  A node has the members that end here and the child
  nodes for longer paths, both sorted by path element.  The definitions follow the Go methods; the
  index loops over two sorted slices become recursion on the remaining suffixes.  Sets are values:
  the Go operations share subtrees between their arguments and results, and the code only calls
  \<^verbatim>\<open>Insert\<close> on sets it has just created.  \<^verbatim>\<open>EnsureNamedFieldsAreMembers\<close> is in \<open>Named_Fields\<close>.
\<close>

section \<open>The data type and its operations\<close>

datatype FieldSet = MkSet (Members: PathElementSet) (Children: "(PathElement \<times> FieldSet) list")

type_synonym SetNodeMap = "(PathElement \<times> FieldSet) list"

definition SetNodeMap_Get :: "SetNodeMap \<Rightarrow> PathElement \<Rightarrow> FieldSet option" where
  "SetNodeMap_Get s pe =
     (let loc = pe_search (map fst s) pe
      in if loc = length s then None
         else if PathElement_Equals (fst (s ! loc)) pe then Some (snd (s ! loc)) else None)"

text \<open>\<^verbatim>\<open>Descend\<close> returns a pointer to the subset of \<^verbatim>\<open>pe\<close>, created if necessary, through which the caller
  updates it; the model takes the update as an argument.\<close>

definition SetNodeMap_Descend :: "SetNodeMap \<Rightarrow> PathElement \<Rightarrow> (FieldSet \<Rightarrow> FieldSet) \<Rightarrow> SetNodeMap" where
  "SetNodeMap_Descend s pe upd =
     (let loc = pe_search (map fst s) pe
      in if loc = length s then s @ [(pe, upd (MkSet [] []))]
         else if PathElement_Equals (fst (s ! loc)) pe then s[loc := (fst (s ! loc), upd (snd (s ! loc)))]
         else take loc s @ (pe, upd (MkSet [] [])) # drop loc s)"

fun Set_Insert :: "FieldSet \<Rightarrow> Path \<Rightarrow> FieldSet" where
  "Set_Insert s [] = s"
| "Set_Insert (MkSet ms cs) [pe] = MkSet (PathElementSet_Insert ms pe) cs"
| "Set_Insert (MkSet ms cs) (pe # p) = MkSet ms (SetNodeMap_Descend cs pe (\<lambda>s. Set_Insert s p))"

definition NewSet :: "Path list \<Rightarrow> FieldSet" where
  "NewSet paths = foldl Set_Insert (MkSet [] []) paths"

fun Set_Has :: "FieldSet \<Rightarrow> Path \<Rightarrow> bool" where
  "Set_Has s [] = False"
| "Set_Has (MkSet ms cs) [pe] = PathElementSet_Has ms pe"
| "Set_Has (MkSet ms cs) (pe # p) =
     (case SetNodeMap_Get cs pe of None \<Rightarrow> False | Some s \<Rightarrow> Set_Has s p)"

fun Set_Size :: "FieldSet \<Rightarrow> nat" and SetNodeMap_Size :: "SetNodeMap \<Rightarrow> nat" where
  "Set_Size (MkSet ms cs) = PathElementSet_Size ms + SetNodeMap_Size cs"
| "SetNodeMap_Size [] = 0"
| "SetNodeMap_Size ((_, v) # cs) = Set_Size v + SetNodeMap_Size cs"

fun Set_Empty :: "FieldSet \<Rightarrow> bool" and SetNodeMap_Empty :: "SetNodeMap \<Rightarrow> bool" where
  "Set_Empty (MkSet ms cs) = (if PathElementSet_Size ms > 0 then False else SetNodeMap_Empty cs)"
| "SetNodeMap_Empty [] = True"
| "SetNodeMap_Empty ((_, v) # cs) = (if \<not> Set_Empty v then False else SetNodeMap_Empty cs)"

fun Set_Equals :: "FieldSet \<Rightarrow> FieldSet \<Rightarrow> bool" and SetNodeMap_Equals :: "SetNodeMap \<Rightarrow> SetNodeMap \<Rightarrow> bool" where
  "Set_Equals (MkSet ms cs) (MkSet ms2 cs2) = (PathElementSet_Equals ms ms2 \<and> SetNodeMap_Equals cs cs2)"
| "SetNodeMap_Equals [] [] = True"
| "SetNodeMap_Equals ((p, s) # cs) ((q, t) # cs2) =
     (if \<not> PathElement_Equals p q then False
      else if \<not> Set_Equals s t then False else SetNodeMap_Equals cs cs2)"
| "SetNodeMap_Equals _ _ = False"

fun Set_Union :: "FieldSet \<Rightarrow> FieldSet \<Rightarrow> FieldSet" and SetNodeMap_Union :: "SetNodeMap \<Rightarrow> SetNodeMap \<Rightarrow> SetNodeMap" where
  "Set_Union (MkSet ms cs) (MkSet ms2 cs2) = MkSet (PathElementSet_Union ms ms2) (SetNodeMap_Union cs cs2)"
| "SetNodeMap_Union ((p, s) # xs) ((q, t) # ys) =
     (if PathElement_Less p q then (p, s) # SetNodeMap_Union xs ((q, t) # ys)
      else if \<not> PathElement_Less q p then (p, Set_Union s t) # SetNodeMap_Union xs ys
      else (q, t) # SetNodeMap_Union ((p, s) # xs) ys)"
| "SetNodeMap_Union xs [] = xs"
| "SetNodeMap_Union [] ys = ys"

fun Set_Intersection :: "FieldSet \<Rightarrow> FieldSet \<Rightarrow> FieldSet"
  and SetNodeMap_Intersection :: "SetNodeMap \<Rightarrow> SetNodeMap \<Rightarrow> SetNodeMap" where
  "Set_Intersection (MkSet ms cs) (MkSet ms2 cs2) =
     MkSet (PathElementSet_Intersection ms ms2) (SetNodeMap_Intersection cs cs2)"
| "SetNodeMap_Intersection ((p, s) # xs) ((q, t) # ys) =
     (if PathElement_Less p q then SetNodeMap_Intersection xs ((q, t) # ys)
      else if \<not> PathElement_Less q p then
        (let res = Set_Intersection s t
         in if \<not> Set_Empty res then (p, res) # SetNodeMap_Intersection xs ys
            else SetNodeMap_Intersection xs ys)
      else SetNodeMap_Intersection ((p, s) # xs) ys)"
| "SetNodeMap_Intersection _ _ = []"

text \<open>\<^verbatim>\<open>SetNodeMap.Difference\<close> takes the other set and reads only its children.\<close>

fun Set_Difference :: "FieldSet \<Rightarrow> FieldSet \<Rightarrow> FieldSet"
  and SetNodeMap_Difference :: "SetNodeMap \<Rightarrow> SetNodeMap \<Rightarrow> SetNodeMap" where
  "Set_Difference (MkSet ms cs) (MkSet ms2 cs2) =
     MkSet (PathElementSet_Difference ms ms2) (SetNodeMap_Difference cs cs2)"
| "SetNodeMap_Difference ((p, s) # xs) ((q, t) # ys) =
     (if PathElement_Less p q then (p, s) # SetNodeMap_Difference xs ((q, t) # ys)
      else if \<not> PathElement_Less q p then
        (let diff = Set_Difference s t
         in if \<not> Set_Empty diff then (p, diff) # SetNodeMap_Difference xs ys
            else SetNodeMap_Difference xs ys)
      else SetNodeMap_Difference ((p, s) # xs) ys)"
| "SetNodeMap_Difference xs [] = xs"
| "SetNodeMap_Difference [] ys = []"

text \<open>\<^verbatim>\<open>SetNodeMap.RecursiveDifference\<close>: the first argument is \<^verbatim>\<open>s2.Members\<close>, the last \<^verbatim>\<open>s2.Children\<close>.\<close>

fun Set_RecursiveDifference :: "FieldSet \<Rightarrow> FieldSet \<Rightarrow> FieldSet"
  and SetNodeMap_RecursiveDifference :: "PathElementSet \<Rightarrow> SetNodeMap \<Rightarrow> SetNodeMap \<Rightarrow> SetNodeMap" where
  "Set_RecursiveDifference (MkSet ms cs) (MkSet ms2 cs2) =
     MkSet (PathElementSet_Difference ms ms2) (SetNodeMap_RecursiveDifference ms2 cs cs2)"
| "SetNodeMap_RecursiveDifference m2 ((p, s) # xs) ((q, t) # ys) =
     (if PathElement_Less p q then
        (if \<not> PathElementSet_Has m2 p then (p, s) # SetNodeMap_RecursiveDifference m2 xs ((q, t) # ys)
         else SetNodeMap_RecursiveDifference m2 xs ((q, t) # ys))
      else if \<not> PathElement_Less q p then
        (if \<not> PathElementSet_Has m2 p then
           (let diff = Set_RecursiveDifference s t
            in if \<not> Set_Empty diff then (p, diff) # SetNodeMap_RecursiveDifference m2 xs ys
               else SetNodeMap_RecursiveDifference m2 xs ys)
         else SetNodeMap_RecursiveDifference m2 xs ys)
      else SetNodeMap_RecursiveDifference m2 ((p, s) # xs) ys)"
| "SetNodeMap_RecursiveDifference m2 xs [] = filter (\<lambda>c. \<not> PathElementSet_Has m2 (fst c)) xs"
| "SetNodeMap_RecursiveDifference m2 [] ys = []"

definition Set_WithPrefix :: "FieldSet \<Rightarrow> PathElement \<Rightarrow> FieldSet" where
  "Set_WithPrefix s pe = (case SetNodeMap_Get (Children s) pe of None \<Rightarrow> NewSet [] | Some sub \<Rightarrow> sub)"

text \<open>The double loop of \<^verbatim>\<open>Leaves\<close>, over the remaining members and children.\<close>

fun Leaves_loop :: "PathElementSet \<Rightarrow> SetNodeMap \<Rightarrow> PathElementSet" where
  "Leaves_loop [] cs = []"
| "Leaves_loop (member # ms) [] = member # Leaves_loop ms []"
| "Leaves_loop (member # ms) (c # cs) =
     (let d = PathElement_Compare member (fst c)
      in if d = 0 then Leaves_loop ms cs
         else if d < 0 then member # Leaves_loop ms (c # cs)
         else Leaves_loop (member # ms) cs)"

fun Set_Leaves :: "FieldSet \<Rightarrow> FieldSet" and SetNodeMap_Leaves :: "SetNodeMap \<Rightarrow> SetNodeMap" where
  "Set_Leaves (MkSet ms cs) = MkSet (Leaves_loop ms cs) (SetNodeMap_Leaves cs)"
| "SetNodeMap_Leaves [] = []"
| "SetNodeMap_Leaves ((p, s) # cs) = (p, Set_Leaves s) # SetNodeMap_Leaves cs"

text \<open>\<^verbatim>\<open>Iterate\<close>: the callback is run on every path, in preorder, over its captured state.\<close>

fun Set_iteratePrefix :: "FieldSet \<Rightarrow> Path \<Rightarrow> (Path \<Rightarrow> 's \<Rightarrow> 's) \<Rightarrow> 's \<Rightarrow> 's"
  and SetNodeMap_iteratePrefix :: "SetNodeMap \<Rightarrow> Path \<Rightarrow> (Path \<Rightarrow> 's \<Rightarrow> 's) \<Rightarrow> 's \<Rightarrow> 's" where
  "Set_iteratePrefix (MkSet ms cs) prefix f st =
     SetNodeMap_iteratePrefix cs prefix f (PathElementSet_Iterate ms (\<lambda>pe. f (prefix @ [pe])) st)"
| "SetNodeMap_iteratePrefix [] prefix f st = st"
| "SetNodeMap_iteratePrefix ((pe, s) # cs) prefix f st =
     SetNodeMap_iteratePrefix cs prefix f (Set_iteratePrefix s (prefix @ [pe]) f st)"

definition Set_Iterate :: "FieldSet \<Rightarrow> (Path \<Rightarrow> 's \<Rightarrow> 's) \<Rightarrow> 's \<Rightarrow> 's" where
  "Set_Iterate s f st = Set_iteratePrefix s [] f st"

section \<open>The invariant and the reading of a set as a set of paths\<close>

fun Set_wf :: "num_mode \<Rightarrow> FieldSet \<Rightarrow> bool" where
  "Set_wf m (MkSet ms cs) =
     (pe_asc m ms \<and> pe_asc m (map fst cs) \<and> list_all (\<lambda>c. Set_wf m (snd c) \<and> \<not> Set_Empty (snd c)) cs)"

abbreviation path_ok :: "num_mode \<Rightarrow> Path \<Rightarrow> bool" where
  "path_ok m p \<equiv> list_all (pe_ok m) p"

lemma FieldSet_induct [case_names MkSet, induct type]:
  assumes "\<And>ms cs. (\<And>k s. (k, s) \<in> set cs \<Longrightarrow> P s) \<Longrightarrow> P (MkSet ms cs)"
  shows "P s"
  using assms by induction_schema (pat_completeness, lexicographic_order)

lemma Set_wf_child: "Set_wf m (MkSet ms cs) \<Longrightarrow> (k, s) \<in> set cs \<Longrightarrow> Set_wf m s \<and> \<not> Set_Empty s \<and> pe_ok m k"
  using pe.ascending_ok [of m "map fst cs" k] by (force simp: list_all_iff)

lemma SetNodeMap_Empty_iff: "SetNodeMap_Empty cs \<longleftrightarrow> (\<forall>c \<in> set cs. Set_Empty (snd c))"
proof (induction cs)
  case (Cons c cs)
  then show ?case by (cases c) (auto split: if_splits)
qed simp

lemma Set_Empty_wf: "Set_wf m s \<Longrightarrow> Set_Empty s \<longleftrightarrow> s = MkSet [] []"
  by (cases s; cases "Children s") (auto simp: PathElementSet_Size_def SetNodeMap_Empty_iff)

lemma SetNodeMap_Get_assoc:
  "pe_asc m (map fst cs) \<Longrightarrow> pe_ok m pe \<Longrightarrow> SetNodeMap_Get cs pe = pe_assoc cs pe"
  using PathElementMap_Get_assoc [of m cs pe] by (simp add: SetNodeMap_Get_def PathElementMap_Get_def)

text \<open>The equations of \<^verbatim>\<open>Has\<close> on well-formed sets, one path element at a time.\<close>

lemma Set_Has_Cons:
  assumes "pe_asc m ms" "pe_asc m (map fst cs)" "pe_ok m pe"
  shows "Set_Has (MkSet ms cs) (pe # p) =
    (if p = [] then pe_covers ms pe
     else case pe_assoc cs pe of None \<Rightarrow> False | Some s \<Rightarrow> Set_Has s p)"
  using assms by (cases p) (auto simp: PathElementSet_Has_iff [of m] SetNodeMap_Get_assoc [of m])

lemma pe_assoc_wf:
  assumes "Set_wf m (MkSet ms cs)" "pe_assoc cs pe = Some s"
  shows "Set_wf m s" "\<not> Set_Empty s"
  using assms pe_assoc_Some [OF assms(2)] Set_wf_child [OF assms(1)] by blast+

section \<open>One lemma for all loops over two sorted slices\<close>

text \<open>
  The four binary operations on \<^verbatim>\<open>SetNodeMap\<close> walk two sorted slices and differ only in what they emit
  for a key found on the left, on both sides, or on the right.  \<open>node_merge\<close> is that walk.
\<close>

definition emit :: "PathElement \<Rightarrow> 'c option \<Rightarrow> (PathElement \<times> 'c) list" where
  "emit p v = (case v of None \<Rightarrow> [] | Some x \<Rightarrow> [(p, x)])"

fun node_merge ::
  "(PathElement \<Rightarrow> 'a \<Rightarrow> 'c option) \<Rightarrow> (PathElement \<Rightarrow> 'a \<Rightarrow> 'b \<Rightarrow> 'c option) \<Rightarrow> (PathElement \<Rightarrow> 'b \<Rightarrow> 'c option) \<Rightarrow>
   (PathElement \<times> 'a) list \<Rightarrow> (PathElement \<times> 'b) list \<Rightarrow> (PathElement \<times> 'c) list" where
  "node_merge l b r ((p, s) # xs) ((q, t) # ys) =
     (if PathElement_Less p q then emit p (l p s) @ node_merge l b r xs ((q, t) # ys)
      else if \<not> PathElement_Less q p then emit p (b p s t) @ node_merge l b r xs ys
      else emit q (r q t) @ node_merge l b r ((p, s) # xs) ys)"
| "node_merge l b r ((p, s) # xs) [] = emit p (l p s) @ node_merge l b r xs []"
| "node_merge l b r [] ((q, t) # ys) = emit q (r q t) @ node_merge l b r [] ys"
| "node_merge l b r [] [] = []"

definition nonempty :: "FieldSet \<Rightarrow> FieldSet option" where
  "nonempty s = (if \<not> Set_Empty s then Some s else None)"

lemma SetNodeMap_Nil [simp]:
  "SetNodeMap_Union [] ys = ys" "SetNodeMap_Difference [] ys = []"
  "SetNodeMap_RecursiveDifference m2 [] ys = []"
  by (cases ys; simp)+

lemma SetNodeMap_Union_merge:
  "SetNodeMap_Union xs ys = node_merge (\<lambda>_. Some) (\<lambda>_ s t. Some (Set_Union s t)) (\<lambda>_. Some) xs ys"
  by (induction "\<lambda>(_ :: PathElement) s. Some (s :: FieldSet)" "\<lambda>(_ :: PathElement) s t. Some (Set_Union s t)"
      "\<lambda>(_ :: PathElement) s. Some (s :: FieldSet)" xs ys rule: node_merge.induct)
     (auto simp: emit_def)

lemma SetNodeMap_Intersection_merge:
  "SetNodeMap_Intersection xs ys =
     node_merge (\<lambda>_ _. None) (\<lambda>_ s t. nonempty (Set_Intersection s t)) (\<lambda>_ _. None) xs ys"
  by (induction "\<lambda>(_ :: PathElement) (_ :: FieldSet). None :: FieldSet option"
      "\<lambda>(_ :: PathElement) s t. nonempty (Set_Intersection s t)"
      "\<lambda>(_ :: PathElement) (_ :: FieldSet). None :: FieldSet option" xs ys rule: node_merge.induct)
     (auto simp: emit_def nonempty_def Let_def)

lemma SetNodeMap_Difference_merge:
  "SetNodeMap_Difference xs ys =
     node_merge (\<lambda>_. Some) (\<lambda>_ s t. nonempty (Set_Difference s t)) (\<lambda>_ _. None) xs ys"
  by (induction "\<lambda>(_ :: PathElement) s. Some (s :: FieldSet)"
      "\<lambda>(_ :: PathElement) s t. nonempty (Set_Difference s t)"
      "\<lambda>(_ :: PathElement) (_ :: FieldSet). None :: FieldSet option" xs ys rule: node_merge.induct)
     (auto simp: emit_def nonempty_def Let_def)

lemma SetNodeMap_RecursiveDifference_merge:
  "SetNodeMap_RecursiveDifference m2 xs ys =
     node_merge (\<lambda>p s. if PathElementSet_Has m2 p then None else Some s)
       (\<lambda>p s t. if PathElementSet_Has m2 p then None else nonempty (Set_RecursiveDifference s t))
       (\<lambda>_ _. None) xs ys"
  by (induction "\<lambda>p (s :: FieldSet). if PathElementSet_Has m2 p then None else Some s"
      "\<lambda>p s t. if PathElementSet_Has m2 p then None else nonempty (Set_RecursiveDifference s t)"
      "\<lambda>(_ :: PathElement) (_ :: FieldSet). None :: FieldSet option" xs ys rule: node_merge.induct)
     (auto simp: emit_def nonempty_def Let_def)

text \<open>Where an emitted entry comes from.\<close>

definition node_origin ::
  "(PathElement \<Rightarrow> 'a \<Rightarrow> 'c option) \<Rightarrow> (PathElement \<Rightarrow> 'a \<Rightarrow> 'b \<Rightarrow> 'c option) \<Rightarrow> (PathElement \<Rightarrow> 'b \<Rightarrow> 'c option) \<Rightarrow>
   (PathElement \<times> 'a) set \<Rightarrow> (PathElement \<times> 'b) set \<Rightarrow> PathElement \<Rightarrow> 'c \<Rightarrow> bool" where
  "node_origin l b r X Y k v \<longleftrightarrow>
     (\<exists>s. (k, s) \<in> X \<and> l k s = Some v)
     \<or> (\<exists>s q t. (k, s) \<in> X \<and> (q, t) \<in> Y \<and> b k s t = Some v)
     \<or> (\<exists>t. (k, t) \<in> Y \<and> r k t = Some v)"

lemma node_origin_mono:
  "node_origin l b r X Y k v \<Longrightarrow> X \<subseteq> X' \<Longrightarrow> Y \<subseteq> Y' \<Longrightarrow> node_origin l b r X' Y' k v"
  unfolding node_origin_def by blast

lemma set_emit: "(k, v) \<in> set (emit p w) \<longleftrightarrow> k = p \<and> w = Some v"
  by (auto simp: emit_def split: option.splits)

lemma node_merge_origin:
  "(k, v) \<in> set (node_merge l b r xs ys) \<Longrightarrow> node_origin l b r (set xs) (set ys) k v"
proof (induction l b r xs ys rule: node_merge.induct)
  case (1 l b r p s xs q t ys)
  consider "node_origin l b r (set xs) (set ((q, t) # ys)) k v" | "node_origin l b r (set xs) (set ys) k v"
    | "node_origin l b r (set ((p, s) # xs)) (set ys) k v"
    | "k = p \<and> l p s = Some v \<or> k = p \<and> b p s t = Some v \<or> k = q \<and> r q t = Some v"
    using 1 by (auto simp: set_emit split: if_splits)
  then show ?case
  proof cases
    case 4
    then show ?thesis unfolding node_origin_def by auto
  qed (erule node_origin_mono; auto)+
next
  case (2 l b r p s xs)
  then consider "k = p \<and> l p s = Some v" | "node_origin l b r (set xs) (set []) k v" by (auto simp: set_emit)
  then show ?case by cases (auto simp: node_origin_def)
next
  case (3 l b r q t ys)
  then consider "k = q \<and> r q t = Some v" | "node_origin l b r (set []) (set ys) k v" by (auto simp: set_emit)
  then show ?case by cases (auto simp: node_origin_def)
qed simp

lemma node_merge_keys: "fst ` set (node_merge l b r xs ys) \<subseteq> fst ` set xs \<union> fst ` set ys"
  using node_merge_origin [of _ _ l b r xs ys] by (force simp: node_origin_def)

lemma emit_asc:
  "pe_asc m (map fst (emit k v) @ map fst zs) \<longleftrightarrow>
    pe_asc m (map fst zs) \<and> (v = None \<or> pe_ok m k \<and> (\<forall>z \<in> fst ` set zs. PathElement_Compare k z < 0))"
  by (auto simp: emit_def pe.ascending_Cons split: option.splits)

lemma node_merge_asc:
  "pe_asc m (map fst xs) \<Longrightarrow> pe_asc m (map fst ys) \<Longrightarrow> pe_asc m (map fst (node_merge l b r xs ys))"
proof (induction l b r xs ys rule: node_merge.induct)
  case (1 l b r p s xs q t ys)
  have prems: "pe_asc m (p # map fst xs)" "pe_asc m (q # map fst ys)" using "1.prems" by simp_all
  note ok = pe_asc_head [OF prems] and asc = prems [unfolded pe.ascending_Cons]
  from ok show ?case
  proof (cases rule: pe_less_cases)
    case 1
    then have "PathElement_Compare p z < 0" if "z \<in> fst ` set xs \<union> fst ` set ((q, t) # ys)" for z
      using that asc pe_asc_below [OF prems(2) ok(1), of z] by auto
    then have "\<forall>z \<in> fst ` set (node_merge l b r xs ((q, t) # ys)). PathElement_Compare p z < 0"
      using node_merge_keys [of l b r xs "(q, t) # ys"] by blast
    with 1 "1.IH"(1) "1.prems" asc ok show ?thesis by (simp add: emit_asc)
  next
    case 2
    then have "PathElement_Compare p z < 0" if "z \<in> fst ` set xs \<union> fst ` set ys" for z
      using that asc pe_asc_below [OF prems(2) ok(1), of z] by auto
    then have "\<forall>z \<in> fst ` set (node_merge l b r xs ys). PathElement_Compare p z < 0"
      using node_merge_keys [of l b r xs ys] by blast
    with 2 "1.IH"(2) asc ok show ?thesis by (simp add: emit_asc)
  next
    case 3
    then have "PathElement_Compare q z < 0" if "z \<in> fst ` set ((p, s) # xs) \<union> fst ` set ys" for z
      using that asc pe_asc_below [OF prems(1) ok(2), of z] by auto
    then have "\<forall>z \<in> fst ` set (node_merge l b r ((p, s) # xs) ys). PathElement_Compare q z < 0"
      using node_merge_keys [of l b r "(p, s) # xs" ys] by blast
    with 3 "1.IH"(3) "1.prems" asc ok show ?thesis by (simp add: emit_asc)
  qed
next
  case (2 l b r p s xs)
  then have "\<forall>z \<in> fst ` set xs. PathElement_Compare p z < 0" by (simp add: pe.ascending_Cons)
  then have "\<forall>z \<in> fst ` set (node_merge l b r xs []). PathElement_Compare p z < 0"
    using node_merge_keys [of l b r xs "[]"] unfolding list.set image_empty Un_empty_right by blast
  with 2 show ?case by (simp add: emit_asc pe.ascending_Cons)
next
  case (3 l b r q t ys)
  then have "\<forall>z \<in> fst ` set ys. PathElement_Compare q z < 0" by (simp add: pe.ascending_Cons)
  then have "\<forall>z \<in> fst ` set (node_merge l b r [] ys). PathElement_Compare q z < 0"
    using node_merge_keys [of l b r "[]" ys] unfolding list.set image_empty Un_empty_left by blast
  with 3 show ?case by (simp add: emit_asc pe.ascending_Cons)
qed auto

text \<open>What is emitted for a key: a function of what the two slices hold under it.\<close>

definition node_result ::
  "('a \<Rightarrow> 'c option) \<Rightarrow> ('a \<Rightarrow> 'b \<Rightarrow> 'c option) \<Rightarrow> ('b \<Rightarrow> 'c option) \<Rightarrow> 'a option \<Rightarrow> 'b option \<Rightarrow> 'c option" where
  "node_result l b r x y =
     (case x of
        None \<Rightarrow> (case y of None \<Rightarrow> None | Some t \<Rightarrow> r t)
      | Some s \<Rightarrow> (case y of None \<Rightarrow> l s | Some t \<Rightarrow> b s t))"

lemma pe_assoc_emit:
  "pe_assoc (emit k v @ zs) p = (if PathElement_Compare k p = 0 \<and> v \<noteq> None then v else pe_assoc zs p)"
  by (auto simp: emit_def split: option.splits)

lemma pe_assoc_below:
  assumes "pe_asc m (map fst xs)" "pe_ok m k" "pe_ok m p" "\<And>z. z \<in> fst ` set xs \<Longrightarrow> PathElement_Compare k z < 0"
    "PathElement_Compare k p = 0"
  shows "pe_assoc xs p = None"
  using assms pe.covers_below [of m "map fst xs" k p] pe.cmp_flip [of m k p] by (auto simp: pe_assoc_None_iff)

lemma node_merge_assoc:
  assumes "pe_asc m (map fst xs)" "pe_asc m (map fst ys)" "pe_ok m p"
    and "\<And>k. pe_ok m k \<Longrightarrow> PathElement_Compare k p = 0 \<Longrightarrow> l k = l p \<and> b k = b p \<and> r k = r p"
  shows "pe_assoc (node_merge l b r xs ys) p = node_result (l p) (b p) (r p) (pe_assoc xs p) (pe_assoc ys p)"
  using assms
proof (induction l b r xs ys rule: node_merge.induct)
  case (1 l b r q s xs q' t ys)
  have prems: "pe_asc m (q # map fst xs)" "pe_asc m (q' # map fst ys)" using "1.prems" by simp_all
  note ok = pe_asc_head [OF prems] and asc = prems [unfolded pe.ascending_Cons]
  have below: "PathElement_Compare q p = 0 \<Longrightarrow> pe_assoc xs p = None"
    "PathElement_Compare q' p = 0 \<Longrightarrow> pe_assoc ys p = None"
    using asc "1.prems"(3) by (auto intro!: pe_assoc_below [of m xs q p] pe_assoc_below [of m ys q' p])
  from ok show ?case
  proof (cases rule: pe_less_cases)
    case 1
    then have "PathElement_Compare q p = 0 \<Longrightarrow> pe_assoc ((q', t) # ys) p = None"
      using pe.covers_less_head [OF prems(2) ok(1) "1.prems"(3)] pe_assoc_None_iff [of "(q', t) # ys" p] by simp
    with 1 below "1.IH"(1) "1.prems" asc ok show ?thesis
      by (auto simp: pe_assoc_emit node_result_def split: option.splits)
  next
    case 2
    have "PathElement_Compare q p = PathElement_Compare q' p"
      using pe.cmp_zero_left [of m q q' p] 2 ok "1.prems"(3) by simp
    with 2 below "1.IH"(2) "1.prems" asc ok show ?thesis
      by (auto simp: pe_assoc_emit node_result_def split: option.splits)
  next
    case 3
    then have "PathElement_Compare q' p = 0 \<Longrightarrow> pe_assoc ((q, s) # xs) p = None"
      using pe.covers_less_head [OF prems(1) ok(2) "1.prems"(3)] pe_assoc_None_iff [of "(q, s) # xs" p] by simp
    with 3 below "1.IH"(3) "1.prems" asc ok show ?thesis
      by (auto simp: pe_assoc_emit node_result_def split: option.splits)
  qed
next
  case (2 l b r q s xs)
  then have "PathElement_Compare q p = 0 \<Longrightarrow> pe_assoc xs p = None"
    by (intro pe_assoc_below [of m xs q p]) (auto simp: pe.ascending_Cons)
  with 2 show ?case by (auto simp: pe_assoc_emit node_result_def pe.ascending_Cons split: option.splits)
next
  case (3 l b r q t ys)
  then have "PathElement_Compare q p = 0 \<Longrightarrow> pe_assoc ys p = None"
    by (intro pe_assoc_below [of m ys q p]) (auto simp: pe.ascending_Cons)
  with 3 show ?case by (auto simp: pe_assoc_emit node_result_def pe.ascending_Cons split: option.splits)
qed (simp add: node_result_def)

end
