(* ===== verification/Field_Set_Laws.thy ===== *)
theory Field_Set_Laws
  imports Field_Set
begin

text \<open>
  The laws of \<^verbatim>\<open>fieldpath.Set\<close>: every operation keeps the invariant, and \<^verbatim>\<open>Has\<close> after an operation
  is the set-theoretic combination of \<^verbatim>\<open>Has\<close> before it.
\<close>

section \<open>Membership and emptiness\<close>

lemma Set_Has_empty [simp]: "\<not> Set_Has (MkSet [] []) p"
proof (cases p)
  case (Cons pe p')
  then show ?thesis
    by (cases p') (simp_all add: PathElementSet_Has_def SetNodeMap_Get_def pe_search_def sort_Search_def
        sort_Search_loop.simps)
qed simp

lemma Set_wf_empty [simp]: "Set_wf m (MkSet [] [])"
  by simp

lemma Set_Empty_empty [simp]: "Set_Empty (MkSet [] [])"
  by (simp add: PathElementSet_Size_def)

lemma SetNodeMap_Get_in: "SetNodeMap_Get cs pe = Some s \<Longrightarrow> \<exists>k. (k, s) \<in> set cs"
proof -
  assume "SetNodeMap_Get cs pe = Some s"
  then have "pe_search (map fst cs) pe \<noteq> length cs" "s = snd (cs ! pe_search (map fst cs) pe)"
    by (auto simp: SetNodeMap_Get_def Let_def split: if_splits)
  moreover have "pe_search (map fst cs) pe \<le> length cs"
    using sort_Search_le [of "length cs"] by (simp add: pe_search_def)
  ultimately have "(fst (cs ! pe_search (map fst cs) pe), s) \<in> set cs" by simp
  then show ?thesis by blast
qed

lemma Set_Has_not_Empty: "Set_Has s p \<Longrightarrow> \<not> Set_Empty s"
proof (induction s p rule: Set_Has.induct)
  case (2 ms cs pe)
  then show ?case
    by (cases ms) (simp_all add: PathElementSet_Has_def PathElementSet_Size_def pe_search_def sort_Search_def
        sort_Search_loop.simps)
next
  case (3 ms cs pe v va)
  then obtain s where "SetNodeMap_Get cs pe = Some s" "Set_Has s (v # va)" by (auto split: option.splits)
  with "3.IH" SetNodeMap_Get_in [of cs pe s] obtain k where "(k, s) \<in> set cs" "\<not> Set_Empty s" by blast
  then show ?case by (auto simp: SetNodeMap_Empty_iff intro!: bexI [of _ "(k, s)"])
qed auto

lemma Set_nonempty_Has:
  "Set_wf m s \<Longrightarrow> \<not> Set_Empty s \<Longrightarrow> \<exists>p. path_ok m p \<and> Set_Has s p"
proof (induction s)
  case (MkSet ms cs)
  have asc: "pe_asc m ms" "pe_asc m (map fst cs)" using MkSet.prems by auto
  show ?case
  proof (cases ms)
    case (Cons pe ms')
    then have pe: "pe_ok m pe" "pe_covers ms pe"
      using asc(1) by (auto simp: pe.ascending_Cons pe.cmp_refl)
    then have "Set_Has (MkSet ms cs) [pe]" using asc by (simp add: PathElementSet_Has_iff [of m])
    with pe show ?thesis by (intro exI [of _ "[pe]"]) simp
  next
    case Nil
    with MkSet.prems obtain k s where c: "(k, s) \<in> set cs" "\<not> Set_Empty s"
      by (auto simp: PathElementSet_Size_def SetNodeMap_Empty_iff)
    with MkSet Set_wf_child [of m ms cs k s] obtain p where p: "path_ok m p" "Set_Has s p" by blast
    have k: "pe_ok m k" using Set_wf_child MkSet.prems c by blast
    moreover have "p \<noteq> []" using p by auto
    ultimately have "Set_Has (MkSet ms cs) (k # p)"
      using Set_Has_Cons [OF asc k] pe_assoc_in [OF asc(2) c(1)] p by simp
    with p k show ?thesis by (intro exI [of _ "k # p"]) simp
  qed
qed

lemma Set_Empty_iff_Has: "Set_wf m s \<Longrightarrow> Set_Empty s \<longleftrightarrow> (\<forall>p. path_ok m p \<longrightarrow> \<not> Set_Has s p)"
  using Set_nonempty_Has Set_Has_not_Empty by blast

lemma comparator_Path: "comparator (path_ok m) Path_Compare"
  using comparator.comparator_lexcmp [OF comparator_PathElement [of m]]
  by (simp add: Path_Compare_def [abs_def])

lemma Path_Equals_iff:
  assumes "path_ok m p" "path_ok m q"
  shows "Path_Equals p q \<longleftrightarrow> Path_Compare p q = 0"
proof -
  have "PathElement_Equals x y \<longleftrightarrow> PathElement_Compare x y = 0" if "(x, y) \<in> set (zip p q)" for x y
    using assms set_zip_leftD [OF that] set_zip_rightD [OF that]
    by (intro pe.eqv_iff [of m]) (auto simp: list_all_iff)
  then show ?thesis
    by (auto simp: Path_Equals_def Path_Compare_def lexcmp_zero_iff list_all2_iff list_all_iff)
qed

interpretation path: key_order "path_ok m" Path_Compare Path_Equals
  for m
  by (intro key_order.intro comparator_Path key_order_axioms.intro Path_Equals_iff)

lemma Path_Equals_Cons [simp]:
  "Path_Equals (x # p) (y # q) \<longleftrightarrow> PathElement_Equals x y \<and> Path_Equals p q"
  "Path_Equals [] q \<longleftrightarrow> q = []" "Path_Equals p [] \<longleftrightarrow> p = []"
  by (auto simp: Path_Equals_def)

section \<open>Insert\<close>

lemma SetNodeMap_Descend_Insert:
  assumes "pe_asc m (map fst cs)" "pe_ok m pe"
  shows "SetNodeMap_Descend cs pe upd =
    PathElementMap_Insert cs pe (upd (case pe_assoc cs pe of None \<Rightarrow> MkSet [] [] | Some s \<Rightarrow> s))"
proof -
  have "pe_assoc cs pe = PathElementMap_Get cs pe" using PathElementMap_Get_assoc [OF assms] by simp
  then show ?thesis
    by (auto simp: SetNodeMap_Descend_def PathElementMap_Insert_def PathElementMap_Get_def Let_def)
qed

lemma Set_Insert_Has [has_simps]:
  "Set_wf m s \<Longrightarrow> path_ok m p \<Longrightarrow> path_ok m q \<Longrightarrow>
    Set_Has (Set_Insert s p) q \<longleftrightarrow> (p \<noteq> [] \<and> Path_Equals p q) \<or> Set_Has s q"
proof (induction s p arbitrary: q rule: Set_Insert.induct)
  case (2 ms cs pe)
  have asc: "pe_asc m ms" "pe_asc m (map fst cs)" "pe_ok m pe" using "2.prems" by auto
  show ?case
  proof (cases q)
    case (Cons r q')
    then have r: "pe_ok m r" using "2.prems" by simp
    with Cons asc show ?thesis
      by (auto simp: Set_Has_Cons [of m] PathElementSet_Insert_correct [OF asc(1,3)])
  qed simp
next
  case (3 ms cs pe v va)
  have asc: "pe_asc m ms" "pe_asc m (map fst cs)" "pe_ok m pe" using "3.prems" by auto
  let ?sub = "case pe_assoc cs pe of None \<Rightarrow> MkSet [] [] | Some s \<Rightarrow> s"
  let ?cs = "PathElementMap_Insert cs pe (Set_Insert ?sub (v # va))"
  have sub: "Set_wf m ?sub"
    using pe_assoc_wf [OF "3.prems"(1)] by (auto split: option.splits)
  have ins: "Set_Insert (MkSet ms cs) (pe # v # va) = MkSet ms ?cs"
    by (simp add: SetNodeMap_Descend_Insert [OF asc(2,3)])
  show ?case
  proof (cases q)
    case (Cons r q')
    then have r: "pe_ok m r" "path_ok m q'" using "3.prems" by simp_all
    have "pe_assoc ?cs r = (if PathElement_Equals pe r then Some (Set_Insert ?sub (v # va)) else pe_assoc cs r)"
      by (rule PathElementMap_Insert_assoc [OF asc(2,3) r(1)])
    moreover have "pe_assoc cs pe = pe_assoc cs r" if "PathElement_Equals pe r"
      using that asc r pe.eqv_iff [of m pe r] by (intro pe_assoc_cong [of m]) auto
    moreover have "Set_Has (Set_Insert ?sub (v # va)) q' \<longleftrightarrow> Path_Equals (v # va) q' \<or> Set_Has ?sub q'"
      using "3.IH" [OF sub] "3.prems"(2) r(2) by simp
    moreover have "Set_Has (MkSet ms ?cs) (r # q') =
        (if q' = [] then pe_covers ms r else case pe_assoc ?cs r of None \<Rightarrow> False | Some s \<Rightarrow> Set_Has s q')"
      using asc r by (intro Set_Has_Cons [of m]) (auto intro: PathElementMap_Insert_asc)
    ultimately show ?thesis
      unfolding ins Cons Set_Has_Cons [OF asc(1,2) r(1)] by (auto split: option.splits)
  qed simp
qed auto

lemma Set_Insert_wf [wf_intros]:
  "Set_wf m s \<Longrightarrow> path_ok m p \<Longrightarrow> Set_wf m (Set_Insert s p)"
proof (induction s p rule: Set_Insert.induct)
  case (2 ms cs pe)
  then show ?case using PathElementSet_Insert_correct(1) [of m ms pe] by simp
next
  case (3 ms cs pe v va)
  have asc: "pe_asc m ms" "pe_asc m (map fst cs)" "pe_ok m pe" using "3.prems" by auto
  let ?sub = "case pe_assoc cs pe of None \<Rightarrow> MkSet [] [] | Some s \<Rightarrow> s"
  let ?new = "Set_Insert ?sub (v # va)"
  have sub: "Set_wf m ?sub" using pe_assoc_wf [OF "3.prems"(1)] by (auto split: option.splits)
  have new: "Set_wf m ?new" using "3.IH" [OF sub] "3.prems" by simp
  moreover have "Set_Has ?new (v # va)"
    using Set_Insert_Has [OF sub, of "v # va" "v # va"] "3.prems" path.eqv_refl [of m "v # va"] by simp
  ultimately have "\<not> Set_Empty ?new" by (intro Set_Has_not_Empty)
  with new have "list_all (\<lambda>c. Set_wf m (snd c) \<and> \<not> Set_Empty (snd c)) (PathElementMap_Insert cs pe ?new)"
    using PathElementMap_Insert_set [of cs pe ?new] "3.prems"(1) by (fastforce simp: list_all_iff)
  with asc show ?case
    by (simp add: SetNodeMap_Descend_Insert [of m] PathElementMap_Insert_asc)
qed auto


section \<open>The binary operations\<close>

text \<open>The result of a merge of the children, for the path elements whose keys the operations treat alike.\<close>

lemma nonempty_Some: "nonempty s = Some t \<longleftrightarrow> t = s \<and> \<not> Set_Empty s"
  "nonempty s = None \<longleftrightarrow> Set_Empty s"
  by (auto simp: nonempty_def)

lemma nonempty_Has: "(case nonempty s of None \<Rightarrow> False | Some x \<Rightarrow> Set_Has x p) = Set_Has s p"
  by (auto simp: nonempty_def dest: Set_Has_not_Empty)

lemma Set_Union_Has [has_simps]:
  "Set_wf m s \<Longrightarrow> Set_wf m t \<Longrightarrow> path_ok m p \<Longrightarrow> Set_Has (Set_Union s t) p \<longleftrightarrow> Set_Has s p \<or> Set_Has t p"
proof (induction p arbitrary: s t)
  case (Cons pe p)
  obtain ms cs where s: "s = MkSet ms cs" by (cases s)
  obtain ms2 cs2 where t: "t = MkSet ms2 cs2" by (cases t)
  have asc: "pe_asc m ms" "pe_asc m (map fst cs)" "pe_asc m ms2" "pe_asc m (map fst cs2)" "pe_ok m pe" "path_ok m p"
    using Cons.prems s t by simp_all
  have "pe_assoc (SetNodeMap_Union cs cs2) pe =
      node_result Some (\<lambda>s t. Some (Set_Union s t)) Some (pe_assoc cs pe) (pe_assoc cs2 pe)"
    unfolding SetNodeMap_Union_merge by (rule node_merge_assoc [OF asc(2,4,5)]) simp
  moreover have "pe_asc m (map fst (SetNodeMap_Union cs cs2))"
    unfolding SetNodeMap_Union_merge by (rule node_merge_asc [OF asc(2,4)])
  ultimately show ?case
    using asc Cons.IH pe_assoc_wf [OF Cons.prems(1) [unfolded s]] pe_assoc_wf [OF Cons.prems(2) [unfolded t]]
    by (auto simp: s t Set_Has_Cons [of m] PathElementSet_Union_asc PathElementSet_Union_covers [of m] node_result_def
        split: option.splits)
qed simp

lemma Set_Intersection_Has [has_simps]:
  "Set_wf m s \<Longrightarrow> Set_wf m t \<Longrightarrow> path_ok m p \<Longrightarrow> Set_Has (Set_Intersection s t) p \<longleftrightarrow> Set_Has s p \<and> Set_Has t p"
proof (induction p arbitrary: s t)
  case (Cons pe p)
  obtain ms cs where s: "s = MkSet ms cs" by (cases s)
  obtain ms2 cs2 where t: "t = MkSet ms2 cs2" by (cases t)
  have asc: "pe_asc m ms" "pe_asc m (map fst cs)" "pe_asc m ms2" "pe_asc m (map fst cs2)" "pe_ok m pe" "path_ok m p"
    using Cons.prems s t by simp_all
  have "pe_assoc (SetNodeMap_Intersection cs cs2) pe =
      node_result (\<lambda>_. None) (\<lambda>s t. nonempty (Set_Intersection s t)) (\<lambda>_. None) (pe_assoc cs pe) (pe_assoc cs2 pe)"
    unfolding SetNodeMap_Intersection_merge by (rule node_merge_assoc [OF asc(2,4,5)]) simp
  moreover have "pe_asc m (map fst (SetNodeMap_Intersection cs cs2))"
    unfolding SetNodeMap_Intersection_merge by (rule node_merge_asc [OF asc(2,4)])
  ultimately show ?case
    using asc Cons.IH pe_assoc_wf(1) [OF Cons.prems(1) [unfolded s]] pe_assoc_wf(1) [OF Cons.prems(2) [unfolded t]]
    by (cases "pe_assoc cs pe"; cases "pe_assoc cs2 pe")
       (auto simp: s t Set_Has_Cons [of m] PathElementSet_Intersection_asc PathElementSet_Intersection_covers [of m]
        node_result_def nonempty_Has)
qed simp

lemma Set_Difference_Has [has_simps]:
  "Set_wf m s \<Longrightarrow> Set_wf m t \<Longrightarrow> path_ok m p \<Longrightarrow> Set_Has (Set_Difference s t) p \<longleftrightarrow> Set_Has s p \<and> \<not> Set_Has t p"
proof (induction p arbitrary: s t)
  case (Cons pe p)
  obtain ms cs where s: "s = MkSet ms cs" by (cases s)
  obtain ms2 cs2 where t: "t = MkSet ms2 cs2" by (cases t)
  have asc: "pe_asc m ms" "pe_asc m (map fst cs)" "pe_asc m ms2" "pe_asc m (map fst cs2)" "pe_ok m pe" "path_ok m p"
    using Cons.prems s t by simp_all
  have "pe_assoc (SetNodeMap_Difference cs cs2) pe =
      node_result Some (\<lambda>s t. nonempty (Set_Difference s t)) (\<lambda>_. None) (pe_assoc cs pe) (pe_assoc cs2 pe)"
    unfolding SetNodeMap_Difference_merge by (rule node_merge_assoc [OF asc(2,4,5)]) simp
  moreover have "pe_asc m (map fst (SetNodeMap_Difference cs cs2))"
    unfolding SetNodeMap_Difference_merge by (rule node_merge_asc [OF asc(2,4)])
  ultimately show ?case
    using asc Cons.IH pe_assoc_wf(1) [OF Cons.prems(1) [unfolded s]] pe_assoc_wf(1) [OF Cons.prems(2) [unfolded t]]
    by (cases "pe_assoc cs pe"; cases "pe_assoc cs2 pe")
       (auto simp: s t Set_Has_Cons [of m] PathElementSet_Difference_asc PathElementSet_Difference_covers [of m]
        node_result_def nonempty_Has)
qed simp

text \<open>A path is covered by a set when the set has a prefix of it: the path itself or an ancestor.\<close>

definition Set_covers :: "FieldSet \<Rightarrow> Path \<Rightarrow> bool" where
  "Set_covers t p \<longleftrightarrow> (\<exists>i \<le> length p. Set_Has t (take i p))"

lemma Set_covers_Nil [simp]: "\<not> Set_covers t []"
  by (simp add: Set_covers_def)

lemma Set_Has_take: "Set_Has s (take i p) \<Longrightarrow> i \<noteq> 0 \<and> p \<noteq> []"
  by (cases i; cases p) auto

lemma Set_covers_Cons:
  assumes "pe_asc m ms" "pe_asc m (map fst cs)" "pe_ok m pe"
  shows "Set_covers (MkSet ms cs) (pe # p) \<longleftrightarrow>
    pe_covers ms pe \<or> (case pe_assoc cs pe of None \<Rightarrow> False | Some s \<Rightarrow> Set_covers s p)"
proof -
  have "Set_covers (MkSet ms cs) (pe # p) \<longleftrightarrow> (\<exists>i \<le> length p. Set_Has (MkSet ms cs) (pe # take i p))"
    (is "_ \<longleftrightarrow> ?R")
  proof
    assume "Set_covers (MkSet ms cs) (pe # p)"
    then obtain i where "i \<le> length (pe # p)" "Set_Has (MkSet ms cs) (take i (pe # p))"
      by (auto simp: Set_covers_def)
    then show ?R by (cases i) auto
  next
    assume ?R
    then obtain i where "i \<le> length p" "Set_Has (MkSet ms cs) (pe # take i p)" by blast
    then show "Set_covers (MkSet ms cs) (pe # p)"
      unfolding Set_covers_def by (intro exI [of _ "Suc i"]) simp
  qed
  also have "\<dots> \<longleftrightarrow> pe_covers ms pe \<or> (\<exists>i \<le> length p. take i p \<noteq> [] \<and> Set_Has (MkSet ms cs) (pe # take i p))"
    using Set_Has_Cons [OF assms, of "[]"] by (metis le0 take0)
  also have "\<dots> \<longleftrightarrow> pe_covers ms pe \<or> (\<exists>i \<le> length p. take i p \<noteq> [] \<and>
      (case pe_assoc cs pe of None \<Rightarrow> False | Some s \<Rightarrow> Set_Has s (take i p)))"
    by (auto simp: Set_Has_Cons [OF assms])
  also have "\<dots> \<longleftrightarrow> pe_covers ms pe \<or> (case pe_assoc cs pe of None \<Rightarrow> False | Some s \<Rightarrow> Set_covers s p)"
    by (cases "pe_assoc cs pe") (auto simp: Set_covers_def dest: Set_Has_take)
  finally show ?thesis .
qed

lemma Set_RecursiveDifference_Has [has_simps]:
  "Set_wf m s \<Longrightarrow> Set_wf m t \<Longrightarrow> path_ok m p \<Longrightarrow>
    Set_Has (Set_RecursiveDifference s t) p \<longleftrightarrow> Set_Has s p \<and> \<not> Set_covers t p"
proof (induction p arbitrary: s t)
  case (Cons pe p)
  obtain ms cs where s: "s = MkSet ms cs" by (cases s)
  obtain ms2 cs2 where t: "t = MkSet ms2 cs2" by (cases t)
  have asc: "pe_asc m ms" "pe_asc m (map fst cs)" "pe_asc m ms2" "pe_asc m (map fst cs2)" "pe_ok m pe" "path_ok m p"
    using Cons.prems s t by simp_all
  have has2: "PathElementSet_Has ms2 k = PathElementSet_Has ms2 pe"
    if "pe_ok m k" "PathElement_Compare k pe = 0" for k
    using that asc pe.covers_cong [of m ms2 k pe] by (simp add: PathElementSet_Has_iff [of m])
  have "pe_assoc (SetNodeMap_RecursiveDifference ms2 cs cs2) pe =
      node_result (\<lambda>s. if PathElementSet_Has ms2 pe then None else Some s)
        (\<lambda>s t. if PathElementSet_Has ms2 pe then None else nonempty (Set_RecursiveDifference s t))
        (\<lambda>_. None) (pe_assoc cs pe) (pe_assoc cs2 pe)"
    unfolding SetNodeMap_RecursiveDifference_merge
    by (rule node_merge_assoc [OF asc(2,4,5)]) (auto simp: has2 fun_eq_iff)
  moreover have "pe_asc m (map fst (SetNodeMap_RecursiveDifference ms2 cs cs2))"
    unfolding SetNodeMap_RecursiveDifference_merge by (rule node_merge_asc [OF asc(2,4)])
  moreover have "Set_covers t (pe # p) \<longleftrightarrow>
      pe_covers ms2 pe \<or> (case pe_assoc cs2 pe of None \<Rightarrow> False | Some s \<Rightarrow> Set_covers s p)"
    unfolding t by (rule Set_covers_Cons [OF asc(3-5)])
  ultimately show ?case
    using asc Cons.IH pe_assoc_wf(1) [OF Cons.prems(1) [unfolded s]] pe_assoc_wf(1) [OF Cons.prems(2) [unfolded t]]
    by (cases "pe_assoc cs pe"; cases "pe_assoc cs2 pe"; cases "PathElementSet_Has ms2 pe")
       (auto simp: s t Set_Has_Cons [of m] PathElementSet_Difference_asc PathElementSet_Difference_covers [of m]
        PathElementSet_Has_iff [of m] node_result_def nonempty_Has)
qed simp

text \<open>Every operation keeps the invariant.  What is emitted for a child is well-formed and not empty.\<close>

lemma Set_wf_merge:
  assumes "pe_asc m ms" "pe_asc m (map fst xs)" "pe_asc m (map fst ys)"
    and "\<And>k v. node_origin l b r (set xs) (set ys) k v \<Longrightarrow> Set_wf m v \<and> \<not> Set_Empty v"
  shows "Set_wf m (MkSet ms (node_merge l b r xs ys))"
proof -
  have "Set_wf m v \<and> \<not> Set_Empty v" if "(k, v) \<in> set (node_merge l b r xs ys)" for k v
    using node_merge_origin [OF that] assms(4) by blast
  then show ?thesis using assms(1-3) by (auto simp: node_merge_asc list_all_iff)
qed

lemma Set_Union_wf [wf_intros]: "Set_wf m s \<Longrightarrow> Set_wf m t \<Longrightarrow> Set_wf m (Set_Union s t)"
proof (induction s arbitrary: t)
  case (MkSet ms cs)
  obtain ms2 cs2 where t: "t = MkSet ms2 cs2" by (cases t)
  note wf = MkSet.prems(1) MkSet.prems(2) [unfolded t]
  have "Set_wf m (Set_Union s1 s2) \<and> \<not> Set_Empty (Set_Union s1 s2)"
    if "(k1, s1) \<in> set cs" "(k2, s2) \<in> set cs2" for k1 s1 k2 s2
  proof -
    have ok: "Set_wf m s1" "\<not> Set_Empty s1" "Set_wf m s2" using that wf Set_wf_child by blast+
    then obtain p where "path_ok m p" "Set_Has s1 p" using Set_nonempty_Has by blast
    with ok have "Set_Has (Set_Union s1 s2) p" by (simp add: Set_Union_Has [of m])
    with ok that MkSet.IH show ?thesis by (blast dest: Set_Has_not_Empty)
  qed
  with wf show ?case
    unfolding t Set_Union.simps SetNodeMap_Union_merge
    by (intro Set_wf_merge) (auto simp: node_origin_def intro: PathElementSet_Union_asc
         dest: Set_wf_child [OF wf(1)] Set_wf_child [OF wf(2)])
qed

lemma Set_Intersection_wf [wf_intros]: "Set_wf m s \<Longrightarrow> Set_wf m t \<Longrightarrow> Set_wf m (Set_Intersection s t)"
proof (induction s arbitrary: t)
  case (MkSet ms cs)
  obtain ms2 cs2 where t: "t = MkSet ms2 cs2" by (cases t)
  note wf = MkSet.prems(1) MkSet.prems(2) [unfolded t]
  from wf show ?case
    unfolding t Set_Intersection.simps SetNodeMap_Intersection_merge
    by (intro Set_wf_merge)
       (auto simp: node_origin_def nonempty_Some intro: PathElementSet_Intersection_asc MkSet.IH
         dest: Set_wf_child [OF wf(1)] Set_wf_child [OF wf(2)])
qed

lemma Set_Difference_wf [wf_intros]: "Set_wf m s \<Longrightarrow> Set_wf m t \<Longrightarrow> Set_wf m (Set_Difference s t)"
proof (induction s arbitrary: t)
  case (MkSet ms cs)
  obtain ms2 cs2 where t: "t = MkSet ms2 cs2" by (cases t)
  note wf = MkSet.prems(1) MkSet.prems(2) [unfolded t]
  from wf show ?case
    unfolding t Set_Difference.simps SetNodeMap_Difference_merge
    by (intro Set_wf_merge)
       (auto simp: node_origin_def nonempty_Some intro: PathElementSet_Difference_asc MkSet.IH
         dest: Set_wf_child [OF wf(1)] Set_wf_child [OF wf(2)])
qed

lemma Set_RecursiveDifference_wf [wf_intros]:
  "Set_wf m s \<Longrightarrow> Set_wf m t \<Longrightarrow> Set_wf m (Set_RecursiveDifference s t)"
proof (induction s arbitrary: t)
  case (MkSet ms cs)
  obtain ms2 cs2 where t: "t = MkSet ms2 cs2" by (cases t)
  note wf = MkSet.prems(1) MkSet.prems(2) [unfolded t]
  from wf show ?case
    unfolding t Set_RecursiveDifference.simps SetNodeMap_RecursiveDifference_merge
    by (intro Set_wf_merge)
       (auto simp: node_origin_def nonempty_Some split: if_splits intro: PathElementSet_Difference_asc MkSet.IH
         dest: Set_wf_child [OF wf(1)] Set_wf_child [OF wf(2)])
qed

lemma NewSet_laws:
  assumes "list_all (path_ok m) ps"
  shows NewSet_wf: "Set_wf m (NewSet ps)"
    and NewSet_Has: "path_ok m q \<Longrightarrow> Set_Has (NewSet ps) q \<longleftrightarrow> (\<exists>p \<in> set ps. p \<noteq> [] \<and> Path_Equals p q)"
proof -
  have "Set_wf m (foldl Set_Insert s ps) \<and>
      (path_ok m q \<longrightarrow> Set_Has (foldl Set_Insert s ps) q \<longleftrightarrow> Set_Has s q \<or> (\<exists>p \<in> set ps. p \<noteq> [] \<and> Path_Equals p q))"
    if "Set_wf m s" for s q
    using assms that
    by (induction ps arbitrary: s) (auto simp: Set_Insert_wf Set_Insert_Has [of m])
  from this [of "MkSet [] []" q for q] show "Set_wf m (NewSet ps)"
    and "path_ok m q \<Longrightarrow> Set_Has (NewSet ps) q \<longleftrightarrow> (\<exists>p \<in> set ps. p \<noteq> [] \<and> Path_Equals p q)"
    by (auto simp: NewSet_def)
qed

end
