(* ===== verification/Field_Set_Views.thy ===== *)
theory Field_Set_Views
  imports Field_Set_Laws
begin

text \<open>
  Further laws of \<^verbatim>\<open>fieldpath.Set\<close>: \<^verbatim>\<open>Equals\<close> decides extensional equality, \<^verbatim>\<open>Iterate\<close> enumerates the set
  without repetition and \<^verbatim>\<open>Size\<close> counts it, \<^verbatim>\<open>Leaves\<close> keeps the paths that have no proper extension,
  \<^verbatim>\<open>WithPrefix\<close> is the subset below a path element.
\<close>

section \<open>Equals\<close>

lemma SetNodeMap_Equals_list:
  "SetNodeMap_Equals cs cs2 \<longleftrightarrow>
     list_all2 (\<lambda>c d. PathElement_Equals (fst c) (fst d) \<and> Set_Equals (snd c) (snd d)) cs cs2"
proof (induction cs arbitrary: cs2)
  case Nil
  then show ?case by (cases cs2) auto
next
  case (Cons c cs)
  obtain k s where c: "c = (k, s)" by (cases c)
  show ?case
  proof (cases cs2)
    case (Cons d ds)
    then show ?thesis using Cons.IH [of ds] by (cases d) (simp add: c)
  qed (simp add: c)
qed

lemma keys_Equals_Compare:
  assumes "pe_asc m (map fst cs)" "pe_asc m (map fst cs2)"
  shows "list_all2 (\<lambda>c d. PathElement_Equals (fst c) (fst d) \<and> R (snd c) (snd d)) cs cs2 \<longleftrightarrow>
    list_all2 (\<lambda>c d. PathElement_Compare (fst c) (fst d) = 0 \<and> R (snd c) (snd d)) cs cs2"
proof (intro list.rel_cong refl)
  fix c d assume "c \<in> set cs" "d \<in> set cs2"
  then have "pe_ok m (fst c)" "pe_ok m (fst d)" using assms pe.ascending_ok [of m "map fst _"] by auto
  then show "(PathElement_Equals (fst c) (fst d) \<and> R (snd c) (snd d)) =
      (PathElement_Compare (fst c) (fst d) = 0 \<and> R (snd c) (snd d))"
    by (simp add: pe.eqv_iff [of m])
qed

lemma pe_assoc_rel:
  assumes "list_all2 (\<lambda>c d. PathElement_Compare (fst c) (fst d) = 0 \<and> R (snd c) (snd d)) cs cs2"
    "pe_asc m (map fst cs)" "pe_asc m (map fst cs2)" "pe_ok m p"
  shows "rel_option R (pe_assoc cs p) (pe_assoc cs2 p)"
  using assms
proof (induction rule: list_all2_induct)
  case (Cons c cs d ds)
  then have "PathElement_Compare (fst c) p = PathElement_Compare (fst d) p"
    using pe.cmp_zero_left [of m "fst c" "fst d" p] by (auto simp: pe.ascending_Cons)
  with Cons show ?case by (cases c; cases d) (auto simp: pe.ascending_Cons)
qed simp

lemma Set_Equals_imp_Has:
  "Set_wf m s \<Longrightarrow> Set_wf m t \<Longrightarrow> path_ok m p \<Longrightarrow> Set_Equals s t \<Longrightarrow> Set_Has s p = Set_Has t p"
proof (induction p arbitrary: s t)
  case (Cons pe p)
  obtain ms cs where s: "s = MkSet ms cs" by (cases s)
  obtain ms2 cs2 where t: "t = MkSet ms2 cs2" by (cases t)
  have asc: "pe_asc m ms" "pe_asc m (map fst cs)" "pe_asc m ms2" "pe_asc m (map fst cs2)" "pe_ok m pe" "path_ok m p"
    using Cons.prems s t by simp_all
  have "rel_option Set_Equals (pe_assoc cs pe) (pe_assoc cs2 pe)"
    using Cons.prems(4) asc
    by (intro pe_assoc_rel [of _ _ _ m])
       (simp_all add: s t SetNodeMap_Equals_list keys_Equals_Compare [of m])
  moreover have "pe_covers ms pe = pe_covers ms2 pe"
    using Cons.prems(4) asc PathElementSet_Equals_iff [OF asc(1,3)] by (simp add: s t)
  ultimately show ?case
    using asc Cons.IH pe_assoc_wf(1) [OF Cons.prems(1) [unfolded s]] pe_assoc_wf(1) [OF Cons.prems(2) [unfolded t]]
    by (cases "pe_assoc cs pe"; cases "pe_assoc cs2 pe") (auto simp: s t Set_Has_Cons [of m])
qed simp

lemma child_extension:
  assumes "Set_wf m (MkSet ms cs)" "pe_ok m pe"
  shows "pe_covers (map fst cs) pe \<longleftrightarrow> (\<exists>p. p \<noteq> [] \<and> path_ok m p \<and> Set_Has (MkSet ms cs) (pe # p))"
proof -
  have asc: "pe_asc m ms" "pe_asc m (map fst cs)" using assms by simp_all
  have "\<exists>p. p \<noteq> [] \<and> path_ok m p \<and> Set_Has s p" if "pe_assoc cs pe = Some s" for s
    using Set_nonempty_Has pe_assoc_wf [OF assms(1) that] by (metis Set_Has.simps(1))
  then show ?thesis
    using pe_assoc_None_iff [of cs pe]
    by (cases "pe_assoc cs pe") (auto simp: Set_Has_Cons [OF asc assms(2)])
qed

lemma Set_Equals_if_Has:
  "Set_wf m s \<Longrightarrow> Set_wf m t \<Longrightarrow> (\<And>p. path_ok m p \<Longrightarrow> Set_Has s p = Set_Has t p) \<Longrightarrow> Set_Equals s t"
proof (induction s arbitrary: t)
  case (MkSet ms cs)
  obtain ms2 cs2 where t: "t = MkSet ms2 cs2" by (cases t)
  note wf = MkSet.prems(1) MkSet.prems(2) [unfolded t] and has = MkSet.prems(3) [unfolded t]
  have asc: "pe_asc m ms" "pe_asc m (map fst cs)" "pe_asc m ms2" "pe_asc m (map fst cs2)" using wf by simp_all
  have "pe_covers ms pe = pe_covers ms2 pe" if "pe_ok m pe" for pe
    using has [of "[pe]"] that asc by (simp add: PathElementSet_Has_iff [of m])
  then have ms: "PathElementSet_Equals ms ms2" by (simp add: PathElementSet_Equals_iff [OF asc(1,3)])
  have "pe_covers (map fst cs) pe = pe_covers (map fst cs2) pe" if "pe_ok m pe" for pe
    using has that by (auto simp: child_extension [OF wf(1)] child_extension [OF wf(2)])
  then have "list_all2 (\<lambda>x y. PathElement_Compare x y = 0) (map fst cs) (map fst cs2)"
    by (rule pe.covers_antisym [OF asc(2,4)])
  then have keys: "list_all2 (\<lambda>c d. PathElement_Compare (fst c) (fst d) = 0) cs cs2"
    by (simp add: list_all2_map1 list_all2_map2)
  have "Set_Equals s1 s2"
    if "(k1, s1) \<in> set cs" "(k2, s2) \<in> set cs2" "PathElement_Compare k1 k2 = 0" for k1 s1 k2 s2
  proof -
    have ok: "pe_ok m k1" "pe_ok m k2" "Set_wf m s1" "Set_wf m s2" using that wf Set_wf_child by blast+
    have "pe_assoc cs k1 = Some s1" "pe_assoc cs2 k1 = Some s2"
      using that ok asc pe_assoc_in [of m cs] pe_assoc_in [of m cs2] pe_assoc_cong [of m cs2 k1 k2] by auto
    then have "Set_Has s1 p = Set_Has s2 p" if "path_ok m p" "p \<noteq> []" for p
      using has [of "k1 # p"] that ok asc by (simp add: Set_Has_Cons [of m])
    then have "Set_Has s1 p = Set_Has s2 p" if "path_ok m p" for p
      using that by (cases "p = []") auto
    then show ?thesis using MkSet.IH that ok by blast
  qed
  with keys have "list_all2 (\<lambda>c d. PathElement_Compare (fst c) (fst d) = 0 \<and> Set_Equals (snd c) (snd d)) cs cs2"
    by (elim list.rel_mono_strong) auto
  with ms asc show ?case by (simp add: t SetNodeMap_Equals_list keys_Equals_Compare [of m])
qed

lemma Set_Equals_iff:
  assumes "Set_wf m s" "Set_wf m t"
  shows "Set_Equals s t \<longleftrightarrow> (\<forall>p. path_ok m p \<longrightarrow> Set_Has s p = Set_Has t p)"
  using Set_Equals_imp_Has [OF assms] Set_Equals_if_Has [OF assms] by blast

section \<open>Iterate and Size\<close>

text \<open>The paths of a set in the order \<^verbatim>\<open>Iterate\<close> visits them.\<close>

fun Set_paths :: "FieldSet \<Rightarrow> Path list" where
  "Set_paths (MkSet ms cs) =
     map (\<lambda>pe. [pe]) ms @ concat (map (\<lambda>c. map ((#) (fst c)) (Set_paths (snd c))) cs)"

lemma Set_iteratePrefix_fold:
  "Set_iteratePrefix s prefix f st = fold f (map ((@) prefix) (Set_paths s)) st"
  "SetNodeMap_iteratePrefix cs prefix f st =
     fold f (map ((@) prefix) (concat (map (\<lambda>c. map ((#) (fst c)) (Set_paths (snd c))) cs))) st"
  by (induction s prefix f st and cs prefix f st rule: Set_iteratePrefix_SetNodeMap_iteratePrefix.induct)
     (auto simp: PathElementSet_Iterate_def fold_map comp_def map_concat)

lemma Set_Iterate_fold: "Set_Iterate s f st = fold f (Set_paths s) st"
proof -
  have "map ((@) []) (Set_paths s) = Set_paths s" by (simp add: map_idI)
  then show ?thesis by (simp only: Set_Iterate_def Set_iteratePrefix_fold)
qed

lemma Set_Size_paths:
  "Set_Size s = length (Set_paths s)"
  "SetNodeMap_Size cs = length (concat (map (\<lambda>c. map ((#) (fst c)) (Set_paths (snd c))) cs))"
  by (induction s and cs rule: Set_Size_SetNodeMap_Size.induct) (auto simp: PathElementSet_Size_def)

lemma Set_paths_nonempty: "p \<in> set (Set_paths s) \<Longrightarrow> p \<noteq> []"
  by (cases s) auto

lemma Set_paths_Cons:
  "pe # p \<in> set (Set_paths (MkSet ms cs)) \<longleftrightarrow>
    p = [] \<and> pe \<in> set ms \<or> (\<exists>s. (pe, s) \<in> set cs \<and> p \<in> set (Set_paths s))"
  by force

lemma Set_paths_ok: "Set_wf m s \<Longrightarrow> p \<in> set (Set_paths s) \<Longrightarrow> path_ok m p"
proof (induction p arbitrary: s)
  case (Cons pe p)
  obtain ms cs where s: "s = MkSet ms cs" by (cases s)
  with Cons.prems consider "p = []" "pe \<in> set ms" | s' where "(pe, s') \<in> set cs" "p \<in> set (Set_paths s')"
    by (auto simp only: Set_paths_Cons)
  then show ?case
  proof cases
    case 1
    then show ?thesis using Cons.prems(1) s pe.ascending_ok [of m ms pe] by simp
  next
    case 2
    then show ?thesis using Cons.IH Set_wf_child [of m ms cs pe s'] Cons.prems(1) s by auto
  qed
qed simp

lemma Set_Has_paths:
  "Set_wf m s \<Longrightarrow> path_ok m p \<Longrightarrow> Set_Has s p \<longleftrightarrow> (\<exists>q \<in> set (Set_paths s). Path_Equals q p)"
proof (induction p arbitrary: s)
  case Nil
  then show ?case using Set_paths_nonempty by auto
next
  case (Cons pe p)
  obtain ms cs where s: "s = MkSet ms cs" by (cases s)
  note wf = Cons.prems(1) [unfolded s]
  have asc: "pe_asc m ms" "pe_asc m (map fst cs)" "pe_ok m pe" "path_ok m p" using Cons.prems s by simp_all
  have eq: "PathElement_Equals k pe \<longleftrightarrow> PathElement_Compare k pe = 0" if "pe_ok m k" for k
    using that asc by (simp add: pe.eqv_iff [of m])
  have "(\<exists>q \<in> set (Set_paths s). Path_Equals q (pe # p)) \<longleftrightarrow>
      (\<exists>k q. k # q \<in> set (Set_paths s) \<and> PathElement_Equals k pe \<and> Path_Equals q p)" (is "?L \<longleftrightarrow> ?M")
    by (metis Path_Equals_Cons(1) Set_paths_nonempty neq_Nil_conv)
  also have "\<dots> \<longleftrightarrow> p = [] \<and> (\<exists>k \<in> set ms. PathElement_Compare k pe = 0) \<or>
      (\<exists>k s'. (k, s') \<in> set cs \<and> PathElement_Compare k pe = 0 \<and> (\<exists>q \<in> set (Set_paths s'). Path_Equals q p))"
  proof -
    have "PathElement_Equals k pe \<longleftrightarrow> PathElement_Compare k pe = 0" if "k \<in> set ms" for k
      using that eq pe.ascending_ok [OF asc(1)] by blast
    moreover have "PathElement_Equals k pe \<longleftrightarrow> PathElement_Compare k pe = 0" if "(k, s') \<in> set cs" for k s'
      using that eq Set_wf_child [OF wf] by blast
    ultimately show ?thesis unfolding s Set_paths_Cons using Path_Equals_Cons(2) [of p] by blast
  qed
  also have "\<dots> \<longleftrightarrow> p = [] \<and> pe_covers ms pe \<or>
      (\<exists>k s'. (k, s') \<in> set cs \<and> PathElement_Compare k pe = 0 \<and> Set_Has s' p)"
  proof -
    have "(\<exists>q \<in> set (Set_paths s'). Path_Equals q p) \<longleftrightarrow> Set_Has s' p" if "(k, s') \<in> set cs" for k s'
      using that Cons.IH asc(4) Set_wf_child [OF wf] by blast
    then show ?thesis unfolding pe.covers_def by blast
  qed
  also have "\<dots> \<longleftrightarrow> p = [] \<and> pe_covers ms pe \<or> (\<exists>s'. pe_assoc cs pe = Some s' \<and> Set_Has s' p)"
    using pe_assoc_in [OF asc(2)] pe_assoc_Some [of cs pe] pe_assoc_cong [OF asc(2) _ asc(3)] Set_wf_child [OF wf]
    by metis
  also have "\<dots> \<longleftrightarrow> Set_Has s (pe # p)"
    unfolding s Set_Has_Cons [OF asc(1-3)] by (auto split: option.splits)
  finally show ?case by simp
qed

text \<open>No path is visited twice.\<close>

lemma Set_paths_distinct:
  "Set_wf m s \<Longrightarrow> sorted_wrt (\<lambda>p q. \<not> Path_Equals p q) (Set_paths s)"
proof (induction s)
  case (MkSet ms cs)
  have asc: "pe_asc m ms" "pe_asc m (map fst cs)" using MkSet.prems by simp_all
  have child: "Set_wf m s \<and> pe_ok m k" if "(k, s) \<in> set cs" for k s
    using Set_wf_child MkSet.prems that by blast
  have neq: "\<not> PathElement_Equals x y" if "pe_ok m x" "pe_ok m y" "PathElement_Compare x y < 0" for x y
    using that by (simp add: pe.eqv_iff [of m])
  have ms: "sorted_wrt (\<lambda>p q. \<not> Path_Equals p q) (map (\<lambda>pe. [pe]) ms)"
    using asc(1) by (induction ms) (auto simp: pe.ascending_Cons neq dest: pe.ascending_ok)
  have "sorted_wrt (\<lambda>p q. \<not> Path_Equals p q) (concat (map (\<lambda>c. map ((#) (fst c)) (Set_paths (snd c))) cs))"
    using asc(2) child MkSet.IH
  proof (induction cs)
    case (Cons c cs)
    have "sorted_wrt (\<lambda>p q. \<not> Path_Equals p q) (map ((#) (fst c)) (Set_paths (snd c)))"
      using Cons.prems(3) [of "fst c" "snd c"] Cons.prems(2) [of "fst c" "snd c"]
      by (auto simp: sorted_wrt_map elim: sorted_wrt_mono_rel [rotated])
    moreover have "\<not> PathElement_Equals (fst c) (fst d)" if "d \<in> set cs" for d
      using Cons.prems(1) that pe.ascending_ok [of m "map fst cs" "fst d"]
      by (intro neq) (auto simp: pe.ascending_Cons)
    ultimately show ?case
      using Cons by (force simp: sorted_wrt_append pe.ascending_Cons)
  qed simp
  with ms show ?case by (auto simp: sorted_wrt_append dest: Set_paths_nonempty)
qed

section \<open>Leaves and WithPrefix\<close>

lemma Leaves_loop_subset: "set (Leaves_loop ms cs) \<subseteq> set ms"
  by (induction ms cs rule: Leaves_loop.induct) (auto simp: Let_def)

lemma Leaves_loop_asc: "pe_asc m ms \<Longrightarrow> pe_asc m (Leaves_loop ms cs)"
proof (induction ms cs rule: Leaves_loop.induct)
  case (2 x ms)
  then show ?case using Leaves_loop_subset [of ms "[]"] by (auto simp: pe.ascending_Cons)
next
  case (3 x ms c cs)
  then show ?case using Leaves_loop_subset [of ms "c # cs"] by (auto simp: Let_def pe.ascending_Cons)
qed simp

lemma Leaves_loop_covers:
  "pe_asc m ms \<Longrightarrow> pe_asc m (map fst cs) \<Longrightarrow> pe_ok m p \<Longrightarrow>
    pe_covers (Leaves_loop ms cs) p \<longleftrightarrow> pe_covers ms p \<and> \<not> pe_covers (map fst cs) p"
proof (induction ms cs rule: Leaves_loop.induct)
  case (3 x ms c cs)
  have prems: "pe_asc m (x # ms)" "pe_asc m (fst c # map fst cs)" using "3.prems" by simp_all
  note ok = pe_asc_head [OF prems] and asc = prems [unfolded pe.ascending_Cons]
  have low: "\<not> pe_covers ms p" if "PathElement_Compare x p = 0"
    using that pe.covers_below [of m ms x p] asc ok "3.prems"(3) pe.cmp_flip [of m x p] by auto
  have low': "\<not> pe_covers (map fst cs) p" if "PathElement_Compare (fst c) p = 0"
    using that pe.covers_below [of m "map fst cs" "fst c" p] asc ok "3.prems"(3) pe.cmp_flip [of m "fst c" p] by auto
  consider "PathElement_Compare x (fst c) = 0" | "PathElement_Compare x (fst c) < 0"
    | "PathElement_Compare x (fst c) > 0" by linarith
  then show ?case
  proof cases
    case 1
    then have "PathElement_Compare x p = PathElement_Compare (fst c) p"
      using pe.cmp_zero_left [of m x "fst c" p] ok "3.prems"(3) by simp
    with 1 "3.IH"(1) asc "3.prems"(3) low low' show ?thesis by auto
  next
    case 2
    then have "\<not> pe_covers (fst c # map fst cs) p" if "PathElement_Compare x p = 0"
      using that pe.covers_less_head [OF prems(2) ok(1) "3.prems"(3)] by simp
    with 2 "3.IH"(2) asc "3.prems" show ?thesis by auto
  next
    case 3
    then have "PathElement_Compare (fst c) x < 0" using pe.cmp_flip [of m x "fst c"] ok by simp
    then have "\<not> pe_covers (x # ms) p" if "PathElement_Compare (fst c) p = 0"
      using that pe.covers_less_head [OF prems(1) ok(2) "3.prems"(3)] by simp
    with 3 "3.IH"(3) asc "3.prems" show ?thesis by auto
  qed
qed (auto simp: pe.ascending_Cons)

lemma SetNodeMap_Leaves_map: "SetNodeMap_Leaves cs = map (\<lambda>c. (fst c, Set_Leaves (snd c))) cs"
proof (induction cs)
  case (Cons c cs)
  then show ?case by (cases c) simp
qed simp

lemma pe_assoc_map: "pe_assoc (map (\<lambda>c. (fst c, f (snd c))) cs) p = map_option f (pe_assoc cs p)"
  by (induction cs p rule: pe_assoc.induct) auto

lemma Set_Leaves_Has [has_simps]:
  "Set_wf m s \<Longrightarrow> path_ok m p \<Longrightarrow>
    Set_Has (Set_Leaves s) p \<longleftrightarrow> Set_Has s p \<and> \<not> (\<exists>q. q \<noteq> [] \<and> path_ok m q \<and> Set_Has s (p @ q))"
proof (induction p arbitrary: s)
  case (Cons pe p)
  obtain ms cs where s: "s = MkSet ms cs" by (cases s)
  note wf = Cons.prems(1) [unfolded s]
  have asc: "pe_asc m ms" "pe_asc m (map fst cs)" "pe_ok m pe" "path_ok m p" using Cons.prems s by simp_all
  show ?case
  proof (cases "p = []")
    case True
    then show ?thesis
      using asc child_extension [OF wf asc(3)] Leaves_loop_covers [OF asc(1-3)] Leaves_loop_asc [OF asc(1)]
      by (simp add: s PathElementSet_Has_iff [of m])
  next
    case False
    have "Set_Has (Set_Leaves s) (pe # p) \<longleftrightarrow>
        (case pe_assoc cs pe of None \<Rightarrow> False | Some s' \<Rightarrow> Set_Has (Set_Leaves s') p)"
      using asc False Leaves_loop_asc [OF asc(1)]
      by (simp add: s Set_Has_Cons [of m] SetNodeMap_Leaves_map pe_assoc_map comp_def split: option.splits)
    then show ?thesis
      using False asc Cons.IH pe_assoc_wf(1) [OF wf]
      by (cases "pe_assoc cs pe") (auto simp: s Set_Has_Cons [of m])
  qed
qed simp

lemma Set_Leaves_wf [wf_intros]: "Set_wf m s \<Longrightarrow> Set_wf m (Set_Leaves s) \<and> (Set_Empty (Set_Leaves s) \<longleftrightarrow> Set_Empty s)"
proof (induction s)
  case (MkSet ms cs)
  have asc: "pe_asc m ms" "pe_asc m (map fst cs)" using MkSet.prems by simp_all
  have child: "Set_wf m (Set_Leaves s) \<and> \<not> Set_Empty (Set_Leaves s)" if "(k, s) \<in> set cs" for k s
    using Set_wf_child [OF MkSet.prems that] MkSet.IH [OF that] by blast
  then have "Set_wf m (Set_Leaves (MkSet ms cs))"
    using asc Leaves_loop_asc [OF asc(1), of cs] by (auto simp: SetNodeMap_Leaves_map comp_def list_all_iff)
  moreover have "Leaves_loop ms [] = ms" by (induction ms) auto
  ultimately show ?case
    using MkSet.prems child Leaves_loop_subset [of ms cs]
    by (cases cs) (auto simp: Set_Empty_wf [of m] SetNodeMap_Leaves_map)
qed

lemma Set_WithPrefix_laws:
  assumes "Set_wf m s" "pe_ok m pe"
  shows Set_WithPrefix_wf: "Set_wf m (Set_WithPrefix s pe)"
    and Set_WithPrefix_Has: "p \<noteq> [] \<Longrightarrow> Set_Has (Set_WithPrefix s pe) p \<longleftrightarrow> Set_Has s (pe # p)"
proof -
  obtain ms cs where s: "s = MkSet ms cs" by (cases s)
  have asc: "pe_asc m ms" "pe_asc m (map fst cs)" using assms s by simp_all
  show "Set_wf m (Set_WithPrefix s pe)"
    using asc assms pe_assoc_wf(1) [OF assms(1) [unfolded s]]
    by (auto simp: Set_WithPrefix_def s SetNodeMap_Get_assoc [of m] NewSet_def split: option.splits)
  show "Set_Has (Set_WithPrefix s pe) p \<longleftrightarrow> Set_Has s (pe # p)" if "p \<noteq> []"
    using asc assms that
    by (auto simp: Set_WithPrefix_def s SetNodeMap_Get_assoc [of m] Set_Has_Cons [of m] NewSet_def split: option.splits)
qed

end
