(* ===== verification/Schema.thy ===== *)
theory Schema
  imports Values
begin

text \<open>
  \<^verbatim>\<open>schema/elements.go\<close> and \<^verbatim>\<open>schema/equals.go\<close>: the types of the schema language, lookup of fields and
  named types through indexes that are built once, resolution of type references with a cache for the
  references that override the element relationship, and structural equality.

  \<^verbatim>\<open>*Scalar\<close>, \<^verbatim>\<open>*List\<close>, \<^verbatim>\<open>*Map\<close> and \<^verbatim>\<open>*string\<close> become options.  \<^verbatim>\<open>TypeRef.Equals\<close> compares the pointers
  \<^verbatim>\<open>ElementRelationship\<close> and not what they point to, so that pointer keeps an address.  \<^verbatim>\<open>Default\<close> is an
  \<^verbatim>\<open>interface{}\<close>; its \<^verbatim>\<open>nil\<close> is the null value.
\<close>

section \<open>The schema language\<close>

type_synonym Scalar = string
type_synonym ElementRelationship = string

abbreviation Numeric :: Scalar where "Numeric \<equiv> ''numeric''"
abbreviation String :: Scalar where "String \<equiv> ''string''"
abbreviation Boolean :: Scalar where "Boolean \<equiv> ''boolean''"
abbreviation Untyped :: Scalar where "Untyped \<equiv> ''untyped''"

abbreviation Associative :: ElementRelationship where "Associative \<equiv> ''associative''"
abbreviation Atomic :: ElementRelationship where "Atomic \<equiv> ''atomic''"
abbreviation Separable :: ElementRelationship where "Separable \<equiv> ''separable''"

record er_pointer =
  er_address :: nat
  er_pointee :: ElementRelationship

record UnionField =
  UF_FieldName :: string
  DiscriminatorValue :: string

record Union =
  Discriminator :: "string option"
  DeduceInvalidDiscriminator :: bool
  Union_Fields :: "UnionField list"

datatype TypeRef = MkTypeRef (NamedType: "string option") (Inlined: Atom) (Override: "er_pointer option")
  and Atom = MkAtom (Atom_Scalar: "Scalar option") (Atom_List: "SList option") (Atom_Map: "SMap option")
  and SList = MkList (List_ElementType: TypeRef) (List_ElementRelationship: ElementRelationship) (Keys: "string list")
  and SMap = MkMap (Map_Fields: "StructField list") (Map_Unions: "Union list") (Map_ElementType: TypeRef)
      (Map_ElementRelationship: ElementRelationship)
  and StructField = MkField (Field_Name: string) (Field_Type: TypeRef) (Field_Default: Value)

type_synonym TypeDef = "string \<times> Atom"

definition Atom_zero :: Atom where "Atom_zero = MkAtom None None None"
definition TypeRef_zero :: TypeRef where "TypeRef_zero = MkTypeRef None Atom_zero None"
definition StructField_zero :: StructField where "StructField_zero = MkField [] TypeRef_zero VNull"

section \<open>Indexes built on first use\<close>

text \<open>
  \<^verbatim>\<open>FindField\<close> and \<^verbatim>\<open>FindNamedType\<close> fill a Go map on the first call (\<^verbatim>\<open>sync.Once\<close>) and read it afterwards.
  A cell is the list with the map built from it so far; \<open>None\<close> is the token not yet consumed.
\<close>

definition index_by :: "('a \<Rightarrow> string) \<Rightarrow> 'a list \<Rightarrow> (string \<rightharpoonup> 'a)" where
  "index_by name xs = fold (\<lambda>x m. m(name x \<mapsto> x)) xs (\<lambda>_. None)"

record 'a indexed =
  elements :: "'a list"
  cached_index :: "(string \<rightharpoonup> 'a) option"

definition once_Do :: "('a \<Rightarrow> string) \<Rightarrow> 'a indexed \<Rightarrow> 'a indexed" where
  "once_Do name c = (case cached_index c of None \<Rightarrow> c\<lparr>cached_index := Some (index_by name (elements c))\<rparr> | Some _ \<Rightarrow> c)"

definition find_indexed :: "('a \<Rightarrow> string) \<Rightarrow> string \<Rightarrow> 'a indexed \<Rightarrow> 'a option \<times> 'a indexed" where
  "find_indexed name n c =
     (let c' = once_Do name c in (case cached_index c' of None \<Rightarrow> None | Some idx \<Rightarrow> idx n, c'))"

text \<open>\<^verbatim>\<open>CopyInto\<close> of \<^verbatim>\<open>Map\<close> and \<^verbatim>\<open>Schema\<close>: the list is shared and a filled index is handed over.  With an
  unfilled index the destination keeps the index it has.\<close>

definition CopyInto_indexed :: "'a indexed \<Rightarrow> 'a indexed \<Rightarrow> 'a indexed" where
  "CopyInto_indexed src dst =
     (let dst' = dst\<lparr>elements := elements src\<rparr> in if cached_index src \<noteq> None then dst'\<lparr>cached_index := cached_index src\<rparr> else dst')"

definition indexed_ok :: "('a \<Rightarrow> string) \<Rightarrow> 'a indexed \<Rightarrow> bool" where
  "indexed_ok name c \<longleftrightarrow> (case cached_index c of None \<Rightarrow> True | Some idx \<Rightarrow> idx = index_by name (elements c))"

text \<open>Without the indexes: the last entry with the name.\<close>

definition FindField :: "SMap \<Rightarrow> string \<Rightarrow> StructField option" where
  "FindField mp name = index_by Field_Name (Map_Fields mp) name"

definition FindNamedType :: "TypeDef list \<Rightarrow> string \<Rightarrow> TypeDef option" where
  "FindNamedType types name = index_by fst types name"

lemma index_by_append: "index_by name (xs @ [x]) = (index_by name xs)(name x \<mapsto> x)"
  by (simp add: index_by_def)

lemma index_by_Some: "index_by name xs n = Some x \<Longrightarrow> x \<in> set xs \<and> name x = n"
  by (induction xs rule: rev_induct) (auto simp: index_by_append, auto simp: index_by_def split: if_splits)

lemma index_by_None: "index_by name xs n = None \<longleftrightarrow> (\<forall>x \<in> set xs. name x \<noteq> n)"
  by (induction xs rule: rev_induct) (auto simp: index_by_append, auto simp: index_by_def)

lemma index_by_last:
  assumes "\<forall>y \<in> set ys. name y \<noteq> name x"
  shows "index_by name (xs @ x # ys) (name x) = Some x"
  using assms
proof (induction ys rule: rev_induct)
  case (snoc y ys)
  then have "index_by name ((xs @ x # ys) @ [y]) (name x) = Some x" unfolding index_by_append by auto
  then show ?case by simp
qed (simp add: index_by_append [of name xs x, simplified])

lemma find_indexed_correct:
  assumes "indexed_ok name c"
  shows "fst (find_indexed name n c) = index_by name (elements c) n"
    and "indexed_ok name (snd (find_indexed name n c))"
    and "elements (snd (find_indexed name n c)) = elements c"
  using assms by (auto simp: find_indexed_def once_Do_def indexed_ok_def Let_def split: option.splits)

lemma CopyInto_indexed_ok:
  "indexed_ok name src \<Longrightarrow> cached_index dst = None \<Longrightarrow> indexed_ok name (CopyInto_indexed src dst)"
  by (auto simp: CopyInto_indexed_def indexed_ok_def Let_def split: option.splits)

section \<open>Resolving type references\<close>

definition resolveNoOverrides :: "TypeDef list \<Rightarrow> TypeRef \<Rightarrow> Atom option" where
  "resolveNoOverrides s tr =
     (case NamedType tr of
        Some n \<Rightarrow> (case FindNamedType s n of None \<Rightarrow> None | Some t \<Rightarrow> Some (snd t))
      | None \<Rightarrow> Some (Inlined tr))"

text \<open>The switch that lets a reference override the element relationship of the type it refers to.\<close>

definition override_relationship :: "ElementRelationship \<Rightarrow> Atom \<Rightarrow> Atom option" where
  "override_relationship er a =
     (case a of MkAtom sc l mp \<Rightarrow>
        (case mp of
           Some (MkMap fs us et _) \<Rightarrow> Some (MkAtom sc l (Some (MkMap fs us et er)))
         | None \<Rightarrow> (case l of
             Some (MkList et _ ks) \<Rightarrow> Some (MkAtom sc (Some (MkList et er ks)) mp)
           | None \<Rightarrow> None)))"

text \<open>\<^verbatim>\<open>Resolve\<close> without the cache, which is what the rest of the program relies on.\<close>

definition Resolve :: "TypeDef list \<Rightarrow> TypeRef \<Rightarrow> Atom option" where
  "Resolve s tr =
     (case Override tr of
        None \<Rightarrow> resolveNoOverrides s tr
      | Some er \<Rightarrow> (case resolveNoOverrides s tr of
          None \<Rightarrow> None
        | Some a \<Rightarrow> override_relationship (er_pointee er) a))"

text \<open>
  \<^verbatim>\<open>Resolve\<close> with its cache \<^verbatim>\<open>resolvedTypes\<close>, a Go map whose keys are compared with \<^verbatim>\<open>==\<close> on \<^verbatim>\<open>TypeRef\<close>.  That
  comparison is on the addresses in the reference, which the model does not have: \<open>same\<close> stands for it.
\<close>

definition Resolve_cached ::
  "(TypeRef \<Rightarrow> TypeRef \<Rightarrow> bool) \<Rightarrow> TypeDef list \<Rightarrow> TypeRef \<Rightarrow> (TypeRef \<times> Atom) list \<Rightarrow> Atom option \<times> (TypeRef \<times> Atom) list" where
  "Resolve_cached same s tr cache =
     (case Override tr of
        None \<Rightarrow> (resolveNoOverrides s tr, cache)
      | Some er \<Rightarrow>
          (case find (\<lambda>e. same (fst e) tr) cache of
             Some e \<Rightarrow> (Some (snd e), cache)
           | None \<Rightarrow>
               (case resolveNoOverrides s tr of
                  None \<Rightarrow> (None, cache)
                | Some a \<Rightarrow>
                    (case override_relationship (er_pointee er) a of
                       None \<Rightarrow> (None, cache)
                     | Some result \<Rightarrow> (Some result, (tr, result) # cache)))))"

definition cache_ok :: "TypeDef list \<Rightarrow> (TypeRef \<times> Atom) list \<Rightarrow> bool" where
  "cache_ok s cache \<longleftrightarrow> list_all (\<lambda>(tr, a). Resolve s tr = Some a) cache"

lemma Resolve_cached_correct:
  assumes "\<And>a b. same a b \<Longrightarrow> a = b" "cache_ok s cache"
  shows "fst (Resolve_cached same s tr cache) = Resolve s tr \<and> cache_ok s (snd (Resolve_cached same s tr cache))"
proof (cases "find (\<lambda>e. same (fst e) tr) cache")
  case None
  then show ?thesis
    using assms(2) by (auto simp: Resolve_cached_def Resolve_def cache_ok_def split: option.splits)
next
  case (Some e)
  then have "same (fst e) tr" "e \<in> set cache" by (auto simp: find_Some_iff)
  with assms have "Resolve s tr = Some (snd e)" by (cases e) (force simp: cache_ok_def list_all_iff)
  with Some assms(2) show ?thesis by (auto simp: Resolve_cached_def Resolve_def split: option.splits)
qed

section \<open>Equality\<close>

text \<open>\<^verbatim>\<open>reflect.DeepEqual\<close> on the values a default can hold: floating-point numbers compare with \<^verbatim>\<open>==\<close>, maps
  key by key in any order.\<close>

function reflect_DeepEqual :: "Value \<Rightarrow> Value \<Rightarrow> bool" where
  "reflect_DeepEqual x y =
     (case x of
        VFloat f \<Rightarrow> is_float y \<and> float64_eq f (AsFloat y)
      | VList xs \<Rightarrow> is_list y \<and> ListEqualsUsing reflect_DeepEqual xs (AsList y)
      | VMap xs \<Rightarrow> is_map y \<and> length xs = length (AsMap y) \<and>
          list_all (\<lambda>(k, v). case map_of (AsMap y) k of None \<Rightarrow> False | Some w \<Rightarrow> reflect_DeepEqual v w) xs
      | _ \<Rightarrow> x = y)"
  by pat_completeness auto
termination
  by (relation "measure (size \<circ> fst)")
     (auto simp: less_Suc_eq_le intro: size_list_estimation' dest: in_alist_size)

declare reflect_DeepEqual.simps [simp del]

definition UnionField_Equals :: "UnionField \<Rightarrow> UnionField \<Rightarrow> bool" where
  "UnionField_Equals a b \<longleftrightarrow>
     (if UF_FieldName a \<noteq> UF_FieldName b then False
      else if DiscriminatorValue a \<noteq> DiscriminatorValue b then False else True)"

definition Union_Equals :: "Union \<Rightarrow> Union \<Rightarrow> bool" where
  "Union_Equals a b \<longleftrightarrow>
     (if (Discriminator a = None) \<noteq> (Discriminator b = None) then False
      else if Discriminator a \<noteq> None \<and> Discriminator a \<noteq> Discriminator b then False
      else if DeduceInvalidDiscriminator a \<noteq> DeduceInvalidDiscriminator b then False
      else ListEqualsUsing UnionField_Equals (Union_Fields a) (Union_Fields b))"

fun TypeRef_Equals :: "TypeRef \<Rightarrow> TypeRef \<Rightarrow> bool"
  and Atom_Equals :: "Atom \<Rightarrow> Atom \<Rightarrow> bool"
  and List_Equals :: "SList \<Rightarrow> SList \<Rightarrow> bool"
  and Map_Equals :: "SMap \<Rightarrow> SMap \<Rightarrow> bool"
  and StructField_Equals :: "StructField \<Rightarrow> StructField \<Rightarrow> bool" where
  "TypeRef_Equals (MkTypeRef an ai ao) (MkTypeRef bn bi bo) =
     (if (an = None) \<noteq> (bn = None) then False
      else if an \<noteq> None \<and> an \<noteq> bn then False
      else if map_option er_address ao \<noteq> map_option er_address bo then False
      else Atom_Equals ai bi)"
| "Atom_Equals (MkAtom as al am) (MkAtom bs bl bm) =
     (if (as = None) \<noteq> (bs = None) then False
      else if (al = None) \<noteq> (bl = None) then False
      else if (am = None) \<noteq> (bm = None) then False
      else if as \<noteq> None then as = bs
      else (case (al, bl) of (Some x, Some y) \<Rightarrow> List_Equals x y
            | _ \<Rightarrow> (case (am, bm) of (Some x, Some y) \<Rightarrow> Map_Equals x y | _ \<Rightarrow> True)))"
| "List_Equals (MkList ae ar ak) (MkList be br bk) =
     (if \<not> TypeRef_Equals ae be then False
      else if ar \<noteq> br then False
      else ListEqualsUsing (=) ak bk)"
| "Map_Equals (MkMap af au ae ar) (MkMap bf bu be br) =
     (if \<not> TypeRef_Equals ae be then False
      else if ar \<noteq> br then False
      else if \<not> ListEqualsUsing StructField_Equals af bf then False
      else ListEqualsUsing Union_Equals au bu)"
| "StructField_Equals (MkField an at ad) (MkField bn bt bd) =
     (if an \<noteq> bn then False
      else if \<not> reflect_DeepEqual ad bd then False
      else TypeRef_Equals at bt)"

definition TypeDef_Equals :: "TypeDef \<Rightarrow> TypeDef \<Rightarrow> bool" where
  "TypeDef_Equals a b \<longleftrightarrow> (if fst a \<noteq> fst b then False else Atom_Equals (snd a) (snd b))"

definition Schema_Equals :: "TypeDef list \<Rightarrow> TypeDef list \<Rightarrow> bool" where
  "Schema_Equals a b \<longleftrightarrow> ListEqualsUsing TypeDef_Equals a b"

text \<open>
  On schemas whose atoms have at most one of scalar, list and map, whose defaults are built from
  integers, strings, booleans and lists, and whose override pointers are read from one heap, \<^verbatim>\<open>Equals\<close>
  decides equality.
\<close>

fun default_exact :: "Value \<Rightarrow> bool" where
  "default_exact (VFloat _) = False"
| "default_exact (VMap _) = False"
| "default_exact (VList xs) = list_all default_exact xs"
| "default_exact _ = True"

fun TypeRef_exact :: "(nat \<Rightarrow> ElementRelationship) \<Rightarrow> TypeRef \<Rightarrow> bool"
  and Atom_exact :: "(nat \<Rightarrow> ElementRelationship) \<Rightarrow> Atom \<Rightarrow> bool"
  and List_exact :: "(nat \<Rightarrow> ElementRelationship) \<Rightarrow> SList \<Rightarrow> bool"
  and Map_exact :: "(nat \<Rightarrow> ElementRelationship) \<Rightarrow> SMap \<Rightarrow> bool"
  and StructField_exact :: "(nat \<Rightarrow> ElementRelationship) \<Rightarrow> StructField \<Rightarrow> bool" where
  "TypeRef_exact heap (MkTypeRef _ a p) \<longleftrightarrow>
     Atom_exact heap a \<and> (case p of None \<Rightarrow> True | Some e \<Rightarrow> er_pointee e = heap (er_address e))"
| "Atom_exact heap (MkAtom sc l mp) \<longleftrightarrow>
     (case l of None \<Rightarrow> True | Some l' \<Rightarrow> sc = None \<and> mp = None \<and> List_exact heap l') \<and>
     (case mp of None \<Rightarrow> True | Some m' \<Rightarrow> sc = None \<and> Map_exact heap m')"
| "List_exact heap (MkList et _ _) \<longleftrightarrow> TypeRef_exact heap et"
| "Map_exact heap (MkMap fs _ et _) \<longleftrightarrow> TypeRef_exact heap et \<and> list_all (StructField_exact heap) fs"
| "StructField_exact heap (MkField _ t d) \<longleftrightarrow> TypeRef_exact heap t \<and> default_exact d"

lemma ListEqualsUsing_eq:
  assumes "\<And>x y. x \<in> set xs \<Longrightarrow> y \<in> set ys \<Longrightarrow> e x y \<longleftrightarrow> x = y"
  shows "ListEqualsUsing e xs ys \<longleftrightarrow> xs = ys"
proof -
  have "ListEqualsUsing e xs ys \<longleftrightarrow> list_all2 e xs ys"
    by (auto simp: ListEqualsUsing_def list_all2_iff list_all_iff)
  also have "\<dots> \<longleftrightarrow> list_all2 (=) xs ys"
    using assms by (intro list.rel_cong) auto
  finally show ?thesis by (simp add: list.rel_eq)
qed

lemma reflect_DeepEqual_exact: "default_exact x \<Longrightarrow> reflect_DeepEqual x y \<longleftrightarrow> x = y"
proof (induction x arbitrary: y rule: default_exact.induct)
  case (3 xs)
  then have "ListEqualsUsing reflect_DeepEqual xs ys \<longleftrightarrow> xs = ys" for ys
    by (intro ListEqualsUsing_eq) (auto simp: list_all_iff)
  then show ?case by (cases y) (simp_all add: reflect_DeepEqual.simps [of "VList xs"])
qed (simp_all add: reflect_DeepEqual.simps)

lemma Union_Equals_eq: "Union_Equals a b \<longleftrightarrow> a = b"
proof -
  have "UnionField_Equals x y \<longleftrightarrow> x = y" for x y by (auto simp: UnionField_Equals_def)
  then have "ListEqualsUsing UnionField_Equals xs ys \<longleftrightarrow> xs = ys" for xs ys by (simp add: ListEqualsUsing_eq)
  then show ?thesis by (auto simp: Union_Equals_def)
qed

lemma er_pointer_eq: "er_address a = er_address b \<Longrightarrow> er_pointee a = er_pointee b \<Longrightarrow> a = (b :: er_pointer)"
  by simp

lemma Equals_exact:
  "TypeRef_exact h t \<Longrightarrow> TypeRef_exact h t' \<Longrightarrow> TypeRef_Equals t t' \<longleftrightarrow> t = t'"
  "Atom_exact h a \<Longrightarrow> Atom_exact h a' \<Longrightarrow> Atom_Equals a a' \<longleftrightarrow> a = a'"
  "List_exact h l \<Longrightarrow> List_exact h l' \<Longrightarrow> List_Equals l l' \<longleftrightarrow> l = l'"
  "Map_exact h mp \<Longrightarrow> Map_exact h mp' \<Longrightarrow> Map_Equals mp mp' \<longleftrightarrow> mp = mp'"
  "StructField_exact h f \<Longrightarrow> StructField_exact h f' \<Longrightarrow> StructField_Equals f f' \<longleftrightarrow> f = f'"
proof (induction t t' and a a' and l l' and mp mp' and f f'
    rule: TypeRef_Equals_Atom_Equals_List_Equals_Map_Equals_StructField_Equals.induct)
  case (1 an ai ao bn bi bo)
  then have "map_option er_address ao = map_option er_address bo \<longleftrightarrow> ao = bo"
    by (cases ao; cases bo) (auto intro: er_pointer_eq)
  with 1 show ?case by auto
next
  case (2 as al am bs bl bm)
  then show ?case by (auto split: option.splits)
next
  case (4 af au ae ar bf bu be br)
  then have "ListEqualsUsing StructField_Equals af bf \<longleftrightarrow> af = bf" if "TypeRef_Equals ae be" "ar = br"
    using that by (intro ListEqualsUsing_eq) (auto simp: list_all_iff)
  with 4 show ?case by (auto simp: ListEqualsUsing_eq Union_Equals_eq)
next
  case (5 an at ad bn bt bd)
  then show ?case by (auto simp: reflect_DeepEqual_exact)
qed (auto simp: ListEqualsUsing_eq)

definition Schema_exact :: "(nat \<Rightarrow> ElementRelationship) \<Rightarrow> TypeDef list \<Rightarrow> bool" where
  "Schema_exact h s \<longleftrightarrow> list_all (\<lambda>t. Atom_exact h (snd t)) s"

lemma Schema_Equals_exact:
  assumes "Schema_exact h a" "Schema_exact h b"
  shows "Schema_Equals a b \<longleftrightarrow> a = b"
  unfolding Schema_Equals_def
  using assms
  by (intro ListEqualsUsing_eq)
     (auto simp: TypeDef_Equals_def Schema_exact_def list_all_iff Equals_exact(2) [of h] prod_eq_iff)

end
