(* ===== verification/Named_Fields.thy ===== *)
theory Named_Fields
  imports Field_Set_Views Schema
begin

text \<open>
  \<^verbatim>\<open>EnsureNamedFieldsAreMembers\<close> of \<^verbatim>\<open>fieldpath/set.go\<close>: a set of paths is extended by every struct field
  the schema names on the way to a path of the set.
\<close>

text \<open>\<^verbatim>\<open>atom, _ := sc.Resolve(tr)\<close>: an unresolvable reference gives the zero atom.\<close>

definition resolve_or_zero :: "TypeDef list \<Rightarrow> TypeRef \<Rightarrow> Atom" where
  "resolve_or_zero sc tr = (case Resolve sc tr of None \<Rightarrow> Atom_zero | Some a \<Rightarrow> a)"

definition names_field :: "Atom \<Rightarrow> PathElement \<Rightarrow> bool" where
  "names_field atom pe =
     (case (FieldName pe, Atom_Map atom) of
        (Some n, Some mp) \<Rightarrow> FindField mp n \<noteq> None
      | _ \<Rightarrow> False)"

definition child_typeref :: "Atom \<Rightarrow> PathElement \<Rightarrow> TypeRef" where
  "child_typeref atom pe =
     (if FieldName pe \<noteq> None \<and> Atom_Map atom \<noteq> None then
        (case FindField (the (Atom_Map atom)) (the (FieldName pe)) of
           Some sf \<Rightarrow> Field_Type sf
         | None \<Rightarrow> Map_ElementType (the (Atom_Map atom)))
      else if Key pe \<noteq> None \<and> Atom_List atom \<noteq> None then List_ElementType (the (Atom_List atom))
      else TypeRef_zero)"

text \<open>The loop over the children that inserts the named ones into the members.\<close>

definition insert_named :: "(PathElement \<Rightarrow> bool) \<Rightarrow> SetNodeMap \<Rightarrow> PathElementSet \<Rightarrow> PathElementSet" where
  "insert_named named cs ms =
     fold (\<lambda>node members. if named (fst node) then PathElementSet_Insert members (fst node) else members) cs ms"

fun Set_EnsureNamedFieldsAreMembers :: "TypeDef list \<Rightarrow> TypeRef \<Rightarrow> FieldSet \<Rightarrow> FieldSet"
  and SetNodeMap_EnsureNamedFieldsAreMembers :: "TypeDef list \<Rightarrow> TypeRef \<Rightarrow> SetNodeMap \<Rightarrow> SetNodeMap" where
  "Set_EnsureNamedFieldsAreMembers sc tr (MkSet ms cs) =
     (let atom = resolve_or_zero sc tr
      in MkSet (insert_named (names_field atom) cs ms)
           (SetNodeMap_EnsureNamedFieldsAreMembers sc tr cs))"
| "SetNodeMap_EnsureNamedFieldsAreMembers sc tr [] = []"
| "SetNodeMap_EnsureNamedFieldsAreMembers sc tr ((pe, s) # cs) =
     (pe, Set_EnsureNamedFieldsAreMembers sc (child_typeref (resolve_or_zero sc tr) pe) s)
       # SetNodeMap_EnsureNamedFieldsAreMembers sc tr cs"

text \<open>Whether the schema names the last element of a path as a struct field.\<close>

fun names_path :: "TypeDef list \<Rightarrow> TypeRef \<Rightarrow> Path \<Rightarrow> bool" where
  "names_path sc tr [] = False"
| "names_path sc tr [pe] = names_field (resolve_or_zero sc tr) pe"
| "names_path sc tr (pe # p) = names_path sc (child_typeref (resolve_or_zero sc tr) pe) p"

lemma Compare_zero_fields:
  assumes "PathElement_Compare k pe = 0"
  shows "FieldName k = FieldName pe" "FieldName pe = None \<Longrightarrow> (Key k = None) = (Key pe = None)"
  using assms by (auto simp: PathElement_Compare_def split: option.splits if_splits)

lemma names_field_cong:
  assumes "PathElement_Compare k pe = 0" "pe_ok m k" "pe_ok m pe"
  shows "names_field a k = names_field a pe" "child_typeref a k = child_typeref a pe"
  using Compare_zero_fields [OF assms(1)] assms(2,3)
  by (auto simp: names_field_def child_typeref_def pe_ok_def pe_single_def)

lemma insert_named_laws:
  assumes "pe_asc m ms" "\<forall>k \<in> fst ` set cs. pe_ok m k"
  shows "pe_asc m (insert_named P cs ms)"
    and "pe_ok m p \<Longrightarrow> pe_covers (insert_named P cs ms) p \<longleftrightarrow>
      pe_covers ms p \<or> (\<exists>k \<in> fst ` set cs. P k \<and> PathElement_Compare k p = 0)"
proof -
  have "pe_asc m (insert_named P cs ms) \<and> (pe_ok m p \<longrightarrow> pe_covers (insert_named P cs ms) p \<longleftrightarrow>
      pe_covers ms p \<or> (\<exists>k \<in> fst ` set cs. P k \<and> PathElement_Compare k p = 0))" for p
    using assms
  proof (induction cs arbitrary: ms)
    case (Cons c cs)
    then show ?case
      using PathElementSet_Insert_correct [of m ms "fst c"]
      by (cases "P (fst c)") (auto simp: insert_named_def pe.eqv_iff [of m])
  qed (simp add: insert_named_def)
  then show "pe_asc m (insert_named P cs ms)"
    and "pe_ok m p \<Longrightarrow> pe_covers (insert_named P cs ms) p \<longleftrightarrow>
      pe_covers ms p \<or> (\<exists>k \<in> fst ` set cs. P k \<and> PathElement_Compare k p = 0)"
    by blast+
qed

lemma SetNodeMap_Ensure_map:
  "SetNodeMap_EnsureNamedFieldsAreMembers sc tr cs =
     map (\<lambda>c. (fst c, Set_EnsureNamedFieldsAreMembers sc (child_typeref (resolve_or_zero sc tr) (fst c)) (snd c))) cs"
proof (induction cs)
  case (Cons c cs)
  then show ?case by (cases c) simp
qed simp

lemma pe_assoc_map_key:
  assumes "\<And>k. k \<in> fst ` set cs \<Longrightarrow> PathElement_Compare k p = 0 \<Longrightarrow> f k = f p"
  shows "pe_assoc (map (\<lambda>c. (fst c, f (fst c) (snd c))) cs) p = map_option (f p) (pe_assoc cs p)"
  using assms by (induction cs p rule: pe_assoc.induct) auto

lemma Set_Ensure_Has [has_simps]:
  "Set_wf m s \<Longrightarrow> path_ok m p \<Longrightarrow>
    Set_Has (Set_EnsureNamedFieldsAreMembers sc tr s) p \<longleftrightarrow>
      Set_Has s p \<or> names_path sc tr p \<and> (\<exists>q. q \<noteq> [] \<and> path_ok m q \<and> Set_Has s (p @ q))"
proof (induction p arbitrary: s tr)
  case (Cons pe p)
  obtain ms cs where s: "s = MkSet ms cs" by (cases s)
  note wf = Cons.prems(1) [unfolded s]
  have asc: "pe_asc m ms" "pe_asc m (map fst cs)" "pe_ok m pe" "path_ok m p" using Cons.prems s by simp_all
  have ok: "\<forall>k \<in> fst ` set cs. pe_ok m k" using pe.ascending_ok [OF asc(2)] by simp
  let ?a = "resolve_or_zero sc tr"
  let ?cs = "SetNodeMap_EnsureNamedFieldsAreMembers sc tr cs"
  have asc': "pe_asc m (map fst ?cs)" using asc by (simp add: SetNodeMap_Ensure_map comp_def)
  show ?case
  proof (cases "p = []")
    case True
    have "(\<exists>k \<in> fst ` set cs. names_field ?a k \<and> PathElement_Compare k pe = 0) \<longleftrightarrow>
        names_field ?a pe \<and> pe_covers (map fst cs) pe"
      using names_field_cong(1) [of _ pe m] asc(3) ok by (auto simp: pe.covers_def)
    then show ?thesis
      using True asc asc' child_extension [OF wf asc(3)] insert_named_laws [OF asc(1) ok, where P = "names_field ?a"]
      by (auto simp: s Let_def PathElementSet_Has_iff [of m])
  next
    case False
    have "pe_assoc ?cs pe = map_option (Set_EnsureNamedFieldsAreMembers sc (child_typeref ?a pe)) (pe_assoc cs pe)"
      unfolding SetNodeMap_Ensure_map using names_field_cong(2) [of _ pe m] asc(3) ok by (intro pe_assoc_map_key) auto
    then have "Set_Has (Set_EnsureNamedFieldsAreMembers sc tr s) (pe # p) \<longleftrightarrow> (case pe_assoc cs pe of None \<Rightarrow> False
        | Some s' \<Rightarrow> Set_Has (Set_EnsureNamedFieldsAreMembers sc (child_typeref ?a pe) s') p)"
      using False asc asc' insert_named_laws(1) [OF asc(1) ok, where P = "names_field ?a"]
      by (simp add: s Let_def Set_Has_Cons [of m] split: option.splits)
    moreover have "names_path sc tr (pe # p) = names_path sc (child_typeref ?a pe) p"
      using False by (cases p) auto
    ultimately show ?thesis
      using False asc Cons.IH pe_assoc_wf(1) [OF wf]
      by (cases "pe_assoc cs pe") (auto simp: s Set_Has_Cons [of m])
  qed
qed simp

lemma Set_Ensure_wf [wf_intros]:
  "Set_wf m s \<Longrightarrow> Set_wf m (Set_EnsureNamedFieldsAreMembers sc tr s)"
proof (induction s arbitrary: tr)
  case (MkSet ms cs)
  have asc: "pe_asc m ms" "pe_asc m (map fst cs)" using MkSet.prems by simp_all
  have ok: "\<forall>k \<in> fst ` set cs. pe_ok m k" using pe.ascending_ok [OF asc(2)] by simp
  have "Set_wf m (Set_EnsureNamedFieldsAreMembers sc tr' s) \<and> \<not> Set_Empty (Set_EnsureNamedFieldsAreMembers sc tr' s)"
    if c: "(k, s) \<in> set cs" for k s tr'
  proof -
    have s: "Set_wf m s" "\<not> Set_Empty s" using Set_wf_child [OF MkSet.prems c] by simp_all
    then obtain p where "path_ok m p" "Set_Has s p" using Set_nonempty_Has by blast
    then have "Set_Has (Set_EnsureNamedFieldsAreMembers sc tr' s) p" using s by (simp add: Set_Ensure_Has)
    with MkSet.IH [OF c s(1)] show ?thesis by (blast dest: Set_Has_not_Empty)
  qed
  with asc insert_named_laws(1) [OF asc(1) ok, where P = "names_field (resolve_or_zero sc tr)"] show ?case
    by (auto simp: Let_def SetNodeMap_Ensure_map comp_def list_all_iff)
qed

end
