(* ===== verification/Field_Set_Spec.thy ===== *)
theory Field_Set_Spec
  imports Named_Fields
begin

text \<open>
  The contract of \<^verbatim>\<open>fieldpath.Set\<close> for its clients (\<^verbatim>\<open>ManagedFields\<close>, \<^verbatim>\<open>Comparison\<close>, \<^verbatim>\<open>Updater\<close>): a set is known by
  its membership test, the operations combine membership, and emptiness and equality are extensional.
\<close>

locale path_set =
  fixes wf :: "'s \<Rightarrow> bool" and ok :: "'p \<Rightarrow> bool" and has :: "'s \<Rightarrow> 'p \<Rightarrow> bool"
    and uni :: "'s \<Rightarrow> 's \<Rightarrow> 's" and inter :: "'s \<Rightarrow> 's \<Rightarrow> 's" and diff :: "'s \<Rightarrow> 's \<Rightarrow> 's"
    and empty :: "'s \<Rightarrow> bool" and eq :: "'s \<Rightarrow> 's \<Rightarrow> bool"
  assumes wf_ops: "wf s \<Longrightarrow> wf t \<Longrightarrow> wf (uni s t)" "wf s \<Longrightarrow> wf t \<Longrightarrow> wf (inter s t)"
      "wf s \<Longrightarrow> wf t \<Longrightarrow> wf (diff s t)"
    and has_uni: "wf s \<Longrightarrow> wf t \<Longrightarrow> ok p \<Longrightarrow> has (uni s t) p \<longleftrightarrow> has s p \<or> has t p"
    and has_inter: "wf s \<Longrightarrow> wf t \<Longrightarrow> ok p \<Longrightarrow> has (inter s t) p \<longleftrightarrow> has s p \<and> has t p"
    and has_diff: "wf s \<Longrightarrow> wf t \<Longrightarrow> ok p \<Longrightarrow> has (diff s t) p \<longleftrightarrow> has s p \<and> \<not> has t p"
    and empty_iff: "wf s \<Longrightarrow> empty s \<longleftrightarrow> (\<forall>p. ok p \<longrightarrow> \<not> has s p)"
    and eq_iff: "wf s \<Longrightarrow> wf t \<Longrightarrow> eq s t \<longleftrightarrow> (\<forall>p. ok p \<longrightarrow> has s p = has t p)"
begin

lemmas has_ops = has_uni has_inter has_diff

lemma eq_refl: "wf s \<Longrightarrow> eq s s"
  by (simp add: eq_iff)

lemma eq_sym: "wf s \<Longrightarrow> wf t \<Longrightarrow> eq s t \<longleftrightarrow> eq t s"
  by (auto simp: eq_iff)

lemma eq_trans: "wf s \<Longrightarrow> wf t \<Longrightarrow> wf u \<Longrightarrow> eq s t \<Longrightarrow> eq t u \<Longrightarrow> eq s u"
  by (auto simp: eq_iff)

lemma union_commute: "wf s \<Longrightarrow> wf t \<Longrightarrow> eq (uni s t) (uni t s)"
  by (auto simp: eq_iff has_ops wf_ops)

lemma union_assoc: "wf s \<Longrightarrow> wf t \<Longrightarrow> wf u \<Longrightarrow> eq (uni (uni s t) u) (uni s (uni t u))"
  by (auto simp: eq_iff has_ops wf_ops)

lemma diff_empty_iff: "wf s \<Longrightarrow> wf t \<Longrightarrow> empty (diff s t) \<longleftrightarrow> (\<forall>p. ok p \<longrightarrow> has s p \<longrightarrow> has t p)"
  by (auto simp: empty_iff has_ops wf_ops)

lemma partition: "wf s \<Longrightarrow> wf t \<Longrightarrow> eq (uni (diff s t) (inter s t)) s"
  by (auto simp: eq_iff has_ops wf_ops)

lemma disjoint: "wf s \<Longrightarrow> wf t \<Longrightarrow> empty (inter (diff s t) t)"
  by (auto simp: empty_iff has_ops wf_ops)

text \<open>The symmetric difference that \<^verbatim>\<open>ManagedFields.Difference\<close> computes.\<close>

lemma symdiff:
  assumes "wf s" "wf t"
  shows "wf (uni (diff s t) (diff t s))"
    and "ok p \<Longrightarrow> has (uni (diff s t) (diff t s)) p \<longleftrightarrow> has s p \<noteq> has t p"
    and "empty (uni (diff s t) (diff t s)) \<longleftrightarrow> eq s t"
  using assms by (auto simp: empty_iff eq_iff has_ops wf_ops)

end

interpretation fs: path_set "Set_wf m" "path_ok m" Set_Has Set_Union Set_Intersection Set_Difference Set_Empty Set_Equals
  for m
  by (unfold_locales;
      (rule Set_Union_wf Set_Intersection_wf Set_Difference_wf Set_Union_Has Set_Intersection_Has
        Set_Difference_Has Set_Empty_iff_Has Set_Equals_iff; assumption))

end
