(* ===== verification/Managers.thy ===== *)
theory Managers
  imports Field_Set_Spec "HOL-Library.AList"
begin

text \<open>
  \<^verbatim>\<open>fieldpath/managers.go\<close> and \<^verbatim>\<open>merge/conflict.go\<close>: who owns which fields at which version, and the
  conflicts between owners.  \<^verbatim>\<open>ManagedFields\<close> is a Go map, here an association list with distinct keys
  whose order stands for the arbitrary order in which Go ranges over it.
\<close>

section \<open>Versioned sets and managed fields\<close>

type_synonym APIVersion = string

record VersionedSet =
  vset :: FieldSet
  apiVersion :: APIVersion
  applied :: bool

definition NewVersionedSet :: "FieldSet \<Rightarrow> APIVersion \<Rightarrow> bool \<Rightarrow> VersionedSet" where
  "NewVersionedSet s v a = \<lparr>vset = s, apiVersion = v, applied = a\<rparr>"

type_synonym ManagedFields = "(string \<times> VersionedSet) list"

definition ManagedFields_Equals :: "ManagedFields \<Rightarrow> ManagedFields \<Rightarrow> bool" where
  "ManagedFields_Equals lhs rhs \<longleftrightarrow>
     (if length lhs \<noteq> length rhs then False
      else list_all (\<lambda>(manager, left).
        case map_of rhs manager of
          None \<Rightarrow> False
        | Some right \<Rightarrow>
            if apiVersion left \<noteq> apiVersion right \<or> applied left \<noteq> applied right then False
            else Set_Equals (vset left) (vset right)) lhs)"

definition ManagedFields_Copy :: "ManagedFields \<Rightarrow> ManagedFields" where
  "ManagedFields_Copy lhs = fold (\<lambda>(manager, s) copy. AList.update manager s copy) lhs []"

text \<open>The two loops of \<^verbatim>\<open>Difference\<close>.\<close>

definition Difference_left :: "ManagedFields \<Rightarrow> string \<times> VersionedSet \<Rightarrow> ManagedFields \<Rightarrow> ManagedFields" where
  "Difference_left rhs = (\<lambda>(manager, left) diff.
     case map_of rhs manager of
       None \<Rightarrow> if \<not> Set_Empty (vset left) then AList.update manager left diff else diff
     | Some right \<Rightarrow>
         if apiVersion left \<noteq> apiVersion right then AList.update manager right diff
         else let newSet = Set_Union (Set_Difference (vset left) (vset right)) (Set_Difference (vset right) (vset left))
              in if \<not> Set_Empty newSet
                 then AList.update manager (NewVersionedSet newSet (apiVersion right) False) diff else diff)"

definition Difference_right :: "ManagedFields \<Rightarrow> string \<times> VersionedSet \<Rightarrow> ManagedFields \<Rightarrow> ManagedFields" where
  "Difference_right lhs = (\<lambda>(manager, s) diff.
     if map_of lhs manager \<noteq> None then diff
     else if \<not> Set_Empty (vset s) then AList.update manager s diff else diff)"

definition ManagedFields_Difference :: "ManagedFields \<Rightarrow> ManagedFields \<Rightarrow> ManagedFields" where
  "ManagedFields_Difference lhs rhs = fold (Difference_right lhs) rhs (fold (Difference_left rhs) lhs [])"

definition managers_wf :: "num_mode \<Rightarrow> ManagedFields \<Rightarrow> bool" where
  "managers_wf m ms \<longleftrightarrow> distinct (map fst ms) \<and> list_all (\<lambda>e. Set_wf m (vset (snd e))) ms"

lemma ManagedFields_Copy_map_of:
  "distinct (map fst ms) \<Longrightarrow> map_of (ManagedFields_Copy ms) = map_of ms"
proof
  fix k assume d: "distinct (map fst ms)"
  show "map_of (ManagedFields_Copy ms) k = map_of ms k"
    unfolding ManagedFields_Copy_def
    by (subst fold_entries [OF d, where g = "\<lambda>_. Some"]) (auto simp: update_conv' split: option.splits)
qed

definition manager_difference :: "VersionedSet option \<Rightarrow> VersionedSet option \<Rightarrow> VersionedSet option" where
  "manager_difference l r =
     (case l of
        None \<Rightarrow> (case r of None \<Rightarrow> None | Some right \<Rightarrow> if Set_Empty (vset right) then None else Some right)
      | Some left \<Rightarrow>
          (case r of
             None \<Rightarrow> if Set_Empty (vset left) then None else Some left
           | Some right \<Rightarrow>
               if apiVersion left \<noteq> apiVersion right then Some right
               else let s = Set_Union (Set_Difference (vset left) (vset right)) (Set_Difference (vset right) (vset left))
                    in if Set_Empty s then None else Some (NewVersionedSet s (apiVersion right) False)))"

lemma ManagedFields_Difference_map_of:
  assumes "distinct (map fst lhs)" "distinct (map fst rhs)"
  shows "map_of (ManagedFields_Difference lhs rhs) k = manager_difference (map_of lhs k) (map_of rhs k)"
proof -
  have "map_of (fold (Difference_left rhs) lhs []) k =
      (case map_of lhs k of None \<Rightarrow> None | Some v \<Rightarrow> manager_difference (Some v) (map_of rhs k))"
    by (subst fold_entries [OF assms(1), where g = "\<lambda>k v. manager_difference (Some v) (map_of rhs k)"])
       (auto simp: Difference_left_def manager_difference_def update_conv' Let_def split: option.splits)
  then show ?thesis
    unfolding ManagedFields_Difference_def
    by (subst fold_entries [OF assms(2),
          where g = "\<lambda>k v. if map_of lhs k \<noteq> None then None else manager_difference None (Some v)"])
       (auto simp: Difference_right_def manager_difference_def update_conv' split: option.splits)
qed

lemma managers_wf_map_of: "managers_wf m ms \<Longrightarrow> map_of ms k = Some v \<Longrightarrow> Set_wf m (vset v)"
  by (auto simp: managers_wf_def list_all_iff dest!: map_of_SomeD)

lemma map_rel_iff:
  assumes "finite (dom l)" "finite (dom r)"
  shows "card (dom l) = card (dom r) \<and> (\<forall>k x. l k = Some x \<longrightarrow> (\<exists>y. r k = Some y \<and> R x y)) \<longleftrightarrow>
    (\<forall>k. rel_option R (l k) (r k))" (is "?L \<longleftrightarrow> ?R")
proof
  assume a: ?L
  then have "dom l \<subseteq> dom r" by fastforce
  then have "dom l = dom r" using a assms by (intro card_subset_eq) auto
  show ?R
  proof
    fix k
    show "rel_option R (l k) (r k)"
    proof (cases "l k")
      case None
      then have "r k = None" using \<open>dom l = dom r\<close> by (metis domIff)
      with None show ?thesis by simp
    next
      case (Some x)
      with a obtain y where "r k = Some y" "R x y" by blast
      with Some show ?thesis by simp
    qed
  qed
next
  assume a: ?R
  have "(l k = None) = (r k = None)" for k using a [rule_format, of k] by (cases "l k"; cases "r k") auto
  then have "dom l = dom r" by (auto simp: dom_def)
  with a show ?L by (metis option_rel_Some1)
qed

lemma ManagedFields_Equals_iff:
  assumes "managers_wf m lhs" "managers_wf m rhs"
  shows "ManagedFields_Equals lhs rhs \<longleftrightarrow>
    (\<forall>k. rel_option (\<lambda>l r. apiVersion l = apiVersion r \<and> applied l = applied r \<and>
      (\<forall>p. path_ok m p \<longrightarrow> Set_Has (vset l) p = Set_Has (vset r) p)) (map_of lhs k) (map_of rhs k))"
    (is "_ \<longleftrightarrow> (\<forall>k. rel_option ?R _ _)")
proof -
  have d: "distinct (map fst lhs)" "distinct (map fst rhs)" using assms by (auto simp: managers_wf_def)
  have eq: "apiVersion l = apiVersion r \<and> applied l = applied r \<and> Set_Equals (vset l) (vset r) \<longleftrightarrow> ?R l r"
    if "map_of lhs k = Some l" "map_of rhs k = Some r" for k l r
    using fs.eq_iff [OF managers_wf_map_of [OF assms(1) that(1)] managers_wf_map_of [OF assms(2) that(2)]] by blast
  have card: "length lhs = card (dom (map_of lhs))" "length rhs = card (dom (map_of rhs))"
    using d distinct_card [of "map fst lhs"] distinct_card [of "map fst rhs"] by (simp_all add: dom_map_of_conv_image_fst)
  have pairs: "(k, l) \<in> set lhs \<longleftrightarrow> map_of lhs k = Some l" for k l using d by simp
  have entries: "list_all (\<lambda>(k, l). Q k l) lhs \<longleftrightarrow> (\<forall>k l. map_of lhs k = Some l \<longrightarrow> Q k l)" for Q
    by (auto simp: list_all_iff pairs)
  have entry: "(case map_of rhs k of None \<Rightarrow> False | Some right \<Rightarrow>
        if apiVersion l \<noteq> apiVersion right \<or> applied l \<noteq> applied right then False
        else Set_Equals (vset l) (vset right)) \<longleftrightarrow> (\<exists>r. map_of rhs k = Some r \<and> ?R l r)"
    if "map_of lhs k = Some l" for k l
    using eq [OF that] by (cases "map_of rhs k") auto
  have "ManagedFields_Equals lhs rhs \<longleftrightarrow> length lhs = length rhs \<and>
      (\<forall>k l. map_of lhs k = Some l \<longrightarrow> (\<exists>r. map_of rhs k = Some r \<and> ?R l r))"
  proof -
    have "list_all (\<lambda>(k, l). case map_of rhs k of None \<Rightarrow> False | Some right \<Rightarrow>
          if apiVersion l \<noteq> apiVersion right \<or> applied l \<noteq> applied right then False
          else Set_Equals (vset l) (vset right)) lhs \<longleftrightarrow>
        (\<forall>k l. map_of lhs k = Some l \<longrightarrow> (\<exists>r. map_of rhs k = Some r \<and> ?R l r))"
      unfolding entries using entry by blast
    then show ?thesis unfolding ManagedFields_Equals_def by simp
  qed
  also have "\<dots> \<longleftrightarrow> (\<forall>k. rel_option ?R (map_of lhs k) (map_of rhs k))"
    unfolding card by (rule map_rel_iff) (simp_all add: finite_dom_map_of)
  finally show ?thesis .
qed

section \<open>Conflicts\<close>

record Conflict =
  Manager :: string
  Conflict_Path :: Path

definition Conflict_Equals :: "Conflict \<Rightarrow> Conflict \<Rightarrow> bool" where
  "Conflict_Equals c c2 \<longleftrightarrow>
     (if Manager c \<noteq> Manager c2 then False else Path_Equals (Conflict_Path c) (Conflict_Path c2))"

type_synonym Conflicts = "Conflict list"

definition Conflicts_Equals :: "Conflicts \<Rightarrow> Conflicts \<Rightarrow> bool" where
  "Conflicts_Equals c c2 \<longleftrightarrow> ListEqualsUsing Conflict_Equals c c2"

definition Conflicts_ToSet :: "Conflicts \<Rightarrow> FieldSet" where
  "Conflicts_ToSet c = fold (\<lambda>conflict s. Set_Insert s (Conflict_Path conflict)) c (NewSet [])"

definition ConflictsFromManagers :: "ManagedFields \<Rightarrow> Conflicts" where
  "ConflictsFromManagers sets =
     fold (\<lambda>(manager, s) conflicts.
       Set_Iterate (vset s) (\<lambda>p cs. cs @ [\<lparr>Manager = manager, Conflict_Path = p\<rparr>]) conflicts) sets []"

lemma fold_snoc: "fold (\<lambda>p cs. cs @ [f p]) ps cs = cs @ map f ps"
  by (induction ps arbitrary: cs) auto

lemma ConflictsFromManagers_eq:
  "ConflictsFromManagers sets =
     concat (map (\<lambda>(manager, s). map (\<lambda>p. \<lparr>Manager = manager, Conflict_Path = p\<rparr>) (Set_paths (vset s))) sets)"
proof -
  have "fold (\<lambda>(manager, s) conflicts.
       Set_Iterate (vset s) (\<lambda>p cs. cs @ [\<lparr>Manager = manager, Conflict_Path = p\<rparr>]) conflicts) sets cs =
     cs @ concat (map (\<lambda>(manager, s). map (\<lambda>p. \<lparr>Manager = manager, Conflict_Path = p\<rparr>) (Set_paths (vset s))) sets)" for cs
    by (induction sets arbitrary: cs) (auto simp: Set_Iterate_fold fold_snoc)
  then show ?thesis by (simp add: ConflictsFromManagers_def)
qed

lemma Conflicts_ToSet_NewSet: "Conflicts_ToSet c = NewSet (map Conflict_Path c)"
proof -
  have "fold (\<lambda>conflict s. Set_Insert s (Conflict_Path conflict)) c s = foldl Set_Insert s (map Conflict_Path c)" for s
    by (induction c arbitrary: s) auto
  then show ?thesis by (simp add: Conflicts_ToSet_def NewSet_def)
qed

lemma Conflict_paths: "map Conflict_Path (ConflictsFromManagers ms) = concat (map (\<lambda>e. Set_paths (vset (snd e))) ms)"
  unfolding ConflictsFromManagers_eq by (induction ms) (auto simp: comp_def)

lemma Conflicts_ToSet_Has:
  assumes "managers_wf m ms" "path_ok m p"
  shows "Set_Has (Conflicts_ToSet (ConflictsFromManagers ms)) p \<longleftrightarrow> (\<exists>e \<in> set ms. Set_Has (vset (snd e)) p)"
proof -
  have wf: "Set_wf m (vset (snd e))" if "e \<in> set ms" for e
    using that assms(1) by (auto simp: managers_wf_def list_all_iff)
  have paths: "q \<noteq> [] \<and> path_ok m q" if "e \<in> set ms" "q \<in> set (Set_paths (vset (snd e)))" for e q
    using that wf Set_paths_ok Set_paths_nonempty by blast
  then have "list_all (path_ok m) (concat (map (\<lambda>e. Set_paths (vset (snd e))) ms))"
    by (simp add: list_all_iff [of "list_all _"])
  then have "Set_Has (Conflicts_ToSet (ConflictsFromManagers ms)) p \<longleftrightarrow>
      (\<exists>q \<in> set (concat (map (\<lambda>e. Set_paths (vset (snd e))) ms)). q \<noteq> [] \<and> Path_Equals q p)"
    unfolding Conflicts_ToSet_NewSet Conflict_paths using assms(2) by (rule NewSet_Has)
  also have "\<dots> \<longleftrightarrow> (\<exists>e \<in> set ms. \<exists>q \<in> set (Set_paths (vset (snd e))). Path_Equals q p)"
    using paths by auto
  also have "\<dots> \<longleftrightarrow> (\<exists>e \<in> set ms. Set_Has (vset (snd e)) p)"
    using wf assms(2) by (simp add: Set_Has_paths [of m])
  finally show ?thesis .
qed

end
