(* ===== verification/Typed_Helpers.thy ===== *)
theory Typed_Helpers
  imports Named_Fields
begin

text \<open>
  \<^verbatim>\<open>typed/helpers.go\<close>: validation errors, the choice of the atom that applies to a value, and the path
  element of a list item.

  An error has a path and a message.  The Go code renders both to strings; the model keeps the path
  elements whose renderings are concatenated, and a constructor per format string with the arguments
  that matter.  \<open>Panic\<close> stands for a nil dereference, which in Go ends the program, and \<open>Diverges\<close> for a
  loop that does not end.  A \<^verbatim>\<open>value.Value\<close> that may be \<^verbatim>\<open>nil\<close> (no value, which is not the null value) is
  an option.
\<close>

datatype item_error =
    Key_Null_Element
  | Key_Non_Map_Element
  | Key_No_Default string default_error
  | Key_Omitted string
  | Set_Map_Element
  | Set_List_Element
  | Set_Null_Element
  | Non_Associative_List
and default_error = Invalid_ElementType | Non_Map_ElementType

datatype error_message =
    No_Type "string option"
  | Invalid_Atom "string option"
  | Expected_List
  | Expected_Map
  | Expected_Numeric
  | Expected_String
  | Expected_Boolean
  | Expected_Scalar
  | Unexpected_Scalar string
  | Element nat item_error
  | Duplicate_Key PathElement
  | Field_Not_Declared
  | Nothing_Provided
  | Unresolved
  | Different_Schema
  | Different_Type
  | Panic
  | Diverges

record ValidationError =
  Err_Path :: Path
  ErrorMessage :: error_message

type_synonym ValidationErrors = "ValidationError list"

definition errorf :: "error_message \<Rightarrow> ValidationErrors" where
  "errorf msg = [\<lparr>Err_Path = [], ErrorMessage = msg\<rparr>]"

definition ValidationErrors_WithPath :: "Path \<Rightarrow> ValidationErrors \<Rightarrow> ValidationErrors" where
  "ValidationErrors_WithPath p errs = map (\<lambda>e. e\<lparr>Err_Path := p\<rparr>) errs"

definition ValidationErrors_WithPrefix :: "Path \<Rightarrow> ValidationErrors \<Rightarrow> ValidationErrors" where
  "ValidationErrors_WithPrefix prefix errs = map (\<lambda>e. e\<lparr>Err_Path := prefix @ Err_Path e\<rparr>) errs"

definition ValidationErrors_WithLazyPrefix :: "PathElement option \<Rightarrow> ValidationErrors \<Rightarrow> ValidationErrors" where
  "ValidationErrors_WithLazyPrefix fn errs =
     (if length errs = 0 then errs
      else let prefix = (case fn of None \<Rightarrow> [] | Some pe \<Rightarrow> [pe])
           in map (\<lambda>e. e\<lparr>Err_Path := prefix @ Err_Path e\<rparr>) errs)"

definition deduceAtom :: "Atom \<Rightarrow> Value option \<Rightarrow> Atom" where
  "deduceAtom atom val =
     (case val of
        None \<Rightarrow> atom
      | Some v \<Rightarrow>
          if is_float v \<or> is_int v \<or> is_string v \<or> is_bool v then
            (if Atom_Scalar atom \<noteq> None then MkAtom (Atom_Scalar atom) None None else atom)
          else if is_list v then
            (if Atom_List atom \<noteq> None then MkAtom None (Atom_List atom) None else atom)
          else if is_map v then
            (if Atom_Map atom \<noteq> None then MkAtom None None (Atom_Map atom) else atom)
          else atom)"

text \<open>An \<^verbatim>\<open>atomHandler\<close> is its three methods; \<open>fail\<close> says how the caller returns errors.\<close>

definition handleAtom ::
  "(Scalar \<Rightarrow> 'r) \<Rightarrow> (SList \<Rightarrow> 'r) \<Rightarrow> (SMap \<Rightarrow> 'r) \<Rightarrow> (ValidationErrors \<Rightarrow> 'r) \<Rightarrow> Atom \<Rightarrow> TypeRef \<Rightarrow> 'r" where
  "handleAtom doScalar doList doMap fail a tr =
     (case Atom_Map a of
        Some t \<Rightarrow> doMap t
      | None \<Rightarrow> (case Atom_Scalar a of
          Some t \<Rightarrow> doScalar t
        | None \<Rightarrow> (case Atom_List a of
            Some t \<Rightarrow> doList t
          | None \<Rightarrow> fail (errorf (Invalid_Atom (NamedType tr))))))"

definition resolveSchema ::
  "TypeDef list \<Rightarrow> TypeRef \<Rightarrow> Value option \<Rightarrow>
   (Scalar \<Rightarrow> 'r) \<Rightarrow> (SList \<Rightarrow> 'r) \<Rightarrow> (SMap \<Rightarrow> 'r) \<Rightarrow> (ValidationErrors \<Rightarrow> 'r) \<Rightarrow> 'r" where
  "resolveSchema s tr v doScalar doList doMap fail =
     (case Resolve s tr of
        None \<Rightarrow> fail (errorf (No_Type (NamedType tr)))
      | Some a \<Rightarrow> handleAtom doScalar doList doMap fail (deduceAtom a v) tr)"

text \<open>\<^verbatim>\<open>listValue\<close> and \<^verbatim>\<open>mapValue\<close>: the null value is a nil list or map.  \<^verbatim>\<open>listValue\<close> dereferences a missing value.\<close>

definition listValue :: "Value option \<Rightarrow> error_message + Value list option" where
  "listValue val =
     (case val of
        None \<Rightarrow> Inl Panic
      | Some v \<Rightarrow> if is_null v then Inr None else if \<not> is_list v then Inl Expected_List else Inr (Some (AsList v)))"

definition mapValue :: "Value option \<Rightarrow> error_message + GoMap option" where
  "mapValue val =
     (case val of
        None \<Rightarrow> Inl Expected_Map
      | Some v \<Rightarrow> if is_null v then Inr None else if \<not> is_map v then Inl Expected_Map else Inr (Some (AsMap v)))"

text \<open>\<^verbatim>\<open>x, _ := f()\<close>: on an error the value is nil.\<close>

definition or_nil :: "'e + 'a option \<Rightarrow> 'a option" where
  "or_nil r = (case r of Inl _ \<Rightarrow> None | Inr x \<Rightarrow> x)"

definition getAssociativeKeyDefault :: "TypeDef list \<Rightarrow> SList \<Rightarrow> string \<Rightarrow> default_error + Value" where
  "getAssociativeKeyDefault s lst fieldName =
     (case Resolve s (List_ElementType lst) of
        None \<Rightarrow> Inl Invalid_ElementType
      | Some atom \<Rightarrow> (case Atom_Map atom of
          None \<Rightarrow> Inl Non_Map_ElementType
        | Some mp \<Rightarrow> Inr (Field_Default (case FindField mp fieldName of None \<Rightarrow> StructField_zero | Some f \<Rightarrow> f))))"

fun collect_keys :: "TypeDef list \<Rightarrow> SList \<Rightarrow> GoMap \<Rightarrow> string list \<Rightarrow> item_error + FieldList" where
  "collect_keys s lst mp [] = Inr []"
| "collect_keys s lst mp (fieldName # names) =
     (case map_of mp fieldName of
        Some val \<Rightarrow> map_sum id ((#) (fieldName, val)) (collect_keys s lst mp names)
      | None \<Rightarrow>
          (case getAssociativeKeyDefault s lst fieldName of
             Inl err \<Rightarrow> Inl (Key_No_Default fieldName err)
           | Inr def \<Rightarrow>
               if def \<noteq> VNull then map_sum id ((#) (fieldName, def)) (collect_keys s lst mp names)
               else Inl (Key_Omitted fieldName)))"

definition keyedAssociativeListItemToPathElement ::
  "TypeDef list \<Rightarrow> SList \<Rightarrow> Value \<Rightarrow> item_error + PathElement" where
  "keyedAssociativeListItemToPathElement s lst child =
     (if is_null child then Inl Key_Null_Element
      else if \<not> is_map child then Inl Key_Non_Map_Element
      else map_sum id (\<lambda>keyMap. pe_key (FieldList_Sort keyMap)) (collect_keys s lst (AsMap child) (Keys lst)))"

definition setItemToPathElement :: "Value \<Rightarrow> item_error + PathElement" where
  "setItemToPathElement child =
     (if is_map child then Inl Set_Map_Element
      else if is_list child then Inl Set_List_Element
      else if is_null child then Inl Set_Null_Element
      else Inr (pe_value child))"

definition listItemToPathElement :: "TypeDef list \<Rightarrow> SList \<Rightarrow> Value \<Rightarrow> item_error + PathElement" where
  "listItemToPathElement s lst child =
     (if List_ElementRelationship lst \<noteq> Associative then Inl Non_Associative_List
      else if length (Keys lst) > 0 then keyedAssociativeListItemToPathElement s lst child
      else setItemToPathElement child)"

text \<open>\<^verbatim>\<open>pe, _ := listItemToPathElement(...)\<close>: on an error the zero path element.\<close>

definition item_pe :: "TypeDef list \<Rightarrow> SList \<Rightarrow> Value \<Rightarrow> PathElement" where
  "item_pe s lst child = (case listItemToPathElement s lst child of Inl _ \<Rightarrow> PathElement_zero | Inr pe \<Rightarrow> pe)"

definition field_typeref :: "SMap \<Rightarrow> string \<Rightarrow> TypeRef" where
  "field_typeref t key = (case FindField t key of None \<Rightarrow> Map_ElementType t | Some sf \<Rightarrow> Field_Type sf)"

text \<open>\<^verbatim>\<open>validateScalar\<close> of \<^verbatim>\<open>validate.go\<close>, shared by the walkers; its prefix argument only colours the message.\<close>

definition validateScalar :: "Scalar \<Rightarrow> Value option \<Rightarrow> ValidationErrors" where
  "validateScalar t val =
     (case val of
        None \<Rightarrow> []
      | Some v \<Rightarrow>
          if is_null v then []
          else if t = Numeric then (if \<not> is_float v \<and> \<not> is_int v then errorf Expected_Numeric else [])
          else if t = String then (if \<not> is_string v then errorf Expected_String else [])
          else if t = Boolean then (if \<not> is_bool v then errorf Expected_Boolean else [])
          else if t = Untyped then
            (if \<not> is_float v \<and> \<not> is_int v \<and> \<not> is_string v \<and> \<not> is_bool v then errorf Expected_Scalar else [])
          else errorf (Unexpected_Scalar t))"

section \<open>Children and sizes: the walkers descend into smaller values\<close>

definition children :: "Value option \<Rightarrow> Value set" where
  "children v = (case v of None \<Rightarrow> {} | Some x \<Rightarrow>
     (if is_list x then set (AsList x) else if is_map x then snd ` set (AsMap x) else {}))"

definition size_opt :: "Value option \<Rightarrow> nat" where
  "size_opt v = (case v of None \<Rightarrow> 0 | Some x \<Rightarrow> Suc (size x))"

lemma size_opt_simps [simp]: "size_opt None = 0" "size_opt (Some x) = Suc (size x)"
  by (simp_all add: size_opt_def)

lemma children_size: "x \<in> children v \<Longrightarrow> size_opt (Some x) < size_opt v"
  by (auto simp: children_def AsList_size split: option.splits if_splits dest: AsMap_size)

lemma listValue_children: "listValue v = Inr (Some l) \<Longrightarrow> set l = children v"
  by (auto simp: listValue_def children_def split: option.splits if_splits)

lemma mapValue_children: "mapValue v = Inr (Some mp) \<Longrightarrow> snd ` set mp = children v"
  by (auto simp: mapValue_def children_def split: option.splits if_splits)

lemma handleAtom_cong:
  "(\<And>t. ds t = ds' t) \<Longrightarrow> (\<And>t. dl t = dl' t) \<Longrightarrow> (\<And>t. dm t = dm' t) \<Longrightarrow>
    handleAtom ds dl dm f a tr = handleAtom ds' dl' dm' f a tr"
  by (simp add: handleAtom_def split: option.splits)

lemma resolveSchema_cong [fundef_cong]:
  "s = s' \<Longrightarrow> tr = tr' \<Longrightarrow> v = v' \<Longrightarrow> (\<And>t. ds t = ds' t) \<Longrightarrow> (\<And>t. dl t = dl' t) \<Longrightarrow> (\<And>t. dm t = dm' t) \<Longrightarrow>
    resolveSchema s tr v ds dl dm f = resolveSchema s' tr' v' ds' dl' dm' f"
  by (simp add: resolveSchema_def cong: handleAtom_cong split: option.splits)

lemma WithLazyPrefix_Nil [simp]: "ValidationErrors_WithLazyPrefix p errs = [] \<longleftrightarrow> errs = []"
  by (simp add: ValidationErrors_WithLazyPrefix_def Let_def)

lemma WithPrefix_Nil [simp]: "ValidationErrors_WithPrefix p errs = [] \<longleftrightarrow> errs = []"
  by (simp add: ValidationErrors_WithPrefix_def)

lemma errorf_not_Nil [simp]: "errorf msg \<noteq> []"
  by (simp add: errorf_def)

end
