(* ===== verification/Schema_Ok.thy ===== *)
theory Schema_Ok
  imports Typed_Helpers
begin

text \<open>
  Schemas whose default values are of one number mode, so that every path element the walkers build from
  such a schema and such values can be compared.
\<close>

fun TypeRef_ok :: "num_mode \<Rightarrow> TypeRef \<Rightarrow> bool"
  and Atom_ok :: "num_mode \<Rightarrow> Atom \<Rightarrow> bool"
  and List_ok :: "num_mode \<Rightarrow> SList \<Rightarrow> bool"
  and Map_ok :: "num_mode \<Rightarrow> SMap \<Rightarrow> bool"
  and StructField_ok :: "num_mode \<Rightarrow> StructField \<Rightarrow> bool" where
  "TypeRef_ok m (MkTypeRef _ a _) = Atom_ok m a"
| "Atom_ok m (MkAtom _ l mp) = ((case l of None \<Rightarrow> True | Some x \<Rightarrow> List_ok m x) \<and> (case mp of None \<Rightarrow> True | Some x \<Rightarrow> Map_ok m x))"
| "List_ok m (MkList et _ _) = TypeRef_ok m et"
| "Map_ok m (MkMap fs _ et _) = (TypeRef_ok m et \<and> list_all (StructField_ok m) fs)"
| "StructField_ok m (MkField _ t d) = (TypeRef_ok m t \<and> value_ok m d)"

definition Schema_ok :: "num_mode \<Rightarrow> TypeDef list \<Rightarrow> bool" where
  "Schema_ok m s \<longleftrightarrow> list_all (\<lambda>t. Atom_ok m (snd t)) s"

lemma Atom_ok_List: "Atom_ok m a \<Longrightarrow> Atom_List a = Some l \<Longrightarrow> List_ok m l"
  by (cases a) auto

lemma Atom_ok_Map: "Atom_ok m a \<Longrightarrow> Atom_Map a = Some mp \<Longrightarrow> Map_ok m mp"
  by (cases a) auto

lemma List_ok_ElementType: "List_ok m l \<Longrightarrow> TypeRef_ok m (List_ElementType l)"
  by (cases l) auto

lemma FindField_in: "FindField mp n = Some f \<Longrightarrow> f \<in> set (Map_Fields mp)"
  unfolding FindField_def by (drule index_by_Some) simp

lemma Map_ok_FindField:
  assumes "Map_ok m mp" "FindField mp n = Some f"
  shows "TypeRef_ok m (Field_Type f)" "value_ok m (Field_Default f)"
proof -
  have "StructField_ok m f" using assms FindField_in [OF assms(2)] by (cases mp) (auto simp: list_all_iff)
  then show "TypeRef_ok m (Field_Type f)" "value_ok m (Field_Default f)" by (cases f; simp)+
qed

lemma Map_ok_field_typeref: "Map_ok m mp \<Longrightarrow> TypeRef_ok m (field_typeref mp n)"
  using Map_ok_FindField(1) [of m mp n] by (cases mp) (auto simp: field_typeref_def split: option.splits)

lemma override_ok: "override_relationship er a = Some b \<Longrightarrow> Atom_ok m a \<Longrightarrow> Atom_ok m b"
  by (auto simp: override_relationship_def split: Atom.splits option.splits SMap.splits SList.splits)

lemma Resolve_ok:
  assumes "Schema_ok m sc" "TypeRef_ok m tr" "Resolve sc tr = Some a"
  shows "Atom_ok m a"
proof -
  have "Atom_ok m b" if "resolveNoOverrides sc tr = Some b" for b
  proof (cases "NamedType tr")
    case None
    with that assms(2) show ?thesis by (cases tr) (auto simp: resolveNoOverrides_def)
  next
    case (Some n)
    with that obtain t where "FindNamedType sc n = Some t" "b = snd t"
      by (auto simp: resolveNoOverrides_def split: option.splits)
    with assms(1) show ?thesis
      using index_by_Some [of fst sc n t] by (auto simp: FindNamedType_def Schema_ok_def list_all_iff)
  qed
  with assms(3) show ?thesis by (auto simp: Resolve_def split: option.splits intro: override_ok)
qed

lemma deduceAtom_ok: "Atom_ok m a \<Longrightarrow> Atom_ok m (deduceAtom a v)"
  by (cases a) (auto simp: deduceAtom_def split: option.splits)

lemma getAssociativeKeyDefault_ok:
  assumes "Schema_ok m sc" "List_ok m l" "getAssociativeKeyDefault sc l n = Inr d"
  shows "value_ok m d"
proof -
  from assms(3) obtain a mp where a: "Resolve sc (List_ElementType l) = Some a" "Atom_Map a = Some mp"
    "d = Field_Default (case FindField mp n of None \<Rightarrow> StructField_zero | Some f \<Rightarrow> f)"
    by (auto simp: getAssociativeKeyDefault_def split: option.splits)
  have "Map_ok m mp" using Resolve_ok [OF assms(1) List_ok_ElementType [OF assms(2)] a(1)] a(2) by (rule Atom_ok_Map)
  then show ?thesis
    using a(3) Map_ok_FindField(2) [of m mp n] by (auto simp: StructField_zero_def split: option.splits)
qed

lemma value_ok_map_of: "value_ok m (VMap kvs) \<Longrightarrow> map_of kvs k = Some v \<Longrightarrow> value_ok m v"
  by (auto simp: list_all_iff dest!: map_of_SomeD)

lemma collect_keys_ok:
  assumes "Schema_ok m sc" "List_ok m l" "value_ok m (VMap kvs)" "collect_keys sc l kvs ns = Inr fs"
  shows "fields_ok m fs \<and> map fst fs = ns"
  using assms(4)
proof (induction ns arbitrary: fs)
  case (Cons n ns)
  show ?case
  proof (cases "map_of kvs n")
    case None
    with Cons.prems obtain d gs where "getAssociativeKeyDefault sc l n = Inr d" "collect_keys sc l kvs ns = Inr gs"
      "fs = (n, d) # gs"
      by (auto split: sum.splits if_splits simp: map_sum_def)
    with Cons.IH getAssociativeKeyDefault_ok [OF assms(1,2)] show ?thesis by (auto simp: fields_ok_def)
  next
    case (Some v)
    with Cons.prems obtain gs where "collect_keys sc l kvs ns = Inr gs" "fs = (n, v) # gs"
      by (auto split: sum.splits simp: map_sum_def)
    with Cons.IH Some value_ok_map_of [OF assms(3) Some] show ?thesis by (auto simp: fields_ok_def)
  qed
qed (simp add: fields_ok_def)

lemma pe_ok_simps [simp]:
  "pe_ok m (pe_field n)" "pe_ok m (pe_index i)" "pe_ok m (pe_value v) \<longleftrightarrow> value_ok m v"
  "pe_ok m (pe_key k) \<longleftrightarrow> fields_ok m k" "pe_ok m PathElement_zero"
  by (auto simp: pe_ok_def pe_field_def pe_index_def pe_value_def pe_key_def pe_single_def PathElement_zero_def)

lemma listItemToPathElement_ok:
  assumes "Schema_ok m sc" "List_ok m l" "value_ok m v" "listItemToPathElement sc l v = Inr pe"
  shows "pe_ok m pe"
proof -
  have "pe_ok m pe" if "keyedAssociativeListItemToPathElement sc l v = Inr pe"
  proof -
    from that obtain kvs fs where "v = VMap kvs" "collect_keys sc l kvs (Keys l) = Inr fs" "pe = pe_key (FieldList_Sort fs)"
      by (cases v) (auto simp: keyedAssociativeListItemToPathElement_def map_sum_def split: if_splits sum.splits)
    with collect_keys_ok [OF assms(1,2)] assms(3) show ?thesis by simp
  qed
  moreover have "pe_ok m pe" if "setItemToPathElement v = Inr pe"
    using that assms(3) by (auto simp: setItemToPathElement_def split: if_splits)
  ultimately show ?thesis using assms(4) by (auto simp: listItemToPathElement_def split: if_splits)
qed

lemma item_pe_ok: "Schema_ok m sc \<Longrightarrow> List_ok m l \<Longrightarrow> value_ok m v \<Longrightarrow> pe_ok m (item_pe sc l v)"
  using listItemToPathElement_ok [of m sc l v] by (auto simp: item_pe_def split: sum.splits)

lemma children_ok: "x \<in> children v \<Longrightarrow> pred_option (value_ok m) v \<Longrightarrow> value_ok m x"
proof -
  assume "x \<in> children v" "pred_option (value_ok m) v"
  then show ?thesis by (cases v; cases "the v") (auto simp: children_def list_all_iff split: if_splits)
qed

end
