(* ===== verification/Properties_Fieldpath.thy ===== *)
theory Properties_Fieldpath
  imports Managers Schema_Ok
begin

text \<open>
  The properties of the packages \<^verbatim>\<open>value\<close> and \<^verbatim>\<open>fieldpath\<close>, each with a concrete instance.
\<close>

section \<open>Concrete data for the instances\<close>

definition ex_spec :: PathElement where "ex_spec = pe_field ''spec''"
definition ex_replicas :: PathElement where "ex_replicas = pe_field ''replicas''"
definition ex_port :: PathElement where "ex_port = pe_key [(''port'', VInt 80)]"

definition ex_paths1 :: "Path list" where "ex_paths1 = [[ex_spec], [ex_spec, ex_replicas]]"
definition ex_paths2 :: "Path list" where "ex_paths2 = [[ex_spec, ex_replicas], [ex_port, ex_spec]]"

lemma ex_ok [simp]:
  "pe_ok No_Floats ex_spec" "pe_ok No_Floats ex_replicas" "pe_ok No_Floats ex_port"
  by (simp_all add: ex_spec_def ex_replicas_def ex_port_def fields_ok_def)

lemma ex_wf [simp]: "Set_wf No_Floats (NewSet ex_paths1)" "Set_wf No_Floats (NewSet ex_paths2)"
  by (rule NewSet_wf; simp add: ex_paths1_def ex_paths2_def)+

lemma ex_has:
  "Set_Has (NewSet ex_paths1) [ex_spec]" "Set_Has (NewSet ex_paths1) [ex_spec, ex_replicas]"
  "\<not> Set_Has (NewSet ex_paths2) [ex_spec]" "Set_Has (NewSet ex_paths2) [ex_spec, ex_replicas]"
  "Set_Has (NewSet ex_paths2) [ex_port, ex_spec]" "\<not> Set_Has (NewSet ex_paths1) [ex_port, ex_spec]"
  by code_simp+

section \<open>Values and path elements\<close>

text \<open>C30 (invariant): on values without floating-point numbers, or whose integers are exact as
  \<^verbatim>\<open>float64\<close> and whose floats are not NaN, \<^verbatim>\<open>value.Compare\<close> is a total preorder with results in \<open>{-1, 0, 1}\<close>,
  and \<^verbatim>\<open>value.Equals\<close> is its equivalence.\<close>

theorem Compare_total_order:
  assumes "value_ok m x" "value_ok m y" "value_ok m z"
  shows "Compare x y \<in> {- 1, 0, 1} \<and> Compare y x = - Compare x y \<and>
    (Compare x y \<le> 0 \<longrightarrow> Compare y z \<le> 0 \<longrightarrow> Compare x z \<le> 0) \<and> (Equals x y \<longleftrightarrow> Compare x y = 0)"
  using assms val.cmp_range [of m x y] val.cmp_flip [of m x y] val.cmp_le_trans [of m x y z] val.eqv_iff [of m x y]
  by blast

theorem Compare_total_order_witness:
  "Compare (VList [VInt 1, VString ''b'']) (VList [VInt 1, VString ''a'']) = - Compare (VList [VInt 1, VString ''a'']) (VList [VInt 1, VString ''b''])"
  using Compare_total_order [of No_Floats "VList [VInt 1, VString ''a'']" "VList [VInt 1, VString ''b'']" VNull] by simp

text \<open>\<^verbatim>\<open>value.Compare\<close> is no order on all values.  An integer that is not exact as \<^verbatim>\<open>float64\<close> is
  compared with a float after rounding, so \<open>2^53 = 2^53 (float) = 2^53 + 1\<close> while \<open>2^53 < 2^53 + 1\<close>; and NaN
  compares as equal to every number, which \<^verbatim>\<open>value.Equals\<close> denies.\<close>

theorem Compare_not_transitive:
  "Compare (VInt (2 ^ 53)) (VFloat (float64_of_int64 (2 ^ 53))) = 0 \<and>
   Compare (VFloat (float64_of_int64 (2 ^ 53))) (VInt (2 ^ 53 + 1)) = 0 \<and>
   Compare (VInt (2 ^ 53)) (VInt (2 ^ 53 + 1)) = - 1 \<and>
   (\<forall>i. Compare (VFloat NaN) (VInt i) = 0) \<and> \<not> Equals (VFloat NaN) (VFloat NaN)"
proof -
  have "excess_bits 9007199254740992 = 1" "excess_bits 9007199254740993 = 1"
    by (simp_all add: excess_bits.simps [of 9007199254740992] excess_bits.simps [of 9007199254740993]
        excess_bits.simps [of 4503599627370496])
  then have "round53 9007199254740993 = round53 9007199254740992" by (simp add: round53_def)
  moreover have "sint (2 ^ 53 + 1 :: 64 word) = 9007199254740993" "sint (2 ^ 53 :: 64 word) = 9007199254740992" by simp_all
  ultimately have "round53 (sint (2 ^ 53 + 1 :: 64 word)) = round53 (sint (2 ^ 53 :: 64 word))" by (simp only:)
  then have same: "float64_of_int64 (2 ^ 53 + 1) = float64_of_int64 (2 ^ 53)" by (simp only: float64_of_int64_def)
  have less: "sint (2 ^ 53 :: 64 word) < sint (2 ^ 53 + 1 :: 64 word)" by simp
  have refl: "FloatCompare f f = 0" for f by (cases f) (simp_all add: FloatCompare_def)
  have ints: "Compare (VFloat f) (VInt i) = FloatCompare f (float64_of_int64 i)" for f i by (simp add: Compare.simps)
  have "Compare (VInt (2 ^ 53)) (VFloat (float64_of_int64 (2 ^ 53))) = 0" by (simp only: Compare.simps [of "VInt _" "VFloat _"] Value.disc Value.sel refl simp_thms if_True if_False)
  moreover have "Compare (VFloat (float64_of_int64 (2 ^ 53))) (VInt (2 ^ 53 + 1)) = 0" by (simp only: ints same refl)
  moreover have "Compare (VInt (2 ^ 53)) (VInt (2 ^ 53 + 1)) = - 1" using less by (simp add: Compare.simps IntCompare_def)
  moreover have "Compare (VFloat NaN) (VInt i) = 0" for i
    unfolding ints by (cases "float64_of_int64 i") (simp_all add: FloatCompare_def)
  moreover have "\<not> Equals (VFloat NaN) (VFloat NaN)" by (simp add: Equals.simps float64_eq_def asFloatOrInt_def)
  ultimately show ?thesis by blast
qed

text \<open>\<^verbatim>\<open>PathElement.Compare\<close> is a total preorder whose equivalence is \<^verbatim>\<open>PathElement.Equals\<close>, and
  \<^verbatim>\<open>Path.Compare\<close> extends it to paths.\<close>

theorem PathElement_total_order:
  assumes "pe_ok m x" "pe_ok m y" "path_ok m p" "path_ok m q"
  shows "PathElement_Compare y x = - PathElement_Compare x y \<and> (PathElement_Equals x y \<longleftrightarrow> PathElement_Compare x y = 0) \<and>
    Path_Compare q p = - Path_Compare p q \<and> (Path_Equals p q \<longleftrightarrow> Path_Compare p q = 0)"
  using assms pe.cmp_flip [of m x y] pe.eqv_iff [of m x y] path.cmp_flip [of m p q] path.eqv_iff [of m p q] by blast

theorem PathElement_total_order_witness:
  "PathElement_Compare ex_spec ex_port = - PathElement_Compare ex_port ex_spec \<and> \<not> PathElement_Equals ex_port ex_spec"
proof -
  have "PathElement_Compare ex_port ex_spec \<noteq> 0" by code_simp
  then show ?thesis using PathElement_total_order [of No_Floats ex_port ex_spec "[]" "[]"] by simp
qed

text \<open>\<^verbatim>\<open>PathElementValueMap\<close>: after \<^verbatim>\<open>Insert\<close>, \<^verbatim>\<open>Get\<close> returns the new value for every equal key and
  what it returned before for every other; the keys stay strictly ascending.\<close>

theorem PathElementMap_get_insert:
  assumes "pe_asc m (map fst s)" "pe_ok m k" "pe_ok m q"
  shows "pe_asc m (map fst (PathElementMap_Insert s k v)) \<and>
    PathElementMap_Get (PathElementMap_Insert s k v) q = (if PathElement_Equals k q then Some v else PathElementMap_Get s q)"
  using pem.invar_insert [OF assms(1,2)] pem.get_insert [OF assms] by simp

theorem PathElementMap_get_insert_witness:
  "PathElementMap_Get (PathElementMap_Insert [(ex_spec, 1 :: nat)] ex_port 2) ex_port = Some 2 \<and>
   PathElementMap_Get (PathElementMap_Insert [(ex_spec, 1 :: nat)] ex_port 2) ex_spec = Some 1"
proof -
  have "PathElement_Equals ex_port ex_port" "\<not> PathElement_Equals ex_port ex_spec"
    "PathElementMap_Get [(ex_spec, 1 :: nat)] ex_spec = Some 1"
    by code_simp+
  then show ?thesis
    using PathElementMap_get_insert [of No_Floats "[(ex_spec, 1 :: nat)]" ex_port _ 2] by (simp add: pe.ascending_Cons)
qed

section \<open>Sets of paths\<close>

text \<open>The abstraction: a set as the paths it has.\<close>

definition paths_of :: "num_mode \<Rightarrow> FieldSet \<Rightarrow> Path set" where
  "paths_of m s = {p. path_ok m p \<and> Set_Has s p}"

text \<open>C5 (refinement): \<^verbatim>\<open>Set.Union\<close>, \<^verbatim>\<open>Set.Intersection\<close> and \<^verbatim>\<open>Set.Difference\<close> keep the invariant.  Union and
  intersection implement the operations on the sets of paths; the difference has only paths of the first set that are not in the second,
  and all of them that have no parent in the second set.\<close>

theorem Set_algebra:
  assumes "Set_wf m s" "Set_wf m t"
  shows "Set_wf m (Set_Union s t) \<and> Set_wf m (Set_Intersection s t) \<and> Set_wf m (Set_Difference s t) \<and>
    paths_of m (Set_Union s t) = paths_of m s \<union> paths_of m t \<and>
    paths_of m (Set_Intersection s t) = paths_of m s \<inter> paths_of m t \<and>
    paths_of m (Set_Difference s t) \<subseteq> paths_of m s - paths_of m t \<and>
    {p \<in> paths_of m s - paths_of m t. \<forall>i < length p. \<not> Set_Has t (take i p)} \<subseteq> paths_of m (Set_Difference s t)"
  using assms by (auto simp: paths_of_def fs.has_ops fs.wf_ops)

theorem Set_algebra_witness:
  "[ex_port, ex_spec] \<in> paths_of No_Floats (Set_Union (NewSet ex_paths1) (NewSet ex_paths2)) \<and>
   [ex_spec, ex_replicas] \<in> paths_of No_Floats (Set_Intersection (NewSet ex_paths1) (NewSet ex_paths2)) \<and>
   [ex_spec] \<in> paths_of No_Floats (Set_Difference (NewSet ex_paths1) (NewSet ex_paths2))"
proof -
  have "[ex_port, ex_spec] \<in> paths_of No_Floats (NewSet ex_paths2)" "[ex_spec, ex_replicas] \<in> paths_of No_Floats (NewSet ex_paths1)"
    "[ex_spec, ex_replicas] \<in> paths_of No_Floats (NewSet ex_paths2)" "[ex_spec] \<in> paths_of No_Floats (NewSet ex_paths1)"
    "[ex_spec] \<notin> paths_of No_Floats (NewSet ex_paths2)"
    by (simp_all add: paths_of_def ex_has)
  moreover have "\<forall>i < length [ex_spec]. \<not> Set_Has (NewSet ex_paths2) (take i [ex_spec])" by simp
  ultimately show ?thesis using Set_algebra [OF ex_wf] by blast
qed

text \<open>C26 (functional): \<^verbatim>\<open>Set.RecursiveDifference\<close> removes every path that has a prefix, itself included, in the
  second set, and nothing else.\<close>

theorem Set_RecursiveDifference_correct:
  assumes "Set_wf m s" "Set_wf m t" "path_ok m p"
  shows "Set_wf m (Set_RecursiveDifference s t) \<and>
    (Set_Has (Set_RecursiveDifference s t) p \<longleftrightarrow> Set_Has s p \<and> (\<forall>i \<le> length p. \<not> Set_Has t (take i p)))"
  using assms by (simp add: Set_RecursiveDifference_wf Set_RecursiveDifference_Has [of m] Set_covers_def)

theorem Set_RecursiveDifference_correct_witness:
  "\<not> Set_Has (Set_RecursiveDifference (NewSet ex_paths2) (NewSet ex_paths1)) [ex_spec, ex_replicas] \<and>
   Set_Has (Set_RecursiveDifference (NewSet ex_paths2) (NewSet ex_paths1)) [ex_port, ex_spec]"
proof -
  have "Set_Has (NewSet ex_paths1) (take 1 [ex_spec, ex_replicas])" by code_simp
  moreover have "\<not> Set_Has (NewSet ex_paths1) (take i [ex_port, ex_spec])" if "i \<le> 2" for i
  proof -
    have "\<not> Set_Has (NewSet ex_paths1) [ex_port]" by code_simp
    moreover have "i = 0 \<or> i = 1 \<or> i = 2" using that by auto
    ultimately show ?thesis using ex_has(6) by auto
  qed
  moreover have "(1 :: nat) \<le> length [ex_spec, ex_replicas]" "length [ex_port, ex_spec] = 2"
    "path_ok No_Floats [ex_spec, ex_replicas]" "path_ok No_Floats [ex_port, ex_spec]" by simp_all
  ultimately show ?thesis
    using Set_RecursiveDifference_correct [OF ex_wf(2,1)] ex_has(5) by metis
qed

text \<open>C27 (invariant): \<^verbatim>\<open>NewSet\<close> of paths is well-formed and has exactly the non-empty ones among them, up to
  equality of path elements; \<^verbatim>\<open>Set.Insert\<close> adds exactly the path.\<close>

theorem NewSet_correct:
  assumes "list_all (path_ok m) ps" "path_ok m p" "path_ok m q"
  shows "Set_wf m (NewSet ps) \<and> (Set_Has (NewSet ps) q \<longleftrightarrow> (\<exists>r \<in> set ps. r \<noteq> [] \<and> Path_Equals r q)) \<and>
    Set_wf m (Set_Insert (NewSet ps) p) \<and>
    (Set_Has (Set_Insert (NewSet ps) p) q \<longleftrightarrow> (p \<noteq> [] \<and> Path_Equals p q) \<or> Set_Has (NewSet ps) q)"
  using assms NewSet_wf [OF assms(1)] NewSet_Has [OF assms(1)] by (simp add: Set_Insert_wf Set_Insert_Has [of m])

theorem NewSet_correct_witness:
  "\<not> Set_Has (NewSet ex_paths1) [ex_port] \<and> Set_Has (Set_Insert (NewSet ex_paths1) [ex_port]) [ex_port]"
proof -
  have "\<not> Path_Equals [ex_spec] [ex_port]" "\<not> Path_Equals [ex_spec, ex_replicas] [ex_port]" "Path_Equals [ex_port] [ex_port]"
    by code_simp+
  then show ?thesis using NewSet_correct [of No_Floats ex_paths1 "[ex_port]" "[ex_port]"] by (simp add: ex_paths1_def)
qed

text \<open>C28 (equivalence): \<^verbatim>\<open>Set.Equals\<close> on well-formed sets is equality of the sets of paths, and \<^verbatim>\<open>Set.Empty\<close>
  is that there is none.\<close>

theorem Set_Equals_extensional:
  assumes "Set_wf m s" "Set_wf m t"
  shows "(Set_Equals s t \<longleftrightarrow> paths_of m s = paths_of m t) \<and> (Set_Empty s \<longleftrightarrow> paths_of m s = {})"
  using fs.eq_iff [OF assms] fs.empty_iff [OF assms(1)] by (auto simp: paths_of_def)

theorem Set_Equals_extensional_witness:
  "\<not> Set_Equals (NewSet ex_paths1) (NewSet ex_paths2) \<and> \<not> Set_Empty (NewSet ex_paths1)"
proof -
  have "[ex_spec] \<in> paths_of No_Floats (NewSet ex_paths1)" "[ex_spec] \<notin> paths_of No_Floats (NewSet ex_paths2)"
    by (simp_all add: paths_of_def ex_has)
  then show ?thesis using Set_Equals_extensional [OF ex_wf] by auto
qed

text \<open>C29 (functional): \<^verbatim>\<open>Set.Iterate\<close> calls its function once for every path of the set, in the order of
  \<open>Set_paths\<close>, and \<^verbatim>\<open>Set.Size\<close> is the number of calls; the paths visited are pairwise different and are the
  paths of the set.\<close>

theorem Set_Iterate_correct:
  assumes "Set_wf m s" "path_ok m p"
  shows "Set_Iterate s f st = fold f (Set_paths s) st \<and> Set_Size s = length (Set_paths s) \<and>
    sorted_wrt (\<lambda>p q. \<not> Path_Equals p q) (Set_paths s) \<and>
    (Set_Has s p \<longleftrightarrow> (\<exists>q \<in> set (Set_paths s). Path_Equals q p))"
  using assms Set_Iterate_fold [of s f st] Set_Size_paths(1) [of s] Set_paths_distinct [OF assms(1)] Set_Has_paths [OF assms]
  by blast

theorem Set_Iterate_correct_witness:
  "Set_Iterate (NewSet ex_paths2) (\<lambda>p n. n + length p) 0 = 4 \<and> Set_Size (NewSet ex_paths2) = 2"
proof -
  have "map length (Set_paths (NewSet ex_paths2)) = [2, 2]" by code_simp
  then have "length (Set_paths (NewSet ex_paths2)) = 2" "fold (\<lambda>n a. a + n) (map length (Set_paths (NewSet ex_paths2))) 0 = 4"
    by (simp_all flip: length_map [of length])
  then show ?thesis
    using Set_Iterate_correct [OF ex_wf(2), of "[]" "\<lambda>p n. n + length p" 0] by (simp add: fold_map comp_def)
qed

text \<open>\<^verbatim>\<open>Set.Leaves\<close> keeps exactly the paths that no longer path of the set extends.\<close>

theorem Set_Leaves_correct:
  assumes "Set_wf m s" "path_ok m p"
  shows "Set_wf m (Set_Leaves s) \<and>
    (Set_Has (Set_Leaves s) p \<longleftrightarrow> Set_Has s p \<and> \<not> (\<exists>q. q \<noteq> [] \<and> path_ok m q \<and> Set_Has s (p @ q)))"
  using assms by (simp add: Set_Leaves_wf Set_Leaves_Has [of m])

theorem Set_Leaves_correct_witness: "\<not> Set_Has (Set_Leaves (NewSet ex_paths1)) [ex_spec]"
proof -
  have "[ex_replicas] \<noteq> [] \<and> path_ok No_Floats [ex_replicas] \<and> Set_Has (NewSet ex_paths1) ([ex_spec] @ [ex_replicas])"
    using ex_has(2) by simp
  then show ?thesis using Set_Leaves_correct [OF ex_wf(1), of "[ex_spec]"] ex_ok(1) by (metis list.pred_inject)
qed

text \<open>\<^verbatim>\<open>Set.WithPrefix\<close> is the set of the paths that extend the prefix, without it.\<close>

theorem Set_WithPrefix_correct:
  assumes "Set_wf m s" "pe_ok m pe" "path_ok m p" "p \<noteq> []"
  shows "Set_wf m (Set_WithPrefix s pe) \<and> (Set_Has (Set_WithPrefix s pe) p \<longleftrightarrow> Set_Has s (pe # p))"
  using assms by (simp add: Set_WithPrefix_wf [of m] Set_WithPrefix_Has [of m])

theorem Set_WithPrefix_correct_witness:
  "Set_Has (Set_WithPrefix (NewSet ex_paths1) ex_spec) [ex_replicas]"
  using Set_WithPrefix_correct [OF ex_wf(1), of ex_spec "[ex_replicas]"] ex_has(2) by simp

end
