(* ===== verification/Properties_Schema.thy ===== *)
theory Properties_Schema
  imports Properties_Fieldpath
begin

text \<open>
  The properties of the package \<^verbatim>\<open>schema\<close>, of \<^verbatim>\<open>fieldpath.ManagedFields\<close> and of \<^verbatim>\<open>merge.Conflicts\<close>, each with a
  concrete instance.
\<close>

section \<open>A concrete schema\<close>

definition ex_string :: TypeRef where "ex_string = MkTypeRef None (MkAtom (Some String) None None) None"
definition ex_numeric :: TypeRef where "ex_numeric = MkTypeRef None (MkAtom (Some Numeric) None None) None"
definition ex_named :: "string \<Rightarrow> TypeRef" where "ex_named n = MkTypeRef (Some n) Atom_zero None"

definition ex_object_map :: SMap where
  "ex_object_map = MkMap [MkField ''name'' ex_string VNull, MkField ''spec'' (ex_named ''spec'') VNull] [] TypeRef_zero Separable"

definition ex_spec_map :: SMap where
  "ex_spec_map = MkMap [MkField ''replicas'' ex_numeric VNull, MkField ''ports'' (ex_named ''ports'') VNull] [] TypeRef_zero Separable"

definition ex_port_map :: SMap where
  "ex_port_map = MkMap [MkField ''port'' ex_numeric VNull, MkField ''protocol'' ex_string (VString ''TCP'')] [] TypeRef_zero Separable"

definition ex_types :: "TypeDef list" where
  "ex_types =
     [(''object'', MkAtom None None (Some ex_object_map)),
      (''spec'', MkAtom None None (Some ex_spec_map)),
      (''ports'', MkAtom None (Some (MkList (ex_named ''port'') Associative [''port'', ''protocol''])) None),
      (''port'', MkAtom None None (Some ex_port_map))]"

lemmas ex_defs = ex_string_def ex_numeric_def ex_named_def ex_object_map_def ex_spec_map_def ex_port_map_def ex_types_def

lemma ex_types_ok [simp]: "Schema_ok No_Floats ex_types" "TypeRef_ok No_Floats (ex_named n)"
  by (simp_all add: Schema_ok_def ex_defs Atom_zero_def TypeRef_zero_def)

section \<open>Schemas\<close>

text \<open>A lookup through the index that \<^verbatim>\<open>Map.FindField\<close> and \<^verbatim>\<open>Schema.FindNamedType\<close> build once returns the
  last element with the name, as without an index, keeps the index valid and changes nothing else.  A copy into a cell
  without an index is valid as well.\<close>

theorem find_indexed_equiv:
  assumes "indexed_ok name c"
  shows "fst (find_indexed name n c) = index_by name (elements c) n \<and> indexed_ok name (snd (find_indexed name n c)) \<and>
    elements (snd (find_indexed name n c)) = elements c \<and>
    (cached_index d = None \<longrightarrow> indexed_ok name (CopyInto_indexed c d))"
  using find_indexed_correct [OF assms] CopyInto_indexed_ok [OF assms] by simp

theorem find_indexed_equiv_witness:
  "fst (find_indexed fst ''b'' \<lparr>elements = [(''a'', 1 :: nat), (''b'', 2), (''b'', 3)], cached_index = None\<rparr>) = Some (''b'', 3)"
  using find_indexed_equiv [of fst "\<lparr>elements = [(''a'', 1 :: nat), (''b'', 2), (''b'', 3)], cached_index = None\<rparr>" "''b''"]
  by (simp add: indexed_ok_def index_by_def)

text \<open>\<^verbatim>\<open>CopyInto\<close> into a destination whose index is filled leaves the destination with an index that does not
  belong to its elements, when the index of the source is not filled yet.\<close>

theorem CopyInto_stale_index:
  assumes "cached_index src = None" "cached_index dst = Some idx"
  shows "find_indexed name n (CopyInto_indexed src dst) = (idx n, CopyInto_indexed src dst) \<and>
    elements (CopyInto_indexed src dst) = elements src"
  using assms by (simp add: CopyInto_indexed_def find_indexed_def once_Do_def Let_def)

theorem CopyInto_stale_index_witness:
  "fst (find_indexed fst ''a'' (CopyInto_indexed \<lparr>elements = [(''a'', 1 :: nat)], cached_index = None\<rparr>
     \<lparr>elements = [], cached_index = Some (\<lambda>_. None)\<rparr>)) = None"
  using CopyInto_stale_index [of "\<lparr>elements = [(''a'', 1 :: nat)], cached_index = None\<rparr>"
      "\<lparr>elements = [], cached_index = Some (\<lambda>_. None)\<rparr>" "\<lambda>_. None" fst "''a''"] by simp

text \<open>\<^verbatim>\<open>Schema.Resolve\<close> with its cache of overridden types returns what it returns without, and
  keeps the cache consistent, provided equal cache keys are equal references.\<close>

theorem Resolve_cached_equiv:
  assumes "\<forall>a b. same a b \<longrightarrow> a = b" "cache_ok s cache"
  shows "fst (Resolve_cached same s tr cache) = Resolve s tr \<and> cache_ok s (snd (Resolve_cached same s tr cache))"
  using assms Resolve_cached_correct [of same s cache tr] by blast

theorem Resolve_cached_equiv_witness:
  "fst (Resolve_cached (\<lambda>a b. a = b) ex_types (ex_named ''port'') []) = Some (MkAtom None None (Some ex_port_map))"
proof -
  have "Resolve ex_types (ex_named ''port'') = Some (MkAtom None None (Some ex_port_map))" by code_simp
  then show ?thesis using Resolve_cached_equiv [of "\<lambda>a b. a = b" ex_types "[]" "ex_named ''port''"] by (simp add: cache_ok_def)
qed

text \<open>\<^verbatim>\<open>Schema.Equals\<close> decides equality of schemas whose atoms have one form each and whose defaults
  hold neither floats nor maps.\<close>

theorem Schema_Equals_iff:
  assumes "Schema_exact h a" "Schema_exact h b"
  shows "Schema_Equals a b \<longleftrightarrow> a = b"
  using Schema_Equals_exact [OF assms] .

theorem Schema_Equals_iff_witness: "Schema_Equals ex_types ex_types \<and> \<not> Schema_Equals ex_types (tl ex_types)"
proof -
  have "Schema_exact (\<lambda>_. '''') ex_types" "Schema_exact (\<lambda>_. '''') (tl ex_types)"
    by (simp_all add: Schema_exact_def ex_defs Atom_zero_def TypeRef_zero_def)
  moreover have "ex_types \<noteq> tl ex_types" by (simp add: ex_types_def)
  ultimately show ?thesis
    using Schema_Equals_iff [of "\<lambda>_. ''''" ex_types ex_types] Schema_Equals_iff [of "\<lambda>_. ''''" ex_types "tl ex_types"] by blast
qed

text \<open>\<^verbatim>\<open>Atom.Equals\<close> looks at the scalar alone when both atoms have one: two atoms with a scalar, a list and a
  map each are equal whatever their lists and maps are.\<close>

theorem Atom_Equals_ignores_map:
  "Atom_Equals (MkAtom (Some t) (Some l) (Some mp)) (MkAtom (Some t) (Some l') (Some mp'))"
  by simp

text \<open>C36 (functional): \<^verbatim>\<open>Set.EnsureNamedFieldsAreMembers\<close> adds to a set exactly the paths that the schema names as struct
  fields and below which the set has a path.\<close>

theorem EnsureNamed_correct:
  assumes "Set_wf m s" "path_ok m p"
  shows "Set_wf m (Set_EnsureNamedFieldsAreMembers sc tr s) \<and>
    (Set_Has (Set_EnsureNamedFieldsAreMembers sc tr s) p \<longleftrightarrow>
      Set_Has s p \<or> names_path sc tr p \<and> (\<exists>q. q \<noteq> [] \<and> path_ok m q \<and> Set_Has s (p @ q)))"
  using assms by (simp add: Set_Ensure_wf Set_Ensure_Has [of m])

theorem EnsureNamed_correct_witness:
  "Set_Has (Set_EnsureNamedFieldsAreMembers ex_types (ex_named ''object'') (NewSet ex_paths2)) [ex_spec] \<and>
   \<not> Set_Has (NewSet ex_paths2) [ex_spec]"
proof -
  have "names_path ex_types (ex_named ''object'') [ex_spec]" by code_simp
  moreover have "\<exists>q. q \<noteq> [] \<and> path_ok No_Floats q \<and> Set_Has (NewSet ex_paths2) ([ex_spec] @ q)"
    using ex_has(4) by (intro exI [of _ "[ex_replicas]"]) simp
  ultimately show ?thesis
    using EnsureNamed_correct [OF ex_wf(2), of "[ex_spec]" ex_types "ex_named ''object''"] ex_has(3) by simp
qed

section \<open>Managers and conflicts\<close>

definition ex_managers1 :: ManagedFields where
  "ex_managers1 = [(''apply'', NewVersionedSet (NewSet ex_paths1) ''v1'' True)]"
definition ex_managers2 :: ManagedFields where
  "ex_managers2 = [(''apply'', NewVersionedSet (NewSet ex_paths2) ''v1'' True), (''edit'', NewVersionedSet (NewSet []) ''v2'' False)]"

lemma ex_managers_wf [simp]: "managers_wf No_Floats ex_managers1" "managers_wf No_Floats ex_managers2"
  using NewSet_wf [of No_Floats "[]"] by (simp_all add: managers_wf_def ex_managers1_def ex_managers2_def NewVersionedSet_def)

text \<open>\<^verbatim>\<open>ManagedFields.Equals\<close> holds when both maps have the same managers with the same version, the same
  applied flag and the same paths.\<close>

theorem ManagedFields_Equals_correct:
  assumes "managers_wf m lhs" "managers_wf m rhs"
  shows "ManagedFields_Equals lhs rhs \<longleftrightarrow>
    (\<forall>k. rel_option (\<lambda>l r. apiVersion l = apiVersion r \<and> applied l = applied r \<and> paths_of m (vset l) = paths_of m (vset r))
       (map_of lhs k) (map_of rhs k))"
proof -
  have "paths_of m s = paths_of m t \<longleftrightarrow> (\<forall>p. path_ok m p \<longrightarrow> Set_Has s p = Set_Has t p)" for s t
    by (auto simp: paths_of_def)
  then show ?thesis using ManagedFields_Equals_iff [OF assms] by simp
qed

theorem ManagedFields_Equals_correct_witness: "\<not> ManagedFields_Equals ex_managers1 ex_managers2"
proof -
  have "\<not> rel_option R (map_of ex_managers1 ''edit'') (map_of ex_managers2 ''edit'')" for R
    by (simp add: ex_managers1_def ex_managers2_def)
  then show ?thesis using ManagedFields_Equals_correct [OF ex_managers_wf] by blast
qed

text \<open>\<^verbatim>\<open>ManagedFields.Difference\<close> has for every manager of equal versions the symmetric difference of its two
  sets when it is not empty, the one set it has in only one of the maps when that is not empty, and the right set when
  the versions differ.\<close>

theorem ManagedFields_Difference_correct:
  assumes "managers_wf m lhs" "managers_wf m rhs"
  shows "map_of (ManagedFields_Difference lhs rhs) k = manager_difference (map_of lhs k) (map_of rhs k) \<and>
    (map_of lhs k = Some l \<and> map_of rhs k = Some r \<and> apiVersion l = apiVersion r \<longrightarrow>
      (case map_of (ManagedFields_Difference lhs rhs) k of
         None \<Rightarrow> paths_of m (vset l) = paths_of m (vset r)
       | Some d \<Rightarrow> paths_of m (vset d) = (paths_of m (vset l) - paths_of m (vset r)) \<union> (paths_of m (vset r) - paths_of m (vset l))))"
proof -
  have d: "map_of (ManagedFields_Difference lhs rhs) k = manager_difference (map_of lhs k) (map_of rhs k)"
    using assms by (intro ManagedFields_Difference_map_of) (auto simp: managers_wf_def)
  have "Set_wf m (vset l)" "Set_wf m (vset r)" if "map_of lhs k = Some l" "map_of rhs k = Some r"
    using that managers_wf_map_of assms by blast+
  then show ?thesis
    using fs.symdiff [of m "vset l" "vset r"] fs.eq_iff [of m "vset l" "vset r"]
    by (auto simp: d manager_difference_def NewVersionedSet_def paths_of_def Let_def)
qed

theorem ManagedFields_Difference_correct_witness:
  "map_of (ManagedFields_Difference ex_managers1 ex_managers2) ''edit'' = None"
proof -
  have "manager_difference (map_of ex_managers1 ''edit'') (map_of ex_managers2 ''edit'') = None" by code_simp
  then show ?thesis using ManagedFields_Difference_correct [OF ex_managers_wf] by simp
qed

text \<open>With different versions the right set is put into the difference even when it is empty, although an
  empty difference is said not to be inserted.\<close>

theorem ManagedFields_Difference_keeps_empty:
  assumes "a \<noteq> b"
  shows "map_of (ManagedFields_Difference [(k, NewVersionedSet (NewSet []) a x)] [(k, NewVersionedSet (NewSet []) b y)]) k =
    Some (NewVersionedSet (NewSet []) b y)"
  using assms by (subst ManagedFields_Difference_map_of) (simp_all add: manager_difference_def NewVersionedSet_def)

theorem ManagedFields_Difference_keeps_empty_witness:
  "map_of (ManagedFields_Difference [(''e'', NewVersionedSet (NewSet []) ''v1'' True)] [(''e'', NewVersionedSet (NewSet []) ''v2'' True)]) ''e'' \<noteq> None"
  using ManagedFields_Difference_keeps_empty [of "''v1''" "''v2''" "''e''" True True] by simp

text \<open>The conflicts made from the managers' sets name exactly the pairs of a manager and a path of its set,
  and \<^verbatim>\<open>Conflicts.ToSet\<close> of them is the union of the sets.\<close>

theorem Conflicts_correct:
  assumes "managers_wf m ms" "path_ok m p"
  shows "((\<exists>c \<in> set (ConflictsFromManagers ms). Manager c = k \<and> Path_Equals (Conflict_Path c) p) \<longleftrightarrow>
      (\<exists>s. map_of ms k = Some s \<and> Set_Has (vset s) p)) \<and>
    (Set_Has (Conflicts_ToSet (ConflictsFromManagers ms)) p \<longleftrightarrow> (\<exists>e \<in> set ms. Set_Has (vset (snd e)) p))"
proof -
  have "distinct (map fst ms)" using assms(1) by (simp add: managers_wf_def)
  then have "map_of ms k = Some s \<longleftrightarrow> (k, s) \<in> set ms" for s by simp
  moreover have "Set_Has (vset s) p \<longleftrightarrow> (\<exists>q \<in> set (Set_paths (vset s)). Path_Equals q p)" if "(k, s) \<in> set ms" for s
    using that assms by (intro Set_Has_paths [of m]) (auto simp: managers_wf_def list_all_iff)
  moreover have "(\<exists>c \<in> set (ConflictsFromManagers ms). Manager c = k \<and> Path_Equals (Conflict_Path c) p) \<longleftrightarrow>
      (\<exists>s. (k, s) \<in> set ms \<and> (\<exists>q \<in> set (Set_paths (vset s)). Path_Equals q p))"
    by (fastforce simp: ConflictsFromManagers_eq)
  ultimately show ?thesis using Conflicts_ToSet_Has [OF assms] by auto
qed

theorem Conflicts_correct_witness:
  "Set_Has (Conflicts_ToSet (ConflictsFromManagers ex_managers2)) [ex_port, ex_spec]"
  using Conflicts_correct [OF ex_managers_wf(2), of "[ex_port, ex_spec]" "''apply''"] ex_has(5)
  by (simp add: ex_managers2_def NewVersionedSet_def)

end
