(* ===== verification/Validate.thy ===== *)
theory Validate
  imports Schema_Ok
begin

text \<open>
  \<^verbatim>\<open>typed/validate.go\<close>: the walker that checks a value against a type.  Each method is a definition over
  the recursive call \<open>rec\<close> (type, value, path element to prefix errors with); \<open>validate\<close> ties the knot,
  which is well-founded because every call descends to a child of the value.  The pools of walkers and
  the allocators only save memory and are left out.
\<close>

section \<open>The walker\<close>

type_synonym validator = "TypeRef \<Rightarrow> Value option \<Rightarrow> PathElement option \<Rightarrow> ValidationErrors"

definition validate_doScalar :: "Value option \<Rightarrow> Scalar \<Rightarrow> ValidationErrors" where
  "validate_doScalar v t = (let errs = validateScalar t v in if length errs > 0 then errs else [])"

text \<open>The loop over the remaining items, with the index of the next and the keys observed so far.\<close>

fun validate_visitListItems ::
  "validator \<Rightarrow> TypeDef list \<Rightarrow> bool \<Rightarrow> SList \<Rightarrow> nat \<Rightarrow> PathElementSet \<Rightarrow> Value list \<Rightarrow> ValidationErrors" where
  "validate_visitListItems rec sc allowDuplicates t i observedKeys [] = []"
| "validate_visitListItems rec sc allowDuplicates t i observedKeys (child # rest) =
     (if List_ElementRelationship t \<noteq> Associative then
        rec (List_ElementType t) (Some child) (Some (pe_index (of_nat i)))
          @ validate_visitListItems rec sc allowDuplicates t (i + 1) observedKeys rest
      else
        (case listItemToPathElement sc t child of
           Inl err \<Rightarrow> errorf (Element i err)
         | Inr pe \<Rightarrow>
             (if PathElementSet_Has observedKeys pe \<and> \<not> allowDuplicates then errorf (Duplicate_Key pe) else [])
               @ rec (List_ElementType t) (Some child) (Some pe)
               @ validate_visitListItems rec sc allowDuplicates t (i + 1) (PathElementSet_Insert observedKeys pe) rest))"

definition validate_doList :: "validator \<Rightarrow> TypeDef list \<Rightarrow> bool \<Rightarrow> Value option \<Rightarrow> SList \<Rightarrow> ValidationErrors" where
  "validate_doList rec sc allowDuplicates v t =
     (case listValue v of
        Inl err \<Rightarrow> errorf err
      | Inr None \<Rightarrow> []
      | Inr (Some lst) \<Rightarrow> validate_visitListItems rec sc allowDuplicates t 0 [] lst)"

text \<open>The callback of \<^verbatim>\<open>IterateUsing\<close> stops at the first field the schema does not know.\<close>

fun validate_visitMapItems :: "validator \<Rightarrow> SMap \<Rightarrow> GoMap \<Rightarrow> ValidationErrors" where
  "validate_visitMapItems rec t [] = []"
| "validate_visitMapItems rec t ((key, val) # rest) =
     (if FindField t key = None \<and> Map_ElementType t = TypeRef_zero then
        ValidationErrors_WithPrefix [pe_field key] (errorf Field_Not_Declared)
      else rec (field_typeref t key) (Some val) (Some (pe_field key)) @ validate_visitMapItems rec t rest)"

definition validate_doMap :: "validator \<Rightarrow> Value option \<Rightarrow> SMap \<Rightarrow> ValidationErrors" where
  "validate_doMap rec v t =
     (case mapValue v of
        Inl err \<Rightarrow> errorf err
      | Inr None \<Rightarrow> []
      | Inr (Some mp) \<Rightarrow> validate_visitMapItems rec t mp)"

lemma validate_visitListItems_cong:
  "(\<And>x tr p. x \<in> set xs \<Longrightarrow> f tr (Some x) p = g tr (Some x) p) \<Longrightarrow>
    validate_visitListItems f sc d t i obs xs = validate_visitListItems g sc d t i obs xs"
  by (induction xs arbitrary: i obs) (auto split: sum.splits)

lemma validate_visitMapItems_cong:
  "(\<And>x tr p. x \<in> snd ` set kvs \<Longrightarrow> f tr (Some x) p = g tr (Some x) p) \<Longrightarrow>
    validate_visitMapItems f t kvs = validate_visitMapItems g t kvs"
  by (induction kvs) auto

lemma validate_doList_cong [fundef_cong]:
  assumes "sc = sc'" "d = d'" "v = v'" "t = t'"
    and "\<And>x tr p. x \<in> children v' \<Longrightarrow> f tr (Some x) p = g tr (Some x) p"
  shows "validate_doList f sc d v t = validate_doList g sc' d' v' t'"
  using assms(5) listValue_children [of v'] unfolding assms(1-4) validate_doList_def
  by (auto split: sum.splits option.splits intro!: validate_visitListItems_cong)

lemma validate_doMap_cong [fundef_cong]:
  assumes "v = v'" "t = t'"
    and "\<And>x tr p. x \<in> children v' \<Longrightarrow> f tr (Some x) p = g tr (Some x) p"
  shows "validate_doMap f v t = validate_doMap g v' t'"
proof -
  have "validate_visitMapItems f t' mp = validate_visitMapItems g t' mp" if "mapValue v' = Inr (Some mp)" for mp
    by (intro validate_visitMapItems_cong assms(3)) (simp only: mapValue_children [OF that])
  then show ?thesis unfolding assms(1,2) validate_doMap_def by (auto split: sum.splits option.splits)
qed

function validate :: "TypeDef list \<Rightarrow> bool \<Rightarrow> TypeRef \<Rightarrow> Value option \<Rightarrow> PathElement option \<Rightarrow> ValidationErrors" where
  "validate sc allowDuplicates tr v prefixFn =
     ValidationErrors_WithLazyPrefix prefixFn
       (resolveSchema sc tr v
          (validate_doScalar v)
          (validate_doList (\<lambda>tr' x p. validate sc allowDuplicates tr' x p) sc allowDuplicates v)
          (validate_doMap (\<lambda>tr' x p. validate sc allowDuplicates tr' x p) v)
          (\<lambda>errs. errs))"
  by pat_completeness auto
termination
  by (relation "measure (\<lambda>(sc, d, tr, v, p). size_opt v)") (auto dest: children_size)

declare validate.simps [simp del]

section \<open>What it means to conform\<close>

definition scalar_ok :: "Scalar \<Rightarrow> Value \<Rightarrow> bool" where
  "scalar_ok t v \<longleftrightarrow>
     t = Numeric \<and> (is_int v \<or> is_float v) \<or> t = String \<and> is_string v \<or> t = Boolean \<and> is_bool v
     \<or> t = Untyped \<and> (is_int v \<or> is_float v \<or> is_string v \<or> is_bool v)"

definition item_keys_ok :: "TypeDef list \<Rightarrow> bool \<Rightarrow> SList \<Rightarrow> Value list \<Rightarrow> bool" where
  "item_keys_ok sc dup t xs \<longleftrightarrow>
     list_all (\<lambda>x. \<exists>pe. listItemToPathElement sc t x = Inr pe) xs \<and>
     (dup \<or> sorted_wrt (\<lambda>x y. \<not> PathElement_Equals (item_pe sc t x) (item_pe sc t y)) xs)"

inductive conforms :: "TypeDef list \<Rightarrow> bool \<Rightarrow> TypeRef \<Rightarrow> Value \<Rightarrow> bool" for sc dup where
  conforms_null:
    "Resolve sc tr = Some a \<Longrightarrow> a \<noteq> Atom_zero \<Longrightarrow> conforms sc dup tr VNull"
| conforms_scalar:
    "Resolve sc tr = Some a \<Longrightarrow> Atom_Scalar a = Some t \<Longrightarrow> scalar_ok t v \<Longrightarrow> conforms sc dup tr v"
| conforms_list:
    "Resolve sc tr = Some a \<Longrightarrow> Atom_List a = Some t \<Longrightarrow>
     (List_ElementRelationship t = Associative \<Longrightarrow> item_keys_ok sc dup t xs) \<Longrightarrow>
     (\<And>x. x \<in> set xs \<Longrightarrow> conforms sc dup (List_ElementType t) x) \<Longrightarrow> conforms sc dup tr (VList xs)"
| conforms_map:
    "Resolve sc tr = Some a \<Longrightarrow> Atom_Map a = Some t \<Longrightarrow>
     (\<And>k x. (k, x) \<in> set kvs \<Longrightarrow> FindField t k \<noteq> None \<or> Map_ElementType t \<noteq> TypeRef_zero) \<Longrightarrow>
     (\<And>k x. (k, x) \<in> set kvs \<Longrightarrow> conforms sc dup (field_typeref t k) x) \<Longrightarrow> conforms sc dup tr (VMap kvs)"

inductive_cases conforms_nullE: "conforms sc dup tr VNull"
inductive_cases conforms_listE: "conforms sc dup tr (VList xs)"
inductive_cases conforms_mapE: "conforms sc dup tr (VMap kvs)"

text \<open>The kind of a value decides which handler runs.\<close>

lemma deduceAtom_handle:
  "handleAtom ds dl dm f (deduceAtom a (Some v)) tr =
     (if (is_float v \<or> is_int v \<or> is_string v \<or> is_bool v) \<and> Atom_Scalar a \<noteq> None then ds (the (Atom_Scalar a))
      else if is_list v \<and> Atom_List a \<noteq> None then dl (the (Atom_List a))
      else if is_map v \<and> Atom_Map a \<noteq> None then dm (the (Atom_Map a))
      else handleAtom ds dl dm f a tr)"
  by (cases v) (auto simp: deduceAtom_def handleAtom_def)

lemma validateScalar_iff: "\<not> is_null v \<Longrightarrow> validateScalar t (Some v) = [] \<longleftrightarrow> scalar_ok t v"
  by (auto simp: validateScalar_def scalar_ok_def)

lemma validate_doScalar_eq [simp]: "validate_doScalar v t = validateScalar t v"
  by (simp add: validate_doScalar_def Let_def)

lemma validate_visitMapItems_iff:
  "validate_visitMapItems rec t kvs = [] \<longleftrightarrow>
     (\<forall>(k, x) \<in> set kvs. (FindField t k \<noteq> None \<or> Map_ElementType t \<noteq> TypeRef_zero) \<and>
       rec (field_typeref t k) (Some x) (Some (pe_field k)) = [])"
  by (induction kvs) (auto split: if_splits)

text \<open>The observed keys are the keys of the items before.\<close>

lemma validate_visitListItems_iff:
  assumes "pe_asc m obs" "\<forall>x \<in> set xs. \<forall>pe. listItemToPathElement sc t x = Inr pe \<longrightarrow> pe_ok m pe"
    "List_ElementRelationship t = Associative"
  shows "validate_visitListItems rec sc dup t i obs xs = [] \<longleftrightarrow>
    item_keys_ok sc dup t xs \<and> (dup \<or> (\<forall>x \<in> set xs. \<not> pe_covers obs (item_pe sc t x))) \<and>
    (\<forall>x \<in> set xs. rec (List_ElementType t) (Some x) (Some (item_pe sc t x)) = [])"
  using assms
proof (induction xs arbitrary: i obs)
  case (Cons x xs)
  show ?case
  proof (cases "listItemToPathElement sc t x")
    case (Inl e)
    with Cons.prems show ?thesis by (auto simp: item_keys_ok_def)
  next
    case (Inr pe)
    then have pe: "pe_ok m pe" "item_pe sc t x = pe" using Cons.prems by (auto simp: item_pe_def)
    let ?obs = "PathElementSet_Insert obs pe"
    have obs: "pe_asc m ?obs" using PathElementSet_Insert_correct(1) [OF Cons.prems(1) pe(1)] .
    have later: "pe_covers ?obs (item_pe sc t y) \<longleftrightarrow> PathElement_Equals pe (item_pe sc t y) \<or> pe_covers obs (item_pe sc t y)"
      if "y \<in> set xs" "\<exists>q. listItemToPathElement sc t y = Inr q" for y
      using that Cons.prems(2) PathElementSet_Insert_correct(2) [OF Cons.prems(1) pe(1), of "item_pe sc t y"]
      by (auto simp: item_pe_def)
    have has: "PathElementSet_Has obs pe \<longleftrightarrow> pe_covers obs pe"
      using Cons.prems(1) pe(1) by (rule PathElementSet_Has_iff)
    have IH: "validate_visitListItems rec sc dup t (i + 1) ?obs xs = [] \<longleftrightarrow>
        item_keys_ok sc dup t xs \<and> (dup \<or> (\<forall>x \<in> set xs. \<not> pe_covers ?obs (item_pe sc t x))) \<and>
        (\<forall>x \<in> set xs. rec (List_ElementType t) (Some x) (Some (item_pe sc t x)) = [])"
      using Cons.prems(2,3) by (intro Cons.IH obs) auto
    show ?thesis
      using IH later Inr Cons.prems(3) pe(2) has
      by (auto simp: item_keys_ok_def list_all_iff)
  qed
qed (simp add: item_keys_ok_def)

lemma validate_visitListItems_plain:
  assumes "List_ElementRelationship t \<noteq> Associative"
    and "\<And>x p. x \<in> set xs \<Longrightarrow> rec (List_ElementType t) (Some x) p = [] \<longleftrightarrow> P x"
  shows "validate_visitListItems rec sc dup t i obs xs = [] \<longleftrightarrow> (\<forall>x \<in> set xs. P x)"
  using assms by (induction xs arbitrary: i) auto

text \<open>A value of a kind the atom does not offer is rejected whatever handler runs.\<close>

lemma handleAtom_rejects:
  assumes "\<not> is_null v" "\<not> is_float v \<and> \<not> is_int v \<and> \<not> is_string v \<and> \<not> is_bool v \<or> Atom_Scalar a = None"
    "\<not> is_list v \<or> Atom_List a = None" "\<not> is_map v \<or> Atom_Map a = None"
  shows "handleAtom (validate_doScalar (Some v)) (validate_doList R sc dup (Some v)) (validate_doMap R (Some v))
    (\<lambda>errs. errs) a tr \<noteq> []"
proof -
  have "validateScalar t (Some v) \<noteq> []" if "Atom_Scalar a = Some t" for t
    using that assms(1,2) validateScalar_iff [of v t] by (auto simp: scalar_ok_def)
  then show ?thesis
    using assms
    by (auto simp: handleAtom_def validate_doList_def validate_doMap_def listValue_def mapValue_def split: option.splits)
qed

lemma conforms_cases:
  "conforms sc dup tr v \<longleftrightarrow> (\<exists>a. Resolve sc tr = Some a \<and>
     (v = VNull \<and> a \<noteq> Atom_zero
      \<or> (\<exists>t. Atom_Scalar a = Some t \<and> scalar_ok t v)
      \<or> (\<exists>t xs. Atom_List a = Some t \<and> v = VList xs \<and>
           (List_ElementRelationship t = Associative \<longrightarrow> item_keys_ok sc dup t xs) \<and>
           (\<forall>x \<in> set xs. conforms sc dup (List_ElementType t) x))
      \<or> (\<exists>t kvs. Atom_Map a = Some t \<and> v = VMap kvs \<and>
           (\<forall>(k, x) \<in> set kvs. (FindField t k \<noteq> None \<or> Map_ElementType t \<noteq> TypeRef_zero) \<and>
             conforms sc dup (field_typeref t k) x))))"
  by (subst conforms.simps) fastforce

lemma validate_iff_conforms:
  assumes "Schema_ok m sc"
  shows "TypeRef_ok m tr \<Longrightarrow> value_ok m v \<Longrightarrow> validate sc dup tr (Some v) p = [] \<longleftrightarrow> conforms sc dup tr v"
proof (induction v arbitrary: tr p rule: measure_induct_rule [of size])
  case (less v)
  let ?R = "\<lambda>tr' x p. validate sc dup tr' x p"
  show ?case
  proof (cases "Resolve sc tr")
    case None
    then show ?thesis by (simp add: validate.simps [of sc dup tr] conforms_cases [of sc dup tr] resolveSchema_def)
  next
    case (Some a)
    have a: "Atom_ok m a" using Resolve_ok [OF assms less.prems(1) Some] .
    have val: "validate sc dup tr (Some v) p = [] \<longleftrightarrow>
        handleAtom (validate_doScalar (Some v)) (validate_doList ?R sc dup (Some v)) (validate_doMap ?R (Some v))
          (\<lambda>errs. errs) (deduceAtom a (Some v)) tr = []"
      by (simp add: validate.simps [of sc dup tr] resolveSchema_def Some)
    consider "v = VNull" | t where "is_float v \<or> is_int v \<or> is_string v \<or> is_bool v" "Atom_Scalar a = Some t"
      | xs t where "v = VList xs" "Atom_List a = Some t"
      | kvs t where "v = VMap kvs" "Atom_Map a = Some t"
      | "\<not> is_null v" "\<not> is_float v \<and> \<not> is_int v \<and> \<not> is_string v \<and> \<not> is_bool v \<or> Atom_Scalar a = None"
        "\<not> is_list v \<or> Atom_List a = None" "\<not> is_map v \<or> Atom_Map a = None"
      by (cases v) auto
    then show ?thesis
    proof cases
      case 1
      then show ?thesis
        unfolding val conforms_cases [of sc dup tr]
        by (cases a)
           (auto simp: Some Atom_zero_def deduceAtom_def handleAtom_def validate_doList_def validate_doMap_def
             listValue_def mapValue_def validateScalar_def scalar_ok_def split: option.splits)
    next
      case 2
      then have "\<not> is_null v" by (cases v) auto
      with 2 show ?thesis
        unfolding val conforms_cases [of sc dup tr]
        by (auto simp: deduceAtom_handle validateScalar_iff Some)
    next
      case (3 xs t)
      have t: "List_ok m t" using Atom_ok_List [OF a 3(2)] .
      have ok: "value_ok m x" "size x < size v" if "x \<in> set xs" for x
        using that less.prems(2) 3 by (auto simp: list_all_iff less_Suc_eq_le intro: size_list_estimation')
      have IH: "?R (List_ElementType t) (Some x) p = [] \<longleftrightarrow> conforms sc dup (List_ElementType t) x"
        if "x \<in> set xs" for x p
        using less.IH [OF ok(2) [OF that] List_ok_ElementType [OF t] ok(1) [OF that]] .
      have "validate_visitListItems ?R sc dup t 0 [] xs = [] \<longleftrightarrow>
          (List_ElementRelationship t = Associative \<longrightarrow> item_keys_ok sc dup t xs) \<and>
          (\<forall>x \<in> set xs. conforms sc dup (List_ElementType t) x)"
      proof (cases "List_ElementRelationship t = Associative")
        case True
        have "\<forall>x \<in> set xs. \<forall>pe. listItemToPathElement sc t x = Inr pe \<longrightarrow> pe_ok m pe"
          using listItemToPathElement_ok [OF assms t] ok by blast
        then show ?thesis
          using validate_visitListItems_iff [of m "[]" xs sc t ?R dup 0] True IH by simp
      next
        case False
        then show ?thesis
          using validate_visitListItems_plain [of t xs ?R "\<lambda>x. conforms sc dup (List_ElementType t) x"] IH by simp
      qed
      then show ?thesis
        unfolding val conforms_cases [of sc dup tr]
        by (simp add: Some 3 deduceAtom_handle validate_doList_def listValue_def scalar_ok_def)
    next
      case (4 kvs t)
      have t: "Map_ok m t" using Atom_ok_Map [OF a 4(2)] .
      have IH: "?R (field_typeref t k) (Some x) p = [] \<longleftrightarrow> conforms sc dup (field_typeref t k) x"
        if "(k, x) \<in> set kvs" for k x p
      proof (rule less.IH)
        show "size x < size v" using that 4 by (auto dest: in_alist_size)
        show "TypeRef_ok m (field_typeref t k)" using Map_ok_field_typeref [OF t] .
        show "value_ok m x" using that less.prems(2) 4 by (auto simp: list_all_iff)
      qed
      show ?thesis
        unfolding val conforms_cases [of sc dup tr]
        using IH
        by (auto simp: Some 4 deduceAtom_handle validate_doMap_def mapValue_def scalar_ok_def
            validate_visitMapItems_iff)
    next
      case 5
      then have "\<not> conforms sc dup tr v"
        unfolding conforms_cases [of sc dup tr] by (auto simp: Some scalar_ok_def)
      with handleAtom_rejects [OF 5] 5 show ?thesis
        unfolding val deduceAtom_handle by auto
    qed
  qed
qed

end
