(* ===== verification/To_Field_Set.thy ===== *)
theory To_Field_Set
  imports Validate
begin

text \<open>
  \<^verbatim>\<open>typed/tofieldset.go\<close>: the walker that collects the set of the fields a value mentions.  The set is
  threaded through the calls; \<open>path\<close> is the path of the value being visited.
\<close>

section \<open>The walker\<close>

type_synonym collector = "TypeRef \<Rightarrow> Value option \<Rightarrow> Path \<Rightarrow> FieldSet \<Rightarrow> ValidationErrors \<times> FieldSet"

definition toFieldSet_doScalar :: "Path \<Rightarrow> FieldSet \<Rightarrow> Scalar \<Rightarrow> ValidationErrors \<times> FieldSet" where
  "toFieldSet_doScalar path s t = ([], Set_Insert s path)"

text \<open>The first loop of \<^verbatim>\<open>visitListItems\<close>: a path element seen twice is inserted and remembered.\<close>

fun mark_duplicates ::
  "TypeDef list \<Rightarrow> SList \<Rightarrow> Path \<Rightarrow> Value list \<Rightarrow> PathElementSet \<Rightarrow> PathElementSet \<Rightarrow> FieldSet \<Rightarrow> PathElementSet \<times> FieldSet" where
  "mark_duplicates sc t path [] seen duplicates s = (duplicates, s)"
| "mark_duplicates sc t path (child # rest) seen duplicates s =
     (let pe = item_pe sc t child
      in if PathElementSet_Has seen pe then
           (if PathElementSet_Has duplicates pe then mark_duplicates sc t path rest seen duplicates s
            else mark_duplicates sc t path rest seen (PathElementSet_Insert duplicates pe) (Set_Insert s (path @ [pe])))
         else mark_duplicates sc t path rest (PathElementSet_Insert seen pe) duplicates s)"

text \<open>The second loop: the items that are not duplicates are visited and inserted.\<close>

fun collect_items ::
  "collector \<Rightarrow> TypeDef list \<Rightarrow> SList \<Rightarrow> Path \<Rightarrow> PathElementSet \<Rightarrow> Value list \<Rightarrow> FieldSet \<Rightarrow> ValidationErrors \<times> FieldSet" where
  "collect_items rec sc t path duplicates [] s = ([], s)"
| "collect_items rec sc t path duplicates (child # rest) s =
     (let pe = item_pe sc t child
      in if PathElementSet_Has duplicates pe then collect_items rec sc t path duplicates rest s
         else let (errs, s') = rec (List_ElementType t) (Some child) (path @ [pe]) s;
                  (errs', s'') = collect_items rec sc t path duplicates rest (Set_Insert s' (path @ [pe]))
              in (errs @ errs', s''))"

definition toFieldSet_visitListItems ::
  "collector \<Rightarrow> TypeDef list \<Rightarrow> SList \<Rightarrow> Path \<Rightarrow> FieldSet \<Rightarrow> Value list \<Rightarrow> ValidationErrors \<times> FieldSet" where
  "toFieldSet_visitListItems rec sc t path s lst =
     (let (duplicates, s') = mark_duplicates sc t path lst [] [] s in collect_items rec sc t path duplicates lst s')"

definition toFieldSet_doList ::
  "collector \<Rightarrow> TypeDef list \<Rightarrow> Value option \<Rightarrow> Path \<Rightarrow> FieldSet \<Rightarrow> SList \<Rightarrow> ValidationErrors \<times> FieldSet" where
  "toFieldSet_doList rec sc v path s t =
     (if v = None then (errorf Panic, s)
      else if List_ElementRelationship t = Atomic then ([], Set_Insert s path)
      else case or_nil (listValue v) of
             None \<Rightarrow> ([], s)
           | Some lst \<Rightarrow> toFieldSet_visitListItems rec sc t path s lst)"

fun toFieldSet_visitMapItems :: "collector \<Rightarrow> SMap \<Rightarrow> Path \<Rightarrow> FieldSet \<Rightarrow> GoMap \<Rightarrow> ValidationErrors \<times> FieldSet" where
  "toFieldSet_visitMapItems rec t path s [] = ([], s)"
| "toFieldSet_visitMapItems rec t path s ((key, val) # rest) =
     (let (errs, s') = rec (field_typeref t key) (Some val) (path @ [pe_field key]) s;
          s'' = (if is_null val \<or> is_map val \<and> length (AsMap val) = 0 then Set_Insert s' (path @ [pe_field key])
                 else if FindField t key = None then Set_Insert s' (path @ [pe_field key])
                 else s');
          (errs', s''') = toFieldSet_visitMapItems rec t path s'' rest
      in (errs @ errs', s'''))"

definition toFieldSet_doMap ::
  "collector \<Rightarrow> Value option \<Rightarrow> Path \<Rightarrow> FieldSet \<Rightarrow> SMap \<Rightarrow> ValidationErrors \<times> FieldSet" where
  "toFieldSet_doMap rec v path s t =
     (if Map_ElementRelationship t = Atomic then ([], Set_Insert s path)
      else case or_nil (mapValue v) of
             None \<Rightarrow> ([], s)
           | Some mp \<Rightarrow> toFieldSet_visitMapItems rec t path s mp)"

lemma collect_items_cong:
  "(\<And>x tr p s. x \<in> set xs \<Longrightarrow> f tr (Some x) p s = g tr (Some x) p s) \<Longrightarrow>
    collect_items f sc t path d xs s = collect_items g sc t path d xs s"
  by (induction xs arbitrary: s) (auto simp: Let_def split: prod.splits)

lemma toFieldSet_visitMapItems_cong:
  "(\<And>x tr p s. x \<in> snd ` set kvs \<Longrightarrow> f tr (Some x) p s = g tr (Some x) p s) \<Longrightarrow>
    toFieldSet_visitMapItems f t path s kvs = toFieldSet_visitMapItems g t path s kvs"
  by (induction kvs arbitrary: s) (auto simp: Let_def split: prod.splits)

lemma or_nil_list: "or_nil (listValue v) = Some l \<longleftrightarrow> listValue v = Inr (Some l)"
  by (auto simp: or_nil_def split: sum.splits)

lemma or_nil_map: "or_nil (mapValue v) = Some mp \<longleftrightarrow> mapValue v = Inr (Some mp)"
  by (auto simp: or_nil_def split: sum.splits)

lemma toFieldSet_doList_cong [fundef_cong]:
  assumes "sc = sc'" "v = v'" "path = path'" "s = s'" "t = t'"
    and "\<And>x tr p s. x \<in> children v' \<Longrightarrow> f tr (Some x) p s = g tr (Some x) p s"
  shows "toFieldSet_doList f sc v path s t = toFieldSet_doList g sc' v' path' s' t'"
proof -
  have "toFieldSet_visitListItems f sc' t' path' s' l = toFieldSet_visitListItems g sc' t' path' s' l"
    if "or_nil (listValue v') = Some l" for l
    unfolding toFieldSet_visitListItems_def
    using assms(6) listValue_children [of v' l] that
    by (auto simp: or_nil_list split: prod.splits intro!: collect_items_cong)
  then show ?thesis unfolding assms(1-5) toFieldSet_doList_def by (auto split: option.splits)
qed

lemma toFieldSet_doMap_cong [fundef_cong]:
  assumes "v = v'" "path = path'" "s = s'" "t = t'"
    and "\<And>x tr p s. x \<in> children v' \<Longrightarrow> f tr (Some x) p s = g tr (Some x) p s"
  shows "toFieldSet_doMap f v path s t = toFieldSet_doMap g v' path' s' t'"
proof -
  have "toFieldSet_visitMapItems f t' path' s' mp = toFieldSet_visitMapItems g t' path' s' mp"
    if "or_nil (mapValue v') = Some mp" for mp
    by (intro toFieldSet_visitMapItems_cong assms(5)) (simp only: mapValue_children [OF that [unfolded or_nil_map]])
  then show ?thesis unfolding assms(1-4) toFieldSet_doMap_def by (auto split: option.splits)
qed

function toFieldSet :: "TypeDef list \<Rightarrow> TypeRef \<Rightarrow> Value option \<Rightarrow> Path \<Rightarrow> FieldSet \<Rightarrow> ValidationErrors \<times> FieldSet" where
  "toFieldSet sc tr v path s =
     resolveSchema sc tr v
       (toFieldSet_doScalar path s)
       (toFieldSet_doList (\<lambda>tr' x p s'. toFieldSet sc tr' x p s') sc v path s)
       (toFieldSet_doMap (\<lambda>tr' x p s'. toFieldSet sc tr' x p s') v path s)
       (\<lambda>errs. (errs, s))"
  by pat_completeness auto
termination
  by (relation "measure (\<lambda>(sc, tr, v, p, s). size_opt v)") (auto dest: children_size)

declare toFieldSet.simps [simp del]

end
