(* ===== verification/Owned_Paths.thy ===== *)
theory Owned_Paths
  imports To_Field_Set
begin

text \<open>
  What \<^verbatim>\<open>ToFieldSet\<close> computes, stated without the walker's state: the list of the paths a value owns,
  relative to the value.  The walker adds exactly these paths to its set, and reports no error on a value
  that conforms to its type.
\<close>

section \<open>The owned paths of a value\<close>

definition is_duplicated :: "TypeDef list \<Rightarrow> SList \<Rightarrow> Value list \<Rightarrow> PathElement \<Rightarrow> bool" where
  "is_duplicated sc t xs pe \<longleftrightarrow> 2 \<le> length (filter (\<lambda>x. PathElement_Equals (item_pe sc t x) pe) xs)"

definition owned_list :: "(TypeRef \<Rightarrow> Value \<Rightarrow> Path list) \<Rightarrow> TypeDef list \<Rightarrow> SList \<Rightarrow> Value list \<Rightarrow> Path list" where
  "owned_list rec sc t xs =
     concat (map (\<lambda>x. let pe = item_pe sc t x
                      in (if is_duplicated sc t xs pe then [] else map ((#) pe) (rec (List_ElementType t) x)) @ [[pe]]) xs)"

definition owned_map :: "(TypeRef \<Rightarrow> Value \<Rightarrow> Path list) \<Rightarrow> SMap \<Rightarrow> GoMap \<Rightarrow> Path list" where
  "owned_map rec t kvs =
     concat (map (\<lambda>(k, x). map ((#) (pe_field k)) (rec (field_typeref t k) x)
                  @ (if is_null x \<or> x = VMap [] \<or> FindField t k = None then [[pe_field k]] else [])) kvs)"

lemma owned_list_cong [fundef_cong]:
  assumes "sc = sc'" "t = t'" "xs = xs'" and "\<And>x tr. x \<in> set xs' \<Longrightarrow> f tr x = g tr x"
  shows "owned_list f sc t xs = owned_list g sc' t' xs'"
  using assms(4) unfolding owned_list_def assms(1-3) Let_def
  by (intro arg_cong [where f = concat] map_cong refl) simp

lemma owned_map_cong [fundef_cong]:
  assumes "t = t'" "kvs = kvs'" and "\<And>k x tr. (k, x) \<in> set kvs' \<Longrightarrow> f tr x = g tr x"
  shows "owned_map f t kvs = owned_map g t' kvs'"
  using assms(3) unfolding owned_map_def assms(1,2)
  by (intro arg_cong [where f = concat] map_cong refl) auto

function owned :: "TypeDef list \<Rightarrow> TypeRef \<Rightarrow> Value \<Rightarrow> Path list" where
  "owned sc tr v =
     resolveSchema sc tr (Some v)
       (\<lambda>t. [[]])
       (\<lambda>t. if List_ElementRelationship t = Atomic then [[]]
            else if is_list v then owned_list (\<lambda>tr' x. owned sc tr' x) sc t (AsList v) else [])
       (\<lambda>t. if Map_ElementRelationship t = Atomic then [[]]
            else if is_map v then owned_map (\<lambda>tr' x. owned sc tr' x) t (AsMap v) else [])
       (\<lambda>_. [])"
  by pat_completeness auto
termination
  by (relation "measure (\<lambda>(sc, tr, v). size v)") (auto simp: AsList_size dest: AsMap_size)

declare owned.simps [simp del]

section \<open>Adding paths to a set\<close>

definition adds :: "num_mode \<Rightarrow> Path \<Rightarrow> Path set \<Rightarrow> FieldSet \<Rightarrow> FieldSet \<Rightarrow> bool" where
  "adds m path R s s' \<longleftrightarrow> Set_wf m s' \<and>
     (\<forall>q. path_ok m q \<longrightarrow> Set_Has s' q \<longleftrightarrow> Set_Has s q \<or> (\<exists>r \<in> R. path @ r \<noteq> [] \<and> Path_Equals (path @ r) q))"

lemma adds_wf: "adds m path R s s' \<Longrightarrow> Set_wf m s'"
  by (simp add: adds_def)

lemma adds_refl: "Set_wf m s \<Longrightarrow> adds m path {} s s"
  by (simp add: adds_def)

lemma adds_insert: "Set_wf m s \<Longrightarrow> path_ok m (path @ r) \<Longrightarrow> adds m path {r} s (Set_Insert s (path @ r))"
  by (auto simp: adds_def Set_Insert_wf Set_Insert_Has [of m])

lemma adds_trans: "adds m path R s t \<Longrightarrow> adds m path R' t u \<Longrightarrow> adds m path (R \<union> R') s u"
  unfolding adds_def by blast

lemma adds_prefix: "adds m (path @ [pe]) R s t \<Longrightarrow> adds m path ((#) pe ` R) s t"
  by (auto simp: adds_def)

lemma Set_Has_cong:
  assumes "Set_wf m s" "path_ok m p" "path_ok m q" "Path_Equals p q"
  shows "Set_Has s p = Set_Has s q"
proof -
  have "Path_Equals r p = Path_Equals r q" if "r \<in> set (Set_paths s)" for r
    using assms Set_paths_ok [OF assms(1) that] path.eqv_trans [of m r p q] path.eqv_trans [of m r q p]
      path.eqv_sym [of m p q] by blast
  then show ?thesis using assms by (simp add: Set_Has_paths [of m])
qed

lemma Path_Equals_snoc: "path_ok m path \<Longrightarrow> Path_Equals (path @ [x]) (path @ [y]) \<longleftrightarrow> PathElement_Equals x y"
  using path.eqv_refl [of m path] by (auto simp: Path_Equals_def)

section \<open>The loops over list items\<close>

lemma mark_duplicates_asc:
  "pe_asc m seen \<Longrightarrow> pe_asc m dups \<Longrightarrow> \<forall>x \<in> set xs. pe_ok m (item_pe sc t x) \<Longrightarrow>
    pe_asc m (fst (mark_duplicates sc t path xs seen dups s))"
proof (induction xs arbitrary: seen dups s)
  case (Cons x xs)
  have ok: "pe_ok m (item_pe sc t x)" using Cons.prems by simp
  note ins = PathElementSet_Insert_correct(1) [OF Cons.prems(1) ok] PathElementSet_Insert_correct(1) [OF Cons.prems(2) ok]
  show ?case using Cons ins by (simp add: Let_def)
qed simp

text \<open>The occurrences of a path element among the items.\<close>

abbreviation occurrences :: "TypeDef list \<Rightarrow> SList \<Rightarrow> Value list \<Rightarrow> PathElement \<Rightarrow> nat" where
  "occurrences sc t xs p \<equiv> length (filter (\<lambda>x. PathElement_Equals (item_pe sc t x) p) xs)"

lemma mark_duplicates_covers:
  "pe_asc m seen \<Longrightarrow> pe_asc m dups \<Longrightarrow> \<forall>x \<in> set xs. pe_ok m (item_pe sc t x) \<Longrightarrow> pe_ok m p \<Longrightarrow>
    pe_covers (fst (mark_duplicates sc t path xs seen dups s)) p \<longleftrightarrow>
      pe_covers dups p \<or> 1 \<le> occurrences sc t xs p \<and> pe_covers seen p \<or> 2 \<le> occurrences sc t xs p"
proof (induction xs arbitrary: seen dups s)
  case (Cons x xs)
  let ?pe = "item_pe sc t x"
  have ok: "pe_ok m ?pe" using Cons.prems by simp
  note has = PathElementSet_Has_iff [OF Cons.prems(1) ok] PathElementSet_Has_iff [OF Cons.prems(2) ok]
  note ins = PathElementSet_Insert_correct [OF Cons.prems(1) ok] PathElementSet_Insert_correct [OF Cons.prems(2) ok]
  have eq: "pe_covers seen p = pe_covers seen ?pe" "pe_covers dups p = pe_covers dups ?pe" if "PathElement_Equals ?pe p"
    using that pe.covers_cong [of m _ ?pe p] Cons.prems ok pe.eqv_iff [of m ?pe p] by auto
  consider "pe_covers seen ?pe" "pe_covers dups ?pe" | "pe_covers seen ?pe" "\<not> pe_covers dups ?pe"
    | "\<not> pe_covers seen ?pe" by blast
  then show ?case
  proof cases
    case 1
    then show ?thesis using Cons.IH [of seen dups s] Cons.prems has eq by (auto simp: Let_def)
  next
    case 2
    then show ?thesis
      using Cons.IH [of seen "PathElementSet_Insert dups ?pe" "Set_Insert s (path @ [?pe])"] Cons.prems has eq ins
      by (auto simp: Let_def)
  next
    case 3
    then show ?thesis
      using Cons.IH [of "PathElementSet_Insert seen ?pe" dups s] Cons.prems has eq ins by (auto simp: Let_def)
  qed
qed simp

lemma mark_duplicates_adds:
  "Set_wf m s \<Longrightarrow> path_ok m path \<Longrightarrow> pe_asc m seen \<Longrightarrow> pe_asc m dups \<Longrightarrow> \<forall>x \<in> set xs. pe_ok m (item_pe sc t x) \<Longrightarrow>
    (\<And>p. pe_ok m p \<Longrightarrow> pe_covers dups p \<Longrightarrow> Set_Has s (path @ [p])) \<Longrightarrow>
    mark_duplicates sc t path xs seen dups s = (D, s') \<Longrightarrow> adds m path {[p] |p. pe_ok m p \<and> pe_covers D p} s s'"
proof (induction xs arbitrary: seen dups s)
  case Nil
  then have "Set_Has s q" if "pe_ok m p" "pe_covers D p" "path_ok m q" "Path_Equals (path @ [p]) q" for p q
    using that Set_Has_cong [of m s "path @ [p]" q] by simp
  with Nil show ?case by (auto simp: adds_def)
next
  case (Cons x xs)
  let ?pe = "item_pe sc t x"
  let ?D = "{[p] |p. pe_ok m p \<and> pe_covers D p}"
  have ok: "pe_ok m ?pe" "\<forall>x \<in> set xs. pe_ok m (item_pe sc t x)" using Cons.prems by simp_all
  note has = PathElementSet_Has_iff [OF Cons.prems(3) ok(1)] PathElementSet_Has_iff [OF Cons.prems(4) ok(1)]
  note ins = PathElementSet_Insert_correct [OF Cons.prems(3) ok(1)] PathElementSet_Insert_correct [OF Cons.prems(4) ok(1)]
  show ?case
  proof (cases "pe_covers seen ?pe \<and> \<not> pe_covers dups ?pe")
    case True
    let ?s = "Set_Insert s (path @ [?pe])"
    let ?dups = "PathElementSet_Insert dups ?pe"
    have run: "mark_duplicates sc t path xs seen ?dups ?s = (D, s')" using Cons.prems(7) has True by (simp add: Let_def)
    have ins_s: "Set_wf m ?s" "Set_Has ?s q \<longleftrightarrow> Path_Equals (path @ [?pe]) q \<or> Set_Has s q" if "path_ok m q" for q
      using Cons.prems(1,2) ok that by (auto simp: Set_Insert_wf Set_Insert_Has [of m])
    have "adds m path ?D ?s s'"
    proof (rule Cons.IH [OF _ Cons.prems(2,3) ins(3) ok(2) _ run])
      show "Set_wf m ?s" using ins_s(1) [of path] Cons.prems(2) .
      fix p assume p: "pe_ok m p" "pe_covers ?dups p"
      then have "PathElement_Equals ?pe p \<or> pe_covers dups p" using ins(4) by blast
      then show "Set_Has ?s (path @ [p])"
        using ins_s(2) [of "path @ [p]"] Cons.prems(2,6) p(1) Path_Equals_snoc [OF Cons.prems(2)] by auto
    qed
    with adds_insert [of m s path "[?pe]"] Cons.prems(1,2) ok(1) have "adds m path ({[?pe]} \<union> ?D) s s'"
      using adds_trans [of m path "{[?pe]}" s ?s ?D s'] by simp
    moreover have "pe_covers D ?pe"
      using mark_duplicates_covers [OF Cons.prems(3) ins(3) ok(2) ok(1), of path ?s] run ins(4) [OF ok(1)]
        pe.eqv_refl [OF ok(1)] by simp
    then have "{[?pe]} \<union> ?D = ?D" using ok(1) by auto
    ultimately show ?thesis by simp
  next
    case False
    then obtain seen' where "pe_asc m seen'" "mark_duplicates sc t path xs seen' dups s = (D, s')"
      using Cons.prems(3,7) has ins(1) by (auto simp: Let_def split: if_splits)
    then show ?thesis using Cons.IH [of s seen' dups] Cons.prems(1,2,4,6) ok(2) by blast
  qed
qed

lemma adds_eqv:
  assumes "adds m path R s t" "path_ok m path"
    and "\<And>r. r \<in> R \<Longrightarrow> path_ok m r \<and> (\<exists>r' \<in> R'. path_ok m r' \<and> Path_Equals r' r)"
    and "\<And>r. r \<in> R' \<Longrightarrow> path_ok m r \<and> (\<exists>r' \<in> R. path_ok m r' \<and> Path_Equals r' r)"
  shows "adds m path R' s t"
proof -
  have "path @ r' \<noteq> [] \<and> Path_Equals (path @ r') q"
    if "path @ r \<noteq> []" "Path_Equals (path @ r) q" "path_ok m r" "path_ok m r'" "Path_Equals r' r" "path_ok m q" for r r' q
  proof -
    have "length r' = length r" using that(5) by (auto simp: Path_Equals_def split: if_splits)
    then have "Path_Equals (path @ r') (path @ r)"
      using path.eqv_refl [OF assms(2)] that(5) by (auto simp: Path_Equals_def)
    then have "Path_Equals (path @ r') q"
      using that assms(2) path.eqv_trans [of m "path @ r'" "path @ r" q] by simp
    with that(1) \<open>length r' = length r\<close> show ?thesis by auto
  qed
  then have "(\<exists>r \<in> R. path @ r \<noteq> [] \<and> Path_Equals (path @ r) q) \<longleftrightarrow> (\<exists>r \<in> R'. path @ r \<noteq> [] \<and> Path_Equals (path @ r) q)"
    if "path_ok m q" for q
    using that assms(3,4) by meson
  with assms(1) show ?thesis by (simp add: adds_def)
qed

lemma collect_items_adds:
  assumes "path_ok m path"
    and "\<And>x path s. x \<in> set xs \<Longrightarrow> path_ok m path \<Longrightarrow> Set_wf m s \<Longrightarrow>
      adds m path (set (own x)) s (snd (rec (List_ElementType t) (Some x) path s))"
    and "\<forall>x \<in> set xs. pe_ok m (item_pe sc t x)"
  shows "Set_wf m s \<Longrightarrow>
    adds m path (\<Union>x \<in> {x \<in> set xs. \<not> PathElementSet_Has D (item_pe sc t x)}. insert [item_pe sc t x] ((#) (item_pe sc t x) ` set (own x)))
      s (snd (collect_items rec sc t path D xs s))"
  using assms(2,3)
proof (induction xs arbitrary: s)
  case Nil
  then show ?case by (simp add: adds_refl)
next
  case (Cons x xs)
  let ?pe = "item_pe sc t x"
  let ?P = "\<lambda>xs. \<Union>x \<in> {x \<in> set xs. \<not> PathElementSet_Has D (item_pe sc t x)}. insert [item_pe sc t x] ((#) (item_pe sc t x) ` set (own x))"
  show ?case
  proof (cases "PathElementSet_Has D ?pe")
    case True
    then have "?P (x # xs) = ?P xs" by auto
    then show ?thesis using Cons.IH [of s] Cons.prems True by (simp add: Let_def)
  next
    case False
    let ?s1 = "snd (rec (List_ElementType t) (Some x) (path @ [?pe]) s)"
    let ?s2 = "Set_Insert ?s1 (path @ [?pe])"
    have ok: "path_ok m (path @ [?pe])" using assms(1) Cons.prems(3) by simp
    have 1: "adds m path ((#) ?pe ` set (own x)) s ?s1" using Cons.prems(1,2) ok by (intro adds_prefix) auto
    have 2: "adds m path {[?pe]} ?s1 ?s2" using adds_insert [OF adds_wf [OF 1], of path "[?pe]"] ok by simp
    have 3: "adds m path (?P xs) ?s2 (snd (collect_items rec sc t path D xs ?s2))"
      using Cons.IH [OF adds_wf [OF 2]] Cons.prems by simp
    have "?P (x # xs) = (((#) ?pe ` set (own x)) \<union> {[?pe]}) \<union> ?P xs" using False by auto
    moreover have "snd (collect_items rec sc t path D (x # xs) s) = snd (collect_items rec sc t path D xs ?s2)"
      using False by (simp add: Let_def split_beta)
    ultimately show ?thesis using adds_trans [OF adds_trans [OF 1 2] 3] by simp
  qed
qed

lemma toFieldSet_visitListItems_adds:
  assumes "path_ok m path" "Set_wf m s" "\<forall>x \<in> set xs. pe_ok m (item_pe sc t x)"
    and "\<And>x path s. x \<in> set xs \<Longrightarrow> path_ok m path \<Longrightarrow> Set_wf m s \<Longrightarrow>
      adds m path (set (own (List_ElementType t) x)) s (snd (rec (List_ElementType t) (Some x) path s))"
    and "\<And>x. x \<in> set xs \<Longrightarrow> list_all (path_ok m) (own (List_ElementType t) x)"
  shows "adds m path (set (owned_list own sc t xs)) s (snd (toFieldSet_visitListItems rec sc t path s xs))"
proof -
  obtain D s1 where run: "mark_duplicates sc t path xs [] [] s = (D, s1)" by fastforce
  have D: "pe_asc m D" "pe_ok m p \<Longrightarrow> pe_covers D p \<longleftrightarrow> is_duplicated sc t xs p" for p
    using mark_duplicates_asc [of m "[]" "[]" xs sc t path s] mark_duplicates_covers [of m "[]" "[]" xs sc t p path s]
      assms(3) run by (auto simp: is_duplicated_def)
  let ?items = "\<Union>x \<in> {x \<in> set xs. \<not> PathElementSet_Has D (item_pe sc t x)}.
      insert [item_pe sc t x] ((#) (item_pe sc t x) ` set (own (List_ElementType t) x))"
  have marked: "adds m path {[p] |p. pe_ok m p \<and> pe_covers D p} s s1"
    using mark_duplicates_adds [OF assms(2,1), of "[]" "[]" xs sc t D s1] run assms(3) by simp
  have "adds m path ?items s1 (snd (collect_items rec sc t path D xs s1))"
    using assms(4) by (intro collect_items_adds [OF assms(1) _ assms(3) adds_wf [OF marked]]) blast
  with marked have "adds m path ({[p] |p. pe_ok m p \<and> pe_covers D p} \<union> ?items) s (snd (collect_items rec sc t path D xs s1))"
    by (rule adds_trans)
  then have "adds m path (set (owned_list own sc t xs)) s (snd (collect_items rec sc t path D xs s1))"
  proof (rule adds_eqv [OF _ assms(1)], goal_cases)
    case (1 r)
    then consider p where "r = [p]" "pe_ok m p" "is_duplicated sc t xs p"
      | x where "x \<in> set xs" "\<not> is_duplicated sc t xs (item_pe sc t x)"
        "r = [item_pe sc t x] \<or> r \<in> (#) (item_pe sc t x) ` set (own (List_ElementType t) x)"
      using D PathElementSet_Has_iff [OF D(1)] assms(3) by auto
    then show ?case
    proof cases
      case 1
      then obtain x where x: "x \<in> set xs" "PathElement_Equals (item_pe sc t x) p"
        unfolding is_duplicated_def by (metis (mono_tags, lifting) filter_False list.size(3) not_numeral_le_zero)
      then have "[item_pe sc t x] \<in> set (owned_list own sc t xs)" by (auto simp: owned_list_def Let_def)
      with 1 x assms(3) show ?thesis by (intro conjI bexI [of _ "[item_pe sc t x]"]) auto
    next
      case 2
      then have "path_ok m r" using assms(3,5) by (auto simp: list_all_iff [of "path_ok m"])
      moreover have "r \<in> set (owned_list own sc t xs)" using 2 by (auto simp: owned_list_def Let_def)
      ultimately show ?thesis using path.eqv_refl by blast
    qed
  next
    case (2 r)
    then obtain x where x: "x \<in> set xs"
      "r = [item_pe sc t x] \<or> \<not> is_duplicated sc t xs (item_pe sc t x) \<and> r \<in> (#) (item_pe sc t x) ` set (own (List_ElementType t) x)"
      by (auto simp: owned_list_def Let_def split: if_splits)
    then have "path_ok m r" using assms(3,5) by (auto simp: list_all_iff [of "path_ok m"])
    moreover have "r \<in> {[p] |p. pe_ok m p \<and> pe_covers D p} \<union> (\<Union>x \<in> {x \<in> set xs. \<not> PathElementSet_Has D (item_pe sc t x)}.
        insert [item_pe sc t x] ((#) (item_pe sc t x) ` set (own (List_ElementType t) x)))"
      using x D PathElementSet_Has_iff [OF D(1)] assms(3) by auto
    ultimately show ?case using path.eqv_refl by blast
  qed
  then show ?thesis by (simp add: toFieldSet_visitListItems_def run)
qed

section \<open>Maps, and the whole walk\<close>

lemma toFieldSet_visitMapItems_adds:
  assumes "path_ok m path"
    and "\<And>k x path s. (k, x) \<in> set kvs \<Longrightarrow> path_ok m path \<Longrightarrow> Set_wf m s \<Longrightarrow>
      adds m path (set (own (field_typeref t k) x)) s (snd (rec (field_typeref t k) (Some x) path s))"
  shows "Set_wf m s \<Longrightarrow> adds m path (set (owned_map own t kvs)) s (snd (toFieldSet_visitMapItems rec t path s kvs))"
  using assms(2)
proof (induction kvs arbitrary: s)
  case Nil
  then show ?case by (simp add: adds_refl owned_map_def)
next
  case (Cons kx kvs)
  obtain k x where kx: "kx = (k, x)" by (cases kx)
  let ?pe = "pe_field k"
  let ?leaf = "is_null x \<or> x = VMap [] \<or> FindField t k = None"
  let ?s1 = "snd (rec (field_typeref t k) (Some x) (path @ [?pe]) s)"
  let ?s2 = "if ?leaf then Set_Insert ?s1 (path @ [?pe]) else ?s1"
  have ok: "path_ok m (path @ [?pe])" using assms(1) by simp
  have 1: "adds m path ((#) ?pe ` set (own (field_typeref t k) x)) s ?s1"
    using Cons.prems ok kx by (intro adds_prefix) auto
  have 2: "adds m path (if ?leaf then {[?pe]} else {}) ?s1 ?s2"
    using adds_insert [OF adds_wf [OF 1], of path "[?pe]"] adds_refl [OF adds_wf [OF 1]] ok by simp
  have 3: "adds m path (set (owned_map own t kvs)) ?s2 (snd (toFieldSet_visitMapItems rec t path ?s2 kvs))"
    using Cons.IH [OF adds_wf [OF 2]] Cons.prems by simp
  have empty: "is_map x \<and> AsMap x = [] \<longleftrightarrow> x = VMap []" by (cases x) auto
  have "snd (toFieldSet_visitMapItems rec t path s (kx # kvs)) = snd (toFieldSet_visitMapItems rec t path ?s2 kvs)"
    by (auto simp: kx Let_def split_beta empty)
  moreover have "set (owned_map own t (kx # kvs)) =
      ((#) ?pe ` set (own (field_typeref t k) x) \<union> (if ?leaf then {[?pe]} else {})) \<union> set (owned_map own t kvs)"
    by (auto simp: owned_map_def kx)
  ultimately show ?case using adds_trans [OF adds_trans [OF 1 2] 3] by simp
qed

text \<open>A fact about all four outcomes of \<^verbatim>\<open>resolveSchema\<close>, with the same handler chosen on both sides.\<close>

lemma resolveSchema_rel:
  assumes "Schema_ok m sc" "TypeRef_ok m tr"
    and "\<And>t. P (ds t) (ds' t)" "\<And>t. List_ok m t \<Longrightarrow> P (dl t) (dl' t)" "\<And>t. Map_ok m t \<Longrightarrow> P (dm t) (dm' t)"
    "\<And>e. P (f e) (f' e)"
  shows "P (resolveSchema sc tr v ds dl dm f) (resolveSchema sc tr v ds' dl' dm' f')"
proof (cases "Resolve sc tr")
  case None
  then show ?thesis using assms(6) by (simp add: resolveSchema_def)
next
  case (Some a)
  have "Atom_ok m (deduceAtom a v)" using deduceAtom_ok [OF Resolve_ok [OF assms(1,2) Some]] .
  then show ?thesis
    using assms(3-6) Atom_ok_List [of m "deduceAtom a v"] Atom_ok_Map [of m "deduceAtom a v"]
    by (simp add: resolveSchema_def Some handleAtom_def split: option.splits)
qed

lemma owned_ok:
  assumes "Schema_ok m sc"
  shows "TypeRef_ok m tr \<Longrightarrow> value_ok m v \<Longrightarrow> list_all (path_ok m) (owned sc tr v)"
proof (induction v arbitrary: tr rule: measure_induct_rule [of size])
  case (less v)
  let ?O = "\<lambda>tr' x. owned sc tr' x"
  have lst: "list_all (path_ok m) (owned_list ?O sc t xs)" if "List_ok m t" "v = VList xs" for t xs
  proof -
    have "list_all (path_ok m) (owned sc (List_ElementType t) x) \<and> pe_ok m (item_pe sc t x)" if "x \<in> set xs" for x
    proof -
      have x: "size x < size v" "value_ok m x"
        using that \<open>v = VList xs\<close> less.prems(2) by (auto simp: list_all_iff less_Suc_eq_le intro: size_list_estimation')
      then show ?thesis using less.IH [OF x(1) List_ok_ElementType [OF \<open>List_ok m t\<close>]] item_pe_ok [OF assms \<open>List_ok m t\<close>] by blast
    qed
    then show ?thesis by (auto simp: owned_list_def Let_def list_all_iff [of "path_ok m"])
  qed
  have mp: "list_all (path_ok m) (owned_map ?O t kvs)" if "Map_ok m t" "v = VMap kvs" for t kvs
  proof -
    have "list_all (path_ok m) (owned sc (field_typeref t k) x)" if "(k, x) \<in> set kvs" for k x
    proof (rule less.IH)
      show "size x < size v" "value_ok m x"
        using that \<open>v = VMap kvs\<close> less.prems(2) by (auto simp: list_all_iff dest: in_alist_size)
      show "TypeRef_ok m (field_typeref t k)" using Map_ok_field_typeref [OF \<open>Map_ok m t\<close>] .
    qed
    then show ?thesis by (auto simp: owned_map_def list_all_iff [of "path_ok m"])
  qed
  show ?case
    unfolding owned.simps [of sc tr]
    by (rule resolveSchema_rel [OF assms less.prems(1), where P = "\<lambda>x _. list_all (path_ok m) x"])
       (use lst mp in \<open>cases v; auto\<close>)+
qed

theorem toFieldSet_adds:
  assumes "Schema_ok m sc"
  shows "TypeRef_ok m tr \<Longrightarrow> value_ok m v \<Longrightarrow> path_ok m path \<Longrightarrow> Set_wf m s \<Longrightarrow>
    adds m path (set (owned sc tr v)) s (snd (toFieldSet sc tr (Some v) path s))"
proof (induction v arbitrary: tr path s rule: measure_induct_rule [of size])
  case (less v)
  let ?R = "\<lambda>tr' x p s'. toFieldSet sc tr' x p s'"
  let ?O = "\<lambda>tr' x. owned sc tr' x"
  have leaf: "adds m path {[]} s (Set_Insert s path)" using adds_insert [OF less.prems(4), of path "[]"] less.prems(3) by simp
  have lst: "adds m path (set (owned_list ?O sc t xs)) s (snd (toFieldSet_visitListItems ?R sc t path s xs))"
    if "List_ok m t" "v = VList xs" for t xs
  proof (rule toFieldSet_visitListItems_adds [OF less.prems(3,4)])
    have x: "size x < size v \<and> value_ok m x" if "x \<in> set xs" for x
      using that \<open>v = VList xs\<close> less.prems(2) by (auto simp: list_all_iff less_Suc_eq_le intro: size_list_estimation')
    show "\<forall>x \<in> set xs. pe_ok m (item_pe sc t x)" using x item_pe_ok [OF assms that(1)] by blast
    show "list_all (path_ok m) (owned sc (List_ElementType t) x)" if "x \<in> set xs" for x
      using x [OF that] owned_ok [OF assms List_ok_ElementType [OF \<open>List_ok m t\<close>]] by blast
    show "adds m p (set (owned sc (List_ElementType t) x)) s' (snd (toFieldSet sc (List_ElementType t) (Some x) p s'))"
      if "x \<in> set xs" "path_ok m p" "Set_wf m s'" for x p s'
      using x [OF that(1)] less.IH [of x] List_ok_ElementType [OF \<open>List_ok m t\<close>] that by blast
  qed
  have mp: "adds m path (set (owned_map ?O t kvs)) s (snd (toFieldSet_visitMapItems ?R t path s kvs))"
    if "Map_ok m t" "v = VMap kvs" for t kvs
  proof (rule toFieldSet_visitMapItems_adds [OF less.prems(3) _ less.prems(4)])
    fix k x p s' assume a: "(k, x) \<in> set kvs" "path_ok m p" "Set_wf m s'"
    then have "size x < size v" "value_ok m x"
      using \<open>v = VMap kvs\<close> less.prems(2) by (auto simp: list_all_iff dest: in_alist_size)
    with a show "adds m p (set (owned sc (field_typeref t k) x)) s' (snd (toFieldSet sc (field_typeref t k) (Some x) p s'))"
      using less.IH Map_ok_field_typeref [OF \<open>Map_ok m t\<close>] by blast
  qed
  show ?case
    unfolding owned.simps [of sc tr] toFieldSet.simps [of sc tr]
  proof (rule resolveSchema_rel [OF assms less.prems(1), where P = "\<lambda>r w. adds m path (set r) s (snd w)"], goal_cases)
    case 1
    then show ?case using leaf by (simp add: toFieldSet_doScalar_def)
  next
    case (2 t)
    then show ?case
      using lst leaf adds_refl [OF less.prems(4)]
      by (cases v) (auto simp: toFieldSet_doList_def listValue_def or_nil_def)
  next
    case (3 t)
    then show ?case
      using mp leaf adds_refl [OF less.prems(4)]
      by (cases v) (auto simp: toFieldSet_doMap_def mapValue_def or_nil_def)
  next
    case (4 e)
    then show ?case using adds_refl [OF less.prems(4)] by simp
  qed
qed

section \<open>No errors on values that conform\<close>

lemma collect_items_no_errors:
  "(\<And>x p s. x \<in> set xs \<Longrightarrow> fst (rec (List_ElementType t) (Some x) p s) = []) \<Longrightarrow>
    fst (collect_items rec sc t path D xs s) = []"
  by (induction xs arbitrary: s) (auto simp: Let_def split_beta)

lemma toFieldSet_visitMapItems_no_errors:
  "(\<And>k x p s. (k, x) \<in> set kvs \<Longrightarrow> fst (rec (field_typeref t k) (Some x) p s) = []) \<Longrightarrow>
    fst (toFieldSet_visitMapItems rec t path s kvs) = []"
proof (induction kvs arbitrary: s)
  case (Cons kx kvs)
  then show ?case by (cases kx) (auto simp: Let_def split_beta)
qed simp

lemma toFieldSet_no_errors:
  "conforms sc dup tr v \<Longrightarrow> fst (toFieldSet sc tr (Some v) path s) = []"
proof (induction arbitrary: path s rule: conforms.induct)
  case (conforms_null tr a)
  then show ?case
    by (cases a) (auto simp: toFieldSet.simps [of sc tr] resolveSchema_def deduceAtom_def handleAtom_def Atom_zero_def
        toFieldSet_doScalar_def toFieldSet_doList_def toFieldSet_doMap_def listValue_def mapValue_def or_nil_def
        split: option.splits)
next
  case (conforms_scalar tr a t v)
  then have "is_float v \<or> is_int v \<or> is_string v \<or> is_bool v" by (auto simp: scalar_ok_def)
  with conforms_scalar show ?case
    by (simp add: toFieldSet.simps [of sc tr] resolveSchema_def deduceAtom_handle toFieldSet_doScalar_def)
next
  case (conforms_list tr a t xs)
  then have "fst (toFieldSet_visitListItems (\<lambda>tr' x p s'. toFieldSet sc tr' x p s') sc t path s xs) = []"
    by (simp add: toFieldSet_visitListItems_def split_beta collect_items_no_errors)
  with conforms_list.hyps show ?case
    by (simp add: toFieldSet.simps [of sc tr] resolveSchema_def deduceAtom_handle toFieldSet_doList_def
        listValue_def or_nil_def)
next
  case (conforms_map tr a t kvs)
  then have "fst (toFieldSet_visitMapItems (\<lambda>tr' x p s'. toFieldSet sc tr' x p s') t path s kvs) = []"
    by (intro toFieldSet_visitMapItems_no_errors) blast
  with conforms_map.hyps show ?case
    by (simp add: toFieldSet.simps [of sc tr] resolveSchema_def deduceAtom_handle toFieldSet_doMap_def
        mapValue_def or_nil_def)
qed

end
