(* ===== verification/Remove_Items.thy ===== *)
theory Remove_Items
  imports Owned_Paths
begin

text \<open>
  \<^verbatim>\<open>typed/remove.go\<close>: removing the items of a set from a value, or extracting them.  The walker's output
  starts as \<^verbatim>\<open>nil\<close>, the null value, and errors are ignored.
\<close>

section \<open>The walker\<close>

type_synonym remover = "Value \<Rightarrow> FieldSet \<Rightarrow> TypeRef \<Rightarrow> Value"

text \<open>The loop of \<^verbatim>\<open>doList\<close>, over the remaining items.\<close>

fun remove_list_items :: "remover \<Rightarrow> TypeDef list \<Rightarrow> SList \<Rightarrow> FieldSet \<Rightarrow> bool \<Rightarrow> Value list \<Rightarrow> Value list" where
  "remove_list_items rec sc t toRemove shouldExtract [] = []"
| "remove_list_items rec sc t toRemove shouldExtract (item # rest) =
     (let pe = item_pe sc t item;
          newItems = remove_list_items rec sc t toRemove shouldExtract rest;
          subset = Set_WithPrefix toRemove pe;
          keep = (if \<not> Set_Empty subset then [rec item subset (List_ElementType t)]
                  else if shouldExtract then [] else [item])
      in if Set_Has toRemove [pe] then
           (if shouldExtract then rec item toRemove (List_ElementType t) # keep @ newItems else newItems)
         else keep @ newItems)"

definition remove_doList :: "remover \<Rightarrow> TypeDef list \<Rightarrow> Value \<Rightarrow> FieldSet \<Rightarrow> bool \<Rightarrow> SList \<Rightarrow> Value" where
  "remove_doList rec sc v toRemove shouldExtract t =
     (if \<not> is_list v then VNull
      else if length (AsList v) = 0 then VNull
      else if List_ElementRelationship t = Atomic then (if shouldExtract then v else VNull)
      else let newItems = remove_list_items rec sc t toRemove shouldExtract (AsList v)
           in if length newItems > 0 then VList newItems else VNull)"

text \<open>The callback of \<^verbatim>\<open>doMap\<close> on each entry.\<close>

fun remove_map_items :: "remover \<Rightarrow> SMap \<Rightarrow> FieldSet \<Rightarrow> bool \<Rightarrow> GoMap \<Rightarrow> GoMap" where
  "remove_map_items rec t toRemove shouldExtract [] = []"
| "remove_map_items rec t toRemove shouldExtract ((k, val) # rest) =
     (let pe = pe_field k;
          newMap = remove_map_items rec t toRemove shouldExtract rest;
          subset = Set_WithPrefix toRemove pe
      in if Set_Has toRemove [pe] then
           (if shouldExtract then (k, rec val toRemove (field_typeref t k)) # newMap else newMap)
         else if \<not> Set_Empty subset then (k, rec val subset (field_typeref t k)) # newMap
         else if shouldExtract then newMap
         else (k, val) # newMap)"

definition remove_doMap :: "remover \<Rightarrow> Value \<Rightarrow> FieldSet \<Rightarrow> bool \<Rightarrow> SMap \<Rightarrow> Value" where
  "remove_doMap rec v toRemove shouldExtract t =
     (if \<not> is_map v then VNull
      else if length (AsMap v) = 0 then VNull
      else if Map_ElementRelationship t = Atomic then (if shouldExtract then v else VNull)
      else let newMap = remove_map_items rec t toRemove shouldExtract (AsMap v)
           in if length newMap > 0 then VMap newMap else VNull)"

lemma remove_list_items_cong:
  "(\<And>x s tr. x \<in> set xs \<Longrightarrow> f x s tr = g x s tr) \<Longrightarrow> remove_list_items f sc t r e xs = remove_list_items g sc t r e xs"
  by (induction xs) (auto simp: Let_def)

lemma remove_map_items_cong:
  "(\<And>x s tr. x \<in> snd ` set kvs \<Longrightarrow> f x s tr = g x s tr) \<Longrightarrow> remove_map_items f t r e kvs = remove_map_items g t r e kvs"
  by (induction kvs) (auto simp: Let_def)

lemma remove_doList_cong [fundef_cong]:
  assumes "sc = sc'" "v = v'" "r = r'" "e = e'" "t = t'"
    and "\<And>x s tr. x \<in> children (Some v') \<Longrightarrow> f x s tr = g x s tr"
  shows "remove_doList f sc v r e t = remove_doList g sc' v' r' e' t'"
proof -
  have "remove_list_items f sc' t' r' e' (AsList v') = remove_list_items g sc' t' r' e' (AsList v')" if "is_list v'"
    using that assms(6) by (intro remove_list_items_cong) (auto simp: children_def)
  then show ?thesis unfolding assms(1-5) remove_doList_def by simp
qed

lemma remove_doMap_cong [fundef_cong]:
  assumes "v = v'" "r = r'" "e = e'" "t = t'"
    and "\<And>x s tr. x \<in> children (Some v') \<Longrightarrow> f x s tr = g x s tr"
  shows "remove_doMap f v r e t = remove_doMap g v' r' e' t'"
proof -
  have "remove_map_items f t' r' e' (AsMap v') = remove_map_items g t' r' e' (AsMap v')" if "is_map v'"
    by (intro remove_map_items_cong assms(5)) (use that in \<open>cases v'; auto simp: children_def\<close>)
  then show ?thesis unfolding assms(1-4) remove_doMap_def by simp
qed

function removeItemsWithSchema :: "TypeDef list \<Rightarrow> bool \<Rightarrow> Value \<Rightarrow> FieldSet \<Rightarrow> TypeRef \<Rightarrow> Value" where
  "removeItemsWithSchema sc shouldExtract val toRemove tr =
     resolveSchema sc tr (Some val)
       (\<lambda>t. val)
       (remove_doList (\<lambda>x s tr'. removeItemsWithSchema sc shouldExtract x s tr') sc val toRemove shouldExtract)
       (remove_doMap (\<lambda>x s tr'. removeItemsWithSchema sc shouldExtract x s tr') val toRemove shouldExtract)
       (\<lambda>errs. VNull)"
  by pat_completeness auto
termination
  by (relation "measure (\<lambda>(sc, e, v, s, tr). size v)") (auto dest: children_size)

declare removeItemsWithSchema.simps [simp del]

section \<open>What remains, path by path\<close>

text \<open>The value at a path of struct fields, and the set of the paths below it.\<close>

fun lookup_fields :: "Value \<Rightarrow> string list \<Rightarrow> Value option" where
  "lookup_fields v [] = Some v"
| "lookup_fields v (k # ks) =
     (if is_map v then (case map_of (AsMap v) k of None \<Rightarrow> None | Some x \<Rightarrow> lookup_fields x ks) else None)"

fun granular_type :: "TypeDef list \<Rightarrow> TypeRef \<Rightarrow> string list \<Rightarrow> TypeRef option" where
  "granular_type sc tr [] = Some tr"
| "granular_type sc tr (k # ks) =
     (case Resolve sc tr of
        None \<Rightarrow> None
      | Some a \<Rightarrow> (case Atom_Map a of
          None \<Rightarrow> None
        | Some t \<Rightarrow> if Map_ElementRelationship t = Atomic then None else granular_type sc (field_typeref t k) ks))"

definition below :: "FieldSet \<Rightarrow> string list \<Rightarrow> FieldSet" where
  "below s ks = foldl (\<lambda>s k. Set_WithPrefix s (pe_field k)) s ks"

lemma remove_map_items_map_of:
  assumes "distinct (map fst kvs)"
  shows "map_of (remove_map_items rec t s False kvs) k =
    (case map_of kvs k of
       None \<Rightarrow> None
     | Some x \<Rightarrow>
         if Set_Has s [pe_field k] then None
         else if Set_Empty (Set_WithPrefix s (pe_field k)) then Some x
         else Some (rec x (Set_WithPrefix s (pe_field k)) (field_typeref t k)))"
  using assms
proof (induction kvs)
  case (Cons kx kvs)
  then have "map_of kvs (fst kx) = None" by (simp add: map_of_eq_None_iff)
  with Cons show ?case by (cases kx) (auto simp: Let_def split: option.splits)
qed simp

lemma remove_map_value:
  assumes "Resolve sc tr = Some a" "Atom_Map a = Some t" "Map_ElementRelationship t \<noteq> Atomic" "value_ok m (VMap kvs)"
  shows "lookup_fields (removeItemsWithSchema sc False (VMap kvs) s tr) (k # ks) =
    (case map_of kvs k of
       None \<Rightarrow> None
     | Some x \<Rightarrow>
         if Set_Has s [pe_field k] then None
         else if Set_Empty (Set_WithPrefix s (pe_field k)) then lookup_fields x ks
         else lookup_fields (removeItemsWithSchema sc False x (Set_WithPrefix s (pe_field k)) (field_typeref t k)) ks)"
proof -
  let ?R = "\<lambda>x s tr'. removeItemsWithSchema sc False x s tr'"
  let ?new = "remove_map_items ?R t s False kvs"
  have new: "map_of ?new k = (case map_of kvs k of None \<Rightarrow> None
     | Some x \<Rightarrow> if Set_Has s [pe_field k] then None
         else if Set_Empty (Set_WithPrefix s (pe_field k)) then Some x
         else Some (?R x (Set_WithPrefix s (pe_field k)) (field_typeref t k)))"
    using assms(4) by (intro remove_map_items_map_of) simp
  have "removeItemsWithSchema sc False (VMap kvs) s tr = (if kvs = [] \<or> ?new = [] then VNull else VMap ?new)"
    using assms(1-3)
    by (auto simp: removeItemsWithSchema.simps [of sc False "VMap kvs"] resolveSchema_def deduceAtom_handle
        remove_doMap_def Let_def)
  then show ?thesis using new by (auto split: option.splits if_splits)
qed

lemma Set_covers_WithPrefix:
  assumes "Set_wf m s" "pe_ok m pe"
  shows "Set_covers s (pe # p) \<longleftrightarrow> Set_Has s [pe] \<or> Set_covers (Set_WithPrefix s pe) p"
proof -
  obtain ms cs where s: "s = MkSet ms cs" by (cases s)
  have asc: "pe_asc m ms" "pe_asc m (map fst cs)" using assms(1) s by simp_all
  have "Set_covers (MkSet [] []) p = False" for p by (simp add: Set_covers_def)
  then show ?thesis
    using assms asc
    by (auto simp: s Set_covers_Cons [OF asc] Set_WithPrefix_def SetNodeMap_Get_assoc [of m] NewSet_def
        PathElementSet_Has_iff [of m] split: option.splits)
qed

lemma empty_below:
  assumes "Set_wf m s" "Set_Empty s"
  shows "below s ks = MkSet [] []" "\<not> Set_covers s p"
proof -
  have s: "s = MkSet [] []" using assms by (simp add: Set_Empty_wf)
  have "Set_WithPrefix (MkSet [] []) pe = MkSet [] []" for pe
    by (simp add: Set_WithPrefix_def SetNodeMap_Get_def pe_search_def sort_Search_def sort_Search_loop.simps NewSet_def)
  then show "below s ks = MkSet [] []" unfolding s below_def by (induction ks) auto
  show "\<not> Set_covers s p" unfolding s Set_covers_def by simp
qed

lemma remove_not_map: "\<not> is_map v \<Longrightarrow> \<not> is_map (removeItemsWithSchema sc e v s tr)"
  by (auto simp: removeItemsWithSchema.simps [of sc e v] resolveSchema_def handleAtom_def remove_doList_def
      remove_doMap_def Let_def split: option.splits)

lemma remove_lookup:
  "Set_wf m s \<Longrightarrow> value_ok m v \<Longrightarrow> granular_type sc tr (k # ks) = Some tr' \<Longrightarrow>
    lookup_fields (removeItemsWithSchema sc False v s tr) (k # ks) =
      (if Set_covers s (map pe_field (k # ks)) then None
       else map_option (\<lambda>x. if Set_Empty (below s (k # ks)) then x
                            else removeItemsWithSchema sc False x (below s (k # ks)) tr') (lookup_fields v (k # ks)))"
proof (induction ks arbitrary: k s v tr)
  case Nil
  then obtain a t where t: "Resolve sc tr = Some a" "Atom_Map a = Some t" "Map_ElementRelationship t \<noteq> Atomic"
    "tr' = field_typeref t k"
    by (auto split: option.splits if_splits)
  show ?case
  proof (cases v)
    case (VMap kvs)
    with Nil have "Set_covers s [pe_field k] \<longleftrightarrow> Set_Has s [pe_field k]" by (simp add: Set_covers_WithPrefix)
    with VMap Nil.prems(2) show ?thesis
      by (subst VMap, subst remove_map_value [OF t(1-3)]) (auto simp: t(4) below_def split: option.splits)
  qed (use remove_not_map [of v sc False s tr] in auto)
next
  case (Cons k' ks)
  then obtain a t where t: "Resolve sc tr = Some a" "Atom_Map a = Some t" "Map_ElementRelationship t \<noteq> Atomic"
    "granular_type sc (field_typeref t k) (k' # ks) = Some tr'"
    by (auto split: option.splits if_splits)
  let ?sub = "Set_WithPrefix s (pe_field k)"
  have sub: "Set_wf m ?sub" using Set_WithPrefix_wf [OF Cons.prems(1)] by simp
  have covers: "Set_covers s (map pe_field (k # k' # ks)) \<longleftrightarrow> Set_Has s [pe_field k] \<or> Set_covers ?sub (map pe_field (k' # ks))"
    using Set_covers_WithPrefix [OF Cons.prems(1)] by simp
  have below: "below s (k # k' # ks) = below ?sub (k' # ks)" by (simp add: below_def)
  show ?case
  proof (cases v)
    case (VMap kvs)
    show ?thesis
    proof (cases "map_of kvs k")
      case None
      then show ?thesis using Cons.prems(2) VMap by (subst VMap, subst remove_map_value [OF t(1-3)]) auto
    next
      case (Some x)
      have "value_ok m x" using value_ok_map_of [OF Cons.prems(2) [unfolded VMap] Some] .
      note IH = Cons.IH [OF sub this t(4)]
      have "lookup_fields v (k # k' # ks) = lookup_fields x (k' # ks)" using VMap Some by simp
      moreover have "lookup_fields (removeItemsWithSchema sc False v s tr) (k # k' # ks) =
          (if Set_Has s [pe_field k] then None else if Set_Empty ?sub then lookup_fields x (k' # ks)
           else lookup_fields (removeItemsWithSchema sc False x ?sub (field_typeref t k)) (k' # ks))"
        using remove_map_value [OF t(1-3) Cons.prems(2) [unfolded VMap], of s k "k' # ks"] Some
        by (simp only: VMap option.case)
      ultimately show ?thesis
        unfolding covers below using IH empty_below [OF sub]
        by (cases "Set_Empty ?sub") (simp_all del: lookup_fields.simps add: option.map_ident PathElementSet_Size_def)
    qed
  qed (use remove_not_map [of v sc False s tr] in auto)
qed

text \<open>Removal from a list keeps the order of the remaining items.\<close>

lemma remove_list_items_filter:
  "remove_list_items rec sc t s False xs =
     map (\<lambda>x. if Set_Empty (Set_WithPrefix s (item_pe sc t x)) then x
              else rec x (Set_WithPrefix s (item_pe sc t x)) (List_ElementType t))
       (filter (\<lambda>x. \<not> Set_Has s [item_pe sc t x]) xs)"
  by (induction xs) (auto simp: Let_def)

end
