(* ===== verification/Merge_Values.thy ===== *)
theory Merge_Values
  imports Remove_Items "HOL-Library.AList"
begin

text \<open>
  \<^verbatim>\<open>typed/merge.go\<close>: merging two values of one type.  A \<^verbatim>\<open>mergingWalker\<close> is a record; its methods return
  their errors and the updated walker.  \<^verbatim>\<open>out\<close> is \<^verbatim>\<open>nil\<close> (\<open>None\<close>) or points to an unstructured value.
  The rule for leaves and the optional hook are functions on walkers, as in the code.
\<close>

section \<open>The walker\<close>

record mergingWalker =
  mw_lhs :: "Value option"
  mw_rhs :: "Value option"
  mw_typeRef :: TypeRef
  mw_path :: Path
  mw_out :: "Value option"
  mw_inLeaf :: bool

type_synonym mergeRule = "mergingWalker \<Rightarrow> mergingWalker"
type_synonym merger = "mergingWalker \<Rightarrow> PathElement option \<Rightarrow> ValidationErrors \<times> mergingWalker"

definition ruleKeepRHS :: mergeRule where
  "ruleKeepRHS w =
     (case mw_rhs w of
        Some v \<Rightarrow> w\<lparr>mw_out := Some v\<rparr>
      | None \<Rightarrow> (case mw_lhs w of Some v \<Rightarrow> w\<lparr>mw_out := Some v\<rparr> | None \<Rightarrow> w))"

definition merge_doLeaf :: "mergeRule \<Rightarrow> mergingWalker \<Rightarrow> mergingWalker" where
  "merge_doLeaf rule w = (if mw_inLeaf w then w else rule (w\<lparr>mw_inLeaf := True\<rparr>))"

definition merge_doScalar :: "mergeRule \<Rightarrow> mergingWalker \<Rightarrow> Scalar \<Rightarrow> ValidationErrors \<times> mergingWalker" where
  "merge_doScalar rule w t =
     (let lerrs = validateScalar t (mw_lhs w); rerrs = validateScalar t (mw_rhs w)
      in if length lerrs > 0 \<and> length rerrs > 0 then (lerrs @ rerrs, w) else ([], merge_doLeaf rule w))"

definition merge_prepareDescent :: "mergingWalker \<Rightarrow> PathElement \<Rightarrow> TypeRef \<Rightarrow> mergingWalker" where
  "merge_prepareDescent w pe tr =
     w\<lparr>mw_typeRef := tr, mw_path := mw_path w @ [pe], mw_lhs := None, mw_rhs := None, mw_out := None\<rparr>"

definition derefMap :: "Value option \<Rightarrow> GoMap option" where
  "derefMap v = (case v of None \<Rightarrow> None | Some _ \<Rightarrow> or_nil (mapValue v))"

definition derefList :: "Value option \<Rightarrow> Value list option" where
  "derefList v = (case v of None \<Rightarrow> None | Some _ \<Rightarrow> or_nil (listValue v))"

definition mergeListItem ::
  "merger \<Rightarrow> mergingWalker \<Rightarrow> SList \<Rightarrow> PathElement \<Rightarrow> Value option \<Rightarrow> Value option \<Rightarrow> Value option \<times> ValidationErrors" where
  "mergeListItem rec w t pe lChild rChild =
     (let w2 = (merge_prepareDescent w pe (List_ElementType t))\<lparr>mw_lhs := lChild, mw_rhs := rChild\<rparr>;
          (errs, w2') = rec w2 (Some pe)
      in (mw_out w2', errs))"

text \<open>\<^verbatim>\<open>indexListPathElements\<close>: the path elements of the items, in order, and the items by path element.  A
  repeated item of the left-hand side is kept as the null value.\<close>

fun merge_indexListPathElements ::
  "TypeDef list \<Rightarrow> SList \<Rightarrow> bool \<Rightarrow> nat \<Rightarrow> Value PathElementMap \<Rightarrow> Value list \<Rightarrow>
   PathElement list \<times> Value PathElementMap \<times> ValidationErrors" where
  "merge_indexListPathElements sc t allowDuplicates i observed [] = ([], observed, [])"
| "merge_indexListPathElements sc t allowDuplicates i observed (child # rest) =
     (case listItemToPathElement sc t child of
        Inl err \<Rightarrow>
          (let (pes, obs, errs) = merge_indexListPathElements sc t allowDuplicates (i + 1) observed rest
           in (pes, obs, errorf (Element i err) @ errs))
      | Inr pe \<Rightarrow>
          let found = (PathElementMap_Get observed pe \<noteq> None)
          in if found \<and> \<not> allowDuplicates then
               (let (pes, obs, errs) = merge_indexListPathElements sc t allowDuplicates (i + 1) observed rest
                in (pes, obs, errorf (Duplicate_Key pe) @ errs))
             else
               (let observed' = PathElementMap_Insert observed pe (if found then VNull else child);
                    (pes, obs, errs) = merge_indexListPathElements sc t allowDuplicates (i + 1) observed' rest
                in (pe # pes, obs, errs)))"

text \<open>
  The merging loop of \<^verbatim>\<open>visitListItems\<close>.  \<open>L\<close> and \<open>R\<close> are what is left of the left-hand items (with their
  path elements) and of the right-hand path elements; \<open>Q\<close> is \<^verbatim>\<open>nextShared\<close> followed by \<^verbatim>\<open>sharedOrder\<close>.  An
  iteration either consumes an item or leaves the state as it is, so the loop ends if and only if as many
  iterations as there are items suffice: \<open>None\<close> is a loop that does not end.
\<close>

fun merge_list_loop ::
  "(PathElement \<Rightarrow> Value option \<Rightarrow> Value option \<Rightarrow> Value option) \<Rightarrow> Value PathElementMap \<Rightarrow> Value PathElementMap \<Rightarrow> nat \<Rightarrow>
   (PathElement \<times> Value) list \<Rightarrow> PathElement list \<Rightarrow> PathElement list \<Rightarrow> unit PathElementMap \<Rightarrow> Value list \<Rightarrow> Value list option" where
  "merge_list_loop item observedLHS observedRHS 0 L R Q merged out = (if L = [] \<and> R = [] then Some out else None)"
| "merge_list_loop item observedLHS observedRHS (Suc fuel) L R Q merged out =
     (let emit = (\<lambda>o'. case o' of None \<Rightarrow> out | Some x \<Rightarrow> out @ [x]) in
      if L = [] \<and> R = [] then Some out
      else if L \<noteq> [] \<and> R \<noteq> [] \<and> PathElement_Equals (fst (hd L)) (hd R) then
        (let pe = fst (hd L)
         in merge_list_loop item observedLHS observedRHS fuel (tl L) (tl R) (tl Q) (PathElementMap_Insert merged pe ())
              (emit (item pe (PathElementMap_Get observedLHS pe) (PathElementMap_Get observedRHS pe))))
      else if L \<noteq> [] \<and> R \<noteq> [] \<and> PathElementMap_Get observedRHS (fst (hd L)) \<noteq> None
              \<and> Q \<noteq> [] \<and> \<not> PathElement_Equals (hd Q) (fst (hd L)) then
        merge_list_loop item observedLHS observedRHS fuel (tl L) R Q merged out
      else if L \<noteq> [] \<and> PathElementMap_Get observedRHS (fst (hd L)) = None then
        merge_list_loop item observedLHS observedRHS fuel (tl L) R Q merged
          (emit (item (fst (hd L)) (Some (snd (hd L))) None))
      else
        (let L' = (if L \<noteq> [] \<and> PathElementMap_Get merged (fst (hd L)) \<noteq> None then tl L else L)
         in if R \<noteq> [] then
              (let pe = hd R
               in merge_list_loop item observedLHS observedRHS fuel L' (tl R)
                    (if Q \<noteq> [] \<and> PathElement_Equals (hd Q) pe then tl Q else Q)
                    (PathElementMap_Insert merged pe ())
                    (emit (item pe (PathElementMap_Get observedLHS pe) (PathElementMap_Get observedRHS pe))))
            else merge_list_loop item observedLHS observedRHS fuel L' R Q merged out))"

text \<open>The errors of the items are lost: \<^verbatim>\<open>mergeOut, errs := ...\<close> declares a new \<^verbatim>\<open>errs\<close> in the loop's body.\<close>

definition merge_visitListItems ::
  "merger \<Rightarrow> TypeDef list \<Rightarrow> mergingWalker \<Rightarrow> SList \<Rightarrow> Value list option \<Rightarrow> Value list option \<Rightarrow> ValidationErrors \<times> mergingWalker" where
  "merge_visitListItems rec sc w t lhs rhs =
     (let l = case_option [] id lhs; r = case_option [] id rhs;
          (rhsPEs, observedRHS, rhsErrs) = merge_indexListPathElements sc t False 0 [] r;
          (lhsPEs, observedLHS, lhsErrs) = merge_indexListPathElements sc t True 0 [] l;
          errs = rhsErrs @ lhsErrs
      in if length errs \<noteq> 0 then (errs, w)
         else
           case merge_list_loop (\<lambda>pe lChild rChild. fst (mergeListItem rec w t pe lChild rChild)) observedLHS observedRHS
                  (length lhsPEs + length rhsPEs) (zip lhsPEs l) rhsPEs
                  (filter (\<lambda>pe. PathElementMap_Get observedLHS pe \<noteq> None) rhsPEs) [] [] of
             None \<Rightarrow> (errorf Diverges, w)
           | Some out \<Rightarrow> ([], if length out > 0 then w\<lparr>mw_out := Some (VList out)\<rparr> else w))"

definition merge_doList ::
  "merger \<Rightarrow> TypeDef list \<Rightarrow> mergeRule \<Rightarrow> mergingWalker \<Rightarrow> SList \<Rightarrow> ValidationErrors \<times> mergingWalker" where
  "merge_doList rec sc rule w t =
     (let lhs = derefList (mw_lhs w); rhs = derefList (mw_rhs w);
          emptyPromoteToLeaf = ((lhs = None \<or> lhs = Some []) \<and> (rhs = None \<or> rhs = Some []))
      in if List_ElementRelationship t = Atomic \<or> emptyPromoteToLeaf then ([], merge_doLeaf rule w)
         else if lhs = None \<and> rhs = None then ([], w)
         else merge_visitListItems rec sc w t lhs rhs)"

definition merge_visitMapItem ::
  "merger \<Rightarrow> mergingWalker \<Rightarrow> SMap \<Rightarrow> string \<Rightarrow> Value option \<Rightarrow> Value option \<Rightarrow> GoMap \<Rightarrow> ValidationErrors \<times> GoMap" where
  "merge_visitMapItem rec w t key lhs rhs out =
     (let w2 = (merge_prepareDescent w (pe_field key) (field_typeref t key))\<lparr>mw_lhs := lhs, mw_rhs := rhs\<rparr>;
          (errs, w2') = rec w2 (Some (pe_field key))
      in (errs, case mw_out w2' of None \<Rightarrow> out | Some x \<Rightarrow> AList.update key x out))"

definition merge_visitMapItems ::
  "merger \<Rightarrow> mergingWalker \<Rightarrow> SMap \<Rightarrow> GoMap option \<Rightarrow> GoMap option \<Rightarrow> ValidationErrors \<times> mergingWalker" where
  "merge_visitMapItems rec w t lhs rhs =
     (let (_, errs, out) = MapZipUsing lhs rhs Unordered
            (\<lambda>key l r (errs, out). let (errs', out') = merge_visitMapItem rec w t key l r out in (True, errs @ errs', out'))
            ([], [])
      in (errs, if length out > 0 then w\<lparr>mw_out := Some (VMap out)\<rparr> else w))"

definition merge_doMap :: "merger \<Rightarrow> mergeRule \<Rightarrow> mergingWalker \<Rightarrow> SMap \<Rightarrow> ValidationErrors \<times> mergingWalker" where
  "merge_doMap rec rule w t =
     (let lhs = derefMap (mw_lhs w); rhs = derefMap (mw_rhs w);
          emptyPromoteToLeaf = ((lhs = None \<or> lhs = Some []) \<and> (rhs = None \<or> rhs = Some []))
      in if Map_ElementRelationship t = Atomic \<or> emptyPromoteToLeaf then ([], merge_doLeaf rule w)
         else if lhs = None \<and> rhs = None then ([], w)
         else merge_visitMapItems rec w t lhs rhs)"

section \<open>Every descent is to smaller values\<close>

text \<open>\<open>inside v x\<close>: an operand of a descent is missing, or a child of the value, or the null value.\<close>

definition inside :: "Value option \<Rightarrow> Value option \<Rightarrow> bool" where
  "inside v x \<longleftrightarrow> (case x of None \<Rightarrow> True | Some y \<Rightarrow> y \<in> children v \<or> y = VNull \<and> children v \<noteq> {})"

lemma inside_size:
  assumes "inside v x"
  shows "size_opt x \<le> size_opt v - 1"
proof (cases x)
  case (Some y)
  with assms obtain z where "z \<in> children v" "y = z \<or> y = VNull" by (auto simp: inside_def)
  with Some children_size [of z v] show ?thesis by auto
qed simp

lemma PathElementMap_Get_in: "PathElementMap_Get s pe = Some v \<Longrightarrow> v \<in> snd ` set s"
proof -
  assume a: "PathElementMap_Get s pe = Some v"
  let ?loc = "pe_search (map fst s) pe"
  have "?loc \<le> length s" using sort_Search_le [of "length s"] by (simp add: pe_search_def)
  with a have "?loc < length s" "v = snd (s ! ?loc)"
    by (auto simp: PathElementMap_Get_def Let_def split: if_splits)
  then show ?thesis by simp
qed

lemma merge_index_values:
  "snd ` set obs \<subseteq> A \<Longrightarrow> set xs \<subseteq> A \<Longrightarrow> (xs \<noteq> [] \<Longrightarrow> VNull \<in> A) \<Longrightarrow>
    snd ` set (fst (snd (merge_indexListPathElements sc t d i obs xs))) \<subseteq> A"
proof (induction xs arbitrary: i obs)
  case (Cons x xs)
  have "snd ` set (PathElementMap_Insert obs pe v) \<subseteq> A" if "v \<in> A" for pe v
    using PathElementMap_Insert_set [of obs pe v] Cons.prems(1) that by force
  then have "snd ` set (fst (snd (merge_indexListPathElements sc t d i' (PathElementMap_Insert obs pe v) xs))) \<subseteq> A"
    if "v \<in> A" for i' pe v
    using that Cons by auto
  moreover have "snd ` set (fst (snd (merge_indexListPathElements sc t d i' obs xs))) \<subseteq> A" for i'
    using Cons by auto
  ultimately show ?case
    using Cons.prems by (cases "listItemToPathElement sc t x"; cases d) (simp_all add: Let_def split_beta)
qed simp

lemma merge_list_loop_cong:
  assumes "\<And>pe l r. inside v l \<Longrightarrow> inside v' r \<Longrightarrow> f pe l r = g pe l r"
    and "\<And>pe. inside v (PathElementMap_Get obsL pe)" "\<And>pe. inside v' (PathElementMap_Get obsR pe)"
  shows "\<forall>x \<in> set L. inside v (Some (snd x)) \<Longrightarrow>
    merge_list_loop f obsL obsR n L R Q mg out = merge_list_loop g obsL obsR n L R Q mg out"
proof (induction n arbitrary: L R Q mg out)
  case (Suc n)
  have "\<forall>x \<in> set (tl L). inside v (Some (snd x))" using Suc.prems by (cases L) auto
  then have IH: "merge_list_loop f obsL obsR n (tl L) R Q mg out = merge_list_loop g obsL obsR n (tl L) R Q mg out"
    "merge_list_loop f obsL obsR n L R Q mg out = merge_list_loop g obsL obsR n L R Q mg out" for R Q mg out
    using Suc by blast+
  have "f (fst (hd L)) (Some (snd (hd L))) None = g (fst (hd L)) (Some (snd (hd L))) None" if "L \<noteq> []"
    using that Suc.prems by (intro assms(1)) (auto simp: inside_def)
  with IH assms show ?case
    by (simp only: merge_list_loop.simps Let_def if_distrib [of "\<lambda>l. merge_list_loop _ _ _ n l _ _ _ _"]) auto
qed simp

lemma merge_observed_inside:
  assumes "set xs \<subseteq> children v"
  shows "inside v (PathElementMap_Get (fst (snd (merge_indexListPathElements sc t d i [] xs))) pe)"
proof -
  have "snd ` set (fst (snd (merge_indexListPathElements sc t d i [] xs))) \<subseteq> children v \<union> (if children v = {} then {} else {VNull})"
    using assms by (intro merge_index_values) (auto simp: neq_Nil_conv)
  then show ?thesis
    using PathElementMap_Get_in [of "fst (snd (merge_indexListPathElements sc t d i [] xs))" pe]
    by (cases "PathElementMap_Get (fst (snd (merge_indexListPathElements sc t d i [] xs))) pe")
       (auto simp: inside_def split: if_splits)
qed

lemma derefList_children: "set (case_option [] id (derefList v)) \<subseteq> children v"
  using listValue_children [of v] by (cases "derefList v") (auto simp: derefList_def or_nil_list split: option.splits)

lemma derefMap_children: "snd ` set (case_option [] id (derefMap v)) \<subseteq> children v"
proof (cases "derefMap v")
  case (Some mp)
  then have "mapValue v = Inr (Some mp)" by (auto simp: derefMap_def or_nil_map split: option.splits)
  then show ?thesis using mapValue_children [of v mp] Some by simp
qed simp

definition descends :: "mergingWalker \<Rightarrow> mergingWalker \<Rightarrow> bool" where
  "descends w w2 \<longleftrightarrow> inside (mw_lhs w) (mw_lhs w2) \<and> inside (mw_rhs w) (mw_rhs w2)"

lemma merge_doList_cong [fundef_cong]:
  assumes "sc = sc'" "rule = rule'" "w = w'" "t = t'"
    and "\<And>w2 p. descends w' w2 \<Longrightarrow> f w2 p = g w2 p"
  shows "merge_doList f sc rule w t = merge_doList g sc' rule' w' t'"
proof -
  define l r where "l = case_option [] id (derefList (mw_lhs w'))" and "r = case_option [] id (derefList (mw_rhs w'))"
  have sub: "set l \<subseteq> children (mw_lhs w')" "set r \<subseteq> children (mw_rhs w')"
    unfolding l_def r_def by (rule derefList_children)+
  have item: "fst (mergeListItem f w' t' pe x y) = fst (mergeListItem g w' t' pe x y)"
    if "inside (mw_lhs w') x" "inside (mw_rhs w') y" for pe x y
    using that assms(5) by (simp add: mergeListItem_def descends_def)
  have "\<forall>x \<in> set (zip pes l). inside (mw_lhs w') (Some (snd x))" for pes
    using sub(1) by (auto simp: inside_def dest!: set_zip_rightD)
  then have "merge_list_loop (\<lambda>pe x y. fst (mergeListItem f w' t' pe x y))
          (fst (snd (merge_indexListPathElements sc' t' True 0 [] l))) (fst (snd (merge_indexListPathElements sc' t' False 0 [] r)))
          n (zip pes l) R Q mg out =
        merge_list_loop (\<lambda>pe x y. fst (mergeListItem g w' t' pe x y))
          (fst (snd (merge_indexListPathElements sc' t' True 0 [] l))) (fst (snd (merge_indexListPathElements sc' t' False 0 [] r)))
          n (zip pes l) R Q mg out" for n pes R Q mg out
    using item merge_observed_inside [OF sub(1)] merge_observed_inside [OF sub(2)]
    by (intro merge_list_loop_cong [of "mw_lhs w'" "mw_rhs w'"])
  then show ?thesis
    unfolding assms(1-4) merge_doList_def merge_visitListItems_def Let_def l_def [symmetric] r_def [symmetric] split_beta
    by (simp only:)
qed

lemma MapZipUsing_Unordered_cong:
  assumes "\<And>k l r s. (\<And>x. l = Some x \<Longrightarrow> x \<in> snd ` set (case_option [] id lhs)) \<Longrightarrow>
      (\<And>x. r = Some x \<Longrightarrow> x \<in> snd ` set (case_option [] id rhs)) \<Longrightarrow> f k l r s = g k l r s"
  shows "MapZipUsing lhs rhs Unordered f s = MapZipUsing lhs rhs Unordered g s"
proof -
  have Get: "map_Get mp k = Some x \<Longrightarrow> x \<in> snd ` set (case_option [] id mp)" for mp k and x :: 'a
    using map_Get_in [of mp k x] by auto
  have zip: "unorderedMapZip a b f' s = unorderedMapZip a b g' s"
    if "\<And>k l r s. (\<And>x. l = Some x \<Longrightarrow> x \<in> snd ` set (case_option [] id a)) \<Longrightarrow>
      (\<And>x. r = Some x \<Longrightarrow> x \<in> snd ` set (case_option [] id b)) \<Longrightarrow> f' k l r s = g' k l r s"
    for a b and f' g' :: "string \<Rightarrow> 'a option \<Rightarrow> 'a option \<Rightarrow> 'b \<Rightarrow> bool \<times> 'b" and s
  proof -
    have "iterate_until (\<lambda>(k, v). f' k (Some v) (map_Get b k)) (case_option [] id a) s =
        iterate_until (\<lambda>(k, v). g' k (Some v) (map_Get b k)) (case_option [] id a) s" for s
      by (intro iterate_until_cong refl) (auto intro!: that simp: rev_image_eqI dest: Get)
    moreover have "iterate_until (\<lambda>(k, v) t. if k \<notin> set (map_keys a) then f' k None (Some v) t else (True, t)) (case_option [] id b) s =
        iterate_until (\<lambda>(k, v) t. if k \<notin> set (map_keys a) then g' k None (Some v) t else (True, t)) (case_option [] id b) s" for s
      by (intro iterate_until_cong refl) (auto intro!: that simp: rev_image_eqI)
    ultimately show ?thesis unfolding unorderedMapZip_def by (simp split: prod.splits)
  qed
  show ?thesis
    unfolding MapZipUsing_def defaultMapZip_def MapTraverseOrder.case
    by (intro if_cong refl zip assms) blast+
qed

lemma merge_doMap_cong [fundef_cong]:
  assumes "rule = rule'" "w = w'" "t = t'"
    and "\<And>w2 p. descends w' w2 \<Longrightarrow> f w2 p = g w2 p"
  shows "merge_doMap f rule w t = merge_doMap g rule' w' t'"
proof -
  have "merge_visitMapItem f w' t' k l r out = merge_visitMapItem g w' t' k l r out"
    if "inside (mw_lhs w') l" "inside (mw_rhs w') r" for k l r out
    using that assms(4) by (simp add: merge_visitMapItem_def descends_def)
  moreover have "inside v l" if "\<And>x. l = Some x \<Longrightarrow> x \<in> snd ` set (case_option [] id (derefMap v))" for v l
  proof (cases l)
    case (Some x)
    then show ?thesis using that [OF Some] derefMap_children [of v] by (simp only: inside_def option.case) blast
  qed (simp add: inside_def)
  ultimately have "merge_visitMapItems f w' t' (derefMap (mw_lhs w')) (derefMap (mw_rhs w')) =
      merge_visitMapItems g w' t' (derefMap (mw_lhs w')) (derefMap (mw_rhs w'))"
    unfolding merge_visitMapItems_def
    by (subst MapZipUsing_Unordered_cong [where g = "\<lambda>key l r (errs, out).
          let (errs', out') = merge_visitMapItem g w' t' key l r out in (True, errs @ errs', out')"])
       simp_all
  then show ?thesis unfolding assms(1-3) merge_doMap_def Let_def by (simp only:)
qed

lemma handleAtom_fundef_cong [fundef_cong]:
  "a = a' \<Longrightarrow> tr = tr' \<Longrightarrow> (\<And>t. ds t = ds' t) \<Longrightarrow> (\<And>t. dl t = dl' t) \<Longrightarrow> (\<And>t. dm t = dm' t) \<Longrightarrow>
    handleAtom ds dl dm f a tr = handleAtom ds' dl' dm' f a' tr'"
  by (simp add: handleAtom_def split: option.splits)

text \<open>\<^verbatim>\<open>handleAtom(a, w.typeRef, w)\<close> with the walker as the handler.\<close>

definition merge_handle ::
  "merger \<Rightarrow> TypeDef list \<Rightarrow> mergeRule \<Rightarrow> mergingWalker \<Rightarrow> Atom \<Rightarrow> ValidationErrors \<times> mergingWalker" where
  "merge_handle rec sc rule w a =
     handleAtom (merge_doScalar rule w) (merge_doList rec sc rule w) (merge_doMap rec rule w) (\<lambda>errs. (errs, w))
       a (mw_typeRef w)"

lemma merge_handle_cong [fundef_cong]:
  assumes "sc = sc'" "rule = rule'" "w = w'" "a = a'" "\<And>w2 p. descends w' w2 \<Longrightarrow> f w2 p = g w2 p"
  shows "merge_handle f sc rule w a = merge_handle g sc' rule' w' a'"
  unfolding assms(1-4) merge_handle_def
  by (intro handleAtom_cong merge_doList_cong merge_doMap_cong refl assms(5))

section \<open>Merge\<close>

lemma descends_size:
  assumes "descends w w2" "\<not> (mw_lhs w = None \<and> mw_rhs w = None)"
  shows "size_opt (mw_lhs w2) + size_opt (mw_rhs w2) < size_opt (mw_lhs w) + size_opt (mw_rhs w)"
  using assms inside_size [of "mw_lhs w" "mw_lhs w2"] inside_size [of "mw_rhs w" "mw_rhs w2"]
  by (cases "mw_lhs w"; cases "mw_rhs w") (auto simp: descends_def)

function merge_walk ::
  "TypeDef list \<Rightarrow> mergeRule \<Rightarrow> mergeRule option \<Rightarrow> mergingWalker \<Rightarrow> PathElement option \<Rightarrow> ValidationErrors \<times> mergingWalker" where
  "merge_walk sc rule postItemHook w prefixFn =
     (if mw_lhs w = None \<and> mw_rhs w = None then (errorf Nothing_Provided, w)
      else case Resolve sc (mw_typeRef w) of
        None \<Rightarrow> (errorf (if NamedType (mw_typeRef w) = None then Panic else No_Type (NamedType (mw_typeRef w))), w)
      | Some a \<Rightarrow>
          let alhs = deduceAtom a (mw_lhs w); arhs = deduceAtom a (mw_rhs w);
              (errs, w') =
                (if mw_rhs w = None then merge_handle (\<lambda>w2 p. merge_walk sc rule postItemHook w2 p) sc rule w alhs
                 else if mw_lhs w = None \<or> Atom_Equals alhs arhs then
                   merge_handle (\<lambda>w2 p. merge_walk sc rule postItemHook w2 p) sc rule w arhs
                 else let (errs1, _) = merge_handle (\<lambda>w2 p. merge_walk sc rule postItemHook w2 p) sc rule w alhs;
                          (errs2, w2) = merge_handle (\<lambda>w2 p. merge_walk sc rule postItemHook w2 p) sc rule w arhs
                      in (errs1 @ errs2, w2));
              w'' = (case postItemHook of Some hook \<Rightarrow> if \<not> mw_inLeaf w' then hook w' else w' | None \<Rightarrow> w')
          in (ValidationErrors_WithLazyPrefix prefixFn errs, w''))"
  by pat_completeness auto
termination
  by (relation "measure (\<lambda>(sc, r, h, w, p). size_opt (mw_lhs w) + size_opt (mw_rhs w))") (auto dest: descends_size)

declare merge_walk.simps [simp del]

end
