(* ===== verification/Merge_Laws.thy ===== *)
theory Merge_Laws
  imports Merge_Values
begin

text \<open>
  Laws of \<^verbatim>\<open>Merge\<close>: the loop over list items ends, merging a value with itself or with nothing gives the
  value back, and a merged map has the fields of both sides.
\<close>

section \<open>Zipping two maps\<close>

text \<open>The entries an unordered zip visits, in order.\<close>

definition zip_entries ::
  "(string \<times> 'v) list option \<Rightarrow> (string \<times> 'v) list option \<Rightarrow> (string \<times> 'v option \<times> 'v option) list" where
  "zip_entries lhs rhs =
     (case lhs of
        Some l \<Rightarrow> map (\<lambda>(k, v). (k, Some v, map_Get rhs k)) l
          @ map (\<lambda>(k, v). (k, None, Some v)) (filter (\<lambda>kv. fst kv \<notin> fst ` set l) (case_option [] id rhs))
      | None \<Rightarrow> map (\<lambda>(k, v). (k, None, Some v)) (case_option [] id rhs))"

lemma iterate_until_True: "iterate_until (\<lambda>k s. (True, h k s)) ks s = (True, fold h ks s)"
  by (induction ks arbitrary: s) auto

lemma iterate_until_filter:
  "iterate_until (\<lambda>x s. if P x then (True, h x s) else (True, s)) ks s = (True, fold h (filter P ks) s)"
  by (induction ks arbitrary: s) auto

lemma map_keys_simps [simp]: "map_Get None k = None" "set (map_keys (Some l)) = fst ` set l"
  by (simp_all add: map_Get_def map_keys_def)

lemma MapZipUsing_fold:
  "MapZipUsing lhs rhs Unordered (\<lambda>k l r s. (True, h k l r s)) s =
     (True, fold (\<lambda>(k, l, r). h k l r) (zip_entries lhs rhs) s)"
  by (cases lhs; cases rhs)
     (simp_all add: MapZipUsing_def defaultMapZip_def unorderedMapZip_def zip_entries_def map_Length_def
        case_prod_beta' iterate_until_True iterate_until_filter fold_map comp_def)

lemma zip_entries_map_of:
  assumes "pred_option (\<lambda>l. distinct (map fst l)) lhs" "pred_option (\<lambda>l. distinct (map fst l)) rhs"
  shows "distinct (map fst (zip_entries lhs rhs))"
    and "(k, l, r) \<in> set (zip_entries lhs rhs) \<longleftrightarrow> l = map_Get lhs k \<and> r = map_Get rhs k \<and> (l \<noteq> None \<or> r \<noteq> None)"
proof -
  have keys: "map (fst \<circ> (\<lambda>(k, v). (k, f k v))) xs = map fst xs" for xs :: "(string \<times> 'a) list" and f :: "string \<Rightarrow> 'a \<Rightarrow> 'a option \<times> 'a option"
    by auto
  show "distinct (map fst (zip_entries lhs rhs))"
    using assms
    by (cases lhs; cases rhs) (auto simp: zip_entries_def keys distinct_map_filter, force+)
  have mem: "(k, l, r) \<in> (\<lambda>(k, v). (k, f k v)) ` X \<longleftrightarrow> (\<exists>v. (k, v) \<in> X \<and> (l, r) = f k v)"
    for X :: "(string \<times> 'a) set" and f :: "string \<Rightarrow> 'a \<Rightarrow> 'a option \<times> 'a option"
    by force
  show "(k, l, r) \<in> set (zip_entries lhs rhs) \<longleftrightarrow> l = map_Get lhs k \<and> r = map_Get rhs k \<and> (l \<noteq> None \<or> r \<noteq> None)"
  proof (cases lhs)
    case None
    then show ?thesis using assms by (cases rhs) (auto simp: zip_entries_def mem map_Get_def)
  next
    case (Some a)
    have "k \<notin> fst ` set a \<longleftrightarrow> map_of a k = None" by (simp add: map_of_eq_None_iff)
    then show ?thesis using assms Some by (cases rhs) (auto simp: zip_entries_def mem map_Get_def dest: eq_key_imp_eq_value)
  qed
qed

section \<open>Indexing list items\<close>

lemma PathElementMap_Get_Nil [simp]: "PathElementMap_Get [] p = None"
  by (simp add: PathElementMap_Get_def pe_search_def sort_Search_def sort_Search_loop.simps)

lemma merge_index_laws:
  assumes "Schema_ok m sc" "List_ok m t"
  shows "pe_asc m (map fst obs) \<Longrightarrow> list_all (value_ok m) xs \<Longrightarrow>
    merge_indexListPathElements sc t d i obs xs = (pes, obs', errs) \<Longrightarrow>
    pe_asc m (map fst obs') \<and> list_all (pe_ok m) pes \<and>
    (\<forall>p. pe_ok m p \<longrightarrow> (PathElementMap_Get obs' p \<noteq> None \<longleftrightarrow>
      PathElementMap_Get obs p \<noteq> None \<or> (\<exists>pe \<in> set pes. PathElement_Equals pe p)))"
proof (induction xs arbitrary: i obs pes errs)
  case (Cons x xs)
  show ?case
  proof (cases "listItemToPathElement sc t x")
    case (Inl e)
    with Cons show ?thesis by (auto simp: Let_def split: prod.splits)
  next
    case (Inr pe)
    have pe: "pe_ok m pe" using listItemToPathElement_ok [OF assms _ Inr] Cons.prems(2) by simp
    show ?thesis
    proof (cases "PathElementMap_Get obs pe \<noteq> None \<and> \<not> d")
      case True
      with Cons Inr show ?thesis by (auto simp: Let_def split: prod.splits)
    next
      case False
      let ?v = "if PathElementMap_Get obs pe \<noteq> None then VNull else x"
      let ?obs = "PathElementMap_Insert obs pe ?v"
      obtain pes' where run: "merge_indexListPathElements sc t d (i + 1) ?obs xs = (pes', obs', errs)" "pes = pe # pes'"
        using Cons.prems(3) False Inr by (auto simp: Let_def split: prod.splits)
      have "PathElementMap_Get ?obs p \<noteq> None \<longleftrightarrow> PathElement_Equals pe p \<or> PathElementMap_Get obs p \<noteq> None" if "pe_ok m p" for p
        using pem.get_insert [OF Cons.prems(1) pe that] by simp
      moreover have "pe_asc m (map fst ?obs)" using PathElementMap_Insert_asc [OF Cons.prems(1) pe] .
      ultimately show ?thesis using Cons.IH [OF _ _ run(1)] Cons.prems(2) pe run(2) by auto
    qed
  qed
qed auto

lemma merge_index_pes:
  "merge_indexListPathElements sc t d i obs xs = (pes, obs', []) \<Longrightarrow> pes = map (item_pe sc t) xs"
proof (induction xs arbitrary: i obs pes)
  case (Cons x xs)
  then show ?case
    by (cases "listItemToPathElement sc t x") (auto simp: Let_def item_pe_def errorf_def split: prod.splits if_splits)
qed simp

section \<open>The merging loop ends\<close>

lemma merge_list_loop_terminates:
  assumes "pe_asc m (map fst obsR)"
  shows "length L + length R \<le> n \<Longrightarrow> list_all (\<lambda>x. pe_ok m (fst x)) L \<Longrightarrow> list_all (pe_ok m) R \<Longrightarrow> pe_asc m (map fst mg) \<Longrightarrow>
    (\<forall>p. pe_ok m p \<longrightarrow> PathElementMap_Get obsR p \<noteq> None \<longrightarrow>
      PathElementMap_Get mg p \<noteq> None \<or> (\<exists>q \<in> set R. PathElement_Equals q p)) \<Longrightarrow>
    \<exists>out'. merge_list_loop item obsL obsR n L R Q mg out = Some out'"
proof (induction n arbitrary: L R Q mg out)
  case (Suc n)
  let ?inv = "\<lambda>mg R. \<forall>p. pe_ok m p \<longrightarrow> PathElementMap_Get obsR p \<noteq> None \<longrightarrow>
      PathElementMap_Get mg p \<noteq> None \<or> (\<exists>q \<in> set R. PathElement_Equals q p)"
  have tls: "list_all (\<lambda>x. pe_ok m (fst x)) (tl L)" "list_all (pe_ok m) (tl R)"
    using Suc.prems(2,3) by (cases L; cases R; simp)+
  have hds: "L \<noteq> [] \<Longrightarrow> pe_ok m (fst (hd L))" "R \<noteq> [] \<Longrightarrow> pe_ok m (hd R)"
    using Suc.prems(2,3) by (cases L; cases R; simp)+
  have ins: "pe_asc m (map fst (PathElementMap_Insert mg k ()))" "?inv (PathElementMap_Insert mg k ()) (tl R)"
    if "pe_ok m k" "R \<noteq> []" "PathElement_Equals k (hd R)" for k
  proof -
    show "pe_asc m (map fst (PathElementMap_Insert mg k ()))" using PathElementMap_Insert_asc [OF Suc.prems(4) that(1)] .
    have "PathElement_Equals k p" if "pe_ok m p" "PathElement_Equals (hd R) p" for p
      using that hds(2) \<open>R \<noteq> []\<close> \<open>PathElement_Equals k (hd R)\<close> \<open>pe_ok m k\<close> pe.eqv_trans by blast
    then show "?inv (PathElementMap_Insert mg k ()) (tl R)"
      using Suc.prems(5) pem.get_insert [OF Suc.prems(4) that(1), where v = "()"] \<open>R \<noteq> []\<close> by (cases R) auto
  qed
  have drop: "\<exists>out'. merge_list_loop item obsL obsR n (tl L) R Q mg out = Some out'" if "L \<noteq> []" for Q out
    using that Suc.prems tls by (intro Suc.IH) (cases L; simp)+
  have stuck: "PathElementMap_Get mg (fst (hd L)) \<noteq> None"
    if "R = []" "L \<noteq> []" "PathElementMap_Get obsR (fst (hd L)) \<noteq> None"
    using that Suc.prems(5) hds(1) by auto
  have take: "\<exists>out'. merge_list_loop item obsL obsR n L' (tl R) Q (PathElementMap_Insert mg k ()) out = Some out'"
    if "R \<noteq> []" "pe_ok m k" "PathElement_Equals k (hd R)" "L' = L \<or> L' = tl L" for k L' Q out
  proof (rule Suc.IH)
    show "length L' + length (tl R) \<le> n" using that(1,4) Suc.prems(1) by (cases R) auto
    show "list_all (\<lambda>x. pe_ok m (fst x)) L'" using that(4) Suc.prems(2) tls(1) by blast
  qed (use ins [OF that(2,1,3)] tls(2) in blast)+
  let ?eq = "PathElement_Equals (fst (hd L)) (hd R)"
  let ?inR = "PathElementMap_Get obsR (fst (hd L)) \<noteq> None"
  let ?skip = "Q \<noteq> [] \<and> \<not> PathElement_Equals (hd Q) (fst (hd L))"
  consider "L = []" "R = []" | "L \<noteq> []" "R \<noteq> []" ?eq | "L \<noteq> []" "R \<noteq> []" "\<not> ?eq" ?inR ?skip
    | "L \<noteq> []" "R = [] \<or> \<not> ?eq" "\<not> ?inR" | "L = [] \<or> \<not> ?eq" "L = [] \<or> \<not> ?skip" "L = [] \<or> ?inR" "R \<noteq> []"
    | "L \<noteq> []" "R = []" ?inR by blast
  then show ?case
  proof cases
    case 2
    then show ?thesis using take [OF 2(2) hds(1) [OF 2(1)] 2(3), of "tl L"] by (simp add: Let_def)
  next
    case 3
    then show ?thesis using drop by (simp add: Let_def)
  next
    case 4
    then show ?thesis using drop by (auto simp: Let_def)
  next
    case 5
    let ?L = "if L \<noteq> [] \<and> PathElementMap_Get mg (fst (hd L)) \<noteq> None then tl L else L"
    have "merge_list_loop item obsL obsR (Suc n) L R Q mg out =
      merge_list_loop item obsL obsR n ?L (tl R) (if Q \<noteq> [] \<and> PathElement_Equals (hd Q) (hd R) then tl Q else Q)
        (PathElementMap_Insert mg (hd R) ())
        (case item (hd R) (PathElementMap_Get obsL (hd R)) (PathElementMap_Get obsR (hd R)) of None \<Rightarrow> out | Some x \<Rightarrow> out @ [x])"
      using 5 by (simp only: merge_list_loop.simps Let_def) auto
    moreover have "?L = L \<or> ?L = tl L" by simp
    ultimately show ?thesis
      using take [OF 5(4) hds(2) [OF 5(4)] pe.eqv_refl [OF hds(2) [OF 5(4)]]] by presburger
  next
    case 6
    then show ?thesis using drop [OF 6(1)] stuck [OF 6(2,1,3)] by (simp add: Let_def)
  qed simp
qed simp

abbreviation ends :: "ValidationErrors \<Rightarrow> bool" where
  "ends errs \<equiv> list_all (\<lambda>e. ErrorMessage e \<noteq> Diverges) errs"

lemma merge_index_ends: "ends (snd (snd (merge_indexListPathElements sc t d i obs xs)))"
  by (induction xs arbitrary: i obs) (auto simp: Let_def errorf_def split_beta split: sum.splits)

lemma merge_visitListItems_ends:
  assumes "Schema_ok m sc" "List_ok m t" "pred_option (list_all (value_ok m)) lhs" "pred_option (list_all (value_ok m)) rhs"
  shows "ends (fst (merge_visitListItems rec sc w t lhs rhs))"
proof -
  define l r where "l = case_option [] id lhs" and "r = case_option [] id rhs"
  have ok: "list_all (value_ok m) l" "list_all (value_ok m) r"
    using assms(3,4) by (auto simp: l_def r_def split: option.splits)
  obtain rhsPEs obsR rhsErrs where R: "merge_indexListPathElements sc t False 0 [] r = (rhsPEs, obsR, rhsErrs)"
    by (metis prod_cases3)
  obtain lhsPEs obsL lhsErrs where L: "merge_indexListPathElements sc t True 0 [] l = (lhsPEs, obsL, lhsErrs)"
    by (metis prod_cases3)
  have laws: "pe_asc m (map fst obsR)" "list_all (pe_ok m) rhsPEs" "list_all (pe_ok m) lhsPEs"
    "\<forall>p. pe_ok m p \<longrightarrow> PathElementMap_Get obsR p \<noteq> None \<longrightarrow> (\<exists>pe \<in> set rhsPEs. PathElement_Equals pe p)"
    using merge_index_laws [OF assms(1,2) _ ok(2) R] merge_index_laws [OF assms(1,2) _ ok(1) L] by auto
  have pes: "list_all (\<lambda>x. pe_ok m (fst x)) (zip lhsPEs l)"
    using laws(3) by (auto simp: list_all_iff dest: set_zip_leftD)
  have "\<exists>out. merge_list_loop item obsL obsR (length lhsPEs + length rhsPEs) (zip lhsPEs l) rhsPEs Q [] [] = Some out" for item Q
    using laws pes by (intro merge_list_loop_terminates [of m]) auto
  moreover have "ends rhsErrs" "ends lhsErrs" using merge_index_ends [of sc t _ 0 "[]"] R L by (metis snd_conv)+
  ultimately show ?thesis
    unfolding merge_visitListItems_def Let_def l_def [symmetric] r_def [symmetric] R L prod.case
    by (auto split: option.splits) (metis option.distinct(1))
qed

lemma derefList_ok: "pred_option (value_ok m) v \<Longrightarrow> pred_option (list_all (value_ok m)) (derefList v)"
  using derefList_children [of v] children_ok [of _ v m] by (cases "derefList v") (auto simp: list_all_iff)

lemma validateScalar_ends: "ends (validateScalar t v)"
  by (auto simp: validateScalar_def errorf_def split: option.splits)

lemma WithLazyPrefix_ends [simp]: "ends (ValidationErrors_WithLazyPrefix p errs) \<longleftrightarrow> ends errs"
  by (auto simp: ValidationErrors_WithLazyPrefix_def Let_def list_all_iff)

lemma merge_doList_ends:
  assumes "Schema_ok m sc" "List_ok m t" "pred_option (value_ok m) (mw_lhs w)" "pred_option (value_ok m) (mw_rhs w)"
  shows "ends (fst (merge_doList rec sc rule w t))"
  using merge_visitListItems_ends [OF assms(1,2) derefList_ok [OF assms(3)] derefList_ok [OF assms(4)]]
  by (simp add: merge_doList_def Let_def)

section \<open>Merging maps\<close>

text \<open>The walker for an entry, and what its visit adds.\<close>

abbreviation entry_walker :: "mergingWalker \<Rightarrow> SMap \<Rightarrow> string \<Rightarrow> Value option \<Rightarrow> Value option \<Rightarrow> mergingWalker" where
  "entry_walker w t k l r \<equiv> (merge_prepareDescent w (pe_field k) (field_typeref t k))\<lparr>mw_lhs := l, mw_rhs := r\<rparr>"

definition entry_out :: "merger \<Rightarrow> mergingWalker \<Rightarrow> SMap \<Rightarrow> string \<times> Value option \<times> Value option \<Rightarrow> Value option" where
  "entry_out rec w t e = (case e of (k, l, r) \<Rightarrow> mw_out (snd (rec (entry_walker w t k l r) (Some (pe_field k)))))"

lemma merge_visitMapItems_fold:
  "merge_visitMapItems rec w t lhs rhs =
     (let errs = concat (map (\<lambda>(k, l, r). fst (rec (entry_walker w t k l r) (Some (pe_field k)))) (zip_entries lhs rhs));
          out = fold (\<lambda>e out. case entry_out rec w t e of None \<Rightarrow> out | Some x \<Rightarrow> AList.update (fst e) x out) (zip_entries lhs rhs) []
      in (errs, if length out > 0 then w\<lparr>mw_out := Some (VMap out)\<rparr> else w))"
proof -
  let ?h = "\<lambda>k l r (errs, out). let (errs', out') = merge_visitMapItem rec w t k l r out in (errs @ errs', out')"
  have f: "(\<lambda>key l r (errs, out). let (errs', out') = merge_visitMapItem rec w t key l r out in (True, errs @ errs', out')) =
      (\<lambda>k l r s. (True, ?h k l r s))"
    by (auto simp: fun_eq_iff Let_def split: prod.splits)
  have "fold (\<lambda>(k, l, r). ?h k l r) es (errs, out) =
      (errs @ concat (map (\<lambda>(k, l, r). fst (rec (entry_walker w t k l r) (Some (pe_field k)))) es),
       fold (\<lambda>e out. case entry_out rec w t e of None \<Rightarrow> out | Some x \<Rightarrow> AList.update (fst e) x out) es out)" for es errs out
    by (induction es arbitrary: errs out)
       (auto simp: merge_visitMapItem_def entry_out_def Let_def split_beta split: prod.splits)
  then show ?thesis
    unfolding merge_visitMapItems_def f MapZipUsing_fold by (simp add: Let_def)
qed

lemma AList_update_fresh: "k \<notin> fst ` set out \<Longrightarrow> AList.update k x out = out @ [(k, x)]"
  by (induction out) auto

lemma fold_update_fresh:
  assumes "distinct (map fst es)" "\<And>e. e \<in> set es \<Longrightarrow> g e \<noteq> None" "fst ` set es \<inter> fst ` set out = {}"
  shows "fold (\<lambda>e out. case g e of None \<Rightarrow> out | Some x \<Rightarrow> AList.update (fst e) x out) es out =
    out @ map (\<lambda>e. (fst e, the (g e))) es"
  using assms
proof (induction es arbitrary: out)
  case (Cons e es)
  have upd: "AList.update (fst e) (the (g e)) out = out @ [(fst e, the (g e))]"
    using Cons.prems(3) by (intro AList_update_fresh) auto
  have "g e = Some (the (g e))" using Cons.prems(2) [of e] by auto
  then show ?case using Cons upd by (cases "g e") auto
qed simp

section \<open>Merging a value with itself or with nothing\<close>

text \<open>Values \<^verbatim>\<open>Merge\<close> and \<^verbatim>\<open>Compare\<close> accept: valid, and every list is atomic or associative.  The contents
  of an atomic list or map do not matter.\<close>

inductive mergeable :: "TypeDef list \<Rightarrow> bool \<Rightarrow> TypeRef \<Rightarrow> Value \<Rightarrow> bool" for sc dup where
  mergeable_null:
    "Resolve sc tr = Some a \<Longrightarrow> a \<noteq> Atom_zero \<Longrightarrow> mergeable sc dup tr VNull"
| mergeable_scalar:
    "Resolve sc tr = Some a \<Longrightarrow> Atom_Scalar a = Some t \<Longrightarrow> scalar_ok t v \<Longrightarrow> mergeable sc dup tr v"
| mergeable_list:
    "Resolve sc tr = Some a \<Longrightarrow> Atom_List a = Some t \<Longrightarrow>
     (List_ElementRelationship t \<noteq> Atomic \<Longrightarrow> List_ElementRelationship t = Associative \<and> item_keys_ok sc dup t xs) \<Longrightarrow>
     (\<And>x. List_ElementRelationship t \<noteq> Atomic \<Longrightarrow> x \<in> set xs \<Longrightarrow> mergeable sc dup (List_ElementType t) x) \<Longrightarrow>
     mergeable sc dup tr (VList xs)"
| mergeable_map:
    "Resolve sc tr = Some a \<Longrightarrow> Atom_Map a = Some t \<Longrightarrow>
     (\<And>k x. Map_ElementRelationship t \<noteq> Atomic \<Longrightarrow> (k, x) \<in> set kvs \<Longrightarrow> mergeable sc dup (field_typeref t k) x) \<Longrightarrow>
     mergeable sc dup tr (VMap kvs)"

text \<open>The operands of a walker that merges \<open>v\<close> with itself or with nothing.\<close>

definition only :: "Value \<Rightarrow> mergingWalker \<Rightarrow> bool" where
  "only v w \<longleftrightarrow> mw_lhs w \<in> {None, Some v} \<and> mw_rhs w \<in> {None, Some v} \<and> (mw_lhs w \<noteq> None \<or> mw_rhs w \<noteq> None)
     \<and> \<not> mw_inLeaf w \<and> mw_out w = None"

definition gives :: "Value \<Rightarrow> ValidationErrors \<times> mergingWalker \<Rightarrow> bool" where
  "gives v r \<longleftrightarrow> fst r = [] \<and> mw_out (snd r) = Some v"

lemma doLeaf_gives: "only v w \<Longrightarrow> gives v ([], merge_doLeaf ruleKeepRHS w)"
  by (auto simp: only_def gives_def merge_doLeaf_def ruleKeepRHS_def split: option.splits)

lemma merge_walk_gives:
  assumes "only v w" "Resolve sc (mw_typeRef w) = Some a"
    "gives v (merge_handle (\<lambda>w2 p. merge_walk sc ruleKeepRHS None w2 p) sc ruleKeepRHS w (deduceAtom a (Some v)))"
  shows "gives v (merge_walk sc ruleKeepRHS None w p)"
  using assms
  by (auto simp: only_def merge_walk.simps [of sc _ _ w] gives_def Let_def split_beta ValidationErrors_WithLazyPrefix_def)

lemma item_only:
  assumes "only v w" "l \<in> {None, Some x}" "r \<in> {None, Some x}" "l \<noteq> None \<or> r \<noteq> None"
  shows "only x ((merge_prepareDescent w pe tr)\<lparr>mw_lhs := l, mw_rhs := r\<rparr>)"
  using assms by (auto simp: only_def merge_prepareDescent_def)

lemma merge_map_gives:
  assumes "only (VMap kvs) w" "distinct (map fst kvs)" "kvs \<noteq> []"
    and "\<And>k x w2 p. (k, x) \<in> set kvs \<Longrightarrow> only x w2 \<Longrightarrow> mw_typeRef w2 = field_typeref t k \<Longrightarrow> gives x (rec w2 p)"
  shows "gives (VMap kvs) (merge_visitMapItems rec w t (derefMap (mw_lhs w)) (derefMap (mw_rhs w)))"
proof -
  let ?es = "zip_entries (derefMap (mw_lhs w)) (derefMap (mw_rhs w))"
  have "derefMap (Some (VMap kvs)) = Some kvs" "derefMap None = None"
    by (simp_all add: derefMap_def mapValue_def or_nil_def)
  with assms(1) have d: "derefMap (mw_lhs w) = None \<and> derefMap (mw_rhs w) = Some kvs
      \<or> derefMap (mw_lhs w) = Some kvs \<and> derefMap (mw_rhs w) \<in> {None, Some kvs}"
    by (auto simp: only_def)
  have keys: "map fst ?es = map fst kvs"
    using d by (auto simp: zip_entries_def comp_def case_prod_beta' filter_empty_conv)
  have entry: "only x (entry_walker w t k l r) \<and> (k, x) \<in> set kvs"
    if "(k, l, r) \<in> set ?es" "map_of kvs k = Some x" for k l r x
  proof -
    have "l = map_Get (derefMap (mw_lhs w)) k \<and> r = map_Get (derefMap (mw_rhs w)) k"
      using that(1) d assms(2) by (subst (asm) zip_entries_map_of(2)) auto
    then have "l \<in> {None, Some x}" "r \<in> {None, Some x}" "l \<noteq> None \<or> r \<noteq> None"
      using d that(2) by (auto simp: map_Get_def)
    with item_only [OF assms(1)] that(2) show ?thesis by (auto dest: map_of_SomeD)
  qed
  have ent: "\<exists>x. map_of kvs k = Some x \<and> gives x (rec (entry_walker w t k l r) (Some (pe_field k)))"
    if "(k, l, r) \<in> set ?es" for k l r
  proof -
    have "k \<in> set (map fst ?es)" using that by force
    then obtain x where x: "map_of kvs k = Some x" unfolding keys by (metis map_of_eq_None_iff not_None_eq set_map)
    with entry [OF that x] assms(4) [of k x] show ?thesis by (auto simp: merge_prepareDescent_def)
  qed
  have out: "entry_out rec w t e = map_of kvs (fst e)" "entry_out rec w t e \<noteq> None" if "e \<in> set ?es" for e
    using ent [of "fst e" "fst (snd e)" "snd (snd e)"] that by (auto simp: entry_out_def gives_def split_beta)
  have "map (\<lambda>e. (fst e, the (entry_out rec w t e))) ?es = map (\<lambda>k. (k, the (map_of kvs k))) (map fst ?es)"
    using out by (auto simp: comp_def)
  also have "\<dots> = kvs" unfolding keys using assms(2) by (auto intro!: map_idI)
  finally have "fold (\<lambda>e out. case entry_out rec w t e of None \<Rightarrow> out | Some x \<Rightarrow> AList.update (fst e) x out) ?es [] = kvs"
    using out keys assms(2) by (subst fold_update_fresh) auto
  moreover have "concat (map (\<lambda>(k, l, r). fst (rec (entry_walker w t k l r) (Some (pe_field k)))) ?es) = []"
    using ent by (force simp: gives_def)
  ultimately show ?thesis
    unfolding merge_visitMapItems_fold using assms(3) by (simp add: Let_def gives_def)
qed

lemma merge_index_distinct:
  assumes "Schema_ok m sc" "List_ok m t"
  shows "pe_asc m (map fst obs) \<Longrightarrow> list_all (value_ok m) xs \<Longrightarrow> item_keys_ok sc False t xs \<Longrightarrow>
    (\<forall>x \<in> set xs. PathElementMap_Get obs (item_pe sc t x) = None) \<Longrightarrow>
    \<exists>obs'. merge_indexListPathElements sc t d i obs xs = (map (item_pe sc t) xs, obs', []) \<and>
      (\<forall>x \<in> set xs. PathElementMap_Get obs' (item_pe sc t x) = Some x) \<and>
      (\<forall>p. pe_ok m p \<longrightarrow> (\<forall>x \<in> set xs. \<not> PathElement_Equals (item_pe sc t x) p) \<longrightarrow>
        PathElementMap_Get obs' p = PathElementMap_Get obs p)"
proof (induction xs arbitrary: i obs)
  case (Cons x xs)
  obtain pe where pe: "listItemToPathElement sc t x = Inr pe" "item_pe sc t x = pe"
    using Cons.prems(3) by (auto simp: item_keys_ok_def item_pe_def)
  have ok: "pe_ok m pe" "\<forall>y \<in> set xs. pe_ok m (item_pe sc t y)"
    using listItemToPathElement_ok [OF assms _ pe(1)] item_pe_ok [OF assms] Cons.prems(2) by (auto simp: list_all_iff)
  have diff: "\<not> PathElement_Equals pe (item_pe sc t y)" if "y \<in> set xs" for y
    using that Cons.prems(3) pe(2) by (auto simp: item_keys_ok_def)
  let ?obs = "PathElementMap_Insert obs pe x"
  note get = pem.get_insert [OF Cons.prems(1) ok(1), where v = x]
  have "\<forall>y \<in> set xs. PathElementMap_Get ?obs (item_pe sc t y) = None"
    using get ok(2) diff Cons.prems(4) by auto
  moreover have "item_keys_ok sc False t xs" using Cons.prems(3) by (auto simp: item_keys_ok_def)
  ultimately obtain obs' where run: "merge_indexListPathElements sc t d (i + 1) ?obs xs = (map (item_pe sc t) xs, obs', [])"
    and vals: "\<forall>x \<in> set xs. PathElementMap_Get obs' (item_pe sc t x) = Some x"
      "\<forall>p. pe_ok m p \<longrightarrow> (\<forall>x \<in> set xs. \<not> PathElement_Equals (item_pe sc t x) p) \<longrightarrow>
        PathElementMap_Get obs' p = PathElementMap_Get ?obs p"
    using Cons.IH [OF PathElementMap_Insert_asc [OF Cons.prems(1) ok(1)], of x "i + 1"] Cons.prems(2) by auto
  have "\<not> PathElement_Equals (item_pe sc t y) pe" if "y \<in> set xs" for y
    using diff [OF that] pe.eqv_sym [of m "item_pe sc t y" pe] ok that by blast
  then have "PathElementMap_Get obs' pe = Some x" using vals(2) ok(1) get [OF ok(1)] pe.eqv_refl [OF ok(1)] by simp
  moreover have "PathElementMap_Get obs pe = None" using Cons.prems(4) pe(2) by simp
  ultimately show ?case
    using run vals pe get by (auto simp: Let_def)
qed simp

lemma merge_list_loop_right:
  assumes "\<And>x. x \<in> set xs \<Longrightarrow> item (key x) (PathElementMap_Get oL (key x)) (PathElementMap_Get oR (key x)) = Some x"
  shows "length xs \<le> n \<Longrightarrow> merge_list_loop item oL oR n [] (map key xs) Q mg out = Some (out @ xs)"
  using assms
proof (induction n arbitrary: xs Q mg out)
  case (Suc n)
  then show ?case by (cases xs) (auto simp: Let_def)
qed simp

lemma merge_list_loop_left:
  assumes "\<And>x. x \<in> set xs \<Longrightarrow> item (key x) (Some x) None = Some x"
  shows "length xs \<le> n \<Longrightarrow> merge_list_loop item oL [] n (zip (map key xs) xs) [] Q mg out = Some (out @ xs)"
  using assms
proof (induction n arbitrary: xs Q mg out)
  case (Suc n)
  then show ?case by (cases xs) (auto simp: Let_def)
qed simp

lemma merge_list_loop_both:
  assumes "\<And>x. x \<in> set xs \<Longrightarrow> item (key x) (PathElementMap_Get oL (key x)) (PathElementMap_Get oR (key x)) = Some x"
    "\<And>x. x \<in> set xs \<Longrightarrow> PathElement_Equals (key x) (key x)"
  shows "length xs \<le> n \<Longrightarrow> merge_list_loop item oL oR n (zip (map key xs) xs) (map key xs) Q mg out = Some (out @ xs)"
  using assms
proof (induction n arbitrary: xs Q mg out)
  case (Suc n)
  then show ?case by (cases xs) (auto simp: Let_def)
qed simp

lemma merge_list_gives:
  assumes "only (VList xs) w" "Schema_ok m sc" "List_ok m t" "list_all (value_ok m) xs" "xs \<noteq> []" "item_keys_ok sc False t xs"
    and "\<And>x w2 p. x \<in> set xs \<Longrightarrow> only x w2 \<Longrightarrow> mw_typeRef w2 = List_ElementType t \<Longrightarrow> gives x (rec w2 p)"
  shows "gives (VList xs) (merge_visitListItems rec sc w t (derefList (mw_lhs w)) (derefList (mw_rhs w)))"
proof -
  let ?key = "item_pe sc t"
  let ?item = "\<lambda>pe l r. fst (mergeListItem rec w t pe l r)"
  define obs where "obs d = fst (snd (merge_indexListPathElements sc t d 0 [] xs))" for d
  have obs: "merge_indexListPathElements sc t d 0 [] xs = (map ?key xs, obs d, [])"
    "\<forall>x \<in> set xs. PathElementMap_Get (obs d) (?key x) = Some x" for d
    using merge_index_distinct [OF assms(2,3) _ assms(4,6), of "[]" d 0] by (auto simp: obs_def)
  have item: "?item pe l r = Some x" if "x \<in> set xs" "l \<in> {None, Some x}" "r \<in> {None, Some x}" "l \<noteq> None \<or> r \<noteq> None" for pe l r x
    using assms(7) [OF that(1) item_only [OF assms(1) that(2-4)]]
    by (simp add: mergeListItem_def gives_def split_beta merge_prepareDescent_def)
  have refl: "PathElement_Equals (?key x) (?key x)" if "x \<in> set xs" for x
    using that assms(4) item_pe_ok [OF assms(2,3)] pe.eqv_refl [of m] by (auto simp: list_all_iff)
  have deref: "derefList (Some (VList xs)) = Some xs" "derefList None = None"
    by (simp_all add: derefList_def listValue_def or_nil_def)
  consider "mw_lhs w = None" "mw_rhs w = Some (VList xs)" | "mw_lhs w = Some (VList xs)" "mw_rhs w = None"
    | "mw_lhs w = Some (VList xs)" "mw_rhs w = Some (VList xs)"
    using assms(1) by (auto simp: only_def)
  then show ?thesis
  proof cases
    case 1
    then have "merge_list_loop ?item [] (obs False) (length xs) [] (map ?key xs) Q [] [] = Some xs" for Q
      using merge_list_loop_right [of xs ?item ?key "[]" "obs False"] obs(2) item by simp
    with 1 deref obs(1) assms(5) show ?thesis by (simp add: merge_visitListItems_def gives_def)
  next
    case 2
    then have "merge_list_loop ?item (obs True) [] (length xs) (zip (map ?key xs) xs) [] Q [] [] = Some xs" for Q
      using merge_list_loop_left [of xs ?item ?key] obs(2) item by simp
    with 2 deref obs(1) assms(5) show ?thesis by (simp add: merge_visitListItems_def gives_def)
  next
    case 3
    then have "merge_list_loop ?item (obs True) (obs False) (length xs + length xs) (zip (map ?key xs) xs) (map ?key xs) Q [] [] = Some xs" for Q
      using merge_list_loop_both [of xs ?item ?key] obs(2) item refl by simp
    with 3 deref obs(1) assms(5) show ?thesis by (simp add: merge_visitListItems_def gives_def)
  qed
qed

lemma merge_gives:
  assumes "Schema_ok m sc"
  shows "mergeable sc False tr v \<Longrightarrow> TypeRef_ok m tr \<Longrightarrow> value_ok m v \<Longrightarrow> only v w \<Longrightarrow> mw_typeRef w = tr \<Longrightarrow>
    gives v (merge_walk sc ruleKeepRHS None w p)"
proof (induction arbitrary: w p rule: mergeable.induct)
  case (mergeable_null tr a)
  then have d: "derefMap (mw_lhs w) = None" "derefMap (mw_rhs w) = None" "derefList (mw_lhs w) = None" "derefList (mw_rhs w) = None"
    by (auto simp: only_def derefMap_def derefList_def mapValue_def listValue_def or_nil_def)
  let ?leaf = "([], merge_doLeaf ruleKeepRHS w) :: ValidationErrors \<times> mergingWalker"
  have "merge_doMap R ruleKeepRHS w t = ?leaf" "merge_doList R sc ruleKeepRHS w t' = ?leaf" "merge_doScalar ruleKeepRHS w t'' = ?leaf"
    for R t t' t''
    using d mergeable_null.prems(3)
    by (auto simp: merge_doMap_def merge_doList_def merge_doScalar_def validateScalar_def only_def)
  then have "merge_handle R sc ruleKeepRHS w a = ?leaf" for R
    using mergeable_null.hyps(2) by (cases a) (auto simp: merge_handle_def handleAtom_def Atom_zero_def split: option.splits)
  then show ?case
    using mergeable_null doLeaf_gives [OF mergeable_null.prems(3)]
    by (intro merge_walk_gives [of _ _ _ a]) (simp_all add: deduceAtom_def)
next
  case (mergeable_scalar tr a t v)
  have "is_float v \<or> is_int v \<or> is_string v \<or> is_bool v" using mergeable_scalar(3) by (auto simp: scalar_ok_def)
  moreover have "merge_doScalar ruleKeepRHS w t = ([], merge_doLeaf ruleKeepRHS w)"
    using mergeable_scalar(3,6) validateScalar_iff [of v t]
    by (auto simp: merge_doScalar_def only_def validateScalar_def scalar_ok_def)
  ultimately show ?case
    using mergeable_scalar doLeaf_gives
    by (intro merge_walk_gives [of _ _ _ a]) (auto simp: merge_handle_def deduceAtom_handle)
next
  case (mergeable_list tr a t xs)
  have t: "List_ok m t" using Atom_ok_List [OF Resolve_ok [OF assms mergeable_list.prems(1) mergeable_list.hyps(1)] mergeable_list.hyps(2)] .
  let ?R = "\<lambda>w2 p. merge_walk sc ruleKeepRHS None w2 p"
  have "gives (VList xs) (merge_doList ?R sc ruleKeepRHS w t)"
  proof (cases "List_ElementRelationship t = Atomic \<or> xs = []")
    case True
    then show ?thesis
      using doLeaf_gives [OF mergeable_list.prems(3)] mergeable_list.prems(3)
      by (auto simp: merge_doList_def Let_def only_def derefList_def listValue_def or_nil_def)
  next
    case False
    then have "gives (VList xs) (merge_visitListItems ?R sc w t (derefList (mw_lhs w)) (derefList (mw_rhs w)))"
      using mergeable_list.hyps(3) mergeable_list.IH List_ok_ElementType [OF t] mergeable_list.prems(2)
      by (intro merge_list_gives [OF mergeable_list.prems(3) assms t]) (auto simp: list_all_iff)
    then show ?thesis
      using False mergeable_list.prems(3)
      by (auto simp: merge_doList_def Let_def only_def derefList_def listValue_def or_nil_def)
  qed
  with mergeable_list.hyps mergeable_list.prems show ?case
    by (intro merge_walk_gives [of _ _ _ a]) (auto simp: merge_handle_def deduceAtom_handle)
next
  case (mergeable_map tr a t kvs)
  have t: "Map_ok m t" using Atom_ok_Map [OF Resolve_ok [OF assms mergeable_map.prems(1) mergeable_map.hyps(1)] mergeable_map.hyps(2)] .
  let ?R = "\<lambda>w2 p. merge_walk sc ruleKeepRHS None w2 p"
  have "gives (VMap kvs) (merge_doMap ?R ruleKeepRHS w t)"
  proof (cases "Map_ElementRelationship t = Atomic \<or> kvs = []")
    case True
    then show ?thesis
      using doLeaf_gives [OF mergeable_map.prems(3)] mergeable_map.prems(3)
      by (auto simp: merge_doMap_def Let_def only_def derefMap_def mapValue_def or_nil_def)
  next
    case False
    then have "gives (VMap kvs) (merge_visitMapItems ?R w t (derefMap (mw_lhs w)) (derefMap (mw_rhs w)))"
      using mergeable_map.IH Map_ok_field_typeref [OF t] mergeable_map.prems(2)
      by (intro merge_map_gives [OF mergeable_map.prems(3)]) (auto simp: list_all_iff)
    then show ?thesis
      using False mergeable_map.prems(3)
      by (auto simp: merge_doMap_def Let_def only_def derefMap_def mapValue_def or_nil_def)
  qed
  with mergeable_map.hyps mergeable_map.prems show ?case
    by (intro merge_walk_gives [of _ _ _ a]) (auto simp: merge_handle_def deduceAtom_handle)
qed

section \<open>The whole merge ends\<close>

lemma derefMap_ok:
  "pred_option (value_ok m) v \<Longrightarrow> pred_option (\<lambda>l. distinct (map fst l) \<and> list_all (\<lambda>kv. value_ok m (snd kv)) l) (derefMap v)"
  by (cases v; cases "the v") (auto simp: derefMap_def mapValue_def or_nil_def)

lemma derefMap_Get_inside: "inside v (map_Get (derefMap v) k)"
proof (cases "map_Get (derefMap v) k")
  case (Some x)
  then obtain kvs where "derefMap v = Some kvs" "x \<in> snd ` set kvs" using map_Get_in by metis
  then show ?thesis using derefMap_children [of v] Some by (auto simp: inside_def)
qed (simp add: inside_def)

lemma derefMap_Get_ok: "pred_option (value_ok m) v \<Longrightarrow> pred_option (value_ok m) (map_Get (derefMap v) k)"
  using derefMap_ok [of m v] map_Get_in [of "derefMap v" k]
  by (cases "map_Get (derefMap v) k") (force simp: list_all_iff)+

lemma merge_doMap_ends:
  assumes "Map_ok m t" "pred_option (value_ok m) (mw_lhs w)" "pred_option (value_ok m) (mw_rhs w)"
    and "\<And>w2 p. descends w w2 \<Longrightarrow> TypeRef_ok m (mw_typeRef w2) \<Longrightarrow> pred_option (value_ok m) (mw_lhs w2) \<Longrightarrow>
      pred_option (value_ok m) (mw_rhs w2) \<Longrightarrow> ends (fst (rec w2 p))"
  shows "ends (fst (merge_doMap rec rule w t))"
proof -
  have dist: "pred_option (\<lambda>l. distinct (map fst l)) (derefMap (mw_lhs w))" "pred_option (\<lambda>l. distinct (map fst l)) (derefMap (mw_rhs w))"
    using derefMap_ok [OF assms(2)] derefMap_ok [OF assms(3)] by (auto elim: option.pred_mono_strong)
  have "ends (fst (rec (entry_walker w t k l r) (Some (pe_field k))))"
    if "(k, l, r) \<in> set (zip_entries (derefMap (mw_lhs w)) (derefMap (mw_rhs w)))" for k l r
    using that unfolding zip_entries_map_of(2) [OF dist]
    using derefMap_Get_inside derefMap_Get_ok assms(2,3) Map_ok_field_typeref [OF assms(1)]
    by (intro assms(4)) (auto simp: descends_def merge_prepareDescent_def)
  then have "ends (fst (merge_visitMapItems rec w t (derefMap (mw_lhs w)) (derefMap (mw_rhs w))))"
    unfolding merge_visitMapItems_fold by (fastforce simp: Let_def list_all_iff)
  then show ?thesis by (simp add: merge_doMap_def Let_def)
qed

lemma merge_walk_ends:
  assumes "Schema_ok m sc"
  shows "TypeRef_ok m (mw_typeRef w) \<Longrightarrow> pred_option (value_ok m) (mw_lhs w) \<Longrightarrow> pred_option (value_ok m) (mw_rhs w) \<Longrightarrow>
    ends (fst (merge_walk sc rule hook w p))"
proof (induction w arbitrary: p rule: measure_induct_rule [of "\<lambda>w. size_opt (mw_lhs w) + size_opt (mw_rhs w)"])
  case (less w)
  let ?R = "\<lambda>w2 p. merge_walk sc rule hook w2 p"
  show ?case
  proof (cases "mw_lhs w = None \<and> mw_rhs w = None")
    case True
    then show ?thesis by (simp add: merge_walk.simps [of sc rule hook w] errorf_def)
  next
    case False
    have handle: "ends (fst (merge_handle ?R sc rule w b))" if "Atom_ok m b" for b
    proof -
      have "ends (fst (merge_doMap ?R rule w t))" if "Map_ok m t" for t
        using less that descends_size [OF _ False] by (intro merge_doMap_ends) auto
      moreover have "ends (fst (merge_doList ?R sc rule w t))" if "List_ok m t" for t
        using less.prems that by (intro merge_doList_ends [OF assms])
      moreover have "ends (fst (merge_doScalar rule w t))" for t
        using validateScalar_ends [of t] by (simp add: merge_doScalar_def Let_def)
      ultimately show ?thesis
        using Atom_ok_List [OF that] Atom_ok_Map [OF that]
        by (auto simp: merge_handle_def handleAtom_def errorf_def split: option.splits)
    qed
    show ?thesis
    proof (cases "Resolve sc (mw_typeRef w)")
      case None
      with False show ?thesis by (auto simp: merge_walk.simps [of sc rule hook w] errorf_def)
    next
      case (Some a)
      have "Atom_ok m (deduceAtom a v)" for v using deduceAtom_ok [OF Resolve_ok [OF assms less.prems(1) Some]] .
      then have "ends (fst (merge_handle ?R sc rule w (deduceAtom a v)))" for v using handle by blast
      with False Some show ?thesis by (auto simp: merge_walk.simps [of sc rule hook w] Let_def split_beta)
    qed
  qed
qed

end
