(* ===== verification/Compare_Values.thy ===== *)
theory Compare_Values
  imports Merge_Laws
begin

text \<open>
  \<^verbatim>\<open>typed/compare.go\<close>: comparing two values of one type into the sets of removed, modified and added
  fields.  The comparison is shared by all walkers of a run and is threaded through the calls.
\<close>

section \<open>Comparisons\<close>

record Comparison =
  Removed :: FieldSet
  Modified :: FieldSet
  Added :: FieldSet

definition Comparison_empty :: Comparison where
  "Comparison_empty = \<lparr>Removed = NewSet [], Modified = NewSet [], Added = NewSet []\<rparr>"

definition Comparison_IsSame :: "Comparison \<Rightarrow> bool" where
  "Comparison_IsSame c \<longleftrightarrow> Set_Empty (Removed c) \<and> Set_Empty (Modified c) \<and> Set_Empty (Added c)"

definition Comparison_ExcludeFields :: "Comparison \<Rightarrow> FieldSet option \<Rightarrow> Comparison" where
  "Comparison_ExcludeFields c excluded =
     (case excluded of
        None \<Rightarrow> c
      | Some f \<Rightarrow>
          if Set_Empty f then c
          else \<lparr>Removed = Set_RecursiveDifference (Removed c) f,
                Modified = Set_RecursiveDifference (Modified c) f,
                Added = Set_RecursiveDifference (Added c) f\<rparr>)"

definition insert_Removed :: "Path \<Rightarrow> Comparison \<Rightarrow> Comparison" where
  "insert_Removed p c = c\<lparr>Removed := Set_Insert (Removed c) p\<rparr>"

definition insert_Modified :: "Path \<Rightarrow> Comparison \<Rightarrow> Comparison" where
  "insert_Modified p c = c\<lparr>Modified := Set_Insert (Modified c) p\<rparr>"

definition insert_Added :: "Path \<Rightarrow> Comparison \<Rightarrow> Comparison" where
  "insert_Added p c = c\<lparr>Added := Set_Insert (Added c) p\<rparr>"

section \<open>The walker\<close>

record compareWalker =
  cw_lhs :: "Value option"
  cw_rhs :: "Value option"
  cw_typeRef :: TypeRef
  cw_path :: Path
  cw_inLeaf :: bool

type_synonym comparer = "compareWalker \<Rightarrow> PathElement option \<Rightarrow> Comparison \<Rightarrow> ValidationErrors \<times> Comparison"

text \<open>The handlers also return \<^verbatim>\<open>w.inLeaf\<close>, the one field of the walker they change.\<close>

type_synonym compared = "ValidationErrors \<times> Comparison \<times> bool"

definition compare_doLeaf :: "compareWalker \<Rightarrow> Comparison \<Rightarrow> Comparison" where
  "compare_doLeaf w c =
     (if cw_inLeaf w then c
      else case cw_lhs w of
             None \<Rightarrow> insert_Added (cw_path w) c
           | Some l \<Rightarrow> (case cw_rhs w of
               None \<Rightarrow> insert_Removed (cw_path w) c
             | Some r \<Rightarrow> if \<not> Equals r l then insert_Modified (cw_path w) c else c))"

definition compare_doScalar :: "compareWalker \<Rightarrow> Comparison \<Rightarrow> Scalar \<Rightarrow> compared" where
  "compare_doScalar w c t =
     (let lerrs = validateScalar t (cw_lhs w); rerrs = validateScalar t (cw_rhs w)
      in if length lerrs > 0 \<and> length rerrs > 0 then (lerrs @ rerrs, c, cw_inLeaf w)
         else ([], compare_doLeaf w c, True))"

definition compare_prepareDescent :: "compareWalker \<Rightarrow> PathElement \<Rightarrow> TypeRef \<Rightarrow> compareWalker" where
  "compare_prepareDescent w pe tr =
     w\<lparr>cw_typeRef := tr, cw_path := cw_path w @ [pe], cw_lhs := None, cw_rhs := None\<rparr>"

text \<open>Gathering the items of one side by path element, in lists to hold duplicates; \<open>fresh\<close> says whether a
  new path element is appended to \<^verbatim>\<open>allPEs\<close>.\<close>

fun gather_items ::
  "TypeDef list \<Rightarrow> SList \<Rightarrow> (PathElement \<Rightarrow> bool) \<Rightarrow> nat \<Rightarrow> Value list PathElementMap \<Rightarrow> PathElement list \<Rightarrow> Value list \<Rightarrow>
   Value list PathElementMap \<times> PathElement list \<times> ValidationErrors" where
  "gather_items sc t fresh i values allPEs [] = (values, allPEs, [])"
| "gather_items sc t fresh i values allPEs (child # rest) =
     (case listItemToPathElement sc t child of
        Inl err \<Rightarrow>
          (let (vs, pes, errs) = gather_items sc t fresh (i + 1) values allPEs rest in (vs, pes, errorf (Element i err) @ errs))
      | Inr pe \<Rightarrow>
          (case PathElementMap_Get values pe of
             Some lst \<Rightarrow>
               gather_items sc t fresh (i + 1) (PathElementMap_Insert values pe (lst @ [child])) allPEs rest
           | None \<Rightarrow>
               gather_items sc t fresh (i + 1) (PathElementMap_Insert values pe [child])
                 (if fresh pe then allPEs @ [pe] else allPEs) rest))"

definition compareListItem ::
  "comparer \<Rightarrow> compareWalker \<Rightarrow> SList \<Rightarrow> PathElement \<Rightarrow> Value option \<Rightarrow> Value option \<Rightarrow> Comparison \<Rightarrow> ValidationErrors \<times> Comparison" where
  "compareListItem rec w t pe lChild rChild c =
     rec ((compare_prepareDescent w pe (List_ElementType t))\<lparr>cw_lhs := lChild, cw_rhs := rChild\<rparr>) (Some pe) c"

text \<open>The loop over all path elements, with what to do for each kind of pair of lists.\<close>

fun compare_list_items ::
  "comparer \<Rightarrow> compareWalker \<Rightarrow> SList \<Rightarrow> Value list PathElementMap \<Rightarrow> Value list PathElementMap \<Rightarrow> PathElement list \<Rightarrow>
   Comparison \<Rightarrow> ValidationErrors \<times> Comparison" where
  "compare_list_items rec w t lValues rValues [] c = ([], c)"
| "compare_list_items rec w t lValues rValues (pe # pes) c =
     (let lList = case_option [] id (PathElementMap_Get lValues pe);
          rList = case_option [] id (PathElementMap_Get rValues pe);
          path = cw_path w @ [pe]
      in if lList = [] \<and> rList = [] then ([], c)
         else
           let (errs, c') =
             (if length lList \<le> 1 \<and> length rList \<le> 1 then
                compareListItem rec w t pe (if lList \<noteq> [] then Some (lList ! 0) else None)
                  (if rList \<noteq> [] then Some (rList ! 0) else None) c
              else if length lList \<ge> 2 \<and> length rList \<ge> 2 then
                ([], if \<not> ListEqualsUsing Equals lList rList then insert_Modified path c else c)
              else if length lList \<ge> 2 then
                (let (e, c1) = (if rList \<noteq> [] then compareListItem rec w t pe None (Some (rList ! 0)) c else ([], c))
                 in (e, insert_Removed path c1))
              else
                (let (e, c1) = (if lList \<noteq> [] then compareListItem rec w t pe (Some (lList ! 0)) None c else ([], c))
                 in (e, insert_Added path c1)));
             (errs', c'') = compare_list_items rec w t lValues rValues pes c'
           in (errs @ errs', c''))"

definition compare_visitListItems ::
  "comparer \<Rightarrow> TypeDef list \<Rightarrow> compareWalker \<Rightarrow> SList \<Rightarrow> Value list option \<Rightarrow> Value list option \<Rightarrow> Comparison \<Rightarrow>
   ValidationErrors \<times> Comparison" where
  "compare_visitListItems rec sc w t lhs rhs c =
     (let (lValues, allPEs, lErrs) = gather_items sc t (\<lambda>_. True) 0 [] [] (case_option [] id lhs);
          (rValues, allPEs', rErrs) =
            gather_items sc t (\<lambda>pe. PathElementMap_Get lValues pe = None) 0 [] allPEs (case_option [] id rhs);
          (errs, c') = compare_list_items rec w t lValues rValues allPEs' c
      in (lErrs @ rErrs @ errs, c'))"

definition compare_doList :: "comparer \<Rightarrow> TypeDef list \<Rightarrow> compareWalker \<Rightarrow> Comparison \<Rightarrow> SList \<Rightarrow> compared" where
  "compare_doList rec sc w c t =
     (let lhs = derefList (cw_lhs w); rhs = derefList (cw_rhs w);
          emptyPromoteToLeaf = ((lhs = None \<or> lhs = Some []) \<and> (rhs = None \<or> rhs = Some []))
      in if List_ElementRelationship t = Atomic \<or> emptyPromoteToLeaf then ([], compare_doLeaf w c, True)
         else if lhs = None \<and> rhs = None then ([], c, cw_inLeaf w)
         else let (errs, c') = compare_visitListItems rec sc w t lhs rhs c in (errs, c', cw_inLeaf w))"

definition compare_visitMapItem ::
  "comparer \<Rightarrow> compareWalker \<Rightarrow> SMap \<Rightarrow> string \<Rightarrow> Value option \<Rightarrow> Value option \<Rightarrow> Comparison \<Rightarrow> ValidationErrors \<times> Comparison" where
  "compare_visitMapItem rec w t key lhs rhs c =
     rec ((compare_prepareDescent w (pe_field key) (field_typeref t key))\<lparr>cw_lhs := lhs, cw_rhs := rhs\<rparr>) (Some (pe_field key)) c"

definition compare_visitMapItems ::
  "comparer \<Rightarrow> compareWalker \<Rightarrow> SMap \<Rightarrow> GoMap option \<Rightarrow> GoMap option \<Rightarrow> Comparison \<Rightarrow> ValidationErrors \<times> Comparison" where
  "compare_visitMapItems rec w t lhs rhs c =
     snd (MapZipUsing lhs rhs Unordered
       (\<lambda>key l r (errs, c). let (errs', c') = compare_visitMapItem rec w t key l r c in (True, errs @ errs', c'))
       ([], c))"

definition compare_doMap :: "comparer \<Rightarrow> compareWalker \<Rightarrow> Comparison \<Rightarrow> SMap \<Rightarrow> compared" where
  "compare_doMap rec w c t =
     (let lhs = derefMap (cw_lhs w); rhs = derefMap (cw_rhs w);
          emptyPromoteToLeaf = ((lhs = None \<or> lhs = Some []) \<and> (rhs = None \<or> rhs = Some []))
      in if Map_ElementRelationship t = Atomic \<or> emptyPromoteToLeaf then ([], compare_doLeaf w c, True)
         else if lhs = None \<and> rhs = None then ([], c, cw_inLeaf w)
         else let (errs, c') = compare_visitMapItems rec w t lhs rhs c in (errs, c', cw_inLeaf w))"

definition compare_handle :: "comparer \<Rightarrow> TypeDef list \<Rightarrow> compareWalker \<Rightarrow> Comparison \<Rightarrow> Atom \<Rightarrow> compared" where
  "compare_handle rec sc w c a =
     handleAtom (compare_doScalar w c) (compare_doList rec sc w c) (compare_doMap rec w c)
       (\<lambda>errs. (errs, c, cw_inLeaf w)) a (cw_typeRef w)"

section \<open>Every descent is to smaller values\<close>

definition cw_descends :: "compareWalker \<Rightarrow> compareWalker \<Rightarrow> bool" where
  "cw_descends w w2 \<longleftrightarrow> inside (cw_lhs w) (cw_lhs w2) \<and> inside (cw_rhs w) (cw_rhs w2)"

lemma gather_values:
  "(\<Union>v \<in> snd ` set vals. set v) \<subseteq> A \<Longrightarrow> set xs \<subseteq> A \<Longrightarrow>
    (\<Union>v \<in> snd ` set (fst (gather_items sc t fresh i vals pes xs)). set v) \<subseteq> A"
proof (induction xs arbitrary: i vals pes)
  case (Cons x xs)
  have sub: "snd ` set (PathElementMap_Insert vals pe w) \<subseteq> insert w (snd ` set vals)" for pe w
    using PathElementMap_Insert_set [of vals pe w] by force
  have IH: "(\<Union>v \<in> snd ` set (fst (gather_items sc t fresh i' (PathElementMap_Insert vals pe w) pes' xs)). set v) \<subseteq> A"
    if "set w \<subseteq> A" for i' pe w pes'
  proof (rule Cons.IH)
    show "(\<Union>v \<in> snd ` set (PathElementMap_Insert vals pe w). set v) \<subseteq> A" using sub [of pe w] Cons.prems(1) that by blast
  qed (use Cons.prems(2) in simp)
  have "set lst \<subseteq> A" if "PathElementMap_Get vals pe = Some lst" for pe lst
    using PathElementMap_Get_in [OF that] Cons.prems(1) by blast
  then show ?case
    using IH Cons.IH [of vals] Cons.prems
    by (cases "listItemToPathElement sc t x"; cases "PathElementMap_Get vals (projr (listItemToPathElement sc t x))")
       (simp_all add: split_beta)
qed simp

lemma gathered_inside:
  assumes "set xs \<subseteq> children v" "x \<in> set (case_option [] id (PathElementMap_Get (fst (gather_items sc t fresh 0 [] pes xs)) pe))"
  shows "inside v (Some x)"
proof (cases "PathElementMap_Get (fst (gather_items sc t fresh 0 [] pes xs)) pe")
  case (Some l)
  then have "x \<in> set l" using assms(2) by simp
  moreover have "(\<Union>v \<in> snd ` set (fst (gather_items sc t fresh 0 [] pes xs)). set v) \<subseteq> children v"
    using assms(1) by (intro gather_values) simp_all
  ultimately show ?thesis using PathElementMap_Get_in [OF Some] by (auto simp: inside_def)
next
  case None
  then show ?thesis using assms(2) by simp
qed

lemma compare_list_items_cong:
  assumes "\<And>w2 p c. cw_descends w w2 \<Longrightarrow> f w2 p c = g w2 p c"
    and "\<And>pe x. x \<in> set (case_option [] id (PathElementMap_Get lv pe)) \<Longrightarrow> inside (cw_lhs w) (Some x)"
    and "\<And>pe x. x \<in> set (case_option [] id (PathElementMap_Get rv pe)) \<Longrightarrow> inside (cw_rhs w) (Some x)"
  shows "compare_list_items f w t lv rv pes c = compare_list_items g w t lv rv pes c"
proof (induction pes arbitrary: c)
  case (Cons pe pes)
  define l r where "l = case_option [] id (PathElementMap_Get lv pe)" and "r = case_option [] id (PathElementMap_Get rv pe)"
  have "inside (cw_lhs w) (Some (l ! 0))" if "l \<noteq> []" using that unfolding l_def by (intro assms(2) [of _ pe] nth_mem) auto
  moreover have "inside (cw_rhs w) (Some (r ! 0))" if "r \<noteq> []" using that unfolding r_def by (intro assms(3) [of _ pe] nth_mem) auto
  ultimately have "compareListItem f w t pe x y c = compareListItem g w t pe x y c"
    if "x \<in> {None, if l \<noteq> [] then Some (l ! 0) else None}" "y \<in> {None, if r \<noteq> [] then Some (r ! 0) else None}" for x y c
    using that unfolding compareListItem_def
    by (intro assms(1)) (auto simp: cw_descends_def inside_def [of _ None] split: if_splits)
  then show ?case
    unfolding compare_list_items.simps Let_def l_def [symmetric] r_def [symmetric]
    using Cons.IH by (auto split: prod.splits if_splits)
qed simp

lemma compare_doList_cong:
  assumes "\<And>w2 p c. cw_descends w w2 \<Longrightarrow> f w2 p c = g w2 p c"
  shows "compare_doList f sc w c t = compare_doList g sc w c t"
proof -
  define l r where "l = case_option [] id (derefList (cw_lhs w))" and "r = case_option [] id (derefList (cw_rhs w))"
  have sub: "set l \<subseteq> children (cw_lhs w)" "set r \<subseteq> children (cw_rhs w)"
    unfolding l_def r_def by (rule derefList_children)+
  have "compare_list_items f w t (fst (gather_items sc t (\<lambda>_. True) 0 [] [] l)) (fst (gather_items sc t fr 0 [] pes' r)) pes c =
      compare_list_items g w t (fst (gather_items sc t (\<lambda>_. True) 0 [] [] l)) (fst (gather_items sc t fr 0 [] pes' r)) pes c"
    for fr pes' pes c
    using assms gathered_inside [OF sub(1)] gathered_inside [OF sub(2)] by (intro compare_list_items_cong)
  then have "compare_visitListItems f sc w t (derefList (cw_lhs w)) (derefList (cw_rhs w)) c =
      compare_visitListItems g sc w t (derefList (cw_lhs w)) (derefList (cw_rhs w)) c"
    unfolding compare_visitListItems_def l_def [symmetric] r_def [symmetric] Let_def split_beta by (simp only:)
  then show ?thesis unfolding compare_doList_def Let_def by (simp only:)
qed

lemma compare_doMap_cong:
  assumes "\<And>w2 p c. cw_descends w w2 \<Longrightarrow> f w2 p c = g w2 p c"
  shows "compare_doMap f w c t = compare_doMap g w c t"
proof -
  have "inside v l" if "\<And>x. l = Some x \<Longrightarrow> x \<in> snd ` set (case_option [] id (derefMap v))" for v l
  proof (cases l)
    case (Some x)
    then show ?thesis using that [OF Some] derefMap_children [of v] by (simp only: inside_def option.case) blast
  qed (simp add: inside_def)
  moreover have "compare_visitMapItem f w t k l r c = compare_visitMapItem g w t k l r c"
    if "inside (cw_lhs w) l" "inside (cw_rhs w) r" for k l r c
    unfolding compare_visitMapItem_def using that by (intro assms) (simp add: cw_descends_def)
  ultimately have "compare_visitMapItems f w t (derefMap (cw_lhs w)) (derefMap (cw_rhs w)) c =
      compare_visitMapItems g w t (derefMap (cw_lhs w)) (derefMap (cw_rhs w)) c"
    unfolding compare_visitMapItems_def
    by (subst MapZipUsing_Unordered_cong [where g = "\<lambda>key l r (errs, c).
          let (errs', c') = compare_visitMapItem g w t key l r c in (True, errs @ errs', c')"])
       simp_all
  then show ?thesis unfolding compare_doMap_def Let_def by (simp only:)
qed

lemma compare_handle_cong [fundef_cong]:
  assumes "sc = sc'" "w = w'" "c = c'" "a = a'" "\<And>w2 p c. cw_descends w' w2 \<Longrightarrow> f w2 p c = g w2 p c"
  shows "compare_handle f sc w c a = compare_handle g sc' w' c' a'"
  unfolding assms(1-4) compare_handle_def
  using compare_doList_cong [of w' f g] compare_doMap_cong [of w' f g] assms(5) by (intro handleAtom_cong) simp_all

section \<open>Compare\<close>

lemma cw_descends_size:
  assumes "cw_descends w w2" "\<not> (cw_lhs w = None \<and> cw_rhs w = None)"
  shows "size_opt (cw_lhs w2) + size_opt (cw_rhs w2) < size_opt (cw_lhs w) + size_opt (cw_rhs w)"
  using assms inside_size [of "cw_lhs w" "cw_lhs w2"] inside_size [of "cw_rhs w" "cw_rhs w2"]
  by (cases "cw_lhs w"; cases "cw_rhs w") (auto simp: cw_descends_def)

function compare_walk ::
  "TypeDef list \<Rightarrow> compareWalker \<Rightarrow> PathElement option \<Rightarrow> Comparison \<Rightarrow> ValidationErrors \<times> Comparison" where
  "compare_walk sc w prefixFn c =
     (if cw_lhs w = None \<and> cw_rhs w = None then (errorf Nothing_Provided, c)
      else case Resolve sc (cw_typeRef w) of
        None \<Rightarrow> (errorf (if NamedType (cw_typeRef w) = None then Panic else No_Type (NamedType (cw_typeRef w))), c)
      | Some a \<Rightarrow>
          let alhs = deduceAtom a (cw_lhs w); arhs = deduceAtom a (cw_rhs w);
              (errs, c', inLeaf) =
                (if cw_rhs w = None then compare_handle (\<lambda>w2 p c. compare_walk sc w2 p c) sc w c alhs
                 else if cw_lhs w = None \<or> Atom_Equals alhs arhs then
                   compare_handle (\<lambda>w2 p c. compare_walk sc w2 p c) sc w c arhs
                 else let (errs1, c1, _) = compare_handle (\<lambda>w2 p c. compare_walk sc w2 p c) sc w c alhs;
                          (errs2, c2, lf) = compare_handle (\<lambda>w2 p c. compare_walk sc w2 p c) sc w c1 arhs
                      in (errs1 @ errs2, c2, lf));
              c'' = (if \<not> inLeaf then
                       (if cw_lhs w = None then insert_Added (cw_path w) c'
                        else if cw_rhs w = None then insert_Removed (cw_path w) c' else c')
                     else c')
          in (ValidationErrors_WithLazyPrefix prefixFn errs, c''))"
  by pat_completeness auto
termination
  by (relation "measure (\<lambda>(sc, w, p, c). size_opt (cw_lhs w) + size_opt (cw_rhs w))") (auto dest: cw_descends_size)

declare compare_walk.simps [simp del]

end
