(* ===== verification/Compare_Sets.thy ===== *)
theory Compare_Sets
  imports Compare_Laws
begin

text \<open>
  The sets of a comparison during the walk: they stay well-formed and only grow, whatever errors are met;
  and a difference at a leaf below granular maps ends in the right one of the three sets.
\<close>

section \<open>Growing comparisons\<close>

definition Comparison_ok :: "num_mode \<Rightarrow> Comparison \<Rightarrow> bool" where
  "Comparison_ok m c \<longleftrightarrow> Set_wf m (Removed c) \<and> Set_wf m (Modified c) \<and> Set_wf m (Added c)"

definition grows :: "num_mode \<Rightarrow> Comparison \<Rightarrow> Comparison \<Rightarrow> bool" where
  "grows m c c' \<longleftrightarrow> (Comparison_ok m c \<longrightarrow> Comparison_ok m c' \<and>
     (\<forall>p. path_ok m p \<longrightarrow> (Set_Has (Removed c) p \<longrightarrow> Set_Has (Removed c') p) \<and>
        (Set_Has (Modified c) p \<longrightarrow> Set_Has (Modified c') p) \<and> (Set_Has (Added c) p \<longrightarrow> Set_Has (Added c') p)))"

lemma grows_refl [simp]: "grows m c c"
  by (simp add: grows_def)

lemma grows_trans: "grows m a b \<Longrightarrow> grows m b c \<Longrightarrow> grows m a c"
  by (auto simp: grows_def)

lemma Comparison_empty_ok [simp]: "Comparison_ok m Comparison_empty"
  using NewSet_wf [of m "[]"] by (simp add: Comparison_ok_def Comparison_empty_def)

lemma grows_insert [simp]:
  assumes "path_ok m p"
  shows "grows m c (insert_Removed p c)" "grows m c (insert_Modified p c)" "grows m c (insert_Added p c)"
  using assms
  by (auto simp: grows_def Comparison_ok_def insert_Removed_def insert_Modified_def insert_Added_def
      Set_Insert_wf Set_Insert_Has [of m])

lemma insert_reported:
  assumes "Comparison_ok m c" "path_ok m p" "p \<noteq> []"
  shows "Set_Has (Removed (insert_Removed p c)) p" "Set_Has (Modified (insert_Modified p c)) p"
    "Set_Has (Added (insert_Added p c)) p"
  using assms path.eqv_refl [of m p]
  by (auto simp: Comparison_ok_def insert_Removed_def insert_Modified_def insert_Added_def Set_Insert_Has [of m])

lemma fold_grows:
  "(\<And>e s. e \<in> set es \<Longrightarrow> grows m (snd s) (snd (h e s))) \<Longrightarrow> grows m (snd s) (snd (fold h es s))"
proof (induction es arbitrary: s)
  case (Cons e es)
  have "grows m (snd s) (snd (h e s))" using Cons.prems by simp
  moreover have "grows m (snd (h e s)) (snd (fold h es (h e s)))" using Cons by simp
  ultimately show ?case by (auto intro: grows_trans)
qed simp

section \<open>The walk\<close>

definition cw_ok :: "num_mode \<Rightarrow> compareWalker \<Rightarrow> bool" where
  "cw_ok m w \<longleftrightarrow> path_ok m (cw_path w) \<and> TypeRef_ok m (cw_typeRef w) \<and>
     pred_option (value_ok m) (cw_lhs w) \<and> pred_option (value_ok m) (cw_rhs w)"

lemma doLeaf_grows: "cw_ok m w \<Longrightarrow> grows m c (compare_doLeaf w c)"
  by (auto simp: compare_doLeaf_def cw_ok_def split: option.splits)

lemma inside_ok: "inside v x \<Longrightarrow> pred_option (value_ok m) v \<Longrightarrow> pred_option (value_ok m) x"
  using children_ok [of _ v m] by (auto simp: inside_def split: option.splits)

lemma gather_pes_ok:
  assumes "Schema_ok m sc" "List_ok m t"
  shows "list_all (value_ok m) xs \<Longrightarrow> list_all (pe_ok m) pes \<Longrightarrow>
    list_all (pe_ok m) (fst (snd (gather_items sc t fresh i vals pes xs)))"
proof (induction xs arbitrary: i vals pes)
  case (Cons x xs)
  have "pe_ok m pe" if "listItemToPathElement sc t x = Inr pe" for pe
    using listItemToPathElement_ok [OF assms _ that] Cons.prems(1) by simp
  then show ?case using Cons by (auto simp: split_beta split: sum.splits option.splits)
qed simp

lemma compareListItem_grows:
  assumes "\<And>w2 p c. cw_ok m w2 \<Longrightarrow> cw_descends w w2 \<Longrightarrow> grows m c (snd (rec w2 p c))"
    and "cw_ok m w" "List_ok m t" "pe_ok m pe" "inside (cw_lhs w) x" "inside (cw_rhs w) y"
  shows "grows m c (snd (compareListItem rec w t pe x y c))"
  unfolding compareListItem_def using assms(2-) inside_ok [of "cw_lhs w" x m] inside_ok [of "cw_rhs w" y m]
  by (intro assms(1)) (auto simp: cw_ok_def cw_descends_def compare_prepareDescent_def List_ok_ElementType)

lemma compare_list_items_grows:
  assumes rec: "\<And>w2 p c. cw_ok m w2 \<Longrightarrow> cw_descends w w2 \<Longrightarrow> grows m c (snd (rec w2 p c))"
    and "cw_ok m w" "List_ok m t" "list_all (pe_ok m) pes"
    and "\<And>pe x. x \<in> set (case_option [] id (PathElementMap_Get lv pe)) \<Longrightarrow> inside (cw_lhs w) (Some x)"
    and "\<And>pe x. x \<in> set (case_option [] id (PathElementMap_Get rv pe)) \<Longrightarrow> inside (cw_rhs w) (Some x)"
  shows "grows m c (snd (compare_list_items rec w t lv rv pes c))"
  using assms(4)
proof (induction pes arbitrary: c)
  case (Cons pe pes)
  define l r where "l = case_option [] id (PathElementMap_Get lv pe)" and "r = case_option [] id (PathElementMap_Get rv pe)"
  have l: "inside (cw_lhs w) (Some (l ! 0))" if "l \<noteq> []" using that unfolding l_def by (intro assms(5) [of _ pe] nth_mem) auto
  have r: "inside (cw_rhs w) (Some (r ! 0))" if "r \<noteq> []" using that unfolding r_def by (intro assms(6) [of _ pe] nth_mem) auto
  have item: "grows m c (snd (compareListItem rec w t pe x y c))"
    if "x \<in> {None, if l \<noteq> [] then Some (l ! 0) else None}" "y \<in> {None, if r \<noteq> [] then Some (r ! 0) else None}" for x y c
    using that l r Cons.prems by (intro compareListItem_grows [OF rec assms(2,3)]) (auto simp: inside_def [of _ None])
  have path: "path_ok m (cw_path w @ [pe])" using assms(2) Cons.prems by (simp add: cw_ok_def)
  note marks = grows_insert [OF path]
  have tail: "grows m c (snd (compare_list_items rec w t lv rv pes c'))" if "grows m c c'" for c'
    using that Cons by (auto intro: grows_trans)
  show ?case
    unfolding compare_list_items.simps Let_def l_def [symmetric] r_def [symmetric]
    using item [of None] item [of "if l \<noteq> [] then Some (l ! 0) else None"] marks
    by (auto simp: split_beta intro!: tail intro: grows_trans [OF _ marks(1)] grows_trans [OF _ marks(3)] split: if_splits)
qed simp

lemma compare_doList_grows:
  assumes rec: "\<And>w2 p c. cw_ok m w2 \<Longrightarrow> cw_descends w w2 \<Longrightarrow> grows m c (snd (rec w2 p c))"
    and "Schema_ok m sc" "cw_ok m w" "List_ok m t"
  shows "grows m c (fst (snd (compare_doList rec sc w c t)))"
proof -
  define l r where "l = case_option [] id (derefList (cw_lhs w))" and "r = case_option [] id (derefList (cw_rhs w))"
  have sub: "set l \<subseteq> children (cw_lhs w)" "set r \<subseteq> children (cw_rhs w)"
    unfolding l_def r_def by (rule derefList_children)+
  have ok: "list_all (value_ok m) l" "list_all (value_ok m) r"
    using sub children_ok [of _ "cw_lhs w" m] children_ok [of _ "cw_rhs w" m] assms(3) by (auto simp: list_all_iff cw_ok_def)
  note pes = gather_pes_ok [OF assms(2,4) ok(2) gather_pes_ok [OF assms(2,4) ok(1) list.pred_inject(1)]]
  have "grows m c (snd (compare_visitListItems rec sc w t (derefList (cw_lhs w)) (derefList (cw_rhs w)) c))"
    unfolding compare_visitListItems_def l_def [symmetric] r_def [symmetric] Let_def split_beta fst_conv snd_conv
    using assms pes gathered_inside [OF sub(1)] gathered_inside [OF sub(2)] by (intro compare_list_items_grows)
  then show ?thesis using doLeaf_grows [OF assms(3)] by (simp add: compare_doList_def Let_def split_beta)
qed

lemma zip_entries_inside:
  assumes "(k, l, r) \<in> set (zip_entries (derefMap v) (derefMap u))" "pred_option (value_ok m) v" "pred_option (value_ok m) u"
  shows "inside v l" "inside u r"
proof -
  have "pred_option (\<lambda>l. distinct (map fst l)) (derefMap x)" if "pred_option (value_ok m) x" for x
    using derefMap_ok [OF that] by (cases "derefMap x") auto
  then have "l = map_Get (derefMap v) k" "r = map_Get (derefMap u) k"
    using assms zip_entries_map_of(2) [of "derefMap v" "derefMap u" k l r] by auto
  then show "inside v l" "inside u r" using derefMap_Get_inside by simp_all
qed

lemma compare_visitMapItem_grows:
  assumes rec: "\<And>w2 p c. cw_ok m w2 \<Longrightarrow> cw_descends w w2 \<Longrightarrow> grows m c (snd (rec w2 p c))"
    and "cw_ok m w" "Map_ok m t" "(k, l, r) \<in> set (zip_entries (derefMap (cw_lhs w)) (derefMap (cw_rhs w)))"
  shows "grows m c (snd (compare_visitMapItem rec w t k l r c))"
proof -
  have "inside (cw_lhs w) l" "inside (cw_rhs w) r" using zip_entries_inside [OF assms(4)] assms(2) by (auto simp: cw_ok_def)
  then show ?thesis
    unfolding compare_visitMapItem_def using assms(2,3) inside_ok [of "cw_lhs w" l m] inside_ok [of "cw_rhs w" r m]
    by (intro rec) (auto simp: cw_ok_def cw_descends_def compare_prepareDescent_def Map_ok_field_typeref)
qed

lemma compare_doMap_grows:
  assumes rec: "\<And>w2 p c. cw_ok m w2 \<Longrightarrow> cw_descends w w2 \<Longrightarrow> grows m c (snd (rec w2 p c))"
    and "cw_ok m w" "Map_ok m t"
  shows "grows m c (fst (snd (compare_doMap rec w c t)))"
proof -
  have "grows m c (snd (compare_visitMapItems rec w t (derefMap (cw_lhs w)) (derefMap (cw_rhs w)) c))"
    unfolding compare_visitMapItems_fold
    using compare_visitMapItem_grows [OF rec assms(2,3)]
    by (intro fold_grows [of _ m _ "([], c)", simplified snd_conv]) (auto simp: split_beta)
  then show ?thesis using doLeaf_grows [OF assms(2)] by (simp add: compare_doMap_def Let_def split_beta)
qed

lemma compare_handle_grows:
  assumes rec: "\<And>w2 p c. cw_ok m w2 \<Longrightarrow> cw_descends w w2 \<Longrightarrow> grows m c (snd (rec w2 p c))"
    and "Schema_ok m sc" "cw_ok m w" "Atom_ok m a"
  shows "grows m c (fst (snd (compare_handle rec sc w c a)))"
  using compare_doList_grows [OF rec assms(2,3) Atom_ok_List [OF assms(4)]]
    compare_doMap_grows [OF rec assms(3) Atom_ok_Map [OF assms(4)]] doLeaf_grows [OF assms(3)]
  by (auto simp: compare_handle_def handleAtom_def compare_doScalar_def Let_def split: option.splits)

text \<open>What the walk does after resolving the type, in terms of the comparisons only.\<close>

lemma compare_walk_grows_step:
  assumes handle: "\<And>c b. Atom_ok m b \<Longrightarrow> grows m c (fst (snd (compare_handle (\<lambda>w2 p c. compare_walk sc w2 p c) sc w c b)))"
    and "Schema_ok m sc" "cw_ok m w" "Resolve sc (cw_typeRef w) = Some a" "\<not> (cw_lhs w = None \<and> cw_rhs w = None)"
  shows "\<exists>c1. grows m c c1 \<and> grows m (fst (snd (compare_handle (\<lambda>w2 p c. compare_walk sc w2 p c) sc w c1
      (deduceAtom a (if cw_rhs w = None then cw_lhs w else cw_rhs w))))) (snd (compare_walk sc w p c))"
proof -
  have ok: "Atom_ok m (deduceAtom a v)" for v
    using deduceAtom_ok [OF Resolve_ok [OF assms(2) _ assms(4)]] assms(3) by (simp add: cw_ok_def)
  have path: "path_ok m (cw_path w)" using assms(3) by (simp add: cw_ok_def)
  let ?c1 = "if cw_rhs w = None \<or> cw_lhs w = None \<or> Atom_Equals (deduceAtom a (cw_lhs w)) (deduceAtom a (cw_rhs w)) then c
    else fst (snd (compare_handle (\<lambda>w2 p c. compare_walk sc w2 p c) sc w c (deduceAtom a (cw_lhs w))))"
  have "grows m c ?c1" using handle [OF ok] by simp
  then show ?thesis
    using assms(4,5) path
    by (intro exI [of _ ?c1]) (auto simp: compare_walk.simps [of sc w] Let_def split_beta)
qed

lemma compare_walk_grows_lhs:
  assumes handle: "\<And>c b. Atom_ok m b \<Longrightarrow> grows m c (fst (snd (compare_handle (\<lambda>w2 p c. compare_walk sc w2 p c) sc w c b)))"
    and "Schema_ok m sc" "cw_ok m w" "Resolve sc (cw_typeRef w) = Some a" "cw_lhs w \<noteq> None" "cw_rhs w \<noteq> None"
    and "\<not> Atom_Equals (deduceAtom a (cw_lhs w)) (deduceAtom a (cw_rhs w))"
  shows "grows m (fst (snd (compare_handle (\<lambda>w2 p c. compare_walk sc w2 p c) sc w c (deduceAtom a (cw_lhs w))))) (snd (compare_walk sc w p c))"
proof -
  obtain l r where lr: "cw_lhs w = Some l" "cw_rhs w = Some r" using assms(5,6) by blast
  have "Atom_ok m (deduceAtom a (Some r))"
    using deduceAtom_ok [OF Resolve_ok [OF assms(2) _ assms(4)]] assms(3) by (simp add: cw_ok_def)
  then show ?thesis using assms(4,7) lr handle by (simp add: compare_walk.simps [of sc w] Let_def split_beta)
qed

lemma compare_walk_grows:
  assumes "Schema_ok m sc"
  shows "cw_ok m w \<Longrightarrow> grows m c (snd (compare_walk sc w p c))"
proof (induction w arbitrary: p c rule: measure_induct_rule [of "\<lambda>w. size_opt (cw_lhs w) + size_opt (cw_rhs w)"])
  case (less w)
  show ?case
  proof (cases "(cw_lhs w = None \<and> cw_rhs w = None) \<or> Resolve sc (cw_typeRef w) = None")
    case True
    then show ?thesis by (auto simp: compare_walk.simps [of sc w])
  next
    case False
    then obtain a where a: "Resolve sc (cw_typeRef w) = Some a" by blast
    have handle: "grows m c (fst (snd (compare_handle (\<lambda>w2 p c. compare_walk sc w2 p c) sc w c b)))" if "Atom_ok m b" for c b
      using less that False cw_descends_size [of w] assms by (intro compare_handle_grows) auto
    have "Atom_ok m (deduceAtom a v)" for v
      using deduceAtom_ok [OF Resolve_ok [OF assms _ a]] less.prems by (simp add: cw_ok_def)
    with compare_walk_grows_step [OF handle assms less.prems a, of c p] False handle
    show ?thesis by (meson grows_trans)
  qed
qed

section \<open>Differences at leaves are reported\<close>

text \<open>The three ways a leaf is reported.\<close>

definition reports :: "Comparison \<Rightarrow> Path \<Rightarrow> Value option \<Rightarrow> Value option \<Rightarrow> bool" where
  "reports c p x y =
     (case (x, y) of
        (None, None) \<Rightarrow> True
      | (None, Some _) \<Rightarrow> Set_Has (Added c) p
      | (Some _, None) \<Rightarrow> Set_Has (Removed c) p
      | (Some l, Some r) \<Rightarrow> \<not> Equals r l \<longrightarrow> Set_Has (Modified c) p)"

lemma reports_grows:
  "reports c p x y \<Longrightarrow> grows m c c' \<Longrightarrow> Comparison_ok m c \<Longrightarrow> path_ok m p \<Longrightarrow> reports c' p x y"
  by (auto simp: reports_def grows_def split: option.splits)

lemma doLeaf_reports:
  assumes "cw_ok m w" "\<not> cw_inLeaf w" "cw_path w \<noteq> []" "Comparison_ok m c"
  shows "reports (compare_doLeaf w c) (cw_path w) (cw_lhs w) (cw_rhs w)"
  using assms insert_reported [OF assms(4) _ assms(3)]
  by (auto simp: compare_doLeaf_def reports_def cw_ok_def split: option.splits)

text \<open>A type whose values are compared as a whole: a scalar, or an atomic list or map.\<close>

definition leaf_value :: "Atom \<Rightarrow> Value \<Rightarrow> bool" where
  "leaf_value a v \<longleftrightarrow>
     (\<exists>t. Atom_Scalar a = Some t \<and> scalar_ok t v \<and> v \<noteq> VNull)
   \<or> (\<exists>t. Atom_List a = Some t \<and> List_ElementRelationship t = Atomic \<and> is_list v)
   \<or> (\<exists>t. Atom_Map a = Some t \<and> Map_ElementRelationship t = Atomic \<and> is_map v)"

lemma handle_leaf:
  assumes "leaf_value a v" "v = (if cw_rhs w = None then the (cw_lhs w) else the (cw_rhs w))" "\<not> (cw_lhs w = None \<and> cw_rhs w = None)"
  shows "fst (snd (compare_handle rec sc w c (deduceAtom a (if cw_rhs w = None then cw_lhs w else cw_rhs w)))) = compare_doLeaf w c"
proof -
  have v: "(if cw_rhs w = None then cw_lhs w else cw_rhs w) = Some v" using assms(2,3) by auto
  show ?thesis
    using assms(1) unfolding leaf_value_def
  proof (elim disjE exE conjE)
    fix t assume t: "Atom_Scalar a = Some t" "scalar_ok t v" "v \<noteq> VNull"
    then have "validateScalar t (Some v) = []" "is_float v \<or> is_int v \<or> is_string v \<or> is_bool v"
      using validateScalar_iff [of v t] by (auto simp: scalar_ok_def)
    moreover have "validateScalar t (cw_lhs w) = [] \<or> validateScalar t (cw_rhs w) = []"
      using v calculation(1) by (auto split: if_splits)
    ultimately show ?thesis
      unfolding v by (auto simp: compare_handle_def deduceAtom_handle t(1) compare_doScalar_def Let_def)
  next
    fix t assume "Atom_List a = Some t" "List_ElementRelationship t = Atomic" "is_list v"
    then show ?thesis unfolding v by (cases v) (auto simp: compare_handle_def deduceAtom_handle compare_doList_def Let_def)
  next
    fix t assume "Atom_Map a = Some t" "Map_ElementRelationship t = Atomic" "is_map v"
    then show ?thesis unfolding v by (cases v) (auto simp: compare_handle_def deduceAtom_handle compare_doMap_def Let_def)
  qed
qed

lemma compare_walk_handle_grows:
  "Schema_ok m sc \<Longrightarrow> cw_ok m w \<Longrightarrow> Atom_ok m b \<Longrightarrow> grows m c (fst (snd (compare_handle (\<lambda>w2 p c. compare_walk sc w2 p c) sc w c b)))"
  using compare_walk_grows [of m sc] by (intro compare_handle_grows)

lemma compare_leaf_reports:
  assumes "Schema_ok m sc" "cw_ok m w" "\<not> cw_inLeaf w" "cw_path w \<noteq> []" "Comparison_ok m c"
    "Resolve sc (cw_typeRef w) = Some a" "\<not> (cw_lhs w = None \<and> cw_rhs w = None)"
    "leaf_value a (if cw_rhs w = None then the (cw_lhs w) else the (cw_rhs w))"
  shows "reports (snd (compare_walk sc w p c)) (cw_path w) (cw_lhs w) (cw_rhs w)"
proof -
  obtain c1 where c1: "grows m c c1" "grows m (compare_doLeaf w c1) (snd (compare_walk sc w p c))"
    using compare_walk_grows_step [OF compare_walk_handle_grows [OF assms(1,2)] assms(1,2,6,7), of c p]
      handle_leaf [OF assms(8) refl assms(7)] by auto
  have "Comparison_ok m c1" "Comparison_ok m (compare_doLeaf w c1)"
    using c1(1) doLeaf_grows [OF assms(2), of c1] assms(5) by (auto simp: grows_def)
  with c1 doLeaf_reports [OF assms(2-4)] show ?thesis
    using assms(2) by (intro reports_grows [OF _ c1(2)]) (auto simp: cw_ok_def)
qed

text \<open>The walker for the entry \<open>k\<close> of a map, and that its run is part of the run for the map.\<close>

definition cw_entry :: "compareWalker \<Rightarrow> SMap \<Rightarrow> string \<Rightarrow> compareWalker" where
  "cw_entry w t k = (compare_prepareDescent w (pe_field k) (field_typeref t k))
     \<lparr>cw_lhs := map_Get (derefMap (cw_lhs w)) k, cw_rhs := map_Get (derefMap (cw_rhs w)) k\<rparr>"

lemma fold_grows_entry:
  assumes "\<And>e s. e \<in> set es \<Longrightarrow> grows m (snd s) (snd (h e s))" "e \<in> set es"
  shows "\<exists>s1. grows m (snd s) (snd s1) \<and> grows m (snd (h e s1)) (snd (fold h es s))"
  using assms
proof (induction es arbitrary: s)
  case (Cons d es)
  have d: "grows m (snd s) (snd (h d s))" using Cons.prems by simp
  show ?case
  proof (cases "e = d")
    case True
    then show ?thesis using Cons.prems fold_grows [of es m h "h d s"] by (intro exI [of _ s]) simp
  next
    case False
    then obtain s1 where "grows m (snd (h d s)) (snd s1)" "grows m (snd (h e s1)) (snd (fold h es (h d s)))"
      using Cons.IH [of "h d s"] Cons.prems by auto
    then show ?thesis using grows_trans [OF d] by (intro exI [of _ s1]) simp
  qed
qed simp

lemma compare_doMap_entry:
  assumes "Schema_ok m sc" "cw_ok m w" "Map_ok m t" "Map_ElementRelationship t \<noteq> Atomic"
    and "cw_lhs (cw_entry w t k) \<noteq> None \<or> cw_rhs (cw_entry w t k) \<noteq> None"
  shows "\<exists>c1. grows m c c1 \<and> grows m (snd (compare_walk sc (cw_entry w t k) (Some (pe_field k)) c1))
      (fst (snd (compare_doMap (\<lambda>w2 p c. compare_walk sc w2 p c) w c t)))"
proof -
  let ?l = "derefMap (cw_lhs w)" and ?r = "derefMap (cw_rhs w)"
  let ?h = "\<lambda>(k, l, r) (errs, c). let (errs', c') = compare_visitMapItem (\<lambda>w2 p c. compare_walk sc w2 p c) w t k l r c in (errs @ errs', c')"
  have ok: "pred_option (\<lambda>l. distinct (map fst l)) (derefMap x)" if "pred_option (value_ok m) x" for x
    using derefMap_ok [OF that] by (cases "derefMap x") auto
  have get: "map_Get ?l k \<noteq> None \<or> map_Get ?r k \<noteq> None" using assms(5) by (simp add: cw_entry_def)
  then have e: "(k, map_Get ?l k, map_Get ?r k) \<in> set (zip_entries ?l ?r)"
    using zip_entries_map_of(2) [of ?l ?r] ok assms(2) by (auto simp: cw_ok_def)
  have "grows m (snd s) (snd (?h e s))" if "e \<in> set (zip_entries ?l ?r)" for e s
    using that compare_visitMapItem_grows [OF compare_walk_grows [OF assms(1)] assms(2,3)] by (auto simp: split_beta)
  from fold_grows_entry [where h = ?h and s = "([], c)", OF this e] obtain s1 where
    "grows m c (snd s1)" "grows m (snd (?h (k, map_Get ?l k, map_Get ?r k) s1)) (snd (fold ?h (zip_entries ?l ?r) ([], c)))"
    by auto
  moreover have "snd (?h (k, map_Get ?l k, map_Get ?r k) s1) = snd (compare_walk sc (cw_entry w t k) (Some (pe_field k)) (snd s1))"
    by (simp add: compare_visitMapItem_def cw_entry_def split_beta)
  moreover have "\<not> ((?l = None \<or> ?l = Some []) \<and> (?r = None \<or> ?r = Some []))"
    using get by (auto simp: map_Get_def split: option.splits)
  ultimately show ?thesis
    using assms(4) by (auto simp: compare_doMap_def Let_def compare_visitMapItems_fold split_beta)
qed

text \<open>The handler for maps runs for a walker that has a map on one side, whatever the other side is.\<close>

lemma Atom_Equals_only_map:
  "Atom_Equals (MkAtom None None (Some t)) (deduceAtom a v) \<Longrightarrow> Atom_Map a = Some t \<Longrightarrow> deduceAtom a v = MkAtom None None (Some t)"
  by (cases a) (auto simp: deduceAtom_def split: option.splits if_splits)

lemma compare_walk_doMap:
  assumes "Schema_ok m sc" "cw_ok m w" "Resolve sc (cw_typeRef w) = Some a" "Atom_Map a = Some t"
    "derefMap (cw_lhs w) \<noteq> None \<or> derefMap (cw_rhs w) \<noteq> None"
  shows "\<exists>c1. grows m c c1 \<and> grows m (fst (snd (compare_doMap (\<lambda>w2 p c. compare_walk sc w2 p c) w c1 t))) (snd (compare_walk sc w p c))"
proof -
  note handle = compare_walk_handle_grows [OF assms(1,2)]
  have side: "x = Some (VMap kvs)" if "derefMap x = Some kvs" for x kvs
    using that by (cases x; cases "the x") (auto simp: derefMap_def mapValue_def or_nil_def)
  have map: "compare_handle R sc w c (deduceAtom a (Some (VMap kvs))) = compare_doMap R w c t" for R c kvs
    using assms(4) by (simp add: compare_handle_def deduceAtom_handle)
  have some: "\<not> (cw_lhs w = None \<and> cw_rhs w = None)" using assms(5) by (auto simp: derefMap_def)
  note step = compare_walk_grows_step [OF handle assms(1-3) some, of c p]
  show ?thesis
  proof (cases "cw_rhs w = None \<or> derefMap (cw_rhs w) \<noteq> None")
    case True
    then have "derefMap (if cw_rhs w = None then cw_lhs w else cw_rhs w) \<noteq> None" using assms(5) by (auto simp: derefMap_def)
    then obtain kvs where "(if cw_rhs w = None then cw_lhs w else cw_rhs w) = Some (VMap kvs)" using side by blast
    then show ?thesis using step map by simp
  next
    case False
    then obtain kvs where l: "cw_lhs w = Some (VMap kvs)" using assms(5) side by auto
    have al: "deduceAtom a (cw_lhs w) = MkAtom None None (Some t)" using assms(4) l by (simp add: deduceAtom_def)
    show ?thesis
    proof (cases "Atom_Equals (deduceAtom a (cw_lhs w)) (deduceAtom a (cw_rhs w))")
      case True
      then have "deduceAtom a (cw_rhs w) = MkAtom None None (Some t)" using Atom_Equals_only_map al assms(4) by simp
      then show ?thesis using step False by (auto simp: compare_handle_def handleAtom_def)
    next
      case differ: False
      have "grows m (fst (snd (compare_doMap (\<lambda>w2 p c. compare_walk sc w2 p c) w c t))) (snd (compare_walk sc w p c))"
        using compare_walk_grows_lhs [OF handle assms(1-3) _ _ differ, of c p] l map False by auto
      moreover have "grows m c c" by simp
      ultimately show ?thesis by blast
    qed
  qed
qed

text \<open>The value of a side at a path of fields: none if the side has none, or something else than a map above it.\<close>

definition lookup_side :: "Value option \<Rightarrow> string list \<Rightarrow> Value option" where
  "lookup_side x ks = Option.bind x (\<lambda>v. lookup_fields v ks)"

lemma lookup_side_Cons: "lookup_side x (k # ks) = lookup_side (map_Get (derefMap x) k) ks"
proof (cases x)
  case (Some v)
  then show ?thesis by (cases v) (auto simp: lookup_side_def derefMap_def mapValue_def or_nil_def map_Get_def split: option.splits)
qed (simp add: lookup_side_def derefMap_def map_Get_def)

lemma cw_entry_ok:
  assumes "cw_ok m w" "Map_ok m t"
  shows "cw_ok m (cw_entry w t k)"
  using assms derefMap_Get_ok [of m "cw_lhs w" k] derefMap_Get_ok [of m "cw_rhs w" k]
  by (auto simp: cw_ok_def cw_entry_def compare_prepareDescent_def Map_ok_field_typeref)

lemma compare_reports:
  assumes "Schema_ok m sc"
  shows "cw_ok m w \<Longrightarrow> \<not> cw_inLeaf w \<Longrightarrow> Comparison_ok m c \<Longrightarrow> cw_path w @ map pe_field ks \<noteq> [] \<Longrightarrow>
    granular_type sc (cw_typeRef w) ks = Some tr \<Longrightarrow> x = lookup_side (cw_lhs w) ks \<Longrightarrow> y = lookup_side (cw_rhs w) ks \<Longrightarrow>
    \<not> (x = None \<and> y = None) \<Longrightarrow> Resolve sc tr = Some a \<Longrightarrow> leaf_value a (if y = None then the x else the y) \<Longrightarrow>
    reports (snd (compare_walk sc w p c)) (cw_path w @ map pe_field ks) x y"
proof (induction ks arbitrary: w p c)
  case Nil
  have xy: "x = cw_lhs w" "y = cw_rhs w" using Nil.prems(6,7) by (auto simp: lookup_side_def)
  have "reports (snd (compare_walk sc w p c)) (cw_path w) (cw_lhs w) (cw_rhs w)"
    using Nil.prems(4,5,8-) unfolding xy by (intro compare_leaf_reports [OF assms Nil.prems(1,2) _ Nil.prems(3)]) simp_all
  then show ?case using xy by simp
next
  case (Cons k ks)
  then obtain b t where t: "Resolve sc (cw_typeRef w) = Some b" "Atom_Map b = Some t" "Map_ElementRelationship t \<noteq> Atomic"
    "granular_type sc (field_typeref t k) ks = Some tr"
    by (auto split: option.splits if_splits)
  have map: "Map_ok m t"
    using Resolve_ok [OF assms _ t(1)] Cons.prems(1) by (intro Atom_ok_Map [OF _ t(2)]) (simp add: cw_ok_def)
  let ?w = "cw_entry w t k" and ?pe = "Some (pe_field k)"
  have w: "cw_ok m ?w" "\<not> cw_inLeaf ?w" "cw_path ?w = cw_path w @ [pe_field k]" "cw_typeRef ?w = field_typeref t k"
    "x = lookup_side (cw_lhs ?w) ks" "y = lookup_side (cw_rhs ?w) ks"
    using cw_entry_ok [OF Cons.prems(1) map, of k] Cons.prems(2,6,7)
    by (auto simp: cw_entry_def compare_prepareDescent_def lookup_side_Cons)
  have "\<not> (cw_lhs ?w = None \<and> cw_rhs ?w = None)" using Cons.prems(8) w(5,6) by (auto simp: lookup_side_def)
  moreover from this have "derefMap (cw_lhs w) \<noteq> None \<or> derefMap (cw_rhs w) \<noteq> None" by (auto simp: cw_entry_def map_Get_def)
  ultimately obtain c1 where c1: "grows m c c1" "grows m (snd (compare_walk sc ?w ?pe c1)) (snd (compare_walk sc w p c))"
    using compare_walk_doMap [OF assms Cons.prems(1) t(1,2)] compare_doMap_entry [OF assms Cons.prems(1) map t(3)] by (meson grows_trans)
  have c1_ok: "Comparison_ok m c1" using c1(1) Cons.prems(3) by (auto simp: grows_def)
  have "reports (snd (compare_walk sc ?w ?pe c1)) (cw_path ?w @ map pe_field ks) x y"
    using w(3,4) t(4) Cons.prems(8-) by (intro Cons.IH [OF w(1,2) c1_ok _ _ w(5,6)]) auto
  moreover have "Comparison_ok m (snd (compare_walk sc ?w ?pe c1))"
    using compare_walk_grows [OF assms w(1), of c1 ?pe] c1_ok by (auto simp: grows_def)
  ultimately show ?case
    using w(3) Cons.prems(1) by (intro reports_grows [OF _ c1(2)]) (auto simp: cw_ok_def list_all_iff)
qed

end
