(* ===== verification/Typed_Values.thy ===== *)
theory Typed_Values
  imports Compare_Sets Owned_Paths
begin

text \<open>
  \<^verbatim>\<open>typed/typed.go\<close>: values with their type and schema, and the operations the walkers are run for.  A
  schema is shared by pointer, so it is paired with its address; a run that dereferences a nil value is the
  error \<^const>\<open>Panic\<close>.  The walker pools hand out walkers whose fields are all reset, which is the state the
  operations here start from.
\<close>

section \<open>Operations\<close>

record SchemaPtr =
  schema_address :: nat
  schema_types :: "TypeDef list"

record TypedValue =
  tv_value :: "Value option"
  tv_typeRef :: TypeRef
  tv_schema :: SchemaPtr

datatype ValidationOptions = AllowDuplicates

definition AsTypedUnvalidated :: "Value option \<Rightarrow> SchemaPtr \<Rightarrow> TypeRef \<Rightarrow> TypedValue" where
  "AsTypedUnvalidated v s tr = \<lparr>tv_value = v, tv_typeRef = tr, tv_schema = s\<rparr>"

definition TypedValue_Validate :: "TypedValue \<Rightarrow> ValidationOptions list \<Rightarrow> ValidationErrors option" where
  "TypedValue_Validate tv opts =
     (let errs = validate (schema_types (tv_schema tv)) (AllowDuplicates \<in> set opts) (tv_typeRef tv) (tv_value tv) None
      in if length errs \<noteq> 0 then Some errs else None)"

definition AsTyped :: "Value option \<Rightarrow> SchemaPtr \<Rightarrow> TypeRef \<Rightarrow> ValidationOptions list \<Rightarrow> ValidationErrors + TypedValue" where
  "AsTyped v s tr opts =
     (let tv = \<lparr>tv_value = v, tv_typeRef = tr, tv_schema = s\<rparr>
      in case TypedValue_Validate tv opts of Some err \<Rightarrow> Inl err | None \<Rightarrow> Inr tv)"

definition TypedValue_ToFieldSet :: "TypedValue \<Rightarrow> ValidationErrors + FieldSet" where
  "TypedValue_ToFieldSet tv =
     (let (errs, s) = toFieldSet (schema_types (tv_schema tv)) (tv_typeRef tv) (tv_value tv) [] (NewSet [])
      in if length errs \<noteq> 0 then Inl errs else Inr s)"

definition merge :: "TypedValue \<Rightarrow> TypedValue \<Rightarrow> mergeRule \<Rightarrow> mergeRule option \<Rightarrow> ValidationErrors + TypedValue" where
  "merge lhs rhs rule postRule =
     (if schema_address (tv_schema lhs) \<noteq> schema_address (tv_schema rhs) then Inl (errorf Different_Schema)
      else if \<not> TypeRef_Equals (tv_typeRef lhs) (tv_typeRef rhs) then Inl (errorf Different_Type)
      else let (errs, mw) =
             merge_walk (schema_types (tv_schema lhs)) rule postRule
               \<lparr>mw_lhs = tv_value lhs, mw_rhs = tv_value rhs, mw_typeRef = tv_typeRef lhs, mw_path = [], mw_out = None,
                mw_inLeaf = False\<rparr> None
           in if length errs > 0 then Inl errs
              else Inr \<lparr>tv_value = mw_out mw, tv_typeRef = tv_typeRef lhs, tv_schema = tv_schema lhs\<rparr>)"

definition TypedValue_Merge :: "TypedValue \<Rightarrow> TypedValue \<Rightarrow> ValidationErrors + TypedValue" where
  "TypedValue_Merge tv pso = merge tv pso ruleKeepRHS None"

definition TypedValue_Compare :: "TypedValue \<Rightarrow> TypedValue \<Rightarrow> ValidationErrors + Comparison" where
  "TypedValue_Compare lhs rhs =
     (if schema_address (tv_schema lhs) \<noteq> schema_address (tv_schema rhs) then Inl (errorf Different_Schema)
      else if \<not> TypeRef_Equals (tv_typeRef lhs) (tv_typeRef rhs) then Inl (errorf Different_Type)
      else let (errs, c) =
             compare_walk (schema_types (tv_schema lhs))
               \<lparr>cw_lhs = tv_value lhs, cw_rhs = tv_value rhs, cw_typeRef = tv_typeRef lhs, cw_path = [], cw_inLeaf = False\<rparr>
               None Comparison_empty
           in if length errs > 0 then Inl errs else Inr c)"

text \<open>\<^verbatim>\<open>removeItemsWithSchema\<close> on a nil value: every handler calls a method of the value.\<close>

definition remove_or_extract :: "bool \<Rightarrow> TypedValue \<Rightarrow> FieldSet \<Rightarrow> ValidationErrors + TypedValue" where
  "remove_or_extract shouldExtract tv items =
     (case tv_value tv of
        Some v \<Rightarrow> Inr (tv\<lparr>tv_value := Some (removeItemsWithSchema (schema_types (tv_schema tv)) shouldExtract v items (tv_typeRef tv))\<rparr>)
      | None \<Rightarrow> resolveSchema (schema_types (tv_schema tv)) (tv_typeRef tv) None
          (\<lambda>_. Inl (errorf Panic)) (\<lambda>_. Inl (errorf Panic)) (\<lambda>_. Inl (errorf Panic)) (\<lambda>_. Inr (tv\<lparr>tv_value := Some VNull\<rparr>)))"

definition TypedValue_RemoveItems :: "TypedValue \<Rightarrow> FieldSet \<Rightarrow> ValidationErrors + TypedValue" where
  "TypedValue_RemoveItems = remove_or_extract False"

definition TypedValue_ExtractItems :: "TypedValue \<Rightarrow> FieldSet \<Rightarrow> ValidationErrors + TypedValue" where
  "TypedValue_ExtractItems = remove_or_extract True"

definition TypedValue_Empty :: "TypedValue \<Rightarrow> TypedValue" where
  "TypedValue_Empty tv = tv\<lparr>tv_value := Some VNull\<rparr>"

section \<open>Well-formed typed values\<close>

definition TypedValue_ok :: "num_mode \<Rightarrow> TypedValue \<Rightarrow> bool" where
  "TypedValue_ok m tv \<longleftrightarrow> Schema_ok m (schema_types (tv_schema tv)) \<and> TypeRef_ok m (tv_typeRef tv) \<and>
     pred_option (value_ok m) (tv_value tv)"

lemma AsTyped_iff:
  assumes "Schema_ok m (schema_types s)" "TypeRef_ok m tr" "value_ok m v"
  shows "AsTyped (Some v) s tr opts = Inr tv \<longleftrightarrow>
    conforms (schema_types s) (AllowDuplicates \<in> set opts) tr v \<and> tv = AsTypedUnvalidated (Some v) s tr"
  using validate_iff_conforms [OF assms]
  by (auto simp: AsTyped_def TypedValue_Validate_def AsTypedUnvalidated_def Let_def)

text \<open>The set of a value: exactly the paths it owns.\<close>

definition owned_by :: "TypedValue \<Rightarrow> Path list" where
  "owned_by tv = (case tv_value tv of None \<Rightarrow> [] | Some v \<Rightarrow> owned (schema_types (tv_schema tv)) (tv_typeRef tv) v)"

lemma ToFieldSet_laws:
  assumes "TypedValue_ok m tv" "tv_value tv = Some v" "TypedValue_ToFieldSet tv = Inr s"
  shows ToFieldSet_wf: "Set_wf m s"
    and ToFieldSet_Has: "path_ok m p \<Longrightarrow> Set_Has s p \<longleftrightarrow> (\<exists>r \<in> set (owned_by tv). r \<noteq> [] \<and> Path_Equals r p)"
proof -
  have wf0: "Set_wf m (NewSet [])" "\<not> Set_Has (NewSet []) q" for q
    using NewSet_wf [of m "[]"] by (auto simp: NewSet_def)
  have "s = snd (toFieldSet (schema_types (tv_schema tv)) (tv_typeRef tv) (Some v) [] (NewSet []))"
    using assms(2,3) by (auto simp: TypedValue_ToFieldSet_def split: prod.splits if_splits)
  then have "adds m [] (set (owned_by tv)) (NewSet []) s"
    using toFieldSet_adds [of m "schema_types (tv_schema tv)" "tv_typeRef tv" v "[]" "NewSet []"] assms(1,2) wf0
    by (simp add: owned_by_def TypedValue_ok_def)
  then show "Set_wf m s" "path_ok m p \<Longrightarrow> Set_Has s p \<longleftrightarrow> (\<exists>r \<in> set (owned_by tv). r \<noteq> [] \<and> Path_Equals r p)"
    using wf0(2) by (auto simp: adds_def)
qed

lemma ToFieldSet_conforms:
  assumes "tv_value tv = Some v" "conforms (schema_types (tv_schema tv)) dup (tv_typeRef tv) v"
  shows "\<exists>s. TypedValue_ToFieldSet tv = Inr s"
  using toFieldSet_no_errors [OF assms(2)] assms(1) by (simp add: TypedValue_ToFieldSet_def split_beta)

lemma owned_by_ok: "TypedValue_ok m tv \<Longrightarrow> list_all (path_ok m) (owned_by tv)"
  using owned_ok [of m "schema_types (tv_schema tv)" "tv_typeRef tv"]
  by (cases "tv_value tv") (auto simp: owned_by_def TypedValue_ok_def)

section \<open>Merging and comparing\<close>

definition same_type :: "TypedValue \<Rightarrow> TypedValue \<Rightarrow> bool" where
  "same_type l r \<longleftrightarrow> schema_address (tv_schema l) = schema_address (tv_schema r) \<and> TypeRef_Equals (tv_typeRef l) (tv_typeRef r)"

lemma Merge_same:
  assumes "TypedValue_ok m tv" "tv_value tv = Some v" "mergeable (schema_types (tv_schema tv)) False (tv_typeRef tv) v"
    and "TypeRef_Equals (tv_typeRef tv) (tv_typeRef tv)"
  shows "TypedValue_Merge tv tv = Inr tv"
proof -
  let ?w = "\<lparr>mw_lhs = Some v, mw_rhs = Some v, mw_typeRef = tv_typeRef tv, mw_path = [], mw_out = None, mw_inLeaf = False\<rparr>"
  have "gives v (merge_walk (schema_types (tv_schema tv)) ruleKeepRHS None ?w None)"
    using assms by (intro merge_gives [of m]) (auto simp: TypedValue_ok_def only_def)
  then show ?thesis
    using assms(2,4) by (auto simp: TypedValue_Merge_def merge_def gives_def split_beta)
qed

lemma Compare_self:
  assumes "TypedValue_ok m tv" "tv_value tv = Some v" "mergeable (schema_types (tv_schema tv)) True (tv_typeRef tv) v"
    and "TypeRef_Equals (tv_typeRef tv) (tv_typeRef tv)"
  shows "TypedValue_Compare tv tv = Inr Comparison_empty"
proof -
  let ?w = "\<lparr>cw_lhs = Some v, cw_rhs = Some v, cw_typeRef = tv_typeRef tv, cw_path = [], cw_inLeaf = False\<rparr>"
  have "compare_walk (schema_types (tv_schema tv)) ?w None Comparison_empty = ([], Comparison_empty)"
    using assms by (intro compare_same [of m]) (auto simp: TypedValue_ok_def cw_same_def)
  then show ?thesis using assms(2,4) by (simp add: TypedValue_Compare_def)
qed

lemma Compare_ok:
  assumes "TypedValue_ok m l" "TypedValue_ok m r" "TypedValue_Compare l r = Inr c"
  shows "Comparison_ok m c"
proof -
  let ?w = "\<lparr>cw_lhs = tv_value l, cw_rhs = tv_value r, cw_typeRef = tv_typeRef l, cw_path = [], cw_inLeaf = False\<rparr>"
  have "cw_ok m ?w" "Schema_ok m (schema_types (tv_schema l))" using assms(1,2) by (auto simp: cw_ok_def TypedValue_ok_def)
  then have "grows m Comparison_empty (snd (compare_walk (schema_types (tv_schema l)) ?w None Comparison_empty))"
    by (intro compare_walk_grows)
  with assms(3) show ?thesis by (auto simp: grows_def TypedValue_Compare_def split: prod.splits if_splits)
qed

lemma Compare_reports_leaf:
  assumes "TypedValue_ok m l" "TypedValue_ok m r" "TypedValue_Compare l r = Inr c"
    and "granular_type (schema_types (tv_schema l)) (tv_typeRef l) ks = Some tr" "ks \<noteq> []"
    and "x = lookup_side (tv_value l) ks" "y = lookup_side (tv_value r) ks" "\<not> (x = None \<and> y = None)"
    and "Resolve (schema_types (tv_schema l)) tr = Some a" "leaf_value a (if y = None then the x else the y)"
  shows "reports c (map pe_field ks) x y"
proof -
  let ?w = "\<lparr>cw_lhs = tv_value l, cw_rhs = tv_value r, cw_typeRef = tv_typeRef l, cw_path = [], cw_inLeaf = False\<rparr>"
  have "cw_ok m ?w" "Schema_ok m (schema_types (tv_schema l))" using assms(1,2) by (auto simp: cw_ok_def TypedValue_ok_def)
  then have "reports (snd (compare_walk (schema_types (tv_schema l)) ?w None Comparison_empty)) (cw_path ?w @ map pe_field ks) x y"
    using assms(4-) by (intro compare_reports [of m]) auto
  with assms(3) show ?thesis by (auto simp: TypedValue_Compare_def split: prod.splits if_splits)
qed

lemma ExcludeFields_ok:
  assumes "Comparison_ok m c" "pred_option (Set_wf m) f"
  shows "Comparison_ok m (Comparison_ExcludeFields c f)"
  using assms by (auto simp: Comparison_ok_def Comparison_ExcludeFields_def Set_RecursiveDifference_wf split: option.splits)

text \<open>Paths that an exclusion set takes out.\<close>

definition excluded :: "FieldSet option \<Rightarrow> Path \<Rightarrow> bool" where
  "excluded f p = (case f of None \<Rightarrow> False | Some s \<Rightarrow> Set_covers s p)"

lemma ExcludeFields_Has:
  assumes "Comparison_ok m c" "pred_option (Set_wf m) f" "path_ok m p"
  shows "Set_Has (Removed (Comparison_ExcludeFields c f)) p \<longleftrightarrow> Set_Has (Removed c) p \<and> \<not> excluded f p"
    and "Set_Has (Modified (Comparison_ExcludeFields c f)) p \<longleftrightarrow> Set_Has (Modified c) p \<and> \<not> excluded f p"
    and "Set_Has (Added (Comparison_ExcludeFields c f)) p \<longleftrightarrow> Set_Has (Added c) p \<and> \<not> excluded f p"
  using assms empty_below(2) [of m]
  by (auto simp: Comparison_ok_def Comparison_ExcludeFields_def excluded_def Set_RecursiveDifference_Has [of m] split: option.splits)

end
