(* ===== verification/Reconcile_Schema.thy ===== *)
theory Reconcile_Schema
  imports Typed_Values
begin

text \<open>
  \<^verbatim>\<open>typed/reconcile_schema.go\<close>: a field set that was written under an older schema is brought in line with
  the schema of the live object.  Below a list or map that has become atomic every path is replaced by the
  path of the list or map.
\<close>

section \<open>The walker\<close>

text \<open>The accumulated changes \<^verbatim>\<open>toRemove\<close> and \<^verbatim>\<open>toAdd\<close>, nil until something is to do.\<close>

type_synonym changes = "FieldSet option \<times> FieldSet option"
type_synonym reconciler = "TypeRef \<Rightarrow> Path \<Rightarrow> bool \<Rightarrow> FieldSet option \<Rightarrow> changes \<Rightarrow> ValidationErrors \<times> changes"

definition union_nil :: "FieldSet option \<Rightarrow> FieldSet option \<Rightarrow> FieldSet option" where
  "union_nil v v2 = (case v2 of None \<Rightarrow> v | Some b \<Rightarrow> (case v of None \<Rightarrow> Some b | Some a \<Rightarrow> Some (Set_Union a b)))"

text \<open>\<^verbatim>\<open>prepareDescent\<close> copies the walker with the changes so far; \<^verbatim>\<open>finishDescent\<close> merges the changes back.\<close>

definition reconcile_finishDescent :: "changes \<Rightarrow> changes \<Rightarrow> changes" where
  "reconcile_finishDescent v v2 = (union_nil (fst v) (fst v2), union_nil (snd v) (snd v2))"

definition isUntypedDeducedRef :: "TypeRef \<Rightarrow> bool" where
  "isUntypedDeducedRef t =
     (case NamedType t of
        Some n \<Rightarrow> n = ''__untyped_deduced_''
      | None \<Rightarrow> Atom_Scalar (Inlined t) = Some ''untyped'')"

text \<open>A field list without entries is read as a nil one.\<close>

definition isUntypedDeducedMap :: "SMap \<Rightarrow> bool" where
  "isUntypedDeducedMap mp \<longleftrightarrow> isUntypedDeducedRef (Map_ElementType mp) \<and> Map_Fields mp = []"

definition typeRefAtPath :: "SMap \<Rightarrow> PathElement \<Rightarrow> TypeRef option" where
  "typeRefAtPath t pe =
     (let tr = (case FieldName pe of
                  None \<Rightarrow> Map_ElementType t
                | Some n \<Rightarrow> (case FindField t n of Some sf \<Rightarrow> Field_Type sf | None \<Rightarrow> Map_ElementType t))
      in if tr \<noteq> TypeRef_zero then Some tr else None)"

text \<open>The path elements the two \<^verbatim>\<open>Iterate\<close> calls visit: children that are no members, then members.\<close>

definition reconcile_entries :: "FieldSet \<Rightarrow> (PathElement \<times> bool) list" where
  "reconcile_entries s =
     map (\<lambda>pe. (pe, False)) (filter (\<lambda>pe. \<not> PathElementSet_Has (Members s) pe) (map fst (Children s)))
   @ map (\<lambda>pe. (pe, True)) (Members s)"

definition reconcile_handleElement ::
  "reconciler \<Rightarrow> TypeRef option \<Rightarrow> FieldSet \<Rightarrow> Path \<Rightarrow> PathElement \<Rightarrow> bool \<Rightarrow> changes \<Rightarrow> ValidationErrors \<times> changes" where
  "reconcile_handleElement rec tr element path pe isMember d =
     (case tr of
        None \<Rightarrow> ([], d)
      | Some tr' \<Rightarrow>
          let fieldSet = SetNodeMap_Get (Children element) pe;
              (errs, d2) = rec tr' (path @ [pe]) (isMember \<and> fieldSet = None) fieldSet d
          in (errs, reconcile_finishDescent d d2))"

fun reconcile_visit ::
  "reconciler \<Rightarrow> (PathElement \<Rightarrow> TypeRef option) \<Rightarrow> FieldSet \<Rightarrow> Path \<Rightarrow> (PathElement \<times> bool) list \<Rightarrow> changes \<Rightarrow>
   ValidationErrors \<times> changes" where
  "reconcile_visit rec tyf element path [] d = ([], d)"
| "reconcile_visit rec tyf element path ((pe, isMember) # es) d =
     (let (errs, d') = reconcile_handleElement rec (tyf pe) element path pe isMember d;
          (errs', d'') = reconcile_visit rec tyf element path es d'
      in (errs @ errs', d''))"

definition reconcile_visitListItems :: "reconciler \<Rightarrow> SList \<Rightarrow> FieldSet \<Rightarrow> Path \<Rightarrow> changes \<Rightarrow> ValidationErrors \<times> changes" where
  "reconcile_visitListItems rec t element path d =
     reconcile_visit rec (\<lambda>pe. Some (List_ElementType t)) element path (reconcile_entries element) d"

definition reconcile_visitMapItems :: "reconciler \<Rightarrow> SMap \<Rightarrow> FieldSet \<Rightarrow> Path \<Rightarrow> changes \<Rightarrow> ValidationErrors \<times> changes" where
  "reconcile_visitMapItems rec t element path d =
     reconcile_visit rec (typeRefAtPath t) element path (reconcile_entries element) d"

definition reconcile_doList ::
  "reconciler \<Rightarrow> Path \<Rightarrow> bool \<Rightarrow> FieldSet option \<Rightarrow> changes \<Rightarrow> SList \<Rightarrow> ValidationErrors \<times> changes" where
  "reconcile_doList rec path isAtomic fieldSet d t =
     (if \<not> isAtomic \<and> List_ElementRelationship t = Atomic then ([], (Some (NewSet [path]), Some (NewSet [path])))
      else case fieldSet of None \<Rightarrow> ([], d) | Some s \<Rightarrow> reconcile_visitListItems rec t s path d)"

definition reconcile_doMap ::
  "reconciler \<Rightarrow> Path \<Rightarrow> bool \<Rightarrow> FieldSet option \<Rightarrow> changes \<Rightarrow> SMap \<Rightarrow> ValidationErrors \<times> changes" where
  "reconcile_doMap rec path isAtomic fieldSet d t =
     (if isUntypedDeducedMap t then ([], d)
      else if \<not> isAtomic \<and> Map_ElementRelationship t = Atomic then
        (case fieldSet of
           None \<Rightarrow> ([], d)
         | Some s \<Rightarrow> if Set_Size s > 0 then ([], (Some (NewSet [path]), Some (NewSet [path]))) else ([], d))
      else case fieldSet of None \<Rightarrow> ([], d) | Some s \<Rightarrow> reconcile_visitMapItems rec t s path d)"

definition reconcile_handle ::
  "reconciler \<Rightarrow> TypeRef \<Rightarrow> Path \<Rightarrow> bool \<Rightarrow> FieldSet option \<Rightarrow> changes \<Rightarrow> Atom \<Rightarrow> ValidationErrors \<times> changes" where
  "reconcile_handle rec tr path isAtomic fieldSet d a =
     handleAtom (\<lambda>_. ([], d)) (reconcile_doList rec path isAtomic fieldSet d) (reconcile_doMap rec path isAtomic fieldSet d)
       (\<lambda>errs. (errs, d)) a tr"

definition fs_size :: "FieldSet option \<Rightarrow> nat" where
  "fs_size s = (case s of None \<Rightarrow> 0 | Some x \<Rightarrow> Suc (size x))"

lemma child_fs_size: "fs_size (SetNodeMap_Get (Children s) pe) < fs_size (Some s)"
  using SetNodeMap_Get_in [of "Children s" pe]
  by (cases s; cases "SetNodeMap_Get (Children s) pe") (auto simp: fs_size_def dest: in_alist_size)

lemma reconcile_visit_cong:
  assumes "\<And>tr p b fs d. fs_size fs < fs_size (Some s) \<Longrightarrow> f tr p b fs d = g tr p b fs d"
  shows "reconcile_visit f tyf s path es d = reconcile_visit g tyf s path es d"
proof (induction es arbitrary: d)
  case (Cons e es)
  have "reconcile_handleElement f (tyf pe) s path pe b d = reconcile_handleElement g (tyf pe) s path pe b d" for pe b d
    unfolding reconcile_handleElement_def by (simp add: assms child_fs_size split: option.splits)
  with Cons show ?case by (cases e) (simp add: split_beta)
qed simp

lemma reconcile_handle_cong [fundef_cong]:
  assumes "tr = tr'" "path = path'" "b = b'" "s = s'" "d = d'" "a = a'"
    and "\<And>tr p b fs d. fs_size fs < fs_size s' \<Longrightarrow> f tr p b fs d = g tr p b fs d"
  shows "reconcile_handle f tr path b s d a = reconcile_handle g tr' path' b' s' d' a'"
  unfolding assms(1-6) reconcile_handle_def reconcile_doList_def reconcile_doMap_def reconcile_visitListItems_def
    reconcile_visitMapItems_def
  using reconcile_visit_cong [of _ f g] assms(7) by (intro handleAtom_cong) (auto split: option.splits)

function reconcile :: "TypeDef list \<Rightarrow> TypeRef \<Rightarrow> Path \<Rightarrow> bool \<Rightarrow> FieldSet option \<Rightarrow> changes \<Rightarrow> ValidationErrors \<times> changes" where
  "reconcile sc tr path isAtomic fieldSet d =
     (case Resolve sc tr of
        None \<Rightarrow> (errorf Unresolved, d)
      | Some a \<Rightarrow> reconcile_handle (\<lambda>tr' p b fs d'. reconcile sc tr' p b fs d') tr path isAtomic fieldSet d a)"
  by pat_completeness auto
termination
  by (relation "measure (\<lambda>(sc, tr, p, b, fs, d). fs_size fs)") auto

declare reconcile.simps [simp del]

definition ReconcileFieldSetWithSchema :: "FieldSet \<Rightarrow> TypedValue \<Rightarrow> ValidationErrors + FieldSet option" where
  "ReconcileFieldSetWithSchema fieldset tv =
     (let (errs, toRemove, toAdd) =
        reconcile (schema_types (tv_schema tv)) (tv_typeRef tv) [] False (Some fieldset) (None, None)
      in if length errs > 0 then Inl errs
         else if toAdd \<noteq> None \<or> toRemove \<noteq> None then
           let out = (case toRemove of None \<Rightarrow> fieldset | Some r \<Rightarrow> Set_RecursiveDifference fieldset r);
               out' = (case toAdd of None \<Rightarrow> out | Some x \<Rightarrow> Set_Union out x)
           in Inr (Some out')
         else Inr None)"

section \<open>Which paths become atomic\<close>

inductive becomes_atomic :: "TypeDef list \<Rightarrow> TypeRef \<Rightarrow> bool \<Rightarrow> FieldSet option \<Rightarrow> Path \<Rightarrow> bool" for sc where
  atomic_list:
    "Resolve sc tr = Some a \<Longrightarrow> Atom_Map a = None \<Longrightarrow> Atom_Scalar a = None \<Longrightarrow> Atom_List a = Some t \<Longrightarrow>
     List_ElementRelationship t = Atomic \<Longrightarrow> becomes_atomic sc tr False fs []"
| atomic_map:
    "Resolve sc tr = Some a \<Longrightarrow> Atom_Map a = Some t \<Longrightarrow> \<not> isUntypedDeducedMap t \<Longrightarrow>
     Map_ElementRelationship t = Atomic \<Longrightarrow> Set_Size s > 0 \<Longrightarrow> becomes_atomic sc tr False (Some s) []"
| atomic_item:
    "Resolve sc tr = Some a \<Longrightarrow> Atom_Map a = None \<Longrightarrow> Atom_Scalar a = None \<Longrightarrow> Atom_List a = Some t \<Longrightarrow>
     b \<or> List_ElementRelationship t \<noteq> Atomic \<Longrightarrow> (pe, isMember) \<in> set (reconcile_entries s) \<Longrightarrow>
     becomes_atomic sc (List_ElementType t) (isMember \<and> SetNodeMap_Get (Children s) pe = None) (SetNodeMap_Get (Children s) pe) p \<Longrightarrow>
     becomes_atomic sc tr b (Some s) (pe # p)"
| atomic_field:
    "Resolve sc tr = Some a \<Longrightarrow> Atom_Map a = Some t \<Longrightarrow> \<not> isUntypedDeducedMap t \<Longrightarrow>
     b \<or> Map_ElementRelationship t \<noteq> Atomic \<Longrightarrow> (pe, isMember) \<in> set (reconcile_entries s) \<Longrightarrow> typeRefAtPath t pe = Some tr' \<Longrightarrow>
     becomes_atomic sc tr' (isMember \<and> SetNodeMap_Get (Children s) pe = None) (SetNodeMap_Get (Children s) pe) p \<Longrightarrow>
     becomes_atomic sc tr b (Some s) (pe # p)"

inductive_simps becomes_atomic_Nil: "becomes_atomic sc tr b fs []"
inductive_simps becomes_atomic_Cons: "becomes_atomic sc tr b fs (pe # p)"

definition has_nil :: "FieldSet option \<Rightarrow> Path \<Rightarrow> bool" where
  "has_nil d q = (case d of None \<Rightarrow> False | Some s \<Rightarrow> Set_Has s q)"

definition adds_nil :: "num_mode \<Rightarrow> Path \<Rightarrow> Path set \<Rightarrow> FieldSet option \<Rightarrow> FieldSet option \<Rightarrow> bool" where
  "adds_nil m path R d d' \<longleftrightarrow> pred_option (Set_wf m) d' \<and> (d' = None \<longleftrightarrow> d = None \<and> R = {}) \<and>
     (\<forall>q. path_ok m q \<longrightarrow> has_nil d' q \<longleftrightarrow> has_nil d q \<or> (\<exists>r \<in> R. path @ r \<noteq> [] \<and> Path_Equals (path @ r) q))"

definition adds_changes :: "num_mode \<Rightarrow> Path \<Rightarrow> Path set \<Rightarrow> changes \<Rightarrow> changes \<Rightarrow> bool" where
  "adds_changes m path R d d' \<longleftrightarrow> adds_nil m path R (fst d) (fst d') \<and> adds_nil m path R (snd d) (snd d')"

definition changes_ok :: "num_mode \<Rightarrow> changes \<Rightarrow> bool" where
  "changes_ok m d \<longleftrightarrow> pred_option (Set_wf m) (fst d) \<and> pred_option (Set_wf m) (snd d)"

lemma union_nil_laws:
  assumes "pred_option (Set_wf m) a" "pred_option (Set_wf m) b"
  shows "pred_option (Set_wf m) (union_nil a b)" "union_nil a b = None \<longleftrightarrow> a = None \<and> b = None"
    "path_ok m q \<Longrightarrow> has_nil (union_nil a b) q \<longleftrightarrow> has_nil a q \<or> has_nil b q"
  using assms by (auto simp: union_nil_def has_nil_def Set_Union_wf Set_Union_Has [of m] split: option.splits)

lemma adds_nil_union:
  "pred_option (Set_wf m) d \<Longrightarrow> adds_nil m path R d d' \<Longrightarrow> adds_nil m path R d (union_nil d d')"
  by (auto simp: adds_nil_def union_nil_laws)

lemma adds_nil_trans: "adds_nil m path R a b \<Longrightarrow> adds_nil m path R' b c \<Longrightarrow> adds_nil m path (R \<union> R') a c"
  by (auto simp: adds_nil_def)

lemma adds_nil_prefix: "adds_nil m (path @ [pe]) R a b \<Longrightarrow> adds_nil m path ((#) pe ` R) a b"
  by (auto simp: adds_nil_def)

lemma adds_changes_ok: "adds_changes m path R d d' \<Longrightarrow> changes_ok m d'"
  by (simp add: adds_changes_def adds_nil_def changes_ok_def)

lemma adds_changes_none: "changes_ok m d \<Longrightarrow> adds_changes m path {} d d"
  by (auto simp: adds_changes_def adds_nil_def changes_ok_def)

lemma union_nil_Some: "\<exists>y. union_nil d (Some x) = Some y"
  by (simp add: union_nil_def split: option.splits)

lemma adds_changes_new:
  assumes "changes_ok m d" "path_ok m path"
  shows "adds_changes m path {[]} d (reconcile_finishDescent d (Some (NewSet [path]), Some (NewSet [path])))"
  using assms NewSet_wf [of m "[path]"] NewSet_Has [of m "[path]"]
  by (auto simp: adds_changes_def adds_nil_def reconcile_finishDescent_def union_nil_laws changes_ok_def has_nil_def [of "Some _"]
      union_nil_Some)

lemma reconcile_entries_ok: "Set_wf m s \<Longrightarrow> (pe, b) \<in> set (reconcile_entries s) \<Longrightarrow> pe_ok m pe"
  by (cases s) (force simp: reconcile_entries_def dest: pe.ascending_ok)

lemma SetNodeMap_Get_wf: "Set_wf m s \<Longrightarrow> pred_option (Set_wf m) (SetNodeMap_Get (Children s) pe)"
  using Set_wf_child [of m "Members s" "Children s"] SetNodeMap_Get_in [of "Children s" pe]
  by (cases "SetNodeMap_Get (Children s) pe") auto

lemma reconcile_visit_adds:
  assumes "Set_wf m s" "path_ok m path"
    and "\<And>pe b tr d. (pe, b) \<in> set es \<Longrightarrow> tyf pe = Some tr \<Longrightarrow> changes_ok m d \<Longrightarrow>
      adds_changes m (path @ [pe]) (A tr (b \<and> SetNodeMap_Get (Children s) pe = None) (SetNodeMap_Get (Children s) pe)) d
        (reconcile_finishDescent d (snd (rec tr (path @ [pe]) (b \<and> SetNodeMap_Get (Children s) pe = None) (SetNodeMap_Get (Children s) pe) d)))"
    and "changes_ok m d"
  shows "adds_changes m path
    {pe # p |pe p b tr. (pe, b) \<in> set es \<and> tyf pe = Some tr \<and>
       p \<in> A tr (b \<and> SetNodeMap_Get (Children s) pe = None) (SetNodeMap_Get (Children s) pe)} d
    (snd (reconcile_visit rec tyf s path es d))"
  using assms(3,4)
proof (induction es arbitrary: d)
  case Nil
  then show ?case by (simp add: adds_changes_none)
next
  case (Cons e es)
  obtain pe b where e: "e = (pe, b)" by (cases e)
  let ?A = "\<lambda>tr. A tr (b \<and> SetNodeMap_Get (Children s) pe = None) (SetNodeMap_Get (Children s) pe)"
  let ?R = "{pe # p |p tr. tyf pe = Some tr \<and> p \<in> ?A tr}"
  define d1 where "d1 = snd (reconcile_handleElement rec (tyf pe) s path pe b d)"
  have first: "adds_changes m path ?R d d1"
  proof (cases "tyf pe")
    case None
    then show ?thesis using Cons.prems(2) by (simp add: d1_def reconcile_handleElement_def adds_changes_none)
  next
    case (Some tr)
    have "?R = (#) pe ` ?A tr" using Some by auto
    then show ?thesis
      using Cons.prems(1) [of pe b tr d] Cons.prems(2) Some e
      by (simp add: d1_def reconcile_handleElement_def split_beta adds_changes_def adds_nil_prefix Let_def)
  qed
  have "adds_changes m path
      {pe # p |pe p b tr. (pe, b) \<in> set es \<and> tyf pe = Some tr \<and>
        p \<in> A tr (b \<and> SetNodeMap_Get (Children s) pe = None) (SetNodeMap_Get (Children s) pe)} d1
      (snd (reconcile_visit rec tyf s path es d1))"
    using Cons.prems(1) adds_changes_ok [OF first] by (intro Cons.IH) auto
  with first have "adds_changes m path (?R \<union> {pe # p |pe p b tr. (pe, b) \<in> set es \<and> tyf pe = Some tr \<and>
        p \<in> A tr (b \<and> SetNodeMap_Get (Children s) pe = None) (SetNodeMap_Get (Children s) pe)}) d
      (snd (reconcile_visit rec tyf s path es d1))"
    by (auto simp: adds_changes_def intro: adds_nil_trans)
  moreover have "?R \<union> {pe # p |pe p b tr. (pe, b) \<in> set es \<and> tyf pe = Some tr \<and>
        p \<in> A tr (b \<and> SetNodeMap_Get (Children s) pe = None) (SetNodeMap_Get (Children s) pe)} =
      {pe # p |pe p b tr. (pe, b) \<in> set (e # es) \<and> tyf pe = Some tr \<and>
        p \<in> A tr (b \<and> SetNodeMap_Get (Children s) pe = None) (SetNodeMap_Get (Children s) pe)}"
    unfolding e by auto
  ultimately show ?case unfolding d1_def by (simp add: e split_beta)
qed

lemma adds_changes_finish:
  "changes_ok m d \<Longrightarrow> adds_changes m path R d d' \<Longrightarrow> adds_changes m path R d (reconcile_finishDescent d d')"
  by (auto simp: adds_changes_def changes_ok_def reconcile_finishDescent_def intro: adds_nil_union)

lemma becomes_atomic_list:
  assumes "Resolve sc tr = Some a" "Atom_Map a = None" "Atom_Scalar a = None" "Atom_List a = Some t"
  shows "Collect (becomes_atomic sc tr b fs) =
    (if \<not> b \<and> List_ElementRelationship t = Atomic then {[]}
     else case fs of None \<Rightarrow> {} | Some s \<Rightarrow>
       {pe # p |pe p b tr'. (pe, b) \<in> set (reconcile_entries s) \<and> Some (List_ElementType t) = Some tr' \<and>
          p \<in> Collect (becomes_atomic sc tr' (b \<and> SetNodeMap_Get (Children s) pe = None) (SetNodeMap_Get (Children s) pe))})"
proof (rule set_eqI)
  fix p show "p \<in> Collect (becomes_atomic sc tr b fs) \<longleftrightarrow> p \<in> (if \<not> b \<and> List_ElementRelationship t = Atomic then {[]}
     else case fs of None \<Rightarrow> {} | Some s \<Rightarrow>
       {pe # p |pe p b tr'. (pe, b) \<in> set (reconcile_entries s) \<and> Some (List_ElementType t) = Some tr' \<and>
          p \<in> Collect (becomes_atomic sc tr' (b \<and> SetNodeMap_Get (Children s) pe = None) (SetNodeMap_Get (Children s) pe))})"
    using assms by (cases p) (auto simp: becomes_atomic_Nil becomes_atomic_Cons split: option.splits)
qed

lemma becomes_atomic_map:
  assumes "Resolve sc tr = Some a" "Atom_Map a = Some t"
  shows "Collect (becomes_atomic sc tr b fs) =
    (if isUntypedDeducedMap t then {}
     else case fs of None \<Rightarrow> {} | Some s \<Rightarrow>
       if \<not> b \<and> Map_ElementRelationship t = Atomic then (if Set_Size s > 0 then {[]} else {})
       else {pe # p |pe p b tr'. (pe, b) \<in> set (reconcile_entries s) \<and> typeRefAtPath t pe = Some tr' \<and>
          p \<in> Collect (becomes_atomic sc tr' (b \<and> SetNodeMap_Get (Children s) pe = None) (SetNodeMap_Get (Children s) pe))})"
proof (rule set_eqI)
  fix p show "p \<in> Collect (becomes_atomic sc tr b fs) \<longleftrightarrow> p \<in> (if isUntypedDeducedMap t then {}
     else case fs of None \<Rightarrow> {} | Some s \<Rightarrow>
       if \<not> b \<and> Map_ElementRelationship t = Atomic then (if Set_Size s > 0 then {[]} else {})
       else {pe # p |pe p b tr'. (pe, b) \<in> set (reconcile_entries s) \<and> typeRefAtPath t pe = Some tr' \<and>
          p \<in> Collect (becomes_atomic sc tr' (b \<and> SetNodeMap_Get (Children s) pe = None) (SetNodeMap_Get (Children s) pe))})"
    using assms by (cases p) (auto simp: becomes_atomic_Nil becomes_atomic_Cons split: option.splits)
qed

lemma becomes_atomic_other:
  "Resolve sc tr = None \<or> (\<exists>a. Resolve sc tr = Some a \<and> Atom_Map a = None \<and> (Atom_Scalar a \<noteq> None \<or> Atom_List a = None)) \<Longrightarrow>
    Collect (becomes_atomic sc tr b fs) = {}"
  by (auto elim: becomes_atomic.cases)

lemma reconcile_adds:
  shows "pred_option (Set_wf m) fs \<Longrightarrow> path_ok m path \<Longrightarrow> changes_ok m d \<Longrightarrow>
    adds_changes m path (Collect (becomes_atomic sc tr b fs)) d
      (reconcile_finishDescent d (snd (reconcile sc tr path b fs d)))"
proof (induction fs arbitrary: tr path b d rule: measure_induct_rule [of fs_size])
  case (less fs)
  let ?rec = "\<lambda>tr' p b fs d'. reconcile sc tr' p b fs d'"
  have visit: "adds_changes m path
      {pe # p |pe p b tr'. (pe, b) \<in> set (reconcile_entries s) \<and> tyf pe = Some tr' \<and>
        p \<in> Collect (becomes_atomic sc tr' (b \<and> SetNodeMap_Get (Children s) pe = None) (SetNodeMap_Get (Children s) pe))} d
      (snd (reconcile_visit ?rec tyf s path (reconcile_entries s) d))"
    if "fs = Some s" for s tyf
  proof (rule reconcile_visit_adds [OF _ less.prems(2) _ less.prems(3)])
    show wf: "Set_wf m s" using less.prems(1) that by simp
    show "adds_changes m (path @ [pe])
        (Collect (becomes_atomic sc tr (b \<and> SetNodeMap_Get (Children s) pe = None) (SetNodeMap_Get (Children s) pe))) d
        (reconcile_finishDescent d (snd (reconcile sc tr (path @ [pe]) (b \<and> SetNodeMap_Get (Children s) pe = None)
          (SetNodeMap_Get (Children s) pe) d)))"
      if "(pe, b) \<in> set (reconcile_entries s)" "changes_ok m d" for pe b tr d
      using that less.prems(2) wf reconcile_entries_ok [OF wf] child_fs_size [of s pe] \<open>fs = Some s\<close>
      by (intro less.IH) (auto intro: SetNodeMap_Get_wf)
  qed
  note none = adds_changes_finish [OF less.prems(3) adds_changes_none [OF less.prems(3)]]
  note new = adds_changes_new [OF less.prems(3,2)]
  note visited = adds_changes_finish [OF less.prems(3) visit]
  show ?case
  proof (cases "Resolve sc tr")
    case None
    then show ?thesis using none by (simp add: becomes_atomic_other reconcile.simps [of sc tr])
  next
    case (Some a)
    consider t where "Atom_Map a = Some t" | t where "Atom_Map a = None" "Atom_Scalar a = None" "Atom_List a = Some t"
      | "Atom_Map a = None" "Atom_Scalar a \<noteq> None \<or> Atom_List a = None" by fastforce
    then show ?thesis
    proof cases
      case (1 t)
      then have rec: "reconcile sc tr path b fs d = reconcile_doMap ?rec path b fs d t"
        using Some by (simp add: reconcile.simps [of sc tr] reconcile_handle_def handleAtom_def)
      show ?thesis
        unfolding becomes_atomic_map [OF Some 1] rec reconcile_doMap_def reconcile_visitMapItems_def
        using none new visited by (auto split: option.splits)
    next
      case (2 t)
      then have rec: "reconcile sc tr path b fs d = reconcile_doList ?rec path b fs d t"
        using Some by (simp add: reconcile.simps [of sc tr] reconcile_handle_def handleAtom_def)
      show ?thesis
        unfolding becomes_atomic_list [OF Some 2] rec reconcile_doList_def reconcile_visitListItems_def
        using none new visited [of _ "\<lambda>pe. Some (List_ElementType t)"] by (auto split: option.splits)
    next
      case 3
      then have "snd (reconcile sc tr path b fs d) = d"
        using Some by (auto simp: reconcile.simps [of sc tr] reconcile_handle_def handleAtom_def split: option.splits)
      then show ?thesis using none Some 3 by (simp add: becomes_atomic_other)
    qed
  qed
qed

section \<open>The reconciled set\<close>

text \<open>The roots of the subtrees that have become atomic, up to equality of path elements.\<close>

definition atomic_root :: "TypedValue \<Rightarrow> FieldSet \<Rightarrow> Path \<Rightarrow> bool" where
  "atomic_root tv fs q \<longleftrightarrow>
     (\<exists>r. becomes_atomic (schema_types (tv_schema tv)) (tv_typeRef tv) False (Some fs) r \<and> r \<noteq> [] \<and> Path_Equals r q)"

lemma Reconcile_laws:
  assumes "Set_wf m fs" "ReconcileFieldSetWithSchema fs tv = Inr r"
  shows "r = None \<longleftrightarrow> (\<forall>p. \<not> becomes_atomic (schema_types (tv_schema tv)) (tv_typeRef tv) False (Some fs) p)"
    and "pred_option (Set_wf m) r"
    and "r = Some out \<Longrightarrow> path_ok m p \<Longrightarrow>
      Set_Has out p \<longleftrightarrow> (Set_Has fs p \<and> \<not> (\<exists>i \<le> length p. atomic_root tv fs (take i p))) \<or> atomic_root tv fs p"
proof -
  let ?R = "Collect (becomes_atomic (schema_types (tv_schema tv)) (tv_typeRef tv) False (Some fs))"
  obtain errs rm ad where rec: "reconcile (schema_types (tv_schema tv)) (tv_typeRef tv) [] False (Some fs) (None, None) = (errs, rm, ad)"
    by (metis prod.exhaust)
  have fin: "reconcile_finishDescent (None, None) x = x" for x
    by (cases x) (auto simp: reconcile_finishDescent_def union_nil_def split: option.splits)
  have "adds_changes m [] ?R (None, None) (rm, ad)"
    using reconcile_adds [of m "Some fs" "[]" "(None, None)" "schema_types (tv_schema tv)" "tv_typeRef tv" False] assms(1)
    by (simp add: rec fin changes_ok_def)
  then have ch: "pred_option (Set_wf m) rm" "pred_option (Set_wf m) ad" "rm = None \<longleftrightarrow> ?R = {}" "ad = None \<longleftrightarrow> ?R = {}"
    "\<And>q. path_ok m q \<Longrightarrow> has_nil rm q \<longleftrightarrow> atomic_root tv fs q" "\<And>q. path_ok m q \<Longrightarrow> has_nil ad q \<longleftrightarrow> atomic_root tv fs q"
    by (auto simp: adds_changes_def adds_nil_def atomic_root_def has_nil_def [of None])
  have r: "r = (if ?R = {} then None else Some (Set_Union (Set_RecursiveDifference fs (the rm)) (the ad)))"
    using assms(2) ch(3,4) by (cases rm; cases ad) (auto simp: ReconcileFieldSetWithSchema_def rec split: if_splits)
  then show "r = None \<longleftrightarrow> (\<forall>p. \<not> becomes_atomic (schema_types (tv_schema tv)) (tv_typeRef tv) False (Some fs) p)" by auto
  have wf: "Set_wf m (the rm)" "Set_wf m (the ad)" if "?R \<noteq> {}" using ch(1-4) that by auto
  then show "pred_option (Set_wf m) r" using assms(1) by (simp add: r Set_Union_wf Set_RecursiveDifference_wf)
  assume out: "r = Some out" "path_ok m p"
  then have ne: "?R \<noteq> {}" using r by (auto split: if_splits)
  have "path_ok m (take i p)" for i using out(2) by (auto simp: list_all_iff dest: in_set_takeD)
  then have "has_nil rm (take i p) \<longleftrightarrow> atomic_root tv fs (take i p)" for i by (rule ch(5))
  then have "Set_covers (the rm) p \<longleftrightarrow> (\<exists>i \<le> length p. atomic_root tv fs (take i p))"
    unfolding Set_covers_def using ch(3) ne by (auto simp: has_nil_def)
  moreover have "Set_Has (the ad) p \<longleftrightarrow> atomic_root tv fs p" using ch(4,6) ne out(2) by (auto simp: has_nil_def)
  ultimately show "Set_Has out p \<longleftrightarrow> (Set_Has fs p \<and> \<not> (\<exists>i \<le> length p. atomic_root tv fs (take i p))) \<or> atomic_root tv fs p"
    using out r ne wf assms(1)
    by (auto simp: Set_Union_Has [of m] Set_RecursiveDifference_Has [of m] Set_RecursiveDifference_wf split: if_splits)
qed

end
