(* ===== verification/Properties_Typed.thy ===== *)
theory Properties_Typed
  imports Properties_Schema Reconcile_Schema
begin

text \<open>
  The properties of the package \<^verbatim>\<open>typed\<close>: validation, field sets, removal, merging, comparison and
  reconciliation with a changed schema, each with a concrete instance.
\<close>

section \<open>Concrete objects\<close>

definition ex_schema :: SchemaPtr where "ex_schema = \<lparr>schema_address = 1, schema_types = ex_types\<rparr>"

definition ex_object :: "64 word \<Rightarrow> Value" where
  "ex_object n =
     VMap [(''name'', VString ''web''),
           (''spec'', VMap [(''replicas'', VInt n),
                            (''ports'', VList [VMap [(''port'', VInt 80)], VMap [(''port'', VInt 443), (''protocol'', VString ''UDP'')]])])]"

definition ex_tv :: "64 word \<Rightarrow> TypedValue" where
  "ex_tv n = \<lparr>tv_value = Some (ex_object n), tv_typeRef = ex_named ''object'', tv_schema = ex_schema\<rparr>"

lemma ex_object_ok [simp]: "value_ok No_Floats (ex_object n)" "TypedValue_ok No_Floats (ex_tv n)"
  by (simp_all add: ex_object_def ex_tv_def TypedValue_ok_def ex_schema_def)

lemma ex_tv_sel [simp]:
  "tv_value (ex_tv n) = Some (ex_object n)" "tv_typeRef (ex_tv n) = ex_named ''object''" "tv_schema (ex_tv n) = ex_schema"
  "schema_types ex_schema = ex_types" "TypeRef_Equals (ex_named k) (ex_named k)"
  by (simp_all add: ex_tv_def ex_schema_def ex_named_def Atom_zero_def)

lemma Set_covers_code [code]: "Set_covers t p \<longleftrightarrow> list_ex (\<lambda>i. Set_Has t (take i p)) [0..<Suc (length p)]"
  unfolding Set_covers_def list_ex_iff set_upt by (metis atLeastLessThan_iff le0 less_Suc_eq_le)

section \<open>Validation and field sets\<close>

text \<open>C8 (type): \<^verbatim>\<open>AsTyped\<close> succeeds exactly on the values that conform to their type in the schema, and then returns
  the value with its type.\<close>

theorem AsTyped_conforms:
  assumes "Schema_ok m (schema_types s)" "TypeRef_ok m tr" "value_ok m v"
  shows "AsTyped (Some v) s tr opts = Inr tv \<longleftrightarrow>
    conforms (schema_types s) (AllowDuplicates \<in> set opts) tr v \<and> tv = AsTypedUnvalidated (Some v) s tr"
  using AsTyped_iff [OF assms] .

theorem AsTyped_conforms_witness:
  "conforms ex_types False (ex_named ''object'') (ex_object 1) \<and> \<not> conforms ex_types False (ex_named ''object'') (VString ''x'')"
proof -
  have "AsTyped (Some (ex_object 1)) ex_schema (ex_named ''object'') [] = Inr (ex_tv 1)"
    "isl (AsTyped (Some (VString ''x'')) ex_schema (ex_named ''object'') [])"
    by code_simp+
  then show ?thesis
    using AsTyped_conforms [of No_Floats ex_schema "ex_named ''object''" "ex_object 1" "[]" "ex_tv 1"]
      AsTyped_conforms [of No_Floats ex_schema "ex_named ''object''" "VString ''x''" "[]"
        "AsTypedUnvalidated (Some (VString ''x'')) ex_schema (ex_named ''object'')"]
    by (auto simp: isl_def)
qed

text \<open>C7 (functional): \<^verbatim>\<open>TypedValue.ToFieldSet\<close> of a value that conforms succeeds; its set is well-formed and has
  exactly the paths the value owns: leaf fields, list items by key or value, and items present more than once as one path.\<close>

theorem ToFieldSet_correct:
  assumes "TypedValue_ok m tv" "tv_value tv = Some v" "conforms (schema_types (tv_schema tv)) dup (tv_typeRef tv) v" "path_ok m p"
  shows "\<exists>s. TypedValue_ToFieldSet tv = Inr s \<and> Set_wf m s \<and>
    (Set_Has s p \<longleftrightarrow> (\<exists>r \<in> set (owned_by tv). r \<noteq> [] \<and> Path_Equals r p))"
  using ToFieldSet_conforms [OF assms(2,3)] ToFieldSet_wf [OF assms(1,2)] ToFieldSet_Has [OF assms(1,2) _ assms(4)] by blast

theorem ToFieldSet_correct_witness:
  "\<exists>s. TypedValue_ToFieldSet (ex_tv 1) = Inr s \<and> Set_Has s [ex_spec, ex_replicas] \<and> \<not> Set_Has s [ex_spec]"
proof -
  have "validate ex_types False (ex_named ''object'') (Some (ex_object 1)) None = []" by code_simp
  then have c: "conforms ex_types False (ex_named ''object'') (ex_object 1)"
    using validate_iff_conforms [of No_Floats ex_types "ex_named ''object''" "ex_object 1"] by simp
  have "list_ex (\<lambda>r. r \<noteq> [] \<and> Path_Equals r [ex_spec, ex_replicas]) (owned_by (ex_tv 1))"
    "\<not> list_ex (\<lambda>r. r \<noteq> [] \<and> Path_Equals r [ex_spec]) (owned_by (ex_tv 1))"
    by code_simp+
  then show ?thesis
    using ToFieldSet_correct [of No_Floats "ex_tv 1" "ex_object 1" False "[ex_spec, ex_replicas]"]
      ToFieldSet_correct [of No_Floats "ex_tv 1" "ex_object 1" False "[ex_spec]"] c
    by (auto simp: list_ex_iff)
qed

section \<open>Removal\<close>

text \<open>C20 (functional): after \<^verbatim>\<open>RemoveItems\<close>, a field below granular maps is gone exactly when the set has it or a field
  above it; otherwise it is as before, less the items of the set below it.\<close>

theorem RemoveItems_lookup:
  assumes "Set_wf m s" "value_ok m v" "granular_type sc tr (k # ks) = Some tr'"
  shows "lookup_fields (removeItemsWithSchema sc False v s tr) (k # ks) =
    (if Set_covers s (map pe_field (k # ks)) then None
     else map_option (\<lambda>x. if Set_Empty (below s (k # ks)) then x
                          else removeItemsWithSchema sc False x (below s (k # ks)) tr') (lookup_fields v (k # ks)))"
  using remove_lookup [OF assms] .

theorem RemoveItems_lookup_witness:
  "lookup_fields (removeItemsWithSchema ex_types False (ex_object 1) (NewSet [[ex_spec, ex_replicas]]) (ex_named ''object'')) [''spec'', ''replicas''] = None \<and>
   lookup_fields (removeItemsWithSchema ex_types False (ex_object 1) (NewSet [[ex_spec, ex_replicas]]) (ex_named ''object'')) [''name''] = Some (VString ''web'')"
proof -
  let ?s = "NewSet [[ex_spec, ex_replicas]]"
  have wf: "Set_wf No_Floats ?s" by (rule NewSet_wf) simp
  have ty: "granular_type ex_types (ex_named ''object'') [''spec'', ''replicas''] = Some ex_numeric"
    "granular_type ex_types (ex_named ''object'') [''name''] = Some ex_string" by code_simp+
  have "Set_covers ?s (map pe_field [''spec'', ''replicas''])" "\<not> Set_covers ?s (map pe_field [''name''])"
    "Set_Empty (below ?s [''name''])" "lookup_fields (ex_object 1) [''name''] = Some (VString ''web'')"
    by code_simp+
  then show ?thesis
    using RemoveItems_lookup [OF wf ex_object_ok(1) ty(1)] RemoveItems_lookup [OF wf ex_object_ok(1) ty(2)] by simp
qed

text \<open>\<^verbatim>\<open>RemoveItems\<close> on a list drops the items whose path element is in the set and keeps the others in
  their order, each less what the set has below it.\<close>

theorem RemoveItems_list:
  "remove_list_items rec sc t s False xs =
     map (\<lambda>x. if Set_Empty (Set_WithPrefix s (item_pe sc t x)) then x
              else rec x (Set_WithPrefix s (item_pe sc t x)) (List_ElementType t))
       (filter (\<lambda>x. \<not> Set_Has s [item_pe sc t x]) xs)"
  by (rule remove_list_items_filter)

section \<open>Merging\<close>

text \<open>C22 (roundtrip): merging an object with itself returns the object, when it is valid and its lists are atomic or
  associative without duplicates.\<close>

theorem Merge_idempotent:
  assumes "TypedValue_ok m tv" "tv_value tv = Some v" "mergeable (schema_types (tv_schema tv)) False (tv_typeRef tv) v"
    "TypeRef_Equals (tv_typeRef tv) (tv_typeRef tv)"
  shows "TypedValue_Merge tv tv = Inr tv"
  using Merge_same [OF assms] .

lemma ex_resolve:
  "Resolve ex_types (ex_named ''object'') = Some (MkAtom None None (Some ex_object_map))"
  "Resolve ex_types (ex_named ''spec'') = Some (MkAtom None None (Some ex_spec_map))"
  "Resolve ex_types (ex_named ''ports'') = Some (MkAtom None (Some (MkList (ex_named ''port'') Associative [''port'', ''protocol''])) None)"
  "Resolve ex_types (ex_named ''port'') = Some (MkAtom None None (Some ex_port_map))"
  "Resolve ex_types ex_string = Some (MkAtom (Some String) None None)"
  "Resolve ex_types ex_numeric = Some (MkAtom (Some Numeric) None None)"
  by code_simp+

lemma ex_fields:
  "field_typeref ex_object_map ''name'' = ex_string" "field_typeref ex_object_map ''spec'' = ex_named ''spec''"
  "field_typeref ex_spec_map ''replicas'' = ex_numeric" "field_typeref ex_spec_map ''ports'' = ex_named ''ports''"
  "field_typeref ex_port_map ''port'' = ex_numeric" "field_typeref ex_port_map ''protocol'' = ex_string"
  by code_simp+

lemma ex_mergeable: "mergeable ex_types False (ex_named ''object'') (ex_object n)"
proof -
  have s: "mergeable ex_types False ex_string (VString x)" for x
    by (rule mergeable_scalar [OF ex_resolve(5), of String]) (simp_all add: scalar_ok_def)
  have i: "mergeable ex_types False ex_numeric (VInt k)" for k
    by (rule mergeable_scalar [OF ex_resolve(6), of Numeric]) (simp_all add: scalar_ok_def)
  have "validate ex_types False (ex_named ''ports'') (Some (VList [VMap [(''port'', VInt 80)], VMap [(''port'', VInt 443), (''protocol'', VString ''UDP'')]])) None = []"
    by code_simp
  then have "conforms ex_types False (ex_named ''ports'') (VList [VMap [(''port'', VInt 80)], VMap [(''port'', VInt 443), (''protocol'', VString ''UDP'')]])"
    using validate_iff_conforms [of No_Floats ex_types "ex_named ''ports''"] by simp
  then have keys: "item_keys_ok ex_types False (MkList (ex_named ''port'') Associative [''port'', ''protocol''])
      [VMap [(''port'', VInt 80)], VMap [(''port'', VInt 443), (''protocol'', VString ''UDP'')]]"
    by (cases rule: conforms.cases) (auto simp: ex_resolve scalar_ok_def)
  have ports: "mergeable ex_types False (ex_named ''ports'')
      (VList [VMap [(''port'', VInt 80)], VMap [(''port'', VInt 443), (''protocol'', VString ''UDP'')]])"
    using keys i s
    by (intro mergeable_list [OF ex_resolve(3)]) (auto simp: ex_fields intro!: mergeable_map [OF ex_resolve(4), of ex_port_map])
  have "mergeable ex_types False (ex_named ''spec'')
      (VMap [(''replicas'', VInt n), (''ports'', VList [VMap [(''port'', VInt 80)], VMap [(''port'', VInt 443), (''protocol'', VString ''UDP'')]])])"
    using i ports by (intro mergeable_map [OF ex_resolve(2)]) (auto simp: ex_fields)
  with s show ?thesis unfolding ex_object_def by (intro mergeable_map [OF ex_resolve(1)]) (auto simp: ex_fields)
qed

theorem Merge_idempotent_witness: "TypedValue_Merge (ex_tv 3) (ex_tv 3) = Inr (ex_tv 3)"
  by (rule Merge_idempotent [of No_Floats _ "ex_object 3"]) (simp_all add: ex_mergeable)

text \<open>C23 (termination): the loop of \<^verbatim>\<open>mergingWalker.visitListItems\<close>, whose two positions advance under several conditions,
  always ends: no merge of well-formed values runs out of the bound of one step per item.\<close>

theorem Merge_ends:
  assumes "Schema_ok m sc" "TypeRef_ok m (mw_typeRef w)" "pred_option (value_ok m) (mw_lhs w)" "pred_option (value_ok m) (mw_rhs w)"
  shows "list_all (\<lambda>e. ErrorMessage e \<noteq> Diverges) (fst (merge_walk sc rule hook w p))"
  using merge_walk_ends [OF assms] .

theorem Merge_ends_witness:
  "list_all (\<lambda>e. ErrorMessage e \<noteq> Diverges) (fst (merge_walk ex_types ruleKeepRHS None
     \<lparr>mw_lhs = Some (ex_object 1), mw_rhs = Some (ex_object 2), mw_typeRef = ex_named ''object'', mw_path = [], mw_out = None,
      mw_inLeaf = False\<rparr> None))"
  by (rule Merge_ends [of No_Floats]) simp_all

section \<open>Comparing\<close>

text \<open>C32 (safety): comparing an object with itself finds no difference and no error, when it is valid and its lists are
  atomic or associative.\<close>

theorem Compare_reflexive:
  assumes "TypedValue_ok m tv" "tv_value tv = Some v" "mergeable (schema_types (tv_schema tv)) True (tv_typeRef tv) v"
    "TypeRef_Equals (tv_typeRef tv) (tv_typeRef tv)"
  shows "TypedValue_Compare tv tv = Inr Comparison_empty \<and> Comparison_IsSame Comparison_empty"
  using Compare_self [OF assms] by (simp add: Comparison_IsSame_def Comparison_empty_def NewSet_def PathElementSet_Size_def)

text \<open>Values mergeable without duplicates are mergeable with.\<close>

lemma mergeable_mono: "mergeable sc False tr v \<Longrightarrow> mergeable sc True tr v"
proof (induction rule: mergeable.induct)
  case (mergeable_list tr a t xs)
  then show ?case by (intro mergeable.mergeable_list [of sc tr a t]) (auto simp: item_keys_ok_def)
qed (auto intro: mergeable.intros)

theorem Compare_reflexive_witness: "TypedValue_Compare (ex_tv 3) (ex_tv 3) = Inr Comparison_empty"
  using Compare_reflexive [of No_Floats "ex_tv 3" "ex_object 3"] mergeable_mono [OF ex_mergeable] by simp

text \<open>C6 (functional): a leaf field below granular maps that at least one of two objects has is reported by \<^verbatim>\<open>Compare\<close>: as added
  or removed when only one of them has it, also when that one alone has the maps above it, and as modified when its two values differ.\<close>

theorem Compare_reports:
  assumes "TypedValue_ok m l" "TypedValue_ok m r" "TypedValue_Compare l r = Inr c"
    "granular_type (schema_types (tv_schema l)) (tv_typeRef l) ks = Some tr" "ks \<noteq> []"
    "x = lookup_side (tv_value l) ks" "y = lookup_side (tv_value r) ks" "\<not> (x = None \<and> y = None)"
    "Resolve (schema_types (tv_schema l)) tr = Some a" "leaf_value a (if y = None then the x else the y)"
  shows "case (x, y) of
      (None, _) \<Rightarrow> Set_Has (Added c) (map pe_field ks)
    | (Some _, None) \<Rightarrow> Set_Has (Removed c) (map pe_field ks)
    | (Some vx, Some vy) \<Rightarrow> \<not> Equals vy vx \<longrightarrow> Set_Has (Modified c) (map pe_field ks)"
  using Compare_reports_leaf [OF assms] assms(8) by (auto simp: reports_def split: option.splits)

text \<open>The field \<^verbatim>\<open>spec.replicas\<close> against another value, and against an object without \<^verbatim>\<open>spec\<close>.\<close>

theorem Compare_reports_witness:
  "(\<exists>c. TypedValue_Compare (ex_tv 1) (ex_tv 2) = Inr c \<and> Set_Has (Modified c) (map pe_field [''spec'', ''replicas''])) \<and>
   (\<exists>c. TypedValue_Compare (ex_tv 1) ((ex_tv 1)\<lparr>tv_value := Some (VMap [])\<rparr>) = Inr c \<and>
     Set_Has (Removed c) (map pe_field [''spec'', ''replicas'']))"
proof -
  let ?r = "(ex_tv 1)\<lparr>tv_value := Some (VMap [])\<rparr>" and ?ks = "[''spec'', ''replicas'']"
  have "\<not> isl (TypedValue_Compare (ex_tv 1) (ex_tv 2))" "\<not> isl (TypedValue_Compare (ex_tv 1) ?r)" by code_simp+
  then obtain c d where c: "TypedValue_Compare (ex_tv 1) (ex_tv 2) = Inr c" and d: "TypedValue_Compare (ex_tv 1) ?r = Inr d"
    by (cases "TypedValue_Compare (ex_tv 1) (ex_tv 2)"; cases "TypedValue_Compare (ex_tv 1) ?r") auto
  have look: "lookup_side (tv_value (ex_tv n)) ?ks = Some (VInt n)" "lookup_side (Some (VMap [])) ?ks = None" for n
    by (simp_all add: lookup_side_def ex_object_def)
  have "granular_type ex_types (ex_named ''object'') ?ks = Some ex_numeric" "\<not> Equals (VInt 2) (VInt 1)" by code_simp+
  moreover have "leaf_value (MkAtom (Some Numeric) None None) (VInt n)" for n by (simp add: leaf_value_def scalar_ok_def)
  moreover have "TypedValue_ok No_Floats ?r" using ex_object_ok(2) [of 1] by (simp add: TypedValue_ok_def)
  ultimately show ?thesis
    using Compare_reports [of No_Floats "ex_tv 1" "ex_tv 2" c ?ks ex_numeric] Compare_reports [of No_Floats "ex_tv 1" ?r d ?ks ex_numeric]
      c d look ex_resolve(6) by auto
qed

text \<open>C25 (invariant): the three sets of a comparison of well-formed values are well-formed, and \<^verbatim>\<open>ExcludeFields\<close> takes out of
  each exactly the paths at or below the excluded ones.\<close>

theorem Compare_ExcludeFields:
  assumes "TypedValue_ok m l" "TypedValue_ok m r" "TypedValue_Compare l r = Inr c" "pred_option (Set_wf m) f" "path_ok m p"
  shows "Comparison_ok m c \<and> Comparison_ok m (Comparison_ExcludeFields c f) \<and>
    (Set_Has (Removed (Comparison_ExcludeFields c f)) p \<longleftrightarrow> Set_Has (Removed c) p \<and> \<not> excluded f p) \<and>
    (Set_Has (Modified (Comparison_ExcludeFields c f)) p \<longleftrightarrow> Set_Has (Modified c) p \<and> \<not> excluded f p) \<and>
    (Set_Has (Added (Comparison_ExcludeFields c f)) p \<longleftrightarrow> Set_Has (Added c) p \<and> \<not> excluded f p)"
  using Compare_ok [OF assms(1-3)] ExcludeFields_ok ExcludeFields_Has assms(4,5) by blast

theorem Compare_ExcludeFields_witness:
  "\<exists>c. TypedValue_Compare (ex_tv 1) (ex_tv 2) = Inr c \<and>
     \<not> Set_Has (Modified (Comparison_ExcludeFields c (Some (NewSet [[ex_spec]])))) [ex_spec, ex_replicas]"
proof -
  have "\<not> isl (TypedValue_Compare (ex_tv 1) (ex_tv 2))" by code_simp
  then obtain c where c: "TypedValue_Compare (ex_tv 1) (ex_tv 2) = Inr c" by (cases "TypedValue_Compare (ex_tv 1) (ex_tv 2)") auto
  have "Set_covers (NewSet [[ex_spec]]) [ex_spec, ex_replicas]" by code_simp
  then show ?thesis
    using Compare_ExcludeFields [of No_Floats "ex_tv 1" "ex_tv 2" c "Some (NewSet [[ex_spec]])" "[ex_spec, ex_replicas]"]
      c NewSet_wf [of No_Floats "[[ex_spec]]"] by (simp add: excluded_def)
qed

section \<open>Reconciliation with a changed schema\<close>

text \<open>C19 (functional): \<^verbatim>\<open>ReconcileFieldSetWithSchema\<close> returns nil exactly when nothing in the set has become atomic; otherwise
  the result is well-formed and has the roots of the atomic parts and those paths of the set that are not at or below
  one.\<close>

theorem Reconcile_correct:
  assumes "Set_wf m fs" "ReconcileFieldSetWithSchema fs tv = Inr r" "path_ok m p"
  shows "(r = None \<longleftrightarrow> (\<forall>q. \<not> becomes_atomic (schema_types (tv_schema tv)) (tv_typeRef tv) False (Some fs) q)) \<and>
    (case r of None \<Rightarrow> True | Some out \<Rightarrow> Set_wf m out \<and>
      (Set_Has out p \<longleftrightarrow> (Set_Has fs p \<and> \<not> (\<exists>i \<le> length p. atomic_root tv fs (take i p))) \<or> atomic_root tv fs p))"
  using Reconcile_laws(1,2) [OF assms(1,2)] Reconcile_laws(3) [OF assms(1,2) _ assms(3)] by (auto split: option.splits)

text \<open>The schema in which \<^verbatim>\<open>spec\<close> has become atomic.\<close>

definition ex_atomic_types :: "TypeDef list" where
  "ex_atomic_types =
     [(''object'', MkAtom None None (Some ex_object_map)),
      (''spec'', MkAtom None None (Some (MkMap (Map_Fields ex_spec_map) [] TypeRef_zero Atomic)))]"

definition ex_atomic_tv :: TypedValue where
  "ex_atomic_tv = \<lparr>tv_value = Some VNull, tv_typeRef = ex_named ''object'', tv_schema = \<lparr>schema_address = 2, schema_types = ex_atomic_types\<rparr>\<rparr>"

theorem Reconcile_correct_witness:
  "\<exists>out. ReconcileFieldSetWithSchema (NewSet [[ex_spec, ex_replicas]]) ex_atomic_tv = Inr (Some out) \<and> Set_Has out [ex_spec] \<and>
     atomic_root ex_atomic_tv (NewSet [[ex_spec, ex_replicas]]) [ex_spec]"
proof -
  let ?fs = "NewSet [[ex_spec, ex_replicas]]"
  have wf: "Set_wf No_Floats ?fs" by (rule NewSet_wf) simp
  have r: "ReconcileFieldSetWithSchema ?fs ex_atomic_tv = Inr (Some (NewSet [[ex_spec]]))" "Set_Has (NewSet [[ex_spec]]) [ex_spec]"
    "\<not> Set_Has ?fs [ex_spec]" by code_simp+
  then show ?thesis using Reconcile_correct [OF wf r(1), of "[ex_spec]"] by simp
qed

end
