(* ===== verification/Kept_Values.thy ===== *)
theory Kept_Values
  imports Typed_Values
begin

text \<open>
  Removing items from a well-formed value and merging well-formed values gives well-formed values, so the
  objects that are pruned and merged on apply can be compared and turned into sets again.
\<close>

section \<open>Removal\<close>

lemma remove_list_items_ok:
  "(\<And>x s tr. x \<in> set xs \<Longrightarrow> value_ok m (rec x s tr)) \<Longrightarrow> list_all (value_ok m) xs \<Longrightarrow>
    list_all (value_ok m) (remove_list_items rec sc t s e xs)"
  by (induction xs) (auto simp: Let_def)

lemma remove_map_items_ok:
  "(\<And>x s tr. x \<in> snd ` set kvs \<Longrightarrow> value_ok m (rec x s tr)) \<Longrightarrow> list_all (\<lambda>kv. value_ok m (snd kv)) kvs \<Longrightarrow>
    list_all (\<lambda>kv. value_ok m (snd kv)) (remove_map_items rec t s e kvs)"
  by (induction kvs) (auto simp: Let_def)

lemma remove_map_items_keys: "fst ` set (remove_map_items rec t s e kvs) \<subseteq> fst ` set kvs"
proof (induction kvs)
  case (Cons kx kvs)
  then show ?case by (cases kx; cases e) (simp_all add: Let_def, blast+)
qed simp

lemma remove_map_items_distinct: "distinct (map fst kvs) \<Longrightarrow> distinct (map fst (remove_map_items rec t s e kvs))"
proof (induction kvs)
  case (Cons kx kvs)
  then have "fst kx \<notin> fst ` set (remove_map_items rec t s e kvs)"
    using remove_map_items_keys [of rec t s e kvs] by auto
  with Cons show ?case by (cases kx; cases e) (simp_all add: Let_def)
qed simp

lemma remove_value_ok: "value_ok m v \<Longrightarrow> value_ok m (removeItemsWithSchema sc e v s tr)"
proof (induction v arbitrary: s tr rule: measure_induct_rule [of size])
  case (less v)
  have IH: "value_ok m (removeItemsWithSchema sc e x s tr)" if "x \<in> children (Some v)" for x s tr
    using that less.IH children_size [OF that] children_ok [OF that, of m] less.prems by simp
  have "value_ok m (remove_doList (\<lambda>x s tr'. removeItemsWithSchema sc e x s tr') sc v s e t)" for t
    using less.prems IH
    by (cases v) (auto simp: remove_doList_def children_def Let_def intro!: remove_list_items_ok)
  moreover have "value_ok m (remove_doMap (\<lambda>x s tr'. removeItemsWithSchema sc e x s tr') v s e t)" for t
    using less.prems IH
    by (cases v) (auto simp: remove_doMap_def children_def Let_def rev_image_eqI intro!: remove_map_items_ok remove_map_items_distinct)
  ultimately show ?case
    using less.prems
    by (subst removeItemsWithSchema.simps) (auto simp: resolveSchema_def handleAtom_def split: option.splits)
qed

lemma remove_or_extract_ok: "TypedValue_ok m tv \<Longrightarrow> remove_or_extract e tv s = Inr tv' \<Longrightarrow> TypedValue_ok m tv'"
  by (auto simp: remove_or_extract_def TypedValue_ok_def remove_value_ok resolveSchema_def handleAtom_def split: option.splits)

section \<open>Merging\<close>

definition mw_ok :: "num_mode \<Rightarrow> mergingWalker \<Rightarrow> bool" where
  "mw_ok m w \<longleftrightarrow> pred_option (value_ok m) (mw_lhs w) \<and> pred_option (value_ok m) (mw_rhs w) \<and> pred_option (value_ok m) (mw_out w)"

lemma doLeaf_ok: "mw_ok m w \<Longrightarrow> mw_ok m (merge_doLeaf ruleKeepRHS w)"
  by (auto simp: mw_ok_def merge_doLeaf_def ruleKeepRHS_def split: option.splits)

lemma merge_list_loop_ok:
  assumes "\<And>pe l r. inside v l \<Longrightarrow> inside v' r \<Longrightarrow> pred_option (value_ok m) (f pe l r)"
    and "\<And>pe. inside v (PathElementMap_Get obsL pe)" "\<And>pe. inside v' (PathElementMap_Get obsR pe)"
  shows "\<forall>x \<in> set L. inside v (Some (snd x)) \<Longrightarrow> list_all (value_ok m) out \<Longrightarrow>
    merge_list_loop f obsL obsR n L R Q mg out = Some out' \<Longrightarrow> list_all (value_ok m) out'"
proof (induction n arbitrary: L R Q mg out)
  case (Suc n)
  have t: "\<forall>x \<in> set (tl L). inside v (Some (snd x))" using Suc.prems(1) by (cases L) auto
  note IH = Suc.IH [OF Suc.prems(1)] Suc.IH [OF t]
  have emit: "list_all (value_ok m) (case o' of None \<Rightarrow> out | Some x \<Rightarrow> out @ [x])" if "pred_option (value_ok m) o'" for o'
    using that Suc.prems(2) by (cases o') auto
  have both: "list_all (value_ok m) (case f pe (PathElementMap_Get obsL pe) (PathElementMap_Get obsR pe) of None \<Rightarrow> out | Some x \<Rightarrow> out @ [x])" for pe
    using assms by (intro emit) blast
  have left: "list_all (value_ok m) (case f pe (Some (snd (hd L))) None of None \<Rightarrow> out | Some x \<Rightarrow> out @ [x])" if "L \<noteq> []" for pe
    using that Suc.prems(1) by (intro emit assms(1)) (auto simp: inside_def)
  show ?case
    using Suc.prems(2,3) IH [OF both] IH [OF left] IH [OF Suc.prems(2)]
    by (simp only: merge_list_loop.simps Let_def split: if_splits) (simp_all split: if_splits)
qed (auto split: if_splits)

lemma merge_doList_ok:
  assumes "\<And>w2 p. mw_ok m w2 \<Longrightarrow> descends w w2 \<Longrightarrow> mw_ok m (snd (rec w2 p))" "mw_ok m w"
  shows "mw_ok m (snd (merge_doList rec sc ruleKeepRHS w t))"
proof -
  define l r where "l = case_option [] id (derefList (mw_lhs w))" and "r = case_option [] id (derefList (mw_rhs w))"
  have sub: "set l \<subseteq> children (mw_lhs w)" "set r \<subseteq> children (mw_rhs w)"
    unfolding l_def r_def by (rule derefList_children)+
  have item: "pred_option (value_ok m) (fst (mergeListItem rec w t pe x y))"
    if "inside (mw_lhs w) x" "inside (mw_rhs w) y" for pe x y
  proof -
    let ?w2 = "(merge_prepareDescent w pe (List_ElementType t))\<lparr>mw_lhs := x, mw_rhs := y\<rparr>"
    have "mw_ok m ?w2" "descends w ?w2"
      using assms(2) that inside_ok [OF that(1)] inside_ok [OF that(2)]
      by (auto simp: mw_ok_def merge_prepareDescent_def descends_def)
    then have "mw_ok m (snd (rec ?w2 (Some pe)))" by (rule assms(1))
    then show ?thesis by (simp add: mergeListItem_def mw_ok_def split_beta Let_def)
  qed
  have zip: "\<forall>x \<in> set (zip pes l). inside (mw_lhs w) (Some (snd x))" for pes
    using sub(1) by (auto simp: inside_def dest!: set_zip_rightD)
  have "list_all (value_ok m) out"
    if "merge_list_loop (\<lambda>pe x y. fst (mergeListItem rec w t pe x y))
          (fst (snd (merge_indexListPathElements sc t True 0 [] l))) (fst (snd (merge_indexListPathElements sc t False 0 [] r)))
          n (zip pes l) R Q mg [] = Some out" for n pes R Q mg out
    using merge_list_loop_ok [OF item merge_observed_inside [OF sub(1)] merge_observed_inside [OF sub(2)] zip _ that] by simp
  then have "mw_ok m (snd (merge_visitListItems rec sc w t (derefList (mw_lhs w)) (derefList (mw_rhs w))))"
    using assms(2)
    unfolding merge_visitListItems_def Let_def l_def [symmetric] r_def [symmetric] split_beta
    by (auto simp: mw_ok_def split: option.splits)
  then show ?thesis using assms(2) doLeaf_ok by (auto simp: merge_doList_def Let_def)
qed

lemma update_entries: "kv \<in> set (AList.update k x out) \<Longrightarrow> kv = (k, x) \<or> kv \<in> set out"
  by (induction out) (auto split: if_splits)

lemma fold_update_ok:
  assumes "\<And>e x. e \<in> set es \<Longrightarrow> g e = Some x \<Longrightarrow> value_ok m x" "value_ok m (VMap out)"
  shows "value_ok m (VMap (fold (\<lambda>e out. case g e of None \<Rightarrow> out | Some x \<Rightarrow> AList.update (fst e) x out) es out))"
  using assms
proof (induction es arbitrary: out)
  case (Cons e es)
  have "value_ok m (VMap (AList.update k x out))" if "value_ok m x" for k x
    using that Cons.prems(2) by (auto simp: distinct_update list_all_iff dest: update_entries)
  then have "value_ok m (VMap (case g e of None \<Rightarrow> out | Some x \<Rightarrow> AList.update (fst e) x out))"
    using Cons.prems(2) Cons.prems(1) [of e] by (cases "g e") (simp_all del: value_ok.simps)
  then show ?case using Cons.prems(1) by (simp del: value_ok.simps) (rule Cons.IH, auto simp del: value_ok.simps)
qed simp

lemma map_zip_inside:
  assumes "e \<in> set (zip_entries (derefMap v) (derefMap v'))"
  shows "inside v (fst (snd e))" "inside v' (snd (snd e))"
proof -
  have child: "y \<in> children u" if "derefMap u = Some mp" "(k, y) \<in> set mp" for u mp k y
    using derefMap_children [of u] that by auto
  have get: "y \<in> children u" if "map_Get (derefMap u) k = Some y" for u k y
    using map_Get_in [OF that] child by (auto split: option.splits)
  show "inside v (fst (snd e))" "inside v' (snd (snd e))"
    using assms child get
    by (cases "derefMap v"; cases "derefMap v'"; force simp: zip_entries_def inside_def split: option.splits)+
qed

lemma merge_doMap_ok:
  assumes "\<And>w2 p. mw_ok m w2 \<Longrightarrow> descends w w2 \<Longrightarrow> mw_ok m (snd (rec w2 p))" "mw_ok m w"
  shows "mw_ok m (snd (merge_doMap rec ruleKeepRHS w t))"
proof -
  let ?es = "zip_entries (derefMap (mw_lhs w)) (derefMap (mw_rhs w))"
  have "value_ok m x" if "e \<in> set ?es" "entry_out rec w t e = Some x" for e x
  proof -
    obtain k l r where e: "e = (k, l, r)" by (cases e)
    then have "inside (mw_lhs w) l" "inside (mw_rhs w) r" using map_zip_inside [OF that(1)] by simp_all
    moreover from this have "pred_option (value_ok m) l" "pred_option (value_ok m) r"
      using assms(2) inside_ok by (auto simp: mw_ok_def)
    ultimately have "mw_ok m (snd (rec (entry_walker w t k l r) (Some (pe_field k))))"
      by (intro assms(1)) (auto simp: mw_ok_def merge_prepareDescent_def descends_def)
    with that(2) show ?thesis by (simp add: entry_out_def e mw_ok_def)
  qed
  then have "value_ok m (VMap (fold (\<lambda>e out. case entry_out rec w t e of None \<Rightarrow> out | Some x \<Rightarrow> AList.update (fst e) x out) ?es []))"
    by (rule fold_update_ok) auto
  then have "mw_ok m (snd (merge_visitMapItems rec w t (derefMap (mw_lhs w)) (derefMap (mw_rhs w))))"
    using assms(2) unfolding merge_visitMapItems_fold Let_def by (simp add: mw_ok_def del: value_ok.simps)
  then show ?thesis using assms(2) doLeaf_ok by (auto simp: merge_doMap_def Let_def)
qed

lemma merge_walk_ok: "mw_ok m w \<Longrightarrow> mw_ok m (snd (merge_walk sc ruleKeepRHS None w p))"
proof (induction w arbitrary: p rule: measure_induct_rule [of "\<lambda>w. size_opt (mw_lhs w) + size_opt (mw_rhs w)"])
  case (less w)
  show ?case
  proof (cases "mw_lhs w = None \<and> mw_rhs w = None")
    case True
    then show ?thesis using less.prems by (subst merge_walk.simps) simp
  next
    case False
    have "mw_ok m (snd (merge_walk sc ruleKeepRHS None w2 p))" if "mw_ok m w2" "descends w w2" for w2 p
      using less.IH [OF descends_size [OF that(2) False] that(1)] .
    then have "mw_ok m (snd (merge_handle (\<lambda>w2 p. merge_walk sc ruleKeepRHS None w2 p) sc ruleKeepRHS w a))" for a
      using less.prems merge_doList_ok [of m w] merge_doMap_ok [of m w] doLeaf_ok [OF less.prems]
      by (auto simp: merge_handle_def handleAtom_def merge_doScalar_def Let_def split: option.splits)
    then show ?thesis
      using less.prems False by (subst merge_walk.simps) (simp add: Let_def split_beta split: option.splits)
  qed
qed

lemma Merge_ok:
  assumes "TypedValue_ok m l" "TypedValue_ok m r" "TypedValue_Merge l r = Inr tv"
  shows "TypedValue_ok m tv"
proof -
  let ?w = "\<lparr>mw_lhs = tv_value l, mw_rhs = tv_value r, mw_typeRef = tv_typeRef l, mw_path = [], mw_out = None, mw_inLeaf = False\<rparr>"
  have "mw_ok m (snd (merge_walk (schema_types (tv_schema l)) ruleKeepRHS None ?w None))"
    using assms(1,2) by (intro merge_walk_ok) (auto simp: mw_ok_def TypedValue_ok_def)
  then show ?thesis
    using assms by (auto simp: TypedValue_Merge_def merge_def mw_ok_def TypedValue_ok_def split: prod.splits if_splits)
qed

end
