(* ===== verification/Struct_Fields.thy ===== *)
theory Struct_Fields
  imports Kept_Values
begin

text \<open>
  A scalar field below named struct fields of granular maps: it is owned by its value, it is in the set with
  all the struct fields above it once the named fields are members, it leaves both when it leaves the value, and
  removal either drops it or keeps its value.
\<close>

section \<open>Paths of struct fields\<close>

fun struct_type :: "TypeDef list \<Rightarrow> TypeRef \<Rightarrow> string list \<Rightarrow> TypeRef option" where
  "struct_type sc tr [] = Some tr"
| "struct_type sc tr (k # ks) =
     (case Resolve sc tr of
        None \<Rightarrow> None
      | Some a \<Rightarrow> (case Atom_Map a of
          None \<Rightarrow> None
        | Some t \<Rightarrow>
            if Map_ElementRelationship t = Atomic \<or> FindField t k = None then None
            else struct_type sc (field_typeref t k) ks))"

abbreviation fields_path :: "string list \<Rightarrow> Path" where
  "fields_path ks \<equiv> map pe_field ks"

lemma struct_type_Cons:
  assumes "struct_type sc tr (k # ks) = Some tr'"
  obtains a t f where "Resolve sc tr = Some a" "Atom_Map a = Some t" "Map_ElementRelationship t \<noteq> Atomic"
    "FindField t k = Some f" "struct_type sc (field_typeref t k) ks = Some tr'"
  using assms by (auto split: option.splits if_splits)

lemma struct_granular: "struct_type sc tr ks = Some tr' \<Longrightarrow> granular_type sc tr ks = Some tr'"
  by (induction ks arbitrary: tr) (auto split: option.splits if_splits)

lemma struct_names:
  "struct_type sc tr ks = Some tr' \<Longrightarrow> 0 < i \<Longrightarrow> i \<le> length ks \<Longrightarrow> names_path sc tr (take i (fields_path ks))"
proof (induction ks arbitrary: tr i)
  case (Cons k ks)
  obtain a t f where t: "Resolve sc tr = Some a" "Atom_Map a = Some t" "FindField t k = Some f"
    "struct_type sc (field_typeref t k) ks = Some tr'"
    using Cons.prems(1) by (rule struct_type_Cons)
  have a: "resolve_or_zero sc tr = a" "child_typeref a (pe_field k) = field_typeref t k" "names_field a (pe_field k)"
    using t by (simp_all add: resolve_or_zero_def child_typeref_def names_field_def field_typeref_def pe_field_def)
  obtain j where i: "i = Suc j" using Cons.prems(2) by (cases i) auto
  show ?case
  proof (cases "j = 0")
    case False
    then have "names_path sc (field_typeref t k) (take j (fields_path ks))" using Cons i t(4) by auto
    moreover have "take j (fields_path ks) \<noteq> []" using False Cons.prems(3) i by (cases ks) auto
    ultimately show ?thesis using a i by (cases "take j (fields_path ks)") auto
  qed (use a i in simp)
qed simp

lemma fields_path_ok [simp]:
  "path_ok m (fields_path ks)" "path_ok m (take i (fields_path ks))" "path_ok m (drop i (fields_path ks))"
  by (auto simp: list_all_iff take_map drop_map)

lemma ensure_named_prefix:
  assumes "Set_wf m s" "Set_Has s (fields_path ks)" "struct_type sc tr ks = Some tr'" "0 < i" "i \<le> length ks"
  shows "Set_Has (Set_EnsureNamedFieldsAreMembers sc tr s) (take i (fields_path ks))"
proof (cases "i = length ks")
  case False
  then have "drop i (fields_path ks) \<noteq> []" "Set_Has s (take i (fields_path ks) @ drop i (fields_path ks))"
    using assms(2,5) by auto
  then show ?thesis
    unfolding Set_Ensure_Has [OF assms(1) fields_path_ok(2)] using struct_names [OF assms(3-5)] fields_path_ok(3) by blast
qed (use assms in \<open>simp add: Set_Ensure_Has [of m]\<close>)

section \<open>Scalar fields\<close>

definition scalar_at :: "TypeDef list \<Rightarrow> TypeRef \<Rightarrow> Value \<Rightarrow> bool" where
  "scalar_at sc tr x \<longleftrightarrow> (\<exists>a t. Resolve sc tr = Some a \<and> Atom_Scalar a = Some t) \<and> (is_float x \<or> is_int x \<or> is_string x \<or> is_bool x)"

lemma scalar_at_remove: "scalar_at sc tr x \<Longrightarrow> removeItemsWithSchema sc e x s tr = x"
  by (auto simp: scalar_at_def resolveSchema_def deduceAtom_handle removeItemsWithSchema.simps [of sc e x])

lemma scalar_at_owned: "scalar_at sc tr x \<Longrightarrow> owned sc tr x = [[]]"
  by (auto simp: scalar_at_def resolveSchema_def deduceAtom_handle owned.simps [of sc tr x])

lemma owned_granular_map:
  assumes "Resolve sc tr = Some a" "Atom_Map a = Some t" "Map_ElementRelationship t \<noteq> Atomic"
  shows "owned sc tr (VMap kvs) = owned_map (owned sc) t kvs"
  using assms by (subst owned.simps) (simp add: resolveSchema_def deduceAtom_handle)

lemma owned_scalar_field:
  "struct_type sc tr ks = Some tr' \<Longrightarrow> lookup_fields v ks = Some x \<Longrightarrow> scalar_at sc tr' x \<Longrightarrow>
    fields_path ks \<in> set (owned sc tr v)"
proof (induction ks arbitrary: tr v)
  case Nil
  then show ?case by (simp add: scalar_at_owned)
next
  case (Cons k ks)
  obtain a t f where t: "Resolve sc tr = Some a" "Atom_Map a = Some t" "Map_ElementRelationship t \<noteq> Atomic"
    "struct_type sc (field_typeref t k) ks = Some tr'"
    using Cons.prems(1) by (rule struct_type_Cons)
  obtain kvs y where v: "v = VMap kvs" "map_of kvs k = Some y" "lookup_fields y ks = Some x"
    using Cons.prems(2) by (cases v) (auto split: option.splits)
  have "fields_path ks \<in> set (owned sc (field_typeref t k) y)" using Cons.IH t(4) v(3) Cons.prems(3) by blast
  then show ?case
    using map_of_SomeD [OF v(2)] unfolding v(1) owned_granular_map [OF t(1-3)] owned_map_def by force
qed

lemma item_pe_not_field: "FieldName (item_pe sc t x) = None"
  by (auto simp: item_pe_def listItemToPathElement_def keyedAssociativeListItemToPathElement_def setItemToPathElement_def
      pe_key_def pe_value_def PathElement_zero_def map_sum_def split: sum.splits if_splits)

lemma Equals_pe_field [simp]: "PathElement_Equals pe (pe_field k) \<longleftrightarrow> FieldName pe = Some k"
  by (auto simp: PathElement_Equals_def pe_field_def split: option.splits)

lemma pe_field_sel [simp]: "FieldName (pe_field k) = Some k"
  by (simp add: pe_field_def)

lemma owned_not_map:
  assumes "Resolve sc tr = Some a" "Atom_Map a = Some t" "Map_ElementRelationship t \<noteq> Atomic" "\<not> is_map v" "pe # r \<in> set (owned sc tr v)"
  shows "FieldName pe = None"
  using assms(5) unfolding owned.simps [of sc tr v]
  using assms(1-4) item_pe_not_field
  by (cases v) (auto simp: resolveSchema_def deduceAtom_def handleAtom_def owned_list_def Let_def split: option.splits if_splits)

text \<open>A value owns a path at or below a struct field only if it has the field.\<close>

lemma owned_has_field:
  "struct_type sc tr ks = Some tr' \<Longrightarrow> value_ok m v \<Longrightarrow> r \<in> set (owned sc tr v) \<Longrightarrow>
    Path_Equals r (fields_path ks @ q) \<Longrightarrow> lookup_fields v ks \<noteq> None"
proof (induction ks arbitrary: tr v r)
  case (Cons k ks)
  obtain a t f where t: "Resolve sc tr = Some a" "Atom_Map a = Some t" "Map_ElementRelationship t \<noteq> Atomic"
    "struct_type sc (field_typeref t k) ks = Some tr'"
    using Cons.prems(1) by (rule struct_type_Cons)
  obtain pe r' where r: "r = pe # r'" "FieldName pe = Some k" "Path_Equals r' (fields_path ks @ q)"
    using Cons.prems(4) by (cases r) auto
  show ?case
  proof (cases v)
    case (VMap kvs)
    then obtain y where y: "(k, y) \<in> set kvs" "r' \<in> set (owned sc (field_typeref t k) y) \<or> r' = []"
      using Cons.prems(3) r(1,2) unfolding VMap owned_granular_map [OF t(1-3)] owned_map_def by (auto split: if_splits)
    have d: "distinct (map fst kvs)" "value_ok m y" using Cons.prems(2) y(1) VMap by (auto simp: list_all_iff)
    have "lookup_fields y ks \<noteq> None"
    proof (cases "r' = []")
      case True
      then show ?thesis using r(3) by (cases ks) (auto simp: Path_Equals_def)
    qed (use y(2) Cons.IH [OF t(4) d(2) _ r(3)] in blast)
    then show ?thesis using d(1) y(1) VMap by simp
  qed (use owned_not_map [OF t(1-3), of v pe r'] Cons.prems(3) r(1,2) in simp_all)
qed simp

section \<open>Scalar fields of typed values\<close>

definition has_field :: "TypedValue \<Rightarrow> string list \<Rightarrow> Value \<Rightarrow> bool" where
  "has_field tv ks x \<longleftrightarrow> (\<exists>v. tv_value tv = Some v \<and> lookup_fields v ks = Some x)"

definition lacks_field :: "TypedValue \<Rightarrow> string list \<Rightarrow> bool" where
  "lacks_field tv ks \<longleftrightarrow> (\<forall>v. tv_value tv = Some v \<longrightarrow> lookup_fields v ks = None)"

definition tv_struct_type :: "TypedValue \<Rightarrow> string list \<Rightarrow> TypeRef option" where
  "tv_struct_type tv ks = struct_type (schema_types (tv_schema tv)) (tv_typeRef tv) ks"

definition scalar_field :: "TypedValue \<Rightarrow> string list \<Rightarrow> Value \<Rightarrow> bool" where
  "scalar_field tv ks x \<longleftrightarrow> (case tv_struct_type tv ks of None \<Rightarrow> False | Some tr \<Rightarrow> ks \<noteq> [] \<and> scalar_at (schema_types (tv_schema tv)) tr x)"

abbreviation named_set :: "TypedValue \<Rightarrow> FieldSet \<Rightarrow> FieldSet" where
  "named_set tv s \<equiv> Set_EnsureNamedFieldsAreMembers (schema_types (tv_schema tv)) (tv_typeRef tv) s"

lemma field_set_has:
  assumes "TypedValue_ok m tv" "TypedValue_ToFieldSet tv = Inr s" "has_field tv ks x" "scalar_field tv ks x"
  shows "Set_Has s (fields_path ks)" "0 < i \<Longrightarrow> i \<le> length ks \<Longrightarrow> Set_Has (named_set tv s) (take i (fields_path ks))"
proof -
  obtain v where v: "tv_value tv = Some v" "lookup_fields v ks = Some x" using assms(3) by (auto simp: has_field_def)
  obtain tr where tr: "struct_type (schema_types (tv_schema tv)) (tv_typeRef tv) ks = Some tr" "ks \<noteq> []"
    "scalar_at (schema_types (tv_schema tv)) tr x"
    using assms(4) by (auto simp: scalar_field_def tv_struct_type_def split: option.splits)
  note laws = ToFieldSet_laws [OF assms(1) v(1) assms(2)]
  have "fields_path ks \<in> set (owned_by tv)" using owned_scalar_field [OF tr(1) v(2) tr(3)] v(1) by (simp add: owned_by_def)
  moreover have "Path_Equals (fields_path ks) (fields_path ks)" using path.eqv_refl [of m "fields_path ks"] by simp
  ultimately show has: "Set_Has s (fields_path ks)" using laws(2) [OF fields_path_ok(1)] tr(2) by (metis map_is_Nil_conv)
  show "0 < i \<Longrightarrow> i \<le> length ks \<Longrightarrow> Set_Has (named_set tv s) (take i (fields_path ks))"
    using ensure_named_prefix [OF laws(1) has tr(1)] .
qed

lemma field_set_lacks:
  assumes "TypedValue_ok m tv" "tv_value tv \<noteq> None" "TypedValue_ToFieldSet tv = Inr s" "lacks_field tv ks" "tv_struct_type tv ks \<noteq> None"
  shows "\<not> Set_Has (named_set tv s) (fields_path ks)"
proof
  assume has: "Set_Has (named_set tv s) (fields_path ks)"
  obtain v tr where v: "tv_value tv = Some v" "struct_type (schema_types (tv_schema tv)) (tv_typeRef tv) ks = Some tr"
    using assms(2,5) by (auto simp: tv_struct_type_def)
  note laws = ToFieldSet_laws [OF assms(1) v(1) assms(3)]
  obtain q where q: "path_ok m q" "Set_Has s (fields_path ks @ q)"
  proof (cases "Set_Has s (fields_path ks)")
    case True
    then show ?thesis using that [of "[]"] by simp
  next
    case False
    then show ?thesis using that has laws(1) by (auto simp: Set_Ensure_Has [of m])
  qed
  then obtain r where r: "r \<in> set (owned (schema_types (tv_schema tv)) (tv_typeRef tv) v)" "Path_Equals r (fields_path ks @ q)"
    using laws(2) [of "fields_path ks @ q"] v(1) by (auto simp: owned_by_def)
  have "value_ok m v" using assms(1) v(1) by (simp add: TypedValue_ok_def)
  from owned_has_field [OF v(2) this r] show False using assms(4) v(1) by (simp add: lacks_field_def)
qed

lemma remove_field:
  assumes "TypedValue_ok m tv" "Set_wf m s" "TypedValue_RemoveItems tv s = Inr tv'" "has_field tv ks x" "scalar_field tv ks x"
  shows "if Set_covers s (fields_path ks) then lacks_field tv' ks else has_field tv' ks x"
proof -
  obtain v where v: "tv_value tv = Some v" "lookup_fields v ks = Some x" using assms(4) by (auto simp: has_field_def)
  obtain tr where tr: "struct_type (schema_types (tv_schema tv)) (tv_typeRef tv) ks = Some tr" "ks \<noteq> []"
    "scalar_at (schema_types (tv_schema tv)) tr x"
    using assms(5) by (auto simp: scalar_field_def tv_struct_type_def split: option.splits)
  obtain k ks' where ks: "ks = k # ks'" using tr(2) by (cases ks) auto
  have tv': "tv_value tv' = Some (removeItemsWithSchema (schema_types (tv_schema tv)) False v s (tv_typeRef tv))"
    using assms(3) v(1) by (auto simp: TypedValue_RemoveItems_def remove_or_extract_def)
  have "value_ok m v" using assms(1) v(1) by (simp add: TypedValue_ok_def)
  note l = remove_lookup [OF assms(2) this struct_granular [OF tr(1), unfolded ks]]
  show ?thesis
    using l [folded ks] v(2) scalar_at_remove [OF tr(3)] by (simp add: tv' has_field_def lacks_field_def)
qed

end
