(* ===== verification/Updater.thy ===== *)
theory Updater
  imports Reconcile_Schema Managers
begin

text \<open>
  \<^verbatim>\<open>merge/update.go\<close>: the updater, which computes who owns which field after an update or an apply, and
  merges and prunes the object on apply.  The converter between versions is code of the caller: a record of
  two functions, an argument of the updater.  A \<^verbatim>\<open>*TypedValue\<close> is optional because a converter may return nil; a call on
  nil panics.
\<close>

section \<open>The interface of the converter, and errors\<close>

record 'e Converter =
  Convert :: "TypedValue option \<Rightarrow> APIVersion \<Rightarrow> TypedValue option \<times> 'e option"
  IsMissingVersionError :: "'e option \<Rightarrow> bool"

datatype 'e update_error =
    Failed_Compare ValidationErrors
  | Failed_Convert_Old 'e
  | Failed_Convert_New 'e
  | Conflicting Conflicts
  | Failed_Reconcile_Convert 'e
  | Failed_Reconcile ValidationErrors
  | Failed_Merge ValidationErrors
  | Failed_FieldSet ValidationErrors
  | Failed_Prune "'e update_error"
  | Failed_Convert_Merged 'e
  | Failed_Add_Back_Owned "'e update_error"
  | Failed_Add_Back_Dangling "'e update_error"
  | Failed_Convert_Back 'e
  | Failed_Convert_Version APIVersion 'e
  | Failed_FieldSet_Version ValidationErrors
  | Failed_RemoveItems ValidationErrors
  | Nil_Pointer

record 'e Updater =
  UpdaterConverter :: "'e Converter"
  IgnoredFields :: "(APIVersion \<times> FieldSet option) list"
  returnInputOnNoop :: bool

record 'e UpdaterBuilder =
  BuilderConverter :: "'e Converter"
  BuilderIgnoredFields :: "(APIVersion \<times> FieldSet option) list"
  ReturnInputOnNoop :: bool

definition BuildUpdater :: "'e UpdaterBuilder \<Rightarrow> 'e Updater" where
  "BuildUpdater u =
     \<lparr>UpdaterConverter = BuilderConverter u, IgnoredFields = BuilderIgnoredFields u, returnInputOnNoop = ReturnInputOnNoop u\<rparr>"

text \<open>\<^verbatim>\<open>s.IgnoredFields[version]\<close>: nil when there is no entry.\<close>

definition ignored :: "'e Updater \<Rightarrow> APIVersion \<Rightarrow> FieldSet option" where
  "ignored s v = (case map_of (IgnoredFields s) v of None \<Rightarrow> None | Some f \<Rightarrow> f)"

abbreviation convert :: "'e Updater \<Rightarrow> TypedValue option \<Rightarrow> APIVersion \<Rightarrow> TypedValue option \<times> 'e option" where
  "convert s \<equiv> Convert (UpdaterConverter s)"

abbreviation missing_version :: "'e Updater \<Rightarrow> 'e option \<Rightarrow> bool" where
  "missing_version s \<equiv> IsMissingVersionError (UpdaterConverter s)"

text \<open>A loop whose body may return from the function with an error.\<close>

fun foldE :: "('x \<Rightarrow> 's \<Rightarrow> 'e + 's) \<Rightarrow> 'x list \<Rightarrow> 's \<Rightarrow> 'e + 's" where
  "foldE f [] s = Inr s"
| "foldE f (x # xs) s = (case f x s of Inl e \<Rightarrow> Inl e | Inr s' \<Rightarrow> foldE f xs s')"

section \<open>update\<close>

definition compare_objects :: "TypedValue option \<Rightarrow> TypedValue option \<Rightarrow> 'e update_error + Comparison" where
  "compare_objects l r =
     (case l of
        None \<Rightarrow> Inl Nil_Pointer
      | Some lhs \<Rightarrow> (case r of
          None \<Rightarrow> Inl Nil_Pointer
        | Some rhs \<Rightarrow> (case TypedValue_Compare lhs rhs of Inl err \<Rightarrow> Inl (Failed_Compare err) | Inr c \<Rightarrow> Inr c)))"

type_synonym versions = "(APIVersion \<times> Comparison) list"

text \<open>The comparison at a manager's version, from the cache or by converting both objects; \<open>Inr None\<close> when the version
  is missing.\<close>

definition versioned_compare ::
  "'e Updater \<Rightarrow> TypedValue option \<Rightarrow> TypedValue option \<Rightarrow> APIVersion \<Rightarrow> versions \<Rightarrow>
   'e update_error + (Comparison \<times> versions) option" where
  "versioned_compare s oldObject newObject v versions =
     (case map_of versions v of
        Some compare \<Rightarrow> Inr (Some (compare, versions))
      | None \<Rightarrow>
          (case convert s oldObject v of
             (versionedOld, Some err) \<Rightarrow> if missing_version s (Some err) then Inr None else Inl (Failed_Convert_Old err)
           | (versionedOld, None) \<Rightarrow>
               (case convert s newObject v of
                  (versionedNew, Some err) \<Rightarrow> if missing_version s (Some err) then Inr None else Inl (Failed_Convert_New err)
                | (versionedNew, None) \<Rightarrow>
                    (case compare_objects versionedOld versionedNew of
                       Inl e \<Rightarrow> Inl e
                     | Inr c \<Rightarrow>
                         let compare = Comparison_ExcludeFields c (ignored s v)
                         in Inr (Some (compare, AList.update v compare versions))))))"

record update_state =
  us_versions :: versions
  us_managers :: ManagedFields
  us_conflicts :: ManagedFields
  us_removed :: ManagedFields

definition update_step ::
  "'e Updater \<Rightarrow> TypedValue option \<Rightarrow> TypedValue option \<Rightarrow> string \<Rightarrow> string \<times> VersionedSet \<Rightarrow> update_state \<Rightarrow>
   'e update_error + update_state" where
  "update_step s oldObject newObject workflow entry st =
     (case entry of (manager, managerSet) \<Rightarrow>
        if manager = workflow then Inr st
        else case versioned_compare s oldObject newObject (apiVersion managerSet) (us_versions st) of
               Inl e \<Rightarrow> Inl e
             | Inr None \<Rightarrow> Inr (st\<lparr>us_managers := AList.delete manager (us_managers st)\<rparr>)
             | Inr (Some (compare, versions)) \<Rightarrow>
                 let conflictSet = Set_Intersection (vset managerSet) (Set_Union (Modified compare) (Added compare));
                     conflicts = (if \<not> Set_Empty conflictSet
                       then AList.update manager (NewVersionedSet conflictSet (apiVersion managerSet) False) (us_conflicts st)
                       else us_conflicts st);
                     removed = (if \<not> Set_Empty (Removed compare)
                       then AList.update manager (NewVersionedSet (Removed compare) (apiVersion managerSet) False) (us_removed st)
                       else us_removed st)
                 in Inr (st\<lparr>us_versions := versions, us_conflicts := conflicts, us_removed := removed\<rparr>))"

text \<open>\<^verbatim>\<open>managers[manager] = NewVersionedSet(managers[manager].Set().Difference(...), ...)\<close>\<close>

definition take_away :: "string \<times> VersionedSet \<Rightarrow> ManagedFields \<Rightarrow> 'e update_error + ManagedFields" where
  "take_away entry managers =
     (case entry of (manager, lost) \<Rightarrow>
        (case map_of managers manager of
           None \<Rightarrow> Inl Nil_Pointer
         | Some v \<Rightarrow>
             Inr (AList.update manager (NewVersionedSet (Set_Difference (vset v) (vset lost)) (apiVersion v) (applied v)) managers)))"

definition drop_empty :: "ManagedFields \<Rightarrow> ManagedFields" where
  "drop_empty managers = filter (\<lambda>(manager, v). \<not> Set_Empty (vset v)) managers"

definition update ::
  "'e Updater \<Rightarrow> TypedValue option \<Rightarrow> TypedValue option \<Rightarrow> APIVersion \<Rightarrow> ManagedFields \<Rightarrow> string \<Rightarrow> bool \<Rightarrow>
   'e update_error + (ManagedFields \<times> Comparison)" where
  "update s oldObject newObject version managers workflow force =
     (case compare_objects oldObject newObject of
        Inl e \<Rightarrow> Inl e
      | Inr c \<Rightarrow>
          let compare = Comparison_ExcludeFields c (ignored s version) in
          case foldE (update_step s oldObject newObject workflow) managers
                 \<lparr>us_versions = [(version, compare)], us_managers = managers, us_conflicts = [], us_removed = []\<rparr> of
            Inl e \<Rightarrow> Inl e
          | Inr st \<Rightarrow>
              if \<not> force \<and> length (us_conflicts st) \<noteq> 0 then Inl (Conflicting (ConflictsFromManagers (us_conflicts st)))
              else case foldE take_away (us_conflicts st) (us_managers st) of
                     Inl e \<Rightarrow> Inl e
                   | Inr ms \<Rightarrow> (case foldE take_away (us_removed st) ms of
                       Inl e \<Rightarrow> Inl e
                     | Inr ms' \<Rightarrow> Inr (drop_empty ms', compare)))"

section \<open>Reconciliation of all managers\<close>

definition reconcile_step ::
  "'e Updater \<Rightarrow> TypedValue option \<Rightarrow> string \<times> VersionedSet \<Rightarrow> ManagedFields \<Rightarrow> 'e update_error + ManagedFields" where
  "reconcile_step s liveObject entry result =
     (case entry of (manager, versionedSet) \<Rightarrow>
        (case convert s liveObject (apiVersion versionedSet) of
           (tv, err) \<Rightarrow>
             if missing_version s err then Inr result
             else case err of
                    Some e \<Rightarrow> Inl (Failed_Reconcile_Convert e)
                  | None \<Rightarrow> (case tv of
                      None \<Rightarrow> Inl Nil_Pointer
                    | Some live \<Rightarrow> (case ReconcileFieldSetWithSchema (vset versionedSet) live of
                        Inl errs \<Rightarrow> Inl (Failed_Reconcile errs)
                      | Inr (Some reconciled) \<Rightarrow>
                          Inr (AList.update manager
                            (NewVersionedSet reconciled (apiVersion versionedSet) (applied versionedSet)) result)
                      | Inr None \<Rightarrow> Inr (AList.update manager versionedSet result)))))"

definition reconcileManagedFieldsWithSchemaChanges ::
  "'e Updater \<Rightarrow> TypedValue option \<Rightarrow> ManagedFields \<Rightarrow> 'e update_error + ManagedFields" where
  "reconcileManagedFieldsWithSchemaChanges s liveObject managers = foldE (reconcile_step s liveObject) managers []"

section \<open>Update\<close>

definition Updater_Update ::
  "'e Updater \<Rightarrow> TypedValue option \<Rightarrow> TypedValue option \<Rightarrow> APIVersion \<Rightarrow> ManagedFields \<Rightarrow> string \<Rightarrow>
   'e update_error + (TypedValue option \<times> ManagedFields)" where
  "Updater_Update s liveObject newObject version managers0 manager =
     (case reconcileManagedFieldsWithSchemaChanges s liveObject managers0 of
        Inl e \<Rightarrow> Inl e
      | Inr managers1 \<Rightarrow>
          (case update s liveObject newObject version managers1 manager True of
             Inl e \<Rightarrow> Inl e
           | Inr (managers, compare) \<Rightarrow>
               let own = (case map_of managers manager of None \<Rightarrow> NewSet [] | Some v \<Rightarrow> vset v);
                   ign = (case ignored s version of None \<Rightarrow> NewSet [] | Some f \<Rightarrow> f);
                   set' = Set_RecursiveDifference
                     (Set_Union (Set_Union (Set_Difference own (Removed compare)) (Modified compare)) (Added compare)) ign
               in Inr (newObject,
                    if Set_Empty set' then AList.delete manager managers
                    else AList.update manager (NewVersionedSet set' version False) managers)))"

section \<open>Pruning\<close>

definition to_field_set :: "TypedValue option \<Rightarrow> 'e update_error + FieldSet" where
  "to_field_set tv =
     (case tv of
        None \<Rightarrow> Inl Nil_Pointer
      | Some x \<Rightarrow> (case TypedValue_ToFieldSet x of Inl errs \<Rightarrow> Inl (Failed_FieldSet_Version errs) | Inr fs \<Rightarrow> Inr fs))"

definition remove_items :: "TypedValue option \<Rightarrow> FieldSet \<Rightarrow> 'e update_error + TypedValue option" where
  "remove_items tv items =
     (case tv of
        None \<Rightarrow> Inl Nil_Pointer
      | Some x \<Rightarrow> (case TypedValue_RemoveItems x items of Inl errs \<Rightarrow> Inl (Failed_RemoveItems errs) | Inr y \<Rightarrow> Inr (Some y)))"

definition ensure_named :: "TypedValue \<Rightarrow> FieldSet \<Rightarrow> FieldSet" where
  "ensure_named tv fs = Set_EnsureNamedFieldsAreMembers (schema_types (tv_schema tv)) (tv_typeRef tv) fs"

text \<open>Merged and pruned object after adding back; on a missing version the objects are what the converter returned.\<close>

definition addBackOwnedItemsForVersion ::
  "'e Updater \<Rightarrow> TypedValue option \<Rightarrow> TypedValue option \<Rightarrow> APIVersion \<Rightarrow> FieldSet \<Rightarrow>
   'e update_error + (TypedValue option \<times> TypedValue option)" where
  "addBackOwnedItemsForVersion s merged0 pruned0 version managed =
     (case convert s merged0 version of
        (merged, Some err) \<Rightarrow> if missing_version s (Some err) then Inr (merged, pruned0) else Inl (Failed_Convert_Version version err)
      | (merged, None) \<Rightarrow>
          (case convert s pruned0 version of
             (pruned, Some err) \<Rightarrow> if missing_version s (Some err) then Inr (merged, pruned) else Inl (Failed_Convert_Version version err)
           | (pruned, None) \<Rightarrow>
               (case to_field_set merged of
                  Inl e \<Rightarrow> Inl e
                | Inr mergedSet \<Rightarrow> (case to_field_set pruned of
                    Inl e \<Rightarrow> Inl e
                  | Inr prunedSet \<Rightarrow> (case merged of
                      None \<Rightarrow> Inl Nil_Pointer
                    | Some tv \<Rightarrow>
                        (case remove_items merged
                                (Set_Difference (ensure_named tv mergedSet)
                                  (Set_Union (ensure_named tv prunedSet) (ensure_named tv managed))) of
                           Inl e \<Rightarrow> Inl e
                         | Inr pruned' \<Rightarrow> Inr (merged, pruned')))))))"

definition managedAtVersion :: "ManagedFields \<Rightarrow> (APIVersion \<times> FieldSet) list" where
  "managedAtVersion managedFields =
     fold (\<lambda>(_, managerSet) at.
       let so_far = (case map_of at (apiVersion managerSet) of None \<Rightarrow> NewSet [] | Some x \<Rightarrow> x)
       in AList.update (apiVersion managerSet) (Set_Union so_far (vset managerSet)) at) managedFields []"

definition addBackOwnedItems ::
  "'e Updater \<Rightarrow> TypedValue option \<Rightarrow> TypedValue option \<Rightarrow> APIVersion \<Rightarrow> ManagedFields \<Rightarrow> 'e update_error + TypedValue option" where
  "addBackOwnedItems s merged pruned prunedVersion managedFields =
     (let managed = managedAtVersion managedFields;
          first = (case map_of managed prunedVersion of
                     None \<Rightarrow> Inr (merged, pruned)
                   | Some fs \<Rightarrow> addBackOwnedItemsForVersion s merged pruned prunedVersion fs)
      in case first of
           Inl e \<Rightarrow> Inl e
         | Inr objects \<Rightarrow>
             (case foldE (\<lambda>(version, fs) (m, p). addBackOwnedItemsForVersion s m p version fs)
                     (AList.delete prunedVersion managed) objects of
                Inl e \<Rightarrow> Inl e
              | Inr (_, pruned') \<Rightarrow> Inr pruned'))"

definition addBackDanglingItems ::
  "'e Updater \<Rightarrow> TypedValue option \<Rightarrow> TypedValue option \<Rightarrow> VersionedSet \<Rightarrow> 'e update_error + TypedValue option" where
  "addBackDanglingItems s merged pruned lastSet =
     (case convert s pruned (apiVersion lastSet) of
        (convertedPruned, Some err) \<Rightarrow>
          if missing_version s (Some err) then Inr merged else Inl (Failed_Convert_Version (apiVersion lastSet) err)
      | (convertedPruned, None) \<Rightarrow>
          (case to_field_set convertedPruned of
             Inl e \<Rightarrow> Inl e
           | Inr prunedSet \<Rightarrow> (case to_field_set merged of
               Inl e \<Rightarrow> Inl e
             | Inr mergedSet \<Rightarrow> (case merged of
                 None \<Rightarrow> Inl Nil_Pointer
               | Some tv \<Rightarrow>
                   remove_items merged
                     (Set_Intersection (Set_Difference (ensure_named tv mergedSet) (ensure_named tv prunedSet))
                       (ensure_named tv (vset lastSet)))))))"

definition prune ::
  "'e Updater \<Rightarrow> TypedValue option \<Rightarrow> ManagedFields \<Rightarrow> string \<Rightarrow> VersionedSet option \<Rightarrow> 'e update_error + TypedValue option" where
  "prune s merged managers applyingManager lastSet =
     (case lastSet of
        None \<Rightarrow> Inr merged
      | Some lastV \<Rightarrow>
          if Set_Empty (vset lastV) then Inr merged
          else case convert s merged (apiVersion lastV) of
                 (convertedMerged, Some err) \<Rightarrow> if missing_version s (Some err) then Inr merged else Inl (Failed_Convert_Merged err)
               | (convertedMerged, None) \<Rightarrow>
                   (case convertedMerged of
                      None \<Rightarrow> Inl Nil_Pointer
                    | Some tv \<Rightarrow>
                        (case remove_items convertedMerged (ensure_named tv (vset lastV)) of
                           Inl e \<Rightarrow> Inl e
                         | Inr pruned1 \<Rightarrow>
                             (case addBackOwnedItems s convertedMerged pruned1 (apiVersion lastV) managers of
                                Inl e \<Rightarrow> Inl (Failed_Add_Back_Owned e)
                              | Inr pruned2 \<Rightarrow>
                                  (case addBackDanglingItems s convertedMerged pruned2 lastV of
                                     Inl e \<Rightarrow> Inl (Failed_Add_Back_Dangling e)
                                   | Inr pruned3 \<Rightarrow>
                                       (case map_of managers applyingManager of
                                          None \<Rightarrow> Inl Nil_Pointer
                                        | Some v \<Rightarrow> (case convert s pruned3 (apiVersion v) of
                                            (obj, None) \<Rightarrow> Inr obj
                                          | (obj, Some err) \<Rightarrow> Inl (Failed_Convert_Back err))))))))"

section \<open>Apply\<close>

definition merge_objects :: "TypedValue option \<Rightarrow> TypedValue option \<Rightarrow> 'e update_error + TypedValue" where
  "merge_objects l r =
     (case l of
        None \<Rightarrow> Inl Nil_Pointer
      | Some live \<Rightarrow> (case r of
          None \<Rightarrow> Inl Nil_Pointer
        | Some config \<Rightarrow> (case TypedValue_Merge live config of Inl err \<Rightarrow> Inl (Failed_Merge err) | Inr tv \<Rightarrow> Inr tv)))"

text \<open>\<^verbatim>\<open>value.EqualsUsing\<close> on the two values, which it dereferences.\<close>

definition same_object :: "TypedValue option \<Rightarrow> TypedValue option \<Rightarrow> 'e update_error + bool" where
  "same_object l r =
     (case l of
        None \<Rightarrow> Inl Nil_Pointer
      | Some lv \<Rightarrow> (case r of
          None \<Rightarrow> Inl Nil_Pointer
        | Some rv \<Rightarrow> (case tv_value lv of
            None \<Rightarrow> Inl Nil_Pointer
          | Some x \<Rightarrow> (case tv_value rv of None \<Rightarrow> Inl Nil_Pointer | Some y \<Rightarrow> Inr (Equals x y)))))"

text \<open>The applied set, less the ignored fields, of the applying manager.\<close>

definition applied_set :: "'e Updater \<Rightarrow> TypedValue option \<Rightarrow> APIVersion \<Rightarrow> 'e update_error + FieldSet" where
  "applied_set s configObject version =
     (case configObject of
        None \<Rightarrow> Inl Nil_Pointer
      | Some config \<Rightarrow> (case TypedValue_ToFieldSet config of
          Inl err \<Rightarrow> Inl (Failed_FieldSet err)
        | Inr fs \<Rightarrow> Inr (case ignored s version of None \<Rightarrow> fs | Some ign \<Rightarrow> Set_RecursiveDifference fs ign)))"

definition Updater_Apply ::
  "'e Updater \<Rightarrow> TypedValue option \<Rightarrow> TypedValue option \<Rightarrow> APIVersion \<Rightarrow> ManagedFields \<Rightarrow> string \<Rightarrow> bool \<Rightarrow>
   'e update_error + (TypedValue option \<times> ManagedFields)" where
  "Updater_Apply s liveObject configObject version managers0 manager force =
     (case reconcileManagedFieldsWithSchemaChanges s liveObject managers0 of
        Inl e \<Rightarrow> Inl e
      | Inr managers1 \<Rightarrow>
          (case merge_objects liveObject configObject of
             Inl e \<Rightarrow> Inl e
           | Inr merged \<Rightarrow>
               (case applied_set s configObject version of
                  Inl e \<Rightarrow> Inl e
                | Inr fs \<Rightarrow>
                    let managers2 = AList.update manager (NewVersionedSet fs version True) managers1 in
                    (case prune s (Some merged) managers2 manager (map_of managers1 manager) of
                       Inl e \<Rightarrow> Inl (Failed_Prune e)
                     | Inr newObject \<Rightarrow>
                         (case update s liveObject newObject version managers2 manager force of
                            Inl e \<Rightarrow> Inl e
                          | Inr (managers3, _) \<Rightarrow>
                              if returnInputOnNoop s then Inr (newObject, managers3)
                              else (case same_object liveObject newObject of
                                      Inl e \<Rightarrow> Inl e
                                    | Inr same \<Rightarrow> Inr (if same then None else newObject, managers3)))))))"

end
