(* ===== verification/Updater_Laws.thy ===== *)
theory Updater_Laws
  imports Updater
begin

text \<open>
  Who owns what after \<^verbatim>\<open>update\<close>: every other manager loses exactly the fields that changed at its version, the cache of
  comparisons makes no difference, no nil set is read, and the result has no empty sets.
\<close>

section \<open>Well-formed updaters\<close>

definition converter_ok :: "num_mode \<Rightarrow> 'e Converter \<Rightarrow> bool" where
  "converter_ok m c \<longleftrightarrow>
     (\<forall>tv v. pred_option (TypedValue_ok m) tv \<longrightarrow> pred_option (TypedValue_ok m) (fst (Convert c tv v)))"

definition Updater_ok :: "num_mode \<Rightarrow> 'e Updater \<Rightarrow> bool" where
  "Updater_ok m s \<longleftrightarrow> converter_ok m (UpdaterConverter s) \<and> list_all (\<lambda>e. pred_option (Set_wf m) (snd e)) (IgnoredFields s)"

lemma ignored_wf: "Updater_ok m s \<Longrightarrow> pred_option (Set_wf m) (ignored s v)"
  by (auto simp: Updater_ok_def ignored_def list_all_iff dest!: map_of_SomeD split: option.splits)

lemma convert_ok: "Updater_ok m s \<Longrightarrow> pred_option (TypedValue_ok m) tv \<Longrightarrow> pred_option (TypedValue_ok m) (fst (convert s tv v))"
  by (simp add: Updater_ok_def converter_ok_def)

lemma compare_objects_ok:
  assumes "pred_option (TypedValue_ok m) l" "pred_option (TypedValue_ok m) r" "compare_objects l r = Inr c"
  shows "Comparison_ok m c"
  using assms Compare_ok [of m] by (auto simp: compare_objects_def split: option.splits sum.splits)

section \<open>The comparison at a version, without the cache\<close>

definition comparison_at ::
  "'e Updater \<Rightarrow> TypedValue option \<Rightarrow> TypedValue option \<Rightarrow> APIVersion \<Rightarrow> APIVersion \<Rightarrow> 'e update_error + Comparison option" where
  "comparison_at s old new version v =
     (if v = version then map_sum id (\<lambda>c. Some (Comparison_ExcludeFields c (ignored s version))) (compare_objects old new)
      else map_sum id (map_option fst) (versioned_compare s old new v []))"

definition cache_valid :: "'e Updater \<Rightarrow> TypedValue option \<Rightarrow> TypedValue option \<Rightarrow> APIVersion \<Rightarrow> versions \<Rightarrow> bool" where
  "cache_valid s old new version vs \<longleftrightarrow>
     map_of vs version \<noteq> None \<and> (\<forall>v c. map_of vs v = Some c \<longrightarrow> comparison_at s old new version v = Inr (Some c))"

lemma versioned_compare_at:
  assumes "cache_valid s old new version vs"
  shows "map_sum id (map_option fst) (versioned_compare s old new v vs) = comparison_at s old new version v"
    and "versioned_compare s old new v vs = Inr (Some (c, vs')) \<Longrightarrow> cache_valid s old new version vs'"
proof -
  show at: "map_sum id (map_option fst) (versioned_compare s old new v vs) = comparison_at s old new version v"
  proof (cases "map_of vs v")
    case None
    then have "v \<noteq> version" using assms by (auto simp: cache_valid_def)
    with None show ?thesis
      by (auto simp: comparison_at_def versioned_compare_def Let_def split: prod.splits option.splits sum.splits)
  next
    case (Some x)
    then show ?thesis using assms by (auto simp: cache_valid_def versioned_compare_def)
  qed
  assume r: "versioned_compare s old new v vs = Inr (Some (c, vs'))"
  then have "comparison_at s old new version v = Inr (Some c)" using at by simp
  moreover have "vs' = vs \<or> vs' = AList.update v c vs"
    using r by (auto simp: versioned_compare_def Let_def split: prod.splits option.splits sum.splits if_splits)
  ultimately show "cache_valid s old new version vs'"
    using assms by (auto simp: cache_valid_def update_conv' split: if_splits)
qed

lemma comparison_at_ok:
  assumes "Updater_ok m s" "pred_option (TypedValue_ok m) old" "pred_option (TypedValue_ok m) new"
    "comparison_at s old new version v = Inr (Some c)"
  shows "Comparison_ok m c"
proof (cases "v = version")
  case True
  then obtain c' where "(compare_objects old new :: 'a update_error + Comparison) = Inr c'"
    "c = Comparison_ExcludeFields c' (ignored s version)"
    using assms(4) by (cases "compare_objects old new :: 'a update_error + Comparison") (auto simp: comparison_at_def)
  then show ?thesis using compare_objects_ok [OF assms(2,3)] ignored_wf [OF assms(1)] by (auto intro: ExcludeFields_ok)
next
  case False
  have ok: "pred_option (TypedValue_ok m) (fst (convert s old v))" "pred_option (TypedValue_ok m) (fst (convert s new v))"
    using convert_ok [OF assms(1)] assms(2,3) by blast+
  obtain x y where "convert s old v = (x, None)" "convert s new v = (y, None)"
    and c: "\<exists>c'. (compare_objects x y :: 'a update_error + Comparison) = Inr c' \<and> c = Comparison_ExcludeFields c' (ignored s v)"
    using False assms(4)
    by (auto simp: comparison_at_def versioned_compare_def Let_def split: prod.splits option.splits sum.splits if_splits)
  with ok have "pred_option (TypedValue_ok m) x" "pred_option (TypedValue_ok m) y" by simp_all
  with c show ?thesis using ignored_wf [OF assms(1)] compare_objects_ok [of m x y] by (blast intro: ExcludeFields_ok)
qed

section \<open>The loop over the managers\<close>

lemma foldE_Inr_induct [consumes 1, case_names Nil Cons]:
  assumes "foldE f xs s = Inr t" "\<And>s. P [] s s" "\<And>x xs s s' t. f x s = Inr s' \<Longrightarrow> foldE f xs s' = Inr t \<Longrightarrow> P xs s' t \<Longrightarrow> P (x # xs) s t"
  shows "P xs s t"
  using assms(1)
proof (induction xs arbitrary: s)
  case (Cons x xs)
  then obtain s' where s': "f x s = Inr s'" "foldE f xs s' = Inr t" by (auto split: sum.splits)
  from assms(3) [OF s' Cons.IH [OF s'(2)]] show ?case .
qed (simp add: assms(2))

definition conflict_of :: "Comparison \<Rightarrow> VersionedSet \<Rightarrow> VersionedSet option" where
  "conflict_of c v =
     (let cs = Set_Intersection (vset v) (Set_Union (Modified c) (Added c))
      in if \<not> Set_Empty cs then Some (NewVersionedSet cs (apiVersion v) False) else None)"

definition removal_of :: "Comparison \<Rightarrow> VersionedSet \<Rightarrow> VersionedSet option" where
  "removal_of c v = (if \<not> Set_Empty (Removed c) then Some (NewVersionedSet (Removed c) (apiVersion v) False) else None)"

text \<open>What one manager contributes: its comparison, if it is not the one who works and its version is known.\<close>

definition seen :: "(APIVersion \<Rightarrow> 'e update_error + Comparison option) \<Rightarrow> string \<Rightarrow> string \<Rightarrow> VersionedSet \<Rightarrow> Comparison option" where
  "seen at workflow k v = (if k = workflow then None else case at (apiVersion v) of Inr (Some c) \<Rightarrow> Some c | _ \<Rightarrow> None)"

text \<open>A map of managers after a loop over the entries \<open>es\<close> that treats each manager by \<open>g\<close>.\<close>

definition updates_by ::
  "(string \<Rightarrow> VersionedSet \<Rightarrow> VersionedSet option \<Rightarrow> VersionedSet option) \<Rightarrow> ManagedFields \<Rightarrow> ManagedFields \<Rightarrow> ManagedFields \<Rightarrow> bool" where
  "updates_by g es a b \<longleftrightarrow> (distinct (map fst a) \<longrightarrow> distinct (map fst b)) \<and>
     (\<forall>k. map_of b k = (case map_of es k of None \<Rightarrow> map_of a k | Some v \<Rightarrow> g k v (map_of a k)))"

lemma updates_by_Nil: "updates_by g [] a a"
  by (simp add: updates_by_def)

lemma updates_by_Cons:
  assumes "updates_by g [e] a b" "updates_by g es b c" "fst e \<notin> set (map fst es)"
  shows "updates_by g (e # es) a c"
proof -
  have "map_of es (fst e) = None" using assms(3) by (simp add: map_of_eq_None_iff)
  moreover have "map_of b k = (if k = fst e then g k (snd e) (map_of a k) else map_of a k)" for k
    using assms(1) by (cases e) (simp add: updates_by_def)
  moreover have "map_of c k = (case map_of es k of None \<Rightarrow> map_of b k | Some v \<Rightarrow> g k v (map_of b k))" for k
    using assms(2) by (simp add: updates_by_def)
  ultimately have "map_of c k = (case map_of (e # es) k of None \<Rightarrow> map_of a k | Some v \<Rightarrow> g k v (map_of a k))" for k
    by (cases e; cases "k = fst e") (simp_all split: option.splits)
  then show ?thesis using assms(1,2) by (simp add: updates_by_def)
qed

definition or_else :: "'v option \<Rightarrow> 'v option \<Rightarrow> 'v option" where
  "or_else x y = (case x of None \<Rightarrow> y | Some v \<Rightarrow> Some v)"

definition loop_result ::
  "(APIVersion \<Rightarrow> 'e update_error + Comparison option) \<Rightarrow> string \<Rightarrow> ManagedFields \<Rightarrow> update_state \<Rightarrow> update_state \<Rightarrow> bool" where
  "loop_result at workflow es st st' \<longleftrightarrow>
     (\<forall>(k, v) \<in> set es. k \<noteq> workflow \<longrightarrow> \<not> isl (at (apiVersion v))) \<and>
     updates_by (\<lambda>k v x. if k \<noteq> workflow \<and> at (apiVersion v) = Inr None then None else x) es (us_managers st) (us_managers st') \<and>
     updates_by (\<lambda>k v. or_else (Option.bind (seen at workflow k v) (\<lambda>c. conflict_of c v))) es (us_conflicts st) (us_conflicts st') \<and>
     updates_by (\<lambda>k v. or_else (Option.bind (seen at workflow k v) (\<lambda>c. removal_of c v))) es (us_removed st) (us_removed st')"

lemma update_step_result:
  assumes "cache_valid s old new version (us_versions st)" "update_step s old new workflow (k, v) st = Inr st'"
  shows "loop_result (comparison_at s old new version) workflow [(k, v)] st st' \<and> cache_valid s old new version (us_versions st')"
proof (cases "k = workflow")
  case True
  then show ?thesis using assms by (auto simp: update_step_def loop_result_def updates_by_def or_else_def seen_def)
next
  case False
  let ?r = "versioned_compare s old new (apiVersion v) (us_versions st)"
  note at = versioned_compare_at(1) [OF assms(1), of "apiVersion v", symmetric]
  note cv = versioned_compare_at(2) [OF assms(1), of "apiVersion v"]
  consider "?r = Inr None" | c vs where "?r = Inr (Some (c, vs))"
    using assms(2) False by (auto simp: update_step_def split: sum.splits option.splits)
  then show ?thesis
  proof cases
    case 1
    then show ?thesis
      using assms False at
      by (auto simp: update_step_def loop_result_def updates_by_def or_else_def seen_def delete_conv' distinct_delete)
  next
    case (2 c vs)
    then show ?thesis
      using assms False at cv [OF 2]
      by (auto simp: update_step_def loop_result_def updates_by_def or_else_def seen_def Let_def conflict_of_def removal_of_def update_conv' distinct_update)
  qed
qed

lemma loop_result_Nil: "loop_result at workflow [] st st"
  by (simp add: loop_result_def updates_by_Nil)

lemma loop_result_Cons:
  "loop_result at workflow [e] st st1 \<Longrightarrow> loop_result at workflow es st1 st2 \<Longrightarrow> fst e \<notin> set (map fst es) \<Longrightarrow>
    loop_result at workflow (e # es) st st2"
  unfolding loop_result_def by (auto intro: updates_by_Cons)

lemma update_loop:
  assumes "foldE (update_step s old new workflow) es st = Inr st'" "distinct (map fst es)" "cache_valid s old new version (us_versions st)"
  shows "loop_result (comparison_at s old new version) workflow es st st'"
  using assms
proof (induction rule: foldE_Inr_induct)
  case (Nil st)
  then show ?case by (simp add: loop_result_Nil)
next
  case (Cons e es st st1 st2)
  obtain k v where e: "e = (k, v)" by (cases e)
  note step = update_step_result [OF Cons.prems(2) Cons.hyps(1) [unfolded e]]
  have "loop_result (comparison_at s old new version) workflow es st1 st2"
    using Cons.prems(1) step by (intro Cons.IH) simp_all
  then show ?case using step Cons.prems(1) unfolding e by (intro loop_result_Cons [OF conjunct1 [OF step]]) simp_all
qed

section \<open>Taking fields away\<close>

definition less_set :: "VersionedSet option \<Rightarrow> VersionedSet \<Rightarrow> VersionedSet" where
  "less_set l v = (case l of None \<Rightarrow> v | Some x \<Rightarrow> NewVersionedSet (Set_Difference (vset v) (vset x)) (apiVersion v) (applied v))"

lemma less_set_None [simp]: "less_set None = id"
  by (auto simp: less_set_def)

lemma take_away_all:
  assumes "distinct (map fst ls)" "distinct (map fst ms)" "fst ` set ls \<subseteq> fst ` set ms"
  shows "\<exists>ms'. (foldE take_away ls ms :: 'e update_error + ManagedFields) = Inr ms' \<and> distinct (map fst ms') \<and>
    (\<forall>k. map_of ms' k = map_option (less_set (map_of ls k)) (map_of ms k))"
  using assms
proof (induction ls arbitrary: ms)
  case (Cons e ls)
  obtain k l where e: "e = (k, l)" by (cases e)
  obtain v where v: "map_of ms k = Some v" using Cons.prems(3) e by (cases "map_of ms k") (auto simp: map_of_eq_None_iff)
  let ?ms = "AList.update k (less_set (Some l) v) ms"
  have "distinct (map fst ?ms)" using Cons.prems(2) by (simp add: distinct_update)
  moreover have "fst ` set ls \<subseteq> fst ` set ?ms" using Cons.prems(3) e by (auto simp: dom_update)
  ultimately obtain ms' where "(foldE take_away ls ?ms :: 'e update_error + ManagedFields) = Inr ms'" "distinct (map fst ms')"
    "\<forall>k. map_of ms' k = map_option (less_set (map_of ls k)) (map_of ?ms k)"
    using Cons.IH [of ?ms] Cons.prems(1) by auto
  moreover have "map_of ls k = None" using Cons.prems(1) e by (simp add: map_of_eq_None_iff)
  moreover have "(foldE take_away (e # ls) ms :: 'e update_error + ManagedFields) = foldE take_away ls ?ms"
    using v e by (simp add: take_away_def less_set_def)
  ultimately show ?case using v e by (intro exI [of _ ms']) (simp add: update_conv')
qed (simp add: option.map_id)

lemma drop_empty_map_of:
  "distinct (map fst ms) \<Longrightarrow> map_of (drop_empty ms) k = (case map_of ms k of None \<Rightarrow> None | Some v \<Rightarrow> if Set_Empty (vset v) then None else Some v)"
  by (induction ms) (auto simp: drop_empty_def map_of_eq_None_iff split: option.splits)

text \<open>What a manager keeps when it sees the comparison \<open>c\<close>.\<close>

definition keeps :: "Comparison \<Rightarrow> VersionedSet \<Rightarrow> VersionedSet" where
  "keeps c v = less_set (removal_of c v) (less_set (conflict_of c v) v)"

definition changed :: "Comparison \<Rightarrow> Path \<Rightarrow> bool" where
  "changed c p \<longleftrightarrow> Set_Has (Removed c) p \<or> Set_Has (Modified c) p \<or> Set_Has (Added c) p"

lemma less_set_sel [simp]: "apiVersion (less_set l v) = apiVersion v" "applied (less_set l v) = applied v"
  by (simp_all add: less_set_def NewVersionedSet_def split: option.splits)

lemma less_set_laws:
  assumes "Set_wf m (vset v)" "pred_option (\<lambda>x. Set_wf m (vset x)) l"
  shows "Set_wf m (vset (less_set l v))"
    and "path_ok m p \<Longrightarrow> Set_Has (vset (less_set l v)) p \<longleftrightarrow> Set_Has (vset v) p \<and> \<not> (\<exists>x. l = Some x \<and> Set_Has (vset x) p)"
  using assms by (auto simp: less_set_def NewVersionedSet_def fs.has_ops [of m] fs.wf_ops split: option.splits)

lemma conflict_of_laws:
  assumes "Comparison_ok m c" "Set_wf m (vset v)"
  shows "pred_option (\<lambda>x. Set_wf m (vset x)) (conflict_of c v)"
    and "path_ok m p \<Longrightarrow> (\<exists>x. conflict_of c v = Some x \<and> Set_Has (vset x) p) \<longleftrightarrow>
      Set_Has (vset v) p \<and> (Set_Has (Modified c) p \<or> Set_Has (Added c) p)"
    and "conflict_of c v = None \<longleftrightarrow> (\<forall>p. path_ok m p \<longrightarrow> Set_Has (vset v) p \<longrightarrow> \<not> Set_Has (Modified c) p \<and> \<not> Set_Has (Added c) p)"
proof -
  let ?cs = "Set_Intersection (vset v) (Set_Union (Modified c) (Added c))"
  have wf: "Set_wf m ?cs" using assms by (simp add: Comparison_ok_def fs.wf_ops)
  have has: "Set_Has ?cs p \<longleftrightarrow> Set_Has (vset v) p \<and> (Set_Has (Modified c) p \<or> Set_Has (Added c) p)" if "path_ok m p" for p
    using assms that by (simp add: Comparison_ok_def fs.has_ops [of m] fs.wf_ops)
  show "pred_option (\<lambda>x. Set_wf m (vset x)) (conflict_of c v)"
    using wf by (simp add: conflict_of_def Let_def NewVersionedSet_def)
  show "path_ok m p \<Longrightarrow> (\<exists>x. conflict_of c v = Some x \<and> Set_Has (vset x) p) \<longleftrightarrow>
      Set_Has (vset v) p \<and> (Set_Has (Modified c) p \<or> Set_Has (Added c) p)"
    using has fs.empty_iff [OF wf] by (auto simp: conflict_of_def Let_def NewVersionedSet_def)
  show "conflict_of c v = None \<longleftrightarrow> (\<forall>p. path_ok m p \<longrightarrow> Set_Has (vset v) p \<longrightarrow> \<not> Set_Has (Modified c) p \<and> \<not> Set_Has (Added c) p)"
    using has fs.empty_iff [OF wf] by (auto simp: conflict_of_def Let_def)
qed

lemma removal_of_laws:
  assumes "Comparison_ok m c"
  shows "pred_option (\<lambda>x. Set_wf m (vset x)) (removal_of c v)"
    and "path_ok m p \<Longrightarrow> (\<exists>x. removal_of c v = Some x \<and> Set_Has (vset x) p) \<longleftrightarrow> Set_Has (Removed c) p"
  using assms fs.empty_iff [of m "Removed c"] by (auto simp: removal_of_def NewVersionedSet_def Comparison_ok_def)

lemma keeps_laws:
  assumes "Comparison_ok m c" "Set_wf m (vset v)"
  shows "Set_wf m (vset (keeps c v))" "apiVersion (keeps c v) = apiVersion v" "applied (keeps c v) = applied v"
    and "path_ok m p \<Longrightarrow> Set_Has (vset (keeps c v)) p \<longleftrightarrow> Set_Has (vset v) p \<and> \<not> changed c p"
proof -
  note cf = conflict_of_laws [OF assms] and rm = removal_of_laws [OF assms(1), where v = v]
  note l1 = less_set_laws [OF assms(2) cf(1)]
  note l2 = less_set_laws [OF l1(1) rm(1)]
  show "Set_wf m (vset (keeps c v))" "apiVersion (keeps c v) = apiVersion v" "applied (keeps c v) = applied v"
    using l2(1) by (simp_all add: keeps_def)
  show "path_ok m p \<Longrightarrow> Set_Has (vset (keeps c v)) p \<longleftrightarrow> Set_Has (vset v) p \<and> \<not> changed c p"
    using l1(2) [of p] l2(2) [of p] cf(2) [of p] rm(2) [of p] by (auto simp: keeps_def changed_def)
qed

section \<open>update\<close>

definition survivor :: "(APIVersion \<Rightarrow> 'e update_error + Comparison option) \<Rightarrow> string \<Rightarrow> string \<Rightarrow> VersionedSet \<Rightarrow> VersionedSet option" where
  "survivor at workflow k v =
     (if k = workflow then Some v else case at (apiVersion v) of Inr (Some c) \<Rightarrow> Some (keeps c v) | _ \<Rightarrow> None)"

lemma update_finish:
  assumes "loop_result at workflow ms \<lparr>us_versions = vs, us_managers = ms, us_conflicts = [], us_removed = []\<rparr> st" "distinct (map fst ms)"
  shows "\<exists>ms1 ms2. (foldE take_away (us_conflicts st) (us_managers st) :: 'e update_error + ManagedFields) = Inr ms1 \<and>
    (foldE take_away (us_removed st) ms1 :: 'e update_error + ManagedFields) = Inr ms2 \<and> distinct (map fst ms2) \<and>
    (\<forall>k. map_of ms2 k = Option.bind (map_of ms k) (survivor at workflow k))"
proof -
  have d: "distinct (map fst (us_managers st))" "distinct (map fst (us_conflicts st))" "distinct (map fst (us_removed st))"
    and mp: "\<And>k. map_of (us_managers st) k = Option.bind (map_of ms k) (\<lambda>v. if k \<noteq> workflow \<and> at (apiVersion v) = Inr None then None else Some v)"
    and cp: "\<And>k. map_of (us_conflicts st) k = Option.bind (map_of ms k) (\<lambda>v. Option.bind (seen at workflow k v) (\<lambda>c. conflict_of c v))"
    and rp: "\<And>k. map_of (us_removed st) k = Option.bind (map_of ms k) (\<lambda>v. Option.bind (seen at workflow k v) (\<lambda>c. removal_of c v))"
    using assms by (auto simp: loop_result_def updates_by_def or_else_def split: option.splits)
  have in_dom: "fst ` set ls \<subseteq> fst ` set (us_managers st)"
    if "\<And>k. map_of ls k = Option.bind (map_of ms k) (\<lambda>v. Option.bind (seen at workflow k v) (\<lambda>c. f c v))" for ls f
  proof -
    have "map_of (us_managers st) k \<noteq> None" if "map_of ls k \<noteq> None" for k
      using that \<open>\<And>k. map_of ls k = _ k\<close> [of k] mp [of k]
      by (cases "map_of ms k") (auto simp: seen_def split: if_splits sum.splits option.splits)
    then show ?thesis by (metis map_of_eq_None_iff subsetI)
  qed
  obtain ms1 where ms1: "(foldE take_away (us_conflicts st) (us_managers st) :: 'e update_error + ManagedFields) = Inr ms1"
    "distinct (map fst ms1)" "\<And>k. map_of ms1 k = map_option (less_set (map_of (us_conflicts st) k)) (map_of (us_managers st) k)"
    using take_away_all [OF d(2,1) in_dom [OF cp]] by blast
  have "fst ` set (us_removed st) \<subseteq> fst ` set ms1"
    using in_dom [OF rp] ms1(3) by (metis (no_types, lifting) map_of_eq_None_iff option.map_disc_iff subset_iff)
  then obtain ms2 where ms2: "(foldE take_away (us_removed st) ms1 :: 'e update_error + ManagedFields) = Inr ms2"
    "distinct (map fst ms2)" "\<And>k. map_of ms2 k = map_option (less_set (map_of (us_removed st) k)) (map_of ms1 k)"
    using take_away_all [OF d(3) ms1(2)] by blast
  have "map_of ms2 k = Option.bind (map_of ms k) (survivor at workflow k)" for k
  proof (cases "map_of ms k")
    case None
    then show ?thesis using mp [of k] ms1(3) [of k] ms2(3) [of k] by simp
  next
    case (Some v)
    then have "k \<noteq> workflow \<Longrightarrow> \<not> isl (at (apiVersion v))"
      using assms(1) by (auto simp: loop_result_def dest!: map_of_SomeD)
    then show ?thesis
      using Some mp [of k] cp [of k] rp [of k] ms1(3) [of k] ms2(3) [of k]
      by (cases "at (apiVersion v)"; cases "k = workflow") (auto simp: survivor_def seen_def keeps_def split: option.splits)
  qed
  with ms1(1) ms2(1,2) show ?thesis by blast
qed

definition owns :: "ManagedFields \<Rightarrow> string \<Rightarrow> Path \<Rightarrow> bool" where
  "owns ms k p \<longleftrightarrow> (\<exists>v. map_of ms k = Some v \<and> Set_Has (vset v) p)"

lemma first_cache_valid:
  "(compare_objects old new :: 'e update_error + Comparison) = Inr c \<Longrightarrow>
    cache_valid (s :: 'e Updater) old new version [(version, Comparison_ExcludeFields c (ignored s version))]"
  by (simp add: cache_valid_def comparison_at_def)

text \<open>A successful \<^verbatim>\<open>update\<close>, in terms of the comparisons at each version.\<close>

lemma update_Inr:
  assumes "update s old new version ms workflow force = Inr (ms', c)" "distinct (map fst ms)"
  shows "comparison_at s old new version version = Inr (Some c)"
    and "distinct (map fst ms')"
    and "map_of ms' k = Option.bind (map_of ms k) (\<lambda>v. case survivor (comparison_at s old new version) workflow k v of
           None \<Rightarrow> None | Some v' \<Rightarrow> if Set_Empty (vset v') then None else Some v')"
    and "\<not> force \<Longrightarrow> map_of ms k = Some v \<Longrightarrow> seen (comparison_at s old new version) workflow k v = Some c' \<Longrightarrow> conflict_of c' v = None"
proof -
  let ?at = "comparison_at s old new version"
  obtain c0 where c0: "(compare_objects old new :: 'a update_error + Comparison) = Inr c0"
    using assms(1) by (auto simp: update_def split: sum.splits)
  let ?c = "Comparison_ExcludeFields c0 (ignored s version)"
  let ?st = "\<lparr>us_versions = [(version, ?c)], us_managers = ms, us_conflicts = [], us_removed = []\<rparr>"
  obtain st where st: "foldE (update_step s old new workflow) ms ?st = Inr st"
    using assms(1) c0 by (auto simp: update_def Let_def split: sum.splits)
  have loop: "loop_result ?at workflow ms ?st st"
    using update_loop [OF st assms(2), of version] first_cache_valid [OF c0] by simp
  obtain ms1 ms2 where fin: "(foldE take_away (us_conflicts st) (us_managers st) :: 'a update_error + ManagedFields) = Inr ms1"
    "(foldE take_away (us_removed st) ms1 :: 'a update_error + ManagedFields) = Inr ms2" "distinct (map fst ms2)"
    "\<And>k. map_of ms2 k = Option.bind (map_of ms k) (survivor ?at workflow k)"
    using update_finish [OF loop assms(2)] by blast
  have r: "ms' = drop_empty ms2" "c = ?c" "force \<or> us_conflicts st = []"
    using assms(1) c0 st fin(1,2) by (auto simp: update_def Let_def split: if_splits)
  show "?at version = Inr (Some c)" using c0 r(2) by (simp add: comparison_at_def)
  show "distinct (map fst ms')" unfolding r(1) drop_empty_def using fin(3) by (rule distinct_map_filter)
  show "map_of ms' k = Option.bind (map_of ms k) (\<lambda>v. case survivor ?at workflow k v of
           None \<Rightarrow> None | Some v' \<Rightarrow> if Set_Empty (vset v') then None else Some v')"
    unfolding r(1) drop_empty_map_of [OF fin(3)] fin(4) by (cases "map_of ms k") simp_all
  have cp: "map_of (us_conflicts st) k = Option.bind (map_of ms k) (\<lambda>v. Option.bind (seen ?at workflow k v) (\<lambda>c. conflict_of c v))"
    using loop by (auto simp: loop_result_def updates_by_def or_else_def split: option.splits)
  show "conflict_of c' v = None" if "\<not> force" "map_of ms k = Some v" "seen ?at workflow k v = Some c'"
    using that r(3) cp by simp
qed

lemma update_owns:
  assumes "Updater_ok m s" "pred_option (TypedValue_ok m) old" "pred_option (TypedValue_ok m) new" "managers_wf m ms"
    and "update s old new version ms workflow force = Inr (ms', c)"
  shows "managers_wf m ms'"
    and "map_of ms' k = Some v' \<Longrightarrow> \<not> Set_Empty (vset v') \<and> (\<exists>v. map_of ms k = Some v \<and> apiVersion v' = apiVersion v \<and> applied v' = applied v)"
    and "path_ok m p \<Longrightarrow> owns ms' k p \<longleftrightarrow>
      (\<exists>v. map_of ms k = Some v \<and> Set_Has (vset v) p \<and>
        (k = workflow \<or> (\<exists>c. comparison_at s old new version (apiVersion v) = Inr (Some c) \<and> \<not> changed c p)))"
    and "\<not> force \<Longrightarrow> k \<noteq> workflow \<Longrightarrow> map_of ms k = Some v \<Longrightarrow> comparison_at s old new version (apiVersion v) = Inr (Some c') \<Longrightarrow>
      path_ok m p \<Longrightarrow> Set_Has (vset v) p \<Longrightarrow> \<not> Set_Has (Modified c') p \<and> \<not> Set_Has (Added c') p"
proof -
  let ?at = "comparison_at s old new version"
  have d: "distinct (map fst ms)" using assms(4) by (simp add: managers_wf_def)
  note u = update_Inr [OF assms(5) d]
  have wf: "Set_wf m (vset v)" if "map_of ms k = Some v" for k v using managers_wf_map_of [OF assms(4) that] .
  have ok: "Comparison_ok m c" if "?at x = Inr (Some c)" for x c using comparison_at_ok [OF assms(1-3) that] .
  have surv: "Set_wf m (vset v') \<and> apiVersion v' = apiVersion v \<and> applied v' = applied v \<and>
      (\<forall>p. path_ok m p \<longrightarrow> Set_Has (vset v') p \<longleftrightarrow> Set_Has (vset v) p \<and> (k = workflow \<or> (\<exists>c. ?at (apiVersion v) = Inr (Some c) \<and> \<not> changed c p)))"
    if "map_of ms k = Some v" "survivor ?at workflow k v = Some v'" for k v v'
    using that wf [OF that(1)] keeps_laws [OF ok wf [OF that(1)]]
    by (auto simp: survivor_def split: if_splits sum.splits option.splits)
  have gone: "\<not> (k = workflow \<or> (\<exists>c. ?at (apiVersion v) = Inr (Some c) \<and> \<not> changed c p))" if "survivor ?at workflow k v = None" for k v p
    using that by (auto simp: survivor_def split: if_splits sum.splits option.splits)
  have Some: "\<exists>v. map_of ms k = Some v \<and> survivor ?at workflow k v = Some v' \<and> \<not> Set_Empty (vset v')" if "map_of ms' k = Some v'" for k v'
    using that u(3) [of k] by (cases "map_of ms k") (auto split: option.splits if_splits)
  show v': "\<not> Set_Empty (vset v') \<and> (\<exists>v. map_of ms k = Some v \<and> apiVersion v' = apiVersion v \<and> applied v' = applied v)"
    if "map_of ms' k = Some v'" for k v'
    using Some [OF that] surv by blast
  have "Set_wf m (vset v')" if "map_of ms' k = Some v'" for k v' using Some [OF that] surv by blast
  then show "managers_wf m ms'" using u(2) by (auto simp: managers_wf_def list_all_iff)
  show "owns ms' k p \<longleftrightarrow> (\<exists>v. map_of ms k = Some v \<and> Set_Has (vset v) p \<and>
        (k = workflow \<or> (\<exists>c. ?at (apiVersion v) = Inr (Some c) \<and> \<not> changed c p)))" if p: "path_ok m p"
  proof (cases "map_of ms k")
    case None
    then show ?thesis using u(3) [of k] by (simp add: owns_def)
  next
    case (Some v)
    show ?thesis
    proof (cases "survivor ?at workflow k v")
      case None
      then show ?thesis using Some u(3) [of k] gone [OF None] by (simp add: owns_def)
    next
      case (Some v')
      note sv = surv [OF \<open>map_of ms k = Some v\<close> Some]
      have "\<not> Set_Has (vset v') p" if "Set_Empty (vset v')" using that fs.empty_iff [of m "vset v'"] sv p by blast
      then show ?thesis using \<open>map_of ms k = Some v\<close> Some u(3) [of k] sv p by (auto simp: owns_def)
    qed
  qed
  show "\<not> Set_Has (Modified c') p \<and> \<not> Set_Has (Added c') p"
    if "\<not> force" "k \<noteq> workflow" "map_of ms k = Some v" "?at (apiVersion v) = Inr (Some c')" "path_ok m p" "Set_Has (vset v) p"
    using u(4) [OF that(1,3), of c'] that conflict_of_laws(3) [OF ok [OF that(4)] wf [OF that(3)]] by (auto simp: seen_def)
qed

end
