(* ===== verification/Update_Conflicts.thy ===== *)
theory Update_Conflicts
  imports Updater_Laws
begin

text \<open>
  When \<^verbatim>\<open>update\<close> refuses: it computes the comparison at the version of every other manager, and without
  \<^verbatim>\<open>force\<close> it fails exactly when one of them owns a field that changed, with the list of all such fields.
\<close>

section \<open>The loop does not fail when the comparisons succeed\<close>

lemma versioned_compare_total:
  assumes "cache_valid s old new version vs" "\<not> isl (comparison_at s old new version v)"
  shows "\<exists>r. versioned_compare s old new v vs = Inr r"
  using versioned_compare_at(1) [OF assms(1), of v, symmetric] assms(2)
  by (cases "versioned_compare s old new v vs") simp_all

lemma update_step_total:
  assumes "cache_valid s old new version (us_versions st)" "k \<noteq> workflow \<Longrightarrow> \<not> isl (comparison_at s old new version (apiVersion v))"
  shows "\<exists>st'. update_step s old new workflow (k, v) st = Inr st'"
proof (cases "k = workflow")
  case False
  then obtain r where "versioned_compare s old new (apiVersion v) (us_versions st) = Inr r"
    using versioned_compare_total [OF assms(1)] assms(2) by blast
  then show ?thesis using False by (cases r) (auto simp: update_step_def Let_def)
qed (simp add: update_step_def)

lemma update_loop_total:
  assumes "cache_valid s old new version (us_versions st)"
    and "\<forall>(k, v) \<in> set es. k \<noteq> workflow \<longrightarrow> \<not> isl (comparison_at s old new version (apiVersion v))"
  shows "\<exists>st'. foldE (update_step s old new workflow) es st = Inr st'"
  using assms
proof (induction es arbitrary: st)
  case (Cons e es)
  obtain k v where e: "e = (k, v)" by (cases e)
  obtain st1 where st1: "update_step s old new workflow (k, v) st = Inr st1"
    using update_step_total [OF Cons.prems(1), of k workflow v] Cons.prems(2) e by auto
  have "cache_valid s old new version (us_versions st1)" using update_step_result [OF Cons.prems(1) st1] by blast
  from Cons.IH [OF this] Cons.prems(2) st1 show ?case by (simp add: e)
qed simp

section \<open>Conflicts\<close>

text \<open>A field that another manager owns and that changed at its version.\<close>

definition disputed ::
  "'e Updater \<Rightarrow> TypedValue option \<Rightarrow> TypedValue option \<Rightarrow> APIVersion \<Rightarrow> ManagedFields \<Rightarrow> string \<Rightarrow> string \<Rightarrow> Path \<Rightarrow> bool" where
  "disputed s old new version ms workflow k p \<longleftrightarrow> k \<noteq> workflow \<and>
     (\<exists>v c. map_of ms k = Some v \<and> comparison_at s old new version (apiVersion v) = Inr (Some c) \<and> Set_Has (vset v) p \<and>
        (Set_Has (Modified c) p \<or> Set_Has (Added c) p))"

text \<open>The comparisons that \<^verbatim>\<open>update\<close> needs all succeed.\<close>

definition comparable ::
  "'e Updater \<Rightarrow> TypedValue option \<Rightarrow> TypedValue option \<Rightarrow> APIVersion \<Rightarrow> ManagedFields \<Rightarrow> string \<Rightarrow> bool" where
  "comparable s old new version ms workflow \<longleftrightarrow> \<not> isl (comparison_at s old new version version) \<and>
     (\<forall>(k, v) \<in> set ms. k \<noteq> workflow \<longrightarrow> \<not> isl (comparison_at s old new version (apiVersion v)))"

lemma update_runs:
  fixes s :: "'e Updater"
  assumes "distinct (map fst ms)" "comparable s old new version ms workflow"
  shows "\<exists>vs st r. loop_result (comparison_at s old new version) workflow ms
      \<lparr>us_versions = vs, us_managers = ms, us_conflicts = [], us_removed = []\<rparr> st \<and>
    (\<forall>force. update s old new version ms workflow force =
      (if \<not> force \<and> us_conflicts st \<noteq> [] then Inl (Conflicting (ConflictsFromManagers (us_conflicts st))) else Inr r))"
proof -
  obtain c0 where c0: "(compare_objects old new :: 'e update_error + Comparison) = Inr c0"
    using assms(2) by (cases "compare_objects old new :: 'e update_error + Comparison") (auto simp: comparable_def comparison_at_def)
  let ?c = "Comparison_ExcludeFields c0 (ignored s version)"
  let ?st = "\<lparr>us_versions = [(version, ?c)], us_managers = ms, us_conflicts = [], us_removed = []\<rparr>"
  have cv: "cache_valid s old new version (us_versions ?st)" using first_cache_valid [OF c0] by simp
  obtain st where st: "foldE (update_step s old new workflow) ms ?st = Inr st"
    using update_loop_total [OF cv] assms(2) unfolding comparable_def by blast
  note loop = update_loop [OF st assms(1) cv]
  obtain ms1 ms2 where "(foldE take_away (us_conflicts st) (us_managers st) :: 'e update_error + ManagedFields) = Inr ms1"
    "(foldE take_away (us_removed st) ms1 :: 'e update_error + ManagedFields) = Inr ms2"
    using update_finish [OF loop assms(1)] by blast
  then have "update s old new version ms workflow force =
      (if \<not> force \<and> us_conflicts st \<noteq> [] then Inl (Conflicting (ConflictsFromManagers (us_conflicts st))) else Inr (drop_empty ms2, ?c))" for force
    using c0 st by (auto simp: update_def Let_def)
  with loop show ?thesis by blast
qed

lemma conflict_entries:
  assumes "loop_result at workflow ms \<lparr>us_versions = vs, us_managers = ms, us_conflicts = [], us_removed = []\<rparr> st" "managers_wf m ms"
    and "\<forall>x c. at x = Inr (Some c) \<longrightarrow> Comparison_ok m c"
  shows "managers_wf m (us_conflicts st)"
    and "map_of (us_conflicts st) k = Some x \<Longrightarrow> \<not> Set_Empty (vset x)"
    and "path_ok m p \<Longrightarrow> owns (us_conflicts st) k p \<longleftrightarrow> k \<noteq> workflow \<and>
      (\<exists>v c. map_of ms k = Some v \<and> at (apiVersion v) = Inr (Some c) \<and> Set_Has (vset v) p \<and> (Set_Has (Modified c) p \<or> Set_Has (Added c) p))"
proof -
  have cp: "map_of (us_conflicts st) k = Option.bind (map_of ms k) (\<lambda>v. Option.bind (seen at workflow k v) (\<lambda>c. conflict_of c v))" for k
    using assms(1) by (auto simp: loop_result_def updates_by_def or_else_def split: option.splits)
  have dc: "distinct (map fst (us_conflicts st))" using assms(1) by (simp add: loop_result_def updates_by_def)
  have entry: "\<exists>v c. k \<noteq> workflow \<and> map_of ms k = Some v \<and> at (apiVersion v) = Inr (Some c) \<and> conflict_of c v = Some x \<and>
      Set_wf m (vset v) \<and> Comparison_ok m c"
    if x: "map_of (us_conflicts st) k = Some x" for k x
  proof -
    obtain v c where v: "map_of ms k = Some v" "seen at workflow k v = Some c" "conflict_of c v = Some x"
      using x unfolding cp by (auto simp: bind_eq_Some_conv)
    then have "k \<noteq> workflow" "at (apiVersion v) = Inr (Some c)"
      by (auto simp: seen_def split: if_splits sum.splits option.splits)
    then show ?thesis using v assms(3) managers_wf_map_of [OF assms(2) v(1)] by blast
  qed
  have "Set_wf m (vset x)" if "map_of (us_conflicts st) k = Some x" for k x
    using entry [OF that] conflict_of_laws(1) by fastforce
  then show "managers_wf m (us_conflicts st)" using dc by (auto simp: managers_wf_def list_all_iff)
  show "\<not> Set_Empty (vset x)" if "map_of (us_conflicts st) k = Some x"
    using entry [OF that] by (auto simp: conflict_of_def Let_def NewVersionedSet_def split: if_splits)
  show "owns (us_conflicts st) k p \<longleftrightarrow> k \<noteq> workflow \<and>
      (\<exists>v c. map_of ms k = Some v \<and> at (apiVersion v) = Inr (Some c) \<and> Set_Has (vset v) p \<and> (Set_Has (Modified c) p \<or> Set_Has (Added c) p))"
    (is "_ \<longleftrightarrow> ?R") if p: "path_ok m p"
  proof
    assume "owns (us_conflicts st) k p"
    then obtain x where x: "map_of (us_conflicts st) k = Some x" "Set_Has (vset x) p" by (auto simp: owns_def)
    from entry [OF x(1)] show ?R using x(2) conflict_of_laws(2) [OF _ _ p] by blast
  next
    assume ?R
    then obtain v c where v: "k \<noteq> workflow" "map_of ms k = Some v" "at (apiVersion v) = Inr (Some c)" "Set_Has (vset v) p"
      "Set_Has (Modified c) p \<or> Set_Has (Added c) p" by blast
    obtain x where "conflict_of c v = Some x" "Set_Has (vset x) p"
      using conflict_of_laws(2) [OF assms(3) [rule_format, OF v(3)] managers_wf_map_of [OF assms(2) v(2)] p] v(4,5) by blast
    then show "owns (us_conflicts st) k p" using v cp [of k] by (simp add: owns_def seen_def)
  qed
qed

text \<open>The list of conflicts has exactly the pairs of a manager and a path of its set.\<close>

lemma ConflictsFromManagers_owns:
  assumes "managers_wf m ms" "path_ok m p"
  shows "(\<exists>c \<in> set (ConflictsFromManagers ms). Manager c = k \<and> Path_Equals (Conflict_Path c) p) \<longleftrightarrow> owns ms k p"
proof -
  have d: "distinct (map fst ms)" using assms(1) by (simp add: managers_wf_def)
  have "(\<exists>c \<in> set (ConflictsFromManagers ms). Manager c = k \<and> Path_Equals (Conflict_Path c) p) \<longleftrightarrow>
      (\<exists>v. (k, v) \<in> set ms \<and> (\<exists>q \<in> set (Set_paths (vset v)). Path_Equals q p))"
    unfolding ConflictsFromManagers_eq by force
  also have "\<dots> \<longleftrightarrow> owns ms k p"
    using d Set_Has_paths [OF managers_wf_map_of [OF assms(1)] assms(2)] by (auto simp: owns_def)
  finally show ?thesis .
qed

lemma update_conflicts:
  assumes "Updater_ok m s" "pred_option (TypedValue_ok m) old" "pred_option (TypedValue_ok m) new" "managers_wf m ms"
    and "comparable s old new version ms workflow"
  shows "(\<exists>cs. update s old new version ms workflow force = Inl (Conflicting cs)) \<longleftrightarrow>
      \<not> force \<and> (\<exists>k p. path_ok m p \<and> disputed s old new version ms workflow k p)"
    and "update s old new version ms workflow force = Inl (Conflicting cs) \<Longrightarrow> path_ok m p \<Longrightarrow>
      (\<exists>c \<in> set cs. Manager c = k \<and> Path_Equals (Conflict_Path c) p) \<longleftrightarrow> disputed s old new version ms workflow k p"
    and "\<not> (\<exists>cs. update s old new version ms workflow force = Inl (Conflicting cs)) \<Longrightarrow>
      update s old new version ms workflow force = update s old new version ms workflow True \<and> \<not> isl (update s old new version ms workflow True)"
proof -
  obtain vs st r where loop: "loop_result (comparison_at s old new version) workflow ms
      \<lparr>us_versions = vs, us_managers = ms, us_conflicts = [], us_removed = []\<rparr> st"
    and st: "\<And>force. update s old new version ms workflow force =
      (if \<not> force \<and> us_conflicts st \<noteq> [] then Inl (Conflicting (ConflictsFromManagers (us_conflicts st))) else Inr r)"
    using update_runs [OF _ assms(5)] assms(4) unfolding managers_wf_def by blast
  define conflicts where "conflicts = us_conflicts st"
  note u = st [folded conflicts_def]
  have ok: "\<forall>x c. comparison_at s old new version x = Inr (Some c) \<longrightarrow> Comparison_ok m c"
    using comparison_at_ok [OF assms(1-3)] by blast
  note c = conflict_entries [OF loop assms(4) ok, folded conflicts_def, folded disputed_def]
  have "conflicts \<noteq> [] \<longleftrightarrow> (\<exists>k p. path_ok m p \<and> owns conflicts k p)"
  proof
    assume "conflicts \<noteq> []"
    then obtain k v where kv: "map_of conflicts k = Some v" by (metis list.exhaust map_of_eq_None_iff not_None_eq list.set_intros(1) image_eqI)
    then obtain p where "path_ok m p" "Set_Has (vset v) p"
      using c(2) [OF kv] fs.empty_iff [OF managers_wf_map_of [OF c(1) kv]] by blast
    with kv show "\<exists>k p. path_ok m p \<and> owns conflicts k p" by (auto simp: owns_def)
  qed (auto simp: owns_def)
  then have ne: "conflicts \<noteq> [] \<longleftrightarrow> (\<exists>k p. path_ok m p \<and> disputed s old new version ms workflow k p)" using c(3) by blast
  show "(\<exists>cs. update s old new version ms workflow force = Inl (Conflicting cs)) \<longleftrightarrow>
      \<not> force \<and> (\<exists>k p. path_ok m p \<and> disputed s old new version ms workflow k p)"
    unfolding u ne [symmetric] by auto
  show "\<not> (\<exists>cs. update s old new version ms workflow force = Inl (Conflicting cs)) \<Longrightarrow>
      update s old new version ms workflow force = update s old new version ms workflow True \<and> \<not> isl (update s old new version ms workflow True)"
    unfolding u by (auto split: if_splits)
  show "(\<exists>c \<in> set cs. Manager c = k \<and> Path_Equals (Conflict_Path c) p) \<longleftrightarrow> disputed s old new version ms workflow k p"
    if "update s old new version ms workflow force = Inl (Conflicting cs)" "path_ok m p"
    using that ConflictsFromManagers_owns [OF c(1) that(2)] c(3) unfolding u by (auto split: if_splits)
qed

end
