(* ===== verification/Ownership.thy ===== *)
theory Ownership
  imports Update_Conflicts Kept_Values
begin

text \<open>
  Who owns what after \<^verbatim>\<open>Updater.Update\<close> and \<^verbatim>\<open>Updater.Apply\<close>: the managers are first reconciled with the schema, then
  every other manager loses what changed at its version, and the manager who works owns what it changed or applied.
\<close>

section \<open>Reconciliation of all managers\<close>

text \<open>What reconciliation makes of one entry: \<open>Inr None\<close> when its version is missing.\<close>

definition reconciled :: "'e Updater \<Rightarrow> TypedValue option \<Rightarrow> VersionedSet \<Rightarrow> 'e update_error + VersionedSet option" where
  "reconciled s live v =
     (case reconcile_step s live ([], v) [] of Inl e \<Rightarrow> Inl e | Inr [] \<Rightarrow> Inr None | Inr ((_, x) # _) \<Rightarrow> Inr (Some x))"

lemma reconcile_step_reconciled:
  "reconcile_step s live (k, v) ms =
     (case reconciled s live v of Inl e \<Rightarrow> Inl e | Inr None \<Rightarrow> Inr ms | Inr (Some x) \<Rightarrow> Inr (AList.update k x ms))"
  by (auto simp: reconciled_def reconcile_step_def split: prod.splits option.splits sum.splits)

definition reconcile_ok :: "'e Updater \<Rightarrow> TypedValue option \<Rightarrow> VersionedSet \<Rightarrow> VersionedSet option" where
  "reconcile_ok s live v = (case reconciled s live v of Inr (Some x) \<Rightarrow> Some x | _ \<Rightarrow> None)"

lemma reconcile_loop:
  "foldE (reconcile_step s live) es ms = Inr ms' \<Longrightarrow> distinct (map fst es) \<Longrightarrow>
    updates_by (\<lambda>k v. or_else (reconcile_ok s live v)) es ms ms'"
proof (induction rule: foldE_Inr_induct)
  case (Nil ms)
  then show ?case by (simp add: updates_by_Nil)
next
  case (Cons e es ms ms1 ms2)
  obtain k v where e: "e = (k, v)" by (cases e)
  have "updates_by (\<lambda>k v. or_else (reconcile_ok s live v)) [e] ms ms1"
    using Cons.hyps(1) unfolding e reconcile_step_reconciled
    by (auto simp: updates_by_def or_else_def reconcile_ok_def update_conv' distinct_update split: sum.splits option.splits)
  then show ?case by (rule updates_by_Cons) (use Cons in simp_all)
qed

lemma reconcile_all_map_of:
  assumes "reconcileManagedFieldsWithSchemaChanges s live ms = Inr ms1" "distinct (map fst ms)"
  shows "distinct (map fst ms1)" "map_of ms1 k = Option.bind (map_of ms k) (reconcile_ok s live)"
  using reconcile_loop [OF assms(1) [unfolded reconcileManagedFieldsWithSchemaChanges_def] assms(2)]
  by (auto simp: updates_by_def or_else_def split: option.splits)

text \<open>The paths of a reconciled set: what became atomic is replaced by its root.\<close>

definition reconciled_has :: "TypedValue \<Rightarrow> FieldSet \<Rightarrow> Path \<Rightarrow> bool" where
  "reconciled_has tv fs p \<longleftrightarrow> (Set_Has fs p \<and> \<not> (\<exists>i \<le> length p. atomic_root tv fs (take i p))) \<or> atomic_root tv fs p"

lemma reconcile_ok_Some:
  assumes "reconcile_ok s live v = Some x" "Set_wf m (vset v)"
  shows "apiVersion x = apiVersion v" "applied x = applied v" "Set_wf m (vset x)"
    and "\<exists>tv. convert s live (apiVersion v) = (Some tv, None) \<and> (\<forall>p. path_ok m p \<longrightarrow> Set_Has (vset x) p \<longleftrightarrow> reconciled_has tv (vset v) p)"
proof -
  obtain tv r where tv: "convert s live (apiVersion v) = (Some tv, None)" "ReconcileFieldSetWithSchema (vset v) tv = Inr r"
    and x: "x = (case r of None \<Rightarrow> v | Some fs \<Rightarrow> NewVersionedSet fs (apiVersion v) (applied v))"
    using assms(1)
    by (auto simp: reconcile_ok_def reconciled_def reconcile_step_def split: prod.splits option.splits sum.splits if_splits)
  note laws = Reconcile_laws [OF assms(2) tv(2)]
  show "apiVersion x = apiVersion v" "applied x = applied v" "Set_wf m (vset x)"
    using laws(2) assms(2) by (auto simp: x NewVersionedSet_def split: option.splits)
  have "Set_Has (vset x) p \<longleftrightarrow> reconciled_has tv (vset v) p" if "path_ok m p" for p
  proof (cases r)
    case None
    then have "\<not> atomic_root tv (vset v) q" for q using laws(1) by (auto simp: atomic_root_def)
    then show ?thesis using None by (simp add: x reconciled_has_def)
  next
    case (Some fs)
    then show ?thesis using laws(3) [OF Some that] by (simp add: x NewVersionedSet_def reconciled_has_def)
  qed
  with tv(1) show "\<exists>tv. convert s live (apiVersion v) = (Some tv, None) \<and>
      (\<forall>p. path_ok m p \<longrightarrow> Set_Has (vset x) p \<longleftrightarrow> reconciled_has tv (vset v) p)" by blast
qed

lemma reconcile_ok_missing:
  assumes "reconcileManagedFieldsWithSchemaChanges s live ms = Inr ms1" "(k, v) \<in> set ms" "reconcile_ok s live v = None"
  shows "missing_version s (snd (convert s live (apiVersion v)))"
proof -
  have "\<not> isl (reconciled s live v)"
    if "foldE (reconcile_step s live) es acc = Inr out" "(k, v) \<in> set es" for es acc out
    using that
  proof (induction rule: foldE_Inr_induct)
    case (Cons e es acc acc1 out)
    show ?case
    proof (cases "(k, v) = e")
      case True
      then show ?thesis using Cons.hyps(1) by (auto simp: reconcile_step_reconciled split: sum.splits)
    qed (use Cons in auto)
  qed simp
  then have "reconciled s live v = Inr None"
    using assms by (auto simp: reconcileManagedFieldsWithSchemaChanges_def reconcile_ok_def split: sum.splits option.splits)
  then show ?thesis
    by (auto simp: reconciled_def reconcile_step_def split: prod.splits option.splits sum.splits if_splits)
qed

lemma reconcile_all_wf:
  assumes "reconcileManagedFieldsWithSchemaChanges s live ms = Inr ms1" "managers_wf m ms"
  shows "managers_wf m ms1"
proof -
  have d: "distinct (map fst ms)" using assms(2) by (simp add: managers_wf_def)
  note r = reconcile_all_map_of [OF assms(1) d]
  have "Set_wf m (vset x)" if "map_of ms1 k = Some x" for k x
    using that r(2) [of k] managers_wf_map_of [OF assms(2)] by (auto simp: bind_eq_Some_conv dest: reconcile_ok_Some(3))
  then show ?thesis using r(1) by (auto simp: managers_wf_def list_all_iff)
qed

lemma reconcile_all_owns:
  assumes "reconcileManagedFieldsWithSchemaChanges s live ms = Inr ms1" "managers_wf m ms" "path_ok m p"
  shows "owns ms1 k p \<longleftrightarrow> (\<exists>v tv. map_of ms k = Some v \<and> \<not> missing_version s (snd (convert s live (apiVersion v))) \<and>
    convert s live (apiVersion v) = (Some tv, None) \<and> reconciled_has tv (vset v) p)"
proof (cases "map_of ms k")
  case None
  then show ?thesis using reconcile_all_map_of(2) [OF assms(1)] assms(2) by (simp add: owns_def managers_wf_def)
next
  case (Some v)
  then have m1: "map_of ms1 k = reconcile_ok s live v"
    using reconcile_all_map_of(2) [OF assms(1)] assms(2) by (simp add: managers_wf_def)
  show ?thesis
  proof (cases "reconcile_ok s live v")
    case None
    then show ?thesis using reconcile_ok_missing [OF assms(1) map_of_SomeD [OF Some] None] Some m1 by (simp add: owns_def)
  next
    case (Some x)
    note r = reconcile_ok_Some [OF Some managers_wf_map_of [OF assms(2) \<open>map_of ms k = Some v\<close>]]
    have "\<not> missing_version s (snd (convert s live (apiVersion v)))"
      using Some by (auto simp: reconcile_ok_def reconciled_def reconcile_step_def split: prod.splits option.splits sum.splits if_splits)
    then show ?thesis using r(4) assms(3) Some \<open>map_of ms k = Some v\<close> m1 by (auto simp: owns_def)
  qed
qed

section \<open>Update\<close>

definition updated_set :: "FieldSet \<Rightarrow> Comparison \<Rightarrow> FieldSet option \<Rightarrow> FieldSet" where
  "updated_set own c ign =
     Set_RecursiveDifference (Set_Union (Set_Union (Set_Difference own (Removed c)) (Modified c)) (Added c))
       (case ign of None \<Rightarrow> NewSet [] | Some f \<Rightarrow> f)"

lemma NewSet_Nil_laws: "Set_wf m (NewSet [])" "\<not> Set_Has (NewSet []) p" "\<not> Set_covers (NewSet []) p"
  using NewSet_wf [of m "[]"] by (auto simp: NewSet_def Set_covers_def)

lemma updated_set_laws:
  assumes "Set_wf m own" "Comparison_ok m c" "pred_option (Set_wf m) ign"
  shows "Set_wf m (updated_set own c ign)"
    and "path_ok m p \<Longrightarrow> Set_Has (updated_set own c ign) p \<longleftrightarrow>
      (Set_Has own p \<and> \<not> Set_Has (Removed c) p \<or> Set_Has (Modified c) p \<or> Set_Has (Added c) p) \<and> \<not> excluded ign p"
proof -
  have wf: "Set_wf m (case ign of None \<Rightarrow> NewSet [] | Some f \<Rightarrow> f)"
    using NewSet_Nil_laws(1) [of m] assms(3) by (cases ign) simp_all
  show "Set_wf m (updated_set own c ign)"
    using assms wf by (simp add: updated_set_def Comparison_ok_def Set_RecursiveDifference_wf fs.wf_ops)
  have "Set_covers (case ign of None \<Rightarrow> NewSet [] | Some f \<Rightarrow> f) p \<longleftrightarrow> excluded ign p"
    using NewSet_Nil_laws(3) by (simp add: excluded_def split: option.splits)
  then show "path_ok m p \<Longrightarrow> Set_Has (updated_set own c ign) p \<longleftrightarrow>
      (Set_Has own p \<and> \<not> Set_Has (Removed c) p \<or> Set_Has (Modified c) p \<or> Set_Has (Added c) p) \<and> \<not> excluded ign p"
    using assms wf by (simp add: updated_set_def Comparison_ok_def Set_RecursiveDifference_Has [of m] fs.wf_ops fs.has_ops [of m])
qed

lemma Update_owns:
  assumes "Updater_ok m s" "pred_option (TypedValue_ok m) live" "pred_option (TypedValue_ok m) new" "managers_wf m ms"
    and "Updater_Update s live new version ms manager = Inr (obj, ms')"
  shows "obj = new"
    and "managers_wf m ms'"
    and "map_of ms' k = Some v' \<Longrightarrow> \<not> Set_Empty (vset v') \<and> (k = manager \<longrightarrow> apiVersion v' = version \<and> \<not> applied v')"
    and "\<exists>ms1 c. reconcileManagedFieldsWithSchemaChanges s live ms = Inr ms1 \<and>
      comparison_at s live new version version = Inr (Some c) \<and>
      (\<forall>p. path_ok m p \<longrightarrow> owns ms' manager p \<longleftrightarrow>
        (owns ms1 manager p \<and> \<not> Set_Has (Removed c) p \<or> Set_Has (Modified c) p \<or> Set_Has (Added c) p) \<and> \<not> excluded (ignored s version) p) \<and>
      (\<forall>k p. k \<noteq> manager \<longrightarrow> path_ok m p \<longrightarrow> owns ms' k p \<longleftrightarrow> (\<exists>v c'. map_of ms1 k = Some v \<and> Set_Has (vset v) p \<and>
        comparison_at s live new version (apiVersion v) = Inr (Some c') \<and> \<not> changed c' p))"
proof -
  obtain ms1 ms2 c where run: "reconcileManagedFieldsWithSchemaChanges s live ms = Inr ms1"
    "update s live new version ms1 manager True = Inr (ms2, c)"
    using assms(5) by (auto simp: Updater_Update_def split: sum.splits)
  have wf1: "managers_wf m ms1" using reconcile_all_wf [OF run(1) assms(4)] .
  note u = update_owns [OF assms(1-3) wf1 run(2)]
  have d: "distinct (map fst ms1)" "distinct (map fst ms2)" using wf1 u(1) by (simp_all add: managers_wf_def)
  have c: "comparison_at s live new version version = Inr (Some c)" using update_Inr(1) [OF run(2) d(1)] .
  have c_ok: "Comparison_ok m c" using comparison_at_ok [OF assms(1-3) c] .
  define own where "own = (case map_of ms2 manager of None \<Rightarrow> NewSet [] | Some v \<Rightarrow> vset v)"
  define S where "S = updated_set own c (ignored s version)"
  have res: "obj = new" "ms' = (if Set_Empty S then AList.delete manager ms2 else AList.update manager (NewVersionedSet S version False) ms2)"
    using assms(5) run by (simp_all add: Updater_Update_def Let_def S_def own_def updated_set_def split: if_splits)
  show "obj = new" by (fact res(1))
  have "Set_wf m own" using NewSet_Nil_laws(1) managers_wf_map_of [OF u(1)] by (auto simp: own_def split: option.splits)
  note S = updated_set_laws [OF this c_ok ignored_wf [OF assms(1), of version], folded S_def]
  have own: "Set_Has own p \<longleftrightarrow> owns ms1 manager p" if "path_ok m p" for p
    using u(3) [OF that, of manager] NewSet_Nil_laws(2) by (auto simp: own_def owns_def split: option.splits)
  have map': "map_of ms' k = (if k = manager then if Set_Empty S then None else Some (NewVersionedSet S version False) else map_of ms2 k)" for k
    by (auto simp: res(2) delete_conv' update_conv')
  have "distinct (map fst ms')" using d(2) by (simp add: res(2) distinct_update distinct_delete)
  moreover have "Set_wf m (vset v)" if "map_of ms' k = Some v" for k v
    using that S(1) managers_wf_map_of [OF u(1)] by (auto simp: map' NewVersionedSet_def split: if_splits)
  ultimately show "managers_wf m ms'" by (auto simp: managers_wf_def list_all_iff)
  show "\<not> Set_Empty (vset v') \<and> (k = manager \<longrightarrow> apiVersion v' = version \<and> \<not> applied v')" if "map_of ms' k = Some v'"
    using that u(2) [of k v'] by (auto simp: map' NewVersionedSet_def split: if_splits)
  have "owns ms' manager p \<longleftrightarrow> Set_Has S p" if "path_ok m p" for p
    using that fs.empty_iff [OF S(1)] by (auto simp: owns_def map' NewVersionedSet_def)
  moreover have "owns ms' k p \<longleftrightarrow> owns ms2 k p" if "k \<noteq> manager" for k p
    using that by (simp add: owns_def map')
  ultimately show "\<exists>ms1 c. reconcileManagedFieldsWithSchemaChanges s live ms = Inr ms1 \<and>
      comparison_at s live new version version = Inr (Some c) \<and>
      (\<forall>p. path_ok m p \<longrightarrow> owns ms' manager p \<longleftrightarrow>
        (owns ms1 manager p \<and> \<not> Set_Has (Removed c) p \<or> Set_Has (Modified c) p \<or> Set_Has (Added c) p) \<and> \<not> excluded (ignored s version) p) \<and>
      (\<forall>k p. k \<noteq> manager \<longrightarrow> path_ok m p \<longrightarrow> owns ms' k p \<longleftrightarrow> (\<exists>v c'. map_of ms1 k = Some v \<and> Set_Has (vset v) p \<and>
        comparison_at s live new version (apiVersion v) = Inr (Some c') \<and> \<not> changed c' p))"
    using run(1) c S(2) own u(3) by (intro exI [of _ ms1] exI [of _ c]) auto
qed

section \<open>Pruning keeps objects well-formed\<close>

lemma foldE_invariant:
  "foldE f xs s = Inr t \<Longrightarrow> P s \<Longrightarrow> (\<And>x s s'. x \<in> set xs \<Longrightarrow> P s \<Longrightarrow> f x s = Inr s' \<Longrightarrow> P s') \<Longrightarrow> P t"
proof (induction rule: foldE_Inr_induct)
  case (Cons x xs s s' t)
  have "P s'" using Cons.prems Cons.hyps(1) by (meson list.set_intros(1))
  then show ?case by (rule Cons.IH) (meson Cons.prems(2) list.set_intros(2))
qed

lemma remove_items_ok:
  "pred_option (TypedValue_ok m) tv \<Longrightarrow> remove_items tv items = Inr tv' \<Longrightarrow> pred_option (TypedValue_ok m) tv'"
  by (auto simp: remove_items_def TypedValue_RemoveItems_def remove_or_extract_ok split: option.splits sum.splits)

lemma addBackForVersion_ok:
  assumes "Updater_ok m s" "pred_option (TypedValue_ok m) a" "pred_option (TypedValue_ok m) b"
    and "addBackOwnedItemsForVersion s a b v fs = Inr (a', b')"
  shows "pred_option (TypedValue_ok m) a' \<and> pred_option (TypedValue_ok m) b'"
  using convert_ok [OF assms(1,2), of v] convert_ok [OF assms(1,3), of v] assms(2-)
  by (auto simp: addBackOwnedItemsForVersion_def dest: remove_items_ok [rotated] split: prod.splits option.splits sum.splits if_splits)

lemma addBackOwnedItems_ok:
  assumes "Updater_ok m s" "pred_option (TypedValue_ok m) a" "pred_option (TypedValue_ok m) b"
    and "addBackOwnedItems s a b v ms = Inr b'"
  shows "pred_option (TypedValue_ok m) b'"
proof -
  let ?ok = "\<lambda>x. pred_option (TypedValue_ok m) (fst x) \<and> pred_option (TypedValue_ok m) (snd x)"
  let ?step = "\<lambda>(version, fs) (x, y). addBackOwnedItemsForVersion s x y version fs"
  obtain first x where first: "(case map_of (managedAtVersion ms) v of None \<Rightarrow> Inr (a, b)
      | Some fs \<Rightarrow> addBackOwnedItemsForVersion s a b v fs) = Inr first"
    and fold: "foldE ?step (AList.delete v (managedAtVersion ms)) first = Inr (x, b')"
    using assms(4) by (auto simp: addBackOwnedItems_def Let_def split: sum.splits option.splits)
  have "?ok first"
    using first assms(2,3) addBackForVersion_ok [OF assms(1-3), of v] by (cases first) (auto split: option.splits)
  moreover have "?ok y'" if "?ok y" "?step e y = Inr y'" for e y y'
    using that addBackForVersion_ok [OF assms(1), of "fst y" "snd y" "fst e" "snd e" "fst y'" "snd y'"]
    by (simp add: split_beta)
  ultimately have "?ok (x, b')" by (rule foldE_invariant [OF fold])
  then show ?thesis by simp
qed

lemma addBackDanglingItems_ok:
  assumes "pred_option (TypedValue_ok m) a" "addBackDanglingItems s a b v = Inr b'"
  shows "pred_option (TypedValue_ok m) b'"
  using assms
  by (auto simp: addBackDanglingItems_def dest: remove_items_ok [rotated] split: prod.splits option.splits sum.splits if_splits)

lemma prune_ok:
  assumes "Updater_ok m s" "pred_option (TypedValue_ok m) merged" "prune s merged ms manager lastSet = Inr obj"
  shows "pred_option (TypedValue_ok m) obj"
proof (cases "obj = merged")
  case False
  then obtain l tv p1 p2 p3 v where run: "lastSet = Some l" "convert s merged (apiVersion l) = (Some tv, None)"
    "(remove_items (Some tv) (ensure_named tv (vset l)) :: 'a update_error + TypedValue option) = Inr p1"
    "addBackOwnedItems s (Some tv) p1 (apiVersion l) ms = Inr p2" "addBackDanglingItems s (Some tv) p2 l = Inr p3"
    "convert s p3 v = (obj, None)"
    using assms(3) by (auto simp: prune_def split: option.splits prod.splits sum.splits if_splits)
  have tv: "pred_option (TypedValue_ok m) (Some tv)" using convert_ok [OF assms(1,2), of "apiVersion l"] run(2) by simp
  have "pred_option (TypedValue_ok m) p3" using addBackDanglingItems_ok [OF tv run(5)] .
  then show ?thesis using convert_ok [OF assms(1), of p3 v] run(6) by simp
qed (use assms(2) in simp)

section \<open>Apply\<close>

text \<open>A typed value without a value has the empty set, or none.\<close>

lemma ToFieldSet_any:
  assumes "TypedValue_ok m tv" "TypedValue_ToFieldSet tv = Inr s"
  shows "Set_wf m s" and "path_ok m p \<Longrightarrow> Set_Has s p \<longleftrightarrow> (\<exists>r \<in> set (owned_by tv). r \<noteq> [] \<and> Path_Equals r p)"
proof -
  have "Set_wf m s \<and> (path_ok m p \<longrightarrow> Set_Has s p \<longleftrightarrow> (\<exists>r \<in> set (owned_by tv). r \<noteq> [] \<and> Path_Equals r p))"
  proof (cases "tv_value tv")
    case None
    have "s = NewSet []"
      using assms(2) None
      by (auto simp: TypedValue_ToFieldSet_def toFieldSet.simps [of _ _ None] resolveSchema_def handleAtom_def deduceAtom_def
          toFieldSet_doScalar_def toFieldSet_doList_def toFieldSet_doMap_def mapValue_def or_nil_def errorf_def
          split: option.splits if_splits)
    then show ?thesis using NewSet_Nil_laws None by (simp add: owned_by_def)
  next
    case (Some v)
    then show ?thesis using ToFieldSet_laws [OF assms(1) Some assms(2)] by blast
  qed
  then show "Set_wf m s" "path_ok m p \<Longrightarrow> Set_Has s p \<longleftrightarrow> (\<exists>r \<in> set (owned_by tv). r \<noteq> [] \<and> Path_Equals r p)" by blast+
qed

lemma applied_set_laws:
  assumes "Updater_ok m s" "TypedValue_ok m config" "(applied_set s (Some config) version :: 'e update_error + FieldSet) = Inr fs"
  shows "Set_wf m fs"
    and "path_ok m p \<Longrightarrow> Set_Has fs p \<longleftrightarrow>
      (\<exists>r \<in> set (owned_by config). r \<noteq> [] \<and> Path_Equals r p) \<and> \<not> excluded (ignored s version) p"
proof -
  obtain f where f: "TypedValue_ToFieldSet config = Inr f" "fs = (case ignored s version of None \<Rightarrow> f | Some ign \<Rightarrow> Set_RecursiveDifference f ign)"
    using assms(3) by (auto simp: applied_set_def split: sum.splits)
  note laws = ToFieldSet_any [OF assms(2) f(1)]
  show "Set_wf m fs" using laws(1) ignored_wf [OF assms(1), of version] by (auto simp: f(2) Set_RecursiveDifference_wf split: option.splits)
  show "path_ok m p \<Longrightarrow> Set_Has fs p \<longleftrightarrow>
      (\<exists>r \<in> set (owned_by config). r \<noteq> [] \<and> Path_Equals r p) \<and> \<not> excluded (ignored s version) p"
    using laws ignored_wf [OF assms(1), of version]
    by (auto simp: f(2) excluded_def Set_RecursiveDifference_Has [of m] split: option.splits)
qed

text \<open>The run of a successful \<^verbatim>\<open>Apply\<close>.\<close>

definition apply_run ::
  "'e Updater \<Rightarrow> TypedValue \<Rightarrow> TypedValue \<Rightarrow> APIVersion \<Rightarrow> ManagedFields \<Rightarrow> string \<Rightarrow>
   ManagedFields \<Rightarrow> TypedValue \<Rightarrow> FieldSet \<Rightarrow> TypedValue option \<Rightarrow> bool" where
  "apply_run s live config version ms manager ms1 merged fs new \<longleftrightarrow>
     reconcileManagedFieldsWithSchemaChanges s (Some live) ms = Inr ms1 \<and>
     TypedValue_Merge live config = Inr merged \<and>
     (applied_set s (Some config) version :: 'e update_error + FieldSet) = Inr fs \<and>
     prune s (Some merged) (AList.update manager (NewVersionedSet fs version True) ms1) manager (map_of ms1 manager) = Inr new"

lemma Apply_Inr:
  assumes "Updater_Apply s (Some live) (Some config) version ms manager force = Inr (obj, ms')"
  obtains ms1 merged fs new c where "apply_run s live config version ms manager ms1 merged fs new"
    "update s (Some live) new version (AList.update manager (NewVersionedSet fs version True) ms1) manager force = Inr (ms', c)"
    "obj = new \<or> obj = None \<and> \<not> returnInputOnNoop s \<and> (\<exists>x nv y. tv_value live = Some x \<and> new = Some nv \<and> tv_value nv = Some y \<and> Equals x y)"
  using assms
  by (auto simp: Updater_Apply_def apply_run_def Let_def merge_objects_def same_object_def split: sum.splits option.splits if_splits prod.splits)

lemma Apply_owns:
  assumes "Updater_ok m s" "TypedValue_ok m live" "TypedValue_ok m config" "managers_wf m ms"
    and "apply_run s live config version ms manager ms1 merged fs new"
    and "update s (Some live) new version (AList.update manager (NewVersionedSet fs version True) ms1) manager force = Inr (ms', c)"
  shows "managers_wf m ms'"
    and "map_of ms' k = Some v' \<Longrightarrow> \<not> Set_Empty (vset v') \<and> (k = manager \<longrightarrow> apiVersion v' = version \<and> applied v')"
    and "path_ok m p \<Longrightarrow> owns ms' manager p \<longleftrightarrow>
      (\<exists>r \<in> set (owned_by config). r \<noteq> [] \<and> Path_Equals r p) \<and> \<not> excluded (ignored s version) p"
    and "path_ok m p \<Longrightarrow> k \<noteq> manager \<Longrightarrow> owns ms' k p \<longleftrightarrow> (\<exists>v c'. map_of ms1 k = Some v \<and> Set_Has (vset v) p \<and>
        comparison_at s (Some live) new version (apiVersion v) = Inr (Some c') \<and> \<not> changed c' p)"
    and "\<not> force \<Longrightarrow> path_ok m p \<Longrightarrow> k \<noteq> manager \<Longrightarrow> map_of ms1 k = Some v \<Longrightarrow> Set_Has (vset v) p \<Longrightarrow>
      comparison_at s (Some live) new version (apiVersion v) = Inr (Some c') \<Longrightarrow> \<not> Set_Has (Modified c') p \<and> \<not> Set_Has (Added c') p"
proof -
  let ?ms2 = "AList.update manager (NewVersionedSet fs version True) ms1"
  have r: "reconcileManagedFieldsWithSchemaChanges s (Some live) ms = Inr ms1" "TypedValue_Merge live config = Inr merged"
    "(applied_set s (Some config) version :: 'a update_error + FieldSet) = Inr fs"
    "prune s (Some merged) ?ms2 manager (map_of ms1 manager) = Inr new"
    using assms(5) by (simp_all add: apply_run_def)
  have wf1: "managers_wf m ms1" using reconcile_all_wf [OF r(1) assms(4)] .
  note fs = applied_set_laws [OF assms(1,3) r(3)]
  have "Set_wf m (vset v)" if "map_of ?ms2 k = Some v" for k v
    using that fs(1) managers_wf_map_of [OF wf1] by (auto simp: update_conv' NewVersionedSet_def split: if_splits)
  then have wf2: "managers_wf m ?ms2"
    using wf1 by (auto simp: managers_wf_def list_all_iff distinct_update)
  have "TypedValue_ok m merged" using Merge_ok [OF assms(2,3) r(2)] .
  then have new: "pred_option (TypedValue_ok m) new" using prune_ok [OF assms(1) _ r(4)] by simp
  note u = update_owns [OF assms(1) _ new wf2 assms(6), simplified, OF assms(2)]
  show "managers_wf m ms'" by (fact u(1))
  show "\<not> Set_Empty (vset v') \<and> (k = manager \<longrightarrow> apiVersion v' = version \<and> applied v')" if "map_of ms' k = Some v'"
    using u(2) [OF that] by (auto simp: update_conv' NewVersionedSet_def)
  show "owns ms' manager p \<longleftrightarrow> (\<exists>r \<in> set (owned_by config). r \<noteq> [] \<and> Path_Equals r p) \<and> \<not> excluded (ignored s version) p" if "path_ok m p"
    using u(3) [OF that, of manager] fs(2) [OF that] by (simp add: update_conv' NewVersionedSet_def)
  show "owns ms' k p \<longleftrightarrow> (\<exists>v c'. map_of ms1 k = Some v \<and> Set_Has (vset v) p \<and>
        comparison_at s (Some live) new version (apiVersion v) = Inr (Some c') \<and> \<not> changed c' p)" if "path_ok m p" "k \<noteq> manager"
    using u(3) [OF that(1), of k] that(2) by (simp add: update_conv')
  show "\<not> Set_Has (Modified c') p \<and> \<not> Set_Has (Added c') p"
    if "\<not> force" "path_ok m p" "k \<noteq> manager" "map_of ms1 k = Some v" "Set_Has (vset v) p"
      "comparison_at s (Some live) new version (apiVersion v) = Inr (Some c')"
    using u(4) [of k v c' p] that by (simp add: update_conv')
qed

text \<open>The flag decides only whether the object is returned.\<close>

lemma flag_irrelevant:
  "reconcileManagedFieldsWithSchemaChanges (s\<lparr>returnInputOnNoop := b\<rparr>) = reconcileManagedFieldsWithSchemaChanges s"
  "update (s\<lparr>returnInputOnNoop := b\<rparr>) = update s" "prune (s\<lparr>returnInputOnNoop := b\<rparr>) = prune s" "applied_set (s\<lparr>returnInputOnNoop := b\<rparr>) = applied_set s"
proof -
  have ign: "ignored (s\<lparr>returnInputOnNoop := b\<rparr>) = ignored s" by (simp add: ignored_def fun_eq_iff)
  have conv: "UpdaterConverter (s\<lparr>returnInputOnNoop := b\<rparr>) = UpdaterConverter s" by simp
  have rs: "reconcile_step (s\<lparr>returnInputOnNoop := b\<rparr>) = reconcile_step s" unfolding reconcile_step_def conv ..
  show "reconcileManagedFieldsWithSchemaChanges (s\<lparr>returnInputOnNoop := b\<rparr>) = reconcileManagedFieldsWithSchemaChanges s"
    unfolding reconcileManagedFieldsWithSchemaChanges_def rs conv ..
  have vc: "versioned_compare (s\<lparr>returnInputOnNoop := b\<rparr>) = versioned_compare s" unfolding versioned_compare_def ign conv ..
  have us: "update_step (s\<lparr>returnInputOnNoop := b\<rparr>) = update_step s" unfolding update_step_def vc conv ..
  show "update (s\<lparr>returnInputOnNoop := b\<rparr>) = update s" unfolding update_def ign us conv ..
  have av: "addBackOwnedItemsForVersion (s\<lparr>returnInputOnNoop := b\<rparr>) = addBackOwnedItemsForVersion s"
    unfolding addBackOwnedItemsForVersion_def conv ..
  have ao: "addBackOwnedItems (s\<lparr>returnInputOnNoop := b\<rparr>) = addBackOwnedItems s" unfolding addBackOwnedItems_def av conv ..
  have ad: "addBackDanglingItems (s\<lparr>returnInputOnNoop := b\<rparr>) = addBackDanglingItems s" unfolding addBackDanglingItems_def conv ..
  show "prune (s\<lparr>returnInputOnNoop := b\<rparr>) = prune s" unfolding prune_def ao ad conv ..
  show "applied_set (s\<lparr>returnInputOnNoop := b\<rparr>) = applied_set s" unfolding applied_set_def ign conv ..
qed

lemma Apply_flag:
  "Updater_Apply (s\<lparr>returnInputOnNoop := False\<rparr>) (Some live) (Some config) version ms manager force =
     (case Updater_Apply (s\<lparr>returnInputOnNoop := True\<rparr>) (Some live) (Some config) version ms manager force of
        Inl e \<Rightarrow> Inl e
      | Inr (new, ms') \<Rightarrow> (case same_object (Some live) new of Inl e \<Rightarrow> Inl e | Inr same \<Rightarrow> Inr (if same then None else new, ms')))"
  unfolding Updater_Apply_def flag_irrelevant by (simp add: Let_def split: sum.splits prod.splits)

end
