(* ===== verification/Pruning.thy ===== *)
theory Pruning
  imports Struct_Fields Ownership
begin

text \<open>
  What \<^verbatim>\<open>prune\<close> does to the merged object.  In general it removes only items that are in the last applied set or named above
  one of its paths.  When the versions involved share one representation (the converter returns its argument), a
  scalar struct field stays if any manager owns it, and goes if it was applied last time and nobody owns it or
  anything below it.
\<close>

section \<open>The fields managed at a version\<close>

lemma managedAtVersion_map_of:
  "map_of (managedAtVersion ms) v =
     (let xs = map (vset \<circ> snd) (filter (\<lambda>e. apiVersion (snd e) = v) ms) in if xs = [] then None else Some (foldl Set_Union (NewSet []) xs))"
proof -
  let ?step = "\<lambda>(_ :: string, managerSet :: VersionedSet) at.
       let so_far = (case map_of at (apiVersion managerSet) of None \<Rightarrow> NewSet [] | Some x \<Rightarrow> x)
       in AList.update (apiVersion managerSet) (Set_Union so_far (vset managerSet)) at"
  have "map_of (fold ?step es at) v =
     (let xs = map (vset \<circ> snd) (filter (\<lambda>e. apiVersion (snd e) = v) es)
      in if xs = [] then map_of at v else Some (foldl Set_Union (case map_of at v of None \<Rightarrow> NewSet [] | Some x \<Rightarrow> x) xs))" for es at
    by (induction es arbitrary: at) (auto simp: Let_def update_conv' split: prod.splits)
  from this [of ms "[]"] show ?thesis by (simp add: managedAtVersion_def Let_def)
qed

lemma foldl_Union_laws:
  "Set_wf m s \<Longrightarrow> list_all (Set_wf m) xs \<Longrightarrow> Set_wf m (foldl Set_Union s xs) \<and>
    (\<forall>p. path_ok m p \<longrightarrow> Set_Has (foldl Set_Union s xs) p \<longleftrightarrow> Set_Has s p \<or> (\<exists>x \<in> set xs. Set_Has x p))"
proof (induction xs arbitrary: s)
  case (Cons x xs)
  have "Set_wf m (Set_Union s x)" using Cons.prems by (simp add: fs.wf_ops)
  with Cons show ?case by (auto simp: fs.has_ops [of m])
qed simp

lemma managedAtVersion_laws:
  assumes "managers_wf m ms" "map_of (managedAtVersion ms) v = Some s"
  shows "Set_wf m s"
    and "path_ok m p \<Longrightarrow> Set_Has s p \<longleftrightarrow> (\<exists>k x. map_of ms k = Some x \<and> apiVersion x = v \<and> Set_Has (vset x) p)"
proof -
  let ?xs = "map (vset \<circ> snd) (filter (\<lambda>e. apiVersion (snd e) = v) ms)"
  have s: "s = foldl Set_Union (NewSet []) ?xs"
    using assms(2) by (simp add: managedAtVersion_map_of Let_def split: if_splits)
  have "list_all (Set_wf m) ?xs" using assms(1) by (auto simp: managers_wf_def list_all_iff)
  note laws = foldl_Union_laws [OF NewSet_Nil_laws(1) this, folded s]
  show "Set_wf m s" using laws by blast
  have "distinct (map fst ms)" using assms(1) by (simp add: managers_wf_def)
  then show "path_ok m p \<Longrightarrow> Set_Has s p \<longleftrightarrow> (\<exists>k x. map_of ms k = Some x \<and> apiVersion x = v \<and> Set_Has (vset x) p)"
    using laws NewSet_Nil_laws(2) by (auto simp: bex_Un)
qed

lemma managedAtVersion_distinct: "distinct (map fst (managedAtVersion ms))"
proof -
  have "distinct (map fst at) \<Longrightarrow> distinct (map fst (fold (\<lambda>(_ :: string, managerSet :: VersionedSet) at.
       let so_far = (case map_of at (apiVersion managerSet) of None \<Rightarrow> NewSet [] | Some x \<Rightarrow> x)
       in AList.update (apiVersion managerSet) (Set_Union so_far (vset managerSet)) at) es at))" for es at
    by (induction es arbitrary: at) (auto simp: Let_def distinct_update)
  from this [of "[]" ms] show ?thesis by (simp add: managedAtVersion_def)
qed

lemma managedAtVersion_some: "map_of ms k = Some x \<Longrightarrow> map_of (managedAtVersion ms) (apiVersion x) \<noteq> None"
  by (force simp: managedAtVersion_map_of Let_def filter_empty_conv dest!: map_of_SomeD)

lemma managedAtVersion_version: "map_of (managedAtVersion ms) v = Some s \<Longrightarrow> v \<in> (apiVersion \<circ> snd) ` set ms"
  by (force simp: managedAtVersion_map_of Let_def filter_empty_conv split: if_splits)

section \<open>Only items of the last applied set are removed\<close>

lemma prune_unchanged:
  "lastSet = None \<or> Set_Empty (vset (the lastSet)) \<Longrightarrow> prune s merged ms manager lastSet = Inr merged"
  by (auto simp: prune_def split: option.splits)

text \<open>A removal that only concerns items of the last applied set, or named fields above them.\<close>

definition removes_last :: "num_mode \<Rightarrow> TypedValue \<Rightarrow> FieldSet \<Rightarrow> TypedValue option \<Rightarrow> bool" where
  "removes_last m tv lastSet pruned \<longleftrightarrow> pruned = Some tv \<or>
     (\<exists>items tv'. TypedValue_RemoveItems tv items = Inr tv' \<and> pruned = Some tv' \<and> Set_wf m items \<and>
       (\<forall>p. path_ok m p \<longrightarrow> Set_Has items p \<longrightarrow> Set_Has (ensure_named tv lastSet) p))"

lemma to_field_set_wf: "pred_option (TypedValue_ok m) p \<Longrightarrow> to_field_set p = Inr s \<Longrightarrow> Set_wf m s"
  by (auto simp: to_field_set_def split: option.splits sum.splits intro: ToFieldSet_any(1))

lemma addBackDanglingItems_items:
  fixes s :: "'e Updater"
  assumes "Updater_ok m s" "TypedValue_ok m tv" "pred_option (TypedValue_ok m) p" "Set_wf m (vset l)"
    and "addBackDanglingItems s (Some tv) p l = Inr pruned"
  shows "removes_last m tv (vset l) pruned"
proof (cases "pruned = Some tv")
  case False
  then obtain cp a b where cp: "convert s p (apiVersion l) = (cp, None)"
    "(to_field_set cp :: 'e update_error + FieldSet) = Inr b" "(to_field_set (Some tv) :: 'e update_error + FieldSet) = Inr a"
    "(remove_items (Some tv) (Set_Intersection (Set_Difference (ensure_named tv a) (ensure_named tv b)) (ensure_named tv (vset l)))
       :: 'e update_error + TypedValue option) = Inr pruned"
    using assms(5) by (auto simp: addBackDanglingItems_def split: prod.splits option.splits sum.splits if_splits)
  have "Set_wf m a" using to_field_set_wf [OF _ cp(3)] assms(2) by simp
  moreover have "Set_wf m b" using to_field_set_wf [OF _ cp(2)] convert_ok [OF assms(1,3), of "apiVersion l"] cp(1) by simp
  ultimately have wf: "Set_wf m (ensure_named tv a)" "Set_wf m (ensure_named tv b)" "Set_wf m (ensure_named tv (vset l))"
    using assms(4) by (simp_all add: ensure_named_def Set_Ensure_wf)
  let ?items = "Set_Intersection (Set_Difference (ensure_named tv a) (ensure_named tv b)) (ensure_named tv (vset l))"
  obtain tv' where "TypedValue_RemoveItems tv ?items = Inr tv'" "pruned = Some tv'"
    using cp(4) by (auto simp: remove_items_def split: sum.splits)
  moreover have "Set_wf m ?items" "\<forall>q. path_ok m q \<longrightarrow> Set_Has ?items q \<longrightarrow> Set_Has (ensure_named tv (vset l)) q"
    using wf by (simp_all add: fs.wf_ops fs.has_ops [of m])
  ultimately show ?thesis unfolding removes_last_def by blast
qed (simp add: removes_last_def)

lemma prune_shape:
  assumes "Updater_ok m s" "pred_option (TypedValue_ok m) merged" "pred_option (\<lambda>l. Set_wf m (vset l)) lastSet"
    and "prune s merged ms manager lastSet = Inr obj" "obj \<noteq> merged"
  shows "\<exists>l tv pruned v. lastSet = Some l \<and> convert s merged (apiVersion l) = (Some tv, None) \<and> removes_last m tv (vset l) pruned \<and>
    map_of ms manager = Some v \<and> convert s pruned (apiVersion v) = (obj, None)"
proof -
  obtain l tv p1 p2 p3 v where run: "lastSet = Some l" "convert s merged (apiVersion l) = (Some tv, None)" "map_of ms manager = Some v"
    "(remove_items (Some tv) (ensure_named tv (vset l)) :: 'a update_error + TypedValue option) = Inr p1"
    "addBackOwnedItems s (Some tv) p1 (apiVersion l) ms = Inr p2"
    "addBackDanglingItems s (Some tv) p2 l = Inr p3" "convert s p3 (apiVersion v) = (obj, None)"
    using assms(4,5) by (auto simp: prune_def split: option.splits prod.splits sum.splits if_splits)
  have tv: "TypedValue_ok m tv" using convert_ok [OF assms(1,2), of "apiVersion l"] run(2) by simp
  have "pred_option (TypedValue_ok m) p1" using remove_items_ok [OF _ run(4)] tv by simp
  then have "pred_option (TypedValue_ok m) p2" using addBackOwnedItems_ok [OF assms(1) _ _ run(5)] tv by simp
  then have "removes_last m tv (vset l) p3" using addBackDanglingItems_items [OF assms(1) tv _ _ run(6)] assms(3) run(1) by simp
  with run show ?thesis by blast
qed

section \<open>One representation for all versions\<close>

definition identity_at :: "'e Updater \<Rightarrow> APIVersion set \<Rightarrow> bool" where
  "identity_at s V \<longleftrightarrow> (\<forall>tv. \<forall>v \<in> V. convert s tv v = (tv, None))"

text \<open>The state of a pruned object \<open>p\<close> of the merged object \<open>M\<close>: same type and schema, well-formed, with a value.\<close>

definition pruned_of :: "num_mode \<Rightarrow> TypedValue \<Rightarrow> TypedValue option \<Rightarrow> bool" where
  "pruned_of m M p \<longleftrightarrow> (\<exists>w. p = Some (M\<lparr>tv_value := Some w\<rparr>) \<and> value_ok m w)"

lemma pruned_of_self: "TypedValue_ok m M \<Longrightarrow> tv_value M = Some v \<Longrightarrow> pruned_of m M (Some M)"
  by (auto simp: pruned_of_def TypedValue_ok_def intro!: exI [of _ v])

lemma remove_items_Some:
  assumes "TypedValue_ok m M" "tv_value M = Some v" "remove_items (Some M) items = Inr p"
  shows "pruned_of m M p" "TypedValue_RemoveItems M items = Inr (the p)" "p \<noteq> None"
  using assms remove_value_ok [of m v]
  by (auto simp: remove_items_def TypedValue_RemoveItems_def remove_or_extract_def pruned_of_def TypedValue_ok_def)

lemma pruned_of_sel:
  assumes "TypedValue_ok m M" "pruned_of m M p"
  shows "p \<noteq> None" "TypedValue_ok m (the p)" "tv_value (the p) \<noteq> None" "tv_schema (the p) = tv_schema M" "tv_typeRef (the p) = tv_typeRef M"
  using assms by (auto simp: pruned_of_def TypedValue_ok_def)

lemma field_type_cong:
  assumes "tv_schema q = tv_schema M" "tv_typeRef q = tv_typeRef M"
  shows "scalar_field q ks x = scalar_field M ks x" "tv_struct_type q ks = tv_struct_type M ks" "named_set q s = named_set M s"
    "ensure_named q s = ensure_named M s"
  using assms by (simp_all add: scalar_field_def tv_struct_type_def ensure_named_def cong: option.case_cong)

lemma to_field_set_Inr:
  assumes "TypedValue_ok m M" "pruned_of m M p" "to_field_set p = Inr s"
  shows "TypedValue_ToFieldSet (the p) = Inr s" "Set_wf m s"
proof -
  note sel = pruned_of_sel [OF assms(1,2)]
  show fs: "TypedValue_ToFieldSet (the p) = Inr s"
    using sel(1) assms(3) by (auto simp: to_field_set_def split: sum.splits)
  obtain w where "tv_value (the p) = Some w" using sel(3) by blast
  then show "Set_wf m s" using ToFieldSet_laws(1) [OF sel(2) _ fs] by blast
qed

text \<open>The struct fields on the way to a scalar field are in the set of an object that has it; the field is not in the set of one
  that lacks it.\<close>

lemma pruned_prefix:
  assumes "TypedValue_ok m M" "pruned_of m M p" "to_field_set p = Inr s" "scalar_field M ks x" "has_field (the p) ks x" "0 < i" "i \<le> length ks"
  shows "Set_Has (ensure_named M s) (take i (fields_path ks))"
proof -
  note sel = pruned_of_sel [OF assms(1,2)]
  note cong = field_type_cong [OF sel(4,5)]
  show ?thesis
    using field_set_has(2) [OF sel(2) to_field_set_Inr(1) [OF assms(1-3)] assms(5) _ assms(6,7)] assms(4)
    by (simp add: ensure_named_def cong(1,3))
qed

lemma pruned_lacks:
  assumes "TypedValue_ok m M" "pruned_of m M p" "to_field_set p = Inr s" "scalar_field M ks x" "lacks_field (the p) ks"
  shows "\<not> Set_Has (ensure_named M s) (fields_path ks)"
proof -
  note sel = pruned_of_sel [OF assms(1,2)]
  note cong = field_type_cong [OF sel(4,5)]
  have "tv_struct_type M ks \<noteq> None" using assms(4) by (auto simp: scalar_field_def split: option.splits)
  then show ?thesis
    using field_set_lacks [OF sel(2,3) to_field_set_Inr(1) [OF assms(1-3)] assms(5)] by (simp add: ensure_named_def cong(2,3))
qed

lemma ensure_named_owned:
  assumes "Set_wf m s" "scalar_field M ks x"
  shows "Set_Has s (fields_path ks) \<Longrightarrow> 0 < i \<Longrightarrow> i \<le> length ks \<Longrightarrow> Set_Has (ensure_named M s) (take i (fields_path ks))"
    and "Set_Has (ensure_named M s) (fields_path ks) \<Longrightarrow> \<exists>q. path_ok m q \<and> Set_Has s (fields_path ks @ q)"
proof -
  obtain tr where tr: "struct_type (schema_types (tv_schema M)) (tv_typeRef M) ks = Some tr"
    using assms(2) by (auto simp: scalar_field_def tv_struct_type_def split: option.splits)
  show "Set_Has (ensure_named M s) (take i (fields_path ks))" if "Set_Has s (fields_path ks)" "0 < i" "i \<le> length ks"
    unfolding ensure_named_def using ensure_named_prefix [OF assms(1) that(1) tr that(2,3)] .
  show "\<exists>q. path_ok m q \<and> Set_Has s (fields_path ks @ q)" if "Set_Has (ensure_named M s) (fields_path ks)"
    using that unfolding ensure_named_def Set_Ensure_Has [OF assms(1) fields_path_ok(1)]
    by (metis append_Nil2 list.pred_inject(1))
qed

lemma not_covers:
  assumes "\<And>i. 0 < i \<Longrightarrow> i \<le> length ks \<Longrightarrow> \<not> Set_Has s (take i (fields_path ks))"
  shows "\<not> Set_covers s (fields_path ks)"
  using assms unfolding Set_covers_def by (metis Set_Has.simps(1) gr0I length_map take0)

lemma Has_covers: "Set_Has s p \<Longrightarrow> Set_covers s p"
  unfolding Set_covers_def by (metis order_refl take_all_iff)

text \<open>A step that puts back what one version's managers own.\<close>

definition add_back_items :: "TypedValue \<Rightarrow> FieldSet \<Rightarrow> FieldSet \<Rightarrow> FieldSet \<Rightarrow> FieldSet" where
  "add_back_items M ms ps fs = Set_Difference (ensure_named M ms) (Set_Union (ensure_named M ps) (ensure_named M fs))"

lemma add_back_items_laws:
  assumes "Set_wf m ms" "Set_wf m ps" "Set_wf m fs"
  shows "Set_wf m (add_back_items M ms ps fs)"
    and "path_ok m q \<Longrightarrow> Set_Has (add_back_items M ms ps fs) q \<longleftrightarrow>
      Set_Has (ensure_named M ms) q \<and> \<not> Set_Has (ensure_named M ps) q \<and> \<not> Set_Has (ensure_named M fs) q"
  using assms Set_Ensure_wf [of m _ "schema_types (tv_schema M)" "tv_typeRef M"]
  by (simp_all add: add_back_items_def ensure_named_def fs.wf_ops fs.has_ops [of m])

lemma addBack_step:
  fixes s :: "'e Updater"
  assumes M: "TypedValue_ok m M" "tv_value M = Some v" "has_field M ks x" "scalar_field M ks x"
    and p: "pruned_of m M p" and fs: "Set_wf m fs"
    and id: "identity_at s V" "ver \<in> V"
    and run: "addBackOwnedItemsForVersion s (Some M) p ver fs = Inr (a, p')"
  shows "a = Some M \<and> pruned_of m M p'"
    and "has_field (the p) ks x \<or> Set_Has fs (fields_path ks) \<Longrightarrow> has_field (the p') ks x"
    and "lacks_field (the p) ks \<Longrightarrow> \<not> (\<exists>q. path_ok m q \<and> Set_Has fs (fields_path ks @ q)) \<Longrightarrow> lacks_field (the p') ks"
proof -
  obtain ms ps where sets: "(to_field_set (Some M) :: 'e update_error + FieldSet) = Inr ms" "(to_field_set p :: 'e update_error + FieldSet) = Inr ps"
    and a: "a = Some M" and rm: "(remove_items (Some M) (add_back_items M ms ps fs) :: 'e update_error + TypedValue option) = Inr p'"
    using run id by (auto simp: addBackOwnedItemsForVersion_def add_back_items_def identity_at_def split: sum.splits option.splits)
  note r = remove_items_Some [OF M(1,2) rm]
  show "a = Some M \<and> pruned_of m M p'" using a r(1) by blast
  have self: "pruned_of m M (Some M)" using pruned_of_self [OF M(1,2)] .
  have wf: "Set_wf m ms" "Set_wf m ps" using to_field_set_Inr(2) [OF M(1) self sets(1)] to_field_set_Inr(2) [OF M(1) p sets(2)] by simp_all
  note D = add_back_items_laws [OF wf fs, where M = M]
  note cov = remove_field [OF M(1) D(1) r(2) M(3,4)]
  show "has_field (the p') ks x" if "has_field (the p) ks x \<or> Set_Has fs (fields_path ks)"
  proof -
    have "\<not> Set_covers (add_back_items M ms ps fs) (fields_path ks)"
      using that D(2) [OF fields_path_ok(2)] pruned_prefix [OF M(1) p sets(2) M(4)] ensure_named_owned(1) [OF fs M(4)]
      by (intro not_covers) blast
    then show ?thesis using cov by simp
  qed
  show "lacks_field (the p') ks" if "lacks_field (the p) ks" "\<not> (\<exists>q. path_ok m q \<and> Set_Has fs (fields_path ks @ q))"
  proof -
    have "Set_Has (ensure_named M ms) (fields_path ks)"
      using pruned_prefix [OF M(1) self sets(1) M(4), of "length ks"] M(3,4) by (simp add: scalar_field_def split: option.splits)
    then have "Set_covers (add_back_items M ms ps fs) (fields_path ks)"
      using D(2) [OF fields_path_ok(1)] pruned_lacks [OF M(1) p sets(2) M(4) that(1)] ensure_named_owned(2) [OF fs M(4)] that(2)
      by (intro Has_covers) blast
    then show ?thesis using cov by simp
  qed
qed

lemma addBack_fold:
  assumes M: "TypedValue_ok m M" "tv_value M = Some v" "has_field M ks x" "scalar_field M ks x"
    and id: "identity_at s V"
    and run: "foldE (\<lambda>(ver, fs) (a, p). addBackOwnedItemsForVersion s a p ver fs) es (Some M, p) = Inr (a', p')"
    and es: "\<forall>(ver, fs) \<in> set es. ver \<in> V \<and> Set_wf m fs" and p: "pruned_of m M p"
  shows "a' = Some M \<and> pruned_of m M p'"
    and "has_field (the p) ks x \<or> (\<exists>(ver, fs) \<in> set es. Set_Has fs (fields_path ks)) \<Longrightarrow> has_field (the p') ks x"
    and "lacks_field (the p) ks \<Longrightarrow> \<not> (\<exists>(ver, fs) \<in> set es. \<exists>q. path_ok m q \<and> Set_Has fs (fields_path ks @ q)) \<Longrightarrow> lacks_field (the p') ks"
proof -
  have "(a' = Some M \<and> pruned_of m M p') \<and>
      (has_field (the p) ks x \<or> (\<exists>(ver, fs) \<in> set es. Set_Has fs (fields_path ks)) \<longrightarrow> has_field (the p') ks x) \<and>
      (lacks_field (the p) ks \<longrightarrow> \<not> (\<exists>(ver, fs) \<in> set es. \<exists>q. path_ok m q \<and> Set_Has fs (fields_path ks @ q)) \<longrightarrow> lacks_field (the p') ks)"
    using run es p
  proof (induction es arbitrary: p)
    case (Cons e es)
    obtain ver fs where e: "e = (ver, fs)" by (cases e)
    obtain a1 p1 where step: "addBackOwnedItemsForVersion s (Some M) p ver fs = Inr (a1, p1)"
      "foldE (\<lambda>(ver, fs) (a, p). addBackOwnedItemsForVersion s a p ver fs) es (a1, p1) = Inr (a', p')"
      using Cons.prems(1) by (auto simp: e split: sum.splits)
    have fs: "Set_wf m fs" "ver \<in> V" using Cons.prems(2) e by auto
    note st = addBack_step [OF M Cons.prems(3) fs(1) id fs(2) step(1)]
    have "\<forall>(ver, fs) \<in> set es. ver \<in> V \<and> Set_wf m fs" using Cons.prems(2) by simp
    with Cons.IH [of p1] step(2) st(1) have IH: "(a' = Some M \<and> pruned_of m M p') \<and>
      (has_field (the p1) ks x \<or> (\<exists>(ver, fs) \<in> set es. Set_Has fs (fields_path ks)) \<longrightarrow> has_field (the p') ks x) \<and>
      (lacks_field (the p1) ks \<longrightarrow> \<not> (\<exists>(ver, fs) \<in> set es. \<exists>q. path_ok m q \<and> Set_Has fs (fields_path ks @ q)) \<longrightarrow> lacks_field (the p') ks)"
      by simp
    have set_e: "(\<exists>z \<in> set (e # es). Q z) \<longleftrightarrow> Q (ver, fs) \<or> (\<exists>z \<in> set es. Q z)" for Q by (simp add: e)
    show ?case unfolding set_e prod.case using IH st(2,3) by blast
  qed simp
  then show "a' = Some M \<and> pruned_of m M p'"
    and "has_field (the p) ks x \<or> (\<exists>(ver, fs) \<in> set es. Set_Has fs (fields_path ks)) \<Longrightarrow> has_field (the p') ks x"
    and "lacks_field (the p) ks \<Longrightarrow> \<not> (\<exists>(ver, fs) \<in> set es. \<exists>q. path_ok m q \<and> Set_Has fs (fields_path ks @ q)) \<Longrightarrow> lacks_field (the p') ks"
    by blast+
qed

text \<open>The loop is over the sets of all versions, the version of the last applied set first.\<close>

lemma addBackOwnedItems_fold:
  assumes "addBackOwnedItems s a p ver ms = Inr p'"
  obtains es a' where "set es = set (managedAtVersion ms)"
    "foldE (\<lambda>(ver, fs) (a, p). addBackOwnedItemsForVersion s a p ver fs) es (a, p) = Inr (a', p')"
proof (cases "map_of (managedAtVersion ms) ver")
  case None
  then have "AList.delete ver (managedAtVersion ms) = managedAtVersion ms"
    by (simp add: map_of_eq_None_iff delete_idem)
  then show ?thesis using that [of "managedAtVersion ms"] assms None by (auto simp: addBackOwnedItems_def Let_def split: sum.splits)
next
  case (Some fs)
  let ?es = "(ver, fs) # AList.delete ver (managedAtVersion ms)"
  have "set ?es = set (managedAtVersion ms)"
    using Some managedAtVersion_distinct [of ms] by (auto simp: AList.delete_eq dest: map_of_SomeD eq_key_imp_eq_value)
  moreover obtain a' where "foldE (\<lambda>(ver, fs) (a, p). addBackOwnedItemsForVersion s a p ver fs) ?es (a, p) = Inr (a', p')"
    using assms Some by (auto simp: addBackOwnedItems_def Let_def split: sum.splits)
  ultimately show ?thesis by (rule that)
qed

section \<open>Pruning one field\<close>

lemma addBackDangling_step:
  fixes s :: "'e Updater"
  assumes M: "TypedValue_ok m M" "tv_value M = Some v" "has_field M ks x" "scalar_field M ks x"
    and p: "pruned_of m M p" and l: "Set_wf m (vset l)" and id: "identity_at s V" "apiVersion l \<in> V"
    and run: "addBackDanglingItems s (Some M) p l = Inr p'"
  shows "has_field (the p) ks x \<Longrightarrow> has_field (the p') ks x"
    and "lacks_field (the p) ks \<Longrightarrow> Set_Has (vset l) (fields_path ks) \<Longrightarrow> lacks_field (the p') ks"
    and "p' \<noteq> None"
proof -
  let ?D = "\<lambda>ms ps. Set_Intersection (Set_Difference (ensure_named M ms) (ensure_named M ps)) (ensure_named M (vset l))"
  obtain ms ps where sets: "(to_field_set (Some M) :: 'e update_error + FieldSet) = Inr ms" "(to_field_set p :: 'e update_error + FieldSet) = Inr ps"
    and rm: "(remove_items (Some M) (?D ms ps) :: 'e update_error + TypedValue option) = Inr p'"
    using run id by (auto simp: addBackDanglingItems_def identity_at_def split: sum.splits)
  note r = remove_items_Some [OF M(1,2) rm]
  show "p' \<noteq> None" by (fact r(3))
  have self: "pruned_of m M (Some M)" using pruned_of_self [OF M(1,2)] .
  have wf: "Set_wf m (ensure_named M ms)" "Set_wf m (ensure_named M ps)" "Set_wf m (ensure_named M (vset l))"
    using to_field_set_Inr(2) [OF M(1) self sets(1)] to_field_set_Inr(2) [OF M(1) p sets(2)] l
    by (simp_all add: ensure_named_def Set_Ensure_wf)
  have D: "Set_wf m (?D ms ps)" "\<And>q. path_ok m q \<Longrightarrow> Set_Has (?D ms ps) q \<longleftrightarrow>
      Set_Has (ensure_named M ms) q \<and> \<not> Set_Has (ensure_named M ps) q \<and> Set_Has (ensure_named M (vset l)) q"
    using wf by (simp_all add: fs.wf_ops fs.has_ops [of m])
  note cov = remove_field [OF M(1) D(1) r(2) M(3,4)]
  show "has_field (the p') ks x" if "has_field (the p) ks x"
  proof -
    have "\<not> Set_covers (?D ms ps) (fields_path ks)"
      using that D(2) [OF fields_path_ok(2)] pruned_prefix [OF M(1) p sets(2) M(4)] by (intro not_covers) blast
    then show ?thesis using cov by simp
  qed
  show "lacks_field (the p') ks" if "lacks_field (the p) ks" "Set_Has (vset l) (fields_path ks)"
  proof -
    have len: "0 < length ks" using M(4) by (simp add: scalar_field_def split: option.splits)
    have "Set_Has (ensure_named M ms) (fields_path ks)" "Set_Has (ensure_named M (vset l)) (fields_path ks)"
      using pruned_prefix [OF M(1) self sets(1) M(4) _ len] ensure_named_owned(1) [OF l M(4) that(2) len] M(3) by simp_all
    then have "Set_covers (?D ms ps) (fields_path ks)"
      using D(2) [OF fields_path_ok(1)] pruned_lacks [OF M(1) p sets(2) M(4) that(1)] by (intro Has_covers) blast
    then show ?thesis using cov by simp
  qed
qed

lemma prune_field:
  assumes M: "TypedValue_ok m M" "tv_value M = Some v" "has_field M ks x" "scalar_field M ks x"
    and ms: "managers_wf m ms" "map_of ms manager \<noteq> None" and l: "Set_wf m (vset l)" "\<not> Set_Empty (vset l)"
    and id: "identity_at s (insert (apiVersion l) ((apiVersion \<circ> snd) ` set ms))"
    and run: "prune s (Some M) ms manager (Some l) = Inr obj"
  shows "\<exists>k. owns ms k (fields_path ks) \<Longrightarrow> \<exists>tv. obj = Some tv \<and> has_field tv ks x"
    and "Set_Has (vset l) (fields_path ks) \<Longrightarrow> \<not> (\<exists>k q. path_ok m q \<and> owns ms k (fields_path ks @ q)) \<Longrightarrow>
      \<exists>tv. obj = Some tv \<and> lacks_field tv ks"
proof -
  let ?V = "insert (apiVersion l) ((apiVersion \<circ> snd) ` set ms)"
  obtain mv where mv: "map_of ms manager = Some mv" using ms(2) by blast
  have V: "convert s tv (apiVersion l) = (tv, None)" "convert s tv (apiVersion mv) = (tv, None)" for tv
    using id map_of_SomeD [OF mv] by (force simp: identity_at_def)+
  obtain p1 p2 where steps: "(remove_items (Some M) (ensure_named M (vset l)) :: 'a update_error + TypedValue option) = Inr p1"
    "addBackOwnedItems s (Some M) p1 (apiVersion l) ms = Inr p2" "addBackDanglingItems s (Some M) p2 l = Inr obj"
    using run l(2) by (auto simp: prune_def V mv split: sum.splits)
  note r = remove_items_Some [OF M(1,2) steps(1)]
  obtain es a' where es: "set es = set (managedAtVersion ms)"
    "foldE (\<lambda>(ver, fs) (a, p). addBackOwnedItemsForVersion s a p ver fs) es (Some M, p1) = Inr (a', p2)"
    using steps(2) by (rule addBackOwnedItems_fold)
  have entry: "map_of (managedAtVersion ms) ver = Some fs" if "(ver, fs) \<in> set es" for ver fs
    using that es(1) managedAtVersion_distinct [of ms] by simp
  have es_ok: "\<forall>(ver, fs) \<in> set es. ver \<in> ?V \<and> Set_wf m fs"
    using managedAtVersion_laws(1) [OF ms(1) entry] managedAtVersion_version [OF entry] by auto
  have es_has: "(\<exists>(ver, fs) \<in> set es. Set_Has fs p) \<longleftrightarrow> (\<exists>k. owns ms k p)" if "path_ok m p" for p
  proof
    assume "\<exists>(ver, fs) \<in> set es. Set_Has fs p"
    then show "\<exists>k. owns ms k p" using managedAtVersion_laws(2) [OF ms(1) entry that] unfolding owns_def by blast
  next
    assume "\<exists>k. owns ms k p"
    then obtain k y where y: "map_of ms k = Some y" "Set_Has (vset y) p" by (auto simp: owns_def)
    obtain fs where fs: "map_of (managedAtVersion ms) (apiVersion y) = Some fs" using managedAtVersion_some [OF y(1)] by blast
    then have "Set_Has fs p" using managedAtVersion_laws(2) [OF ms(1) fs that] y by blast
    then show "\<exists>(ver, fs) \<in> set es. Set_Has fs p" using map_of_SomeD [OF fs] es(1) by blast
  qed
  note f = addBack_fold [OF M id es(2) es_ok r(1)]
  have p2: "pruned_of m M p2" using f(1) by blast
  note d = addBackDangling_step [OF M p2 l(1) id insertI1 steps(3)]
  show "\<exists>tv. obj = Some tv \<and> has_field tv ks x" if "\<exists>k. owns ms k (fields_path ks)"
    using d(1,3) f(2) that es_has [OF fields_path_ok(1)] by auto
  show "\<exists>tv. obj = Some tv \<and> lacks_field tv ks"
    if "Set_Has (vset l) (fields_path ks)" "\<not> (\<exists>k q. path_ok m q \<and> owns ms k (fields_path ks @ q))"
  proof -
    have "0 < length ks" using M(4) by (simp add: scalar_field_def split: option.splits)
    then have "Set_covers (ensure_named M (vset l)) (fields_path ks)"
      using ensure_named_owned(1) [OF l(1) M(4) that(1), of "length ks"] by (intro Has_covers) simp
    then have "lacks_field (the p1) ks"
      using remove_field [OF M(1) _ r(2) M(3,4)] l(1) by (simp add: ensure_named_def Set_Ensure_wf)
    moreover have "\<not> (\<exists>(ver, fs) \<in> set es. \<exists>q. path_ok m q \<and> Set_Has fs (fields_path ks @ q))"
    proof
      assume "\<exists>(ver, fs) \<in> set es. \<exists>q. path_ok m q \<and> Set_Has fs (fields_path ks @ q)"
      then obtain q where "path_ok m q" "\<exists>(ver, fs) \<in> set es. Set_Has fs (fields_path ks @ q)" by auto
      then show False using es_has [of "fields_path ks @ q"] that(2) by auto
    qed
    ultimately show ?thesis using d(2,3) f(3) that(1) by auto
  qed
qed

end
