(* ===== verification/Merged_Fields.thy ===== *)
theory Merged_Fields
  imports Pruning
begin

text \<open>
  The scalar struct fields of a merged object, and of the object that \<^verbatim>\<open>Apply\<close> returns: a field of the applied
  configuration has the configuration's value, and a field the configuration leaves out keeps its live value, unless
  it is pruned.
\<close>

section \<open>Merging maps, with any left-hand side\<close>

lemma zip_out_map_of:
  assumes "pred_option (\<lambda>l. distinct (map fst l)) lhs" "pred_option (\<lambda>l. distinct (map fst l)) rhs"
  shows "map_of (fold (\<lambda>e out. case entry_out rec w t e of None \<Rightarrow> out | Some x \<Rightarrow> AList.update (fst e) x out) (zip_entries lhs rhs) []) k =
    (if map_Get lhs k = None \<and> map_Get rhs k = None then None else entry_out rec w t (k, map_Get lhs k, map_Get rhs k))"
proof -
  let ?es = "zip_entries lhs rhs"
  note es = zip_entries_map_of [OF assms]
  have "map_of ?es k = (if map_Get lhs k = None \<and> map_Get rhs k = None then None else Some (map_Get lhs k, map_Get rhs k))"
  proof (cases "map_of ?es k")
    case None
    then have "(k, map_Get lhs k, map_Get rhs k) \<notin> set ?es" by (metis map_of_eq_None_iff fst_conv image_eqI)
    then show ?thesis using None es(2) by auto
  next
    case (Some lr)
    then have "(k, fst lr, snd lr) \<in> set ?es" by (simp add: map_of_SomeD)
    then show ?thesis using Some es(2) [of k "fst lr" "snd lr"] by (cases lr) auto
  qed
  then show ?thesis
    by (subst fold_entries [OF es(1), where g = "\<lambda>k lr. entry_out rec w t (k, lr)"]) (auto simp: update_conv' split: option.splits)
qed

text \<open>The value that decides how the walker treats its operands is the right-hand one, or else the left-hand one.\<close>

lemma merge_walk_out:
  assumes "Resolve sc (mw_typeRef w) = Some a" "(if mw_rhs w = None then mw_lhs w else mw_rhs w) = Some v"
  shows "snd (merge_walk sc ruleKeepRHS None w p) =
    snd (merge_handle (\<lambda>w2 p. merge_walk sc ruleKeepRHS None w2 p) sc ruleKeepRHS w (deduceAtom a (Some v)))"
  using assms by (subst merge_walk.simps) (auto simp: Let_def split_beta split: if_splits)

lemma merge_map_entry:
  assumes "Resolve sc (mw_typeRef w) = Some a" "Atom_Map a = Some t" "Map_ElementRelationship t \<noteq> Atomic"
    and "(if mw_rhs w = None then mw_lhs w else mw_rhs w) = Some (VMap kvs)"
    and "pred_option (value_ok m) (mw_lhs w)" "pred_option (value_ok m) (mw_rhs w)"
    and "map_Get (derefMap (mw_lhs w)) k \<noteq> None \<or> map_Get (derefMap (mw_rhs w)) k \<noteq> None"
    and "mw_out (snd (merge_walk sc ruleKeepRHS None
           (entry_walker w t k (map_Get (derefMap (mw_lhs w)) k) (map_Get (derefMap (mw_rhs w)) k)) (Some (pe_field k)))) = Some z"
  shows "\<exists>out. mw_out (snd (merge_walk sc ruleKeepRHS None w p)) = Some (VMap out) \<and> map_of out k = Some z"
proof -
  let ?R = "\<lambda>w2 p. merge_walk sc ruleKeepRHS None w2 p"
  let ?l = "derefMap (mw_lhs w)" and ?r = "derefMap (mw_rhs w)"
  have dist: "pred_option (\<lambda>l. distinct (map fst l)) ?l" "pred_option (\<lambda>l. distinct (map fst l)) ?r"
    using derefMap_ok [OF assms(5)] derefMap_ok [OF assms(6)] by (auto elim: option.pred_mono_strong)
  define out where "out = fold (\<lambda>e out. case entry_out ?R w t e of None \<Rightarrow> out | Some x \<Rightarrow> AList.update (fst e) x out) (zip_entries ?l ?r) []"
  have k: "map_of out k = Some z"
    unfolding out_def zip_out_map_of [OF dist] using assms(7,8) by (auto simp: entry_out_def)
  then have "out \<noteq> []" by auto
  moreover have "merge_doMap ?R ruleKeepRHS w t = merge_visitMapItems ?R w t ?l ?r"
    using assms(3,7) by (auto simp: merge_doMap_def Let_def map_Get_def)
  ultimately have "mw_out (snd (?R w p)) = Some (VMap out)"
    unfolding merge_walk_out [OF assms(1,4)]
    using assms(2) by (simp add: merge_handle_def deduceAtom_handle merge_visitMapItems_fold Let_def out_def [symmetric])
  with k show ?thesis by blast
qed

section \<open>Scalar fields of a merge\<close>

definition valid_scalar :: "TypeDef list \<Rightarrow> TypeRef \<Rightarrow> Value \<Rightarrow> bool" where
  "valid_scalar sc tr x \<longleftrightarrow> x \<noteq> VNull \<and> (\<exists>a t. Resolve sc tr = Some a \<and> Atom_Scalar a = Some t \<and> scalar_ok t x)"

lemma valid_scalar_at: "valid_scalar sc tr x \<Longrightarrow> scalar_at sc tr x"
  by (auto simp: valid_scalar_def scalar_at_def scalar_ok_def)

lemma merge_walk_scalar:
  assumes "valid_scalar sc (mw_typeRef w) x" "mw_rhs w = Some x \<or> mw_rhs w = None \<and> mw_lhs w = Some x" "\<not> mw_inLeaf w"
  shows "mw_out (snd (merge_walk sc ruleKeepRHS None w p)) = Some x"
proof -
  obtain a t where t: "Resolve sc (mw_typeRef w) = Some a" "Atom_Scalar a = Some t" "scalar_ok t x" "x \<noteq> VNull"
    using assms(1) by (auto simp: valid_scalar_def)
  have "is_float x \<or> is_int x \<or> is_string x \<or> is_bool x" using t(3,4) by (auto simp: scalar_ok_def)
  moreover have "validateScalar t (Some x) = []" using t(3,4) validateScalar_iff [of x t] by (cases x) auto
  moreover have "(if mw_rhs w = None then mw_lhs w else mw_rhs w) = Some x" using assms(2) by auto
  ultimately show ?thesis
    using assms(2,3) t(1,2)
    by (subst merge_walk_out) (auto simp: merge_handle_def deduceAtom_handle merge_doScalar_def merge_doLeaf_def ruleKeepRHS_def split: option.splits)
qed

text \<open>A field that is missing from a value because one of the maps on the way has no such key.\<close>

fun absent_field :: "Value \<Rightarrow> string list \<Rightarrow> bool" where
  "absent_field v [] = False"
| "absent_field v (k # ks) = (is_map v \<and> (case map_of (AsMap v) k of None \<Rightarrow> True | Some x \<Rightarrow> absent_field x ks))"

lemma absent_lookup: "absent_field v ks \<Longrightarrow> lookup_fields v ks = None"
  by (induction v ks rule: absent_field.induct) (auto split: option.splits)

lemma derefMap_VMap [simp]: "derefMap (Some (VMap kvs)) = Some kvs" "derefMap None = None"
  by (simp_all add: derefMap_def mapValue_def or_nil_def)

lemma lookup_fields_Cons:
  assumes "lookup_fields v (k # ks) = Some x"
  obtains kvs y where "v = VMap kvs" "map_of kvs k = Some y" "lookup_fields y ks = Some x"
  using assms by (cases v) (auto split: option.splits)

lemma merge_field:
  "struct_type sc (mw_typeRef w) ks = Some tr \<Longrightarrow> valid_scalar sc tr x \<Longrightarrow> \<not> mw_inLeaf w \<Longrightarrow>
    pred_option (value_ok m) (mw_lhs w) \<Longrightarrow> pred_option (value_ok m) (mw_rhs w) \<Longrightarrow>
    (case mw_rhs w of
       Some v \<Rightarrow> lookup_fields v ks = Some x \<or> absent_field v ks \<and> (\<exists>u. mw_lhs w = Some u \<and> lookup_fields u ks = Some x)
     | None \<Rightarrow> \<exists>u. mw_lhs w = Some u \<and> lookup_fields u ks = Some x) \<Longrightarrow>
    \<exists>out. mw_out (snd (merge_walk sc ruleKeepRHS None w p)) = Some out \<and> lookup_fields out ks = Some x"
proof (induction ks arbitrary: w p)
  case Nil
  then show ?case using merge_walk_scalar [of sc w x p] by (auto split: option.splits)
next
  case (Cons k ks)
  obtain a t f where t: "Resolve sc (mw_typeRef w) = Some a" "Atom_Map a = Some t" "Map_ElementRelationship t \<noteq> Atomic"
    "struct_type sc (field_typeref t k) ks = Some tr"
    using Cons.prems(1) by (rule struct_type_Cons)
  let ?l = "map_Get (derefMap (mw_lhs w)) k" and ?r = "map_Get (derefMap (mw_rhs w)) k"
  let ?w = "entry_walker w t k ?l ?r"
  have left: "\<exists>kvs y. mw_lhs w = Some (VMap kvs) \<and> ?l = Some y \<and> lookup_fields y ks = Some x"
    if "\<exists>u. mw_lhs w = Some u \<and> lookup_fields u (k # ks) = Some x"
    using that by (auto elim!: lookup_fields_Cons simp: map_Get_def simp del: lookup_fields.simps)
  have right: "\<exists>kvs y. mw_rhs w = Some (VMap kvs) \<and> ?r = Some y \<and> lookup_fields y ks = Some x"
    if "mw_rhs w = Some v" "lookup_fields v (k # ks) = Some x" for v
    using that by (auto elim!: lookup_fields_Cons simp: map_Get_def simp del: lookup_fields.simps)
  have miss: "\<exists>kvs. mw_rhs w = Some (VMap kvs) \<and> (?r = None \<or> (\<exists>y. ?r = Some y \<and> absent_field y ks))"
    if "mw_rhs w = Some v" "absent_field v (k # ks)" for v
    using that by (cases v) (auto simp: map_Get_def split: option.splits)
  let ?left = "\<exists>u. mw_lhs w = Some u \<and> lookup_fields u (k # ks) = Some x"
  let ?op = "case ?r of Some v \<Rightarrow> lookup_fields v ks = Some x \<or> absent_field v ks \<and> (\<exists>u. ?l = Some u \<and> lookup_fields u ks = Some x)
     | None \<Rightarrow> \<exists>u. ?l = Some u \<and> lookup_fields u ks = Some x"
  let ?top = "\<exists>kvs. (if mw_rhs w = None then mw_lhs w else mw_rhs w) = Some (VMap kvs)"
  consider "mw_rhs w = None" ?left | v where "mw_rhs w = Some v" "lookup_fields v (k # ks) = Some x"
    | v where "mw_rhs w = Some v" "absent_field v (k # ks)" ?left
    using Cons.prems(6) by (auto simp del: lookup_fields.simps absent_field.simps split: option.splits)
  then have "?op \<and> ?top"
  proof cases
    case 1
    then show ?thesis using left by (auto simp del: lookup_fields.simps)
  next
    case (2 v)
    then show ?thesis using right [OF 2] by auto
  next
    case (3 v)
    obtain kvs y where "mw_lhs w = Some (VMap kvs)" "?l = Some y" "lookup_fields y ks = Some x" using left [OF 3(3)] by blast
    then show ?thesis using miss [OF 3(1,2)] by auto
  qed
  then have operand: ?op and top: ?top by blast+
  have "\<exists>z. mw_out (snd (merge_walk sc ruleKeepRHS None ?w (Some (pe_field k)))) = Some z \<and> lookup_fields z ks = Some x"
    using Cons.prems(2,3) t(4) operand derefMap_Get_ok [OF Cons.prems(4)] derefMap_Get_ok [OF Cons.prems(5)]
    by (intro Cons.IH) (simp_all add: merge_prepareDescent_def cong: option.case_cong)
  then obtain z where z: "mw_out (snd (merge_walk sc ruleKeepRHS None ?w (Some (pe_field k)))) = Some z" "lookup_fields z ks = Some x" by blast
  have "?l \<noteq> None \<or> ?r \<noteq> None" using operand by (auto split: option.splits)
  with top obtain out where "mw_out (snd (merge_walk sc ruleKeepRHS None w p)) = Some (VMap out)" "map_of out k = Some z"
    using merge_map_entry [OF t(1-3) _ Cons.prems(4,5) _ z(1), of _ p] by blast
  with z(2) show ?case by simp
qed

section \<open>Leaf fields of a merge\<close>

text \<open>Above the field the value has maps or nulls, as far as it goes.\<close>

fun on_maps :: "Value \<Rightarrow> string list \<Rightarrow> bool" where
  "on_maps v [] = True"
| "on_maps v (k # ks) = (is_null v \<or> is_map v \<and> (case map_of (AsMap v) k of None \<Rightarrow> True | Some x \<Rightarrow> on_maps x ks))"

lemma on_maps_Get: "pred_option (\<lambda>v. on_maps v (k # ks)) x \<Longrightarrow> pred_option (\<lambda>v. on_maps v ks) (map_Get (derefMap x) k)"
proof (cases x)
  case (Some v)
  assume "pred_option (\<lambda>v. on_maps v (k # ks)) x"
  then show ?thesis using Some by (cases v) (auto simp: map_Get_def derefMap_def mapValue_def or_nil_def split: option.splits)
qed (simp add: map_Get_def)

lemma merge_walk_leaf:
  assumes "Resolve sc (mw_typeRef w) = Some a" "(if mw_rhs w = None then mw_lhs w else mw_rhs w) = Some v" "leaf_value a v" "\<not> mw_inLeaf w"
  shows "mw_out (snd (merge_walk sc ruleKeepRHS None w p)) = Some v"
proof -
  have leaf: "mw_out (merge_doLeaf ruleKeepRHS w) = Some v"
    using assms(2,4) by (auto simp: merge_doLeaf_def ruleKeepRHS_def split: if_splits option.splits)
  have "snd (merge_handle (\<lambda>w2 p. merge_walk sc ruleKeepRHS None w2 p) sc ruleKeepRHS w (deduceAtom a (Some v))) = merge_doLeaf ruleKeepRHS w"
    using assms(3) unfolding leaf_value_def
  proof (elim disjE exE conjE)
    fix t assume t: "Atom_Scalar a = Some t" "scalar_ok t v" "v \<noteq> VNull"
    then have "validateScalar t (Some v) = []" "is_float v \<or> is_int v \<or> is_string v \<or> is_bool v"
      using validateScalar_iff [of v t] by (auto simp: scalar_ok_def)
    moreover have "validateScalar t (mw_lhs w) = [] \<or> validateScalar t (mw_rhs w) = []"
      using assms(2) calculation(1) by (auto split: if_splits)
    ultimately show ?thesis by (auto simp: merge_handle_def deduceAtom_handle t(1) merge_doScalar_def Let_def)
  next
    fix t assume "Atom_List a = Some t" "List_ElementRelationship t = Atomic" "is_list v"
    then show ?thesis by (cases v) (auto simp: merge_handle_def deduceAtom_handle merge_doList_def Let_def)
  next
    fix t assume "Atom_Map a = Some t" "Map_ElementRelationship t = Atomic" "is_map v"
    then show ?thesis by (cases v) (auto simp: merge_handle_def deduceAtom_handle merge_doMap_def Let_def)
  qed
  then show ?thesis using merge_walk_out [OF assms(1,2)] leaf by simp
qed

text \<open>One level of maps: the entry of the result is the result of the entries.\<close>

lemma merge_walk_entry:
  assumes "Resolve sc (mw_typeRef w) = Some a" "Atom_Map a = Some t" "Map_ElementRelationship t \<noteq> Atomic" "mw_out w = None" "\<not> mw_inLeaf w"
    and "pred_option (value_ok m) (mw_lhs w)" "pred_option (value_ok m) (mw_rhs w)"
    and "pred_option (\<lambda>v. is_null v \<or> is_map v) (mw_lhs w)" "pred_option (\<lambda>v. is_null v \<or> is_map v) (mw_rhs w)"
  shows "map_Get (derefMap (mw_out (snd (merge_walk sc ruleKeepRHS None w p)))) k =
    mw_out (snd (merge_walk sc ruleKeepRHS None (entry_walker w t k (map_Get (derefMap (mw_lhs w)) k) (map_Get (derefMap (mw_rhs w)) k)) (Some (pe_field k))))"
proof (cases "mw_lhs w = None \<and> mw_rhs w = None")
  case True
  then show ?thesis using assms(4) by (simp add: merge_walk.simps map_Get_def merge_prepareDescent_def)
next
  case False
  let ?R = "\<lambda>w2 p. merge_walk sc ruleKeepRHS None w2 p" and ?l = "derefMap (mw_lhs w)" and ?r = "derefMap (mw_rhs w)"
  obtain v where v: "(if mw_rhs w = None then mw_lhs w else mw_rhs w) = Some v" "is_null v \<or> is_map v" using False assms(8,9) by (cases "mw_rhs w"; cases "mw_lhs w") auto
  have dist: "pred_option (\<lambda>l. distinct (map fst l)) ?l" "pred_option (\<lambda>l. distinct (map fst l)) ?r"
    using derefMap_ok [OF assms(6)] derefMap_ok [OF assms(7)] by (auto elim: option.pred_mono_strong)
  have none: "mw_out (snd (merge_walk sc ruleKeepRHS None (entry_walker w t k None None) q)) = None" for q
    by (simp add: merge_walk.simps merge_prepareDescent_def)
  have run: "snd (?R w p) = snd (merge_doMap ?R ruleKeepRHS w t)"
    using v(2) assms(2) unfolding merge_walk_out [OF assms(1) v(1)] by (cases v) (auto simp: merge_handle_def deduceAtom_def handleAtom_def)
  show ?thesis
  proof (cases "(?l = None \<or> ?l = Some []) \<and> (?r = None \<or> ?r = Some [])")
    case True
    then have "mw_out (snd (?R w p)) = Some v"
      using v(1) assms(5) run by (auto simp: merge_doMap_def Let_def merge_doLeaf_def ruleKeepRHS_def split: if_splits option.splits)
    moreover have "map_Get (derefMap (Some v)) k = None" using v True by (auto simp: map_Get_def split: if_splits)
    ultimately show ?thesis using True none by (auto simp: map_Get_def)
  next
    case False
    define out where "out = fold (\<lambda>e out. case entry_out ?R w t e of None \<Rightarrow> out | Some x \<Rightarrow> AList.update (fst e) x out) (zip_entries ?l ?r) []"
    have "mw_out (snd (?R w p)) = (if out = [] then None else Some (VMap out))"
      using False assms(3,4) run by (auto simp: merge_doMap_def Let_def merge_visitMapItems_fold out_def [symmetric])
    moreover have "map_of out k = (if map_Get ?l k = None \<and> map_Get ?r k = None then None else entry_out ?R w t (k, map_Get ?l k, map_Get ?r k))"
      unfolding out_def by (rule zip_out_map_of [OF dist])
    ultimately show ?thesis using none by (auto simp: map_Get_def entry_out_def)
  qed
qed

lemma merge_lookup:
  "granular_type sc (mw_typeRef w) ks = Some tr \<Longrightarrow> Resolve sc tr = Some a \<Longrightarrow> \<not> mw_inLeaf w \<Longrightarrow> mw_out w = None \<Longrightarrow>
    pred_option (value_ok m) (mw_lhs w) \<Longrightarrow> pred_option (value_ok m) (mw_rhs w) \<Longrightarrow>
    pred_option (\<lambda>v. on_maps v ks) (mw_lhs w) \<Longrightarrow> pred_option (\<lambda>v. on_maps v ks) (mw_rhs w) \<Longrightarrow>
    pred_option (leaf_value a) (lookup_side (mw_lhs w) ks) \<Longrightarrow> pred_option (leaf_value a) (lookup_side (mw_rhs w) ks) \<Longrightarrow>
    lookup_side (mw_out (snd (merge_walk sc ruleKeepRHS None w p))) ks =
      (case lookup_side (mw_rhs w) ks of Some y \<Rightarrow> Some y | None \<Rightarrow> lookup_side (mw_lhs w) ks)"
proof (induction ks arbitrary: w p)
  case Nil
  have id: "lookup_side x [] = x" for x by (simp add: lookup_side_def)
  show ?case
  proof (cases "if mw_rhs w = None then mw_lhs w else mw_rhs w")
    case None
    then show ?thesis using Nil.prems(4) by (simp add: id merge_walk.simps split: if_splits)
  next
    case (Some v)
    then have "leaf_value a v" using Nil.prems(9,10) by (auto simp: id split: if_splits)
    then have "mw_out (snd (merge_walk sc ruleKeepRHS None w p)) = Some v"
      using Nil.prems(1-3) Some by (intro merge_walk_leaf) auto
    then show ?thesis using Some by (auto simp: id split: if_splits option.splits)
  qed
next
  case (Cons k ks)
  obtain b t where t: "Resolve sc (mw_typeRef w) = Some b" "Atom_Map b = Some t" "Map_ElementRelationship t \<noteq> Atomic"
    "granular_type sc (field_typeref t k) ks = Some tr"
    using Cons.prems(1) by (auto split: option.splits if_splits)
  let ?l = "map_Get (derefMap (mw_lhs w)) k" and ?r = "map_Get (derefMap (mw_rhs w)) k"
  have shape: "pred_option (\<lambda>v. is_null v \<or> is_map v) x" if "pred_option (\<lambda>v. on_maps v (k # ks)) x" for x
    using that by (cases x) auto
  have "lookup_side (mw_out (snd (merge_walk sc ruleKeepRHS None (entry_walker w t k ?l ?r) (Some (pe_field k))))) ks =
      (case lookup_side ?r ks of Some y \<Rightarrow> Some y | None \<Rightarrow> lookup_side ?l ks)"
    using Cons.IH [of "entry_walker w t k ?l ?r"] Cons.prems(2,3,9,10) t(4) on_maps_Get [OF Cons.prems(7)] on_maps_Get [OF Cons.prems(8)]
      derefMap_Get_ok [OF Cons.prems(5)] derefMap_Get_ok [OF Cons.prems(6)]
    by (simp add: merge_prepareDescent_def lookup_side_Cons cong: option.case_cong)
  then show ?case
    unfolding lookup_side_Cons merge_walk_entry [OF t(1-3) Cons.prems(4,3,5,6) shape [OF Cons.prems(7)] shape [OF Cons.prems(8)]] .
qed

section \<open>The fields of the object that Apply returns\<close>

definition struct_scalar :: "TypedValue \<Rightarrow> string list \<Rightarrow> Value \<Rightarrow> bool" where
  "struct_scalar tv ks x \<longleftrightarrow> ks \<noteq> [] \<and> (\<exists>tr. tv_struct_type tv ks = Some tr \<and> valid_scalar (schema_types (tv_schema tv)) tr x)"

lemma struct_scalar_field: "struct_scalar tv ks x \<Longrightarrow> scalar_field tv ks x"
  using valid_scalar_at by (auto simp: struct_scalar_def scalar_field_def)

lemma Merge_field:
  assumes "TypedValue_ok m live" "TypedValue_ok m config" "TypedValue_Merge live config = Inr merged" "struct_scalar live ks x"
    and "has_field config ks x \<or> has_field live ks x \<and> (\<exists>u. tv_value config = Some u \<and> absent_field u ks)"
  shows "has_field merged ks x" "tv_schema merged = tv_schema live" "tv_typeRef merged = tv_typeRef live"
proof -
  let ?w = "\<lparr>mw_lhs = tv_value live, mw_rhs = tv_value config, mw_typeRef = tv_typeRef live, mw_path = [], mw_out = None, mw_inLeaf = False\<rparr>"
  obtain tr where tr: "struct_type (schema_types (tv_schema live)) (tv_typeRef live) ks = Some tr" "valid_scalar (schema_types (tv_schema live)) tr x"
    using assms(4) by (auto simp: struct_scalar_def tv_struct_type_def)
  have "\<exists>out. mw_out (snd (merge_walk (schema_types (tv_schema live)) ruleKeepRHS None ?w None)) = Some out \<and> lookup_fields out ks = Some x"
    using tr assms(1,2,5)
    by (intro merge_field [where m = m and tr = tr]) (auto simp: TypedValue_ok_def has_field_def split: option.splits)
  then show "has_field merged ks x" "tv_schema merged = tv_schema live" "tv_typeRef merged = tv_typeRef live"
    using assms(3) by (auto simp: TypedValue_Merge_def merge_def has_field_def split: prod.splits if_splits)
qed

text \<open>The versions of the managers of an \<^verbatim>\<open>Apply\<close>.\<close>

definition apply_versions :: "APIVersion \<Rightarrow> ManagedFields \<Rightarrow> APIVersion set" where
  "apply_versions version ms = insert version ((apiVersion \<circ> snd) ` set ms)"

lemma update_versions: "(apiVersion \<circ> snd) ` set (AList.update k v ms) \<subseteq> apply_versions (apiVersion v) ms"
  by (auto simp: apply_versions_def dest: update_entries)

lemma identity_at_mono: "identity_at s V \<Longrightarrow> W \<subseteq> V \<Longrightarrow> identity_at s W"
  by (auto simp: identity_at_def)

lemma apply_prune_field:
  assumes "Updater_ok m s" "TypedValue_ok m live" "TypedValue_ok m config" "managers_wf m ms"
    and run: "apply_run s live config version ms manager ms1 merged fs new"
    and id: "identity_at s (apply_versions version ms1)"
    and field: "struct_scalar live ks x"
      "has_field config ks x \<or> has_field live ks x \<and> (\<exists>u. tv_value config = Some u \<and> absent_field u ks)"
  shows "Set_Has fs (fields_path ks) \<or> (\<exists>k. k \<noteq> manager \<and> owns ms1 k (fields_path ks)) \<or> map_of ms1 manager = None \<Longrightarrow>
      \<exists>tv. new = Some tv \<and> has_field tv ks x"
    and "owns ms1 manager (fields_path ks) \<Longrightarrow> \<not> (\<exists>q. path_ok m q \<and> Set_Has fs (fields_path ks @ q)) \<Longrightarrow>
      \<not> (\<exists>k q. k \<noteq> manager \<and> path_ok m q \<and> owns ms1 k (fields_path ks @ q)) \<Longrightarrow> \<exists>tv. new = Some tv \<and> lacks_field tv ks"
proof -
  let ?v = "NewVersionedSet fs version True"
  let ?ms2 = "AList.update manager ?v ms1"
  have r: "reconcileManagedFieldsWithSchemaChanges s (Some live) ms = Inr ms1" "TypedValue_Merge live config = Inr merged"
    "(applied_set s (Some config) version :: 'a update_error + FieldSet) = Inr fs"
    "prune s (Some merged) ?ms2 manager (map_of ms1 manager) = Inr new"
    using run by (simp_all add: apply_run_def)
  have ok: "TypedValue_ok m merged" using Merge_ok [OF assms(2,3) r(2)] .
  note mf = Merge_field [OF assms(2,3) r(2) field]
  obtain v where v: "tv_value merged = Some v" using mf(1) by (auto simp: has_field_def)
  have sf: "scalar_field merged ks x" using field_type_cong(1) [OF mf(2,3)] struct_scalar_field [OF field(1)] by simp
  have wf1: "managers_wf m ms1" using reconcile_all_wf [OF r(1) assms(4)] .
  have "Set_wf m (vset y)" if "map_of ?ms2 k = Some y" for k y
    using that applied_set_laws(1) [OF assms(1,3) r(3)] managers_wf_map_of [OF wf1]
    by (auto simp: update_conv' NewVersionedSet_def split: if_splits)
  then have wf2: "managers_wf m ?ms2" using wf1 by (auto simp: managers_wf_def list_all_iff distinct_update)
  have own2: "owns ?ms2 k p \<longleftrightarrow> (if k = manager then Set_Has fs p else owns ms1 k p)" for k p
    by (simp add: owns_def update_conv' NewVersionedSet_def)
  have ident: "identity_at s (insert (apiVersion l) ((apiVersion \<circ> snd) ` set ?ms2))" if "map_of ms1 manager = Some l" for l
    using id map_of_SomeD [OF that] update_versions [of manager ?v ms1]
    by (elim identity_at_mono) (force simp: apply_versions_def NewVersionedSet_def)
  show "\<exists>tv. new = Some tv \<and> has_field tv ks x"
    if o: "Set_Has fs (fields_path ks) \<or> (\<exists>k. k \<noteq> manager \<and> owns ms1 k (fields_path ks)) \<or> map_of ms1 manager = None"
  proof (cases "map_of ms1 manager = None \<or> Set_Empty (vset (the (map_of ms1 manager)))")
    case True
    then show ?thesis using r(4) prune_unchanged [of "map_of ms1 manager" s] mf(1) by auto
  next
    case False
    then obtain l where l: "map_of ms1 manager = Some l" "\<not> Set_Empty (vset l)" by auto
    have owner: "\<exists>k. owns ?ms2 k (fields_path ks)" using o own2 l(1) by (metis option.distinct(1))
    show ?thesis
      using prune_field(1) [OF ok v mf(1) sf wf2 _ managers_wf_map_of [OF wf1 l(1)] l(2) ident [OF l(1)] r(4) [unfolded l(1)]] owner
      by (simp add: update_conv')
  qed
  show "\<exists>tv. new = Some tv \<and> lacks_field tv ks"
    if o: "owns ms1 manager (fields_path ks)" "\<not> (\<exists>q. path_ok m q \<and> Set_Has fs (fields_path ks @ q))"
      "\<not> (\<exists>k q. k \<noteq> manager \<and> path_ok m q \<and> owns ms1 k (fields_path ks @ q))"
  proof -
    obtain l where l: "map_of ms1 manager = Some l" "Set_Has (vset l) (fields_path ks)" using o(1) by (auto simp: owns_def)
    have wfl: "Set_wf m (vset l)" using managers_wf_map_of [OF wf1 l(1)] .
    have ne: "\<not> Set_Empty (vset l)" using l(2) fs.empty_iff [OF wfl] fields_path_ok(1) by blast
    have nobody: "\<not> (\<exists>k q. path_ok m q \<and> owns ?ms2 k (fields_path ks @ q))" using o(2,3) own2 by metis
    show ?thesis
      using prune_field(2) [OF ok v mf(1) sf wf2 _ wfl ne ident [OF l(1)] r(4) [unfolded l(1)] l(2) nobody] by (simp add: update_conv')
  qed
qed

end
