(* ===== verification/Parsing.thy ===== *)
theory Parsing
  imports Typed_Values
begin

text \<open>
  \<^verbatim>\<open>typed/parser.go\<close> and \<^verbatim>\<open>schema/schemaschema.go\<close>: parsers, which pair a schema with a type and make typed values,
  the schema of schemas, and the type that is deduced from the value.  YAML decoding is a library: decoders
  are arguments.  The two schemas the code writes as YAML text are given as the schema the text denotes, by the
  field tags of \<^verbatim>\<open>schema/elements.go\<close>.
\<close>

section \<open>Parsers\<close>

type_synonym YAMLObject = string

record Parser =
  Parser_Schema :: SchemaPtr

record ParseableType =
  pt_TypeRef :: TypeRef
  pt_Schema :: SchemaPtr

definition Parser_Type :: "Parser \<Rightarrow> string \<Rightarrow> ParseableType" where
  "Parser_Type p name = \<lparr>pt_TypeRef = MkTypeRef (Some name) Atom_zero None, pt_Schema = Parser_Schema p\<rparr>"

definition TypeNames :: "Parser \<Rightarrow> string list" where
  "TypeNames p = map fst (schema_types (Parser_Schema p))"

definition IsValid :: "ParseableType \<Rightarrow> bool" where
  "IsValid p \<longleftrightarrow> Resolve (schema_types (pt_Schema p)) (pt_TypeRef p) \<noteq> None"

datatype 'y parse_error =
    Bad_YAML 'y
  | Invalid_Object ValidationErrors
  | Invalid_Schema "'y parse_error"

text \<open>\<^verbatim>\<open>value.NewValueInterface\<close> of a decoded object: the object as a value, nil as the null value.\<close>

definition FromUnstructured :: "ParseableType \<Rightarrow> Value \<Rightarrow> ValidationOptions list \<Rightarrow> ValidationErrors + TypedValue" where
  "FromUnstructured p v opts = AsTyped (Some v) (pt_Schema p) (pt_TypeRef p) opts"

definition FromYAML ::
  "(YAMLObject \<Rightarrow> 'y + Value) \<Rightarrow> ParseableType \<Rightarrow> YAMLObject \<Rightarrow> ValidationOptions list \<Rightarrow> 'y parse_error + TypedValue" where
  "FromYAML yaml p object opts =
     (case yaml object of
        Inl err \<Rightarrow> Inl (Bad_YAML err)
      | Inr v \<Rightarrow> (case AsTyped (Some v) (pt_Schema p) (pt_TypeRef p) opts of Inl errs \<Rightarrow> Inl (Invalid_Object errs) | Inr tv \<Rightarrow> Inr tv))"

text \<open>\<^verbatim>\<open>create\<close> returns the parser and the error of the decoder; the address is the one \<^verbatim>\<open>p.Schema\<close> gets.\<close>

definition create :: "(YAMLObject \<Rightarrow> TypeDef list \<times> 'y option) \<Rightarrow> nat \<Rightarrow> YAMLObject \<Rightarrow> Parser \<times> 'y option" where
  "create yaml_schema addr s =
     (case yaml_schema s of (types, err) \<Rightarrow> (\<lparr>Parser_Schema = \<lparr>schema_address = addr, schema_types = types\<rparr>\<rparr>, err))"

text \<open>\<open>None\<close> is a panic.\<close>

definition createOrDie :: "(YAMLObject \<Rightarrow> TypeDef list \<times> 'y option) \<Rightarrow> nat \<Rightarrow> YAMLObject \<Rightarrow> Parser option" where
  "createOrDie yaml_schema addr s =
     (case create yaml_schema addr s of (p, None) \<Rightarrow> Some p | (_, Some err) \<Rightarrow> None)"

section \<open>The schema of schemas\<close>

definition text_scalar :: "Scalar \<Rightarrow> TypeRef" where
  "text_scalar s = MkTypeRef None (MkAtom (Some s) None None) None"

definition text_named :: "string \<Rightarrow> TypeRef" where
  "text_named n = MkTypeRef (Some n) Atom_zero None"

definition text_list :: "TypeRef \<Rightarrow> ElementRelationship \<Rightarrow> string list \<Rightarrow> TypeRef" where
  "text_list et er ks = MkTypeRef None (MkAtom None (Some (MkList et er ks)) None) None"

definition text_struct :: "(string \<times> TypeRef) list \<Rightarrow> Atom" where
  "text_struct fs = MkAtom None None (Some (MkMap (map (\<lambda>(n, t). MkField n t VNull) fs) [] TypeRef_zero []))"

definition text_untyped_atomic :: Atom where
  "text_untyped_atomic =
     MkAtom (Some Untyped) (Some (MkList (text_named ''__untyped_atomic_'') Atomic []))
       (Some (MkMap [] [] (text_named ''__untyped_atomic_'') Atomic))"

definition SchemaSchemaYAML :: "TypeDef list" where
  "SchemaSchemaYAML =
     [(''schema'', text_struct [(''types'', text_list (text_named ''typeDef'') Associative [''name''])]),
      (''typeDef'', text_struct
         [(''name'', text_scalar String), (''scalar'', text_scalar String), (''map'', text_named ''map''),
          (''list'', text_named ''list''), (''untyped'', text_named ''untyped'')]),
      (''typeRef'', text_struct
         [(''namedType'', text_scalar String), (''scalar'', text_scalar String), (''map'', text_named ''map''),
          (''list'', text_named ''list''), (''untyped'', text_named ''untyped''), (''elementRelationship'', text_scalar String)]),
      (''scalar'', MkAtom (Some String) None None),
      (''map'', text_struct
         [(''fields'', text_list (text_named ''structField'') Associative [''name'']),
          (''unions'', text_list (text_named ''union'') Atomic []),
          (''elementType'', text_named ''typeRef''), (''elementRelationship'', text_scalar String)]),
      (''unionField'', text_struct [(''fieldName'', text_scalar String), (''discriminatorValue'', text_scalar String)]),
      (''union'', text_struct
         [(''discriminator'', text_scalar String), (''deduceInvalidDiscriminator'', text_scalar Boolean),
          (''fields'', text_list (text_named ''unionField'') Associative [''fieldName''])]),
      (''structField'', text_struct
         [(''name'', text_scalar String), (''type'', text_named ''typeRef''), (''default'', text_named ''__untyped_atomic_'')]),
      (''list'', text_struct
         [(''elementType'', text_named ''typeRef''), (''elementRelationship'', text_scalar String),
          (''keys'', text_list (text_scalar String) Atomic [])]),
      (''untyped'', text_struct [(''elementRelationship'', text_scalar String)]),
      (''__untyped_atomic_'', text_untyped_atomic)]"

text \<open>The same text as the object a YAML decoder makes of it.\<close>

definition SchemaSchema_document :: Value where
  "SchemaSchema_document =
     VMap
     [(''types'', VList
       [VMap
        [(''name'', VString ''schema''),
         (''map'', VMap
          [(''fields'', VList
            [VMap
             [(''name'', VString ''types''),
              (''type'', VMap
               [(''list'', VMap
                 [(''elementRelationship'', VString ''associative''),
                  (''elementType'', VMap [(''namedType'', VString ''typeDef'')]),
                  (''keys'', VList [VString ''name''])])])]])])],
        VMap
        [(''name'', VString ''typeDef''),
         (''map'', VMap
          [(''fields'', VList
            [VMap [(''name'', VString ''name''), (''type'', VMap [(''scalar'', VString ''string'')])],
             VMap [(''name'', VString ''scalar''), (''type'', VMap [(''scalar'', VString ''string'')])],
             VMap [(''name'', VString ''map''), (''type'', VMap [(''namedType'', VString ''map'')])],
             VMap [(''name'', VString ''list''), (''type'', VMap [(''namedType'', VString ''list'')])],
             VMap [(''name'', VString ''untyped''), (''type'', VMap [(''namedType'', VString ''untyped'')])]])])],
        VMap
        [(''name'', VString ''typeRef''),
         (''map'', VMap
          [(''fields'', VList
            [VMap [(''name'', VString ''namedType''), (''type'', VMap [(''scalar'', VString ''string'')])],
             VMap [(''name'', VString ''scalar''), (''type'', VMap [(''scalar'', VString ''string'')])],
             VMap [(''name'', VString ''map''), (''type'', VMap [(''namedType'', VString ''map'')])],
             VMap [(''name'', VString ''list''), (''type'', VMap [(''namedType'', VString ''list'')])],
             VMap [(''name'', VString ''untyped''), (''type'', VMap [(''namedType'', VString ''untyped'')])],
             VMap [(''name'', VString ''elementRelationship''), (''type'', VMap [(''scalar'', VString ''string'')])]])])],
        VMap [(''name'', VString ''scalar''), (''scalar'', VString ''string'')],
        VMap
        [(''name'', VString ''map''),
         (''map'', VMap
          [(''fields'', VList
            [VMap
             [(''name'', VString ''fields''),
              (''type'', VMap
               [(''list'', VMap
                 [(''elementType'', VMap [(''namedType'', VString ''structField'')]),
                  (''elementRelationship'', VString ''associative''),
                  (''keys'', VList [VString ''name''])])])],
             VMap
             [(''name'', VString ''unions''),
              (''type'', VMap
               [(''list'', VMap
                 [(''elementType'', VMap [(''namedType'', VString ''union'')]),
                  (''elementRelationship'', VString ''atomic'')])])],
             VMap [(''name'', VString ''elementType''), (''type'', VMap [(''namedType'', VString ''typeRef'')])],
             VMap [(''name'', VString ''elementRelationship''), (''type'', VMap [(''scalar'', VString ''string'')])]])])],
        VMap
        [(''name'', VString ''unionField''),
         (''map'', VMap
          [(''fields'', VList
            [VMap [(''name'', VString ''fieldName''), (''type'', VMap [(''scalar'', VString ''string'')])],
             VMap [(''name'', VString ''discriminatorValue''), (''type'', VMap [(''scalar'', VString ''string'')])]])])],
        VMap
        [(''name'', VString ''union''),
         (''map'', VMap
          [(''fields'', VList
            [VMap [(''name'', VString ''discriminator''), (''type'', VMap [(''scalar'', VString ''string'')])],
             VMap
             [(''name'', VString ''deduceInvalidDiscriminator''),
              (''type'', VMap [(''scalar'', VString ''boolean'')])],
             VMap
             [(''name'', VString ''fields''),
              (''type'', VMap
               [(''list'', VMap
                 [(''elementRelationship'', VString ''associative''),
                  (''elementType'', VMap [(''namedType'', VString ''unionField'')]),
                  (''keys'', VList [VString ''fieldName''])])])]])])],
        VMap
        [(''name'', VString ''structField''),
         (''map'', VMap
          [(''fields'', VList
            [VMap [(''name'', VString ''name''), (''type'', VMap [(''scalar'', VString ''string'')])],
             VMap [(''name'', VString ''type''), (''type'', VMap [(''namedType'', VString ''typeRef'')])],
             VMap [(''name'', VString ''default''), (''type'', VMap [(''namedType'', VString ''__untyped_atomic_'')])]])])],
        VMap
        [(''name'', VString ''list''),
         (''map'', VMap
          [(''fields'', VList
            [VMap [(''name'', VString ''elementType''), (''type'', VMap [(''namedType'', VString ''typeRef'')])],
             VMap [(''name'', VString ''elementRelationship''), (''type'', VMap [(''scalar'', VString ''string'')])],
             VMap
             [(''name'', VString ''keys''),
              (''type'', VMap
               [(''list'', VMap
                 [(''elementType'', VMap [(''scalar'', VString ''string'')]),
                  (''elementRelationship'', VString ''atomic'')])])]])])],
        VMap
        [(''name'', VString ''untyped''),
         (''map'', VMap
          [(''fields'', VList
            [VMap [(''name'', VString ''elementRelationship''), (''type'', VMap [(''scalar'', VString ''string'')])]])])],
        VMap
        [(''name'', VString ''__untyped_atomic_''),
         (''scalar'', VString ''untyped''),
         (''list'', VMap
          [(''elementType'', VMap [(''namedType'', VString ''__untyped_atomic_'')]),
           (''elementRelationship'', VString ''atomic'')]),
         (''map'', VMap
          [(''elementType'', VMap [(''namedType'', VString ''__untyped_atomic_'')]),
           (''elementRelationship'', VString ''atomic'')])]])]"

definition ssParser :: "nat \<Rightarrow> Parser" where
  "ssParser addr = \<lparr>Parser_Schema = \<lparr>schema_address = addr, schema_types = SchemaSchemaYAML\<rparr>\<rparr>"

definition NewParser ::
  "(YAMLObject \<Rightarrow> 'y + Value) \<Rightarrow> (YAMLObject \<Rightarrow> TypeDef list \<times> 'y option) \<Rightarrow> nat \<Rightarrow> nat \<Rightarrow> YAMLObject \<Rightarrow> 'y parse_error + Parser" where
  "NewParser yaml yaml_schema ss_addr addr schema =
     (case FromYAML yaml (Parser_Type (ssParser ss_addr) ''schema'') schema [] of
        Inl err \<Rightarrow> Inl (Invalid_Schema err)
      | Inr _ \<Rightarrow> (case create yaml_schema addr schema of (p, None) \<Rightarrow> Inr p | (_, Some err) \<Rightarrow> Inl (Bad_YAML err)))"

section \<open>The deduced type\<close>

definition deduced_types :: "TypeDef list" where
  "deduced_types =
     [(''__untyped_atomic_'', text_untyped_atomic),
      (''__untyped_deduced_'',
         MkAtom (Some Untyped) (Some (MkList (text_named ''__untyped_atomic_'') Atomic []))
           (Some (MkMap [] [] (text_named ''__untyped_deduced_'') Separable)))]"

definition DeducedParseableType :: "nat \<Rightarrow> ParseableType" where
  "DeducedParseableType addr =
     Parser_Type \<lparr>Parser_Schema = \<lparr>schema_address = addr, schema_types = deduced_types\<rparr>\<rparr> ''__untyped_deduced_''"

text \<open>A value without Go values of other kinds.\<close>

fun plain :: "Value \<Rightarrow> bool" where
  "plain VOther = False"
| "plain (VList xs) = list_all plain xs"
| "plain (VMap kvs) = list_all (\<lambda>kv. plain (snd kv)) kvs"
| "plain _ = True"

lemma deduced_resolve:
  "Resolve deduced_types (text_named ''__untyped_atomic_'') = Some text_untyped_atomic"
  "Resolve deduced_types (text_named ''__untyped_deduced_'') =
     Some (MkAtom (Some Untyped) (Some (MkList (text_named ''__untyped_atomic_'') Atomic []))
       (Some (MkMap [] [] (text_named ''__untyped_deduced_'') Separable)))"
  by code_simp+

lemma no_fields: "FindField (MkMap [] us et er) k = None"
  by (simp add: FindField_def index_by_def)

lemma conforms_anything:
  assumes "Resolve sc tr = Some (MkAtom (Some Untyped) (Some (MkList te Atomic [])) (Some (MkMap [] [] tm er)))"
    and "\<And>x. x \<in> children (Some v) \<Longrightarrow> conforms sc dup te x \<and> conforms sc dup tm x" and "tm \<noteq> TypeRef_zero" "v \<noteq> VOther"
  shows "conforms sc dup tr v"
proof (cases v)
  case VNull
  then show ?thesis using assms(1) by (auto simp: Atom_zero_def intro: conforms_null)
next
  case (VList xs)
  then show ?thesis using assms by (auto simp: children_def intro!: conforms_list)
next
  case (VMap kvs)
  have "field_typeref (MkMap [] [] tm er) k = tm" for k by (simp add: field_typeref_def no_fields)
  then show ?thesis using assms VMap by (auto simp: children_def rev_image_eqI intro!: conforms_map)
qed (use assms(1,4) in \<open>auto simp: scalar_ok_def intro!: conforms_scalar\<close>)

lemma plain_children: "plain v \<Longrightarrow> x \<in> children (Some v) \<Longrightarrow> plain x"
  by (cases v) (auto simp: children_def list_all_iff)

lemma deduced_conforms:
  "plain v \<Longrightarrow> conforms deduced_types dup (text_named ''__untyped_atomic_'') v \<and> conforms deduced_types dup (text_named ''__untyped_deduced_'') v"
proof (induction v rule: measure_induct_rule [of size])
  case (less v)
  have IH: "conforms deduced_types dup (text_named ''__untyped_atomic_'') x \<and> conforms deduced_types dup (text_named ''__untyped_deduced_'') x"
    if "x \<in> children (Some v)" for x
    using that less.IH children_size [OF that] plain_children [OF less.prems that] by simp
  have "v \<noteq> VOther" "text_named n \<noteq> TypeRef_zero" for n using less.prems by (auto simp: text_named_def TypeRef_zero_def)
  then show ?case
    using IH deduced_resolve
    by (intro conjI conforms_anything [where te = "text_named ''__untyped_atomic_''" and v = v]) (auto simp: text_untyped_atomic_def)
qed


lemma schema_address_irrelevant:
  "isl (FromUnstructured (Parser_Type (ssParser a) n) v opts) = isl (FromUnstructured (Parser_Type (ssParser b) n) v opts)"
  by (simp add: FromUnstructured_def AsTyped_def TypedValue_Validate_def Parser_Type_def ssParser_def Let_def split: option.splits)

lemma self_validates: "\<not> isl (FromUnstructured (Parser_Type (ssParser addr) ''schema'') SchemaSchema_document [])"
proof -
  have "\<not> isl (FromUnstructured (Parser_Type (ssParser 0) ''schema'') SchemaSchema_document [])" by code_simp
  then show ?thesis using schema_address_irrelevant [of addr "''schema''" SchemaSchema_document "[]" 0] by simp
qed

end
