(* ===== verification/Test_State.thy ===== *)
theory Test_State
  imports Updater Parsing
begin

text \<open>
  \<^verbatim>\<open>internal/fixture/state.go\<close>: the state machine around the updater, with a live object, its managers and a parser, the
  operations on it and test cases that run them.  Decoding YAML and printing a difference are libraries and
  arguments here.  An operation returns the new state and its error, because a failed one may have
  changed the live object.
\<close>

section \<open>State\<close>

datatype ('e, 'y) state_error =
    Panics
  | Empty_Object_Failed ValidationErrors
  | Convert_Failed 'e
  | Updater_Failed "'e update_error"
  | Parse_Failed "'y parse_error"
  | Unexpected_Conflicts Conflicts Conflicts
  | Different_Extract_Version APIVersion APIVersion
  | Merge_Failed ValidationErrors
  | New_Schema_Failed ValidationErrors
  | Operation_Failed nat "('e, 'y) state_error"
  | Compare_Live_Failed "('e, 'y) state_error"
  | Different_Object string
  | Different_Managers ManagedFields
  | Empty_Set_Of string

type_synonym version_parser = "string \<Rightarrow> ParseableType"

definition SameVersionParser :: "ParseableType \<Rightarrow> version_parser" where
  "SameVersionParser t = (\<lambda>_. t)"

definition DeducedParser :: "nat \<Rightarrow> version_parser" where
  "DeducedParser addr = SameVersionParser (DeducedParseableType addr)"

record 'e State =
  Live :: "TypedValue option"
  StateParser :: version_parser
  StateManagers :: ManagedFields
  StateUpdater :: "'e Updater"

section \<open>YAML with tabs\<close>

text \<open>\<^verbatim>\<open>bytes.Split\<close> at newlines and \<^verbatim>\<open>bytes.Join\<close>.\<close>

fun split_lines :: "string \<Rightarrow> string list" where
  "split_lines [] = [[]]"
| "split_lines (c # cs) =
     (if c = CHR 0x0A then [] # split_lines cs
      else case split_lines cs of [] \<Rightarrow> [[c]] | l # ls \<Rightarrow> (c # l) # ls)"

fun join_lines :: "string list \<Rightarrow> string" where
  "join_lines [] = []"
| "join_lines [l] = l"
| "join_lines (l # ls) = l @ CHR 0x0A # join_lines ls"

lemma split_lines_nonempty: "split_lines doc \<noteq> []"
  by (induction doc) (auto split: list.splits)

lemma join_split: "join_lines (split_lines doc) = doc"
proof (induction doc)
  case (Cons c cs)
  obtain l ls where "split_lines cs = l # ls" using split_lines_nonempty [of cs] by (cases "split_lines cs") auto
  then show ?case using Cons by (cases ls) auto
qed simp

lemma split_lines_no_newline: "l \<in> set (split_lines doc) \<Longrightarrow> CHR 0x0A \<notin> set l"
proof (induction doc arbitrary: l)
  case (Cons c cs)
  obtain l' ls where "split_lines cs = l' # ls" using split_lines_nonempty [of cs] by (cases "split_lines cs") auto
  then show ?case using Cons by (auto split: if_splits)
qed simp

lemma split_line: "CHR 0x0A \<notin> set l \<Longrightarrow> split_lines l = [l]"
  by (induction l) auto

lemma split_line_rest: "CHR 0x0A \<notin> set l \<Longrightarrow> split_lines (l @ CHR 0x0A # doc) = l # split_lines doc"
  by (induction l) auto

lemma split_join: "ls \<noteq> [] \<Longrightarrow> \<forall>l \<in> set ls. CHR 0x0A \<notin> set l \<Longrightarrow> split_lines (join_lines ls) = ls"
  by (induction ls rule: join_lines.induct) (auto simp: split_line split_line_rest)

text \<open>\<^verbatim>\<open>bytes.TrimSpace(line) == nil\<close>: only white space, in UTF-8.\<close>

fun only_space :: "nat list \<Rightarrow> bool" where
  "only_space [] = True"
| "only_space (b # bs) =
     (if b < 128 then b \<in> {9, 10, 11, 12, 13, 32} \<and> only_space bs
      else case bs of
        [] \<Rightarrow> False
      | c # cs \<Rightarrow>
          if b = 0xC2 then c \<in> {0x85, 0xA0} \<and> only_space cs
          else case cs of
            [] \<Rightarrow> False
          | d # ds \<Rightarrow>
              (b, c, d) \<in> {(0xE1, 0x9A, 0x80), (0xE2, 0x80, 0xA8), (0xE2, 0x80, 0xA9), (0xE2, 0x80, 0xAF), (0xE2, 0x81, 0x9F),
                (0xE3, 0x80, 0x80)} \<and> only_space ds
              \<or> b = 0xE2 \<and> c = 0x80 \<and> 0x80 \<le> d \<and> d \<le> 0x8A \<and> only_space ds)"

text \<open>The loop over the lines; \<open>None\<close> is a panic.\<close>

fun cut_prefix :: "string \<Rightarrow> string list \<Rightarrow> string list option" where
  "cut_prefix prefix [] = Some []"
| "cut_prefix prefix (line # rest) =
     (if rest = [] \<and> length line \<le> length prefix \<and> only_space (map of_char line) then Some [[]]
      else if take (length prefix) line \<noteq> prefix then None
      else map_option ((#) (drop (length prefix) line)) (cut_prefix prefix rest))"

definition FixTabsOrDie :: "YAMLObject \<Rightarrow> YAMLObject option" where
  "FixTabsOrDie doc =
     (let lines0 = split_lines doc;
          lines = (if length (hd lines0) = 0 \<and> length lines0 > 1 then tl lines0 else lines0);
          prefix = takeWhile (\<lambda>c. c = CHR 0x09) (hd lines)
      in map_option join_lines (cut_prefix prefix lines))"

text \<open>A text indented by \<open>n\<close> tabs loses them again.\<close>

definition indent :: "nat \<Rightarrow> string \<Rightarrow> string" where
  "indent n doc = join_lines (map ((@) (replicate n (CHR 0x09))) (split_lines doc))"

lemma cut_prefix_indent: "cut_prefix prefix (map ((@) prefix) ls) = Some ls"
  by (induction ls) (auto simp: Let_def)

lemma indent_lines: "split_lines (indent n doc) = map ((@) (replicate n (CHR 0x09))) (split_lines doc)"
  unfolding indent_def
  using split_lines_nonempty [of doc] split_lines_no_newline [of _ doc] by (intro split_join) auto

lemma FixTabs_indent:
  assumes "\<And>cs. hd (split_lines doc) \<noteq> CHR 0x09 # cs"
  shows "FixTabsOrDie (CHR 0x0A # indent n doc) = Some doc"
proof -
  let ?pre = "replicate n (CHR 0x09)"
  have "split_lines (CHR 0x0A # indent n doc) = [] # map ((@) ?pre) (split_lines doc)" by (simp add: indent_lines)
  moreover have "takeWhile (\<lambda>c. c = CHR 0x09) (hd (map ((@) ?pre) (split_lines doc))) = ?pre"
    using assms split_lines_nonempty [of doc]
    by (cases "hd (split_lines doc)") (auto simp: hd_map takeWhile_append)
  ultimately show ?thesis
    using split_lines_nonempty [of doc] cut_prefix_indent [of ?pre "split_lines doc"] join_split [of doc]
    by (simp add: FixTabsOrDie_def Let_def)
qed

section \<open>Operations on the state\<close>

definition checkInit :: "'e State \<Rightarrow> APIVersion \<Rightarrow> 'e State \<times> ('e, 'y) state_error option" where
  "checkInit s version =
     (case Live s of
        None \<Rightarrow>
          (case FromUnstructured (StateParser s version) VNull [] of
             Inl err \<Rightarrow> (s, Some (Empty_Object_Failed err))
           | Inr obj \<Rightarrow> (s\<lparr>Live := Some obj\<rparr>, None))
      | Some _ \<Rightarrow> (s, None))"

definition State_UpdateObject ::
  "'e State \<Rightarrow> TypedValue option \<Rightarrow> APIVersion \<Rightarrow> string \<Rightarrow> 'e State \<times> ('e, 'y) state_error option" where
  "State_UpdateObject s tv version manager =
     (case checkInit s version of
        (s, Some err) \<Rightarrow> (s, Some err)
      | (s, None) \<Rightarrow>
          (case convert (StateUpdater s) (Live s) version of
             (live, Some err) \<Rightarrow> (s\<lparr>Live := live\<rparr>, Some (Convert_Failed err))
           | (live, None) \<Rightarrow>
               let s = s\<lparr>Live := live\<rparr> in
               (case Updater_Update (StateUpdater s) (Live s) tv version (StateManagers s) manager of
                  Inl err \<Rightarrow> (s, Some (Updater_Failed err))
                | Inr (newObj, managers) \<Rightarrow> (s\<lparr>Live := newObj, StateManagers := managers\<rparr>, None))))"

definition State_ApplyObject ::
  "'e State \<Rightarrow> TypedValue option \<Rightarrow> APIVersion \<Rightarrow> string \<Rightarrow> bool \<Rightarrow> 'e State \<times> ('e, 'y) state_error option" where
  "State_ApplyObject s tv version manager force =
     (case checkInit s version of
        (s, Some err) \<Rightarrow> (s, Some err)
      | (s, None) \<Rightarrow>
          (case convert (StateUpdater s) (Live s) version of
             (live, Some err) \<Rightarrow> (s\<lparr>Live := live\<rparr>, Some (Convert_Failed err))
           | (live, None) \<Rightarrow>
               let s = s\<lparr>Live := live\<rparr> in
               (case Updater_Apply (StateUpdater s) (Live s) tv version (StateManagers s) manager force of
                  Inl err \<Rightarrow> (s, Some (Updater_Failed err))
                | Inr (new, managers) \<Rightarrow>
                    let s = s\<lparr>StateManagers := managers\<rparr>
                    in (if new \<noteq> None then s\<lparr>Live := new\<rparr> else s, None))))"

text \<open>\<^verbatim>\<open>FromYAML(FixTabsOrDie(obj), opts...)\<close> with the parser's type for the version.\<close>

definition parse_tabbed ::
  "(YAMLObject \<Rightarrow> 'y + Value) \<Rightarrow> version_parser \<Rightarrow> APIVersion \<Rightarrow> YAMLObject \<Rightarrow> ValidationOptions list \<Rightarrow> ('e, 'y) state_error + TypedValue" where
  "parse_tabbed yaml parser version obj opts =
     (case FixTabsOrDie obj of
        None \<Rightarrow> Inl Panics
      | Some doc \<Rightarrow> (case FromYAML yaml (parser version) doc opts of Inl err \<Rightarrow> Inl (Parse_Failed err) | Inr tv \<Rightarrow> Inr tv))"

definition State_Update ::
  "(YAMLObject \<Rightarrow> 'y + Value) \<Rightarrow> 'e State \<Rightarrow> YAMLObject \<Rightarrow> APIVersion \<Rightarrow> string \<Rightarrow> 'e State \<times> ('e, 'y) state_error option" where
  "State_Update yaml s obj version manager =
     (case parse_tabbed yaml (StateParser s) version obj [AllowDuplicates] of
        Inl err \<Rightarrow> (s, Some err)
      | Inr tv \<Rightarrow> State_UpdateObject s (Some tv) version manager)"

definition State_Apply ::
  "(YAMLObject \<Rightarrow> 'y + Value) \<Rightarrow> 'e State \<Rightarrow> YAMLObject \<Rightarrow> APIVersion \<Rightarrow> string \<Rightarrow> bool \<Rightarrow> 'e State \<times> ('e, 'y) state_error option" where
  "State_Apply yaml s obj version manager force =
     (case parse_tabbed yaml (StateParser s) version obj [] of
        Inl err \<Rightarrow> (s, Some err)
      | Inr tv \<Rightarrow> State_ApplyObject s (Some tv) version manager force)"

text \<open>The difference is empty when the objects agree.\<close>

definition CompareLive ::
  "(YAMLObject \<Rightarrow> 'y + Value) \<Rightarrow> (Value option \<Rightarrow> Value option \<Rightarrow> string) \<Rightarrow> 'e State \<Rightarrow> YAMLObject \<Rightarrow> APIVersion \<Rightarrow>
   'e State \<times> (('e, 'y) state_error + string)" where
  "CompareLive yaml diff s obj version =
     (case FixTabsOrDie obj of
        None \<Rightarrow> (s, Inl Panics)
      | Some doc \<Rightarrow>
          (case checkInit s version of
             (s, Some err) \<Rightarrow> (s, Inl err)
           | (s, None) \<Rightarrow>
               (case FromYAML yaml (StateParser s version) doc [AllowDuplicates] of
                  Inl err \<Rightarrow> (s, Inl (Parse_Failed err))
                | Inr tv \<Rightarrow>
                    (case convert (StateUpdater s) (Live s) version of
                       (live, Some err) \<Rightarrow> (s, Inl (Convert_Failed err))
                     | (None, None) \<Rightarrow> (s, Inl Panics)
                     | (Some live, None) \<Rightarrow> (s, Inr (diff (tv_value tv) (tv_value live)))))))"

section \<open>The converter that does not convert\<close>

definition dummyConverter :: "string Converter" where
  "dummyConverter =
     \<lparr>Convert = (\<lambda>v version. if length version = 0 then (None, Some ''cannot convert to invalid version'') else (v, None)),
      IsMissingVersionError = (\<lambda>_. False)\<rparr>"

section \<open>Operations\<close>

record ('o) applied_object =
  op_Manager :: string
  op_APIVersion :: APIVersion
  op_Object :: 'o

datatype Operation =
    Op_Apply "YAMLObject applied_object" "Conflicts option"
  | Op_ApplyObject "TypedValue option applied_object" "Conflicts option"
  | Op_ForceApply "YAMLObject applied_object"
  | Op_ForceApplyObject "TypedValue option applied_object"
  | Op_ExtractApply "YAMLObject applied_object"
  | Op_ExtractApplyObject "TypedValue option applied_object"
  | Op_Update "YAMLObject applied_object"
  | Op_UpdateObject "TypedValue option applied_object"
  | Op_ChangeParser Parser

definition hasConflict :: "Conflicts \<Rightarrow> Conflict \<Rightarrow> bool" where
  "hasConflict conflicts conflict = list_ex (\<lambda>c. Conflict_Equals conflict c) conflicts"

definition addedConflicts :: "Conflicts \<Rightarrow> Conflicts \<Rightarrow> Conflicts" where
  "addedConflicts one other = filter (\<lambda>conflict. \<not> hasConflict one conflict) other"

text \<open>\<^verbatim>\<open>err.(merge.Conflicts)\<close>\<close>

definition conflicts_of :: "('e, 'y) state_error option \<Rightarrow> Conflicts option" where
  "conflicts_of err =
     (case err of Some (Updater_Failed (Conflicting cs)) \<Rightarrow> Some cs | _ \<Rightarrow> None)"

definition ApplyObject_run :: "TypedValue option applied_object \<Rightarrow> Conflicts option \<Rightarrow> 'e State \<Rightarrow> 'e State \<times> ('e, 'y) state_error option" where
  "ApplyObject_run a expected state =
     (case State_ApplyObject state (op_Object a) (op_APIVersion a) (op_Manager a) False of
        (state', err) \<Rightarrow>
          if err \<noteq> None \<and> (conflicts_of err = None \<or> expected = None) then (state', err)
          else case expected of
                 None \<Rightarrow> (state', None)
               | Some want \<Rightarrow>
                   let conflicts = (case conflicts_of err of None \<Rightarrow> [] | Some cs \<Rightarrow> cs)
                   in if length (addedConflicts want conflicts) \<noteq> 0 \<or> length (addedConflicts conflicts want) \<noteq> 0
                      then (state', Some (Unexpected_Conflicts want conflicts)) else (state', None))"

definition ExtractApplyObject_run :: "TypedValue option applied_object \<Rightarrow> 'e State \<Rightarrow> 'e State \<times> ('e, 'y) state_error option" where
  "ExtractApplyObject_run e state =
     (case Live state of
        None \<Rightarrow> State_ApplyObject state (op_Object e) (op_APIVersion e) (op_Manager e) True
      | Some _ \<Rightarrow>
          (case convert (StateUpdater state) (Live state) (op_APIVersion e) of
             (current, Some err) \<Rightarrow> (state, Some (Convert_Failed err))
           | (current, None) \<Rightarrow>
               let mgr = map_of (StateManagers state) (op_Manager e) in
               if mgr \<noteq> None \<and> apiVersion (the mgr) \<noteq> op_APIVersion e
               then (state, Some (Different_Extract_Version (apiVersion (the mgr)) (op_APIVersion e)))
               else let leaves = (case mgr of None \<Rightarrow> NewSet [] | Some v \<Rightarrow> Set_Leaves (vset v)) in
                    (case (current, op_Object e) of
                       (Some tv, Some config) \<Rightarrow>
                         (case TypedValue_ExtractItems tv leaves of
                            Inl _ \<Rightarrow> (state, Some Panics)
                          | Inr extracted \<Rightarrow>
                              (case TypedValue_Merge extracted config of
                                 Inl err \<Rightarrow> (state, Some (Merge_Failed err))
                               | Inr obj \<Rightarrow> State_ApplyObject state (Some obj) (op_APIVersion e) (op_Manager e) True))
                     | _ \<Rightarrow> (state, Some Panics))))"

definition ChangeParser_run :: "Parser \<Rightarrow> 'e State \<Rightarrow> 'e State \<times> ('e, 'y) state_error option" where
  "ChangeParser_run p state =
     (let state = state\<lparr>StateParser := Parser_Type p\<rparr> in
      case Live state of
        None \<Rightarrow> (state, Some Panics)
      | Some live \<Rightarrow>
          (case AsTyped (tv_value live) (Parser_Schema p) (tv_typeRef live) [] of
             Inl err \<Rightarrow> (state, Some (New_Schema_Failed err))
           | Inr liveWithNewSchema \<Rightarrow> (state\<lparr>Live := Some liveWithNewSchema\<rparr>, None)))"

definition preprocess :: "(YAMLObject \<Rightarrow> 'y + Value) \<Rightarrow> version_parser \<Rightarrow> Operation \<Rightarrow> ('e, 'y) state_error + Operation" where
  "preprocess yaml parser op =
     (let parsed = (\<lambda>a opts mk. map_sum id (\<lambda>tv. mk \<lparr>op_Manager = op_Manager a, op_APIVersion = op_APIVersion a, op_Object = Some tv\<rparr>)
            (parse_tabbed yaml parser (op_APIVersion a) (op_Object a) opts))
      in case op of
           Op_Apply a cs \<Rightarrow> parsed a [] (\<lambda>o'. Op_ApplyObject o' cs)
         | Op_ForceApply a \<Rightarrow> parsed a [] Op_ForceApplyObject
         | Op_ExtractApply a \<Rightarrow> parsed a [] Op_ExtractApplyObject
         | Op_Update a \<Rightarrow> parsed a [AllowDuplicates] Op_UpdateObject
         | _ \<Rightarrow> Inr op)"

definition run_object :: "Operation \<Rightarrow> 'e State \<Rightarrow> 'e State \<times> ('e, 'y) state_error option" where
  "run_object op state =
     (case op of
        Op_ApplyObject a cs \<Rightarrow> ApplyObject_run a cs state
      | Op_ForceApplyObject f \<Rightarrow> State_ApplyObject state (op_Object f) (op_APIVersion f) (op_Manager f) True
      | Op_ExtractApplyObject e \<Rightarrow> ExtractApplyObject_run e state
      | Op_UpdateObject u \<Rightarrow> State_UpdateObject state (op_Object u) (op_APIVersion u) (op_Manager u)
      | Op_ChangeParser p \<Rightarrow> ChangeParser_run p state
      | _ \<Rightarrow> (state, None))"

definition run :: "(YAMLObject \<Rightarrow> 'y + Value) \<Rightarrow> Operation \<Rightarrow> 'e State \<Rightarrow> 'e State \<times> ('e, 'y) state_error option" where
  "run yaml op state =
     (case op of
        Op_Apply a cs \<Rightarrow> (case preprocess yaml (StateParser state) op of Inl err \<Rightarrow> (state, Some err) | Inr p \<Rightarrow> run_object p state)
      | Op_ExtractApply e \<Rightarrow> (case preprocess yaml (StateParser state) op of Inl err \<Rightarrow> (state, Some err) | Inr p \<Rightarrow> run_object p state)
      | Op_ForceApply f \<Rightarrow> State_Apply yaml state (op_Object f) (op_APIVersion f) (op_Manager f) True
      | Op_Update u \<Rightarrow> State_Update yaml state (op_Object u) (op_APIVersion u) (op_Manager u)
      | _ \<Rightarrow> run_object op state)"

section \<open>Test cases\<close>

record TestCase =
  Ops :: "Operation list"
  tc_Object :: YAMLObject
  tc_APIVersion :: APIVersion
  tc_Managed :: "ManagedFields option"
  tc_ReturnInputOnNoop :: bool
  tc_IgnoredFields :: "(APIVersion \<times> FieldSet option) list"

fun PreprocessOperations :: "(YAMLObject \<Rightarrow> 'y + Value) \<Rightarrow> version_parser \<Rightarrow> Operation list \<Rightarrow> ('e, 'y) state_error + Operation list" where
  "PreprocessOperations yaml parser [] = Inr []"
| "PreprocessOperations yaml parser (op # ops) =
     (case preprocess yaml parser op of
        Inl err \<Rightarrow> Inl err
      | Inr p \<Rightarrow> map_sum id ((#) p) (PreprocessOperations yaml parser ops))"

fun run_all :: "(YAMLObject \<Rightarrow> 'y + Value) \<Rightarrow> nat \<Rightarrow> Operation list \<Rightarrow> 'e State \<Rightarrow> 'e State \<times> ('e, 'y) state_error option" where
  "run_all yaml i [] state = (state, None)"
| "run_all yaml i (op # ops) state =
     (case run yaml op state of
        (state', Some err) \<Rightarrow> (state', Some (Operation_Failed i err))
      | (state', None) \<Rightarrow> run_all yaml (i + 1) ops state')"

definition initial_state :: "TestCase \<Rightarrow> version_parser \<Rightarrow> 'e Converter \<Rightarrow> 'e State" where
  "initial_state tc parser converter =
     \<lparr>Live = None, StateParser = parser, StateManagers = [],
      StateUpdater = BuildUpdater \<lparr>BuilderConverter = converter, BuilderIgnoredFields = tc_IgnoredFields tc,
        ReturnInputOnNoop = tc_ReturnInputOnNoop tc\<rparr>\<rparr>"

definition BenchWithConverter ::
  "(YAMLObject \<Rightarrow> 'y + Value) \<Rightarrow> TestCase \<Rightarrow> version_parser \<Rightarrow> 'e Converter \<Rightarrow> ('e, 'y) state_error option" where
  "BenchWithConverter yaml tc parser converter = snd (run_all yaml 0 (Ops tc) (initial_state tc parser converter))"

text \<open>The checks after the operations.\<close>

definition check_object ::
  "(YAMLObject \<Rightarrow> 'y + Value) \<Rightarrow> (Value option \<Rightarrow> Value option \<Rightarrow> string) \<Rightarrow> TestCase \<Rightarrow> 'e State \<Rightarrow> 'e State \<times> ('e, 'y) state_error option" where
  "check_object yaml diff tc state =
     (if tc_Object tc \<noteq> [] then
        (case CompareLive yaml diff state (tc_Object tc) (tc_APIVersion tc) of
           (state', Inl err) \<Rightarrow> (state', Some (Compare_Live_Failed err))
         | (state', Inr comparison) \<Rightarrow> (state', if comparison \<noteq> [] then Some (Different_Object comparison) else None))
      else (state, None))"

definition check_managers :: "TestCase \<Rightarrow> 'e State \<Rightarrow> ('e, 'y) state_error option" where
  "check_managers tc state =
     (case tc_Managed tc of
        Some managed \<Rightarrow>
          let diff = ManagedFields_Difference (StateManagers state) managed
          in if length diff \<noteq> 0 then Some (Different_Managers diff) else None
      | None \<Rightarrow> None)"

definition check_no_empty_sets :: "'e State \<Rightarrow> ('e, 'y) state_error option" where
  "check_no_empty_sets state =
     (case filter (\<lambda>(manager, v). Set_Empty (vset v)) (StateManagers state) of
        [] \<Rightarrow> None
      | (manager, _) # _ \<Rightarrow> Some (Empty_Set_Of manager))"

definition TestWithConverter ::
  "(YAMLObject \<Rightarrow> 'y + Value) \<Rightarrow> (Value option \<Rightarrow> Value option \<Rightarrow> string) \<Rightarrow> TestCase \<Rightarrow> version_parser \<Rightarrow> 'e Converter \<Rightarrow>
   ('e, 'y) state_error option" where
  "TestWithConverter yaml diff tc parser converter =
     (case run_all yaml 0 (Ops tc) (initial_state tc parser converter) of
        (state, Some err) \<Rightarrow> Some err
      | (state, None) \<Rightarrow>
          (case check_object yaml diff tc state of
             (state, Some err) \<Rightarrow> Some err
           | (state, None) \<Rightarrow>
               (case check_managers tc state of
                  Some err \<Rightarrow> Some err
                | None \<Rightarrow> check_no_empty_sets state)))"

definition TestCase_Test ::
  "(YAMLObject \<Rightarrow> 'y + Value) \<Rightarrow> (Value option \<Rightarrow> Value option \<Rightarrow> string) \<Rightarrow> TestCase \<Rightarrow> version_parser \<Rightarrow> (string, 'y) state_error option" where
  "TestCase_Test yaml diff tc parser = TestWithConverter yaml diff tc parser dummyConverter"

definition TestCase_Bench :: "(YAMLObject \<Rightarrow> 'y + Value) \<Rightarrow> TestCase \<Rightarrow> version_parser \<Rightarrow> (string, 'y) state_error option" where
  "TestCase_Bench yaml tc parser = BenchWithConverter yaml tc parser dummyConverter"

end
