(* ===== verification/State_Laws.thy ===== *)
theory State_Laws
  imports Ownership Test_State
begin

text \<open>
  The states a test reaches: whatever operations run, in whatever order and whether or not they fail, the live object and
  the sets stay well-formed, managers are distinct and no manager owns the empty set.
\<close>

section \<open>Well-formed states and operations\<close>

definition type_ok :: "num_mode \<Rightarrow> ParseableType \<Rightarrow> bool" where
  "type_ok m p \<longleftrightarrow> Schema_ok m (schema_types (pt_Schema p)) \<and> TypeRef_ok m (pt_TypeRef p)"

definition no_empty_sets :: "ManagedFields \<Rightarrow> bool" where
  "no_empty_sets ms \<longleftrightarrow> list_all (\<lambda>e. \<not> Set_Empty (vset (snd e))) ms"

definition managers_ok :: "num_mode \<Rightarrow> ManagedFields \<Rightarrow> bool" where
  "managers_ok m ms \<longleftrightarrow> managers_wf m ms \<and> no_empty_sets ms"

definition state_ok :: "num_mode \<Rightarrow> 'e State \<Rightarrow> bool" where
  "state_ok m s \<longleftrightarrow> pred_option (TypedValue_ok m) (Live s) \<and> managers_ok m (StateManagers s) \<and>
     Updater_ok m (StateUpdater s) \<and> (\<forall>v. type_ok m (StateParser s v))"

definition op_ok :: "num_mode \<Rightarrow> Operation \<Rightarrow> bool" where
  "op_ok m op =
     (case op of
        Op_ApplyObject a _ \<Rightarrow> pred_option (TypedValue_ok m) (op_Object a)
      | Op_ForceApplyObject a \<Rightarrow> pred_option (TypedValue_ok m) (op_Object a)
      | Op_ExtractApplyObject a \<Rightarrow> pred_option (TypedValue_ok m) (op_Object a)
      | Op_UpdateObject a \<Rightarrow> pred_option (TypedValue_ok m) (op_Object a)
      | Op_ChangeParser p \<Rightarrow> Schema_ok m (schema_types (Parser_Schema p))
      | _ \<Rightarrow> True)"

text \<open>What is asked of the YAML decoder: its numbers are of the mode, and the keys of a map are distinct.\<close>

definition decoder_ok :: "num_mode \<Rightarrow> (YAMLObject \<Rightarrow> 'y + Value) \<Rightarrow> bool" where
  "decoder_ok m yaml \<longleftrightarrow> (\<forall>doc v. yaml doc = Inr v \<longrightarrow> value_ok m v)"

lemma no_empty_sets_map_of:
  "distinct (map fst ms) \<Longrightarrow> no_empty_sets ms \<longleftrightarrow> (\<forall>k v. map_of ms k = Some v \<longrightarrow> \<not> Set_Empty (vset v))"
  by (auto simp: no_empty_sets_def list_all_iff)

lemma AsTyped_ok:
  "AsTyped v p tr opts = Inr tv \<Longrightarrow> Schema_ok m (schema_types p) \<Longrightarrow> TypeRef_ok m tr \<Longrightarrow> pred_option (value_ok m) v \<Longrightarrow> TypedValue_ok m tv"
  by (auto simp: AsTyped_def TypedValue_ok_def Let_def split: option.splits)

lemma parse_tabbed_ok:
  assumes "parse_tabbed yaml parser version obj opts = Inr tv" "decoder_ok m yaml" "\<forall>v. type_ok m (parser v)"
  shows "TypedValue_ok m tv"
proof -
  obtain v where "AsTyped (Some v) (pt_Schema (parser version)) (pt_TypeRef (parser version)) opts = Inr tv" "value_ok m v"
    using assms(1,2) by (auto simp: parse_tabbed_def FromYAML_def decoder_ok_def split: option.splits sum.splits)
  then show ?thesis using assms(3) by (auto simp: type_ok_def intro: AsTyped_ok)
qed

section \<open>Every operation keeps the invariant\<close>

lemma checkInit_ok: "state_ok m s \<Longrightarrow> checkInit s version = (s', e) \<Longrightarrow> state_ok m s'"
  by (auto simp: checkInit_def state_ok_def FromUnstructured_def type_ok_def dest!: AsTyped_ok [of _ _ _ _ _ m] split: option.splits sum.splits)

lemma Update_managers_ok:
  assumes "Updater_ok m u" "pred_option (TypedValue_ok m) live" "pred_option (TypedValue_ok m) tv" "managers_ok m ms"
    and "Updater_Update u live tv version ms manager = Inr (obj, ms')"
  shows "pred_option (TypedValue_ok m) obj \<and> managers_ok m ms'"
proof -
  have wf: "managers_wf m ms" using assms(4) by (simp add: managers_ok_def)
  note u = Update_owns [OF assms(1-3) wf assms(5)]
  have "no_empty_sets ms'" using u(2,3) by (subst no_empty_sets_map_of) (auto simp: managers_wf_def)
  then show ?thesis using u(1,2) assms(3) by (simp add: managers_ok_def)
qed

lemma Apply_managers_ok:
  assumes "Updater_ok m u" "pred_option (TypedValue_ok m) live" "pred_option (TypedValue_ok m) tv" "managers_ok m ms"
    and "Updater_Apply u live tv version ms manager force = Inr (obj, ms')"
  shows "pred_option (TypedValue_ok m) obj \<and> managers_ok m ms'"
proof -
  obtain l c where lc: "live = Some l" "tv = Some c"
    using assms(5) by (auto simp: Updater_Apply_def merge_objects_def split: sum.splits option.splits)
  then have ok: "TypedValue_ok m l" "TypedValue_ok m c" using assms(2,3) by simp_all
  have wf: "managers_wf m ms" using assms(4) by (simp add: managers_ok_def)
  obtain ms1 merged fs new c' where run: "apply_run u l c version ms manager ms1 merged fs new"
    "update u (Some l) new version (AList.update manager (NewVersionedSet fs version True) ms1) manager force = Inr (ms', c')"
    "obj = new \<or> obj = None"
    using Apply_Inr [OF assms(5) [unfolded lc]] by metis
  note a = Apply_owns [OF assms(1) ok wf run(1,2)]
  have "TypedValue_ok m merged" using run(1) Merge_ok [OF ok] by (simp add: apply_run_def)
  moreover have pr: "prune u (Some merged) (AList.update manager (NewVersionedSet fs version True) ms1) manager (map_of ms1 manager) = Inr new"
    using run(1) by (simp add: apply_run_def)
  ultimately have "pred_option (TypedValue_ok m) new" using prune_ok [OF assms(1) _ pr] by simp
  moreover have "no_empty_sets ms'" using a(1,2) by (subst no_empty_sets_map_of) (auto simp: managers_wf_def)
  ultimately show ?thesis using a(1) run(3) by (auto simp: managers_ok_def)
qed

lemma UpdateObject_ok:
  fixes s :: "'e State" and e :: "('e, 'y) state_error option"
  assumes "state_ok m s" "pred_option (TypedValue_ok m) tv" "State_UpdateObject s tv version manager = (s', e)"
  shows "state_ok m s'"
proof -
  obtain s1 and e1 :: "('e, 'y) state_error option" where init: "checkInit s version = (s1, e1)" by (metis surj_pair)
  have s1: "state_ok m s1" using checkInit_ok [OF assms(1) init] .
  show ?thesis
  proof (cases e1)
    case (Some x)
    then show ?thesis using assms(3) init s1 by (simp add: State_UpdateObject_def)
  next
    case None
    have u: "Updater_ok m (StateUpdater s1)" using s1 by (simp add: state_ok_def)
    have live: "pred_option (TypedValue_ok m) (fst (convert (StateUpdater s1) (Live s1) version))"
      using s1 convert_ok [OF u] by (simp add: state_ok_def)
    then show ?thesis
      using assms(3) None init s1 Update_managers_ok [OF u live assms(2)]
      by (auto simp: State_UpdateObject_def state_ok_def Let_def split: prod.splits option.splits sum.splits)
  qed
qed

lemma ApplyObject_ok:
  fixes s :: "'e State" and e :: "('e, 'y) state_error option"
  assumes "state_ok m s" "pred_option (TypedValue_ok m) tv" "State_ApplyObject s tv version manager force = (s', e)"
  shows "state_ok m s'"
proof -
  obtain s1 and e1 :: "('e, 'y) state_error option" where init: "checkInit s version = (s1, e1)" by (metis surj_pair)
  have s1: "state_ok m s1" using checkInit_ok [OF assms(1) init] .
  show ?thesis
  proof (cases e1)
    case (Some x)
    then show ?thesis using assms(3) init s1 by (simp add: State_ApplyObject_def)
  next
    case None
    have u: "Updater_ok m (StateUpdater s1)" using s1 by (simp add: state_ok_def)
    have live: "pred_option (TypedValue_ok m) (fst (convert (StateUpdater s1) (Live s1) version))"
      using s1 convert_ok [OF u] by (simp add: state_ok_def)
    then show ?thesis
      using assms(3) None init s1 by (auto simp: State_ApplyObject_def state_ok_def Let_def dest!: Apply_managers_ok [OF u _ assms(2), rotated 2]
          split: prod.splits option.splits sum.splits if_splits)
  qed
qed

lemma ExtractApply_ok:
  assumes "state_ok m s" "pred_option (TypedValue_ok m) (op_Object a)" "ExtractApplyObject_run a s = (s', e)"
  shows "state_ok m s'"
proof -
  have u: "Updater_ok m (StateUpdater s)" using assms(1) by (simp add: state_ok_def)
  have live: "pred_option (TypedValue_ok m) (fst (convert (StateUpdater s) (Live s) (op_APIVersion a)))"
    using assms(1) convert_ok [OF u] by (simp add: state_ok_def)
  have merged: "TypedValue_ok m obj"
    if "TypedValue_ExtractItems tv leaves = Inr x" "TypedValue_Merge x c = Inr obj" "TypedValue_ok m tv" "TypedValue_ok m c" for tv leaves x c obj
    using that Merge_ok remove_or_extract_ok by (metis TypedValue_ExtractItems_def)
  show ?thesis
    using assms live
    by (auto simp: ExtractApplyObject_run_def Let_def merged dest: ApplyObject_ok [OF assms(1), rotated]
        split: prod.splits option.splits sum.splits if_splits)
qed

lemma run_object_ok:
  fixes s :: "'e State" and e :: "('e, 'y) state_error option"
  assumes "state_ok m s" "op_ok m op" "run_object op s = (s', e)"
  shows "state_ok m s'"
proof (cases op)
  case (Op_ApplyObject a cs)
  obtain s1 and e1 :: "('e, 'y) state_error option" where ap: "State_ApplyObject s (op_Object a) (op_APIVersion a) (op_Manager a) False = (s1, e1)"
    by (metis surj_pair)
  then have "s' = s1"
    using assms(3) Op_ApplyObject by (auto simp: run_object_def ApplyObject_run_def Let_def split: if_splits option.splits)
  then show ?thesis using ApplyObject_ok [OF assms(1) _ ap] assms(2) Op_ApplyObject by (simp add: op_ok_def)
next
  case (Op_ChangeParser p)
  then show ?thesis
    using assms
    by (auto simp: run_object_def ChangeParser_run_def op_ok_def state_ok_def type_ok_def Parser_Type_def Let_def Atom_zero_def TypedValue_ok_def
        dest: AsTyped_ok [of _ _ _ _ _ m] split: option.splits sum.splits)
qed (use assms ApplyObject_ok [OF assms(1)] UpdateObject_ok [OF assms(1)] ExtractApply_ok [OF assms(1)] in \<open>auto simp: run_object_def op_ok_def\<close>)

lemma preprocess_ok:
  assumes "preprocess yaml parser op = Inr op'" "op_ok m op" "decoder_ok m yaml" "\<forall>v. type_ok m (parser v)"
  shows "op_ok m op'"
  using assms parse_tabbed_ok [OF _ assms(3,4)]
  by (cases op) (auto simp: preprocess_def op_ok_def Let_def map_sum_def split: sum.splits)

lemma run_ok:
  fixes s :: "'e State" and e :: "('e, 'y) state_error option"
  assumes "state_ok m s" "op_ok m op" "decoder_ok m yaml" "run yaml op s = (s', e)"
  shows "state_ok m s'"
proof -
  have parser: "\<forall>v. type_ok m (StateParser s v)" using assms(1) by (simp add: state_ok_def)
  show ?thesis
    using assms(1,2,4) preprocess_ok [OF _ assms(2,3) parser] parser
    by (cases op) (auto simp: run_def State_Apply_def State_Update_def dest!: parse_tabbed_ok [OF _ assms(3) parser]
        dest: run_object_ok [OF assms(1), rotated] ApplyObject_ok [OF assms(1), rotated] UpdateObject_ok [OF assms(1), rotated] split: sum.splits)
qed

section \<open>Reachable states\<close>

inductive reachable :: "num_mode \<Rightarrow> (YAMLObject \<Rightarrow> 'y + Value) \<Rightarrow> 'e State \<Rightarrow> 'e State \<Rightarrow> bool" for m yaml s0 where
  reachable_init: "reachable m yaml s0 s0"
| reachable_step: "reachable m yaml s0 s \<Longrightarrow> op_ok m op \<Longrightarrow> run yaml op s = (s', e) \<Longrightarrow> reachable m yaml s0 s'"

lemma reachable_ok:
  assumes "reachable m yaml s0 s" "state_ok m s0" "decoder_ok m yaml"
  shows "state_ok m s"
  using assms
proof (induction rule: reachable.induct)
  case (reachable_step s op s' e)
  then show ?case using run_ok [of m s op yaml s' e] by blast
qed

lemma run_all_reachable:
  "run_all yaml i ops s = (s', e) \<Longrightarrow> list_all (op_ok m) ops \<Longrightarrow> reachable m yaml s0 s \<Longrightarrow> reachable m yaml s0 s'"
proof (induction ops arbitrary: i s)
  case (Cons op ops)
  obtain s1 e1 where step: "run yaml op s = (s1, e1)" by (metis surj_pair)
  have "reachable m yaml s0 s1" using reachable_step [OF Cons.prems(3) _ step] Cons.prems(2) by simp
  then show ?case using Cons step by (auto split: option.splits)
qed simp

lemma run_all_error: "run_all yaml i ops s = (s', e) \<Longrightarrow> e = None \<or> (\<exists>j x. e = Some (Operation_Failed j x))"
  by (induction ops arbitrary: i s) (auto split: prod.splits option.splits)

lemma initial_ok:
  assumes "converter_ok m converter" "list_all (\<lambda>e. pred_option (Set_wf m) (snd e)) (tc_IgnoredFields tc)" "\<forall>v. type_ok m (parser v)"
  shows "state_ok m (initial_state tc parser converter)"
  using assms by (simp add: initial_state_def state_ok_def managers_ok_def managers_wf_def no_empty_sets_def BuildUpdater_def Updater_ok_def)

lemma check_no_empty_sets_iff: "check_no_empty_sets s = None \<longleftrightarrow> no_empty_sets (StateManagers s)"
proof -
  have "check_no_empty_sets s = None \<longleftrightarrow> filter (\<lambda>(manager, v). Set_Empty (vset v)) (StateManagers s) = []"
    by (auto simp: check_no_empty_sets_def split: list.splits)
  then show ?thesis by (auto simp: no_empty_sets_def list_all_iff filter_empty_conv)
qed

lemma check_object_managers: "check_object yaml diff tc s = (s', e) \<Longrightarrow> StateManagers s' = StateManagers s"
  by (auto simp: check_object_def CompareLive_def checkInit_def split: option.splits sum.splits prod.splits if_splits)

end
