(* ===== verification/Properties_Merge.thy ===== *)
theory Properties_Merge
  imports Properties_Typed Merged_Fields State_Laws
begin

text \<open>
  The properties of the package \<^verbatim>\<open>merge\<close> and of the state machine around it: who owns what after an update or an apply, when an
  apply is refused, which fields the new object has, and that reachable states are well-formed.
\<close>

section \<open>Concrete updaters\<close>

definition ex_updater :: "string Updater" where
  "ex_updater = \<lparr>UpdaterConverter = dummyConverter, IgnoredFields = [], returnInputOnNoop = True\<rparr>"

lemma dummyConverter_ok: "converter_ok m dummyConverter"
  by (auto simp: converter_ok_def dummyConverter_def)

lemma ex_updater_ok [simp]: "Updater_ok m ex_updater"
  using dummyConverter_ok by (simp add: Updater_ok_def ex_updater_def)

text \<open>A configuration that sets the replicas only, and one that sets the name only.\<close>

definition ex_config :: "64 word \<Rightarrow> TypedValue" where
  "ex_config n = \<lparr>tv_value = Some (VMap [(''spec'', VMap [(''replicas'', VInt n)])]), tv_typeRef = ex_named ''object'', tv_schema = ex_schema\<rparr>"

definition ex_name :: TypedValue where
  "ex_name = \<lparr>tv_value = Some (VMap [(''name'', VString ''web'')]), tv_typeRef = ex_named ''object'', tv_schema = ex_schema\<rparr>"

lemma ex_config_ok [simp]: "TypedValue_ok No_Floats (ex_config n)" "TypedValue_ok No_Floats ex_name"
  by (simp_all add: ex_config_def ex_name_def TypedValue_ok_def ex_schema_def)

lemma ex_config_sel [simp]:
  "tv_typeRef (ex_config n) = ex_named ''object''" "tv_schema (ex_config n) = ex_schema"
  "tv_typeRef ex_name = ex_named ''object''" "tv_schema ex_name = ex_schema"
  "tv_value ex_name = Some (VMap [(''name'', VString ''web'')])"
  by (simp_all add: ex_config_def ex_name_def)

definition ex_owner :: "string \<Rightarrow> ManagedFields" where
  "ex_owner k = [(k, NewVersionedSet (NewSet [[ex_spec, ex_replicas]]) ''v1'' True)]"

lemma ex_owner_wf [simp]: "managers_wf No_Floats (ex_owner k)"
  using NewSet_wf [of No_Floats "[[ex_spec, ex_replicas]]"] by (simp add: ex_owner_def managers_wf_def NewVersionedSet_def)

definition ex_name_field :: PathElement where "ex_name_field = pe_field ''name''"

lemma not_isl: "\<not> isl x \<Longrightarrow> \<exists>y. x = Inr y"
  by (cases x) auto

lemma ex_identity: "V \<subseteq> {''v1''} \<Longrightarrow> identity_at ex_updater V"
  by (auto simp: identity_at_def ex_updater_def dummyConverter_def)

lemma ex_spec_path: "fields_path [''spec'', ''replicas''] = [ex_spec, ex_replicas]"
  by (simp add: ex_spec_def ex_replicas_def)

section \<open>Merged objects\<close>

text \<open>C21 (functional): a merge has the leaf fields of both objects and no others: below granular maps, the field of the result
  has the value that the second object has there, and if it has none the value of the first.\<close>

theorem Merge_fields:
  assumes "TypedValue_ok m l" "TypedValue_ok m r" "TypedValue_Merge l r = Inr tv"
    "granular_type (schema_types (tv_schema l)) (tv_typeRef l) ks = Some tr" "Resolve (schema_types (tv_schema l)) tr = Some a"
    "pred_option (\<lambda>v. on_maps v ks) (tv_value l)" "pred_option (\<lambda>v. on_maps v ks) (tv_value r)"
    "pred_option (leaf_value a) (lookup_side (tv_value l) ks)" "pred_option (leaf_value a) (lookup_side (tv_value r) ks)"
  shows "lookup_side (tv_value tv) ks =
    (case lookup_side (tv_value r) ks of Some y \<Rightarrow> Some y | None \<Rightarrow> lookup_side (tv_value l) ks)"
proof -
  let ?w = "\<lparr>mw_lhs = tv_value l, mw_rhs = tv_value r, mw_typeRef = tv_typeRef l, mw_path = [], mw_out = None, mw_inLeaf = False\<rparr>"
  have "lookup_side (mw_out (snd (merge_walk (schema_types (tv_schema l)) ruleKeepRHS None ?w None))) ks =
      (case lookup_side (mw_rhs ?w) ks of Some y \<Rightarrow> Some y | None \<Rightarrow> lookup_side (mw_lhs ?w) ks)"
    using assms by (intro merge_lookup [where m = m and tr = tr and a = a]) (simp_all add: TypedValue_ok_def)
  moreover have "tv_value tv = mw_out (snd (merge_walk (schema_types (tv_schema l)) ruleKeepRHS None ?w None))"
    using assms(3) by (auto simp: TypedValue_Merge_def merge_def split: prod.splits if_splits)
  ultimately show ?thesis by (simp cong: option.case_cong)
qed

text \<open>The live object has a name and three replicas, the second one five replicas and no name.\<close>

theorem Merge_fields_witness:
  "\<exists>tv. TypedValue_Merge ((ex_tv 3)\<lparr>tv_value := Some (VMap [(''name'', VString ''web''), (''spec'', VMap [(''replicas'', VInt 3)])])\<rparr>) (ex_config 5) = Inr tv \<and>
     lookup_side (tv_value tv) [''spec'', ''replicas''] = Some (VInt 5) \<and> lookup_side (tv_value tv) [''name''] = Some (VString ''web'')"
proof -
  let ?l = "(ex_tv 3)\<lparr>tv_value := Some (VMap [(''name'', VString ''web''), (''spec'', VMap [(''replicas'', VInt 3)])])\<rparr>"
  have "\<not> isl (TypedValue_Merge ?l (ex_config 5))" by code_simp
  then obtain tv where tv: "TypedValue_Merge ?l (ex_config 5) = Inr tv" using not_isl by blast
  have gt: "granular_type ex_types (ex_named ''object'') [''spec'', ''replicas''] = Some ex_numeric"
    "granular_type ex_types (ex_named ''object'') [''name''] = Some ex_string" by code_simp+
  have leaf: "leaf_value (MkAtom (Some Numeric) None None) (VInt n)" "leaf_value (MkAtom (Some String) None None) (VString s)" for n s
    by (simp_all add: leaf_value_def scalar_ok_def)
  have ok: "TypedValue_ok No_Floats ?l" using ex_object_ok(2) [of 3] by (simp add: TypedValue_ok_def)
  have l: "lookup_side (tv_value ?l) [''spec'', ''replicas''] = Some (VInt 3)" "lookup_side (tv_value ?l) [''name''] = Some (VString ''web'')"
    and r: "lookup_side (tv_value (ex_config 5)) [''spec'', ''replicas''] = Some (VInt 5)" "lookup_side (tv_value (ex_config 5)) [''name''] = None"
    by (simp_all add: lookup_side_def ex_config_def)
  have maps: "pred_option (\<lambda>v. on_maps v ks) (tv_value ?l)" "pred_option (\<lambda>v. on_maps v ks) (tv_value (ex_config 5))"
    if "ks \<in> {[''spec'', ''replicas''], [''name'']}" for ks
    using that by (auto simp: ex_config_def)
  have "lookup_side (tv_value tv) [''spec'', ''replicas''] = Some (VInt 5)"
    using Merge_fields [OF ok ex_config_ok(1) tv, of "[''spec'', ''replicas'']" ex_numeric] maps [of "[''spec'', ''replicas'']"] gt(1) ex_resolve(6) leaf l r
    by (simp del: granular_type.simps on_maps.simps)
  moreover have "lookup_side (tv_value tv) [''name''] = Some (VString ''web'')"
    using Merge_fields [OF ok ex_config_ok(1) tv, of "[''name'']" ex_string] maps [of "[''name'']"] gt(2) ex_resolve(5) leaf l r
    by (simp del: granular_type.simps on_maps.simps)
  ultimately show ?thesis using tv by blast
qed

section \<open>Ownership\<close>

text \<open>C1 (functional): after \<^verbatim>\<open>Updater.Update\<close> the new object is returned, the manager who updated owns exactly what it owned and
  was not removed, and what was added or modified, less the ignored fields; every other manager keeps exactly the fields that did not
  change at its own version.\<close>

theorem Update_ownership:
  assumes "Updater_ok m s" "pred_option (TypedValue_ok m) live" "pred_option (TypedValue_ok m) new" "managers_wf m ms"
    and "Updater_Update s live new version ms manager = Inr (obj, ms')"
  shows "obj = new \<and> managers_wf m ms' \<and>
    (\<exists>ms1 c. reconcileManagedFieldsWithSchemaChanges s live ms = Inr ms1 \<and> comparison_at s live new version version = Inr (Some c) \<and>
      (\<forall>p. path_ok m p \<longrightarrow> owns ms' manager p \<longleftrightarrow>
        (owns ms1 manager p \<and> \<not> Set_Has (Removed c) p \<or> Set_Has (Modified c) p \<or> Set_Has (Added c) p) \<and> \<not> excluded (ignored s version) p) \<and>
      (\<forall>k p. k \<noteq> manager \<longrightarrow> path_ok m p \<longrightarrow> owns ms' k p \<longleftrightarrow> (\<exists>v c'. map_of ms1 k = Some v \<and> Set_Has (vset v) p \<and>
        comparison_at s live new version (apiVersion v) = Inr (Some c') \<and> \<not> changed c' p)))"
  using Update_owns(1,2,4) [OF assms] by blast

theorem Update_ownership_witness:
  "\<exists>ms'. Updater_Update ex_updater (Some (ex_tv 1)) (Some (ex_tv 2)) ''v1'' (ex_owner ''a'') ''b'' = Inr (Some (ex_tv 2), ms') \<and>
     managers_wf No_Floats ms' \<and> owns ms' ''b'' [ex_spec, ex_replicas] \<and> \<not> owns ms' ''a'' [ex_spec, ex_replicas]"
proof -
  let ?r = "Updater_Update ex_updater (Some (ex_tv 1)) (Some (ex_tv 2)) ''v1'' (ex_owner ''a'') ''b''"
  have "\<not> isl ?r" "case ?r of Inr (_, ms) \<Rightarrow> (case map_of ms ''b'' of Some v \<Rightarrow> Set_Has (vset v) [ex_spec, ex_replicas] | None \<Rightarrow> False) \<and> map_of ms ''a'' = None | _ \<Rightarrow> False"
    by code_simp+
  then obtain obj ms' where r: "?r = Inr (obj, ms')" "owns ms' ''b'' [ex_spec, ex_replicas]" "\<not> owns ms' ''a'' [ex_spec, ex_replicas]"
    by (auto simp: owns_def split: sum.splits option.splits prod.splits)
  have "obj = Some (ex_tv 2) \<and> managers_wf No_Floats ms'"
    using Update_ownership [OF _ _ _ _ r(1), of No_Floats] by simp
  with r show ?thesis by simp
qed

text \<open>C2 (functional): after \<^verbatim>\<open>Updater.Apply\<close> the manager who applied owns exactly the fields of its configuration that are not
  ignored, whatever it owned before; every other manager keeps exactly the fields that did not change at its own version; and without force
  none of the fields the others own was modified or added.\<close>

theorem Apply_ownership:
  assumes "Updater_ok m s" "TypedValue_ok m live" "TypedValue_ok m config" "managers_wf m ms"
    and "Updater_Apply s (Some live) (Some config) version ms manager force = Inr (obj, ms')"
  shows "managers_wf m ms' \<and>
    (\<forall>p. path_ok m p \<longrightarrow> owns ms' manager p \<longleftrightarrow>
      (\<exists>r \<in> set (owned_by config). r \<noteq> [] \<and> Path_Equals r p) \<and> \<not> excluded (ignored s version) p) \<and>
    (\<exists>ms1 new. reconcileManagedFieldsWithSchemaChanges s (Some live) ms = Inr ms1 \<and> (obj = None \<or> obj = new) \<and>
      (\<forall>k p. k \<noteq> manager \<longrightarrow> path_ok m p \<longrightarrow> owns ms' k p \<longleftrightarrow> (\<exists>v c'. map_of ms1 k = Some v \<and> Set_Has (vset v) p \<and>
        comparison_at s (Some live) new version (apiVersion v) = Inr (Some c') \<and> \<not> changed c' p)) \<and>
      (\<forall>k p v c'. \<not> force \<longrightarrow> k \<noteq> manager \<longrightarrow> path_ok m p \<longrightarrow> map_of ms1 k = Some v \<longrightarrow> Set_Has (vset v) p \<longrightarrow>
        comparison_at s (Some live) new version (apiVersion v) = Inr (Some c') \<longrightarrow> \<not> Set_Has (Modified c') p \<and> \<not> Set_Has (Added c') p))"
proof -
  obtain ms1 merged fs new c where run: "apply_run s live config version ms manager ms1 merged fs new"
    "update s (Some live) new version (AList.update manager (NewVersionedSet fs version True) ms1) manager force = Inr (ms', c)"
    "obj = new \<or> obj = None"
    using Apply_Inr [OF assms(5)] by metis
  note a = Apply_owns [OF assms(1-4) run(1,2)]
  have "reconcileManagedFieldsWithSchemaChanges s (Some live) ms = Inr ms1" using run(1) by (simp add: apply_run_def)
  then show ?thesis using a run(3) by (intro conjI exI [of _ ms1] exI [of _ new]) auto
qed

theorem Apply_ownership_witness:
  "\<exists>obj ms'. Updater_Apply ex_updater (Some (ex_tv 1)) (Some (ex_config 2)) ''v1'' (ex_owner ''a'') ''b'' True = Inr (obj, ms') \<and>
     owns ms' ''b'' [ex_spec, ex_replicas] \<and> \<not> owns ms' ''b'' [ex_spec]"
proof -
  let ?r = "Updater_Apply ex_updater (Some (ex_tv 1)) (Some (ex_config 2)) ''v1'' (ex_owner ''a'') ''b'' True"
  have "\<not> isl ?r" by code_simp
  then obtain obj ms' where r: "?r = Inr (obj, ms')" by (metis not_isl surj_pair)
  have "list_ex (\<lambda>r. r \<noteq> [] \<and> Path_Equals r [ex_spec, ex_replicas]) (owned_by (ex_config 2))"
    "\<not> list_ex (\<lambda>r. r \<noteq> [] \<and> Path_Equals r [ex_spec]) (owned_by (ex_config 2))" "ignored ex_updater ''v1'' = None"
    by code_simp+
  moreover have "path_ok No_Floats [ex_spec, ex_replicas]" "path_ok No_Floats [ex_spec]" by simp_all
  ultimately show ?thesis
    using Apply_ownership [OF _ _ _ _ r, of No_Floats] r
    by (intro exI [of _ obj] exI [of _ ms']) (simp add: list_ex_iff excluded_def)
qed

text \<open>C3 (error): \<^verbatim>\<open>update\<close>, when the comparisons at the managers' versions succeed, fails with conflicts exactly when it is not forced and
  another manager owns a field that was modified or added at its version; the conflicts name exactly these managers and fields; and
  otherwise it succeeds with the result of a forced update.\<close>

theorem update_conflict_iff:
  assumes "Updater_ok m s" "pred_option (TypedValue_ok m) old" "pred_option (TypedValue_ok m) new" "managers_wf m ms"
    and "comparable s old new version ms workflow"
  shows "((\<exists>cs. update s old new version ms workflow force = Inl (Conflicting cs)) \<longleftrightarrow>
      \<not> force \<and> (\<exists>k p. path_ok m p \<and> disputed s old new version ms workflow k p)) \<and>
    (\<forall>cs k p. update s old new version ms workflow force = Inl (Conflicting cs) \<longrightarrow> path_ok m p \<longrightarrow>
      (\<exists>c \<in> set cs. Manager c = k \<and> Path_Equals (Conflict_Path c) p) \<longleftrightarrow> disputed s old new version ms workflow k p) \<and>
    ((\<exists>cs. update s old new version ms workflow force = Inl (Conflicting cs)) \<or>
      update s old new version ms workflow force = update s old new version ms workflow True \<and> \<not> isl (update s old new version ms workflow True))"
  using update_conflicts(1,3) [OF assms, of force] update_conflicts(2) [OF assms] by (intro conjI allI impI) (blast+)

theorem update_conflict_iff_witness:
  "\<exists>k p. disputed ex_updater (Some (ex_tv 1)) (Some (ex_tv 2)) ''v1'' (ex_owner ''a'') ''b'' k p"
proof -
  let ?s = ex_updater and ?l = "Some (ex_tv 1)" and ?r = "Some (ex_tv 2)"
  have "\<not> isl (comparison_at ?s ?l ?r ''v1'' ''v1'')"
    "case update ?s ?l ?r ''v1'' (ex_owner ''a'') ''b'' False of Inl (Conflicting cs) \<Rightarrow> True | _ \<Rightarrow> False"
    by code_simp+
  then have "comparable ?s ?l ?r ''v1'' (ex_owner ''a'') ''b''"
    "\<exists>cs. update ?s ?l ?r ''v1'' (ex_owner ''a'') ''b'' False = Inl (Conflicting cs)"
    by (auto simp: comparable_def ex_owner_def NewVersionedSet_def split: sum.splits update_error.splits)
  then show ?thesis
    using update_conflict_iff [of No_Floats ?s ?l ?r "ex_owner ''a''" "''v1''" "''b''" False] by simp blast
qed

section \<open>The new object\<close>

text \<open>C4 (functional): when one representation serves all versions, the object that \<^verbatim>\<open>Apply\<close> returns has every scalar struct field of the
  configuration that is not ignored, with the configuration's value; and every scalar struct field of the live object that the
  configuration leaves out and another manager owns, with its live value.\<close>

theorem Apply_keeps_fields:
  assumes "Updater_ok m s" "TypedValue_ok m live" "TypedValue_ok m config" "managers_wf m ms"
    and "Updater_Apply s (Some live) (Some config) version ms manager force = Inr (Some tv, ms')"
    and "reconcileManagedFieldsWithSchemaChanges s (Some live) ms = Inr ms1" "identity_at s (apply_versions version ms1)"
    and "struct_scalar live ks x" "tv_schema config = tv_schema live" "tv_typeRef config = tv_typeRef live"
    and "has_field config ks x \<and> \<not> excluded (ignored s version) (fields_path ks) \<or>
      has_field live ks x \<and> (\<exists>u. tv_value config = Some u \<and> absent_field u ks) \<and> (\<exists>k. k \<noteq> manager \<and> owns ms1 k (fields_path ks))"
  shows "has_field tv ks x"
proof -
  obtain ms2 merged fs new where run: "apply_run s live config version ms manager ms2 merged fs new" "Some tv = new"
    using Apply_Inr [OF assms(5)] by (metis option.distinct(1))
  have r: "ms2 = ms1" "(applied_set s (Some config) version :: 'a update_error + FieldSet) = Inr fs"
    using run(1) assms(6) by (simp_all add: apply_run_def)
  have "Set_Has fs (fields_path ks)" if field: "has_field config ks x" "\<not> excluded (ignored s version) (fields_path ks)"
  proof -
    obtain tr where tr: "struct_type (schema_types (tv_schema config)) (tv_typeRef config) ks = Some tr" "ks \<noteq> []"
      "scalar_at (schema_types (tv_schema config)) tr x"
      using assms(8-10) valid_scalar_at by (auto simp: struct_scalar_def tv_struct_type_def)
    obtain v where v: "tv_value config = Some v" "lookup_fields v ks = Some x" using field(1) by (auto simp: has_field_def)
    have "fields_path ks \<in> set (owned_by config)" using owned_scalar_field [OF tr(1) v(2) tr(3)] v(1) by (simp add: owned_by_def)
    then show ?thesis
      using applied_set_laws(2) [OF assms(1,3) r(2) fields_path_ok(1)] field(2) tr(2) path.eqv_refl [OF fields_path_ok(1) [of m]]
      by (metis map_is_Nil_conv)
  qed
  then have "\<exists>tv. new = Some tv \<and> has_field tv ks x"
    using apply_prune_field(1) [OF assms(1-4) run(1) [unfolded r(1)] assms(7,8)] assms(11) by blast
  with run(2) show ?thesis by blast
qed

theorem Apply_keeps_fields_witness:
  "\<exists>tv ms'. Updater_Apply ex_updater (Some (ex_tv 1)) (Some (ex_config 2)) ''v1'' (ex_owner ''b'') ''b'' False = Inr (Some tv, ms') \<and>
     has_field tv [''spec'', ''replicas''] (VInt 2)"
proof -
  let ?r = "Updater_Apply ex_updater (Some (ex_tv 1)) (Some (ex_config 2)) ''v1'' (ex_owner ''b'') ''b'' False"
  have "case ?r of Inr (Some _, _) \<Rightarrow> True | _ \<Rightarrow> False"
    "reconcileManagedFieldsWithSchemaChanges ex_updater (Some (ex_tv 1)) (ex_owner ''b'') = Inr (ex_owner ''b'')" by code_simp+
  then obtain tv ms' where r: "?r = Inr (Some tv, ms')" by (auto split: sum.splits option.splits prod.splits)
  have ev: "struct_type ex_types (ex_named ''object'') [''spec'', ''replicas''] = Some ex_numeric"
    "lookup_fields (VMap [(''spec'', VMap [(''replicas'', VInt 2)])]) [''spec'', ''replicas''] = Some (VInt 2)"
    "ignored ex_updater ''v1'' = None" by code_simp+
  have "struct_scalar (ex_tv 1) [''spec'', ''replicas''] (VInt 2)"
    using ev(1) ex_resolve(6) by (auto simp: struct_scalar_def tv_struct_type_def valid_scalar_def scalar_ok_def)
  moreover have "identity_at ex_updater (apply_versions ''v1'' (ex_owner ''b''))"
    by (rule ex_identity) (simp add: apply_versions_def ex_owner_def NewVersionedSet_def)
  moreover have "has_field (ex_config 2) [''spec'', ''replicas''] (VInt 2)" using ev(2) by (simp add: has_field_def ex_config_def)
  ultimately have "has_field tv [''spec'', ''replicas''] (VInt 2)"
    using Apply_keeps_fields [OF _ _ _ _ r, of No_Floats "ex_owner ''b''" "[''spec'', ''replicas'']" "VInt 2"] ev(3)
      \<open>reconcileManagedFieldsWithSchemaChanges ex_updater (Some (ex_tv 1)) (ex_owner ''b'') = Inr (ex_owner ''b'')\<close>
    by (simp add: excluded_def)
  with r show ?thesis by blast
qed

text \<open>C9 (functional): when one representation serves all versions, a scalar struct field that the manager owned before, that its new
  configuration leaves out and at or below which no other manager owns anything, is not in the object that \<^verbatim>\<open>Apply\<close> returns.\<close>

theorem Apply_prunes_field:
  assumes "Updater_ok m s" "TypedValue_ok m live" "TypedValue_ok m config" "managers_wf m ms"
    and "Updater_Apply s (Some live) (Some config) version ms manager force = Inr (Some tv, ms')"
    and "reconcileManagedFieldsWithSchemaChanges s (Some live) ms = Inr ms1" "identity_at s (apply_versions version ms1)"
    and "struct_scalar live ks x" "tv_schema config = tv_schema live" "tv_typeRef config = tv_typeRef live"
    and "has_field live ks x" "tv_value config = Some u" "absent_field u ks" "owns ms1 manager (fields_path ks)"
    and "\<not> (\<exists>k q. k \<noteq> manager \<and> path_ok m q \<and> owns ms1 k (fields_path ks @ q))"
  shows "lacks_field tv ks"
proof -
  obtain ms2 merged fs new where run: "apply_run s live config version ms manager ms2 merged fs new" "Some tv = new"
    using Apply_Inr [OF assms(5)] by (metis option.distinct(1))
  have r: "ms2 = ms1" "(applied_set s (Some config) version :: 'a update_error + FieldSet) = Inr fs"
    using run(1) assms(6) by (simp_all add: apply_run_def)
  obtain tr where tr: "struct_type (schema_types (tv_schema config)) (tv_typeRef config) ks = Some tr"
    using assms(8-10) by (auto simp: struct_scalar_def tv_struct_type_def)
  have ok: "value_ok m u" using assms(3,12) by (simp add: TypedValue_ok_def)
  have "\<not> Set_Has fs (fields_path ks @ q)" if q: "path_ok m q" for q
  proof
    assume "Set_Has fs (fields_path ks @ q)"
    then obtain r where "r \<in> set (owned_by config)" "Path_Equals r (fields_path ks @ q)"
      using applied_set_laws(2) [OF assms(1,3) r(2), of "fields_path ks @ q"] q by auto
    then show False
      using owned_has_field [OF tr ok] absent_lookup [OF assms(13)] assms(12) by (auto simp: owned_by_def)
  qed
  then have "\<exists>tv. new = Some tv \<and> lacks_field tv ks"
    using apply_prune_field(2) [OF assms(1-4) run(1) [unfolded r(1)] assms(7,8) _ assms(14) _ assms(15)] assms(11-13) by blast
  with run(2) show ?thesis by blast
qed

lemma ex_struct_scalar: "struct_scalar (ex_tv 1) [''spec'', ''replicas''] (VInt n)" "has_field (ex_tv 1) [''spec'', ''replicas''] (VInt 1)"
proof -
  have ev: "struct_type ex_types (ex_named ''object'') [''spec'', ''replicas''] = Some ex_numeric"
    "lookup_fields (ex_object 1) [''spec'', ''replicas''] = Some (VInt 1)" by code_simp+
  show "struct_scalar (ex_tv 1) [''spec'', ''replicas''] (VInt n)"
    using ev(1) ex_resolve(6) by (auto simp: struct_scalar_def tv_struct_type_def valid_scalar_def scalar_ok_def)
  show "has_field (ex_tv 1) [''spec'', ''replicas''] (VInt 1)" using ev(2) by (simp add: has_field_def)
qed

lemma ex_owner_versions: "identity_at ex_updater (apply_versions ''v1'' (ex_owner k))"
  by (rule ex_identity) (simp add: apply_versions_def ex_owner_def NewVersionedSet_def)

theorem Apply_prunes_field_witness:
  "\<exists>tv ms'. Updater_Apply ex_updater (Some (ex_tv 1)) (Some ex_name) ''v1'' (ex_owner ''a'') ''a'' False = Inr (Some tv, ms') \<and>
     lacks_field tv [''spec'', ''replicas'']"
proof -
  let ?r = "Updater_Apply ex_updater (Some (ex_tv 1)) (Some ex_name) ''v1'' (ex_owner ''a'') ''a'' False"
  have ev: "case ?r of Inr (Some _, _) \<Rightarrow> True | _ \<Rightarrow> False"
    "reconcileManagedFieldsWithSchemaChanges ex_updater (Some (ex_tv 1)) (ex_owner ''a'') = Inr (ex_owner ''a'')"
    "absent_field (VMap [(''name'', VString ''web'')]) [''spec'', ''replicas'']"
    "case map_of (ex_owner ''a'') ''a'' of Some v \<Rightarrow> Set_Has (vset v) [ex_spec, ex_replicas] | None \<Rightarrow> False" by code_simp+
  then obtain tv ms' where r: "?r = Inr (Some tv, ms')" by (auto split: sum.splits option.splits prod.splits)
  have "owns (ex_owner ''a'') ''a'' (fields_path [''spec'', ''replicas''])"
    using ev(4) unfolding ex_spec_path by (auto simp: owns_def split: option.splits)
  moreover have "\<forall>k p. k \<noteq> ''a'' \<longrightarrow> \<not> owns (ex_owner ''a'') k p" by (simp add: owns_def ex_owner_def)
  ultimately have "lacks_field tv [''spec'', ''replicas'']"
    using Apply_prunes_field [OF _ _ _ _ r ev(2) ex_owner_versions ex_struct_scalar(1) _ _ ex_struct_scalar(2), of No_Floats] ev(3)
    by (simp del: absent_field.simps) blast
  with r show ?thesis by blast
qed

text \<open>C11 (safety): \<^verbatim>\<open>prune\<close> returns the merged object, or its conversion less items that are all in the last applied set or are named fields
  above a path of it; nothing that the manager did not apply last time is named for removal, whatever the converter does.\<close>

theorem prune_removes_last:
  assumes "Updater_ok m s" "pred_option (TypedValue_ok m) merged" "pred_option (\<lambda>l. Set_wf m (vset l)) lastSet"
    and "prune s merged ms manager lastSet = Inr obj"
  shows "obj = merged \<or> (\<exists>l tv pruned v. lastSet = Some l \<and> convert s merged (apiVersion l) = (Some tv, None) \<and>
    removes_last m tv (vset l) pruned \<and> map_of ms manager = Some v \<and> convert s pruned (apiVersion v) = (obj, None))"
  using prune_shape [OF assms] by blast

theorem prune_removes_last_witness:
  "\<exists>tv. prune ex_updater (Some (ex_tv 1)) (ex_owner ''a'') ''a'' (Some (NewVersionedSet (NewSet [[ex_name_field]]) ''v1'' True)) = Inr (Some tv) \<and>
     removes_last No_Floats (ex_tv 1) (NewSet [[ex_name_field]]) (Some tv) \<and> tv \<noteq> ex_tv 1"
proof -
  let ?l = "NewVersionedSet (NewSet [[ex_name_field]]) ''v1'' True"
  let ?p = "prune ex_updater (Some (ex_tv 1)) (ex_owner ''a'') ''a'' (Some ?l)"
  have ev: "case ?p of Inr (Some tv) \<Rightarrow> tv_value tv \<noteq> Some (ex_object 1) | _ \<Rightarrow> False" by code_simp
  then obtain tv where tv: "?p = Inr (Some tv)" "tv_value tv \<noteq> Some (ex_object 1)" by (auto split: sum.splits option.splits)
  then have ne: "tv \<noteq> ex_tv 1" by auto
  have wf: "Set_wf No_Floats (vset ?l)" using NewSet_wf [of No_Floats "[[ex_name_field]]"] by (simp add: NewVersionedSet_def ex_name_field_def)
  have conv: "convert ex_updater x ''v1'' = (x, None)" for x by (simp add: ex_updater_def dummyConverter_def)
  show ?thesis
    using prune_removes_last [of No_Floats ex_updater "Some (ex_tv 1)" "Some ?l" "ex_owner ''a''" "''a''" "Some tv"] tv ne wf
    by (auto simp: conv NewVersionedSet_def ex_owner_def)
qed

text \<open>A consequence: an item below a struct field that nobody owns is dropped by \<^verbatim>\<open>prune\<close> with the struct field, when the last applied set has
  another field of the struct and nothing in it is owned: \<^verbatim>\<open>addBackDanglingItems\<close> does not add it back.\<close>

theorem prune_drops_unowned:
  "\<exists>tv ms'. Updater_Apply ex_updater (Some (ex_tv 1)) (Some ex_name) ''v1'' (ex_owner ''a'') ''a'' False = Inr (Some tv, ms') \<and>
     \<not> owns (ex_owner ''a'') ''a'' [ex_spec, pe_field ''ports''] \<and> lookup_fields (ex_object 1) [''spec'', ''ports''] \<noteq> None \<and>
     lacks_field tv [''spec'', ''ports'']"
proof -
  let ?r = "Updater_Apply ex_updater (Some (ex_tv 1)) (Some ex_name) ''v1'' (ex_owner ''a'') ''a'' False"
  have ev: "case ?r of Inr (Some tv, _) \<Rightarrow> (case tv_value tv of Some v \<Rightarrow> lookup_fields v [''spec'', ''ports''] = None | None \<Rightarrow> True) | _ \<Rightarrow> False"
    "lookup_fields (ex_object 1) [''spec'', ''ports''] \<noteq> None"
    "case map_of (ex_owner ''a'') ''a'' of Some v \<Rightarrow> \<not> Set_Has (vset v) [ex_spec, pe_field ''ports''] | None \<Rightarrow> False" by code_simp+
  then obtain tv ms' where "?r = Inr (Some tv, ms')" "lacks_field tv [''spec'', ''ports'']"
    by (auto simp: lacks_field_def simp del: lookup_fields.simps split: sum.splits option.splits prod.splits)
  then show ?thesis using ev(2,3) by (auto simp: owns_def split: option.splits)
qed

section \<open>The state machine\<close>

text \<open>C10 (invariant): in every state that operations reach, in any order and whether or not they fail, the live object and all sets are
  well-formed, the managers are distinct and none owns the empty set.\<close>

theorem reachable_states_ok:
  assumes "reachable m yaml s0 s" "state_ok m s0" "decoder_ok m yaml"
  shows "pred_option (TypedValue_ok m) (Live s) \<and> managers_wf m (StateManagers s) \<and>
    (\<forall>k v. map_of (StateManagers s) k = Some v \<longrightarrow> \<not> Set_Empty (vset v))"
proof -
  have "state_ok m s" using reachable_ok [OF assms] .
  then show ?thesis
    using no_empty_sets_map_of [of "StateManagers s"] by (auto simp: state_ok_def managers_ok_def managers_wf_def)
qed

definition ex_state :: "string State" where
  "ex_state = \<lparr>Live = Some (ex_tv 1), StateParser = (\<lambda>_. \<lparr>pt_TypeRef = ex_named ''object'', pt_Schema = ex_schema\<rparr>),
     StateManagers = [], StateUpdater = ex_updater\<rparr>"

definition ex_yaml :: "YAMLObject \<Rightarrow> string + Value" where
  "ex_yaml doc = (if doc = ''name: web'' then Inr (VMap [(''name'', VString ''web'')]) else Inl ''unexpected'')"

definition ex_op :: Operation where
  "ex_op = Op_Apply \<lparr>op_Manager = ''a'', op_APIVersion = ''v1'', op_Object = ''name: web''\<rparr> None"

lemma ex_state_ok [simp]: "state_ok No_Floats ex_state" "decoder_ok No_Floats ex_yaml" "op_ok No_Floats ex_op"
  by (simp_all add: ex_state_def state_ok_def managers_ok_def managers_wf_def no_empty_sets_def type_ok_def decoder_ok_def ex_yaml_def
      op_ok_def ex_op_def)

theorem reachable_states_ok_witness:
  "\<exists>s. reachable No_Floats ex_yaml ex_state s \<and> managers_wf No_Floats (StateManagers s) \<and> map_of (StateManagers s) ''a'' \<noteq> None"
proof -
  let ?r = "run ex_yaml ex_op ex_state :: string State \<times> (string, string) state_error option"
  have "map_of (StateManagers (fst ?r)) ''a'' \<noteq> None" by code_simp
  moreover have r: "reachable No_Floats ex_yaml ex_state (fst ?r)"
    by (rule reachable_step [OF reachable_init ex_state_ok(3), of _ _ "fst ?r" "snd ?r"]) simp
  moreover have "managers_wf No_Floats (StateManagers (fst ?r))" using reachable_states_ok [OF r ex_state_ok(1,2)] by simp
  ultimately show ?thesis by (intro exI [of _ "fst ?r"] conjI)
qed

text \<open>The last check of a test case never fires: with a converter and a decoder that keep objects well-formed, no run of
  \<^verbatim>\<open>TestWithConverter\<close> ends with a manager that owns the empty set.\<close>

theorem TestCase_no_empty_sets:
  fixes converter :: "'e Converter" and yaml :: "YAMLObject \<Rightarrow> 'y + Value"
  assumes "converter_ok m converter" "decoder_ok m yaml" "\<forall>v. type_ok m (parser v)" "list_all (op_ok m) (Ops tc)"
    and "list_all (\<lambda>e. pred_option (Set_wf m) (snd e)) (tc_IgnoredFields tc)"
  shows "TestWithConverter yaml diff tc parser converter \<noteq> Some (Empty_Set_Of k)"
proof
  assume fail: "TestWithConverter yaml diff tc parser converter = Some (Empty_Set_Of k)"
  let ?s0 = "initial_state tc parser converter"
  obtain s e where run: "run_all yaml 0 (Ops tc) ?s0 = (s, e)" by (metis surj_pair)
  have ok: "state_ok m s"
    using reachable_ok [OF run_all_reachable [OF run assms(4) reachable_init] initial_ok [OF assms(1,5,3)] assms(2)] .
  have none: "e \<noteq> Some (Empty_Set_Of k)" using run_all_error [OF run] by auto
  obtain s' e' where chk: "check_object yaml diff tc s = (s', e')" by (metis surj_pair)
  have "(check_no_empty_sets s' :: ('e, 'y) state_error option) = None"
    using ok check_object_managers [OF chk] by (simp add: check_no_empty_sets_iff state_ok_def managers_ok_def)
  then show False
    using fail run none chk
    by (auto simp: TestWithConverter_def check_object_def check_managers_def Let_def split: option.splits prod.splits sum.splits if_splits)
qed

definition ex_test :: TestCase where
  "ex_test = \<lparr>Ops = [ex_op], tc_Object = [], tc_APIVersion = [], tc_Managed = None, tc_ReturnInputOnNoop = False, tc_IgnoredFields = []\<rparr>"

theorem TestCase_no_empty_sets_witness:
  "TestCase_Test ex_yaml (\<lambda>_ _. []) ex_test (StateParser ex_state) \<noteq> Some (Empty_Set_Of ''a'')"
proof -
  have "\<forall>v. type_ok No_Floats (StateParser ex_state v)" using ex_state_ok(1) by (simp add: state_ok_def)
  then show ?thesis
    unfolding TestCase_Test_def
    by (rule TestCase_no_empty_sets [OF dummyConverter_ok ex_state_ok(2)]) (simp_all add: ex_test_def)
qed

text \<open>\<^verbatim>\<open>Apply\<close> that succeeds returns no object exactly when the flag asks for a comparison and the live value equals
  the value of the object it would have returned; the managers do not depend on the flag.\<close>

theorem Apply_noop:
  assumes "Updater_Apply (s\<lparr>returnInputOnNoop := True\<rparr>) (Some live) (Some config) version ms manager force = Inr (Some new, ms')"
    and "tv_value live = Some x" "tv_value new = Some y"
  shows "Updater_Apply (s\<lparr>returnInputOnNoop := False\<rparr>) (Some live) (Some config) version ms manager force =
    Inr (if Equals x y then None else Some new, ms')"
  using assms Apply_flag [of s live config version ms manager force] by (simp add: same_object_def)

theorem Apply_noop_witness:
  "\<exists>ms'. Updater_Apply (ex_updater\<lparr>returnInputOnNoop := False\<rparr>) (Some (ex_tv 1)) (Some (ex_config 1)) ''v1'' [] ''a'' False = Inr (None, ms')"
proof -
  let ?r = "Updater_Apply (ex_updater\<lparr>returnInputOnNoop := True\<rparr>) (Some (ex_tv 1)) (Some (ex_config 1)) ''v1'' [] ''a'' False"
  have ev: "case ?r of Inr (Some tv, _) \<Rightarrow> (case tv_value tv of Some y \<Rightarrow> Equals (ex_object 1) y | None \<Rightarrow> False) | _ \<Rightarrow> False" by code_simp
  then obtain new ms' y where "?r = Inr (Some new, ms')" "tv_value new = Some y" "Equals (ex_object 1) y"
    by (auto split: sum.splits option.splits prod.splits)
  with Apply_noop [OF this(1) _ this(2), of "ex_object 1"] show ?thesis by simp
qed

section \<open>Parsers\<close>

text \<open>The deduced type accepts every value made of nulls, scalars, lists and maps, and returns it unchanged.\<close>

theorem Deduced_accepts:
  assumes "plain v" "value_ok m v"
  shows "FromUnstructured (DeducedParseableType addr) v opts =
    Inr (AsTypedUnvalidated (Some v) (pt_Schema (DeducedParseableType addr)) (pt_TypeRef (DeducedParseableType addr)))"
proof -
  let ?p = "DeducedParseableType addr"
  have p: "schema_types (pt_Schema ?p) = deduced_types" "pt_TypeRef ?p = text_named ''__untyped_deduced_''"
    by (simp_all add: DeducedParseableType_def Parser_Type_def text_named_def)
  have ok: "Schema_ok m deduced_types" "TypeRef_ok m (text_named ''__untyped_deduced_'')"
    by (simp_all add: deduced_types_def Schema_ok_def text_untyped_atomic_def text_named_def Atom_zero_def)
  then show ?thesis
    unfolding FromUnstructured_def
    using AsTyped_iff [of m "pt_Schema ?p" "pt_TypeRef ?p" v opts] assms deduced_conforms [OF assms(1)] by (simp add: p)
qed

theorem Deduced_accepts_witness:
  "\<not> isl (FromUnstructured (DeducedParseableType 0) (ex_object 1) [])"
proof -
  have "plain (ex_object 1)" by code_simp
  then show ?thesis using Deduced_accepts [OF _ ex_object_ok(1), of 1 0 "[]"] by simp
qed

text \<open>The schema of schemas describes itself: its own text is a valid object of its type \<^verbatim>\<open>schema\<close>, so \<^verbatim>\<open>NewParser\<close> accepts it.\<close>

theorem SchemaSchema_validates_itself:
  "\<exists>tv. FromUnstructured (Parser_Type (ssParser addr) ''schema'') SchemaSchema_document [] = Inr tv"
  using self_validates [of addr] by (cases "FromUnstructured (Parser_Type (ssParser addr) ''schema'') SchemaSchema_document []") auto

text \<open>\<^verbatim>\<open>FixTabsOrDie\<close> takes the indentation off a text that starts on a new line and is indented by any number of tabs.\<close>

theorem FixTabs_roundtrip:
  assumes "\<And>cs. hd (split_lines doc) \<noteq> CHR 0x09 # cs"
  shows "FixTabsOrDie (CHR 0x0A # indent n doc) = Some doc"
  using FixTabs_indent [OF assms] .

theorem FixTabs_roundtrip_witness: "FixTabsOrDie (CHR 0x0A # indent 2 ''name: web'') = Some ''name: web''"
proof (rule FixTabs_roundtrip)
  have "hd (split_lines ''name: web'') = ''name: web''" by code_simp
  then show "hd (split_lines ''name: web'') \<noteq> CHR 0x09 # cs" for cs by simp
qed

end
