(* ===== verification/Decimal.thy ===== *)
theory Decimal
  imports SMD_Prelude
begin

text \<open>
  The decimal numbers and the base64 encoding of the Go standard library: \<^verbatim>\<open>strconv.Atoi\<close> (which is \<^verbatim>\<open>ParseInt\<close> in base 10 for 64
  bits), the decimal form of an \<^verbatim>\<open>int\<close>, and \<^verbatim>\<open>base64.StdEncoding\<close>.
\<close>

text \<open>\<^verbatim>\<open>strconv.Atoi\<close> and the decimal form of an \<^verbatim>\<open>int\<close>.\<close>

definition digit_val :: "char \<Rightarrow> nat option" where
  "digit_val c = (let n = of_char c in if 48 \<le> n \<and> n \<le> 57 then Some (n - 48) else None)"

fun read_digits :: "string \<Rightarrow> nat \<Rightarrow> nat option" where
  "read_digits [] acc = Some acc"
| "read_digits (c # cs) acc = (case digit_val c of None \<Rightarrow> None | Some d \<Rightarrow> read_digits cs (10 * acc + d))"

definition Atoi :: "string \<Rightarrow> 64 word option" where
  "Atoi s =
     (let neg = (s \<noteq> [] \<and> hd s = CHR ''-'');
          digits = (if s \<noteq> [] \<and> (hd s = CHR ''-'' \<or> hd s = CHR ''+'') then tl s else s)
      in if digits = [] then None
         else case read_digits digits 0 of
                None \<Rightarrow> None
              | Some n \<Rightarrow>
                  let i = (if neg then - int n else int n)
                  in if - (2 ^ 63) \<le> i \<and> i < 2 ^ 63 then Some (word_of_int i) else None)"

fun show_nat :: "nat \<Rightarrow> string" where
  "show_nat n = (if n < 10 then [char_of (48 + n)] else show_nat (n div 10) @ [char_of (48 + n mod 10)])"

declare show_nat.simps [simp del]

definition Itoa :: "64 word \<Rightarrow> string" where
  "Itoa i = (if sint i < 0 then CHR ''-'' # show_nat (nat (- sint i)) else show_nat (nat (sint i)))"

text \<open>\<^verbatim>\<open>base64.StdEncoding.EncodeToString\<close>: groups of three bytes, and padding.\<close>

definition base64_char :: "nat \<Rightarrow> char" where
  "base64_char n = ''ABCDEFGHIJKLMNOPQRSTUVWXYZabcdefghijklmnopqrstuvwxyz0123456789+/'' ! (n mod 64)"

fun base64 :: "nat list \<Rightarrow> string" where
  "base64 (a # b # c # rest) =
     [base64_char (a div 4), base64_char (a mod 4 * 16 + b div 16), base64_char (b mod 16 * 4 + c div 64), base64_char c] @ base64 rest"
| "base64 [a, b] = [base64_char (a div 4), base64_char (a mod 4 * 16 + b div 16), base64_char (b mod 16 * 4), CHR ''='']"
| "base64 [a] = [base64_char (a div 4), base64_char (a mod 4 * 16), CHR ''='', CHR ''='']"
| "base64 [] = []"

section \<open>Decimal numbers\<close>

lemma read_digits_append:
  "read_digits (xs @ ys) acc = (case read_digits xs acc of None \<Rightarrow> None | Some a \<Rightarrow> read_digits ys a)"
  by (induction xs arbitrary: acc) (auto split: option.splits)

lemma digit_val_char_of [simp]: "d < 10 \<Longrightarrow> digit_val (char_of (48 + d)) = Some d"
  by (simp add: digit_val_def)

lemma read_digits_show_nat: "read_digits (show_nat n) 0 = Some n"
proof (induction n rule: show_nat.induct)
  case (1 n)
  then show ?case
    by (subst show_nat.simps) (auto simp: read_digits_append)
qed

lemma show_nat_digits: "c \<in> set (show_nat n) \<Longrightarrow> digit_val c \<noteq> None"
proof (induction n rule: show_nat.induct)
  case (1 n)
  show ?case
  proof (cases "n < 10")
    case True
    then have "c = char_of (48 + n)" using "1.prems" by (subst (asm) show_nat.simps) simp
    then show ?thesis using True by simp
  next
    case False
    then consider "c \<in> set (show_nat (n div 10))" | "c = char_of (48 + n mod 10)"
      using "1.prems" by (subst (asm) show_nat.simps) auto
    then show ?thesis using "1.IH" [OF False] by cases simp_all
  qed
qed

lemma show_nat_Nil [simp]: "show_nat n \<noteq> []"
  by (subst show_nat.simps) simp

lemma show_nat_hd: "hd (show_nat n) \<noteq> CHR ''-'' \<and> hd (show_nat n) \<noteq> CHR ''+''"
  using show_nat_digits [of "hd (show_nat n)" n] by (auto simp: digit_val_def)

lemma Atoi_Itoa: "Atoi (Itoa i) = Some i"
proof -
  have bounds: "- (2 ^ 63) \<le> sint i" "sint i < 2 ^ 63"
    using sint_greater_eq [of i] sint_less [of i] by simp_all
  then show ?thesis
    using show_nat_hd [of "nat (sint i)"] by (auto simp: Atoi_def Itoa_def read_digits_show_nat Let_def)
qed

end
