(* ===== verification/Serialization.thy ===== *)
theory Serialization
  imports Named_Fields Decimal
begin

text \<open>
  \<^verbatim>\<open>fieldpath/serialize.go\<close>, \<^verbatim>\<open>fieldpath/serialize-pe.go\<close> and the JSON functions of \<^verbatim>\<open>value/value.go\<close>.  The text of
  JSON documents is the business of the library jsoniter, which is an argument of the definitions: what the calls on a
  stream write, and how an iterator moves over a text.  A buffer as a writer never fails, so the errors are those of the library
  (a value that JSON has no form for) and of the path elements.  Pools, buffer sizes and flushing do not show in the
  text.
\<close>

section \<open>The library\<close>

text \<open>The calls on a \<^verbatim>\<open>jsoniter.Stream\<close>.\<close>

datatype stream_op =
    WriteObjectStart
  | WriteObjectEnd
  | WriteMore
  | WriteEmptyObject
  | WriteObjectField string
  | WriteVal Value
  | WriteRaw string
  | WriteInt "64 word"

text \<open>
  \<open>render\<close> is what a sequence of calls leaves in the writer, or the error that \<^verbatim>\<open>Flush\<close> returns.  \<open>iterate\<close> is a new iterator on a
  text, and \<open>Read\<close> and \<open>Skip\<close> are its methods.  \<^verbatim>\<open>ReadMapCB\<close> and \<^verbatim>\<open>ReadObjectCB\<close> call a function on every key: \<open>map_first\<close>
  is what they do up to the first call, \<open>map_next\<close> what they do after a call that returned true, each with the next key if
  there is one.  \<^verbatim>\<open>ReportError\<close> gets the error whose text it records.
\<close>

datatype 'e pe_error =
    Key_Too_Short
  | Missing_Colon string
  | Unknown_PathElementType
  | Bad_Index string
  | Invalid_PathElement
  | JSON_Error 'e

record ('i, 'e) json_lib =
  render :: "stream_op list \<Rightarrow> 'e + string"
  iterate :: "string \<Rightarrow> 'i"
  Read :: "'i \<Rightarrow> Value \<times> 'i"
  Skip :: "'i \<Rightarrow> 'i"
  map_first :: "'i \<Rightarrow> string option \<times> 'i"
  map_next :: "'i \<Rightarrow> string option \<times> 'i"
  iter_Error :: "'i \<Rightarrow> 'e option"
  ReportError :: "'i \<Rightarrow> 'e pe_error \<Rightarrow> 'i"
  is_EOF :: "'e \<Rightarrow> bool"

section \<open>Values\<close>

definition WriteJSONStream :: "Value \<Rightarrow> stream_op list" where
  "WriteJSONStream v = [WriteVal v]"

definition ReadJSONIter :: "('i, 'e) json_lib \<Rightarrow> 'i \<Rightarrow> ('e + Value) \<times> 'i" where
  "ReadJSONIter lib iter =
     (case Read lib iter of
        (v, iter') \<Rightarrow> (case iter_Error lib iter' of
            Some err \<Rightarrow> if \<not> is_EOF lib err then (Inl err, iter') else (Inr v, iter')
          | None \<Rightarrow> (Inr v, iter')))"

definition value_FromJSONFast :: "('i, 'e) json_lib \<Rightarrow> string \<Rightarrow> 'e + Value" where
  "value_FromJSONFast lib input = fst (ReadJSONIter lib (iterate lib input))"

definition value_FromJSON :: "('i, 'e) json_lib \<Rightarrow> string \<Rightarrow> 'e + Value" where
  "value_FromJSON lib input = value_FromJSONFast lib input"

definition value_ToJSON :: "('i, 'e) json_lib \<Rightarrow> Value \<Rightarrow> 'e + string" where
  "value_ToJSON lib v = render lib (WriteJSONStream v)"

section \<open>Path elements\<close>

text \<open>The loop over the fields of a key; \<open>i\<close> is the index of the first one.\<close>

fun write_fields :: "nat \<Rightarrow> FieldList \<Rightarrow> stream_op list" where
  "write_fields i [] = []"
| "write_fields i (field # flds) =
     (if i > 0 then [WriteMore] else []) @ WriteObjectField (fst field) # WriteJSONStream (snd field) @ write_fields (i + 1) flds"

definition write_key :: "FieldList \<Rightarrow> stream_op list" where
  "write_key flds = WriteObjectStart # write_fields 0 flds @ [WriteObjectEnd]"

text \<open>The separator is written at once, the rest when the stream is flushed.\<close>

definition flush :: "('i, 'e) json_lib \<Rightarrow> string \<Rightarrow> stream_op list \<Rightarrow> 'e pe_error + string" where
  "flush lib written ops = (case render lib ops of Inl err \<Rightarrow> Inl (JSON_Error err) | Inr x \<Rightarrow> Inr (written @ x))"

definition serializePathElementToWriter :: "('i, 'e) json_lib \<Rightarrow> PathElement \<Rightarrow> 'e pe_error + string" where
  "serializePathElementToWriter lib pe =
     (case FieldName pe of
        Some n \<Rightarrow> flush lib ''f:'' [WriteRaw n]
      | None \<Rightarrow> (case Key pe of
          Some flds \<Rightarrow> flush lib ''k:'' (write_key flds)
        | None \<Rightarrow> (case Value pe of
            Some v \<Rightarrow> flush lib ''v:'' (WriteJSONStream v)
          | None \<Rightarrow> (case Index pe of
              Some i \<Rightarrow> flush lib ''i:'' [WriteInt i]
            | None \<Rightarrow> Inl Invalid_PathElement))))"

text \<open>The string that comes with an error is not kept.\<close>

definition SerializePathElement :: "('i, 'e) json_lib \<Rightarrow> PathElement \<Rightarrow> 'e pe_error + string" where
  "SerializePathElement lib pe = serializePathElementToWriter lib pe"

text \<open>
  The fields of a key.  The first argument bounds the number of keys that are read; \<open>None\<close> is a run that has not ended.
  The error of the iterator is the result, with the fields read so far.
\<close>

fun read_fields :: "('i, 'e) json_lib \<Rightarrow> nat \<Rightarrow> string option \<Rightarrow> 'i \<Rightarrow> FieldList \<Rightarrow> (FieldList \<times> 'e option) option" where
  "read_fields lib n None iter flds = Some (flds, iter_Error lib iter)"
| "read_fields lib 0 (Some key) iter flds = None"
| "read_fields lib (Suc n) (Some key) iter flds =
     (case ReadJSONIter lib iter of
        (Inl err, iter') \<Rightarrow> Some (flds, Some err)
      | (Inr v, iter') \<Rightarrow> (case map_next lib iter' of (next, iter'') \<Rightarrow> read_fields lib n next iter'' (flds @ [(key, v)])))"

definition DeserializePathElement :: "('i, 'e) json_lib \<Rightarrow> string \<Rightarrow> ('e pe_error + PathElement) option" where
  "DeserializePathElement lib s =
     (let b = drop 2 s in
      if length s < 2 then Some (Inl Key_Too_Short)
      else if s ! 1 \<noteq> CHR '':'' then Some (Inl (Missing_Colon s))
      else if s ! 0 = CHR ''f'' then Some (Inr (pe_field b))
      else if s ! 0 = CHR ''v'' then
        Some (case fst (ReadJSONIter lib (iterate lib b)) of Inl err \<Rightarrow> Inl (JSON_Error err) | Inr v \<Rightarrow> Inr (pe_value v))
      else if s ! 0 = CHR ''k'' then
        (case map_first lib (iterate lib b) of (key, iter) \<Rightarrow>
          (case read_fields lib (length b) key iter [] of
             None \<Rightarrow> None
           | Some (flds, Some err) \<Rightarrow> Some (Inl (JSON_Error err))
           | Some (flds, None) \<Rightarrow> Some (Inr (pe_key (FieldList_Sort flds)))))
      else if s ! 0 = CHR ''i'' then
        Some (case Atoi b of None \<Rightarrow> Inl (Bad_Index b) | Some i \<Rightarrow> Inr (pe_index i))
      else Some (Inl Unknown_PathElementType))"

section \<open>Sets\<close>

text \<open>
  \<^verbatim>\<open>emitContentsV1\<close>: \<open>emit_contents\<close> is the rest of its loops, with what is left of the members and of the children;
  \<open>first\<close> is the flag of \<^verbatim>\<open>preWrite\<close>.
\<close>

definition preWrite :: "bool \<Rightarrow> stream_op list" where
  "preWrite first = (if first then [] else [WriteMore])"

fun emitContentsV1 :: "('i, 'e) json_lib \<Rightarrow> bool \<Rightarrow> FieldSet \<Rightarrow> 'e pe_error + stream_op list"
  and emit_contents :: "('i, 'e) json_lib \<Rightarrow> bool \<Rightarrow> PathElementSet \<Rightarrow> SetNodeMap \<Rightarrow> 'e pe_error + stream_op list" where
  "emitContentsV1 lib includeSelf (MkSet ms cs) =
     (if includeSelf \<and> \<not> (length ms = 0 \<and> length cs = 0) then
        (case emit_contents lib False ms cs of
           Inl err \<Rightarrow> Inl err
         | Inr ops \<Rightarrow> Inr (WriteObjectField ''.'' # WriteEmptyObject # ops))
      else emit_contents lib True ms cs)"
| "emit_contents lib first [] [] = Inr []"
| "emit_contents lib first (mpe # ms) [] =
     (case serializePathElementToWriter lib mpe of
        Inl err \<Rightarrow> Inl err
      | Inr x \<Rightarrow> (case emit_contents lib False ms [] of
          Inl err \<Rightarrow> Inl err
        | Inr ops \<Rightarrow> Inr (preWrite first @ [WriteObjectField x, WriteEmptyObject] @ ops)))"
| "emit_contents lib first [] ((cpe, s) # cs) =
     (case serializePathElementToWriter lib cpe of
        Inl err \<Rightarrow> Inl err
      | Inr x \<Rightarrow> (case emitContentsV1 lib False s of
          Inl err \<Rightarrow> Inl err
        | Inr sub \<Rightarrow> (case emit_contents lib False [] cs of
            Inl err \<Rightarrow> Inl err
          | Inr ops \<Rightarrow> Inr (preWrite first @ [WriteObjectField x, WriteObjectStart] @ sub @ WriteObjectEnd # ops))))"
| "emit_contents lib first (mpe # ms) ((cpe, s) # cs) =
     (let c = PathElement_Compare mpe cpe in
      if c < 0 then
        (case serializePathElementToWriter lib mpe of
           Inl err \<Rightarrow> Inl err
         | Inr x \<Rightarrow> (case emit_contents lib False ms ((cpe, s) # cs) of
             Inl err \<Rightarrow> Inl err
           | Inr ops \<Rightarrow> Inr (preWrite first @ [WriteObjectField x, WriteEmptyObject] @ ops)))
      else if c > 0 then
        (case serializePathElementToWriter lib cpe of
           Inl err \<Rightarrow> Inl err
         | Inr x \<Rightarrow> (case emitContentsV1 lib False s of
             Inl err \<Rightarrow> Inl err
           | Inr sub \<Rightarrow> (case emit_contents lib False (mpe # ms) cs of
               Inl err \<Rightarrow> Inl err
             | Inr ops \<Rightarrow> Inr (preWrite first @ [WriteObjectField x, WriteObjectStart] @ sub @ WriteObjectEnd # ops))))
      else
        (case serializePathElementToWriter lib cpe of
           Inl err \<Rightarrow> Inl err
         | Inr x \<Rightarrow> (case emitContentsV1 lib True s of
             Inl err \<Rightarrow> Inl err
           | Inr sub \<Rightarrow> (case emit_contents lib False ms cs of
               Inl err \<Rightarrow> Inl err
             | Inr ops \<Rightarrow> Inr (preWrite first @ [WriteObjectField x, WriteObjectStart] @ sub @ WriteObjectEnd # ops)))))"

definition ToJSONStream :: "('i, 'e) json_lib \<Rightarrow> FieldSet \<Rightarrow> 'e pe_error + string" where
  "ToJSONStream lib s =
     (case emitContentsV1 lib False s of
        Inl err \<Rightarrow> Inl err
      | Inr ops \<Rightarrow> flush lib [] (WriteObjectStart # ops @ [WriteObjectEnd]))"

definition ToJSON :: "('i, 'e) json_lib \<Rightarrow> FieldSet \<Rightarrow> 'e pe_error + string" where
  "ToJSON lib s = ToJSONStream lib s"

text \<open>Adding a member or a subset to the set that is being read, which is nil (\<open>None\<close>) before the first one.\<close>

definition read_member :: "FieldSet option \<Rightarrow> PathElement \<Rightarrow> FieldSet" where
  "read_member children pe =
     (let s = (case children of None \<Rightarrow> MkSet [] [] | Some s \<Rightarrow> s); ms = Members s;
          appendOK = (length ms = 0 \<or> PathElement_Less (last ms) pe)
      in MkSet (if appendOK then ms @ [pe] else PathElementSet_Insert ms pe) (Children s))"

definition read_child :: "FieldSet option \<Rightarrow> PathElement \<Rightarrow> FieldSet \<Rightarrow> FieldSet" where
  "read_child children pe grandchildren =
     (let s = (case children of None \<Rightarrow> MkSet [] [] | Some s \<Rightarrow> s); cs = Children s;
          appendOK = (length cs = 0 \<or> PathElement_Less (fst (last cs)) pe)
      in MkSet (Members s) (if appendOK then cs @ [(pe, grandchildren)] else SetNodeMap_Descend cs pe (\<lambda>_. grandchildren)))"

text \<open>
  \<^verbatim>\<open>readIterV1\<close> with the set it returns, whether the subtree is a member of its parent, and the iterator afterwards;
  \<open>read_members\<close> is \<^verbatim>\<open>ReadMapCB\<close> from the call for a key on.  The number bounds the depth of calls: \<open>None\<close> is a run that
  has not ended.
\<close>

fun readIterV1 :: "('i, 'e) json_lib \<Rightarrow> nat \<Rightarrow> 'i \<Rightarrow> (FieldSet option \<times> bool \<times> 'i) option"
  and read_members :: "('i, 'e) json_lib \<Rightarrow> nat \<Rightarrow> string option \<Rightarrow> 'i \<Rightarrow> FieldSet option \<Rightarrow> bool \<Rightarrow>
    (FieldSet option \<times> bool \<times> 'i) option" where
  "readIterV1 lib 0 iter = None"
| "readIterV1 lib (Suc n) iter =
     (case map_first lib iter of (key, iter') \<Rightarrow>
       (case read_members lib n key iter' None False of
          None \<Rightarrow> None
        | Some (children, isMember, iter'') \<Rightarrow> Some (children, if children = None then True else isMember, iter'')))"
| "read_members lib n None iter children isMember = Some (children, isMember, iter)"
| "read_members lib 0 (Some key) iter children isMember = None"
| "read_members lib (Suc n) (Some key) iter children isMember =
     (if key = ''.'' then
        (case map_next lib (Skip lib iter) of (next, iter') \<Rightarrow> read_members lib n next iter' children True)
      else
        (case DeserializePathElement lib key of
           None \<Rightarrow> None
         | Some (Inl err) \<Rightarrow>
             (case map_next lib (Skip lib (if err = Unknown_PathElementType then iter else ReportError lib iter err)) of
                (next, iter') \<Rightarrow> read_members lib n next iter' children isMember)
         | Some (Inr pe) \<Rightarrow>
             (case readIterV1 lib n iter of
                None \<Rightarrow> None
              | Some (grandchildren, childIsMember, iter') \<Rightarrow>
                  let children = (if childIsMember then Some (read_member children pe) else children);
                      children = (case grandchildren of None \<Rightarrow> children | Some g \<Rightarrow> Some (read_child children pe g))
                  in (case map_next lib iter' of (next, iter'') \<Rightarrow> read_members lib n next iter'' children isMember))))"

text \<open>
  Every key takes a byte of the text at least, and two nested calls, so twice the length of the text bounds the depth.
\<close>

definition FromJSON :: "('i, 'e) json_lib \<Rightarrow> string \<Rightarrow> (FieldSet \<times> 'e option) option" where
  "FromJSON lib r =
     (case readIterV1 lib (Suc (2 * length r)) (iterate lib r) of
        None \<Rightarrow> None
      | Some (found, _, iter) \<Rightarrow> Some (case found of None \<Rightarrow> MkSet [] [] | Some s \<Rightarrow> s, iter_Error lib iter))"

end
