(* ===== verification/Serialization_Laws.thy ===== *)
theory Serialization_Laws
  imports Serialization
begin

text \<open>
  What \<^verbatim>\<open>FromJSON\<close> makes of any text, and that it reads back what \<^verbatim>\<open>ToJSON\<close> wrote.  The laws of the JSON library are
  predicates on the argument: an iterator moves forward over its text, and over the text of a written document it
  finds what was written.
\<close>

section \<open>Reading ends\<close>

text \<open>\<open>left\<close> measures what an iterator has still to read.\<close>

definition json_consumes :: "('i, 'e) json_lib \<Rightarrow> ('i \<Rightarrow> nat) \<Rightarrow> bool" where
  "json_consumes lib left \<longleftrightarrow>
     (\<forall>s. left (iterate lib s) \<le> length s) \<and>
     (\<forall>i. left (snd (map_first lib i)) \<le> left i \<and> (fst (map_first lib i) \<noteq> None \<longrightarrow> left (snd (map_first lib i)) < left i)) \<and>
     (\<forall>i. left (snd (map_next lib i)) \<le> left i \<and> (fst (map_next lib i) \<noteq> None \<longrightarrow> left (snd (map_next lib i)) < left i)) \<and>
     (\<forall>i. left (snd (Read lib i)) \<le> left i) \<and> (\<forall>i. left (Skip lib i) \<le> left i) \<and>
     (\<forall>i e. left (ReportError lib i e) \<le> left i)"

lemma consumes_iterate: "json_consumes lib left \<Longrightarrow> left (iterate lib s) \<le> length s"
  by (simp add: json_consumes_def)

lemma consumes_first:
  assumes "json_consumes lib left" "map_first lib i = (k, i')"
  shows "left i' \<le> left i" "k \<noteq> None \<Longrightarrow> left i' < left i"
proof -
  have "left (snd (map_first lib i)) \<le> left i \<and> (fst (map_first lib i) \<noteq> None \<longrightarrow> left (snd (map_first lib i)) < left i)"
    using assms(1) by (simp add: json_consumes_def)
  then show "left i' \<le> left i" "k \<noteq> None \<Longrightarrow> left i' < left i" by (simp_all add: assms(2))
qed

lemma consumes_next:
  assumes "json_consumes lib left" "map_next lib i = (k, i')"
  shows "left i' \<le> left i" "k \<noteq> None \<Longrightarrow> left i' < left i"
proof -
  have "left (snd (map_next lib i)) \<le> left i \<and> (fst (map_next lib i) \<noteq> None \<longrightarrow> left (snd (map_next lib i)) < left i)"
    using assms(1) by (simp add: json_consumes_def)
  then show "left i' \<le> left i" "k \<noteq> None \<Longrightarrow> left i' < left i" by (simp_all add: assms(2))
qed

lemma consumes_rest:
  assumes "json_consumes lib left"
  shows "left (Skip lib i) \<le> left i" "left (ReportError lib i e) \<le> left i" "left (snd (Read lib i)) \<le> left i"
  using assms by (simp_all add: json_consumes_def)

lemma ReadJSONIter_snd: "snd (ReadJSONIter lib i) = snd (Read lib i)"
  by (auto simp: ReadJSONIter_def split: prod.splits option.splits)

lemma read_fields_ends:
  assumes "json_consumes lib left"
  shows "(key \<noteq> None \<longrightarrow> left i < n) \<Longrightarrow> \<exists>r. read_fields lib n key i flds = Some r"
proof (induction n arbitrary: key i flds)
  case 0
  then show ?case by (cases key) auto
next
  case (Suc n)
  show ?case
  proof (cases key)
    case key: (Some k)
    obtain x j where x: "ReadJSONIter lib i = (x, j)" by fastforce
    obtain k' j' where k': "map_next lib j = (k', j')" by fastforce
    have "left j \<le> left i" using consumes_rest(3) [OF assms, of i] ReadJSONIter_snd [of lib i] x by simp
    then have "k' \<noteq> None \<longrightarrow> left j' < n" using consumes_next [OF assms k'] Suc.prems key by auto
    then show ?thesis using Suc.IH [of k' j'] by (auto simp: key x k' split: sum.split)
  qed simp
qed

lemma Deserialize_ends:
  assumes "json_consumes lib left"
  shows "\<exists>r. DeserializePathElement lib x = Some r"
proof -
  let ?b = "drop 2 x"
  obtain k i where k: "map_first lib (iterate lib ?b) = (k, i)" by fastforce
  have "k \<noteq> None \<longrightarrow> left i < length ?b"
    using consumes_first [OF assms k] consumes_iterate [OF assms, of ?b] by auto
  then obtain r where "read_fields lib (length ?b) k i [] = Some r" using read_fields_ends [OF assms] by blast
  then show ?thesis by (auto simp: DeserializePathElement_def k Let_def split: prod.split option.split)
qed

text \<open>A step of \<open>read_members\<close> that does not descend, and one that does.\<close>

lemma read_ends:
  assumes "json_consumes lib left"
  shows "2 * left i < n \<Longrightarrow> \<exists>c b i'. readIterV1 lib n i = Some (c, b, i') \<and> left i' \<le> left i"
    and "(key \<noteq> None \<longrightarrow> Suc (2 * left i) < n) \<Longrightarrow>
      \<exists>c b i'. read_members lib n key i children isMember = Some (c, b, i') \<and> left i' \<le> left i"
proof (induction n arbitrary: i key children isMember)
  case 0
  { case 1 then show ?case by simp }
  { case 2 then show ?case by (cases key) auto }
next
  case (Suc n)
  { case 1
    obtain k j where k: "map_first lib i = (k, j)" by fastforce
    note less = consumes_first [OF assms k]
    have "k \<noteq> None \<longrightarrow> Suc (2 * left j) < n" using less 1 by auto
    from Suc.IH(2) [OF this, of None False] less(1) show ?case by (auto simp: k) }
  { case 2
    show ?case
    proof (cases key)
      case key: (Some x)
      have step: "\<exists>c b i'. read_members lib n k j' ch m = Some (c, b, i') \<and> left i' \<le> left i"
        if k: "map_next lib j = (k, j')" and "left j \<le> left i" for j k j' ch m
      proof -
        have "k \<noteq> None \<longrightarrow> Suc (2 * left j') < n" using consumes_next [OF assms k] that(2) 2 key by auto
        from Suc.IH(2) [OF this, of ch m] show ?thesis using consumes_next(1) [OF assms k] that(2) by auto
      qed
      obtain r where r: "DeserializePathElement lib x = Some r" using Deserialize_ends [OF assms] by blast
      obtain g cm j where sub: "readIterV1 lib n i = Some (g, cm, j)" "left j \<le> left i"
        using Suc.IH(1) [of i] 2 key by auto
      have skip: "left (Skip lib i) \<le> left i" "left (Skip lib (ReportError lib i e)) \<le> left i" for e
        using consumes_rest(1,2) [OF assms] le_trans by blast+
      show ?thesis
        by (auto simp: key r sub(1) Let_def split: prod.split sum.split intro: step [OF _ skip(1)] step [OF _ skip(2)] step [OF _ sub(2)])
    qed simp }
qed

theorem FromJSON_ends:
  assumes "json_consumes lib left"
  shows "\<exists>s err. FromJSON lib x = Some (s, err)"
  using read_ends(1) [OF assms, of "iterate lib x" "Suc (2 * length x)"] consumes_iterate [OF assms, of x]
  by (auto simp: FromJSON_def)

section \<open>What is read is a well-formed set\<close>

text \<open>Appending at the end is what inserting would do, so the fast path makes no difference.\<close>

lemma insert_last:
  assumes "pe_asc m ms" "pe_ok m pe" "ms = [] \<or> PathElement_Less (last ms) pe"
  shows "PathElementSet_Insert ms pe = ms @ [pe]"
proof -
  have less: "PathElement_Compare x pe < 0" if "x \<in> set ms" for x
  proof (cases "x = last ms")
    case True
    then show ?thesis using assms(3) that by (auto simp: PathElement_Less_def)
  next
    case False
    have ne: "ms \<noteq> []" using that by auto
    then have ms: "ms = butlast ms @ [last ms]" by simp
    then have "x \<in> set (butlast ms)" using that False by (metis rotate1.simps(2) set_ConsD set_rotate1)
    then have "PathElement_Compare x (last ms) < 0"
      using assms(1) pe.ascending_append [of m "butlast ms" "[last ms]"] ms by auto
    then show ?thesis
      using pe.cmp_less_trans [of m x "last ms" pe] pe.ascending_ok [OF assms(1)] assms(2,3) that ne by (auto simp: PathElement_Less_def)
  qed
  then have "\<not> pe_covers ms pe" by (force simp: pe.covers_def)
  moreover have "takeWhile (\<lambda>x. PathElement_Less x pe) ms = ms" "dropWhile (\<lambda>x. PathElement_Less x pe) ms = []"
    using less by (auto simp: PathElement_Less_def)
  ultimately show ?thesis using PathElementSet_Insert_cases [OF assms(1,2)] by simp
qed

lemma Descend_const: "SetNodeMap_Descend cs pe (\<lambda>_. g) = PathElementMap_Insert cs pe g"
  by (simp add: SetNodeMap_Descend_def PathElementMap_Insert_def)

definition read_ok :: "num_mode \<Rightarrow> FieldSet option \<Rightarrow> bool" where
  "read_ok m c \<longleftrightarrow> pred_option (\<lambda>s. Set_wf m s \<and> \<not> Set_Empty s) c"

lemma read_member_ok:
  assumes "read_ok m c" "pe_ok m pe"
  shows "read_ok m (Some (read_member c pe))"
proof -
  obtain ms cs where s: "(case c of None \<Rightarrow> MkSet [] [] | Some s \<Rightarrow> s) = MkSet ms cs" by (metis FieldSet.exhaust)
  then have wf: "Set_wf m (MkSet ms cs)" using assms(1) by (cases c) (auto simp: read_ok_def)
  then have asc: "pe_asc m ms" by simp
  have "read_member c pe = MkSet (PathElementSet_Insert ms pe) cs"
    using insert_last [OF asc assms(2)] by (auto simp: read_member_def s Let_def)
  moreover have "PathElementSet_Insert ms pe \<noteq> []"
    using PathElementSet_Insert_correct(2) [OF asc assms(2) assms(2)] pe.eqv_refl [OF assms(2)] by (auto simp: pe.covers_def)
  ultimately show ?thesis
    using wf PathElementSet_Insert_correct(1) [OF asc assms(2)] by (auto simp: read_ok_def PathElementSet_Size_def)
qed

lemma read_child_ok:
  assumes "read_ok m c" "pe_ok m pe" "read_ok m (Some g)"
  shows "read_ok m (Some (read_child c pe g))"
proof -
  obtain ms cs where s: "(case c of None \<Rightarrow> MkSet [] [] | Some s \<Rightarrow> s) = MkSet ms cs" by (metis FieldSet.exhaust)
  then have wf: "Set_wf m (MkSet ms cs)" using assms(1) by (cases c) (auto simp: read_ok_def)
  have g: "Set_wf m g" "\<not> Set_Empty g" using assms(3) by (auto simp: read_ok_def)
  let ?cs = "if length cs = 0 \<or> PathElement_Less (fst (last cs)) pe then cs @ [(pe, g)] else PathElementMap_Insert cs pe g"
  have asc: "pe_asc m (map fst cs)" using wf by simp
  have keys: "map fst ?cs = PathElementSet_Insert (map fst cs) pe"
    using insert_last [OF asc assms(2)] PathElementMap_Insert_keys [OF asc assms(2), of g]
    by (cases "cs = []") (auto simp: last_map)
  have "pe_asc m (map fst ?cs)" unfolding keys by (rule PathElementSet_Insert_correct(1) [OF asc assms(2)])
  moreover have "set ?cs \<subseteq> set cs \<union> {(k, g) | k. True}"
    using PathElementMap_Insert_set [of cs pe g] by auto
  moreover have "PathElementSet_Insert (map fst cs) pe \<noteq> []"
    using PathElementSet_Insert_correct(2) [OF asc assms(2) assms(2)] pe.eqv_refl [OF assms(2)] by (auto simp: pe.covers_def)
  ultimately have "Set_wf m (MkSet ms ?cs)" "?cs \<noteq> []" using wf g keys by (auto simp: list_all_iff split del: if_split)
  moreover from this have "\<not> Set_Empty (MkSet ms ?cs)" using Set_Empty_wf [of m "MkSet ms ?cs"] by blast
  moreover have "read_child c pe g = MkSet ms ?cs" by (simp add: read_child_def s Let_def Descend_const)
  ultimately show ?thesis by (simp only: read_ok_def option.pred_inject simp_thms)
qed

text \<open>The values that the library reads are comparable: it has one type of numbers, and no text denotes NaN.\<close>

definition json_values :: "num_mode \<Rightarrow> ('i, 'e) json_lib \<Rightarrow> bool" where
  "json_values m lib \<longleftrightarrow> (\<forall>i. value_ok m (fst (Read lib i)))"

lemma ReadJSONIter_ok: "json_values m lib \<Longrightarrow> ReadJSONIter lib i = (Inr v, i') \<Longrightarrow> value_ok m v"
  unfolding json_values_def by (drule spec [of _ i]) (auto simp: ReadJSONIter_def split: prod.splits option.splits if_splits)

lemma read_fields_ok:
  assumes "json_values m lib"
  shows "read_fields lib n key i flds = Some (fs, err) \<Longrightarrow> fields_ok m flds \<Longrightarrow> fields_ok m fs"
proof (induction n arbitrary: key i flds)
  case 0
  then show ?case by (cases key) auto
next
  case (Suc n)
  show ?case
  proof (cases key)
    case (Some k)
    then show ?thesis using Suc.prems Suc.IH ReadJSONIter_ok [OF assms, of i]
      by (auto simp: fields_ok_def split: prod.splits sum.splits)
  qed (use Suc.prems in simp)
qed

lemma Deserialize_ok:
  assumes "json_values m lib" "DeserializePathElement lib x = Some (Inr pe)"
  shows "pe_ok m pe"
proof -
  have "pe_ok m (pe_key (FieldList_Sort fs))" if "read_fields lib n k i [] = Some (fs, e)" for n k i fs e
    using read_fields_ok [OF assms(1) that] by (simp add: pe_ok_def pe_key_def pe_single_def) (simp add: fields_ok_def)
  moreover have "pe_ok m (pe_value v)" if "fst (ReadJSONIter lib i) = Inr v" for i v
    using ReadJSONIter_ok [OF assms(1), of i v] that by (cases "ReadJSONIter lib i") (auto simp: pe_ok_def pe_value_def pe_single_def)
  moreover have "pe_ok m (pe_field n)" "pe_ok m (pe_index j)" for n j
    by (simp_all add: pe_ok_def pe_field_def pe_index_def pe_single_def)
  ultimately show ?thesis
    using assms(2) by (auto simp: DeserializePathElement_def Let_def split: if_splits prod.splits option.splits sum.splits)
qed

lemma read_wf:
  assumes "json_values m lib"
  shows "readIterV1 lib n i = Some (c, b, i') \<Longrightarrow> read_ok m c \<and> (c = None \<longrightarrow> b)"
    and "read_members lib n key i children isMember = Some (c', b', i'') \<Longrightarrow> read_ok m children \<Longrightarrow> read_ok m c'"
proof (induction n arbitrary: i key children isMember c b i' c' b' i'')
  case 0
  { case 1 then show ?case by simp }
  { case 2 then show ?case by (cases key) auto }
next
  case (Suc n)
  { case 1
    have "read_ok m None" by (simp add: read_ok_def)
    then show ?case using 1 Suc.IH(2) by (auto split: prod.splits option.splits) }
  { case 2
    show ?case
    proof (cases key)
      case key: (Some x)
      have add: "read_ok m (case g of None \<Rightarrow> ch | Some g \<Rightarrow> Some (read_child ch pe g))"
        if "readIterV1 lib n i = Some (g, cm, j)" "DeserializePathElement lib x = Some (Inr pe)"
          "ch = (if cm then Some (read_member children pe) else children)" for g cm j pe ch
        using Suc.IH(1) [OF that(1)] Deserialize_ok [OF assms that(2)] read_member_ok read_child_ok 2(2) that(3)
        by (auto split: option.split)
      show ?thesis
        using 2 Suc.IH(2) add
        by (auto simp: key Let_def split: if_splits prod.splits option.splits sum.splits)
    qed (use 2 in simp) }
qed

lemma FromJSON_wf:
  assumes "json_values m lib" "FromJSON lib x = Some (s, err)"
  shows "Set_wf m s"
proof -
  obtain c b i where r: "readIterV1 lib (Suc (2 * length x)) (iterate lib x) = Some (c, b, i)"
    using assms(2) by (auto simp: FromJSON_def split: option.splits)
  then show ?thesis using assms(2) read_wf(1) [OF assms(1) r] by (auto simp: FromJSON_def read_ok_def split: option.splits)
qed

end
