(* ===== verification/Serialization_Roundtrip.thy ===== *)
theory Serialization_Roundtrip
  imports Serialization_Laws
begin

text \<open>
  \<^verbatim>\<open>FromJSON\<close> reads back what \<^verbatim>\<open>ToJSON\<close> wrote, up to \<^verbatim>\<open>Equals\<close>: the library reads every number as a float, so an
  integer in a key comes back as a float that compares as equal to it.
\<close>

section \<open>Laws of the library on written documents\<close>

text \<open>
  \<open>at i ops\<close> says that the iterator stands before the text that \<open>ops\<close> wrote.  Reading a number at the very end of a text
  may set the error to end-of-file.
\<close>

definition json_reads :: "num_mode \<Rightarrow> ('i, 'e) json_lib \<Rightarrow> ('i \<Rightarrow> stream_op list \<Rightarrow> bool) \<Rightarrow> bool" where
  "json_reads m lib at \<longleftrightarrow>
     (\<forall>i rest. at i (WriteEmptyObject # rest) \<longrightarrow> at (Skip lib i) rest \<and> (\<exists>j. map_first lib i = (None, j) \<and> at j rest)) \<and>
     (\<forall>i rest. at i (WriteObjectStart # WriteObjectEnd # rest) \<longrightarrow> (\<exists>j. map_first lib i = (None, j) \<and> at j rest)) \<and>
     (\<forall>i k rest. at i (WriteObjectStart # WriteObjectField k # rest) \<longrightarrow> (\<exists>j. map_first lib i = (Some k, j) \<and> at j rest)) \<and>
     (\<forall>i k rest. at i (WriteMore # WriteObjectField k # rest) \<longrightarrow> (\<exists>j. map_next lib i = (Some k, j) \<and> at j rest)) \<and>
     (\<forall>i rest. at i (WriteObjectEnd # rest) \<longrightarrow> (\<exists>j. map_next lib i = (None, j) \<and> at j rest)) \<and>
     (\<forall>i v rest. at i (WriteVal v # rest) \<longrightarrow> (\<exists>w j. Read lib i = (w, j) \<and> value_ok m w \<and> Equals v w \<and>
        (if rest = [] then pred_option (is_EOF lib) (iter_Error lib j) else at j rest))) \<and>
     (\<forall>i ops. at i ops \<longrightarrow> iter_Error lib i = None)"

definition json_writes :: "('i, 'e) json_lib \<Rightarrow> ('i \<Rightarrow> stream_op list \<Rightarrow> bool) \<Rightarrow> stream_op list \<Rightarrow> bool" where
  "json_writes lib at ops \<longleftrightarrow> (\<exists>x. render lib ops = Inr x \<and> at (iterate lib x) ops)"

definition json_plain :: "('i, 'e) json_lib \<Rightarrow> bool" where
  "json_plain lib \<longleftrightarrow> (\<forall>x. render lib [WriteRaw x] = Inr x) \<and> (\<forall>i. render lib [WriteInt i] = Inr (Itoa i))"

text \<open>A path element that JSON has a form for; keys are sorted, as \<^verbatim>\<open>KeyByFields\<close> makes them.\<close>

definition pe_written :: "('i, 'e) json_lib \<Rightarrow> ('i \<Rightarrow> stream_op list \<Rightarrow> bool) \<Rightarrow> PathElement \<Rightarrow> bool" where
  "pe_written lib at pe \<longleftrightarrow> pe \<noteq> PathElement_zero \<and>
     pred_option (\<lambda>flds. sorted (map fst flds) \<and> json_writes lib at (write_key flds)) (Key pe) \<and>
     pred_option (\<lambda>v. json_writes lib at [WriteVal v]) (Value pe)"

fun Set_elements :: "FieldSet \<Rightarrow> PathElement list" where
  "Set_elements (MkSet ms cs) = ms @ map fst cs @ concat (map (\<lambda>c. Set_elements (snd c)) cs)"

lemma reads_simps:
  assumes "json_reads m lib at"
  shows reads_empty: "at i (WriteEmptyObject # rest) \<Longrightarrow> \<exists>j. map_first lib i = (None, j) \<and> at j rest"
    and reads_skip: "at i (WriteEmptyObject # rest) \<Longrightarrow> at (Skip lib i) rest"
    and reads_none: "at i (WriteObjectStart # WriteObjectEnd # rest) \<Longrightarrow> \<exists>j. map_first lib i = (None, j) \<and> at j rest"
    and reads_start: "at i (WriteObjectStart # WriteObjectField k # rest) \<Longrightarrow> \<exists>j. map_first lib i = (Some k, j) \<and> at j rest"
    and reads_more: "at i (WriteMore # WriteObjectField k # rest) \<Longrightarrow> \<exists>j. map_next lib i = (Some k, j) \<and> at j rest"
    and reads_end: "at i (WriteObjectEnd # rest) \<Longrightarrow> \<exists>j. map_next lib i = (None, j) \<and> at j rest"
    and reads_error: "at i ops \<Longrightarrow> iter_Error lib i = None"
  using assms unfolding json_reads_def by blast+

section \<open>Path elements\<close>

lemma reads_value:
  assumes "json_reads m lib at" "at i (WriteVal v # rest)"
  shows "\<exists>w j. ReadJSONIter lib i = (Inr w, j) \<and> value_ok m w \<and> Equals v w \<and> (rest \<noteq> [] \<longrightarrow> at j rest)"
proof -
  obtain w j where w: "Read lib i = (w, j)" "value_ok m w" "Equals v w"
    "if rest = [] then pred_option (is_EOF lib) (iter_Error lib j) else at j rest"
    using assms unfolding json_reads_def by blast
  have "iter_Error lib j = None" if "rest \<noteq> []" using reads_error [OF assms(1), of j rest] w(4) that by simp
  with w show ?thesis by (cases "iter_Error lib j"; cases "rest = []") (auto simp: ReadJSONIter_def)
qed

text \<open>The fields of a key, from the call for the first of them on.\<close>

lemma read_fields_written:
  assumes "json_reads m lib at"
  shows "at i (WriteVal v # write_fields (Suc c) flds @ [WriteObjectEnd]) \<Longrightarrow>
    read_fields lib n (Some k) i acc = Some r \<Longrightarrow>
    \<exists>w ws. r = (acc @ (k, w) # ws, None) \<and> list_all2 (\<lambda>x y. fst x = fst y \<and> Equals (snd x) (snd y) \<and> value_ok m (snd y)) ((k, v) # flds) ((k, w) # ws)"
proof (induction flds arbitrary: i n k v acc c)
  case Nil
  obtain n' where n: "n = Suc n'" using Nil.prems(2) by (cases n) auto
  obtain w j where w: "ReadJSONIter lib i = (Inr w, j)" "value_ok m w" "Equals v w" "at j [WriteObjectEnd]"
    using reads_value [OF assms, of i v "[WriteObjectEnd]"] Nil.prems(1) by auto
  obtain j' where j': "map_next lib j = (None, j')" "at j' []"
    using reads_end [OF assms w(4)] by blast
  then show ?case using Nil.prems(2) w reads_error [OF assms j'(2)] by (auto simp: n)
next
  case (Cons f flds)
  obtain n' where n: "n = Suc n'" using Cons.prems(2) by (cases n) auto
  let ?rest = "WriteVal (snd f) # write_fields (Suc (Suc c)) flds @ [WriteObjectEnd]"
  obtain w j where w: "ReadJSONIter lib i = (Inr w, j)" "value_ok m w" "Equals v w" "at j (WriteMore # WriteObjectField (fst f) # ?rest)"
    using reads_value [OF assms Cons.prems(1)] by (auto simp: WriteJSONStream_def)
  obtain j' where j': "map_next lib j = (Some (fst f), j')" "at j' ?rest"
    using reads_more [OF assms w(4)] by blast
  have "read_fields lib n' (Some (fst f)) j' (acc @ [(k, w)]) = Some r" using Cons.prems(2) w(1) j'(1) by (simp add: n)
  from Cons.IH [OF j'(2) this] w(2,3) show ?case by (cases f) auto
qed

definition pe_same :: "num_mode \<Rightarrow> PathElement \<Rightarrow> PathElement \<Rightarrow> bool" where
  "pe_same m pe q \<longleftrightarrow> pe_ok m q \<and> PathElement_Equals pe q"

lemma list_all2_map_fst: "list_all2 (\<lambda>a b. fst a = fst b \<and> P a b) xs ys \<Longrightarrow> map fst xs = map fst ys"
  by (induction rule: list_all2_induct) simp_all

lemma serialized_key:
  assumes "json_reads m lib at" "json_consumes lib left" "sorted (map fst flds)" "json_writes lib at (write_key flds)"
  shows "\<exists>x q. flush lib ''k:'' (write_key flds) = Inr x \<and> DeserializePathElement lib x = Some (Inr (pe_key q)) \<and>
    list_all2 (\<lambda>a b. fst a = fst b \<and> Equals (snd a) (snd b) \<and> value_ok m (snd b)) flds q"
proof -
  obtain x where x: "render lib (write_key flds) = Inr x" "at (iterate lib x) (write_key flds)"
    using assms(4) unfolding json_writes_def by blast
  obtain r where r: "DeserializePathElement lib (''k:'' @ x) = Some r" using Deserialize_ends [OF assms(2)] by blast
  have "\<exists>q. r = Inr (pe_key q) \<and> list_all2 (\<lambda>a b. fst a = fst b \<and> Equals (snd a) (snd b) \<and> value_ok m (snd b)) flds q"
  proof (cases flds)
    case Nil
    then obtain j where j: "map_first lib (iterate lib x) = (None, j)" "at j []"
      using reads_none [OF assms(1), of "iterate lib x" "[]"] x(2) by (auto simp: write_key_def)
    then show ?thesis
      using r reads_error [OF assms(1) j(2)] Nil by (auto simp: DeserializePathElement_def FieldList_Sort_sort_key)
  next
    case (Cons f fs)
    obtain j where j: "map_first lib (iterate lib x) = (Some (fst f), j)"
      "at j (WriteVal (snd f) # write_fields (Suc 0) fs @ [WriteObjectEnd])"
      using reads_start [OF assms(1)] x(2) Cons by (fastforce simp: write_key_def WriteJSONStream_def)
    obtain z where z: "read_fields lib (length x) (Some (fst f)) j [] = Some z"
      using r j(1) by (auto simp: DeserializePathElement_def split: option.splits)
    obtain w ws where w: "z = ((fst f, w) # ws, None)"
      "list_all2 (\<lambda>a b. fst a = fst b \<and> Equals (snd a) (snd b) \<and> value_ok m (snd b)) flds ((fst f, w) # ws)"
      using read_fields_written [OF assms(1) j(2) z] Cons by auto
    have "map fst flds = map fst ((fst f, w) # ws)"
      using w(2) by (rule list_all2_map_fst)
    then have "FieldList_Sort ((fst f, w) # ws) = (fst f, w) # ws"
      using assms(3) sort_key_id_if_sorted [of fst "(fst f, w) # ws"] by (simp add: FieldList_Sort_sort_key)
    then show ?thesis using r j(1) z w by (auto simp: DeserializePathElement_def)
  qed
  then show ?thesis using x(1) r by (auto simp: flush_def)
qed

lemma fields_same:
  assumes "list_all2 (\<lambda>a b. fst a = fst b \<and> Equals (snd a) (snd b) \<and> value_ok m (snd b)) flds q"
  shows "FieldList_Equals flds q" "fields_ok m q"
  using assms by (auto simp: FieldList_Equals_def fields_ok_def list_all2_conv_all_nth list_all_length)

lemma serialized_pe:
  assumes laws: "json_reads m lib at" "json_plain lib" "json_consumes lib left"
    and pe: "pe_written lib at pe" "pe_ok m pe"
  shows "\<exists>x q. serializePathElementToWriter lib pe = Inr x \<and> DeserializePathElement lib x = Some (Inr q) \<and>
    pe_same m pe q \<and> 2 \<le> length x"
proof -
  have plain: "render lib [WriteRaw n] = Inr n" "render lib [WriteInt i] = Inr (Itoa i)" for n i
    using laws(2) by (auto simp: json_plain_def)
  note defs = serializePathElementToWriter_def DeserializePathElement_def pe_same_def flush_def plain pe_ok_def pe_single_def
    PathElement_Equals_def pe_field_def pe_key_def pe_value_def pe_index_def Let_def
  show ?thesis
  proof (cases "FieldName pe"; cases "Key pe"; cases "Value pe"; cases "Index pe")
    fix flds assume k: "FieldName pe = None" "Key pe = Some flds"
    then obtain x q where "flush lib ''k:'' (write_key flds) = Inr x" "DeserializePathElement lib x = Some (Inr (pe_key q))"
      "FieldList_Equals flds q" "fields_ok m q"
      using serialized_key [OF laws(1,3), of flds] fields_same pe(1) unfolding pe_written_def by fastforce
    then show ?thesis using k by (auto simp: defs split: sum.splits)
  next
    fix v assume v: "FieldName pe = None" "Key pe = None" "Value pe = Some v"
    then obtain x where x: "render lib [WriteVal v] = Inr x" "at (iterate lib x) [WriteVal v]"
      using pe(1) unfolding pe_written_def json_writes_def by auto
    then obtain w j where w: "ReadJSONIter lib (iterate lib x) = (Inr w, j)" "value_ok m w" "Equals v w"
      using reads_value [OF laws(1) x(2)] by blast
    have "DeserializePathElement lib (''v:'' @ x) = Some (Inr (pe_value w))" using w by (simp add: DeserializePathElement_def)
    moreover have "pe_same m pe (pe_value w)" using v w by (simp add: defs)
    moreover have "serializePathElementToWriter lib pe = Inr (''v:'' @ x)"
      using v x by (simp add: serializePathElementToWriter_def flush_def WriteJSONStream_def)
    ultimately show ?thesis by auto
  qed (use pe in \<open>auto simp: defs Atoi_Itoa pe_written_def PathElement_zero_def\<close>)
qed

section \<open>Elements and children up to Equals\<close>

definition child_same :: "num_mode \<Rightarrow> PathElement \<times> FieldSet \<Rightarrow> PathElement \<times> FieldSet \<Rightarrow> bool" where
  "child_same m c d \<longleftrightarrow> pe_same m (fst c) (fst d) \<and> Set_wf m (snd d) \<and> \<not> Set_Empty (snd d) \<and> Set_Equals (snd c) (snd d)"

lemma same_compare:
  assumes "pe_same m x q" "pe_ok m x" "pe_ok m y"
  shows "PathElement_Compare q y = PathElement_Compare x y" "PathElement_Compare y q = PathElement_Compare y x"
  using pe.cmp_zero_left [of m x q y] pe.cmp_zero_right [of m y x q] assms pe.eqv_iff [of m x q] by (simp_all add: pe_same_def)

lemma same_asc: "pe_asc m xs \<Longrightarrow> list_all2 (pe_same m) xs ys \<Longrightarrow> pe_asc m ys"
proof (induction xs arbitrary: ys)
  case (Cons x xs)
  then obtain y zs where y: "ys = y # zs" "pe_same m x y" "list_all2 (pe_same m) xs zs" by (auto simp: list_all2_Cons1)
  have x: "pe_ok m x" "pe_asc m xs" "\<And>z. z \<in> set xs \<Longrightarrow> PathElement_Compare x z < 0"
    using Cons.prems(1) by (auto simp: pe.ascending_Cons)
  have "PathElement_Compare y w < 0" if w: "w \<in> set zs" for w
  proof -
    obtain z where z: "z \<in> set xs" "pe_same m z w" using y(3) w by (metis in_set_conv_nth list_all2_conv_all_nth)
    have ok: "pe_ok m z" "pe_ok m y" using pe.ascending_ok [OF x(2) z(1)] y(2) by (auto simp: pe_same_def)
    show ?thesis
      using same_compare(1) [OF y(2) x(1) ok(1)] same_compare(2) [OF z(2) ok] x(3) [OF z(1)] by simp
  qed
  then show ?case using Cons.IH [OF x(2) y(3)] y(2) unfolding y(1) by (auto simp: pe.ascending_Cons pe_same_def)
qed simp

lemma same_children: "list_all2 (child_same m) cs ds \<Longrightarrow> SetNodeMap_Equals cs ds"
proof (induction rule: list_all2_induct)
  case (Cons c cs d ds)
  then show ?case by (cases c; cases d) (simp add: child_same_def pe_same_def)
qed simp

lemma same_set:
  assumes "Set_wf m (MkSet ms cs)" "list_all2 (pe_same m) ms ms'" "list_all2 (child_same m) cs cs'"
  shows "Set_wf m (MkSet ms' cs')" "Set_Equals (MkSet ms cs) (MkSet ms' cs')"
proof -
  have "list_all2 (pe_same m) (map fst cs) (map fst cs')"
    using assms(3) by (auto simp: list.rel_map child_same_def elim!: list_all2_mono)
  moreover have "list_all (\<lambda>c. Set_wf m (snd c) \<and> \<not> Set_Empty (snd c)) cs'"
    using assms(3) by (auto simp: child_same_def list_all2_conv_all_nth list_all_length)
  ultimately show "Set_wf m (MkSet ms' cs')" using assms(1,2) same_asc [of m ms ms'] same_asc [of m "map fst cs" "map fst cs'"] by simp
  show "Set_Equals (MkSet ms cs) (MkSet ms' cs')"
    using same_children [OF assms(3)] assms(2)
    by (auto simp: PathElementSet_Equals_def pe_same_def list_all2_conv_all_nth list_all_length)
qed

text \<open>All of \<open>A\<close> is below \<open>x\<close>, so that \<open>x\<close> is appended to it.\<close>

definition fits :: "num_mode \<Rightarrow> PathElement list \<Rightarrow> PathElement \<Rightarrow> bool" where
  "fits m A x \<longleftrightarrow> (\<forall>a \<in> set A. pe_ok m a \<and> PathElement_Compare a x < 0)"

lemma fits_last:
  assumes "fits m A x" "pe_same m x q" "pe_ok m x"
  shows "A = [] \<or> PathElement_Less (last A) q"
proof (cases "A = []")
  case False
  then have "pe_ok m (last A)" "PathElement_Compare (last A) x < 0" using assms(1) by (auto simp: fits_def)
  then show ?thesis using same_compare(2) [OF assms(2,3), of "last A"] by (simp add: PathElement_Less_def)
qed simp

lemma fits_snoc:
  assumes "fits m A y" "pe_same m x q" "pe_ok m x" "pe_ok m y" "PathElement_Compare x y < 0"
  shows "fits m (A @ [q]) y"
  using assms same_compare(1) [OF assms(2-4)] by (auto simp: fits_def pe_same_def)

section \<open>Sets\<close>

abbreviation set_so_far :: "FieldSet option \<Rightarrow> FieldSet" where
  "set_so_far c \<equiv> (case c of None \<Rightarrow> MkSet [] [] | Some s \<Rightarrow> s)"

definition read_from :: "('i, 'e) json_lib \<Rightarrow> bool \<Rightarrow> nat \<Rightarrow> 'i \<Rightarrow> FieldSet option \<Rightarrow> bool \<Rightarrow> (FieldSet option \<times> bool \<times> 'i) option" where
  "read_from lib first n i acc isM = (case (if first then map_first lib i else map_next lib i) of (k, j) \<Rightarrow> read_members lib n k j acc isM)"

definition read_add :: "FieldSet option \<Rightarrow> PathElement \<Rightarrow> bool \<Rightarrow> FieldSet option \<Rightarrow> FieldSet option" where
  "read_add acc q cm g =
     (let c = (if cm then Some (read_member acc q) else acc)
      in case g of None \<Rightarrow> c | Some h \<Rightarrow> Some (read_child c q h))"

definition object_start :: "bool \<Rightarrow> stream_op list" where
  "object_start first = (if first then [WriteObjectStart] else [])"

lemma readIterV1_from:
  "readIterV1 lib (Suc n) i = map_option (\<lambda>(c, im, k). (c, if c = None then True else im, k)) (read_from lib True n i None False)"
  by (cases "map_first lib i") (auto simp: read_from_def split: option.splits)

lemma read_from_self:
  "map_first lib i = (Some ''.'', j) \<Longrightarrow> read_from lib True (Suc n) i acc im = read_from lib False n (Skip lib j) acc True"
  by (simp add: read_from_def)

lemma read_key:
  assumes laws: "json_reads m lib at"
    and "at i (object_start first @ preWrite first @ WriteObjectField x # rest)" "read_from lib first n i acc isM = Some r"
    and "DeserializePathElement lib x = Some (Inr q)" "2 \<le> length x"
  shows "\<exists>n' j g cm j'. at j rest \<and> readIterV1 lib n' j = Some (g, cm, j') \<and> read_from lib False n' j' (read_add acc q cm g) isM = Some r"
proof -
  obtain j where j: "(if first then map_first lib i else map_next lib i) = (Some x, j)" "at j rest"
    using reads_start [OF laws] reads_more [OF laws] assms(2) by (fastforce simp: object_start_def preWrite_def split: if_splits)
  obtain n' where n: "n = Suc n'" using assms(3) j(1) by (cases n) (auto simp: read_from_def)
  have "x \<noteq> ''.''" using assms(5) by auto
  then obtain g cm j' where sub: "readIterV1 lib n' j = Some (g, cm, j')"
    using assms(3) j(1) assms(4) by (auto simp: read_from_def n split: option.splits)
  then have "read_from lib False n' j' (read_add acc q cm g) isM = Some r"
    using assms(3) j(1) assms(4) \<open>x \<noteq> ''.''\<close> by (simp add: read_from_def read_add_def n Let_def)
  with j(2) sub show ?thesis by blast
qed

definition contents_ok :: "num_mode \<Rightarrow> ('i, 'e) json_lib \<Rightarrow> ('i \<Rightarrow> stream_op list \<Rightarrow> bool) \<Rightarrow> bool \<Rightarrow> PathElementSet \<Rightarrow> SetNodeMap \<Rightarrow> bool" where
  "contents_ok m lib at first ms cs \<longleftrightarrow> (\<exists>ops. emit_contents lib first ms cs = Inr ops \<and>
     (\<forall>i rest n acc isM r. at i (object_start first @ ops @ WriteObjectEnd # rest) \<longrightarrow> read_from lib first n i acc isM = Some r \<longrightarrow>
        (\<forall>x \<in> set ms. fits m (Members (set_so_far acc)) x) \<longrightarrow> (\<forall>c \<in> set cs. fits m (map fst (Children (set_so_far acc))) (fst c)) \<longrightarrow>
        (\<exists>ms' cs' j. r = (if ms' = [] \<and> cs' = [] then acc
             else Some (MkSet (Members (set_so_far acc) @ ms') (Children (set_so_far acc) @ cs')), isM, j) \<and>
           at j rest \<and> list_all2 (pe_same m) ms ms' \<and> list_all2 (child_same m) cs cs')))"

text \<open>One entry of the object, and the rest of it.\<close>

lemma contents_entry:
  assumes laws: "json_reads m lib at" and tail: "contents_ok m lib at False ms cs"
    and ser: "DeserializePathElement lib x = Some (Inr q)" "2 \<le> length x"
    and emit: "\<And>ops. emit_contents lib False ms cs = Inr ops \<Longrightarrow>
      emit_contents lib first (msx @ ms) (csx @ cs) = Inr (preWrite first @ WriteObjectField x # body @ ops)"
    and body: "\<And>i rest n r. at i (body @ rest) \<Longrightarrow> readIterV1 lib n i = Some r \<Longrightarrow> \<exists>g j. r = (g, cm, j) \<and> at j rest \<and> P g"
    and add: "\<And>acc g. P g \<Longrightarrow> \<forall>y \<in> set (msx @ ms). fits m (Members (set_so_far acc)) y \<Longrightarrow>
      \<forall>c \<in> set (csx @ cs). fits m (map fst (Children (set_so_far acc))) (fst c) \<Longrightarrow>
      \<exists>ms1 cs1. read_add acc q cm g = Some (MkSet (Members (set_so_far acc) @ ms1) (Children (set_so_far acc) @ cs1)) \<and>
        (ms1 \<noteq> [] \<or> cs1 \<noteq> []) \<and> list_all2 (pe_same m) msx ms1 \<and> list_all2 (child_same m) csx cs1 \<and>
        (\<forall>y \<in> set ms. fits m (Members (set_so_far acc) @ ms1) y) \<and>
        (\<forall>c \<in> set cs. fits m (map fst (Children (set_so_far acc) @ cs1)) (fst c))"
  shows "contents_ok m lib at first (msx @ ms) (csx @ cs)"
proof -
  obtain ops where ops: "emit_contents lib False ms cs = Inr ops"
    "\<And>i rest n acc isM r. at i (ops @ WriteObjectEnd # rest) \<Longrightarrow> read_from lib False n i acc isM = Some r \<Longrightarrow>
        (\<forall>x \<in> set ms. fits m (Members (set_so_far acc)) x) \<Longrightarrow> (\<forall>c \<in> set cs. fits m (map fst (Children (set_so_far acc))) (fst c)) \<Longrightarrow>
        (\<exists>ms' cs' j. r = (if ms' = [] \<and> cs' = [] then acc
             else Some (MkSet (Members (set_so_far acc) @ ms') (Children (set_so_far acc) @ cs')), isM, j) \<and>
           at j rest \<and> list_all2 (pe_same m) ms ms' \<and> list_all2 (child_same m) cs cs')"
    using tail unfolding contents_ok_def by (auto simp: object_start_def)
  show ?thesis
    unfolding contents_ok_def
  proof (intro exI [of _ "preWrite first @ WriteObjectField x # body @ ops"] conjI emit [OF ops(1)] allI impI)
    fix i rest n acc isM r
    assume i: "at i (object_start first @ (preWrite first @ WriteObjectField x # body @ ops) @ WriteObjectEnd # rest)"
      and r: "read_from lib first n i acc isM = Some r"
      and fits: "\<forall>y \<in> set (msx @ ms). fits m (Members (set_so_far acc)) y"
        "\<forall>c \<in> set (csx @ cs). fits m (map fst (Children (set_so_far acc))) (fst c)"
    obtain n' j g cm' j' where j: "at j (body @ ops @ WriteObjectEnd # rest)" "readIterV1 lib n' j = Some (g, cm', j')"
      "read_from lib False n' j' (read_add acc q cm' g) isM = Some r"
      using read_key [OF laws _ r ser, of "body @ ops @ WriteObjectEnd # rest"] i by auto
    have g: "cm' = cm" "at j' (ops @ WriteObjectEnd # rest)" "P g" using body [OF j(1,2)] by auto
    obtain ms1 cs1 where new: "read_add acc q cm g = Some (MkSet (Members (set_so_far acc) @ ms1) (Children (set_so_far acc) @ cs1))"
      "ms1 \<noteq> [] \<or> cs1 \<noteq> []" "list_all2 (pe_same m) msx ms1" "list_all2 (child_same m) csx cs1"
      "\<forall>y \<in> set ms. fits m (Members (set_so_far acc) @ ms1) y"
      "\<forall>c \<in> set cs. fits m (map fst (Children (set_so_far acc) @ cs1)) (fst c)"
      using add [OF g(3) fits] by blast
    obtain ms' cs' k where "r = (if ms' = [] \<and> cs' = [] then read_add acc q cm g
        else Some (MkSet (Members (set_so_far (read_add acc q cm g)) @ ms') (Children (set_so_far (read_add acc q cm g)) @ cs')), isM, k)"
      "at k rest" "list_all2 (pe_same m) ms ms'" "list_all2 (child_same m) cs cs'"
      using ops(2) [OF g(2) j(3) [unfolded g(1)]] new(1,5,6) by auto
    then show "\<exists>ms' cs' j. r = (if ms' = [] \<and> cs' = [] then acc
             else Some (MkSet (Members (set_so_far acc) @ ms') (Children (set_so_far acc) @ cs')), isM, j) \<and>
           at j rest \<and> list_all2 (pe_same m) (msx @ ms) ms' \<and> list_all2 (child_same m) (csx @ cs) cs'"
      using new(1-4)
      by (intro exI [of _ "ms1 @ ms'"] exI [of _ "cs1 @ cs'"] exI [of _ k]) (auto intro: list_all2_appendI)
  qed
qed

definition set_written :: "num_mode \<Rightarrow> ('i, 'e) json_lib \<Rightarrow> ('i \<Rightarrow> stream_op list \<Rightarrow> bool) \<Rightarrow> bool \<Rightarrow> FieldSet \<Rightarrow> bool" where
  "set_written m lib at b s \<longleftrightarrow> (\<exists>ops. emitContentsV1 lib b s = Inr ops \<and>
     (\<forall>i rest n r. at i (WriteObjectStart # ops @ WriteObjectEnd # rest) \<longrightarrow> readIterV1 lib n i = Some r \<longrightarrow>
        (\<exists>s' j. r = (Some s', b, j) \<and> at j rest \<and> Set_wf m s' \<and> \<not> Set_Empty s' \<and> Set_Equals s s')))"

lemma contents_okD:
  assumes "contents_ok m lib at first ms cs"
  shows "\<exists>ops. emit_contents lib first ms cs = Inr ops \<and>
    (\<forall>i rest n isM r. at i (object_start first @ ops @ WriteObjectEnd # rest) \<longrightarrow> read_from lib first n i None isM = Some r \<longrightarrow>
       (\<exists>ms' cs' j. r = (if ms' = [] \<and> cs' = [] then None else Some (MkSet ms' cs'), isM, j) \<and>
         at j rest \<and> list_all2 (pe_same m) ms ms' \<and> list_all2 (child_same m) cs cs'))"
proof -
  have fits: "fits m (Members (set_so_far None)) x" "fits m (map fst (Children (set_so_far None))) x" for x
    by (simp_all add: fits_def)
  obtain ops where "emit_contents lib first ms cs = Inr ops" and ops:
    "\<And>i rest n acc isM r. at i (object_start first @ ops @ WriteObjectEnd # rest) \<Longrightarrow> read_from lib first n i acc isM = Some r \<Longrightarrow>
        (\<forall>x \<in> set ms. fits m (Members (set_so_far acc)) x) \<Longrightarrow> (\<forall>c \<in> set cs. fits m (map fst (Children (set_so_far acc))) (fst c)) \<Longrightarrow>
        (\<exists>ms' cs' j. r = (if ms' = [] \<and> cs' = [] then acc
             else Some (MkSet (Members (set_so_far acc) @ ms') (Children (set_so_far acc) @ cs')), isM, j) \<and>
           at j rest \<and> list_all2 (pe_same m) ms ms' \<and> list_all2 (child_same m) cs cs')"
    using assms unfolding contents_ok_def by blast
  moreover have "\<exists>ms' cs' j. r = (if ms' = [] \<and> cs' = [] then None else Some (MkSet ms' cs'), isM, j) \<and>
         at j rest \<and> list_all2 (pe_same m) ms ms' \<and> list_all2 (child_same m) cs cs'"
    if "at i (object_start first @ ops @ WriteObjectEnd # rest)" "read_from lib first n i None isM = Some r" for i rest n isM r
    using ops [OF that] fits unfolding option.case FieldSet.sel append_Nil by blast
  ultimately show ?thesis by blast
qed

lemma contents_Nil:
  assumes "json_reads m lib at"
  shows "contents_ok m lib at first [] []"
proof -
  have "\<exists>j. r = (acc, isM, j) \<and> at j rest"
    if "at i (object_start first @ WriteObjectEnd # rest)" "read_from lib first n i acc isM = Some r" for i rest n acc isM r
  proof (cases first)
    case True
    then show ?thesis using reads_none [OF assms, of i rest] that by (auto simp: object_start_def read_from_def)
  next
    case False
    then show ?thesis using reads_end [OF assms, of i rest] that by (auto simp: object_start_def read_from_def)
  qed
  then show ?thesis unfolding contents_ok_def by (simp del: split_paired_All split_paired_Ex)
qed

text \<open>The element is read back, and everything that follows fits behind it.\<close>

lemma append_member:
  assumes "pe_same m x q" "pe_ok m x" "fits m (Members (set_so_far acc)) x"
  shows "read_member acc q = MkSet (Members (set_so_far acc) @ [q]) (Children (set_so_far acc))"
  using fits_last [OF assms(3,1,2)] by (auto simp: read_member_def Let_def)

lemma append_child:
  assumes "pe_same m x q" "pe_ok m x" "fits m (map fst (Children (set_so_far acc))) x"
  shows "read_child acc q g = MkSet (Members (set_so_far acc)) (Children (set_so_far acc) @ [(q, g)])"
  using fits_last [OF assms(3,1,2)] by (cases "Children (set_so_far acc) = []") (auto simp: read_child_def Let_def last_map)

lemma contents_member:
  assumes laws: "json_reads m lib at" and tail: "contents_ok m lib at False ms cs"
    and x: "serializePathElementToWriter lib pe = Inr x" "DeserializePathElement lib x = Some (Inr q)" "pe_same m pe q" "2 \<le> length x"
    and asc: "pe_asc m (pe # ms)"
    and first: "cs = [] \<or> PathElement_Compare pe (fst (hd cs)) < 0"
  shows "contents_ok m lib at first (pe # ms) cs"
proof -
  note pe = asc [unfolded pe.ascending_Cons]
  have "contents_ok m lib at first ([pe] @ ms) ([] @ cs)"
  proof (rule contents_entry [OF laws tail x(2,4), where body = "[WriteEmptyObject]" and cm = True and P = "\<lambda>g. g = None"])
    show "emit_contents lib first ([pe] @ ms) ([] @ cs) = Inr (preWrite first @ WriteObjectField x # [WriteEmptyObject] @ ops)"
      if "emit_contents lib False ms cs = Inr ops" for ops
      using that x(1) first by (cases cs) (auto simp: Let_def)
    show "\<exists>g j. r = (g, True, j) \<and> at j rest \<and> g = None"
      if "at i ([WriteEmptyObject] @ rest)" "readIterV1 lib n i = Some r" for i rest n r
      using reads_empty [OF laws, of i rest] that by (cases n) auto
    fix acc and g :: "FieldSet option"
    assume a: "g = None" "\<forall>y \<in> set ([pe] @ ms). fits m (Members (set_so_far acc)) y"
      "\<forall>c \<in> set ([] @ cs). fits m (map fst (Children (set_so_far acc))) (fst c)"
    have "fits m (Members (set_so_far acc) @ [q]) y" if "y \<in> set ms" for y
      using fits_snoc [OF _ x(3), of _ y] a(2) pe that pe.ascending_ok [of m ms y] by auto
    then show "\<exists>ms1 cs1. read_add acc q True g = Some (MkSet (Members (set_so_far acc) @ ms1) (Children (set_so_far acc) @ cs1)) \<and>
        (ms1 \<noteq> [] \<or> cs1 \<noteq> []) \<and> list_all2 (pe_same m) [pe] ms1 \<and> list_all2 (child_same m) [] cs1 \<and>
        (\<forall>y \<in> set ms. fits m (Members (set_so_far acc) @ ms1) y) \<and>
        (\<forall>c \<in> set cs. fits m (map fst (Children (set_so_far acc) @ cs1)) (fst c))"
      using append_member [OF x(3)] a pe x(3) by (intro exI [of _ "[q]"] exI [of _ "[]"]) (auto simp: read_add_def)
  qed
  then show ?thesis by simp
qed

text \<open>A child, which is a member as well when \<open>b\<close>: \<open>msx\<close> is the member then.\<close>

lemma contents_child:
  assumes laws: "json_reads m lib at" and tail: "contents_ok m lib at False ms cs"
    and x: "serializePathElementToWriter lib pe = Inr x" "DeserializePathElement lib x = Some (Inr q)" "pe_same m pe q" "2 \<le> length x"
    and asc: "pe_asc m (map fst ((pe, s) # cs))" "pe_asc m (msx @ ms)" and sub: "set_written m lib at b s"
    and msx: "msx = (if b then [mpe] else [])" "b \<Longrightarrow> PathElement_Compare mpe pe = 0"
    and first: "b \<or> ms = [] \<or> PathElement_Compare (hd ms) pe > 0"
  shows "contents_ok m lib at first (msx @ ms) ((pe, s) # cs)"
proof -
  note pe = asc(1) [simplified, unfolded pe.ascending_Cons]
  obtain ops0 where sub: "emitContentsV1 lib b s = Inr ops0"
    "\<And>i rest n r. at i (WriteObjectStart # ops0 @ WriteObjectEnd # rest) \<Longrightarrow> readIterV1 lib n i = Some r \<Longrightarrow>
        (\<exists>s' j. r = (Some s', b, j) \<and> at j rest \<and> Set_wf m s' \<and> \<not> Set_Empty s' \<and> Set_Equals s s')"
    using sub unfolding set_written_def by auto
  have mpe: "pe_ok m mpe" "pe_same m mpe q" "\<And>y. y \<in> set ms \<Longrightarrow> PathElement_Compare mpe y < 0" if b
  proof -
    show ok: "pe_ok m mpe" "\<And>y. y \<in> set ms \<Longrightarrow> PathElement_Compare mpe y < 0"
      using asc(2) msx(1) that by (auto simp: pe.ascending_Cons)
    show "pe_same m mpe q"
      using pe.eqv_trans [of m mpe pe q] pe.eqv_iff [OF ok(1), of pe] msx(2) [OF that] x(3) pe ok by (auto simp: pe_same_def)
  qed
  have "contents_ok m lib at first (msx @ ms) ([(pe, s)] @ cs)"
  proof (rule contents_entry [OF laws tail x(2,4), where body = "WriteObjectStart # ops0 @ [WriteObjectEnd]" and cm = b
        and P = "\<lambda>g. \<exists>s'. g = Some s' \<and> Set_wf m s' \<and> \<not> Set_Empty s' \<and> Set_Equals s s'"])
    show "emit_contents lib first (msx @ ms) ([(pe, s)] @ cs) =
        Inr (preWrite first @ WriteObjectField x # (WriteObjectStart # ops0 @ [WriteObjectEnd]) @ ops)"
      if "emit_contents lib False ms cs = Inr ops" for ops
      using that x(1) sub(1) first msx by (cases b; cases ms) (auto simp: Let_def)
    show "\<exists>g j. r = (g, b, j) \<and> at j rest \<and> (\<exists>s'. g = Some s' \<and> Set_wf m s' \<and> \<not> Set_Empty s' \<and> Set_Equals s s')"
      if "at i ((WriteObjectStart # ops0 @ [WriteObjectEnd]) @ rest)" "readIterV1 lib n i = Some r" for i rest n r
      using sub(2) [of i rest n r] that by auto
    fix acc g
    assume a: "\<exists>s'. g = Some s' \<and> Set_wf m s' \<and> \<not> Set_Empty s' \<and> Set_Equals s s'"
      "\<forall>y \<in> set (msx @ ms). fits m (Members (set_so_far acc)) y"
      "\<forall>c \<in> set ([(pe, s)] @ cs). fits m (map fst (Children (set_so_far acc))) (fst c)"
    then obtain s' where s': "g = Some s'" "child_same m (pe, s) (q, s')" using x(3) by (auto simp: child_same_def)
    let ?ms1 = "if b then [q] else []"
    have "fits m (map fst (Children (set_so_far acc)) @ [q]) (fst c)" if "c \<in> set cs" for c
      using fits_snoc [OF _ x(3), of _ "fst c"] a(3) pe that pe.ascending_ok [of m "map fst cs" "fst c"] by auto
    moreover have "fits m (Members (set_so_far acc) @ ?ms1) y" if "y \<in> set ms" for y
    proof (cases b)
      case True
      then have "pe_ok m y" using asc(2) that pe.ascending_ok [OF asc(2), of y] by simp
      then show ?thesis using True fits_snoc [OF _ mpe(2,1), of _ y] mpe(3) [OF True that] a(2) that by auto
    qed (use a(2) that in auto)
    moreover have "read_add acc q b g = Some (MkSet (Members (set_so_far acc) @ ?ms1) (Children (set_so_far acc) @ [(q, s')]))"
      using append_member [OF mpe(2,1), of acc] append_child [OF x(3), of acc] append_child [OF x(3), of "Some (read_member acc q)"]
        a(2,3) pe msx(1) by (auto simp: read_add_def s'(1))
    ultimately show "\<exists>ms1 cs1. read_add acc q b g = Some (MkSet (Members (set_so_far acc) @ ms1) (Children (set_so_far acc) @ cs1)) \<and>
        (ms1 \<noteq> [] \<or> cs1 \<noteq> []) \<and> list_all2 (pe_same m) msx ms1 \<and> list_all2 (child_same m) [(pe, s)] cs1 \<and>
        (\<forall>y \<in> set ms. fits m (Members (set_so_far acc) @ ms1) y) \<and>
        (\<forall>c \<in> set cs. fits m (map fst (Children (set_so_far acc) @ cs1)) (fst c))"
      using s'(2) mpe(2) msx(1) by (intro exI [of _ ?ms1] exI [of _ "[(q, s')]"]) auto
  qed
  then show ?thesis by simp
qed

text \<open>The loops of \<^verbatim>\<open>emitContentsV1\<close>, by the number of entries that are left.\<close>

lemma contents_written:
  assumes laws: "json_reads m lib at" "json_plain lib" "json_consumes lib left"
    and sub: "\<And>c b. c \<in> set cs \<Longrightarrow> set_written m lib at b (snd c)"
    and wf: "pe_asc m ms" "pe_asc m (map fst cs)" "\<forall>pe \<in> set ms \<union> fst ` set cs. pe_written lib at pe"
  shows "contents_ok m lib at first ms cs"
  using sub wf
proof (induction "length ms + length cs" arbitrary: first ms cs rule: less_induct)
  case less
  have tail: "contents_ok m lib at f ms' cs'"
    if "length ms' + length cs' < length ms + length cs" "set ms' \<subseteq> set ms" "set cs' \<subseteq> set cs" "pe_asc m ms'" "pe_asc m (map fst cs')" for f ms' cs'
  proof (rule less.hyps [OF that(1) _ that(4,5)])
    show "\<forall>pe \<in> set ms' \<union> fst ` set cs'. pe_written lib at pe" using less.prems(4) that(2,3) by fast
  qed (use less.prems(1) that(3) in blast)
  have ser: "\<exists>x q. serializePathElementToWriter lib pe = Inr x \<and> DeserializePathElement lib x = Some (Inr q) \<and>
      pe_same m pe q \<and> 2 \<le> length x" if "pe \<in> set ms \<union> fst ` set cs" for pe
    using serialized_pe [OF laws, of pe] less.prems(2-4) that pe.ascending_ok [of m ms pe] pe.ascending_ok [of m "map fst cs" pe] by auto
  consider "ms = []" "cs = []" | pe ms' where "ms = pe # ms'" "cs = [] \<or> PathElement_Compare pe (fst (hd cs)) < 0"
    | c cs' where "cs = c # cs'" "ms = [] \<or> PathElement_Compare (hd ms) (fst c) > 0"
    | pe ms' c cs' where "ms = pe # ms'" "cs = c # cs'" "PathElement_Compare pe (fst c) = 0"
    by (cases ms; cases cs; cases "PathElement_Compare (hd ms) (fst (hd cs))" "0 :: int" rule: linorder_cases) auto
  then show ?case
  proof cases
    case 1
    then show ?thesis using contents_Nil [OF laws(1)] by simp
  next
    case (2 pe ms')
    have "contents_ok m lib at False ms' cs" using 2 less.prems by (intro tail) (auto simp: pe.ascending_Cons)
    then show ?thesis using ser [of pe] 2 less.prems(2) contents_member [OF laws(1)] by auto
  next
    case (3 c cs')
    have "contents_ok m lib at False ms cs'" using 3 less.prems by (intro tail) (auto simp: pe.ascending_Cons)
    then show ?thesis
      using ser [of "fst c"] 3 less.prems contents_child [OF laws(1), of ms cs' "fst c" _ _ "snd c" "[]" False] by auto
  next
    case (4 pe ms' c cs')
    have "contents_ok m lib at False ms' cs'" using 4 less.prems by (intro tail) (auto simp: pe.ascending_Cons)
    then show ?thesis
      using ser [of "fst c"] 4 less.prems contents_child [OF laws(1), of ms' cs' "fst c" _ _ "snd c" "[pe]" True pe] by auto
  qed
qed

lemma written_set:
  assumes laws: "json_reads m lib at" "json_plain lib" "json_consumes lib left"
  shows "Set_wf m s \<Longrightarrow> \<not> Set_Empty s \<Longrightarrow> \<forall>pe \<in> set (Set_elements s). pe_written lib at pe \<Longrightarrow> set_written m lib at b s"
proof (induction s arbitrary: b)
  case (MkSet ms cs)
  have ne: "\<not> (ms = [] \<and> cs = [])" using MkSet.prems(2) by (auto simp: PathElementSet_Size_def)
  have wf: "pe_asc m ms" "pe_asc m (map fst cs)" using MkSet.prems(1) by auto
  have sub: "set_written m lib at b' (snd c)" if "c \<in> set cs" for c b'
    using MkSet.IH [of "fst c" "snd c"] MkSet.prems that by (auto simp: list_all_iff)
  have contents: "contents_ok m lib at f ms cs" for f
    by (rule contents_written [OF laws sub wf]) (use MkSet.prems(3) in auto)
  obtain ops where ops: "emit_contents lib (\<not> b) ms cs = Inr ops"
    "\<And>i rest n isM r. at i (object_start (\<not> b) @ ops @ WriteObjectEnd # rest) \<Longrightarrow> read_from lib (\<not> b) n i None isM = Some r \<Longrightarrow>
       \<exists>ms' cs' j. r = (if ms' = [] \<and> cs' = [] then None else Some (MkSet ms' cs'), isM, j) \<and>
         at j rest \<and> list_all2 (pe_same m) ms ms' \<and> list_all2 (child_same m) cs cs'"
    using contents_okD [OF contents [of "\<not> b"]] by blast
  define out where "out = (if b then WriteObjectField ''.'' # WriteEmptyObject # ops else ops)"
  have emit: "emitContentsV1 lib b (MkSet ms cs) = Inr out" using ops(1) ne by (auto simp: out_def)
  have "\<exists>s' j. r = (Some s', b, j) \<and> at j rest \<and> Set_wf m s' \<and> \<not> Set_Empty s' \<and> Set_Equals (MkSet ms cs) s'"
    if i: "at i (WriteObjectStart # out @ WriteObjectEnd # rest)" and r: "readIterV1 lib n i = Some r" for i rest n r
  proof -
    obtain n' j where j: "at j (object_start (\<not> b) @ ops @ WriteObjectEnd # rest)"
      and "\<exists>c im k. read_from lib (\<not> b) n' j None b = Some (c, im, k) \<and> r = (c, if c = None then True else im, k)"
    proof (cases b)
      case True
      obtain n1 where n: "n = Suc n1" using r by (cases n) auto
      obtain j1 where j1: "map_first lib i = (Some ''.'', j1)" "at j1 (WriteEmptyObject # ops @ WriteObjectEnd # rest)"
        using reads_start [OF laws(1)] i True by (fastforce simp: out_def)
      then obtain n2 where n2: "n1 = Suc n2" using r by (cases n1) (auto simp: n)
      show ?thesis
      proof (rule that)
        show "at (Skip lib j1) (object_start (\<not> b) @ ops @ WriteObjectEnd # rest)"
          using reads_skip [OF laws(1) j1(2)] True by (simp add: object_start_def)
        have "map_option (\<lambda>(c, im, k). (c, if c = None then True else im, k)) (read_from lib False n2 (Skip lib j1) None True) = Some r"
          using r unfolding n readIterV1_from n2 read_from_self [OF j1(1)] .
        then show "\<exists>c im k. read_from lib (\<not> b) n2 (Skip lib j1) None b = Some (c, im, k) \<and> r = (c, if c = None then True else im, k)"
          using True by force
      qed
    next
      case False
      then obtain n1 where n: "n = Suc n1" using r by (cases n) auto
      show ?thesis
      proof (rule that)
        show "at i (object_start (\<not> b) @ ops @ WriteObjectEnd # rest)" using i False by (simp add: out_def object_start_def)
        show "\<exists>c im k. read_from lib (\<not> b) n1 i None b = Some (c, im, k) \<and> r = (c, if c = None then True else im, k)"
          using r False unfolding n readIterV1_from by force
      qed
    qed
    then obtain c im k where c: "read_from lib (\<not> b) n' j None b = Some (c, im, k)" "r = (c, if c = None then True else im, k)" by blast
    obtain ms' cs' where s': "c = (if ms' = [] \<and> cs' = [] then None else Some (MkSet ms' cs'))" "im = b"
      "at k rest" "list_all2 (pe_same m) ms ms'" "list_all2 (child_same m) cs cs'"
      using ops(2) [OF j c(1)] by blast
    moreover have "\<not> (ms' = [] \<and> cs' = [])" using ne s'(4,5) by auto
    ultimately show ?thesis
      using same_set [OF MkSet.prems(1) s'(4,5)] Set_Empty_wf [of m "MkSet ms' cs'"] c(2) by auto
  qed
  then show ?case unfolding set_written_def using emit by blast
qed

lemma ToJSON_FromJSON:
  assumes laws: "json_reads m lib at" "json_plain lib" "json_consumes lib left"
    and s: "Set_wf m s" "\<forall>pe \<in> set (Set_elements s). pe_written lib at pe"
    and doc: "\<And>ops. emitContentsV1 lib False s = Inr ops \<Longrightarrow> json_writes lib at (WriteObjectStart # ops @ [WriteObjectEnd])"
  shows "\<exists>x s'. ToJSON lib s = Inr x \<and> FromJSON lib x = Some (s', None) \<and> Set_wf m s' \<and> Set_Equals s s'"
proof -
  obtain ops where ops: "emitContentsV1 lib False s = Inr ops"
    and read: "\<And>i n r. at i (WriteObjectStart # ops @ [WriteObjectEnd]) \<Longrightarrow> readIterV1 lib n i = Some r \<Longrightarrow>
      \<exists>c b j. r = (c, b, j) \<and> at j [] \<and> Set_wf m (set_so_far c) \<and> Set_Equals s (set_so_far c)"
  proof (cases "Set_Empty s")
    case True
    then have s': "s = MkSet [] []" using Set_Empty_wf [OF s(1)] by simp
    show ?thesis
    proof (rule that [of "[]"])
      show "emitContentsV1 lib False s = Inr []" by (simp add: s')
      show "\<exists>c b j. r = (c, b, j) \<and> at j [] \<and> Set_wf m (set_so_far c) \<and> Set_Equals s (set_so_far c)"
        if start: "at i (WriteObjectStart # [] @ [WriteObjectEnd])" and r: "readIterV1 lib n i = Some r" for i n r
      proof -
        obtain j where "map_first lib i = (None, j)" "at j []" using reads_none [OF laws(1), of i "[]"] start by auto
        moreover from this have "r = (None, True, j)" using r by (cases n) auto
        ultimately show ?thesis by (auto simp: s' PathElementSet_Equals_def simp del: ex_simps)
      qed
    qed
  next
    case False
    then obtain ops where "emitContentsV1 lib False s = Inr ops"
      "\<And>i rest n r. at i (WriteObjectStart # ops @ WriteObjectEnd # rest) \<Longrightarrow> readIterV1 lib n i = Some r \<Longrightarrow>
        (\<exists>s' j. r = (Some s', False, j) \<and> at j rest \<and> Set_wf m s' \<and> \<not> Set_Empty s' \<and> Set_Equals s s')"
      using written_set [OF laws s(1) _ s(2), of False] unfolding set_written_def by blast
    then show ?thesis by (intro that [of ops]) fastforce+
  qed
  obtain x where x: "render lib (WriteObjectStart # ops @ [WriteObjectEnd]) = Inr x" "at (iterate lib x) (WriteObjectStart # ops @ [WriteObjectEnd])"
    using doc [OF ops] unfolding json_writes_def by blast
  obtain c b j where c: "readIterV1 lib (Suc (2 * length x)) (iterate lib x) = Some (c, b, j)"
    using read_ends(1) [OF laws(3), of "iterate lib x" "Suc (2 * length x)"] consumes_iterate [OF laws(3), of x] by auto
  then have "at j []" "Set_wf m (set_so_far c)" "Set_Equals s (set_so_far c)" using read [OF x(2) c] by auto
  then show ?thesis
    using c ops x(1) reads_error [OF laws(1), of j "[]"] by (simp add: ToJSON_def ToJSONStream_def flush_def FromJSON_def)
qed

end
