(* ===== verification/Properties_Values.thy ===== *)
theory Properties_Values
  imports Properties_Merge Serialization_Roundtrip
begin

text \<open>
  The properties of the JSON form of field sets, each with a concrete instance.
\<close>

section \<open>Serialization\<close>

text \<open>A library for the instances: it prints documents, and reads two of them.\<close>

fun ex_show :: "stream_op \<Rightarrow> string" where
  "ex_show WriteObjectStart = ''{''"
| "ex_show WriteObjectEnd = ''}''"
| "ex_show WriteMore = '',''"
| "ex_show WriteEmptyObject = ''{}''"
| "ex_show (WriteObjectField k) = CHR 0x22 # k @ [CHR 0x22, CHR '':'']"
| "ex_show (WriteVal v) = (case v of VString x \<Rightarrow> CHR 0x22 # x @ [CHR 0x22] | _ \<Rightarrow> ''null'')"
| "ex_show (WriteRaw x) = x"
| "ex_show (WriteInt i) = Itoa i"

fun ex_first :: "stream_op list \<Rightarrow> string option \<times> stream_op list" where
  "ex_first (WriteObjectStart # WriteObjectField k # rest) = (Some k, rest)"
| "ex_first (WriteObjectStart # WriteObjectEnd # rest) = (None, rest)"
| "ex_first (WriteEmptyObject # rest) = (None, rest)"
| "ex_first i = (None, i)"

fun ex_next :: "stream_op list \<Rightarrow> string option \<times> stream_op list" where
  "ex_next (WriteMore # WriteObjectField k # rest) = (Some k, rest)"
| "ex_next (WriteObjectEnd # rest) = (None, rest)"
| "ex_next i = (None, i)"

definition ex_key_doc :: "stream_op list" where
  "ex_key_doc = [WriteObjectStart, WriteObjectField ''name'', WriteVal (VString ''a''), WriteObjectEnd]"

definition ex_item_key :: PathElement where
  "ex_item_key = pe_key [(''name'', VString ''a'')]"

definition ex_item_text :: string where
  "ex_item_text = ''k:'' @ concat (map ex_show ex_key_doc)"

definition ex_set_doc :: "stream_op list" where
  "ex_set_doc = [WriteObjectStart, WriteObjectField ''f:spec'', WriteEmptyObject, WriteMore, WriteObjectField ex_item_text,
     WriteObjectStart, WriteObjectField ''.'', WriteEmptyObject, WriteMore, WriteObjectField ''f:image'', WriteEmptyObject,
     WriteObjectEnd, WriteObjectEnd]"

definition ex_lib :: "(stream_op list, string) json_lib" where
  "ex_lib = \<lparr>render = (\<lambda>ops. Inr (concat (map ex_show ops))),
     iterate = (\<lambda>x. if x = concat (map ex_show ex_key_doc) then ex_key_doc
       else if x = concat (map ex_show ex_set_doc) then ex_set_doc else []),
     Read = (\<lambda>i. case i of WriteVal v # rest \<Rightarrow> (case v of VString x \<Rightarrow> (v, rest) | _ \<Rightarrow> (VNull, rest)) | _ \<Rightarrow> (VNull, i)),
     Skip = (\<lambda>i. case i of WriteEmptyObject # rest \<Rightarrow> rest | _ \<Rightarrow> i), map_first = ex_first, map_next = ex_next,
     iter_Error = (\<lambda>_. None), ReportError = (\<lambda>i _. i), is_EOF = (\<lambda>_. False)\<rparr>"

definition ex_at :: "stream_op list \<Rightarrow> stream_op list \<Rightarrow> bool" where
  "ex_at i ops \<longleftrightarrow> i = ops \<and> list_all (\<lambda>x. case x of WriteVal v \<Rightarrow> is_string v | _ \<Rightarrow> True) ops"

definition ex_item_set :: FieldSet where
  "ex_item_set = MkSet [pe_field ''spec'', ex_item_key] [(ex_item_key, MkSet [pe_field ''image''] [])]"

lemma ex_first_le: "length (snd (ex_first i)) \<le> length i \<and> (fst (ex_first i) \<noteq> None \<longrightarrow> length (snd (ex_first i)) < length i)"
  by (induction i rule: ex_first.induct) auto

lemma ex_next_le: "length (snd (ex_next i)) \<le> length i \<and> (fst (ex_next i) \<noteq> None \<longrightarrow> length (snd (ex_next i)) < length i)"
  by (induction i rule: ex_next.induct) auto

lemma ex_lib_sel [simp]:
  "map_first ex_lib = ex_first" "map_next ex_lib = ex_next" "iter_Error ex_lib i = None" "ReportError ex_lib i e = i"
  "render ex_lib ops = Inr (concat (map ex_show ops))"
  by (simp_all add: ex_lib_def)

lemma ex_iterate:
  "length (iterate ex_lib s) \<le> length s"
  "iterate ex_lib (concat (map ex_show ex_key_doc)) = ex_key_doc" "iterate ex_lib (concat (map ex_show ex_set_doc)) = ex_set_doc"
  by (simp_all add: ex_lib_def ex_key_doc_def ex_set_doc_def ex_item_text_def)

lemma ex_Read_le: "length (snd (Read ex_lib i)) \<le> length i"
  by (simp add: ex_lib_def split: list.split stream_op.split Value.split)

lemma ex_Skip_le: "length (Skip ex_lib i) \<le> length i"
  by (simp add: ex_lib_def split: list.split stream_op.split)

lemma ex_lib_consumes: "json_consumes ex_lib length"
  unfolding json_consumes_def using ex_first_le ex_next_le by (simp add: ex_iterate(1) ex_Read_le ex_Skip_le)

lemma ex_lib_steps [simp]:
  "Read ex_lib (WriteVal (VString x) # rest) = (VString x, rest)" "Skip ex_lib (WriteEmptyObject # rest) = rest"
  by (simp_all add: ex_lib_def)

lemma ex_at_simps [simp]:
  "ex_at i (WriteVal v # ops) \<longleftrightarrow> (\<exists>x. v = VString x) \<and> i = WriteVal v # ops \<and> ex_at ops ops"
  "ex_at i (WriteObjectField k # ops) \<longleftrightarrow> i = WriteObjectField k # ops \<and> ex_at ops ops"
  "ex_at i (WriteMore # ops) \<longleftrightarrow> i = WriteMore # ops \<and> ex_at ops ops"
  "ex_at i (WriteEmptyObject # ops) \<longleftrightarrow> i = WriteEmptyObject # ops \<and> ex_at ops ops"
  "ex_at i (WriteObjectStart # ops) \<longleftrightarrow> i = WriteObjectStart # ops \<and> ex_at ops ops"
  "ex_at i (WriteObjectEnd # ops) \<longleftrightarrow> i = WriteObjectEnd # ops \<and> ex_at ops ops"
  "ex_at i [] \<longleftrightarrow> i = []"
  by (auto simp: ex_at_def is_string_def)

lemma ex_lib_reads: "json_reads No_Floats ex_lib ex_at"
proof -
  have "\<exists>w j. Read ex_lib i = (w, j) \<and> value_ok No_Floats w \<and> Equals v w \<and>
      (if rest = [] then pred_option (is_EOF ex_lib) (iter_Error ex_lib j) else ex_at j rest)" if "ex_at i (WriteVal v # rest)" for i v rest
    using that by (intro exI [of _ v] exI [of _ rest]) (auto simp: cmp_simps)
  then show ?thesis unfolding json_reads_def by auto
qed

lemma ex_lib_values: "json_values No_Floats ex_lib"
  unfolding json_values_def by (auto simp: ex_lib_def split: list.split stream_op.split Value.split)

lemma ex_lib_plain: "json_plain ex_lib"
  by (simp add: json_plain_def)

lemma ex_key_doc_key: "write_key [(''name'', VString ''a'')] = ex_key_doc"
  by (simp add: write_key_def ex_key_doc_def WriteJSONStream_def)

lemma ex_item_set_written: "pe \<in> set (Set_elements ex_item_set) \<Longrightarrow> pe_written ex_lib ex_at pe"
proof -
  have "ex_at ex_key_doc ex_key_doc" by (simp add: ex_key_doc_def)
  then show "pe \<in> set (Set_elements ex_item_set) \<Longrightarrow> pe_written ex_lib ex_at pe"
    by (auto simp: ex_item_set_def pe_written_def json_writes_def pe_field_def ex_item_key_def pe_key_def PathElement_zero_def
        ex_key_doc_key ex_iterate(2))
qed

lemma ex_item_set_doc: "emitContentsV1 ex_lib False ex_item_set = Inr (butlast (tl ex_set_doc))"
  by (simp add: ex_item_set_def ex_set_doc_def serializePathElementToWriter_def flush_def pe_field_def ex_item_key_def pe_key_def
      ex_key_doc_key ex_item_text_def PathElement_Compare_def preWrite_def FieldList_Compare_def strings_Compare_def linorder_cmp_def
      Field_Compare_def cmp_simps)

text \<open>C12 (roundtrip): a well-formed set whose path elements JSON has a form for is written by \<^verbatim>\<open>ToJSON\<close>, and \<^verbatim>\<open>FromJSON\<close> reads the text
  back without an error as a well-formed set that equals it, when the JSON library reads what it wrote up to \<^verbatim>\<open>Equals\<close> of values.\<close>

theorem Set_JSON_roundtrip:
  assumes "json_reads m lib at" "json_plain lib" "json_consumes lib left" "Set_wf m s"
    and "\<forall>pe \<in> set (Set_elements s). pe_written lib at pe"
    and "\<And>ops. emitContentsV1 lib False s = Inr ops \<Longrightarrow> json_writes lib at (WriteObjectStart # ops @ [WriteObjectEnd])"
  shows "\<exists>x s'. ToJSON lib s = Inr x \<and> FromJSON lib x = Some (s', None) \<and> Set_wf m s' \<and>
    (\<forall>p. path_ok m p \<longrightarrow> Set_Has s' p = Set_Has s p)"
proof -
  obtain x s' where s': "ToJSON lib s = Inr x" "FromJSON lib x = Some (s', None)" "Set_wf m s'" "Set_Equals s s'"
    using ToJSON_FromJSON [OF assms] by blast
  moreover have "\<forall>p. path_ok m p \<longrightarrow> Set_Has s' p = Set_Has s p" using fs.eq_iff [OF assms(4) s'(3)] s'(4) by simp
  ultimately show ?thesis by blast
qed

theorem Set_JSON_roundtrip_witness:
  "\<exists>x s'. ToJSON ex_lib ex_item_set = Inr x \<and> FromJSON ex_lib x = Some (s', None) \<and> Set_wf No_Floats s' \<and>
    (\<forall>p. path_ok No_Floats p \<longrightarrow> Set_Has s' p = Set_Has ex_item_set p)"
proof (rule Set_JSON_roundtrip [OF ex_lib_reads ex_lib_plain ex_lib_consumes])
  show "Set_wf No_Floats ex_item_set"
    by (simp add: ex_item_set_def pe.ascending_def pe_ok_def pe_single_def pe_field_def ex_item_key_def pe_key_def fields_ok_def
        PathElement_Compare_def PathElementSet_Size_def)
  show "\<forall>pe \<in> set (Set_elements ex_item_set). pe_written ex_lib ex_at pe" using ex_item_set_written by blast
  fix ops
  assume "emitContentsV1 ex_lib False ex_item_set = Inr ops"
  then have "WriteObjectStart # ops @ [WriteObjectEnd] = ex_set_doc" by (simp add: ex_item_set_doc) (simp add: ex_set_doc_def)
  moreover have "ex_at ex_set_doc ex_set_doc" by (simp add: ex_set_doc_def)
  ultimately show "json_writes ex_lib ex_at (WriteObjectStart # ops @ [WriteObjectEnd])"
    by (auto simp: json_writes_def ex_iterate(3))
qed

text \<open>C13 (termination): \<^verbatim>\<open>FromJSON\<close> ends on every text, ill-formed ones included, and the set it leaves is well-formed even when it
  reports an error, provided that the iterator moves forward and reads comparable values.\<close>

theorem FromJSON_total:
  assumes "json_consumes lib left" "json_values m lib"
  shows "\<exists>s err. FromJSON lib x = Some (s, err) \<and> Set_wf m s"
  using FromJSON_ends [OF assms(1), of x] FromJSON_wf [OF assms(2)] by blast

theorem FromJSON_total_witness: "\<exists>s err. FromJSON ex_lib ''{1'' = Some (s, err) \<and> Set_wf No_Floats s"
  by (rule FromJSON_total [OF ex_lib_consumes ex_lib_values])

end
