(* ===== verification/Go_Values.thy ===== *)
theory Go_Values
  imports Value_Order "HOL-Library.AList"
begin

text \<open>
  \<^verbatim>\<open>value/valueunstructured.go\<close>, \<^verbatim>\<open>value/listunstructured.go\<close> and \<^verbatim>\<open>value/mapunstructured.go\<close>: the implementation of the
  interfaces \<^verbatim>\<open>Value\<close>, \<^verbatim>\<open>List\<close> and \<^verbatim>\<open>Map\<close> over an \<^verbatim>\<open>interface{}\<close>, the ranges of \<^verbatim>\<open>value/list.go\<close>, and the contract of
  the interface: what the methods show is a \<^typ>\<open>Value\<close>, the data type on which the rest of the development works.  A method that
  panics returns \<open>None\<close>.  A Go map is an association list in the order of its iteration.
\<close>

section \<open>The dynamic values of an interface\<close>

text \<open>The dynamic types that the code distinguishes; \<open>GoOther\<close> is a value of any other type.  A \<^verbatim>\<open>float32\<close> is given by the
  \<^verbatim>\<open>float64\<close> of the same value.\<close>

datatype go =
    GoNil
  | GoBool bool
  | GoInt "64 word"
  | GoInt8 "8 word"
  | GoInt16 "16 word"
  | GoInt32 "32 word"
  | GoInt64 "64 word"
  | GoUint "64 word"
  | GoUint8 "8 word"
  | GoUint16 "16 word"
  | GoUint32 "32 word"
  | GoUint64 "64 word"
  | GoFloat32 float64
  | GoFloat64 float64
  | GoString string
  | GoSlice "go list"
  | GoMapString "(string \<times> go) list"
  | GoMapInterface "(go \<times> go) list"
  | GoOther

section \<open>Values\<close>

fun vu_IsMap :: "go \<Rightarrow> bool" where
  "vu_IsMap (GoMapString _) = True"
| "vu_IsMap (GoMapInterface _) = True"
| "vu_IsMap _ = False"

datatype go_map = mapUnstructuredString "(string \<times> go) list" | mapUnstructuredInterface "(go \<times> go) list"

fun vu_AsMapUsing :: "go \<Rightarrow> go_map option" where
  "vu_AsMapUsing (GoMapString t) = Some (mapUnstructuredString t)"
| "vu_AsMapUsing (GoMapInterface t) = Some (mapUnstructuredInterface t)"
| "vu_AsMapUsing _ = None"

fun vu_IsList :: "go \<Rightarrow> bool" where
  "vu_IsList (GoSlice _) = True"
| "vu_IsList _ = False"

fun vu_AsListUsing :: "go \<Rightarrow> go list option" where
  "vu_AsListUsing (GoSlice l) = Some l"
| "vu_AsListUsing _ = None"

fun vu_IsFloat :: "go \<Rightarrow> bool" where
  "vu_IsFloat (GoFloat64 _) = True"
| "vu_IsFloat (GoFloat32 _) = True"
| "vu_IsFloat _ = False"

fun vu_AsFloat :: "go \<Rightarrow> float64 option" where
  "vu_AsFloat (GoFloat32 f) = Some f"
| "vu_AsFloat (GoFloat64 f) = Some f"
| "vu_AsFloat _ = None"

text \<open>\<^verbatim>\<open>uint64\<close> is left out by the code.\<close>

fun vu_IsInt :: "go \<Rightarrow> bool" where
  "vu_IsInt (GoInt _) = True"
| "vu_IsInt (GoInt8 _) = True"
| "vu_IsInt (GoInt16 _) = True"
| "vu_IsInt (GoInt32 _) = True"
| "vu_IsInt (GoInt64 _) = True"
| "vu_IsInt (GoUint _) = True"
| "vu_IsInt (GoUint8 _) = True"
| "vu_IsInt (GoUint16 _) = True"
| "vu_IsInt (GoUint32 _) = True"
| "vu_IsInt _ = False"

text \<open>The conversion \<^verbatim>\<open>int64(i)\<close> extends the sign of a signed and zeroes of an unsigned number; a \<^verbatim>\<open>uint\<close> is reinterpreted.\<close>

fun vu_AsInt :: "go \<Rightarrow> 64 word option" where
  "vu_AsInt (GoInt i) = Some i"
| "vu_AsInt (GoInt8 i) = Some (scast i)"
| "vu_AsInt (GoInt16 i) = Some (scast i)"
| "vu_AsInt (GoInt32 i) = Some (scast i)"
| "vu_AsInt (GoUint i) = Some i"
| "vu_AsInt (GoUint8 i) = Some (ucast i)"
| "vu_AsInt (GoUint16 i) = Some (ucast i)"
| "vu_AsInt (GoUint32 i) = Some (ucast i)"
| "vu_AsInt (GoInt64 i) = Some i"
| "vu_AsInt _ = None"

fun vu_IsString :: "go \<Rightarrow> bool" where
  "vu_IsString (GoString _) = True"
| "vu_IsString _ = False"

fun vu_AsString :: "go \<Rightarrow> string option" where
  "vu_AsString (GoString s) = Some s"
| "vu_AsString _ = None"

fun vu_IsBool :: "go \<Rightarrow> bool" where
  "vu_IsBool (GoBool _) = True"
| "vu_IsBool _ = False"

fun vu_AsBool :: "go \<Rightarrow> bool option" where
  "vu_AsBool (GoBool b) = Some b"
| "vu_AsBool _ = None"

fun vu_IsNull :: "go \<Rightarrow> bool" where
  "vu_IsNull GoNil = True"
| "vu_IsNull _ = False"

section \<open>Lists and ranges\<close>

definition lu_Length :: "go list \<Rightarrow> int" where
  "lu_Length l = int (length l)"

definition lu_AtUsing :: "go list \<Rightarrow> int \<Rightarrow> go option" where
  "lu_AtUsing l i = (if 0 \<le> i \<and> i < int (length l) then Some (l ! nat i) else None)"

text \<open>A range is the empty one, or a list with the current index; \<^verbatim>\<open>listUnstructuredRange\<close> and \<^verbatim>\<open>listReflectRange\<close> have the same
  methods.\<close>

datatype 'v ListRange = EmptyRange | ListRange "'v list" int

definition RangeUsing :: "'v list \<Rightarrow> 'v ListRange" where
  "RangeUsing l = (if length l = 0 then EmptyRange else ListRange l (- 1))"

fun Range_Next :: "'v ListRange \<Rightarrow> bool \<times> 'v ListRange" where
  "Range_Next EmptyRange = (False, EmptyRange)"
| "Range_Next (ListRange l i) = (i + 1 < int (length l), ListRange l (i + 1))"

fun Range_Item :: "'v ListRange \<Rightarrow> (int \<times> 'v) option" where
  "Range_Item EmptyRange = None"
| "Range_Item (ListRange l i) =
     (if i < 0 then None else if i \<ge> int (length l) then None else Some (i, l ! nat i))"

text \<open>The loop \<^verbatim>\<open>for r.Next() { i, v := r.Item() ... }\<close> of the callers: what it visits, or \<open>None\<close> if it panics.\<close>

fun range_left :: "'v ListRange \<Rightarrow> nat" where
  "range_left EmptyRange = 0"
| "range_left (ListRange l i) = nat (int (length l) - i)"

function range_loop :: "'v ListRange \<Rightarrow> (int \<times> 'v) list option" where
  "range_loop r =
     (case Range_Next r of
        (False, r') \<Rightarrow> Some []
      | (True, r') \<Rightarrow> (case Range_Item r' of
          None \<Rightarrow> None
        | Some x \<Rightarrow> (case range_loop r' of None \<Rightarrow> None | Some xs \<Rightarrow> Some (x # xs))))"
  by pat_completeness auto
termination
proof (relation "measure range_left", simp, goal_cases)
  case (1 r b r' x)
  then show ?case by (cases r) auto
qed

declare range_loop.simps [simp del]

section \<open>Maps\<close>

fun mu_Set :: "go_map \<Rightarrow> string \<Rightarrow> go \<Rightarrow> go_map" where
  "mu_Set (mapUnstructuredInterface m) key val = mapUnstructuredInterface (AList.update (GoString key) val m)"
| "mu_Set (mapUnstructuredString m) key val = mapUnstructuredString (AList.update key val m)"

fun mu_GetUsing :: "go_map \<Rightarrow> string \<Rightarrow> go option" where
  "mu_GetUsing (mapUnstructuredInterface m) key = map_of m (GoString key)"
| "mu_GetUsing (mapUnstructuredString m) key = map_of m key"

fun mu_Has :: "go_map \<Rightarrow> string \<Rightarrow> bool" where
  "mu_Has (mapUnstructuredInterface m) key = (map_of m (GoString key) \<noteq> None)"
| "mu_Has (mapUnstructuredString m) key = (map_of m key \<noteq> None)"

fun mu_Delete :: "go_map \<Rightarrow> string \<Rightarrow> go_map" where
  "mu_Delete (mapUnstructuredInterface m) key = mapUnstructuredInterface (AList.delete (GoString key) m)"
| "mu_Delete (mapUnstructuredString m) key = mapUnstructuredString (AList.delete key m)"

fun mu_IterateUsing :: "go_map \<Rightarrow> (string \<Rightarrow> go \<Rightarrow> 's \<Rightarrow> bool \<times> 's) \<Rightarrow> 's \<Rightarrow> bool \<times> 's" where
  "mu_IterateUsing (mapUnstructuredInterface m) fn s =
     (if length m = 0 then (True, s)
      else iterate_until (\<lambda>(k, v) s. case k of GoString ks \<Rightarrow> fn ks v s | _ \<Rightarrow> (True, s)) m s)"
| "mu_IterateUsing (mapUnstructuredString m) fn s =
     (if length m = 0 then (True, s) else iterate_until (\<lambda>(k, v) s. fn k v s) m s)"

fun mu_Length :: "go_map \<Rightarrow> nat" where
  "mu_Length (mapUnstructuredInterface m) = length m"
| "mu_Length (mapUnstructuredString m) = length m"

fun mu_Empty :: "go_map \<Rightarrow> bool" where
  "mu_Empty (mapUnstructuredInterface m) = (length m = 0)"
| "mu_Empty (mapUnstructuredString m) = (length m = 0)"

text \<open>\<^verbatim>\<open>EqualsUsing\<close> of both maps; \<open>eq\<close> is \<^verbatim>\<open>value.EqualsUsing\<close>.\<close>

definition mu_EqualsUsing :: "(go \<Rightarrow> go \<Rightarrow> bool) \<Rightarrow> go_map \<Rightarrow> go_map \<Rightarrow> bool" where
  "mu_EqualsUsing eq m other =
     (let lhsLength = mu_Length m; rhsLength = mu_Length other in
      if lhsLength \<noteq> rhsLength then False
      else if lhsLength = 0 then True
      else fst (mu_IterateUsing other
             (\<lambda>key val s. (case mu_GetUsing m key of None \<Rightarrow> False | Some lhsVal \<Rightarrow> eq lhsVal val, s)) ()))"

section \<open>The contract of the interfaces\<close>

text \<open>A \<^verbatim>\<open>Map\<close> is known by its entries, in the order of iteration.\<close>

locale map_view =
  fixes ok :: "'m \<Rightarrow> bool" and entries :: "'m \<Rightarrow> (string \<times> 'v) list"
    and get :: "'m \<Rightarrow> string \<Rightarrow> 'v option" and has :: "'m \<Rightarrow> string \<Rightarrow> bool"
    and len :: "'m \<Rightarrow> nat" and empty :: "'m \<Rightarrow> bool"
    and iter :: "'m \<Rightarrow> (string \<Rightarrow> 'v \<Rightarrow> 's \<Rightarrow> bool \<times> 's) \<Rightarrow> 's \<Rightarrow> bool \<times> 's"
  assumes distinct: "ok m \<Longrightarrow> distinct (map fst (entries m))"
    and get: "ok m \<Longrightarrow> get m k = map_of (entries m) k"
    and has: "ok m \<Longrightarrow> has m k \<longleftrightarrow> get m k \<noteq> None"
    and len: "ok m \<Longrightarrow> len m = length (entries m)"
    and empty: "ok m \<Longrightarrow> empty m \<longleftrightarrow> len m = 0"
    and iter: "ok m \<Longrightarrow> iter m fn s = iterate_until (\<lambda>(k, v). fn k v) (entries m) s"
begin

lemma get_entry: "ok m \<Longrightarrow> (k, v) \<in> set (entries m) \<longleftrightarrow> get m k = Some v"
  by (simp add: get distinct)

lemma has_key: "ok m \<Longrightarrow> has m k \<longleftrightarrow> k \<in> fst ` set (entries m)"
  by (simp add: has get map_of_eq_None_iff)

lemma len_keys: "ok m \<Longrightarrow> len m = card {k. has m k}"
  using distinct_card [OF distinct, of m] by (simp add: len has_key)

lemma empty_no_keys: "ok m \<Longrightarrow> empty m \<longleftrightarrow> (\<forall>k. \<not> has m k)"
  by (auto simp: empty len has_key)

text \<open>An iteration that is not stopped visits every entry once.\<close>

lemma iter_all:
  assumes "ok m" "\<And>k v s. fst (fn k v s)"
  shows "iter m fn s = (True, fold (\<lambda>(k, v) s. snd (fn k v s)) (entries m) s)"
proof -
  have "iterate_until (\<lambda>(k, v). fn k v) kvs s = (True, fold (\<lambda>(k, v) s. snd (fn k v s)) kvs s)" for kvs s
  proof (induction kvs arbitrary: s)
    case (Cons kv kvs)
    obtain k v where kv: "kv = (k, v)" by fastforce
    obtain s' where "fn k v s = (True, s')" using assms(2) [of k v s] by (cases "fn k v s") simp
    then show ?case using Cons by (simp add: kv)
  qed simp
  then show ?thesis using iter [OF assms(1)] by simp
qed

end

locale mutable_map = map_view +
  fixes set :: "'a \<Rightarrow> string \<Rightarrow> 'b \<Rightarrow> 'a" and delete :: "'a \<Rightarrow> string \<Rightarrow> 'a"
  assumes ok_set: "ok m \<Longrightarrow> ok (set m k v)" and ok_delete: "ok m \<Longrightarrow> ok (delete m k)"
    and get_set: "ok m \<Longrightarrow> get (set m k v) j = (if j = k then Some v else get m j)"
    and get_delete: "ok m \<Longrightarrow> get (delete m k) j = (if j = k then None else get m j)"
begin

lemma has_set: "ok m \<Longrightarrow> has (set m k v) j \<longleftrightarrow> j = k \<or> has m j"
  by (simp add: has ok_set get_set)

lemma has_delete: "ok m \<Longrightarrow> has (delete m k) j \<longleftrightarrow> j \<noteq> k \<and> has m j"
  by (simp add: has ok_delete get_delete)

lemma len_set: "ok m \<Longrightarrow> len (set m k v) = (if has m k then len m else Suc (len m))"
proof -
  assume ok: "ok m"
  have fin: "finite {j. has m j}" using ok by (simp add: has_key)
  have "{j. has (set m k v) j} = insert k {j. has m j}" using ok by (auto simp: has_set)
  then show ?thesis using ok fin by (simp add: len_keys ok_set card_insert_if)
qed

lemma set_delete: "ok m \<Longrightarrow> \<not> has m k \<Longrightarrow> get (delete (set m k v) k) j = get m j"
  by (simp add: ok_set get_delete get_set has)

end

text \<open>A \<^verbatim>\<open>Value\<close> is known by the tree that its methods show.\<close>

locale value_view =
  fixes ok :: "'v \<Rightarrow> bool" and abs :: "'v \<Rightarrow> Value"
    and isNull isBool isInt isFloat isString isList isMap :: "'v \<Rightarrow> bool"
    and asBool :: "'v \<Rightarrow> bool option" and asInt :: "'v \<Rightarrow> 64 word option" and asFloat :: "'v \<Rightarrow> float64 option"
    and asString :: "'v \<Rightarrow> string option" and asList :: "'v \<Rightarrow> 'v list option"
    and asMap :: "'v \<Rightarrow> 'm option" and entries :: "'m \<Rightarrow> (string \<times> 'v) list"
  assumes kinds: "ok v \<Longrightarrow> isNull v \<longleftrightarrow> is_null (abs v)" "ok v \<Longrightarrow> isBool v \<longleftrightarrow> is_bool (abs v)"
      "ok v \<Longrightarrow> isInt v \<longleftrightarrow> is_int (abs v)" "ok v \<Longrightarrow> isFloat v \<longleftrightarrow> is_float (abs v)" "ok v \<Longrightarrow> isString v \<longleftrightarrow> is_string (abs v)"
      "ok v \<Longrightarrow> isList v \<longleftrightarrow> is_list (abs v)" "ok v \<Longrightarrow> isMap v \<longleftrightarrow> is_map (abs v)"
    and scalars: "ok v \<Longrightarrow> asBool v = (if isBool v then Some (AsBool (abs v)) else None)"
      "ok v \<Longrightarrow> asInt v = (if isInt v then Some (AsInt (abs v)) else None)"
      "ok v \<Longrightarrow> asFloat v = (if isFloat v then Some (AsFloat (abs v)) else None)"
      "ok v \<Longrightarrow> asString v = (if isString v then Some (AsString (abs v)) else None)"
    and items: "ok v \<Longrightarrow> asList v = None \<longleftrightarrow> \<not> isList v" "ok v \<Longrightarrow> asList v = Some l \<Longrightarrow> AsList (abs v) = map abs l \<and> list_all ok l"
    and fields: "ok v \<Longrightarrow> asMap v = None \<longleftrightarrow> \<not> isMap v"
      "ok v \<Longrightarrow> asMap v = Some m \<Longrightarrow> AsMap (abs v) = map (map_prod id abs) (entries m) \<and> list_all (ok \<circ> snd) (entries m)"
begin

lemma one_kind:
  assumes "ok v"
  shows "length (filter id [isNull v, isBool v, isInt v, isFloat v, isString v, isList v, isMap v]) \<le> 1"
  using assms by (cases "abs v") (simp_all add: kinds)

lemma no_panic:
  assumes "ok v"
  shows "isBool v \<longleftrightarrow> asBool v \<noteq> None" "isInt v \<longleftrightarrow> asInt v \<noteq> None" "isFloat v \<longleftrightarrow> asFloat v \<noteq> None"
    "isString v \<longleftrightarrow> asString v \<noteq> None" "isList v \<longleftrightarrow> asList v \<noteq> None" "isMap v \<longleftrightarrow> asMap v \<noteq> None"
  using assms by (simp_all add: scalars items(1) fields(1))

text \<open>The tree is put together from what the methods return.\<close>

lemma tree:
  assumes "ok v"
  shows "isNull v \<Longrightarrow> abs v = VNull" "asBool v = Some b \<Longrightarrow> abs v = VBool b" "asInt v = Some i \<Longrightarrow> abs v = VInt i"
    "asFloat v = Some f \<Longrightarrow> abs v = VFloat f" "asString v = Some x \<Longrightarrow> abs v = VString x"
    "asList v = Some l \<Longrightarrow> abs v = VList (map abs l)" "asMap v = Some m \<Longrightarrow> abs v = VMap (map (map_prod id abs) (entries m))"
  using assms items(1) [of v] items(2) [of v l] fields(1) [of v] fields(2) [of v m] scalars [of v] kinds [of v]
  by (cases "abs v"; simp split: if_splits)+

end

section \<open>Unstructured values satisfy the contract\<close>

fun unstructured :: "go \<Rightarrow> Value" where
  "unstructured GoNil = VNull"
| "unstructured (GoBool b) = VBool b"
| "unstructured (GoInt i) = VInt i"
| "unstructured (GoInt8 i) = VInt (scast i)"
| "unstructured (GoInt16 i) = VInt (scast i)"
| "unstructured (GoInt32 i) = VInt (scast i)"
| "unstructured (GoInt64 i) = VInt i"
| "unstructured (GoUint i) = VInt i"
| "unstructured (GoUint8 i) = VInt (ucast i)"
| "unstructured (GoUint16 i) = VInt (ucast i)"
| "unstructured (GoUint32 i) = VInt (ucast i)"
| "unstructured (GoUint64 i) = VOther"
| "unstructured (GoFloat32 f) = VFloat f"
| "unstructured (GoFloat64 f) = VFloat f"
| "unstructured (GoString s) = VString s"
| "unstructured (GoSlice l) = VList (map unstructured l)"
| "unstructured (GoMapString m) = VMap (map (\<lambda>(k, v). (k, unstructured v)) m)"
| "unstructured (GoMapInterface m) = VMap (concat (map (\<lambda>(k, v). case k of GoString x \<Rightarrow> [(x, unstructured v)] | _ \<Rightarrow> []) m))"
| "unstructured GoOther = VOther"

text \<open>The keys of a map are distinct, and the keys of a \<^verbatim>\<open>map[interface{}]interface{}\<close> are strings: iteration skips others, but
  the length counts them.\<close>

fun go_ok :: "go \<Rightarrow> bool" where
  "go_ok (GoSlice l) = list_all go_ok l"
| "go_ok (GoMapString m) = (distinct (map fst m) \<and> list_all (\<lambda>(k, v). go_ok v) m)"
| "go_ok (GoMapInterface m) = (distinct (map fst m) \<and> list_all (\<lambda>(k, v). vu_IsString k \<and> go_ok v) m)"
| "go_ok _ = True"

fun mu_entries :: "go_map \<Rightarrow> (string \<times> go) list" where
  "mu_entries (mapUnstructuredInterface m) = concat (map (\<lambda>(k, v). case k of GoString x \<Rightarrow> [(x, v)] | _ \<Rightarrow> []) m)"
| "mu_entries (mapUnstructuredString m) = m"

fun mu_ok :: "go_map \<Rightarrow> bool" where
  "mu_ok (mapUnstructuredInterface m) = (distinct (map fst m) \<and> list_all (vu_IsString \<circ> fst) m)"
| "mu_ok (mapUnstructuredString m) = distinct (map fst m)"

lemma vu_IsString_iff: "vu_IsString k \<longleftrightarrow> (\<exists>x. k = GoString x)"
  by (cases k) simp_all

text \<open>A map with string keys only is its entries with the keys wrapped.\<close>

lemma mu_interface_entries:
  "list_all (vu_IsString \<circ> fst) m \<Longrightarrow> m = map (\<lambda>(x, v). (GoString x, v)) (mu_entries (mapUnstructuredInterface m))"
proof (induction m)
  case (Cons kv m)
  then show ?case by (cases kv; cases "fst kv") auto
qed simp

lemma map_of_wrap: "map_of (map (\<lambda>(x, v). (GoString x, v)) kvs) (GoString k) = map_of kvs k"
  by (induction kvs) auto

lemma iterate_wrap:
  "iterate_until (\<lambda>(k, v) s. case k of GoString ks \<Rightarrow> fn ks v s | _ \<Rightarrow> (True, s)) m s =
   iterate_until (\<lambda>(k, v). fn k v) (mu_entries (mapUnstructuredInterface m)) s"
proof (induction m arbitrary: s)
  case (Cons kv m)
  then show ?case by (cases kv; cases "fst kv") (auto split: prod.splits)
qed simp

lemma interface_keys:
  assumes "list_all (vu_IsString \<circ> fst) m"
  shows "map fst m = map GoString (map fst (mu_entries (mapUnstructuredInterface m)))"
    and "length m = length (mu_entries (mapUnstructuredInterface m))"
    and "map_of m (GoString k) = map_of (mu_entries (mapUnstructuredInterface m)) k"
    and "distinct (map fst m) \<Longrightarrow> distinct (map fst (mu_entries (mapUnstructuredInterface m)))"
proof -
  let ?e = "mu_entries (mapUnstructuredInterface m)"
  note m = mu_interface_entries [OF assms]
  show keys: "map fst m = map GoString (map fst ?e)" by (subst m) (auto simp del: mu_entries.simps)
  show "distinct (map fst m) \<Longrightarrow> distinct (map fst ?e)" unfolding keys by (simp only: distinct_map)
  from keys show "length m = length ?e" by (metis length_map)
  show "map_of m (GoString k) = map_of ?e k" by (subst m) (rule map_of_wrap)
qed

lemma string_keys_iff: "list_all (vu_IsString \<circ> fst) m \<longleftrightarrow> (\<forall>k \<in> fst ` set m. vu_IsString k)"
  by (auto simp: list_all_iff)

interpretation mu: mutable_map mu_ok mu_entries mu_GetUsing mu_Has mu_Length mu_Empty mu_IterateUsing mu_Set mu_Delete
proof (unfold_locales, goal_cases)
  case (1 m)
  then show ?case using interface_keys(4) by (cases m) (auto simp del: mu_entries.simps(1))
next
  case (2 m k)
  then show ?case using interface_keys(3) by (cases m) (auto simp del: mu_entries.simps(1))
next
  case (3 m k)
  then show ?case by (cases m) auto
next
  case (4 m)
  then show ?case using interface_keys(2) by (cases m) (auto simp del: mu_entries.simps(1))
next
  case (5 m)
  then show ?case by (cases m) auto
next
  case (6 m fn s)
  then show ?case by (cases m) (auto simp: iterate_wrap)
next
  case (7 m k v)
  then show ?case by (cases m) (simp_all add: distinct_update string_keys_iff dom_update)
next
  case (8 m k)
  then show ?case
  proof (cases m)
    case (mapUnstructuredInterface x)
    have "\<forall>j \<in> fst ` set (AList.delete (GoString k) x). vu_IsString j"
      using 8 dom_delete_subset [of "GoString k" x] unfolding mapUnstructuredInterface mu_ok.simps string_keys_iff by blast
    then show ?thesis using 8 unfolding mapUnstructuredInterface mu_ok.simps mu_Delete.simps string_keys_iff by (simp add: distinct_delete)
  qed (simp add: distinct_delete)
next
  case (9 m k v j)
  then show ?case by (cases m) (auto simp: update_conv')
next
  case (10 m k j)
  then show ?case by (cases m) (auto simp: delete_conv')
qed

lemma AsMap_interface:
  "AsMap (unstructured (GoMapInterface m)) = map (map_prod id unstructured) (mu_entries (mapUnstructuredInterface m))"
proof (induction m)
  case (Cons kv m)
  then show ?case by (cases kv; cases "fst kv") auto
qed simp

lemma vu_kinds:
  "vu_IsNull v \<longleftrightarrow> is_null (unstructured v)" "vu_IsBool v \<longleftrightarrow> is_bool (unstructured v)" "vu_IsInt v \<longleftrightarrow> is_int (unstructured v)"
  "vu_IsFloat v \<longleftrightarrow> is_float (unstructured v)" "vu_IsString v \<longleftrightarrow> is_string (unstructured v)"
  "vu_IsList v \<longleftrightarrow> is_list (unstructured v)" "vu_IsMap v \<longleftrightarrow> is_map (unstructured v)"
  by (cases v; simp)+

lemma vu_scalars:
  "vu_AsBool v = (if vu_IsBool v then Some (AsBool (unstructured v)) else None)"
  "vu_AsInt v = (if vu_IsInt v then Some (AsInt (unstructured v)) else None)"
  "vu_AsFloat v = (if vu_IsFloat v then Some (AsFloat (unstructured v)) else None)"
  "vu_AsString v = (if vu_IsString v then Some (AsString (unstructured v)) else None)"
  "vu_AsListUsing v = None \<longleftrightarrow> \<not> vu_IsList v" "vu_AsMapUsing v = None \<longleftrightarrow> \<not> vu_IsMap v"
  by (cases v; simp)+

interpretation un: value_view go_ok unstructured vu_IsNull vu_IsBool vu_IsInt vu_IsFloat vu_IsString vu_IsList vu_IsMap
  vu_AsBool vu_AsInt vu_AsFloat vu_AsString vu_AsListUsing vu_AsMapUsing mu_entries
proof (unfold_locales, goal_cases)
  case (13 v l)
  then show ?case by (cases v) auto
next
  case (15 v m)
  then show ?case
  proof (cases v)
    case (GoMapInterface x)
    have "list_all (go_ok \<circ> snd) (mu_entries (mapUnstructuredInterface x))"
      using 15(1) unfolding GoMapInterface by (auto simp: list_all_iff split: go.splits)
    then show ?thesis using 15 AsMap_interface [of x] by (auto simp: GoMapInterface simp del: unstructured.simps mu_entries.simps)
  qed (auto simp: list_all_iff)
qed (rule vu_kinds vu_scalars)+

section \<open>Integers at their widths\<close>

lemma sint_64: "sint (i :: 64 word) = (if uint i < 2 ^ 63 then uint i else uint i - 2 ^ 64)"
proof -
  have b: "0 \<le> uint i" "uint i < 2 ^ 64" using unsigned_less [of i, where ?'a = int] by simp_all
  have s: "sint i = (uint i + 2 ^ 63) mod 2 ^ 64 - 2 ^ 63"
    by (simp add: sint_uint signed_take_bit_eq_take_bit_shift take_bit_eq_mod)
  show ?thesis
  proof (cases "uint i < 2 ^ 63")
    case True
    then show ?thesis using s b by simp
  next
    case False
    have "(uint i + 2 ^ 63) mod 2 ^ 64 = (uint i - 2 ^ 63 + 2 ^ 64) mod 2 ^ 64" by (simp add: algebra_simps)
    also have "\<dots> = uint i - 2 ^ 63" using False b by (simp only: mod_add_self2) simp
    finally show ?thesis using s False by simp
  qed
qed

lemma sint_ucast_64:
  assumes "LENGTH('a) < 64"
  shows "sint (ucast (i :: 'a :: len word) :: 64 word) = uint i" "uint i < 2 ^ 63"
proof -
  have "uint i < 2 ^ LENGTH('a)" by (rule unsigned_less)
  also have "(2 :: int) ^ LENGTH('a) \<le> 2 ^ 63" using assms by (intro power_increasing) auto
  finally show less: "uint i < 2 ^ 63" .
  have "uint (ucast i :: 64 word) = uint i" using assms by (intro uint_up_ucast) (simp add: is_up)
  then show "sint (ucast i :: 64 word) = uint i" using less by (simp add: sint_64)
qed

lemma sint_scast_64:
  assumes "LENGTH('a) \<le> 64"
  shows "sint (scast (i :: 'a :: len word) :: 64 word) = sint i" "sint i < 2 ^ 63"
proof -
  show s: "sint (scast i :: 64 word) = sint i" using assms by (intro sint_up_scast) (simp add: is_up)
  have "sint j < 2 ^ 63" for j :: "64 word" using sint_lt [of j] by simp
  then show "sint i < 2 ^ 63" using s by metis
qed

text \<open>The number that a value of an integer type is.\<close>

fun go_number :: "go \<Rightarrow> int option" where
  "go_number (GoInt i) = Some (sint i)"
| "go_number (GoInt8 i) = Some (sint i)"
| "go_number (GoInt16 i) = Some (sint i)"
| "go_number (GoInt32 i) = Some (sint i)"
| "go_number (GoInt64 i) = Some (sint i)"
| "go_number (GoUint i) = Some (uint i)"
| "go_number (GoUint8 i) = Some (uint i)"
| "go_number (GoUint16 i) = Some (uint i)"
| "go_number (GoUint32 i) = Some (uint i)"
| "go_number (GoUint64 i) = Some (uint i)"
| "go_number _ = None"

lemma vu_IsInt_number: "vu_IsInt v \<longleftrightarrow> go_number v \<noteq> None \<and> (\<forall>i. v \<noteq> GoUint64 i)"
  by (cases v) simp_all

lemmas word_widths = sint_ucast_64(1) sint_scast_64(1) sint_ucast_64(2) [simplified] sint_scast_64(2) [simplified]

lemma vu_AsInt_number:
  assumes "vu_AsInt v = Some i" "go_number v = Some n"
  shows "sint i = (if n < 2 ^ 63 then n else n - 2 ^ 64)"
proof (cases "\<exists>x. v = GoUint x")
  case True
  then show ?thesis using assms sint_64 [of i] by auto
next
  case False
  then show ?thesis using assms by (cases v) (simp_all add: word_widths, auto simp: word_widths)
qed

lemma go_number_64: "go_number v = Some n \<Longrightarrow> 2 ^ 63 \<le> n \<Longrightarrow> \<exists>i. v = GoUint i \<or> v = GoUint64 i"
  by (cases v) (auto simp: word_widths linorder_not_less [symmetric])

section \<open>Ranges\<close>

text \<open>From any position on, the loop visits the items that are left.\<close>

lemma range_loop_from:
  assumes "i = int n - 1" "n \<le> length l"
  shows "range_loop (ListRange l i) = Some (map (\<lambda>j. (int j, l ! j)) [n..<length l])"
  using assms
proof (induction "length l - n" arbitrary: n i)
  case 0
  then show ?case by (subst range_loop.simps) simp
next
  case (Suc d)
  then have "range_loop (ListRange l (int n)) = Some (map (\<lambda>j. (int j, l ! j)) [Suc n..<length l])" by (intro Suc.hyps(1)) auto
  moreover have "[n..<length l] = n # [Suc n..<length l]" using Suc.hyps(2) by (simp add: upt_conv_Cons)
  moreover have "n < length l" using Suc.hyps(2) by simp
  ultimately show ?case using Suc.prems by (subst range_loop.simps) simp
qed

lemma range_loop_Range: "range_loop (RangeUsing l) = Some (map (\<lambda>j. (int j, l ! j)) [0..<length l])"
proof (cases "l = []")
  case True
  then show ?thesis by (subst range_loop.simps) (simp add: RangeUsing_def)
next
  case False
  then show ?thesis using range_loop_from [of "- 1" 0 l] by (simp add: RangeUsing_def)
qed

section \<open>Equality\<close>

text \<open>\<^verbatim>\<open>EqualsUsing\<close> of two maps is the equality of the maps that they show.\<close>

lemma mu_EqualsUsing_correct:
  assumes "mu_ok m" "mu_ok other"
  shows "mu_EqualsUsing eq m other \<longleftrightarrow> mapUnstructured_EqualsUsing eq (mu_entries m) (mu_entries other)"
proof -
  have "mu_IterateUsing other fn s = iterate_until (\<lambda>(k, v). fn k v) (mu_entries other) s" for fn :: "string \<Rightarrow> go \<Rightarrow> unit \<Rightarrow> bool \<times> unit" and s
    by (rule mu.iter [OF assms(2)])
  then show ?thesis
    by (auto simp: mu_EqualsUsing_def mapUnstructured_EqualsUsing_def mu.len [OF assms(1)] mu.len [OF assms(2)] mu.get [OF assms(1)] Let_def)
qed

end
