(* ===== verification/Slices.thy ===== *)
theory Slices
  imports SMD_Prelude
begin

text \<open>
  Go slices.  A slice is a window on an array of the store; \<^verbatim>\<open>append\<close> writes behind the window when there is room, and moves to a
  new array otherwise.  \<open>grow n\<close> is the capacity that the Go runtime chooses for the new array of a full slice of length \<open>n\<close>, and
  \<open>z\<close> the zero value of the elements.
\<close>

section \<open>Model\<close>

record slice =
  s_array :: nat
  s_len :: nat
  s_cap :: nat

definition nil_slice :: slice where
  "nil_slice = \<lparr>s_array = 0, s_len = 0, s_cap = 0\<rparr>"

definition slice_elems :: "'a list list \<Rightarrow> slice \<Rightarrow> 'a list" where
  "slice_elems st s = (if s_len s = 0 then [] else take (s_len s) (st ! s_array s))"

definition slice_append :: "(nat \<Rightarrow> nat) \<Rightarrow> 'a \<Rightarrow> 'a list list \<Rightarrow> slice \<Rightarrow> 'a \<Rightarrow> 'a list list \<times> slice" where
  "slice_append grow z st s x =
     (if s_len s < s_cap s then (st[s_array s := (st ! s_array s)[s_len s := x]], s\<lparr>s_len := Suc (s_len s)\<rparr>)
      else (st @ [slice_elems st s @ x # replicate (grow (s_len s) - Suc (s_len s)) z],
            \<lparr>s_array = length st, s_len = Suc (s_len s), s_cap = grow (s_len s)\<rparr>))"

section \<open>Slices within their arrays\<close>

definition slice_ok :: "'a list list \<Rightarrow> slice \<Rightarrow> bool" where
  "slice_ok st s \<longleftrightarrow> s_len s = 0 \<or> (s_array s < length st \<and> s_len s \<le> length (st ! s_array s))"

lemma slice_elems_append [simp]: "slice_ok st s \<Longrightarrow> slice_elems (st @ ys) s = slice_elems st s"
  by (auto simp: slice_ok_def slice_elems_def nth_append)

lemma slice_ok_append [simp]: "slice_ok st s \<Longrightarrow> slice_ok (st @ ys) s"
  by (auto simp: slice_ok_def nth_append)

lemma length_slice_elems: "slice_ok st s \<Longrightarrow> length (slice_elems st s) = s_len s"
  by (auto simp: slice_elems_def slice_ok_def)

text \<open>Slices that are full are not shared.\<close>

lemma append_full:
  assumes "slice_ok st s" "s_len s = s_cap s" "slice_append grow z st s x = (st', s')"
  shows "\<exists>ys. st' = st @ ys" "slice_ok st' s'" "slice_elems st' s' = slice_elems st s @ [x]"
    "s_len s' = Suc (s_len s)" "s_cap s' = grow (s_len s)"
proof -
  have s: "st' = st @ [slice_elems st s @ x # replicate (grow (s_len s) - Suc (s_len s)) z]"
    "s' = \<lparr>s_array = length st, s_len = Suc (s_len s), s_cap = grow (s_len s)\<rparr>"
    using assms(2,3) by (auto simp: slice_append_def)
  show "\<exists>ys. st' = st @ ys" "s_len s' = Suc (s_len s)" "s_cap s' = grow (s_len s)" using s by auto
  show "slice_ok st' s'" "slice_elems st' s' = slice_elems st s @ [x]"
    using length_slice_elems [OF assms(1)] by (auto simp: s slice_ok_def slice_elems_def [of "st @ _"])
qed

section \<open>Shared arrays\<close>

text \<open>A slice with its room behind it.  \<^verbatim>\<open>append\<close> to it may overwrite what longer slices show, but no slice that is not longer.\<close>

definition slice_wf :: "'a list list \<Rightarrow> slice \<Rightarrow> bool" where
  "slice_wf st s \<longleftrightarrow> s_len s \<le> s_cap s \<and> (s_cap s = 0 \<or> (s_array s < length st \<and> s_cap s \<le> length (st ! s_array s)))"

lemma slice_wf_nil [simp]: "slice_wf st nil_slice"
  by (simp add: slice_wf_def nil_slice_def)

lemma slice_wf_ok: "slice_wf st s \<Longrightarrow> slice_ok st s"
  by (auto simp: slice_wf_def slice_ok_def)

lemma append_wf:
  assumes "slice_wf st s" "s_len s < grow (s_len s)" "slice_append grow z st s x = (st', s')"
  shows "slice_wf st' s'" "slice_elems st' s' = slice_elems st s @ [x]"
proof -
  note len = length_slice_elems [OF slice_wf_ok [OF assms(1)]]
  consider (room) "s_len s < s_cap s" | (full) "s_len s = s_cap s" using assms(1) by (fastforce simp: slice_wf_def)
  then have "slice_wf st' s' \<and> slice_elems st' s' = slice_elems st s @ [x]"
  proof cases
    case room
    then have "s_len s < length (st ! s_array s)" "s_array s < length st" using assms(1) by (auto simp: slice_wf_def)
    moreover from this have "take (Suc (s_len s)) ((st ! s_array s)[s_len s := x]) = take (s_len s) (st ! s_array s) @ [x]"
      by (simp add: take_Suc_conv_app_nth)
    ultimately show ?thesis
      using room assms(1,3) by (auto simp: slice_append_def slice_wf_def slice_elems_def)
  next
    case full
    then show ?thesis
      using append_full [OF slice_wf_ok [OF assms(1)] full assms(3)] assms(2,3) len
      by (auto simp: slice_append_def slice_wf_def)
  qed
  then show "slice_wf st' s'" "slice_elems st' s' = slice_elems st s @ [x]" by simp_all
qed

lemma append_keeps:
  assumes "slice_append grow z st s x = (st', s')" "slice_wf st t" "s_len t \<le> s_len s"
  shows "slice_wf st' t" "slice_elems st' t = slice_elems st t"
  using assms
  by (cases "s_array t = s_array s"; auto simp: slice_append_def slice_wf_def slice_elems_def nth_append split: if_splits)+

lemma shrink_wf: "slice_wf st s \<Longrightarrow> slice_wf st (s\<lparr>s_len := s_len s - n\<rparr>)"
  by (auto simp: slice_wf_def)

lemma shrink_elems:
  assumes "slice_wf st s"
  shows "slice_elems st (s\<lparr>s_len := s_len s - 1\<rparr>) = butlast (slice_elems st s)"
proof -
  have "slice_elems st (s\<lparr>s_len := s_len s - 1\<rparr>) = take (s_len s - 1) (slice_elems st s)"
    by (auto simp: slice_elems_def)
  also have "\<dots> = butlast (slice_elems st s)"
    using length_slice_elems [OF slice_wf_ok [OF assms]] by (simp add: butlast_conv_take)
  finally show ?thesis .
qed

end
