(* ===== verification/Reflect_Types.thy ===== *)
theory Reflect_Types
  imports Go_Values Slices
begin

text \<open>
  \<^verbatim>\<open>value/jsontagutil.go\<close> and the part of \<^verbatim>\<open>value/reflectcache.go\<close> that describes Go types: which JSON names the fields of a
  struct have, which of them may be left out, and where their values are.  A path to a field is a Go slice, and
  \<^verbatim>\<open>append\<close> may write into an array that other slices share, so slices and their arrays are modelled as such.
\<close>

section \<open>Go types\<close>

datatype int_type = KInt | KInt8 | KInt16 | KInt32 | KInt64

datatype uint_type = KUint | KUint8 | KUint16 | KUint32 | KUint64 | KUintptr

text \<open>Struct types have names, and may refer to themselves; \<open>TNamed\<close> is a defined type that is not a struct.  The keys of maps
  are strings.\<close>

datatype rtype =
    TBool
  | TInt int_type
  | TUint uint_type
  | TFloat32
  | TFloat64
  | TString
  | TSlice rtype
  | TArray nat rtype
  | TMap rtype
  | TStruct string
  | TPtr rtype
  | TInterface
  | TChan
  | TFunc
  | TUnsafePointer
  | TComplex
  | TNamed string rtype

text \<open>\<^verbatim>\<open>reflect.Kind\<close>.\<close>

datatype kind_of =
    Bool_Kind | Int_Kind int_type | Uint_Kind uint_type | Float32_Kind | Float64_Kind | String_Kind | Slice_Kind | Array_Kind
  | Map_Kind | Struct_Kind | Ptr_Kind | Interface_Kind | Chan_Kind | Func_Kind | UnsafePointer_Kind | Complex_Kind

fun Kind :: "rtype \<Rightarrow> kind_of" where
  "Kind TBool = Bool_Kind"
| "Kind (TInt k) = Int_Kind k"
| "Kind (TUint k) = Uint_Kind k"
| "Kind TFloat32 = Float32_Kind"
| "Kind TFloat64 = Float64_Kind"
| "Kind TString = String_Kind"
| "Kind (TSlice t) = Slice_Kind"
| "Kind (TArray n t) = Array_Kind"
| "Kind (TMap t) = Map_Kind"
| "Kind (TStruct n) = Struct_Kind"
| "Kind (TPtr t) = Ptr_Kind"
| "Kind TInterface = Interface_Kind"
| "Kind TChan = Chan_Kind"
| "Kind TFunc = Func_Kind"
| "Kind TUnsafePointer = UnsafePointer_Kind"
| "Kind TComplex = Complex_Kind"
| "Kind (TNamed n t) = Kind t"

fun underlying :: "rtype \<Rightarrow> rtype" where
  "underlying (TNamed n t) = underlying t"
| "underlying t = t"

text \<open>\<^verbatim>\<open>reflect.Type.Elem\<close> of slices, arrays, maps and pointers.\<close>

fun Elem :: "rtype \<Rightarrow> rtype" where
  "Elem (TSlice t) = t"
| "Elem (TArray n t) = t"
| "Elem (TMap t) = t"
| "Elem (TPtr t) = t"
| "Elem (TNamed n t) = Elem t"
| "Elem t = t"

record reflect_field =
  sf_Name :: string
  sf_Tag :: string
  sf_Type :: rtype

text \<open>The struct types of the program: their names, and the fields of each.  \<open>sf_Tag\<close> is what \<^verbatim>\<open>Tag.Get("json")\<close> returns.\<close>

record type_env =
  struct_names :: "string list"
  struct_fields :: "string \<Rightarrow> reflect_field list"

fun struct_name :: "rtype \<Rightarrow> string" where
  "struct_name (TStruct n) = n"
| "struct_name (TNamed m t) = struct_name t"
| "struct_name t = []"

definition NumFields :: "type_env \<Rightarrow> rtype \<Rightarrow> reflect_field list" where
  "NumFields T t = struct_fields T (struct_name t)"

section \<open>JSON tags\<close>

text \<open>\<^verbatim>\<open>strings.Index(tag, ",")\<close> and the two parts: before the first comma, and after it.\<close>

definition cut_comma :: "string \<Rightarrow> string \<times> string option" where
  "cut_comma s = (takeWhile (\<lambda>c. c \<noteq> CHR '','') s,
     if CHR '','' \<in> set s then Some (tl (dropWhile (\<lambda>c. c \<noteq> CHR '','') s)) else None)"

definition parseTag :: "string \<Rightarrow> string \<times> string" where
  "parseTag tag = (case cut_comma tag of (name, Some opts) \<Rightarrow> (name, opts) | (name, None) \<Rightarrow> (tag, ''''))"

function tagOptions_Contains :: "string \<Rightarrow> string \<Rightarrow> bool" where
  "tagOptions_Contains s optionName =
     (if s = '''' then False
      else case cut_comma s of
             (opt, next) \<Rightarrow> if opt = optionName then True else tagOptions_Contains (case next of None \<Rightarrow> '''' | Some x \<Rightarrow> x) optionName)"
  by pat_completeness auto
termination
proof (relation "measure (\<lambda>(s, _). length s)", simp, goal_cases)
  case (1 s optionName opt nxt)
  have "length (tl (dropWhile (\<lambda>c. c \<noteq> CHR '','') s)) < length s"
    using 1(1) length_dropWhile_le [of "\<lambda>c. c \<noteq> CHR '',''" s] by (cases s) (auto simp: length_tl)
  then show ?case using 1 by (auto simp: cut_comma_def split: if_splits)
qed

declare tagOptions_Contains.simps [simp del]

text \<open>Name, omit, inline, omitempty.\<close>

definition lookupJsonTags :: "reflect_field \<Rightarrow> string \<times> bool \<times> bool \<times> bool" where
  "lookupJsonTags f =
     (let tag = sf_Tag f in
      if tag = ''-'' then ('''', True, False, False)
      else let (name, opts) = parseTag tag;
               name = (if name = '''' then sf_Name f else name)
           in (name, False, tagOptions_Contains opts ''inline'', tagOptions_Contains opts ''omitempty''))"

section \<open>Slices\<close>

text \<open>Arrays of numbers.\<close>

type_synonym store = "nat list list"

section \<open>Cache entries\<close>

text \<open>The index of a field (\<^verbatim>\<open>field.Index\<close>) has one element, so a path is a slice of numbers.  \<open>TypeEntry\<close> is a pointer to the entry
  of the type of the field; \<open>Reflect_Cache\<close> has the entries on a heap.\<close>

record FieldCacheEntry =
  JsonName :: string
  isOmitEmpty :: bool
  fieldPath :: slice
  fieldType :: rtype
  TypeEntry :: "nat option"

type_synonym struct_infos = "(string \<times> FieldCacheEntry) list"

text \<open>
  The struct that an inline field stands for.  The first argument of \<open>buildStructCacheEntry\<close> bounds the nesting of inline
  structs; \<open>None\<close> is a struct that is inline in itself, for which the code does not end.
\<close>

definition inline_type :: "reflect_field \<Rightarrow> rtype" where
  "inline_type field = (if Kind (sf_Type field) = Ptr_Kind then Elem (sf_Type field) else sf_Type field)"

fun buildStructCacheEntry :: "nat \<Rightarrow> (nat \<Rightarrow> nat) \<Rightarrow> type_env \<Rightarrow> rtype \<Rightarrow> slice \<Rightarrow> store \<times> struct_infos \<Rightarrow> (store \<times> struct_infos) option"
  and build_fields :: "nat \<Rightarrow> (nat \<Rightarrow> nat) \<Rightarrow> type_env \<Rightarrow> nat \<Rightarrow> reflect_field list \<Rightarrow> slice \<Rightarrow> store \<times> struct_infos \<Rightarrow>
    (store \<times> struct_infos) option" where
  "buildStructCacheEntry 0 grow T t path acc = None"
| "buildStructCacheEntry (Suc n) grow T t path acc = build_fields n grow T 0 (NumFields T t) path acc"
| "build_fields n grow T i [] path acc = Some acc"
| "build_fields n grow T i (field # rest) path (st, infos) =
     (case lookupJsonTags field of
        (jsonName, omit, isInline, isOmitempty) \<Rightarrow>
          if omit then build_fields n grow T (Suc i) rest path (st, infos)
          else if isInline then
            (if Kind (inline_type field) = Struct_Kind then
               (case slice_append grow 0 st path i of (st', path') \<Rightarrow>
                  (case buildStructCacheEntry n grow T (inline_type field) path' (st', infos) of
                     None \<Rightarrow> None
                   | Some acc' \<Rightarrow> build_fields n grow T (Suc i) rest path acc'))
             else build_fields n grow T (Suc i) rest path (st, infos))
          else
            (case slice_append grow 0 st path i of (st', path') \<Rightarrow>
               let info = \<lparr>JsonName = jsonName, isOmitEmpty = isOmitempty, fieldPath = path', fieldType = sf_Type field, TypeEntry = None\<rparr>
               in build_fields n grow T (Suc i) rest path (st', AList.update jsonName info infos)))"

text \<open>\<^verbatim>\<open>t.Implements\<close> for the four interfaces that the cache looks up, for a type and for the pointer to it.\<close>

record TypeReflectCacheEntry =
  isJsonMarshaler :: bool
  ptrIsJsonMarshaler :: bool
  isJsonUnmarshaler :: bool
  isStringConvertable :: bool
  ptrIsStringConvertable :: bool
  structFields :: struct_infos
  orderedStructFields :: "FieldCacheEntry list"
  entryStore :: store

record type_methods =
  implements_marshaler :: "rtype \<Rightarrow> bool"
  implements_unmarshaler :: "rtype \<Rightarrow> bool"
  implements_converter :: "rtype \<Rightarrow> bool"

text \<open>\<^verbatim>\<open>sort.Slice\<close> by name: the names are distinct.\<close>

definition order_fields :: "struct_infos \<Rightarrow> FieldCacheEntry list" where
  "order_fields infos = map snd (sort_key fst infos)"

definition new_entry :: "(nat \<Rightarrow> nat) \<Rightarrow> type_env \<Rightarrow> type_methods \<Rightarrow> rtype \<Rightarrow> TypeReflectCacheEntry option" where
  "new_entry grow T M t =
     (let fieldEntries =
        (if Kind t = Struct_Kind then buildStructCacheEntry (Suc (length (struct_names T))) grow T t nil_slice ([], [])
         else Some ([], []))
      in case fieldEntries of
           None \<Rightarrow> None
         | Some (st, infos) \<Rightarrow>
             Some \<lparr>isJsonMarshaler = implements_marshaler M t, ptrIsJsonMarshaler = implements_marshaler M (TPtr t),
               isJsonUnmarshaler = implements_unmarshaler M (TPtr t), isStringConvertable = implements_converter M t,
               ptrIsStringConvertable = implements_converter M (TPtr t), structFields = infos,
               orderedStructFields = order_fields infos, entryStore = st\<rparr>)"

definition CanConvertToUnstructured :: "TypeReflectCacheEntry \<Rightarrow> bool" where
  "CanConvertToUnstructured e \<longleftrightarrow> isJsonMarshaler e \<or> ptrIsJsonMarshaler e \<or> isStringConvertable e \<or> ptrIsStringConvertable e"

definition CanConvertFromUnstructured :: "TypeReflectCacheEntry \<Rightarrow> bool" where
  "CanConvertFromUnstructured e \<longleftrightarrow> isJsonUnmarshaler e"

end
