(* ===== verification/Reflect_Paths.thy ===== *)
theory Reflect_Paths
  imports Reflect_Types
begin

text \<open>
  The paths of struct fields.  The reference definition collects the fields of a struct and of its inline structs with
  their paths as lists.  The code builds the paths by \<^verbatim>\<open>append\<close> on slices, which agrees with the reference as long as \<^verbatim>\<open>append\<close>
  always moves to a new array; when the runtime leaves room in an array the paths of sibling fields share it.
\<close>

section \<open>The reference\<close>

type_synonym field_infos = "(string \<times> bool \<times> nat list \<times> rtype) list"

fun struct_paths :: "nat \<Rightarrow> type_env \<Rightarrow> rtype \<Rightarrow> nat list \<Rightarrow> field_infos \<Rightarrow> field_infos option"
  and field_paths :: "nat \<Rightarrow> type_env \<Rightarrow> nat \<Rightarrow> reflect_field list \<Rightarrow> nat list \<Rightarrow> field_infos \<Rightarrow> field_infos option" where
  "struct_paths 0 T t path infos = None"
| "struct_paths (Suc n) T t path infos = field_paths n T 0 (NumFields T t) path infos"
| "field_paths n T i [] path infos = Some infos"
| "field_paths n T i (field # rest) path infos =
     (case lookupJsonTags field of
        (jsonName, omit, isInline, isOmitempty) \<Rightarrow>
          if omit then field_paths n T (Suc i) rest path infos
          else if isInline then
            (if Kind (inline_type field) = Struct_Kind then
               (case struct_paths n T (inline_type field) (path @ [i]) infos of
                  None \<Rightarrow> None
                | Some infos' \<Rightarrow> field_paths n T (Suc i) rest path infos')
             else field_paths n T (Suc i) rest path infos)
          else field_paths n T (Suc i) rest path (AList.update jsonName (isOmitempty, path @ [i], sf_Type field) infos))"

text \<open>The entries of the cache with their paths read from the store.\<close>

definition resolve :: "store \<Rightarrow> struct_infos \<Rightarrow> field_infos" where
  "resolve st infos = map (\<lambda>(name, e). (name, isOmitEmpty e, slice_elems st (fieldPath e), fieldType e)) infos"

section \<open>Slices that are full are not shared\<close>

definition infos_ok :: "store \<Rightarrow> struct_infos \<Rightarrow> bool" where
  "infos_ok st infos \<longleftrightarrow> (\<forall>x \<in> set infos. slice_ok st (fieldPath (snd x)))"

lemma infos_ok_append [simp]: "infos_ok st infos \<Longrightarrow> infos_ok (st @ ys) infos"
  by (auto simp: infos_ok_def)

lemma resolve_append [simp]: "infos_ok st infos \<Longrightarrow> resolve (st @ ys) infos = resolve st infos"
  by (auto simp: resolve_def infos_ok_def)

lemma infos_ok_update: "infos_ok st infos \<Longrightarrow> slice_ok st (fieldPath e) \<Longrightarrow> infos_ok st (AList.update k e infos)"
  by (induction infos) (auto simp: infos_ok_def)

lemma resolve_update:
  "resolve st (AList.update k e infos) = AList.update k (isOmitEmpty e, slice_elems st (fieldPath e), fieldType e) (resolve st infos)"
  by (induction infos) (auto simp: resolve_def)

text \<open>\<open>d\<close> bounds the nesting: the paths that are appended to have less than \<open>d\<close> elements.\<close>

definition exact_growth :: "nat \<Rightarrow> (nat \<Rightarrow> nat) \<Rightarrow> bool" where
  "exact_growth d grow \<longleftrightarrow> (\<forall>k. Suc k < d \<longrightarrow> grow k = Suc k)"

lemma build_fields_paths:
  assumes sub: "\<And>t path st infos st' infos'. buildStructCacheEntry n grow T t path (st, infos) = Some (st', infos') \<Longrightarrow>
      slice_ok st path \<Longrightarrow> s_len path = s_cap path \<Longrightarrow> infos_ok st infos \<Longrightarrow> s_len path + n \<le> d \<Longrightarrow>
      (\<exists>ys. st' = st @ ys) \<and> infos_ok st' infos' \<and> struct_paths n T t (slice_elems st path) (resolve st infos) = Some (resolve st' infos')"
    and grow: "exact_growth d grow"
  shows "build_fields n grow T i fs path (st, infos) = Some (st', infos') \<Longrightarrow> slice_ok st path \<Longrightarrow> s_len path = s_cap path \<Longrightarrow>
      infos_ok st infos \<Longrightarrow> s_len path + Suc n \<le> d \<Longrightarrow>
      (\<exists>ys. st' = st @ ys) \<and> infos_ok st' infos' \<and> field_paths n T i fs (slice_elems st path) (resolve st infos) = Some (resolve st' infos')"
proof (induction fs arbitrary: i st infos)
  case (Cons field rest)
  obtain jsonName omit isInline isOmitempty where tags: "lookupJsonTags field = (jsonName, omit, isInline, isOmitempty)"
    by (cases "lookupJsonTags field") auto
  obtain st1 path1 where app: "slice_append grow 0 st path i = (st1, path1)" by fastforce
  note full = append_full [OF Cons.prems(2,3) app]
  obtain ys where st1: "st1 = st @ ys" using full(1) by blast
  consider (skip) "omit \<or> isInline \<and> Kind (inline_type field) \<noteq> Struct_Kind"
    | (inline) "\<not> omit" isInline "Kind (inline_type field) = Struct_Kind" | (leaf) "\<not> omit" "\<not> isInline"
    by blast
  then show ?case
  proof cases
    case skip
    then have rest: "build_fields n grow T (Suc i) rest path (st, infos) = Some (st', infos')"
      using Cons.prems(1) by (auto simp: tags split: if_splits)
    show ?thesis using Cons.IH [OF rest Cons.prems(2-5)] skip by (auto simp: tags)
  next
    case inline
    then obtain st2 infos2 where s2: "buildStructCacheEntry n grow T (inline_type field) path1 (st1, infos) = Some (st2, infos2)"
      "build_fields n grow T (Suc i) rest path (st2, infos2) = Some (st', infos')"
      using Cons.prems(1) by (auto simp: tags app split: option.splits)
    have ok1: "(\<exists>zs. st2 = st1 @ zs) \<and> infos_ok st2 infos2 \<and>
        struct_paths n T (inline_type field) (slice_elems st path @ [i]) (resolve st infos) = Some (resolve st2 infos2)"
    proof (cases n)
      case 0
      then show ?thesis using s2(1) by simp
    next
      case (Suc k)
      then have "grow (s_len path) = Suc (s_len path)" using grow Cons.prems(5) by (simp add: exact_growth_def)
      then show ?thesis using sub [OF s2(1) full(2)] full(3-5) Cons.prems(4,5) by (simp add: st1)
    qed
    then obtain zs where st2: "st2 = st @ ys @ zs" using st1 by auto
    have "slice_ok st2 path" "slice_elems st2 path = slice_elems st path" using Cons.prems(2) by (simp_all add: st2)
    then show ?thesis using Cons.IH [OF s2(2) _ Cons.prems(3)] ok1 Cons.prems(5) inline st2 by (auto simp: tags)
  next
    case leaf
    let ?info = "\<lparr>JsonName = jsonName, isOmitEmpty = isOmitempty, fieldPath = path1, fieldType = sf_Type field, TypeEntry = None\<rparr>"
    have rest: "build_fields n grow T (Suc i) rest path (st1, AList.update jsonName ?info infos) = Some (st', infos')"
      using Cons.prems(1) leaf by (simp add: tags app)
    have ok: "infos_ok st1 (AList.update jsonName ?info infos)"
      using Cons.prems(4) full(2) by (intro infos_ok_update) (simp_all add: st1)
    have "resolve st1 (AList.update jsonName ?info infos) =
        AList.update jsonName (isOmitempty, slice_elems st path @ [i], sf_Type field) (resolve st infos)"
      using Cons.prems(4) full(3) by (simp add: resolve_update st1)
    moreover have "slice_ok st1 path" "slice_elems st1 path = slice_elems st path" using Cons.prems(2) by (simp_all add: st1)
    ultimately show ?thesis using Cons.IH [OF rest _ Cons.prems(3) ok Cons.prems(5)] leaf st1 by (auto simp: tags)
  qed
qed auto

lemma build_paths:
  assumes "exact_growth d grow"
  shows "buildStructCacheEntry n grow T t path (st, infos) = Some (st', infos') \<Longrightarrow>
      slice_ok st path \<Longrightarrow> s_len path = s_cap path \<Longrightarrow> infos_ok st infos \<Longrightarrow> s_len path + n \<le> d \<Longrightarrow>
      (\<exists>ys. st' = st @ ys) \<and> infos_ok st' infos' \<and> struct_paths n T t (slice_elems st path) (resolve st infos) = Some (resolve st' infos')"
proof (induction n arbitrary: t path st infos st' infos')
  case (Suc n)
  have fields: "build_fields n grow T 0 (NumFields T t) path (st, infos) = Some (st', infos')" using Suc.prems(1) by simp
  show ?case unfolding struct_paths.simps by (rule build_fields_paths [OF Suc.IH assms fields Suc.prems(2-5)])
qed simp

text \<open>More fuel makes no difference once it is enough.\<close>

lemma build_fields_more_fuel:
  assumes "\<And>t path acc r. buildStructCacheEntry n grow T t path acc = Some r \<Longrightarrow> buildStructCacheEntry (n + k) grow T t path acc = Some r"
  shows "build_fields n grow T i fs path acc = Some r \<Longrightarrow> build_fields (n + k) grow T i fs path acc = Some r"
proof (induction fs arbitrary: i acc)
  case (Cons field rest)
  obtain st infos where acc: "acc = (st, infos)" by fastforce
  obtain jsonName omit isInline isOmitempty where tags: "lookupJsonTags field = (jsonName, omit, isInline, isOmitempty)"
    by (cases "lookupJsonTags field") auto
  obtain st1 path1 where app: "slice_append grow 0 st path i = (st1, path1)" by fastforce
  show ?case
    using Cons assms by (auto simp: acc tags app Let_def split: if_splits option.splits)
qed simp

lemma build_more_fuel:
  "buildStructCacheEntry n grow T t path acc = Some r \<Longrightarrow> buildStructCacheEntry (n + k) grow T t path acc = Some r"
proof (induction n arbitrary: t path acc r)
  case (Suc n)
  have "build_fields n grow T 0 (NumFields T t) path acc = Some r" using Suc.prems by simp
  then show ?case using build_fields_more_fuel [OF Suc.IH] by simp
qed simp

lemma struct_entries_correct:
  assumes "exact_growth d grow" "buildStructCacheEntry d grow T t nil_slice ([], []) = Some (st, infos)" "d \<le> n"
  shows "buildStructCacheEntry n grow T t nil_slice ([], []) = Some (st, infos)" "struct_paths d T t [] [] = Some (resolve st infos)"
proof -
  show "buildStructCacheEntry n grow T t nil_slice ([], []) = Some (st, infos)"
    using build_more_fuel [OF assms(2), of "n - d"] assms(3) by simp
  have "slice_ok ([] :: store) nil_slice" "infos_ok [] []" "slice_elems ([] :: store) nil_slice = []" "resolve [] [] = []" "s_len nil_slice + d \<le> d" "s_len nil_slice = s_cap nil_slice"
    by (simp_all add: slice_ok_def infos_ok_def slice_elems_def resolve_def nil_slice_def)
  then show "struct_paths d T t [] [] = Some (resolve st infos)" using build_paths [OF assms(1,2)] by simp
qed

section \<open>Sharing\<close>

text \<open>The capacity that the Go runtime gives a small slice that is full: one element, then twice as many.\<close>

definition go_growth :: "nat \<Rightarrow> nat" where
  "go_growth n = (if n = 0 then 1 else 2 * n)"

lemma go_growth_exact: "exact_growth 3 go_growth"
proof -
  have "k = 0 \<or> k = 1" if "Suc k < 3" for k using that by linarith
  then show ?thesis by (auto simp: exact_growth_def go_growth_def)
qed

text \<open>Three structs, each inline in the next, and two fields in the innermost one.\<close>

definition nested_env :: type_env where
  "nested_env = \<lparr>struct_names = [''A'', ''B'', ''C'', ''D''],
     struct_fields = (\<lambda>n.
       if n = ''A'' then [\<lparr>sf_Name = ''B'', sf_Tag = '',inline'', sf_Type = TStruct ''B''\<rparr>]
       else if n = ''B'' then [\<lparr>sf_Name = ''C'', sf_Tag = '',inline'', sf_Type = TStruct ''C''\<rparr>]
       else if n = ''C'' then [\<lparr>sf_Name = ''D'', sf_Tag = '',inline'', sf_Type = TStruct ''D''\<rparr>]
       else if n = ''D'' then [\<lparr>sf_Name = ''X'', sf_Tag = ''x'', sf_Type = TString\<rparr>, \<lparr>sf_Name = ''Y'', sf_Tag = ''y'', sf_Type = TString\<rparr>]
       else [])\<rparr>"

lemma nested_tags:
  "lookupJsonTags \<lparr>sf_Name = n, sf_Tag = '',inline'', sf_Type = t\<rparr> = (n, False, True, False)"
  "lookupJsonTags \<lparr>sf_Name = n, sf_Tag = ''x'', sf_Type = t\<rparr> = (''x'', False, False, False)"
  "lookupJsonTags \<lparr>sf_Name = n, sf_Tag = ''y'', sf_Type = t\<rparr> = (''y'', False, False, False)"
  by (simp_all add: lookupJsonTags_def parseTag_def cut_comma_def tagOptions_Contains.simps)

lemma nested_aliased:
  "struct_paths 5 nested_env (TStruct ''A'') [] [] = Some [(''x'', False, [0, 0, 0, 0], TString), (''y'', False, [0, 0, 0, 1], TString)]"
  "map_option (\<lambda>(st, infos). resolve st infos) (buildStructCacheEntry 5 go_growth nested_env (TStruct ''A'') nil_slice ([], [])) =
     Some [(''x'', False, [0, 0, 0, 1], TString), (''y'', False, [0, 0, 0, 1], TString)]"
  by (simp_all add: eval_nat_numeral NumFields_def nested_env_def nested_tags inline_type_def slice_append_def nil_slice_def
      slice_elems_def go_growth_def resolve_def Let_def)

end
