(* ===== verification/Reflect_Values.thy ===== *)
theory Reflect_Values
  imports Reflect_Paths Decimal
begin

text \<open>
  \<^verbatim>\<open>value/valuereflect.go\<close>, \<^verbatim>\<open>value/listreflect.go\<close>, \<^verbatim>\<open>value/mapreflect.go\<close>, \<^verbatim>\<open>value/structreflect.go\<close> and the conversions of
  \<^verbatim>\<open>value/reflectcache.go\<close>: the implementation of the interfaces \<^verbatim>\<open>Value\<close>, \<^verbatim>\<open>List\<close> and \<^verbatim>\<open>Map\<close> over Go data by reflection.  Package
  \<^verbatim>\<open>reflect\<close> belongs to the language: a \<^verbatim>\<open>reflect.Value\<close> is a type with data, and whether it is addressable.  The methods
  that a user's types have (\<^verbatim>\<open>MarshalJSON\<close>, \<^verbatim>\<open>ToUnstructured\<close>), and the decoding of JSON, are arguments.  An operation that
  panics is the error \<open>Panics\<close> or \<open>None\<close>.
\<close>

section \<open>Reflected data\<close>

datatype rv = RV (rv_Type: rtype) (rv_data: rdata)
and rdata =
    DBool bool
  | DInt "64 word"
  | DUint "64 word"
  | DFloat float64
  | DString string
  | DSlice "rv list option"
  | DMap "(string \<times> rv) list option"
  | DStruct "rv list"
  | DPtr "rv option"
  | DInterface "rv option"
  | DOther bool

text \<open>A \<^verbatim>\<open>reflect.Value\<close>, and whether \<^verbatim>\<open>CanAddr\<close> holds.\<close>

type_synonym reflect_value = "rv \<times> bool"

abbreviation Kind_of :: "rv \<Rightarrow> kind_of" where
  "Kind_of v \<equiv> Kind (rv_Type v)"

fun IsNil :: "rv \<Rightarrow> bool" where
  "IsNil (RV t (DSlice x)) = (x = None)"
| "IsNil (RV t (DMap x)) = (x = None)"
| "IsNil (RV t (DPtr x)) = (x = None)"
| "IsNil (RV t (DInterface x)) = (x = None)"
| "IsNil (RV t (DOther b)) = b"
| "IsNil _ = False"

definition safeIsNil :: "rv \<Rightarrow> bool" where
  "safeIsNil v =
     (if Kind_of v \<in> {Chan_Kind, Func_Kind, Map_Kind, Ptr_Kind, UnsafePointer_Kind, Interface_Kind, Slice_Kind} then IsNil v else False)"

text \<open>\<^verbatim>\<open>Elem\<close> of what a pointer points to is addressable, of what an interface holds is not.\<close>

fun value_Elem :: "reflect_value \<Rightarrow> reflect_value" where
  "value_Elem (RV t (DPtr (Some x)), a) = (x, True)"
| "value_Elem (RV t (DInterface (Some x)), a) = (x, False)"
| "value_Elem v = v"

definition dereference :: "reflect_value \<Rightarrow> reflect_value" where
  "dereference v =
     (if (Kind_of (fst v) = Interface_Kind \<or> Kind_of (fst v) = Ptr_Kind) \<and> \<not> safeIsNil (fst v) then value_Elem v else v)"

fun value_Len :: "rv \<Rightarrow> nat" where
  "value_Len (RV t (DSlice (Some l))) = length l"
| "value_Len (RV t (DMap (Some m))) = length m"
| "value_Len (RV t (DString s)) = length s"
| "value_Len _ = 0"

fun data_zero :: "rdata \<Rightarrow> bool" where
  "data_zero (DBool b) = (\<not> b)"
| "data_zero (DInt i) = (i = 0)"
| "data_zero (DUint i) = (i = 0)"
| "data_zero (DFloat f) = float64_eq f (Finite 0)"
| "data_zero _ = False"

text \<open>\<open>None\<close> is the panic on channels and functions.\<close>

definition isZero :: "rv \<Rightarrow> bool option" where
  "isZero v =
     (case Kind_of v of
        Array_Kind \<Rightarrow> Some (value_Len v = 0)
      | Map_Kind \<Rightarrow> Some (value_Len v = 0)
      | Slice_Kind \<Rightarrow> Some (value_Len v = 0)
      | String_Kind \<Rightarrow> Some (value_Len v = 0)
      | Bool_Kind \<Rightarrow> Some (data_zero (rv_data v))
      | Int_Kind _ \<Rightarrow> Some (data_zero (rv_data v))
      | Uint_Kind _ \<Rightarrow> Some (data_zero (rv_data v))
      | Float32_Kind \<Rightarrow> Some (data_zero (rv_data v))
      | Float64_Kind \<Rightarrow> Some (data_zero (rv_data v))
      | Interface_Kind \<Rightarrow> Some (IsNil v)
      | Ptr_Kind \<Rightarrow> Some (IsNil v)
      | Chan_Kind \<Rightarrow> None
      | Func_Kind \<Rightarrow> None
      | _ \<Rightarrow> Some False)"

definition CanOmit :: "FieldCacheEntry \<Rightarrow> rv \<Rightarrow> bool option" where
  "CanOmit f fieldVal = (if \<not> isOmitEmpty f then Some False else if safeIsNil fieldVal then Some True else isZero fieldVal)"

text \<open>\<^verbatim>\<open>FieldByIndex\<close> with one index: a field of a struct is addressable when the struct is; anything else panics.\<close>

fun Field_at :: "reflect_value \<Rightarrow> nat \<Rightarrow> reflect_value option" where
  "Field_at (RV t (DStruct fs), a) i = (if i < length fs then Some (fs ! i, a) else None)"
| "Field_at _ i = None"

fun follow :: "reflect_value \<Rightarrow> nat list \<Rightarrow> reflect_value option" where
  "follow v [] = Some v"
| "follow v (i # is) = (case Field_at (dereference v) i of None \<Rightarrow> None | Some w \<Rightarrow> follow w is)"

definition GetFrom :: "store \<Rightarrow> FieldCacheEntry \<Rightarrow> reflect_value \<Rightarrow> reflect_value option" where
  "GetFrom st f structVal = follow structVal (slice_elems st (fieldPath f))"

datatype reflectType =
  mapType | structMapType | listType | intType | uintType | floatType | stringType | byteStringType | boolType | nullType

definition kind :: "rv \<Rightarrow> reflectType option" where
  "kind v =
     (case Kind_of v of
        Map_Kind \<Rightarrow> Some (if IsNil v then nullType else mapType)
      | Struct_Kind \<Rightarrow> Some structMapType
      | Int_Kind _ \<Rightarrow> Some intType
      | Uint_Kind k \<Rightarrow> if k \<in> {KUint, KUint32, KUint16, KUint8} then Some uintType else None
      | Float64_Kind \<Rightarrow> Some floatType
      | Float32_Kind \<Rightarrow> Some floatType
      | String_Kind \<Rightarrow> Some stringType
      | Bool_Kind \<Rightarrow> Some boolType
      | Slice_Kind \<Rightarrow>
          Some (if IsNil v then nullType else if Kind (Elem (rv_Type v)) = Uint_Kind KUint8 then byteStringType else listType)
      | Chan_Kind \<Rightarrow> if IsNil v then Some nullType else None
      | Func_Kind \<Rightarrow> if IsNil v then Some nullType else None
      | Ptr_Kind \<Rightarrow> if IsNil v then Some nullType else None
      | UnsafePointer_Kind \<Rightarrow> if IsNil v then Some nullType else None
      | Interface_Kind \<Rightarrow> if IsNil v then Some nullType else None
      | _ \<Rightarrow> None)"

section \<open>Conversion by the methods of a type\<close>

text \<open>What \<^verbatim>\<open>json.Decoder\<close> delivers with \<^verbatim>\<open>UseNumber\<close>.\<close>

datatype json_tree =
    JNull
  | JBool bool
  | JNumber string
  | JString string
  | JList "json_tree list"
  | JMap "(string \<times> json_tree) list"

datatype 'e reflect_error =
    Panics
  | Not_A_Pointer
  | Marshal_Failed 'e
  | Empty_JSON
  | Decode_String 'e
  | Decode_Object "'e reflect_error"
  | Decode_Array "'e reflect_error"
  | Decode_Number 'e
  | Decode_Failed 'e
  | Max_Depth
  | Cannot_Convert rtype

text \<open>The methods of the user's types, and the decoding of JSON.\<close>

record 'e user_code =
  MarshalJSON :: "rv \<Rightarrow> 'e + string"
  ToUnstructured_method :: "rv \<Rightarrow> go"
  decode_string :: "string \<Rightarrow> 'e + string"
  decode_map :: "string \<Rightarrow> 'e + (string \<times> json_tree) list"
  decode_slice :: "string \<Rightarrow> 'e + json_tree list"
  decode_int64 :: "string \<Rightarrow> 'e + 64 word"
  decode_float64 :: "string \<Rightarrow> 'e + float64"
  parse_float64 :: "string \<Rightarrow> 'e + float64"

definition maxDepth :: nat where
  "maxDepth = 10000"

definition convertNumber :: "'e user_code \<Rightarrow> string \<Rightarrow> 'e reflect_error + go" where
  "convertNumber U n =
     (case Atoi n of
        Some i \<Rightarrow> Inr (GoInt64 i)
      | None \<Rightarrow> (case parse_float64 U n of Inl e \<Rightarrow> Inl (Decode_Failed e) | Inr f \<Rightarrow> Inr (GoFloat64 f)))"

text \<open>
  The loops of \<^verbatim>\<open>convertMapNumbers\<close> and \<^verbatim>\<open>convertSliceNumbers\<close> at a depth that is allowed; they stop at the first error.  The
  maps and slices that the code changes in place are returned.
\<close>

fun convertMapEntries :: "'e user_code \<Rightarrow> (string \<times> json_tree) list \<Rightarrow> nat \<Rightarrow> 'e reflect_error + (string \<times> go) list"
  and convertSliceItems :: "'e user_code \<Rightarrow> json_tree list \<Rightarrow> nat \<Rightarrow> 'e reflect_error + go list"
  and convertValue :: "'e user_code \<Rightarrow> json_tree \<Rightarrow> nat \<Rightarrow> 'e reflect_error + go" where
  "convertMapEntries U [] depth = Inr []"
| "convertMapEntries U ((k, v) # m) depth =
     (case convertValue U v depth of
        Inl e \<Rightarrow> Inl e
      | Inr g \<Rightarrow> (case convertMapEntries U m depth of Inl e \<Rightarrow> Inl e | Inr gs \<Rightarrow> Inr ((k, g) # gs)))"
| "convertSliceItems U [] depth = Inr []"
| "convertSliceItems U (v # l) depth =
     (case convertValue U v depth of
        Inl e \<Rightarrow> Inl e
      | Inr g \<Rightarrow> (case convertSliceItems U l depth of Inl e \<Rightarrow> Inl e | Inr gs \<Rightarrow> Inr (g # gs)))"
| "convertValue U (JNumber n) depth = convertNumber U n"
| "convertValue U (JMap m) depth =
     (if depth + 1 > maxDepth then Inl Max_Depth
      else case convertMapEntries U m (depth + 1) of Inl e \<Rightarrow> Inl e | Inr gs \<Rightarrow> Inr (GoMapString gs))"
| "convertValue U (JList l) depth =
     (if depth + 1 > maxDepth then Inl Max_Depth
      else case convertSliceItems U l (depth + 1) of Inl e \<Rightarrow> Inl e | Inr gs \<Rightarrow> Inr (GoSlice gs))"
| "convertValue U JNull depth = Inr GoNil"
| "convertValue U (JBool b) depth = Inr (GoBool b)"
| "convertValue U (JString x) depth = Inr (GoString x)"

definition convertMapNumbers :: "'e user_code \<Rightarrow> (string \<times> json_tree) list \<Rightarrow> nat \<Rightarrow> 'e reflect_error + (string \<times> go) list" where
  "convertMapNumbers U m depth = (if depth > maxDepth then Inl Max_Depth else convertMapEntries U m depth)"

definition convertSliceNumbers :: "'e user_code \<Rightarrow> json_tree list \<Rightarrow> nat \<Rightarrow> 'e reflect_error + go list" where
  "convertSliceNumbers U l depth = (if depth > maxDepth then Inl Max_Depth else convertSliceItems U l depth)"

text \<open>\<^verbatim>\<open>unmarshal\<close> into a map, and into a slice.\<close>

definition unmarshal_map :: "'e user_code \<Rightarrow> string \<Rightarrow> 'e reflect_error + (string \<times> go) list" where
  "unmarshal_map U data = (case decode_map U data of Inl e \<Rightarrow> Inl (Decode_Failed e) | Inr m \<Rightarrow> convertMapNumbers U m 0)"

definition unmarshal_slice :: "'e user_code \<Rightarrow> string \<Rightarrow> 'e reflect_error + go list" where
  "unmarshal_slice U data = (case decode_slice U data of Inl e \<Rightarrow> Inl (Decode_Failed e) | Inr l \<Rightarrow> convertSliceNumbers U l 0)"

text \<open>The receiver of the method: the value, or its address for a method of the pointer.\<close>

definition getJsonMarshaler :: "TypeReflectCacheEntry \<Rightarrow> reflect_value \<Rightarrow> rv option" where
  "getJsonMarshaler e v =
     (if isJsonMarshaler e then Some (fst v)
      else if ptrIsJsonMarshaler e \<and> Kind_of (fst v) \<noteq> Ptr_Kind \<and> snd v then Some (RV (TPtr (rv_Type (fst v))) (DPtr (Some (fst v))))
      else None)"

definition getUnstructuredConverter :: "TypeReflectCacheEntry \<Rightarrow> reflect_value \<Rightarrow> rv option" where
  "getUnstructuredConverter e v =
     (if isStringConvertable e then Some (fst v)
      else if ptrIsStringConvertable e \<and> snd v then Some (RV (TPtr (rv_Type (fst v))) (DPtr (Some (fst v))))
      else None)"

definition ToUnstructured :: "'e user_code \<Rightarrow> TypeReflectCacheEntry \<Rightarrow> reflect_value \<Rightarrow> 'e reflect_error + go" where
  "ToUnstructured U e sv =
     (if Kind_of (fst sv) = Ptr_Kind \<and> IsNil (fst sv) then Inr GoNil
      else case getUnstructuredConverter e sv of
        Some converter \<Rightarrow> Inr (ToUnstructured_method U converter)
      | None \<Rightarrow> (case getJsonMarshaler e sv of
          None \<Rightarrow> Inl (Cannot_Convert (rv_Type (fst sv)))
        | Some marshaler \<Rightarrow> (case MarshalJSON U marshaler of
            Inl err \<Rightarrow> Inl (Marshal_Failed err)
          | Inr data \<Rightarrow>
              if length data = 0 then Inl Empty_JSON
              else if data = ''null'' then Inr GoNil
              else if data = ''true'' then Inr (GoBool True)
              else if data = ''false'' then Inr (GoBool False)
              else if data ! 0 = CHR 0x22 then
                (case decode_string U data of Inl err \<Rightarrow> Inl (Decode_String err) | Inr x \<Rightarrow> Inr (GoString x))
              else if data ! 0 = CHR ''{'' then
                (case unmarshal_map U data of Inl err \<Rightarrow> Inl (Decode_Object err) | Inr m \<Rightarrow> Inr (GoMapString m))
              else if data ! 0 = CHR ''['' then
                (case unmarshal_slice U data of Inl err \<Rightarrow> Inl (Decode_Array err) | Inr l \<Rightarrow> Inr (GoSlice l))
              else (case decode_int64 U data of
                  Inr i \<Rightarrow> Inr (GoInt64 i)
                | Inl _ \<Rightarrow> (case decode_float64 U data of Inr f \<Rightarrow> Inr (GoFloat64 f) | Inl err \<Rightarrow> Inl (Decode_Number err))))))"

section \<open>Wrapping a value\<close>

text \<open>\<^verbatim>\<open>reflect.ValueOf\<close>: the elements of slices and maps of interfaces have the type of interfaces.  Maps with other keys than
  strings, and data of other types, are not the result of a conversion.\<close>

fun ValueOf :: "go \<Rightarrow> rv" where
  "ValueOf GoNil = RV TInterface (DInterface None)"
| "ValueOf (GoBool b) = RV TBool (DBool b)"
| "ValueOf (GoInt i) = RV (TInt KInt) (DInt i)"
| "ValueOf (GoInt8 i) = RV (TInt KInt8) (DInt (scast i))"
| "ValueOf (GoInt16 i) = RV (TInt KInt16) (DInt (scast i))"
| "ValueOf (GoInt32 i) = RV (TInt KInt32) (DInt (scast i))"
| "ValueOf (GoInt64 i) = RV (TInt KInt64) (DInt i)"
| "ValueOf (GoUint i) = RV (TUint KUint) (DUint i)"
| "ValueOf (GoUint8 i) = RV (TUint KUint8) (DUint (ucast i))"
| "ValueOf (GoUint16 i) = RV (TUint KUint16) (DUint (ucast i))"
| "ValueOf (GoUint32 i) = RV (TUint KUint32) (DUint (ucast i))"
| "ValueOf (GoUint64 i) = RV (TUint KUint64) (DUint i)"
| "ValueOf (GoFloat32 f) = RV TFloat32 (DFloat f)"
| "ValueOf (GoFloat64 f) = RV TFloat64 (DFloat f)"
| "ValueOf (GoString s) = RV TString (DString s)"
| "ValueOf (GoSlice l) =
     RV (TSlice TInterface) (DSlice (Some (map (\<lambda>v. RV TInterface (DInterface (if v = GoNil then None else Some (ValueOf v)))) l)))"
| "ValueOf (GoMapString m) =
     RV (TMap TInterface) (DMap (Some (map (\<lambda>(k, v). (k, RV TInterface (DInterface (if v = GoNil then None else Some (ValueOf v))))) m)))"
| "ValueOf (GoMapInterface m) = RV TComplex (DOther False)"
| "ValueOf GoOther = RV TComplex (DOther False)"

text \<open>The types of the program and the code of its types; \<open>entry_of\<close> is what \<^verbatim>\<open>TypeReflectEntryOf\<close> returns, with the pointers
  \<^verbatim>\<open>TypeEntry\<close> of its fields left out.  The code passes \<^verbatim>\<open>TypeEntry\<close> along with a field, instead of looking up the entry of
  its type; \<open>Reflect_Cache\<close> shows that they are the same entry.\<close>

record 'e reflect_env =
  entry_of :: "rtype \<Rightarrow> TypeReflectCacheEntry"
  user :: "'e user_code"

definition reuse :: "'e reflect_env \<Rightarrow> reflect_value \<Rightarrow> 'e reflect_error + reflect_value" where
  "reuse E v =
     (let cacheEntry = entry_of E (rv_Type (fst v));
          converted =
            (if CanConvertToUnstructured cacheEntry then
               (case ToUnstructured (user E) cacheEntry v of
                  Inl err \<Rightarrow> Inl err
                | Inr u \<Rightarrow> Inr (if u = GoNil then (RV (TPtr (TStruct [])) (DPtr None), False) else (ValueOf u, False)))
             else Inr v)
      in case converted of
           Inl err \<Rightarrow> Inl err
         | Inr w \<Rightarrow> let d = dereference w in (case kind (fst d) of None \<Rightarrow> Inl Panics | Some _ \<Rightarrow> Inr d))"

text \<open>\<^verbatim>\<open>NewValueReflect\<close>: the argument is nil, or has to be a pointer.\<close>

definition NewValueReflect :: "'e reflect_env \<Rightarrow> rv option \<Rightarrow> ('e reflect_error + reflect_value) option" where
  "NewValueReflect E v =
     (case v of
        None \<Rightarrow> None
      | Some x \<Rightarrow> Some (if Kind_of x \<noteq> Ptr_Kind then Inl Not_A_Pointer else reuse E (x, False)))"

section \<open>valueReflect\<close>

definition vr_IsMap :: "reflect_value \<Rightarrow> bool" where
  "vr_IsMap r \<longleftrightarrow> kind (fst r) = Some mapType \<or> kind (fst r) = Some structMapType"

definition vr_IsList :: "reflect_value \<Rightarrow> bool" where
  "vr_IsList r \<longleftrightarrow> kind (fst r) = Some listType"

definition vr_IsBool :: "reflect_value \<Rightarrow> bool" where
  "vr_IsBool r \<longleftrightarrow> kind (fst r) = Some boolType"

definition vr_IsInt :: "reflect_value \<Rightarrow> bool" where
  "vr_IsInt r \<longleftrightarrow> kind (fst r) = Some intType \<or> kind (fst r) = Some uintType"

definition vr_IsFloat :: "reflect_value \<Rightarrow> bool" where
  "vr_IsFloat r \<longleftrightarrow> kind (fst r) = Some floatType"

definition vr_IsString :: "reflect_value \<Rightarrow> bool" where
  "vr_IsString r \<longleftrightarrow> kind (fst r) = Some stringType \<or> kind (fst r) = Some byteStringType"

definition vr_IsNull :: "reflect_value \<Rightarrow> bool" where
  "vr_IsNull r \<longleftrightarrow> kind (fst r) = Some nullType"

datatype reflect_map = structReflect reflect_value | mapReflect reflect_value

definition vr_AsMapUsing :: "reflect_value \<Rightarrow> reflect_map option" where
  "vr_AsMapUsing r =
     (case kind (fst r) of Some structMapType \<Rightarrow> Some (structReflect r) | Some mapType \<Rightarrow> Some (mapReflect r) | _ \<Rightarrow> None)"

text \<open>The selectors of \<^verbatim>\<open>reflect.Value\<close> for data of the right kind.\<close>

fun data_Bool :: "rdata \<Rightarrow> bool option" where
  "data_Bool (DBool b) = Some b"
| "data_Bool _ = None"

fun data_Int :: "rdata \<Rightarrow> 64 word option" where
  "data_Int (DInt i) = Some i"
| "data_Int _ = None"

fun data_Uint :: "rdata \<Rightarrow> 64 word option" where
  "data_Uint (DUint i) = Some i"
| "data_Uint _ = None"

fun data_Float :: "rdata \<Rightarrow> float64 option" where
  "data_Float (DFloat f) = Some f"
| "data_Float _ = None"

fun data_String :: "rdata \<Rightarrow> string option" where
  "data_String (DString x) = Some x"
| "data_String _ = None"

fun data_Slice :: "rdata \<Rightarrow> rv list option" where
  "data_Slice (DSlice (Some l)) = Some l"
| "data_Slice _ = None"

fun data_Map :: "rdata \<Rightarrow> (string \<times> rv) list option" where
  "data_Map (DMap (Some m)) = Some m"
| "data_Map _ = None"

fun mapO :: "('a \<Rightarrow> 'b option) \<Rightarrow> 'a list \<Rightarrow> 'b list option" where
  "mapO f [] = Some []"
| "mapO f (x # xs) = (case f x of None \<Rightarrow> None | Some y \<Rightarrow> (case mapO f xs of None \<Rightarrow> None | Some ys \<Rightarrow> Some (y # ys)))"

definition value_Bytes :: "rv \<Rightarrow> nat list option" where
  "value_Bytes v = (case data_Slice (rv_data v) of None \<Rightarrow> None | Some l \<Rightarrow> mapO (\<lambda>x. map_option unat (data_Uint (rv_data x))) l)"

definition vr_AsBool :: "reflect_value \<Rightarrow> bool option" where
  "vr_AsBool r = (if vr_IsBool r then data_Bool (rv_data (fst r)) else None)"

definition vr_AsInt :: "reflect_value \<Rightarrow> 64 word option" where
  "vr_AsInt r =
     (if kind (fst r) = Some intType then data_Int (rv_data (fst r))
      else if kind (fst r) = Some uintType then data_Uint (rv_data (fst r))
      else None)"

definition vr_AsFloat :: "reflect_value \<Rightarrow> float64 option" where
  "vr_AsFloat r = (if vr_IsFloat r then data_Float (rv_data (fst r)) else None)"

definition vr_AsString :: "reflect_value \<Rightarrow> string option" where
  "vr_AsString r =
     (case kind (fst r) of
        Some stringType \<Rightarrow> data_String (rv_data (fst r))
      | Some byteStringType \<Rightarrow> map_option base64 (value_Bytes (fst r))
      | _ \<Rightarrow> None)"

section \<open>listReflect\<close>

text \<open>\<^verbatim>\<open>At\<close> and \<^verbatim>\<open>Item\<close> wrap an element, which is addressable.\<close>

definition lr_Length :: "reflect_value \<Rightarrow> nat" where
  "lr_Length r = value_Len (fst r)"

definition lr_AtUsing :: "'e reflect_env \<Rightarrow> reflect_value \<Rightarrow> nat \<Rightarrow> 'e reflect_error + reflect_value" where
  "lr_AtUsing E r i =
     (case data_Slice (rv_data (fst r)) of
        None \<Rightarrow> Inl Panics
      | Some l \<Rightarrow> if i < length l then reuse E (l ! i, True) else Inl Panics)"

fun mapE :: "('a \<Rightarrow> 'e + 'b) \<Rightarrow> 'a list \<Rightarrow> 'e + 'b list" where
  "mapE f [] = Inr []"
| "mapE f (x # xs) = (case f x of Inl e \<Rightarrow> Inl e | Inr y \<Rightarrow> (case mapE f xs of Inl e \<Rightarrow> Inl e | Inr ys \<Rightarrow> Inr (y # ys)))"

text \<open>\<^verbatim>\<open>AsList\<close> and a full iteration over the range of the list.\<close>

definition vr_AsListUsing :: "'e reflect_env \<Rightarrow> reflect_value \<Rightarrow> ('e reflect_error + reflect_value list) option" where
  "vr_AsListUsing E r = (if vr_IsList r then Some (mapE (lr_AtUsing E r) [0..<lr_Length r]) else None)"

section \<open>mapReflect\<close>

definition mr_Length :: "reflect_value \<Rightarrow> nat" where
  "mr_Length r = value_Len (fst r)"

definition mr_Empty :: "reflect_value \<Rightarrow> bool" where
  "mr_Empty r \<longleftrightarrow> value_Len (fst r) = 0"

definition mr_get :: "reflect_value \<Rightarrow> string \<Rightarrow> rv option" where
  "mr_get r k = (case data_Map (rv_data (fst r)) of None \<Rightarrow> None | Some m \<Rightarrow> map_of m k)"

definition mr_GetUsing :: "'e reflect_env \<Rightarrow> reflect_value \<Rightarrow> string \<Rightarrow> ('e reflect_error + reflect_value) option" where
  "mr_GetUsing E r k = (case mr_get r k of None \<Rightarrow> None | Some v \<Rightarrow> Some (reuse E (v, False)))"

definition mr_Has :: "reflect_value \<Rightarrow> string \<Rightarrow> bool" where
  "mr_Has r k \<longleftrightarrow> mr_get r k \<noteq> None"

text \<open>The entries that \<^verbatim>\<open>eachMapEntry\<close> hands to its function.\<close>

definition eachMapEntry :: "'e reflect_env \<Rightarrow> reflect_value \<Rightarrow> 'e reflect_error + (string \<times> reflect_value) list" where
  "eachMapEntry E r =
     (case data_Map (rv_data (fst r)) of
        None \<Rightarrow> Inr []
      | Some m \<Rightarrow> mapE (\<lambda>(k, v). case reuse E (v, False) of Inl e \<Rightarrow> Inl e | Inr w \<Rightarrow> Inr (k, w)) m)"

section \<open>structReflect\<close>

text \<open>The fields that \<^verbatim>\<open>eachStructField\<close> does not omit, in the order of their names.\<close>

fun shown_fields :: "store \<Rightarrow> FieldCacheEntry list \<Rightarrow> reflect_value \<Rightarrow> (string \<times> reflect_value) list option" where
  "shown_fields st [] v = Some []"
| "shown_fields st (f # fs) v =
     (case GetFrom st f v of
        None \<Rightarrow> None
      | Some fieldVal \<Rightarrow> (case CanOmit f (fst fieldVal) of
          None \<Rightarrow> None
        | Some True \<Rightarrow> shown_fields st fs v
        | Some False \<Rightarrow> (case shown_fields st fs v of None \<Rightarrow> None | Some l \<Rightarrow> Some ((JsonName f, fieldVal) # l))))"

definition struct_fields_of :: "'e reflect_env \<Rightarrow> reflect_value \<Rightarrow> (string \<times> reflect_value) list option" where
  "struct_fields_of E r =
     (let e = entry_of E (rv_Type (fst r)) in shown_fields (entryStore e) (orderedStructFields e) r)"

definition eachStructField :: "'e reflect_env \<Rightarrow> reflect_value \<Rightarrow> 'e reflect_error + (string \<times> reflect_value) list" where
  "eachStructField E r =
     (case struct_fields_of E r of
        None \<Rightarrow> Inl Panics
      | Some l \<Rightarrow> mapE (\<lambda>(k, v). case reuse E v of Inl e \<Rightarrow> Inl e | Inr w \<Rightarrow> Inr (k, w)) l)"

definition sr_Length :: "'e reflect_env \<Rightarrow> reflect_value \<Rightarrow> nat option" where
  "sr_Length E r = map_option length (struct_fields_of E r)"

text \<open>\<^verbatim>\<open>Empty\<close> stops at the first field that is shown.\<close>

fun none_shown :: "store \<Rightarrow> FieldCacheEntry list \<Rightarrow> reflect_value \<Rightarrow> bool option" where
  "none_shown st [] v = Some True"
| "none_shown st (f # fs) v =
     (case GetFrom st f v of
        None \<Rightarrow> None
      | Some fieldVal \<Rightarrow> (case CanOmit f (fst fieldVal) of
          None \<Rightarrow> None
        | Some True \<Rightarrow> none_shown st fs v
        | Some False \<Rightarrow> Some False))"

definition sr_Empty :: "'e reflect_env \<Rightarrow> reflect_value \<Rightarrow> bool option" where
  "sr_Empty E r = (let e = entry_of E (rv_Type (fst r)) in none_shown (entryStore e) (orderedStructFields e) r)"

text \<open>The outer option is a panic, the inner one a field that does not exist or is omitted.\<close>

definition findJsonNameField :: "'e reflect_env \<Rightarrow> reflect_value \<Rightarrow> string \<Rightarrow> reflect_value option option" where
  "findJsonNameField E r jsonName =
     (let e = entry_of E (rv_Type (fst r)) in
      case map_of (structFields e) jsonName of
        None \<Rightarrow> Some None
      | Some f \<Rightarrow> (case GetFrom (entryStore e) f r of
          None \<Rightarrow> None
        | Some fieldVal \<Rightarrow> (case CanOmit f (fst fieldVal) of
            None \<Rightarrow> None
          | Some omit \<Rightarrow> Some (if omit then None else Some fieldVal))))"

definition sr_GetUsing :: "'e reflect_env \<Rightarrow> reflect_value \<Rightarrow> string \<Rightarrow> ('e reflect_error + reflect_value) option" where
  "sr_GetUsing E r k =
     (case findJsonNameField E r k of None \<Rightarrow> Some (Inl Panics) | Some None \<Rightarrow> None | Some (Some v) \<Rightarrow> Some (reuse E v))"

definition sr_Has :: "'e reflect_env \<Rightarrow> reflect_value \<Rightarrow> string \<Rightarrow> bool option" where
  "sr_Has E r k = map_option (\<lambda>v. v \<noteq> None) (findJsonNameField E r k)"

section \<open>Both maps\<close>

text \<open>The entries in the order of \<^verbatim>\<open>IterateUsing\<close>.\<close>

fun reflect_entries :: "'e reflect_env \<Rightarrow> reflect_map \<Rightarrow> 'e reflect_error + (string \<times> reflect_value) list" where
  "reflect_entries E (structReflect r) = eachStructField E r"
| "reflect_entries E (mapReflect r) = eachMapEntry E r"

fun reflect_get :: "'e reflect_env \<Rightarrow> reflect_map \<Rightarrow> string \<Rightarrow> ('e reflect_error + reflect_value) option" where
  "reflect_get E (structReflect r) k = sr_GetUsing E r k"
| "reflect_get E (mapReflect r) k = mr_GetUsing E r k"

fun reflect_length :: "'e reflect_env \<Rightarrow> reflect_map \<Rightarrow> nat option" where
  "reflect_length E (structReflect r) = sr_Length E r"
| "reflect_length E (mapReflect r) = Some (mr_Length r)"

text \<open>\<^verbatim>\<open>Unstructured\<close>, which copies the data; the number bounds the depth, \<open>None\<close> is a panic or a larger depth.\<close>

fun vr_Unstructured :: "nat \<Rightarrow> 'e reflect_env \<Rightarrow> reflect_value \<Rightarrow> go option" where
  "vr_Unstructured 0 E r = None"
| "vr_Unstructured (Suc n) E r =
     (if vr_IsNull r then Some GoNil
      else if Kind_of (fst r) = Struct_Kind \<or> Kind_of (fst r) = Map_Kind then
        (case reflect_entries E (if Kind_of (fst r) = Struct_Kind then structReflect r else mapReflect r) of
           Inl e \<Rightarrow> None
         | Inr kvs \<Rightarrow> map_option (\<lambda>l. GoMapString (fold (\<lambda>(k, v). AList.update k v) l []))
             (mapO (\<lambda>(k, v). map_option (Pair k) (vr_Unstructured n E v)) kvs))
      else if vr_IsList r then
        (case vr_AsListUsing E r of
           Some (Inr l) \<Rightarrow> map_option GoSlice (mapO (vr_Unstructured n E) l)
         | _ \<Rightarrow> None)
      else if vr_IsString r then map_option GoString (vr_AsString r)
      else if vr_IsInt r then map_option GoInt64 (vr_AsInt r)
      else if vr_IsBool r then map_option GoBool (vr_AsBool r)
      else if vr_IsFloat r then map_option GoFloat64 (vr_AsFloat r)
      else None)"

end
