(* ===== verification/Reflect_Maps.thy ===== *)
theory Reflect_Maps
  imports Reflect_Values
begin

text \<open>
  Iteration, equality and parallel iteration of reflected structs and maps (\<^verbatim>\<open>structReflect\<close>, \<^verbatim>\<open>mapReflect\<close>).  The entries of the
  cache name their fields uniquely and in order, so lookup, length and iteration of a struct agree on its entries, and the
  optimised \<^verbatim>\<open>structZip\<close> and \<^verbatim>\<open>unorderedReflectZip\<close> are the generic zips of \<^verbatim>\<open>value/map.go\<close>.
\<close>

section \<open>Operations\<close>

text \<open>A loop whose body may panic, and may ask to stop.\<close>

fun iterate_panic :: "('k \<Rightarrow> 's \<Rightarrow> (bool \<times> 's) option) \<Rightarrow> 'k list \<Rightarrow> 's \<Rightarrow> (bool \<times> 's) option" where
  "iterate_panic f [] s = Some (True, s)"
| "iterate_panic f (k # ks) s =
     (case f k s of
        None \<Rightarrow> None
      | Some (go, s') \<Rightarrow> if go then iterate_panic f ks s' else Some (False, s'))"

definition mustReuse :: "'e reflect_env \<Rightarrow> reflect_value \<Rightarrow> reflect_value option" where
  "mustReuse E v = (case reuse E v of Inl _ \<Rightarrow> None | Inr w \<Rightarrow> Some w)"

definition sr_IterateUsing :: "'e reflect_env \<Rightarrow> reflect_value \<Rightarrow> (string \<Rightarrow> reflect_value \<Rightarrow> 's \<Rightarrow> bool \<times> 's) \<Rightarrow> 's \<Rightarrow> (bool \<times> 's) option" where
  "sr_IterateUsing E r fn s =
     (let e = entry_of E (rv_Type (fst r)) in
      iterate_panic
        (\<lambda>f s. case GetFrom (entryStore e) f r of
           None \<Rightarrow> None
         | Some fieldVal \<Rightarrow> (case CanOmit f (fst fieldVal) of
             None \<Rightarrow> None
           | Some True \<Rightarrow> Some (True, s)
           | Some False \<Rightarrow> (case mustReuse E fieldVal of None \<Rightarrow> None | Some v \<Rightarrow> Some (fn (JsonName f) v s))))
        (orderedStructFields e) s)"

definition mr_IterateUsing :: "'e reflect_env \<Rightarrow> reflect_value \<Rightarrow> (string \<Rightarrow> reflect_value \<Rightarrow> 's \<Rightarrow> bool \<times> 's) \<Rightarrow> 's \<Rightarrow> (bool \<times> 's) option" where
  "mr_IterateUsing E r fn s =
     (if value_Len (fst r) = 0 then Some (True, s)
      else case data_Map (rv_data (fst r)) of
        None \<Rightarrow> None
      | Some m \<Rightarrow> iterate_panic (\<lambda>(k, v) s. case mustReuse E (v, False) of None \<Rightarrow> None | Some w \<Rightarrow> Some (fn k w s)) m s)"

fun reflect_iterate :: "'e reflect_env \<Rightarrow> reflect_map \<Rightarrow> (string \<Rightarrow> reflect_value \<Rightarrow> 's \<Rightarrow> bool \<times> 's) \<Rightarrow> 's \<Rightarrow> (bool \<times> 's) option" where
  "reflect_iterate E (structReflect r) fn s = sr_IterateUsing E r fn s"
| "reflect_iterate E (mapReflect r) fn s = mr_IterateUsing E r fn s"

definition structZip ::
  "'e reflect_env \<Rightarrow> reflect_value \<Rightarrow> reflect_value \<Rightarrow>
   (string \<Rightarrow> reflect_value option \<Rightarrow> reflect_value option \<Rightarrow> 's \<Rightarrow> bool \<times> 's) \<Rightarrow> 's \<Rightarrow> (bool \<times> 's) option" where
  "structZip E lhs rhs fn s =
     (let e = entry_of E (rv_Type (fst lhs)); st = entryStore e in
      iterate_panic
        (\<lambda>f s. case (GetFrom st f lhs, GetFrom st f rhs) of
           (Some lhsFieldVal, Some rhsFieldVal) \<Rightarrow>
             (case (CanOmit f (fst lhsFieldVal), CanOmit f (fst rhsFieldVal)) of
                (Some lhsOmit, Some rhsOmit) \<Rightarrow>
                  if lhsOmit \<and> rhsOmit then Some (True, s)
                  else (case (if lhsOmit then Some None else map_option Some (mustReuse E lhsFieldVal),
                              if rhsOmit then Some None else map_option Some (mustReuse E rhsFieldVal)) of
                          (Some lhsVal, Some rhsVal) \<Rightarrow> Some (fn (JsonName f) lhsVal rhsVal s)
                        | _ \<Rightarrow> None)
              | _ \<Rightarrow> None)
         | _ \<Rightarrow> None)
        (orderedStructFields e) s)"

text \<open>\<open>unorderedReflectZip\<close>: the keys of the other map first, then the keys that were not visited.\<close>

definition map_entries :: "reflect_value \<Rightarrow> (string \<times> rv) list" where
  "map_entries r = (case data_Map (rv_data (fst r)) of None \<Rightarrow> [] | Some m \<Rightarrow> m)"

definition unorderedReflectZip ::
  "'e reflect_env \<Rightarrow> reflect_value \<Rightarrow> reflect_value option \<Rightarrow>
   (string \<Rightarrow> reflect_value option \<Rightarrow> reflect_value option \<Rightarrow> 's \<Rightarrow> bool \<times> 's) \<Rightarrow> 's \<Rightarrow> (bool \<times> 's) option" where
  "unorderedReflectZip E r other fn s =
     (if mr_Empty r \<and> (case other of None \<Rightarrow> True | Some rhs \<Rightarrow> mr_Empty rhs) then Some (True, s)
      else case iterate_panic
             (\<lambda>(k, next) (visited, s).
                case mustReuse E (next, False) of
                  None \<Rightarrow> None
                | Some rhsVal \<Rightarrow>
                    (case (case mr_get r k of None \<Rightarrow> Some None | Some v \<Rightarrow> map_option Some (mustReuse E (v, False))) of
                       None \<Rightarrow> None
                     | Some lhsVal \<Rightarrow> (case fn k lhsVal (Some rhsVal) s of (go, s') \<Rightarrow> Some (go, insert k visited, s'))))
             (case other of None \<Rightarrow> [] | Some rhs \<Rightarrow> map_entries rhs) ({}, s) of
        None \<Rightarrow> None
      | Some (go, visited, s') \<Rightarrow>
          if \<not> go then Some (False, s')
          else iterate_panic
                 (\<lambda>(k, next) s. if k \<in> visited then Some (True, s)
                    else case mustReuse E (next, False) of None \<Rightarrow> None | Some v \<Rightarrow> Some (fn k (Some v) None s))
                 (map_entries r) s')"

text \<open>\<open>ZipUsing\<close> of both maps.  The generic zip reads the entries that the methods return.\<close>

definition generic_zip ::
  "'e reflect_env \<Rightarrow> reflect_map \<Rightarrow> reflect_map \<Rightarrow> MapTraverseOrder \<Rightarrow>
   (string \<Rightarrow> reflect_value option \<Rightarrow> reflect_value option \<Rightarrow> 's \<Rightarrow> bool \<times> 's) \<Rightarrow> 's \<Rightarrow> (bool \<times> 's) option" where
  "generic_zip E m other order fn s =
     (case (reflect_entries E m, reflect_entries E other) of
        (Inr l, Inr l') \<Rightarrow> Some (defaultMapZip (Some l) (Some l') order fn s)
      | _ \<Rightarrow> None)"

fun reflect_ZipUsing ::
  "'e reflect_env \<Rightarrow> reflect_map \<Rightarrow> reflect_map \<Rightarrow> MapTraverseOrder \<Rightarrow>
   (string \<Rightarrow> reflect_value option \<Rightarrow> reflect_value option \<Rightarrow> 's \<Rightarrow> bool \<times> 's) \<Rightarrow> 's \<Rightarrow> (bool \<times> 's) option" where
  "reflect_ZipUsing E (structReflect r) (structReflect other) order fn s =
     (if rv_Type (fst r) = rv_Type (fst other) then structZip E r other fn s
      else generic_zip E (structReflect r) (structReflect other) order fn s)"
| "reflect_ZipUsing E (structReflect r) (mapReflect other) order fn s = generic_zip E (structReflect r) (mapReflect other) order fn s"
| "reflect_ZipUsing E (mapReflect r) (mapReflect other) order fn s =
     (if order = Unordered then unorderedReflectZip E r (Some other) fn s
      else generic_zip E (mapReflect r) (mapReflect other) order fn s)"
| "reflect_ZipUsing E (mapReflect r) (structReflect other) order fn s = generic_zip E (mapReflect r) (structReflect other) order fn s"

text \<open>\<open>EqualsUsing\<close> of \<^verbatim>\<open>mapReflect\<close>; the other map is known by its entries.\<close>

definition mr_EqualsUsing :: "'e reflect_env \<Rightarrow> (reflect_value \<Rightarrow> reflect_value \<Rightarrow> bool) \<Rightarrow> reflect_value \<Rightarrow> (string \<times> reflect_value) list \<Rightarrow> bool option" where
  "mr_EqualsUsing E eq r other =
     (let lhsLength = mr_Length r; rhsLength = length other in
      if lhsLength \<noteq> rhsLength then Some False
      else if lhsLength = 0 then Some True
      else map_option fst (iterate_panic
             (\<lambda>(k, val) _. case mr_get r k of
                None \<Rightarrow> Some (False, ())
              | Some v \<Rightarrow> (case mustReuse E (v, False) of None \<Rightarrow> None | Some lhsVal \<Rightarrow> Some (eq lhsVal val, ())))
             other ()))"

section \<open>Loops\<close>

lemma iterate_panic_total:
  "(\<And>k s. k \<in> set ks \<Longrightarrow> f k s = Some (g k s)) \<Longrightarrow> iterate_panic f ks s = Some (iterate_until g ks s)"
  by (induction ks arbitrary: s) (auto split: prod.splits)

lemma iterate_until_map: "iterate_until h (map g ks) s = iterate_until (\<lambda>k. h (g k)) ks s"
  by (induction ks arbitrary: s) (auto split: prod.splits)

lemma iterate_until_skip:
  "iterate_until (\<lambda>k s. if P k then h k s else (True, s)) ks s = iterate_until h (filter P ks) s"
  by (induction ks arbitrary: s) (auto split: prod.splits)

lemma mapE_Inr: "mapE f xs = Inr ys \<longleftrightarrow> list_all2 (\<lambda>x y. f x = Inr y) xs ys"
proof (induction xs arbitrary: ys)
  case (Cons x xs)
  show ?case by (cases ys) (auto simp: Cons.IH [symmetric] split: sum.splits)
qed auto

section \<open>Entries\<close>

text \<open>The fields of a new entry of the cache: each under its name, and without a pointer to the entry of its type.\<close>

definition infos_named :: "struct_infos \<Rightarrow> bool" where
  "infos_named infos \<longleftrightarrow> distinct (map fst infos) \<and> list_all (\<lambda>(k, f). JsonName f = k \<and> TypeEntry f = None) infos"

definition entry_ok :: "TypeReflectCacheEntry \<Rightarrow> bool" where
  "entry_ok e \<longleftrightarrow> infos_named (structFields e) \<and> orderedStructFields e = order_fields (structFields e)"

lemma infos_named_update:
  assumes "infos_named infos" "JsonName f = k" "TypeEntry f = None"
  shows "infos_named (AList.update k f infos)"
proof -
  have "list_all (\<lambda>(k, f). JsonName f = k \<and> TypeEntry f = None) (AList.update k f infos)"
    using assms unfolding infos_named_def by (induction infos) auto
  then show ?thesis using assms(1) by (simp add: infos_named_def distinct_update)
qed

lemma build_fields_named:
  assumes "\<And>t path acc acc'. buildStructCacheEntry n grow T t path acc = Some acc' \<Longrightarrow> infos_named (snd acc) \<Longrightarrow> infos_named (snd acc')"
  shows "build_fields n grow T i fs path acc = Some acc' \<Longrightarrow> infos_named (snd acc) \<Longrightarrow> infos_named (snd acc')"
proof (induction fs arbitrary: i acc)
  case (Cons field rest)
  obtain st infos where acc: "acc = (st, infos)" by fastforce
  obtain jsonName omit isInline isOmitempty where tags: "lookupJsonTags field = (jsonName, omit, isInline, isOmitempty)"
    by (cases "lookupJsonTags field") auto
  obtain st1 path1 where app: "slice_append grow 0 st path i = (st1, path1)" by fastforce
  have sub: "infos_named (snd acc2)" if "buildStructCacheEntry n grow T (inline_type field) path1 (st1, infos) = Some acc2" for acc2
    using assms [OF that] Cons.prems(2) by (simp add: acc)
  show ?case
    using Cons sub by (auto simp: acc tags app Let_def infos_named_update split: if_splits option.splits)
qed simp

lemma build_named:
  "buildStructCacheEntry n grow T t path acc = Some acc' \<Longrightarrow> infos_named (snd acc) \<Longrightarrow> infos_named (snd acc')"
proof (induction n arbitrary: t path acc acc')
  case (Suc n)
  have flds: "build_fields n grow T 0 (NumFields T t) path acc = Some acc'" using Suc.prems(1) by simp
  show ?case by (rule build_fields_named [OF Suc.IH flds Suc.prems(2)])
qed simp

lemma new_entry_ok:
  assumes "new_entry grow T M t = Some e"
  shows "entry_ok e"
proof -
  have nil: "infos_named []" by (simp add: infos_named_def)
  obtain st infos where b: "(if Kind t = Struct_Kind then buildStructCacheEntry (Suc (length (struct_names T))) grow T t nil_slice ([], []) else Some ([], [])) = Some (st, infos)"
    and e: "structFields e = infos" "orderedStructFields e = order_fields infos"
    using assms by (auto simp: new_entry_def Let_def split: option.splits)
  have "infos_named infos"
  proof (cases "Kind t = Struct_Kind")
    case True
    then show ?thesis using b build_named [of "Suc (length (struct_names T))" grow T t nil_slice "([], [])" "(st, infos)"] nil by simp
  qed (use b nil in auto)
  then show ?thesis by (simp add: entry_ok_def e)
qed

text \<open>The fields in order: by name, each name once, and the same fields as in the map.\<close>

lemma entry_fields:
  assumes "entry_ok e"
  shows "map JsonName (orderedStructFields e) = map fst (sort_key fst (structFields e))"
    and "sorted (map JsonName (orderedStructFields e))" "distinct (map JsonName (orderedStructFields e))"
    and "map_of (structFields e) k = Some f \<longleftrightarrow> f \<in> set (orderedStructFields e) \<and> JsonName f = k"
proof -
  have named: "distinct (map fst (structFields e))" "\<forall>x \<in> set (structFields e). JsonName (snd x) = fst x"
    and ord: "orderedStructFields e = map snd (sort_key fst (structFields e))"
    using assms by (auto simp: entry_ok_def infos_named_def list_all_iff order_fields_def)
  show names: "map JsonName (orderedStructFields e) = map fst (sort_key fst (structFields e))" using named(2) by (simp add: ord)
  show "sorted (map JsonName (orderedStructFields e))" unfolding names by simp
  have "distinct (map fst (sort_key fst (structFields e)))"
    using named(1) by (simp add: distinct_map)
  then show "distinct (map JsonName (orderedStructFields e))" unfolding names .
  show "map_of (structFields e) k = Some f \<longleftrightarrow> f \<in> set (orderedStructFields e) \<and> JsonName f = k"
    using named by (force simp: ord)
qed

section \<open>What a struct shows\<close>

text \<open>The value of a field: the outer option is a panic, the inner one an omitted field.\<close>

definition field_value :: "'e reflect_env \<Rightarrow> store \<Rightarrow> FieldCacheEntry \<Rightarrow> reflect_value \<Rightarrow> reflect_value option option" where
  "field_value E st f r =
     (case GetFrom st f r of
        None \<Rightarrow> None
      | Some v \<Rightarrow> (case CanOmit f (fst v) of
          None \<Rightarrow> None
        | Some True \<Rightarrow> Some None
        | Some False \<Rightarrow> map_option Some (mustReuse E v)))"

lemma shown_fields_values:
  assumes "shown_fields st fs r = Some l" "mapE (\<lambda>(k, v). case reuse E v of Inl e \<Rightarrow> Inl e | Inr w \<Rightarrow> Inr (k, w)) l = Inr kvs"
  shows "(\<forall>f \<in> set fs. field_value E st f r \<noteq> None) \<and>
    kvs = map (\<lambda>f. (JsonName f, the (the (field_value E st f r)))) (filter (\<lambda>f. the (field_value E st f r) \<noteq> None) fs)"
  using assms
proof (induction fs arbitrary: l kvs)
  case (Cons f fs)
  obtain v omit where v: "GetFrom st f r = Some v" "CanOmit f (fst v) = Some omit"
    using Cons.prems(1) by (auto split: option.splits)
  show ?case
  proof (cases omit)
    case True
    then show ?thesis using Cons.IH [of l kvs] Cons.prems v by (simp add: field_value_def)
  next
    case False
    then obtain l' where l: "shown_fields st fs r = Some l'" "l = (JsonName f, v) # l'"
      using Cons.prems(1) v by (auto split: option.splits)
    then obtain w kvs' where w: "reuse E v = Inr w" "kvs = (JsonName f, w) # kvs'"
      "mapE (\<lambda>(k, v). case reuse E v of Inl e \<Rightarrow> Inl e | Inr w \<Rightarrow> Inr (k, w)) l' = Inr kvs'"
      using Cons.prems(2) by (auto split: sum.splits)
    then show ?thesis using Cons.IH [OF l(1) w(3)] False v by (simp add: field_value_def mustReuse_def)
  qed
qed simp

lemma eachStructField_values:
  assumes "eachStructField E r = Inr kvs" "e = entry_of E (rv_Type (fst r))"
  shows "\<forall>f \<in> set (orderedStructFields e). field_value E (entryStore e) f r \<noteq> None"
    "kvs = map (\<lambda>f. (JsonName f, the (the (field_value E (entryStore e) f r))))
       (filter (\<lambda>f. the (field_value E (entryStore e) f r) \<noteq> None) (orderedStructFields e))"
  using assms shown_fields_values [of "entryStore e" "orderedStructFields e" r _ E kvs]
  by (auto simp: eachStructField_def struct_fields_of_def Let_def split: option.splits)

text \<open>Lookup, iteration and length of a struct are those of its entries, which are in the order of their names.\<close>

lemma struct_entries:
  assumes "eachStructField E r = Inr kvs" "e = entry_of E (rv_Type (fst r))" "entry_ok e"
  shows "sorted (map fst kvs)" "distinct (map fst kvs)"
    and "f \<in> set (orderedStructFields e) \<Longrightarrow> field_value E (entryStore e) f r = Some (map_of kvs (JsonName f))"
    and "fst ` set kvs \<subseteq> JsonName ` set (orderedStructFields e)"
proof -
  let ?v = "\<lambda>f. field_value E (entryStore e) f r"
  note vals = eachStructField_values [OF assms(1,2)] and ordered = entry_fields [OF assms(3)]
  have keys: "map fst kvs = map JsonName (filter (\<lambda>f. the (?v f) \<noteq> None) (orderedStructFields e))" by (subst vals(2)) simp
  show "sorted (map fst kvs)" "fst ` set kvs \<subseteq> JsonName ` set (orderedStructFields e)"
    using ordered(2) keys by (auto simp: sorted_map sorted_wrt_filter vals(2))
  show dist: "distinct (map fst kvs)" using ordered(3) by (simp add: keys distinct_map_filter)
  show "?v f = Some (map_of kvs (JsonName f))" if f: "f \<in> set (orderedStructFields e)"
  proof (cases "the (?v f)")
    case None
    have "f' = f" if "f' \<in> set (orderedStructFields e)" "JsonName f' = JsonName f" for f'
      using ordered(3) f that by (auto simp: distinct_map dest: inj_onD)
    then have "JsonName f \<notin> fst ` set kvs" using None by (auto simp: vals(2))
    then have "map_of kvs (JsonName f) = None" by (simp add: map_of_eq_None_iff)
    then show ?thesis using vals(1) f None by (metis option.collapse)
  next
    case (Some w)
    then have "(JsonName f, w) \<in> set kvs" using f by (force simp: vals(2))
    then have "map_of kvs (JsonName f) = Some w" using dist by simp
    then show ?thesis using vals(1) f Some by (metis option.collapse)
  qed
qed

lemma sr_IterateUsing_entries:
  assumes "eachStructField E r = Inr kvs"
  shows "sr_IterateUsing E r fn s = Some (iterate_until (\<lambda>(k, v). fn k v) kvs s)"
proof -
  define e where "e = entry_of E (rv_Type (fst r))"
  let ?v = "\<lambda>f. field_value E (entryStore e) f r"
  note vals = eachStructField_values [OF assms e_def]
  have "sr_IterateUsing E r fn s =
      Some (iterate_until (\<lambda>f s. if the (?v f) \<noteq> None then fn (JsonName f) (the (the (?v f))) s else (True, s)) (orderedStructFields e) s)"
    unfolding sr_IterateUsing_def Let_def e_def [symmetric]
  proof (rule iterate_panic_total, goal_cases)
    case (1 f s)
    then show ?case using vals(1) by (fastforce simp: field_value_def split: option.splits bool.splits)
  qed
  then show ?thesis by (simp add: iterate_until_skip vals(2) iterate_until_map)
qed

lemma struct_get:
  assumes "eachStructField E r = Inr kvs" "entry_ok (entry_of E (rv_Type (fst r)))"
  shows "sr_GetUsing E r k = map_option Inr (map_of kvs k)"
proof -
  define e where "e = entry_of E (rv_Type (fst r))"
  note ok = assms(2) [folded e_def]
  note entries = struct_entries [OF assms(1) e_def ok]
  show ?thesis
  proof (cases "map_of (structFields e) k")
    case None
    then have "k \<notin> JsonName ` set (orderedStructFields e)" using entry_fields(4) [OF ok, of k] by force
    then have "map_of kvs k = None" using entries(4) by (auto simp: map_of_eq_None_iff)
    then show ?thesis using None by (simp add: sr_GetUsing_def findJsonNameField_def e_def Let_def)
  next
    case (Some f)
    then have f: "f \<in> set (orderedStructFields e)" "JsonName f = k" using entry_fields(4) [OF ok, of k] by auto
    show ?thesis using entries(3) [OF f(1), symmetric] f(2) Some
      by (auto simp: sr_GetUsing_def findJsonNameField_def field_value_def mustReuse_def e_def Let_def split: option.splits bool.splits sum.splits)
  qed
qed

lemma none_shown: "shown_fields st fs v = Some l \<Longrightarrow> none_shown st fs v = Some (l = [])"
  by (induction fs arbitrary: l) (auto split: option.splits bool.splits)

lemma struct_length:
  assumes "eachStructField E r = Inr kvs"
  shows "sr_Length E r = Some (length kvs)" "sr_Empty E r = Some (kvs = [])"
  using assms by (auto simp: sr_Length_def sr_Empty_def struct_fields_of_def Let_def eachStructField_def mapE_Inr
      dest: list_all2_lengthD none_shown split: option.splits)

text \<open>Iterating two structs of the same type in parallel over the fields of the type is the ordered zip of their entries.\<close>

lemma structZip_entries:
  assumes lhs: "eachStructField E lhs = Inr l" and rhs: "eachStructField E rhs = Inr m"
    and t: "rv_Type (fst lhs) = rv_Type (fst rhs)" and ok: "entry_ok (entry_of E (rv_Type (fst lhs)))"
  shows "structZip E lhs rhs fn s = Some (lexicalKeyOrderedMapZip (Some l) (Some m) fn s)"
proof -
  define e where "e = entry_of E (rv_Type (fst lhs))"
  have e': "e = entry_of E (rv_Type (fst rhs))" using t by (simp add: e_def)
  note ok' = ok [folded e_def]
  note L = struct_entries [OF lhs e_def ok'] and R = struct_entries [OF rhs e' ok'] and ordered = entry_fields [OF ok']
  let ?shown = "\<lambda>k. map_of l k \<noteq> None \<or> map_of m k \<noteq> None"
  let ?ks = "map JsonName (orderedStructFields e)"
  have "structZip E lhs rhs fn s =
      Some (iterate_until (\<lambda>f s. if ?shown (JsonName f) then fn (JsonName f) (map_of l (JsonName f)) (map_of m (JsonName f)) s else (True, s))
        (orderedStructFields e) s)"
    unfolding structZip_def Let_def e_def [symmetric]
  proof (rule iterate_panic_total, goal_cases)
    case (1 f s)
    then show ?case
      using L(3) [of f, symmetric] R(3) [of f, symmetric] by (auto simp: field_value_def split: option.splits bool.splits)
  qed
  also have "\<dots> = Some (iterate_until (\<lambda>k. fn k (map_of l k) (map_of m k)) (filter ?shown ?ks) s)"
    by (simp add: iterate_until_skip iterate_until_map filter_map comp_def)
  also have "filter ?shown ?ks = sort (map fst l @ filter (\<lambda>k. k \<notin> set (map fst l)) (map fst m))"
  proof (rule sorted_distinct_set_unique)
    show "set (filter ?shown ?ks) = set (sort (map fst l @ filter (\<lambda>k. k \<notin> set (map fst l)) (map fst m)))"
      using L(4) R(4) by (auto simp: map_of_eq_None_iff)
  qed (use ordered(2,3) L(2) R(2) in \<open>auto simp: sorted_filter [where f = id, simplified]\<close>)
  finally show ?thesis by (auto simp: lexicalKeyOrderedMapZip_def map_Length_def map_keys_def map_Get_def)
qed

section \<open>What a map shows\<close>

definition wrapped :: "'e reflect_env \<Rightarrow> (string \<times> rv) list \<Rightarrow> (string \<times> reflect_value) list \<Rightarrow> bool" where
  "wrapped E = list_all2 (\<lambda>(k, v) (k', w). k = k' \<and> mustReuse E (v, False) = Some w)"

lemma wrapped_Nil [simp]: "wrapped E [] kvs \<longleftrightarrow> kvs = []"
  by (simp add: wrapped_def)

lemma wrapped_Cons: "wrapped E (x # m) kvs \<longleftrightarrow> (\<exists>w kvs'. mustReuse E (snd x, False) = Some w \<and> kvs = (fst x, w) # kvs' \<and> wrapped E m kvs')"
  by (cases kvs; cases x) (auto simp: wrapped_def)

lemma wrapped_keys: "wrapped E m kvs \<Longrightarrow> map fst kvs = map fst m"
  by (induction m arbitrary: kvs) (auto simp: wrapped_Cons)

lemma wrapped_length: "wrapped E m kvs \<Longrightarrow> length kvs = length m"
  using wrapped_keys by (metis length_map)

lemma wrapped_get: "wrapped E m kvs \<Longrightarrow> map_of m k = Some v \<Longrightarrow> \<exists>w. mustReuse E (v, False) = Some w \<and> map_of kvs k = Some w"
  by (induction m arbitrary: kvs) (auto simp: wrapped_Cons split: if_splits)

lemma wrapped_get_None: "wrapped E m kvs \<Longrightarrow> map_of kvs k = None \<longleftrightarrow> map_of m k = None"
  by (induction m arbitrary: kvs) (auto simp: wrapped_Cons)

lemma wrapped_iterate:
  assumes "wrapped E m kvs" "\<And>k v w s. mustReuse E (v, False) = Some w \<Longrightarrow> f (k, v) s = Some (g (k, w) s)"
  shows "iterate_panic f m s = Some (iterate_until g kvs s)"
  using assms(1)
proof (induction m arbitrary: kvs s)
  case (Cons x m)
  then obtain w kvs' where "mustReuse E (snd x, False) = Some w" "kvs = (fst x, w) # kvs'" "wrapped E m kvs'" by (auto simp: wrapped_Cons)
  then show ?case using Cons.IH assms(2) [of "snd x" w "fst x" s] by (auto split: prod.splits)
qed simp

lemma eachMapEntry_wrapped:
  assumes "eachMapEntry E r = Inr kvs" "data_Map (rv_data (fst r)) = Some m"
  shows "wrapped E m kvs" "value_Len (fst r) = length m" "map_entries r = m"
proof -
  have "mapE (\<lambda>(k, v). case reuse E (v, False) of Inl e \<Rightarrow> Inl e | Inr w \<Rightarrow> Inr (k, w)) m = Inr kvs"
    using assms by (simp add: eachMapEntry_def)
  then show "wrapped E m kvs"
    unfolding mapE_Inr wrapped_def by (rule list_all2_mono) (auto simp: mustReuse_def split: sum.splits)
  obtain t where "fst r = RV t (DMap (Some m))"
    using assms(2) by (cases "fst r"; cases "rv_data (fst r)" rule: data_Map.cases) auto
  then show "value_Len (fst r) = length m" by simp
  show "map_entries r = m" by (simp add: map_entries_def assms(2))
qed

lemma map_get:
  assumes "eachMapEntry E r = Inr kvs" "data_Map (rv_data (fst r)) = Some m"
  shows "mr_GetUsing E r k = map_option Inr (map_of kvs k)" "mr_Has r k \<longleftrightarrow> map_of kvs k \<noteq> None" "mr_Length r = length kvs"
    "mr_Empty r \<longleftrightarrow> kvs = []"
proof -
  note w = eachMapEntry_wrapped [OF assms]
  show "mr_GetUsing E r k = map_option Inr (map_of kvs k)"
  proof (cases "map_of m k")
    case (Some v)
    then show ?thesis using wrapped_get [OF w(1) Some]
      by (auto simp: mr_GetUsing_def mr_get_def assms(2) mustReuse_def split: sum.splits)
  qed (use wrapped_get_None [OF w(1)] in \<open>simp add: mr_GetUsing_def mr_get_def assms(2)\<close>)
  show "mr_Has r k \<longleftrightarrow> map_of kvs k \<noteq> None" using wrapped_get_None [OF w(1)] by (simp add: mr_Has_def mr_get_def assms(2))
  show "mr_Length r = length kvs" "mr_Empty r \<longleftrightarrow> kvs = []"
    using w(2) wrapped_length [OF w(1)] by (auto simp: mr_Length_def mr_Empty_def)
qed

lemma mr_IterateUsing_entries:
  assumes "eachMapEntry E r = Inr kvs" "data_Map (rv_data (fst r)) = Some m"
  shows "mr_IterateUsing E r fn s = Some (iterate_until (\<lambda>(k, v). fn k v) kvs s)"
proof -
  note w = eachMapEntry_wrapped [OF assms]
  have "iterate_panic (\<lambda>(k, v) s. case mustReuse E (v, False) of None \<Rightarrow> None | Some w \<Rightarrow> Some (fn k w s)) m s =
      Some (iterate_until (\<lambda>(k, v). fn k v) kvs s)"
    by (rule wrapped_iterate [OF w(1)]) simp
  moreover have "kvs = []" if "m = []" using wrapped_length [OF w(1)] that by simp
  ultimately show ?thesis using w(2) by (auto simp: mr_IterateUsing_def assms(2))
qed

lemma mr_EqualsUsing_entries:
  assumes "eachMapEntry E r = Inr kvs" "data_Map (rv_data (fst r)) = Some m"
  shows "mr_EqualsUsing E eq r other = Some (mapUnstructured_EqualsUsing eq kvs other)"
proof -
  note w = eachMapEntry_wrapped [OF assms]
  let ?g = "\<lambda>(k, v) _. (case map_of kvs k of None \<Rightarrow> False | Some lv \<Rightarrow> eq lv v, ())"
  have step: "(case mr_get r k of None \<Rightarrow> Some (False, ())
      | Some v \<Rightarrow> (case mustReuse E (v, False) of None \<Rightarrow> None | Some lhsVal \<Rightarrow> Some (eq lhsVal val, ()))) = Some (?g (k, val) u)" for k val u
  proof (cases "map_of m k")
    case None
    then show ?thesis using wrapped_get_None [OF w(1), of k] by (simp add: mr_get_def assms(2))
  next
    case (Some v)
    then show ?thesis using wrapped_get [OF w(1) Some] by (auto simp: mr_get_def assms(2))
  qed
  have "iterate_panic (\<lambda>(k, val) _. case mr_get r k of None \<Rightarrow> Some (False, ())
      | Some v \<Rightarrow> (case mustReuse E (v, False) of None \<Rightarrow> None | Some lhsVal \<Rightarrow> Some (eq lhsVal val, ()))) other () =
    Some (iterate_until ?g other ())"
    by (rule iterate_panic_total) (use step in \<open>auto split: prod.splits\<close>)
  then show ?thesis using w(2) wrapped_length [OF w(1)] by (auto simp: mr_EqualsUsing_def mapUnstructured_EqualsUsing_def mr_Length_def Let_def)
qed

text \<open>A loop that also collects the keys that it visits.\<close>

lemma iterate_visited:
  "\<exists>V. iterate_until (\<lambda>(k, w) (vis, s). case h k w s of (go, s') \<Rightarrow> (go, insert k vis, s')) kvs (vis, s) =
      (fst (iterate_until (\<lambda>(k, w). h k w) kvs s), V, snd (iterate_until (\<lambda>(k, w). h k w) kvs s)) \<and>
    (fst (iterate_until (\<lambda>(k, w). h k w) kvs s) \<longrightarrow> V = vis \<union> fst ` set kvs)"
proof (induction kvs arbitrary: vis s)
  case (Cons x kvs)
  obtain k w where x: "x = (k, w)" by fastforce
  obtain go s' where h: "h k w s = (go, s')" by fastforce
  show ?case using Cons.IH [of "insert k vis" s'] by (cases go) (auto simp: x h)
qed simp

lemma unorderedReflectZip_entries:
  assumes lhs: "eachMapEntry E r = Inr l" "data_Map (rv_data (fst r)) = Some m"
    and rhs: "eachMapEntry E other = Inr l'" "data_Map (rv_data (fst other)) = Some m'"
  shows "unorderedReflectZip E r (Some other) fn s = Some (unorderedMapZip (Some l') (Some l) (\<lambda>k r l. fn k l r) s)"
proof -
  note L = eachMapEntry_wrapped [OF lhs] and R = eachMapEntry_wrapped [OF rhs]
  let ?h = "\<lambda>k w. fn k (map_of l k) (Some w)"
  let ?go = "iterate_until (\<lambda>(k, w). ?h k w) l' s"
  have get: "(case mr_get r k of None \<Rightarrow> Some None | Some v \<Rightarrow> map_option Some (mustReuse E (v, False))) = Some (map_of l k)" for k
    using wrapped_get [OF L(1), of k] wrapped_get_None [OF L(1), of k] by (cases "map_of m k") (auto simp: mr_get_def lhs(2))
  obtain V where V: "iterate_until (\<lambda>(k, w) (vis, s). case ?h k w s of (go, s') \<Rightarrow> (go, insert k vis, s')) l' ({}, s) = (fst ?go, V, snd ?go)"
    "fst ?go \<Longrightarrow> V = fst ` set l'"
    using iterate_visited [of ?h l' "{}" s] by auto
  have first: "iterate_panic (\<lambda>(k, next) (visited, s). case mustReuse E (next, False) of None \<Rightarrow> None
      | Some rhsVal \<Rightarrow> (case (case mr_get r k of None \<Rightarrow> Some None | Some v \<Rightarrow> map_option Some (mustReuse E (v, False))) of
          None \<Rightarrow> None | Some lhsVal \<Rightarrow> (case fn k lhsVal (Some rhsVal) s of (go, s') \<Rightarrow> Some (go, insert k visited, s')))) m' ({}, s) =
    Some (fst ?go, V, snd ?go)"
    unfolding V(1) [symmetric] get by (rule wrapped_iterate [OF R(1)]) (auto split: prod.splits)
  have second: "iterate_panic (\<lambda>(k, next) s. if k \<in> W then Some (True, s)
      else case mustReuse E (next, False) of None \<Rightarrow> None | Some v \<Rightarrow> Some (fn k (Some v) None s)) m s' =
    Some (iterate_until (\<lambda>(k, v) t. if k \<notin> W then fn k (Some v) None t else (True, t)) l s')" for W s'
    by (rule wrapped_iterate [OF L(1)]) auto
  show ?thesis
    using V(2) map_get(4) [OF lhs] map_get(4) [OF rhs]
    by (auto simp: unorderedReflectZip_def unorderedMapZip_def map_Length_def map_keys_def map_Get_def L(3) R(3) first second
        split: prod.splits)
qed

section \<open>The contract of maps\<close>

text \<open>The entries, and the answers of the methods when nothing panics.\<close>

definition reflect_fields :: "'e reflect_env \<Rightarrow> reflect_map \<Rightarrow> (string \<times> reflect_value) list" where
  "reflect_fields E m = (case reflect_entries E m of Inr kvs \<Rightarrow> kvs | Inl _ \<Rightarrow> [])"

fun reflect_has :: "'e reflect_env \<Rightarrow> reflect_map \<Rightarrow> string \<Rightarrow> bool option" where
  "reflect_has E (structReflect r) k = sr_Has E r k"
| "reflect_has E (mapReflect r) k = Some (mr_Has r k)"

fun reflect_empty :: "'e reflect_env \<Rightarrow> reflect_map \<Rightarrow> bool option" where
  "reflect_empty E (structReflect r) = sr_Empty E r"
| "reflect_empty E (mapReflect r) = Some (mr_Empty r)"

definition reflect_lookup :: "'e reflect_env \<Rightarrow> reflect_map \<Rightarrow> string \<Rightarrow> reflect_value option" where
  "reflect_lookup E m k = (case reflect_get E m k of Some (Inr v) \<Rightarrow> Some v | _ \<Rightarrow> None)"

definition reflect_map_ok :: "'e reflect_env \<Rightarrow> reflect_map \<Rightarrow> bool" where
  "reflect_map_ok E m \<longleftrightarrow>
     (case reflect_entries E m of Inl _ \<Rightarrow> False | Inr kvs \<Rightarrow> distinct (map fst kvs)) \<and>
     (case m of structReflect r \<Rightarrow> entry_ok (entry_of E (rv_Type (fst r))) | mapReflect r \<Rightarrow> data_Map (rv_data (fst r)) \<noteq> None)"

lemma struct_has:
  assumes "eachStructField E r = Inr kvs" "entry_ok (entry_of E (rv_Type (fst r)))"
  shows "sr_Has E r k = Some (map_of kvs k \<noteq> None)"
  using struct_get [OF assms, of k] by (cases "map_of kvs k") (auto simp: sr_GetUsing_def sr_Has_def split: option.splits)

text \<open>All methods speak of the entries, and none panics.\<close>

lemma reflect_map_methods:
  assumes "reflect_map_ok E m" "reflect_entries E m = Inr kvs"
  shows "reflect_get E m k = map_option Inr (map_of kvs k)" "reflect_has E m k = Some (map_of kvs k \<noteq> None)"
    "reflect_length E m = Some (length kvs)" "reflect_empty E m = Some (kvs = [])"
    "reflect_iterate E m fn s = Some (iterate_until (\<lambda>(k, v). fn k v) kvs s)"
proof -
  have "reflect_get E m k = map_option Inr (map_of kvs k) \<and> reflect_has E m k = Some (map_of kvs k \<noteq> None) \<and>
    reflect_length E m = Some (length kvs) \<and> reflect_empty E m = Some (kvs = []) \<and>
    reflect_iterate E m fn s = Some (iterate_until (\<lambda>(k, v). fn k v) kvs s)"
  proof (cases m)
    case (structReflect r)
    have "eachStructField E r = Inr kvs" "entry_ok (entry_of E (rv_Type (fst r)))"
      using assms by (auto simp: structReflect reflect_map_ok_def)
    then show ?thesis by (simp add: structReflect struct_get struct_has struct_length sr_IterateUsing_entries)
  next
    case (mapReflect r)
    obtain d where d: "eachMapEntry E r = Inr kvs" "data_Map (rv_data (fst r)) = Some d"
      using assms by (auto simp: mapReflect reflect_map_ok_def)
    show ?thesis by (simp add: mapReflect map_get [OF d] mr_IterateUsing_entries [OF d])
  qed
  then show "reflect_get E m k = map_option Inr (map_of kvs k)" "reflect_has E m k = Some (map_of kvs k \<noteq> None)"
    "reflect_length E m = Some (length kvs)" "reflect_empty E m = Some (kvs = [])"
    "reflect_iterate E m fn s = Some (iterate_until (\<lambda>(k, v). fn k v) kvs s)" by auto
qed

interpretation rm: map_view "reflect_map_ok E" "reflect_fields E" "reflect_lookup E" "\<lambda>m k. the (reflect_has E m k)"
  "\<lambda>m. the (reflect_length E m)" "\<lambda>m. the (reflect_empty E m)" "\<lambda>m fn s. the (reflect_iterate E m fn s)" for E
proof -
  have entries: "\<exists>kvs. reflect_entries E m = Inr kvs \<and> distinct (map fst kvs) \<and> reflect_fields E m = kvs" if "reflect_map_ok E m" for m
    using that by (auto simp: reflect_map_ok_def reflect_fields_def split: sum.splits)
  show "map_view (reflect_map_ok E) (reflect_fields E) (reflect_lookup E) (\<lambda>m k. the (reflect_has E m k))
      (\<lambda>m. the (reflect_length E m)) (\<lambda>m. the (reflect_empty E m)) (\<lambda>m fn s. the (reflect_iterate E m fn s))"
  proof (unfold_locales, goal_cases)
    case (2 m k)
    then show ?case using entries [OF 2] reflect_map_methods(1) [OF 2] by (auto simp: reflect_lookup_def split: option.splits)
  next
    case (3 m k)
    then show ?case using entries [OF 3] reflect_map_methods(1,2) [OF 3] by (auto simp: reflect_lookup_def split: option.splits)
  next
    case (4 m)
    then show ?case using entries [OF 4] reflect_map_methods(3) [OF 4] by auto
  next
    case (5 m)
    then show ?case using entries [OF 5] reflect_map_methods(3,4) [OF 5] by auto
  next
    case (6 m fn s)
    then show ?case using entries [OF 6] by (auto simp: reflect_map_methods(5) [OF 6])
  qed (use entries in auto)
qed

end
