(* ===== verification/Reflect_Laws.thy ===== *)
theory Reflect_Laws
  imports Reflect_Maps
begin

text \<open>
  What a reflected value shows.  The relation \<open>shows\<close> ties a wrapped value to the tree that its methods return; the contract
  of the interface holds for every value that shows a tree, \<^verbatim>\<open>Unstructured\<close> makes a copy that shows the same tree, and
  data of the unstructured kind shows by reflection what it shows without.
\<close>

section \<open>What a value shows\<close>

inductive rshows :: "'e reflect_env \<Rightarrow> reflect_value \<Rightarrow> Value \<Rightarrow> bool" for E where
  shows_null: "kind (fst r) = Some nullType \<Longrightarrow> rshows E r VNull"
| shows_bool: "vr_AsBool r = Some b \<Longrightarrow> rshows E r (VBool b)"
| shows_int: "vr_AsInt r = Some i \<Longrightarrow> rshows E r (VInt i)"
| shows_float: "vr_AsFloat r = Some f \<Longrightarrow> rshows E r (VFloat f)"
| shows_string: "vr_AsString r = Some x \<Longrightarrow> rshows E r (VString x)"
| shows_list: "vr_AsListUsing E r = Some (Inr l) \<Longrightarrow> list_all2 (rshows E) l vs \<Longrightarrow> rshows E r (VList vs)"
| shows_map: "vr_AsMapUsing r = Some m \<Longrightarrow> reflect_entries E m = Inr kvs \<Longrightarrow> distinct (map fst kvs) \<Longrightarrow>
    list_all2 (rel_prod (=) (rshows E)) kvs fs \<Longrightarrow> rshows E r (VMap fs)"
  monos list.rel_mono prod.rel_mono

lemmas vr_kind_defs = vr_IsMap_def vr_IsList_def vr_IsBool_def vr_IsInt_def vr_IsFloat_def vr_IsString_def vr_IsNull_def

lemma as_kinds:
  "vr_AsBool r = Some b \<Longrightarrow> kind (fst r) = Some boolType"
  "vr_AsInt r = Some i \<Longrightarrow> kind (fst r) = Some intType \<or> kind (fst r) = Some uintType"
  "vr_AsFloat r = Some f \<Longrightarrow> kind (fst r) = Some floatType"
  "vr_AsString r = Some x \<Longrightarrow> kind (fst r) = Some stringType \<or> kind (fst r) = Some byteStringType"
  "vr_AsListUsing E r = Some y \<Longrightarrow> kind (fst r) = Some listType"
  "vr_AsMapUsing r = Some m \<Longrightarrow> kind (fst r) = Some mapType \<or> kind (fst r) = Some structMapType"
  by (auto simp: vr_AsBool_def vr_AsInt_def vr_AsFloat_def vr_AsString_def vr_AsListUsing_def vr_AsMapUsing_def vr_kind_defs
      split: if_splits option.splits reflectType.splits)

lemma as_other_kinds:
  "kind (fst r) \<noteq> Some boolType \<Longrightarrow> vr_AsBool r = None"
  "kind (fst r) \<noteq> Some intType \<Longrightarrow> kind (fst r) \<noteq> Some uintType \<Longrightarrow> vr_AsInt r = None"
  "kind (fst r) \<noteq> Some floatType \<Longrightarrow> vr_AsFloat r = None"
  "kind (fst r) \<noteq> Some stringType \<Longrightarrow> kind (fst r) \<noteq> Some byteStringType \<Longrightarrow> vr_AsString r = None"
  "kind (fst r) \<noteq> Some listType \<Longrightarrow> vr_AsListUsing E r = None"
  "kind (fst r) \<noteq> Some mapType \<Longrightarrow> kind (fst r) \<noteq> Some structMapType \<Longrightarrow> vr_AsMapUsing r = None"
  by (auto simp: vr_AsBool_def vr_AsInt_def vr_AsFloat_def vr_AsString_def vr_AsListUsing_def vr_AsMapUsing_def vr_kind_defs
      split: option.splits reflectType.splits)

inductive_cases rshowsE: "rshows E r V"

lemma shows_kinds:
  assumes "rshows E r V"
  shows "vr_IsNull r \<longleftrightarrow> is_null V" "vr_IsBool r \<longleftrightarrow> is_bool V" "vr_IsInt r \<longleftrightarrow> is_int V" "vr_IsFloat r \<longleftrightarrow> is_float V"
    "vr_IsString r \<longleftrightarrow> is_string V" "vr_IsList r \<longleftrightarrow> is_list V" "vr_IsMap r \<longleftrightarrow> is_map V"
  using assms by (cases rule: rshows.cases; auto simp: vr_kind_defs dest!: as_kinds)+

lemma shows_scalars:
  assumes "rshows E r V"
  shows "vr_AsBool r = (if is_bool V then Some (AsBool V) else None)" "vr_AsInt r = (if is_int V then Some (AsInt V) else None)"
    "vr_AsFloat r = (if is_float V then Some (AsFloat V) else None)" "vr_AsString r = (if is_string V then Some (AsString V) else None)"
  using assms by (cases rule: rshows.cases; auto dest!: as_kinds simp: as_other_kinds)+

lemma shows_list_iff: "rshows E r V \<Longrightarrow> vr_AsListUsing E r = Some y \<Longrightarrow> \<exists>l vs. y = Inr l \<and> V = VList vs \<and> list_all2 (rshows E) l vs"
  by (erule rshows.cases) (auto dest!: as_kinds)

lemma shows_map_iff:
  "rshows E r V \<Longrightarrow> vr_AsMapUsing r = Some m \<Longrightarrow>
    \<exists>kvs fs. reflect_entries E m = Inr kvs \<and> distinct (map fst kvs) \<and> V = VMap fs \<and> list_all2 (rel_prod (=) (rshows E)) kvs fs"
  by (erule rshows.cases) (auto dest!: as_kinds)

text \<open>A value shows one tree only.\<close>

lemma shows_unique: "rshows E r V \<Longrightarrow> rshows E r W \<Longrightarrow> V = W"
proof (induction arbitrary: W rule: rshows.induct)
  case (shows_null r)
  then show ?case using shows_kinds(1) [OF shows_null.prems] by (cases W) (simp_all add: vr_kind_defs)
next
  case (shows_bool r b)
  then show ?case using shows_scalars(1) [OF shows_bool.prems] by (cases W) simp_all
next
  case (shows_int r i)
  then show ?case using shows_scalars(2) [OF shows_int.prems] by (cases W) simp_all
next
  case (shows_float r f)
  then show ?case using shows_scalars(3) [OF shows_float.prems] by (cases W) simp_all
next
  case (shows_string r x)
  then show ?case using shows_scalars(4) [OF shows_string.prems] by (cases W) simp_all
next
  case (shows_list r l vs)
  obtain ws where W: "W = VList ws" "list_all2 (rshows E) l ws" using shows_list_iff [OF shows_list.prems shows_list.hyps(1)] by auto
  have "vs = ws" using shows_list.IH W(2) by (auto simp: list_all2_conv_all_nth intro!: nth_equalityI)
  then show ?case by (simp add: W)
next
  case (shows_map r m kvs fs)
  obtain gs where W: "W = VMap gs" "list_all2 (rel_prod (=) (rshows E)) kvs gs"
    using shows_map_iff [OF shows_map.prems shows_map.hyps(1)] shows_map.hyps(2) by auto
  have "fs = gs"
    using shows_map.IH W(2) by (auto simp: list_all2_conv_all_nth rel_prod_sel intro!: nth_equalityI prod_eqI)
  then show ?case by (simp add: W)
qed

section \<open>Reflected values satisfy the contract\<close>

definition reflect_ok :: "'e reflect_env \<Rightarrow> reflect_value \<Rightarrow> bool" where
  "reflect_ok E r \<longleftrightarrow> (\<exists>V. rshows E r V)"

definition reflected :: "'e reflect_env \<Rightarrow> reflect_value \<Rightarrow> Value" where
  "reflected E r = (THE V. rshows E r V)"

lemma shows_reflected: "rshows E r V \<Longrightarrow> reflect_ok E r \<and> reflected E r = V"
  by (auto simp: reflect_ok_def reflected_def intro!: the_equality dest: shows_unique)

lemma reflect_okD: "reflect_ok E r \<Longrightarrow> rshows E r (reflected E r)"
  using shows_reflected by (fastforce simp: reflect_ok_def)

text \<open>The items of a list, when nothing panics.\<close>

definition reflect_items :: "'e reflect_env \<Rightarrow> reflect_value \<Rightarrow> reflect_value list option" where
  "reflect_items E r = (case vr_AsListUsing E r of Some (Inr l) \<Rightarrow> Some l | _ \<Rightarrow> None)"

lemma shows_items: "list_all2 (rshows E) l vs \<Longrightarrow> map (reflected E) l = vs \<and> list_all (reflect_ok E) l"
  by (induction rule: list_all2_induct) (auto dest: shows_reflected)

lemma shows_fields:
  "list_all2 (rel_prod (=) (rshows E)) kvs fs \<Longrightarrow> map (map_prod id (reflected E)) kvs = fs \<and> list_all (reflect_ok E \<circ> snd) kvs"
  by (induction rule: list_all2_induct) (auto dest: shows_reflected elim!: rel_prod.cases)

lemma reflect_items_None: "rshows E r V \<Longrightarrow> reflect_items E r = None \<longleftrightarrow> \<not> vr_IsList r"
  by (auto simp: reflect_items_def vr_AsListUsing_def dest: shows_list_iff split: if_splits sum.splits)

lemma vr_AsMapUsing_None: "vr_AsMapUsing r = None \<longleftrightarrow> \<not> vr_IsMap r"
  by (auto simp: vr_AsMapUsing_def vr_IsMap_def split: option.splits reflectType.splits)

interpretation re: value_view "reflect_ok E" "reflected E" vr_IsNull vr_IsBool vr_IsInt vr_IsFloat vr_IsString vr_IsList vr_IsMap
  vr_AsBool vr_AsInt vr_AsFloat vr_AsString "reflect_items E" vr_AsMapUsing "reflect_fields E" for E
proof (unfold_locales, goal_cases)
  case (12 v)
  then show ?case by (rule reflect_items_None [OF reflect_okD])
next
  case (13 v l)
  then have "vr_AsListUsing E v = Some (Inr l)" by (auto simp: reflect_items_def split: option.splits sum.splits)
  then show ?case using shows_list_iff [OF reflect_okD [OF 13(1)]] shows_items by fastforce
next
  case (15 v m)
  then show ?case using shows_map_iff [OF reflect_okD [OF 15(1)] 15(2)] shows_fields by (fastforce simp: reflect_fields_def)
qed (simp_all add: shows_kinds [OF reflect_okD] shows_scalars [OF reflect_okD] vr_AsMapUsing_None)

section \<open>Copies\<close>

lemma mapO_map: "(\<And>x. x \<in> set xs \<Longrightarrow> f x = Some (g x)) \<Longrightarrow> mapO f xs = Some (map g xs)"
  by (induction xs) simp_all

lemma fold_update_distinct:
  "distinct (map fst (acc @ l)) \<Longrightarrow> fold (\<lambda>(k, v). AList.update k v) l acc = acc @ l"
proof (induction l arbitrary: acc)
  case (Cons x l)
  obtain k v where x: "x = (k, v)" by fastforce
  have "k \<notin> fst ` set acc" using Cons.prems by (auto simp: x)
  then have "AList.update k v acc = acc @ [(k, v)]" by (induction acc) auto
  then show ?case using Cons by (simp add: x)
qed simp

lemma kind_Kind:
  "kind v = Some structMapType \<Longrightarrow> Kind_of v = Struct_Kind" "kind v = Some mapType \<Longrightarrow> Kind_of v = Map_Kind"
  "kind v \<noteq> Some structMapType \<Longrightarrow> kind v \<noteq> Some mapType \<Longrightarrow> kind v \<noteq> Some nullType \<Longrightarrow> Kind_of v \<noteq> Struct_Kind \<and> Kind_of v \<noteq> Map_Kind"
  by (auto simp: kind_def split: kind_of.splits if_splits)

text \<open>From some depth on \<open>Unstructured\<close> returns one copy, which shows the tree that the value shows.\<close>

definition copies :: "'e reflect_env \<Rightarrow> reflect_value \<Rightarrow> go \<Rightarrow> bool" where
  "copies E r u \<longleftrightarrow> (\<exists>n. \<forall>d \<ge> n. vr_Unstructured d E r = Some u)"

lemma copiesI: "(\<And>d. vr_Unstructured (Suc d) E r = Some u) \<Longrightarrow> copies E r u"
  unfolding copies_def by (metis Suc_le_D)

lemma copies_list:
  assumes "list_all2 (copies E) l us"
  shows "\<exists>n. \<forall>d \<ge> n. mapO (vr_Unstructured d E) l = Some us"
  using assms
proof (induction rule: list_all2_induct)
  case (Cons r l u us)
  then obtain n m where "\<forall>d \<ge> n. vr_Unstructured d E r = Some u" "\<forall>d \<ge> m. mapO (vr_Unstructured d E) l = Some us"
    by (auto simp: copies_def)
  then have "\<forall>d \<ge> max n m. mapO (vr_Unstructured d E) (r # l) = Some (u # us)" by simp
  then show ?case by blast
qed simp

lemma copies_fields:
  assumes "list_all2 (rel_prod (=) (copies E)) kvs us"
  shows "\<exists>n. \<forall>d \<ge> n. mapO (\<lambda>(k, v). map_option (Pair k) (vr_Unstructured d E v)) kvs = Some us"
  using assms
proof (induction rule: list_all2_induct)
  case (Cons x l u us)
  then obtain k r v where x: "x = (k, r)" "u = (k, v)" and "copies E r v" by (auto elim!: rel_prod.cases)
  then obtain n m where "\<forall>d \<ge> n. vr_Unstructured d E r = Some v"
    "\<forall>d \<ge> m. mapO (\<lambda>(k, v). map_option (Pair k) (vr_Unstructured d E v)) l = Some us"
    using Cons.IH by (auto simp: copies_def)
  then have "\<forall>d \<ge> max n m. mapO (\<lambda>(k, v). map_option (Pair k) (vr_Unstructured d E v)) (x # l) = Some (u # us)" by (simp add: x)
  then show ?case by blast
qed simp

lemma copies_scalars:
  "kind (fst r) = Some nullType \<Longrightarrow> copies E r GoNil"
  "vr_AsBool r = Some b \<Longrightarrow> copies E r (GoBool b)" "vr_AsInt r = Some i \<Longrightarrow> copies E r (GoInt64 i)"
  "vr_AsFloat r = Some f \<Longrightarrow> copies E r (GoFloat64 f)" "vr_AsString r = Some x \<Longrightarrow> copies E r (GoString x)"
  by (rule copiesI, frule as_kinds, use kind_Kind(3) [of "fst r"] in \<open>auto simp: vr_kind_defs\<close>; fail | (rule copiesI, simp add: vr_kind_defs))+

lemma copies_VList:
  assumes "vr_AsListUsing E r = Some (Inr l)" "list_all2 (copies E) l us"
  shows "copies E r (GoSlice us)"
proof -
  have k: "kind (fst r) = Some listType" using as_kinds(5) [OF assms(1)] .
  obtain n where n: "\<forall>d \<ge> n. mapO (vr_Unstructured d E) l = Some us" using copies_list [OF assms(2)] by blast
  have "vr_Unstructured d E r = Some (GoSlice us)" if "d \<ge> Suc n" for d
    using that n kind_Kind(3) [of "fst r"] assms(1) k by (cases d) (auto simp: vr_kind_defs)
  then show ?thesis unfolding copies_def by blast
qed

lemma copies_VMap:
  assumes "vr_AsMapUsing r = Some m" "reflect_entries E m = Inr kvs" "distinct (map fst kvs)"
    "list_all2 (rel_prod (=) (copies E)) kvs us"
  shows "copies E r (GoMapString us)"
proof -
  have k: "m = structReflect r \<and> Kind_of (fst r) = Struct_Kind \<and> kind (fst r) = Some structMapType \<or>
      m = mapReflect r \<and> Kind_of (fst r) = Map_Kind \<and> kind (fst r) = Some mapType"
    using assms(1) kind_Kind(1,2) [of "fst r"] by (auto simp: vr_AsMapUsing_def split: option.splits reflectType.splits)
  obtain n where n: "\<forall>d \<ge> n. mapO (\<lambda>(k, v). map_option (Pair k) (vr_Unstructured d E v)) kvs = Some us"
    using copies_fields [OF assms(4)] by blast
  have "map fst us = map fst kvs" using assms(4) by (induction rule: list_all2_induct) (auto elim!: rel_prod.cases)
  then have "fold (\<lambda>(k, v). AList.update k v) us [] = us" using fold_update_distinct [of "[]" us] assms(3) by simp
  then have "vr_Unstructured d E r = Some (GoMapString us)" if "d \<ge> Suc n" for d
    using that n k assms(2) by (cases d) (auto simp: vr_kind_defs)
  then show ?thesis unfolding copies_def by blast
qed

lemma Unstructured_shows:
  "rshows E r V \<Longrightarrow> \<exists>u. copies E r u \<and> go_ok u \<and> unstructured u = V"
proof (induction rule: rshows.induct)
  case (shows_list r l vs)
  from shows_list.IH obtain us where us: "list_all2 (copies E) l us" "list_all go_ok us" "map unstructured us = vs"
  proof (induction arbitrary: thesis rule: list_all2_induct)
    case (Cons x xs y ys)
    from Cons.IH obtain us u where "list_all2 (copies E) xs us" "list_all go_ok us" "map unstructured us = ys"
      "copies E x u" "go_ok u" "unstructured u = y" using Cons.hyps by blast
    then show ?case by (intro Cons.prems [of "u # us"]) simp_all
  qed simp
  then show ?case using copies_VList [OF shows_list.hyps(1) us(1)] by (intro exI [of _ "GoSlice us"]) simp
next
  case (shows_map r m kvs fs)
  from shows_map.IH obtain us where us: "list_all2 (rel_prod (=) (copies E)) kvs us" "list_all (\<lambda>(k, v). go_ok v) us"
    "map (\<lambda>(k, v). (k, unstructured v)) us = fs" "map fst us = map fst kvs"
  proof (induction arbitrary: thesis rule: list_all2_induct)
    case (Cons x xs y ys)
    obtain k r v u where x: "x = (k, r)" "y = (k, v)" "copies E r u" "go_ok u" "unstructured u = v"
      using Cons.hyps by (auto elim!: rel_prod.cases)
    obtain us where "list_all2 (rel_prod (=) (copies E)) xs us" "list_all (\<lambda>(k, v). go_ok v) us"
      "map (\<lambda>(k, v). (k, unstructured v)) us = ys" "map fst us = map fst xs" using Cons.IH by blast
    then show ?case using x by (intro Cons.prems [of "(k, u) # us"]) simp_all
  qed simp
  then show ?case using copies_VMap [OF shows_map.hyps us(1)] shows_map.hyps(3) by (intro exI [of _ "GoMapString us"]) simp
qed (use copies_scalars in \<open>fastforce+\<close>)

section \<open>Data of interfaces\<close>

text \<open>Data without maps of interface keys, 64-bit unsigned numbers and other types.\<close>

fun plain :: "go \<Rightarrow> bool" where
  "plain (GoSlice l) = list_all plain l"
| "plain (GoMapString m) = list_all (\<lambda>(k, v). plain v) m"
| "plain (GoMapInterface m) = False"
| "plain (GoUint64 i) = False"
| "plain GoOther = False"
| "plain _ = True"

lemma kind_ValueOf: "plain u \<Longrightarrow> kind (ValueOf u) \<noteq> None"
  by (cases u) (simp_all add: kind_def)

lemma reuse_interface:
  assumes "\<not> CanConvertToUnstructured (entry_of E TInterface)" "plain u"
  shows "\<exists>b. reuse E (RV TInterface (DInterface (if u = GoNil then None else Some (ValueOf u))), a) = Inr (ValueOf u, b)"
  using assms kind_ValueOf [OF assms(2)] by (auto simp: reuse_def dereference_def safeIsNil_def Let_def split: option.splits)

lemma mapE_exists:
  assumes "\<And>x. x \<in> set xs \<Longrightarrow> \<exists>y. f x = Inr y \<and> Q x y"
  shows "\<exists>ys. mapE f xs = Inr ys \<and> list_all2 Q xs ys"
  using assms
proof (induction xs)
  case (Cons x xs)
  then obtain y ys where "f x = Inr y" "Q x y" "mapE f xs = Inr ys" "list_all2 Q xs ys" by force
  then show ?case by (intro exI [of _ "y # ys"]) simp
qed simp

lemma ValueOf_shows:
  assumes E: "\<not> CanConvertToUnstructured (entry_of E TInterface)"
  shows "plain u \<Longrightarrow> go_ok u \<Longrightarrow> rshows E (ValueOf u, a) (unstructured u)"
proof (induction u arbitrary: a rule: unstructured.induct)
  case (16 l)
  let ?r = "(ValueOf (GoSlice l), a)"
  have at: "\<exists>w. lr_AtUsing E ?r i = Inr w \<and> rshows E w (unstructured (l ! i))" if "i \<in> set [0..<length l]" for i
  proof -
    have i: "l ! i \<in> set l" "plain (l ! i)" "go_ok (l ! i)" "i < length l" using that 16(2,3) by (auto simp: list_all_iff)
    obtain b where "reuse E (RV TInterface (DInterface (if l ! i = GoNil then None else Some (ValueOf (l ! i)))), True) = Inr (ValueOf (l ! i), b)"
      using reuse_interface [OF E i(2)] by blast
    then show ?thesis using "16.IH" [OF i(1-3)] i(4) by (simp add: lr_AtUsing_def)
  qed
  obtain ws where "mapE (lr_AtUsing E ?r) [0..<length l] = Inr ws" "list_all2 (\<lambda>i w. rshows E w (unstructured (l ! i))) [0..<length l] ws"
    using mapE_exists [of "[0..<length l]" "lr_AtUsing E ?r", OF at] by blast
  then have "vr_AsListUsing E ?r = Some (Inr ws)" "list_all2 (rshows E) ws (map unstructured l)"
    by (simp_all add: vr_AsListUsing_def vr_IsList_def kind_def lr_Length_def list_all2_conv_all_nth)
  then show ?case using shows_list by fastforce
next
  case (17 m)
  let ?r = "(ValueOf (GoMapString m), a)"
  let ?f = "\<lambda>(k, v). case reuse E (v, False) of Inl e \<Rightarrow> Inl e | Inr w \<Rightarrow> Inr (k, w)"
  let ?box = "\<lambda>(k, v). (k, RV TInterface (DInterface (if v = GoNil then None else Some (ValueOf v))))"
  have at: "\<exists>y. (?f \<circ> ?box) x = Inr y \<and> fst y = fst x \<and> rshows E (snd y) (unstructured (snd x))" if "x \<in> set m" for x
  proof -
    obtain k v where x: "x = (k, v)" by fastforce
    have v: "plain v" "go_ok v" using that 17(2,3) by (auto simp: list_all_iff x)
    obtain b where "reuse E (RV TInterface (DInterface (if v = GoNil then None else Some (ValueOf v))), False) = Inr (ValueOf v, b)"
      using reuse_interface [OF E v(1)] by blast
    then show ?thesis using "17.IH" [OF that x [symmetric] v] by (simp add: x)
  qed
  have map_map: "mapE g (map h xs) = mapE (g \<circ> h) xs" for g h xs by (induction xs) (auto split: sum.splits)
  obtain ws where ws: "mapE (?f \<circ> ?box) m = Inr ws" "list_all2 (\<lambda>x y. fst y = fst x \<and> rshows E (snd y) (unstructured (snd x))) m ws"
    using mapE_exists [of m "?f \<circ> ?box", OF at] by blast
  have "map fst ws = map fst m" "list_all2 (rel_prod (=) (rshows E)) ws (map (\<lambda>(k, v). (k, unstructured v)) m)"
    using ws(2) by (induction rule: list_all2_induct) auto
  moreover have "reflect_entries E (mapReflect ?r) = Inr ws" using ws(1) by (simp add: eachMapEntry_def map_map)
  moreover have "vr_AsMapUsing ?r = Some (mapReflect ?r)" by (simp add: vr_AsMapUsing_def kind_def)
  ultimately show ?case using "17.prems"(2) shows_map by fastforce
qed (auto intro!: rshows.intros simp: vr_AsBool_def vr_AsInt_def vr_AsFloat_def vr_AsString_def vr_kind_defs kind_def)

end
