(* ===== verification/Reflect_Update.thy ===== *)
theory Reflect_Update
  imports Reflect_Maps
begin

text \<open>
  \<^verbatim>\<open>Set\<close> and \<^verbatim>\<open>Delete\<close> of \<^verbatim>\<open>mapReflect\<close> and \<^verbatim>\<open>structReflect\<close>.  The operations write through \<^verbatim>\<open>reflect\<close> into the data; the model
  returns the data after the write, and \<open>None\<close> for a panic.
\<close>

section \<open>Assignment\<close>

fun unnamed :: "rtype \<Rightarrow> bool" where
  "unnamed (TSlice t) = True"
| "unnamed (TArray n t) = True"
| "unnamed (TMap t) = True"
| "unnamed (TPtr t) = True"
| "unnamed TChan = True"
| "unnamed TFunc = True"
| "unnamed t = False"

text \<open>Assignability of Go: the same type, an interface, or the same underlying type when one of the types has no name.\<close>

definition assign_to :: "rtype \<Rightarrow> rv \<Rightarrow> rv option" where
  "assign_to t x =
     (if rv_Type x = t then Some x
      else if t = TInterface then Some (RV TInterface (DInterface (Some x)))
      else if underlying t = underlying (rv_Type x) \<and> (unnamed t \<or> unnamed (rv_Type x)) then Some (RV t (rv_data x))
      else None)"

text \<open>\<^verbatim>\<open>reflect.ValueOf\<close> of nil is the zero \<^verbatim>\<open>reflect.Value\<close>.\<close>

definition ValueOf_any :: "go \<Rightarrow> rv option" where
  "ValueOf_any u = (if u = GoNil then None else Some (ValueOf u))"

definition Value_Set :: "rtype \<Rightarrow> rv option \<Rightarrow> rv option" where
  "Value_Set t x = (case x of None \<Rightarrow> None | Some y \<Rightarrow> assign_to t y)"

text \<open>\<^verbatim>\<open>SetMapIndex\<close> deletes the key when the element is the zero \<^verbatim>\<open>reflect.Value\<close>.\<close>

definition SetMapIndex :: "rv \<Rightarrow> string \<Rightarrow> rv option \<Rightarrow> rv option" where
  "SetMapIndex m key elem =
     (case data_Map (rv_data m) of
        None \<Rightarrow> None
      | Some d \<Rightarrow> (case elem of
          None \<Rightarrow> Some (RV (rv_Type m) (DMap (Some (AList.delete key d))))
        | Some x \<Rightarrow> (case assign_to (Elem (rv_Type m)) x of
            None \<Rightarrow> None
          | Some y \<Rightarrow> Some (RV (rv_Type m) (DMap (Some (AList.update key y d)))))))"

text \<open>The zero value of a type; the number bounds the nesting of structs.\<close>

fun zero_value :: "nat \<Rightarrow> type_env \<Rightarrow> rtype \<Rightarrow> rv option"
  and zero_data :: "nat \<Rightarrow> type_env \<Rightarrow> rtype \<Rightarrow> rdata option" where
  "zero_value n T t = map_option (RV t) (zero_data n T t)"
| "zero_data n T TBool = Some (DBool False)"
| "zero_data n T (TInt k) = Some (DInt 0)"
| "zero_data n T (TUint k) = Some (DUint 0)"
| "zero_data n T TFloat32 = Some (DFloat (Finite 0))"
| "zero_data n T TFloat64 = Some (DFloat (Finite 0))"
| "zero_data n T TString = Some (DString [])"
| "zero_data n T (TSlice t) = Some (DSlice None)"
| "zero_data n T (TArray k t) = map_option (\<lambda>z. DSlice (Some (replicate k z))) (zero_value n T t)"
| "zero_data n T (TMap t) = Some (DMap None)"
| "zero_data 0 T (TStruct s) = None"
| "zero_data (Suc n) T (TStruct s) = map_option DStruct (mapO (\<lambda>f. zero_value n T (sf_Type f)) (struct_fields T s))"
| "zero_data n T (TPtr t) = Some (DPtr None)"
| "zero_data n T TInterface = Some (DInterface None)"
| "zero_data n T TChan = Some (DOther True)"
| "zero_data n T TFunc = Some (DOther True)"
| "zero_data n T TUnsafePointer = Some (DOther True)"
| "zero_data n T TComplex = Some (DOther False)"
| "zero_data n T (TNamed s t) = zero_data n T t"

section \<open>mapReflect\<close>

text \<open>The argument \<open>u\<close> is \<^verbatim>\<open>val.Unstructured()\<close>.\<close>

definition mr_Set :: "rv \<Rightarrow> string \<Rightarrow> go \<Rightarrow> rv option" where
  "mr_Set m key u = SetMapIndex m key (ValueOf_any u)"

definition mr_Delete :: "rv \<Rightarrow> string \<Rightarrow> rv option" where
  "mr_Delete m key = SetMapIndex m key None"

section \<open>structReflect\<close>

text \<open>Writing to the field at a path, through the pointers that \<open>GetFrom\<close> dereferences.\<close>

fun set_field :: "rv \<Rightarrow> nat \<Rightarrow> (rv \<Rightarrow> rv option) \<Rightarrow> rv option" where
  "set_field (RV t (DStruct fs)) i f = (if i < length fs then map_option (\<lambda>y. RV t (DStruct (fs[i := y]))) (f (fs ! i)) else None)"
| "set_field _ i f = None"

fun set_deref :: "rv \<Rightarrow> (rv \<Rightarrow> rv option) \<Rightarrow> rv option" where
  "set_deref (RV t (DPtr (Some x))) f = (if Kind t = Ptr_Kind then map_option (\<lambda>y. RV t (DPtr (Some y))) (f x) else None)"
| "set_deref (RV t (DInterface (Some x))) f = (if Kind t = Interface_Kind then map_option (\<lambda>y. RV t (DInterface (Some y))) (f x) else None)"
| "set_deref v f = f v"

fun set_path :: "rv \<Rightarrow> nat list \<Rightarrow> rv \<Rightarrow> rv option" where
  "set_path v [] x = Some x"
| "set_path v (i # is) x = set_deref v (\<lambda>w. set_field w i (\<lambda>y. set_path y is x))"

text \<open>The struct after a write in place, or the parent map after a replacement of the struct.\<close>

datatype struct_write = In_Place rv | In_Parent rv

definition sr_update :: "nat \<Rightarrow> type_env \<Rightarrow> store \<Rightarrow> reflect_value \<Rightarrow> (rv \<times> string) option \<Rightarrow> FieldCacheEntry \<Rightarrow> reflect_value \<Rightarrow> rv option \<Rightarrow>
    struct_write option" where
  "sr_update n T st r parent f oldVal newVal =
     (let path = slice_elems st (fieldPath f) in
      if snd oldVal then
        (case Value_Set (rv_Type (fst oldVal)) newVal of
           None \<Rightarrow> None
         | Some x \<Rightarrow> map_option In_Place (set_path (fst r) path x))
      else case parent of
        Some (parentMap, parentMapKey) \<Rightarrow>
          (case zero_value n T (rv_Type (fst r)) of
             None \<Rightarrow> None
           | Some replacement \<Rightarrow>
               (case GetFrom st f (replacement, True) of
                  None \<Rightarrow> None
                | Some z \<Rightarrow> (case Value_Set (rv_Type (fst z)) newVal of
                    None \<Rightarrow> None
                  | Some x \<Rightarrow> (case set_path replacement path x of
                      None \<Rightarrow> None
                    | Some replacement' \<Rightarrow> map_option In_Parent (SetMapIndex parentMap parentMapKey (Some replacement'))))))
      | None \<Rightarrow> None)"

definition sr_Set :: "'e reflect_env \<Rightarrow> nat \<Rightarrow> type_env \<Rightarrow> reflect_value \<Rightarrow> (rv \<times> string) option \<Rightarrow> string \<Rightarrow> go \<Rightarrow> struct_write option" where
  "sr_Set E n T r parent key u =
     (let e = entry_of E (rv_Type (fst r)) in
      case map_of (structFields e) key of
        None \<Rightarrow> None
      | Some f \<Rightarrow> (case GetFrom (entryStore e) f r of
          None \<Rightarrow> None
        | Some oldVal \<Rightarrow> sr_update n T (entryStore e) r parent f oldVal (ValueOf_any u)))"

definition sr_Delete :: "'e reflect_env \<Rightarrow> nat \<Rightarrow> type_env \<Rightarrow> reflect_value \<Rightarrow> (rv \<times> string) option \<Rightarrow> string \<Rightarrow> struct_write option" where
  "sr_Delete E n T r parent key =
     (let e = entry_of E (rv_Type (fst r)) in
      case map_of (structFields e) key of
        None \<Rightarrow> None
      | Some f \<Rightarrow> (case GetFrom (entryStore e) f r of
          None \<Rightarrow> None
        | Some oldVal \<Rightarrow>
            if Kind_of (fst oldVal) \<noteq> Ptr_Kind \<and> \<not> isOmitEmpty f then None
            else (case zero_value n T (rv_Type (fst oldVal)) of
                    None \<Rightarrow> None
                  | Some z \<Rightarrow> sr_update n T (entryStore e) r parent f oldVal (Some z))))"

section \<open>Conversion from unstructured data\<close>

text \<open>\<open>marshal\<close> is \<^verbatim>\<open>json.Marshal\<close> and \<open>unmarshal\<close> the method \<^verbatim>\<open>UnmarshalJSON\<close>, which returns the data after the call.  \<^verbatim>\<open>Addr\<close> panics
  on a value that is not addressable.\<close>

datatype 'e from_error = Addr_Panics | Encode_Failed 'e | Unmarshal_Failed 'e | Cannot_Unmarshal rtype rtype

definition getJsonUnmarshaler :: "TypeReflectCacheEntry \<Rightarrow> reflect_value \<Rightarrow> ('e from_error + rv) option" where
  "getJsonUnmarshaler e v =
     (if \<not> isJsonUnmarshaler e then None else Some (if snd v then Inr (fst v) else Inl Addr_Panics))"

definition entry_FromUnstructured ::
  "(rv \<Rightarrow> 'e + string) \<Rightarrow> (rv \<Rightarrow> string \<Rightarrow> 'e + rv) \<Rightarrow> TypeReflectCacheEntry \<Rightarrow> rv \<Rightarrow> reflect_value \<Rightarrow> 'e from_error + rv" where
  "entry_FromUnstructured marshal unmarshal e sv dv =
     (case marshal sv of
        Inl err \<Rightarrow> Inl (Encode_Failed err)
      | Inr data \<Rightarrow> (case getJsonUnmarshaler e dv of
          None \<Rightarrow> Inl (Cannot_Unmarshal (rv_Type sv) (rv_Type (fst dv)))
        | Some (Inl err) \<Rightarrow> Inl err
        | Some (Inr unmarshaler) \<Rightarrow> (case unmarshal unmarshaler data of Inl err \<Rightarrow> Inl (Unmarshal_Failed err) | Inr v \<Rightarrow> Inr v)))"

lemma FromUnstructured_errors:
  assumes "\<not> isJsonUnmarshaler e"
  shows "\<exists>err. entry_FromUnstructured marshal unmarshal e sv dv = Inl err"
  using assms by (auto simp: entry_FromUnstructured_def getJsonUnmarshaler_def split: sum.splits)

section \<open>Laws of writes in place\<close>

lemma assign_to_type: "assign_to t x = Some y \<Longrightarrow> rv_Type y = t"
  by (auto simp: assign_to_def split: if_splits)

lemma dereference_simps:
  "dereference (RV t (DStruct fs), a) = (RV t (DStruct fs), a)"
  "Kind t = Ptr_Kind \<Longrightarrow> dereference (RV t (DPtr (Some x)), a) = (x, True)"
  "Kind t = Interface_Kind \<Longrightarrow> dereference (RV t (DInterface (Some x)), a) = (x, False)"
  by (simp_all add: dereference_def safeIsNil_def)

lemma set_deref_cases:
  assumes "set_deref v g = Some v'"
  obtains (ptr) t x y where "v = RV t (DPtr (Some x))" "v' = RV t (DPtr (Some y))" "Kind t = Ptr_Kind" "g x = Some y"
    | (iface) t x y where "v = RV t (DInterface (Some x))" "v' = RV t (DInterface (Some y))" "Kind t = Interface_Kind" "g x = Some y"
    | (plain) "g v = Some v'"
  using assms by (cases "(v, g)" rule: set_deref.cases) (auto split: if_splits)

lemma set_deref_follow:
  assumes "set_deref v g = Some v'" "\<And>w w'. g w = Some w' \<Longrightarrow> \<exists>t fs fs'. w = RV t (DStruct fs) \<and> w' = RV t (DStruct fs')"
  shows "\<exists>w w' b. dereference (v, a) = (w, b) \<and> dereference (v', a) = (w', b) \<and> g w = Some w' \<and> rv_Type v' = rv_Type v"
  using assms(1)
proof (cases rule: set_deref_cases)
  case plain
  then obtain t fs fs' where "v = RV t (DStruct fs)" "v' = RV t (DStruct fs')" using assms(2) by blast
  then show ?thesis using plain by (simp add: dereference_simps(1))
qed (auto simp: dereference_simps)

lemma set_path_Cons:
  assumes "set_path v (i # is) x = Some v'"
  shows "\<exists>t fs y b. dereference (v, a) = (RV t (DStruct fs), b) \<and> dereference (v', a) = (RV t (DStruct (fs[i := y])), b) \<and>
    i < length fs \<and> set_path (fs ! i) is x = Some y \<and> rv_Type v' = rv_Type v"
proof -
  let ?g = "\<lambda>w. set_field w i (\<lambda>y. set_path y is x)"
  have g: "\<exists>t fs y. w = RV t (DStruct fs) \<and> i < length fs \<and> set_path (fs ! i) is x = Some y \<and> w' = RV t (DStruct (fs[i := y]))"
    if "?g w = Some w'" for w w'
    using that by (cases "(w, i, \<lambda>y. set_path y is x)" rule: set_field.cases) (auto split: if_splits)
  obtain w w' b where "dereference (v, a) = (w, b)" "dereference (v', a) = (w', b)" "?g w = Some w'" "rv_Type v' = rv_Type v"
    using set_deref_follow [of v ?g v' a] assms g by force
  then show ?thesis using g [of w w'] by blast
qed

text \<open>After a write the field has the new value, and a field elsewhere the value it had.\<close>

lemma set_path_follow:
  "follow (v, a) p = Some (old, b) \<Longrightarrow> set_path v p x = Some v' \<Longrightarrow> follow (v', a) p = Some (x, b)"
proof (induction p arbitrary: v v' a)
  case (Cons i p)
  obtain t fs y c where "dereference (v, a) = (RV t (DStruct fs), c)" "dereference (v', a) = (RV t (DStruct (fs[i := y])), c)"
    "i < length fs" "set_path (fs ! i) p x = Some y"
    using set_path_Cons [OF Cons.prems(2), of a] by blast
  then show ?case using Cons.IH [of "fs ! i" c y] Cons.prems(1) by simp
qed simp

fun diverge :: "nat list \<Rightarrow> nat list \<Rightarrow> bool" where
  "diverge (i # p) (j # q) = (i \<noteq> j \<or> diverge p q)"
| "diverge _ _ = False"

lemma set_path_other: "diverge p q \<Longrightarrow> set_path v p x = Some v' \<Longrightarrow> follow (v', a) q = follow (v, a) q"
proof (induction p q arbitrary: v v' a rule: diverge.induct)
  case (1 i p j q)
  obtain t fs y c where "dereference (v, a) = (RV t (DStruct fs), c)" "dereference (v', a) = (RV t (DStruct (fs[i := y])), c)"
    "i < length fs" "set_path (fs ! i) p x = Some y"
    using set_path_Cons [OF "1.prems"(2), of a] by blast
  then show ?case using "1.IH" [of "fs ! i" y c] "1.prems"(1) by (cases "i = j") auto
qed simp_all

lemma set_path_type: "set_path v (i # p) x = Some v' \<Longrightarrow> rv_Type v' = rv_Type v"
  using set_path_Cons by blast

lemma sr_Set_in_place:
  assumes "sr_Set E n T r parent key u = Some (In_Place v')" "e = entry_of E (rv_Type (fst r))" "map_of (structFields e) key = Some f"
    "slice_elems (entryStore e) (fieldPath f) \<noteq> []"
  shows "rv_Type v' = rv_Type (fst r)"
    and "\<exists>x. GetFrom (entryStore e) f (v', snd r) = Some (x, True) \<and> u \<noteq> GoNil \<and> assign_to (rv_Type x) (ValueOf u) = Some x"
    and "diverge (slice_elems (entryStore e) (fieldPath f)) (slice_elems (entryStore e) (fieldPath g)) \<Longrightarrow>
      GetFrom (entryStore e) g (v', snd r) = GetFrom (entryStore e) g r"
proof -
  let ?p = "slice_elems (entryStore e) (fieldPath f)"
  obtain old b where old: "GetFrom (entryStore e) f r = Some (old, b)"
    "sr_update n T (entryStore e) r parent f (old, b) (ValueOf_any u) = Some (In_Place v')"
    using assms(1-3) by (auto simp: sr_Set_def Let_def split: option.splits)
  then obtain x where x: "b" "u \<noteq> GoNil" "assign_to (rv_Type old) (ValueOf u) = Some x" "set_path (fst r) ?p x = Some v'"
    by (auto simp: sr_update_def Value_Set_def ValueOf_any_def Let_def split: if_splits option.splits)
  obtain i q where p: "?p = i # q" using assms(4) by (cases ?p) auto
  have "assign_to (rv_Type x) (ValueOf u) = Some x" using x(3) assign_to_type [OF x(3)] by simp
  then show "\<exists>x. GetFrom (entryStore e) f (v', snd r) = Some (x, True) \<and> u \<noteq> GoNil \<and> assign_to (rv_Type x) (ValueOf u) = Some x"
    using set_path_follow [of "fst r" "snd r" ?p old b x v'] old(1) x by (auto simp: GetFrom_def)
  show "rv_Type v' = rv_Type (fst r)" using set_path_type x(4) unfolding p by blast
  show "GetFrom (entryStore e) g (v', snd r) = GetFrom (entryStore e) g r"
    if "diverge ?p (slice_elems (entryStore e) (fieldPath g))"
    using set_path_other [OF that x(4), of "snd r"] by (simp add: GetFrom_def)
qed

section \<open>Writes to maps\<close>

lemma mr_Set_get:
  assumes "mr_Set m key u = Some m'" "u \<noteq> GoNil"
  shows "\<exists>x. assign_to (Elem (rv_Type m)) (ValueOf u) = Some x \<and> mr_get (m', a) k = (if k = key then Some x else mr_get (m, a) k)"
  using assms by (auto simp: mr_Set_def SetMapIndex_def ValueOf_any_def mr_get_def update_conv' split: option.splits)

text \<open>Setting a key to null deletes it.\<close>

lemma mr_Set_null: "mr_Set m key GoNil = mr_Delete m key"
  by (simp add: mr_Set_def mr_Delete_def ValueOf_any_def)

lemma mr_Delete_get: "mr_Delete m key = Some m' \<Longrightarrow> mr_get (m', a) k = (if k = key then None else mr_get (m, a) k)"
  by (auto simp: mr_Delete_def SetMapIndex_def mr_get_def delete_conv' split: option.splits)

section \<open>A struct in a map\<close>

text \<open>A struct with two string fields as an element of a map: setting one field replaces the struct by a new one.\<close>

definition pair_env :: type_env where
  "pair_env = \<lparr>struct_names = [''S''], struct_fields = (\<lambda>n.
     if n = ''S'' then [\<lparr>sf_Name = ''X'', sf_Tag = ''x'', sf_Type = TString\<rparr>, \<lparr>sf_Name = ''Y'', sf_Tag = ''y'', sf_Type = TString\<rparr>] else [])\<rparr>"

definition no_methods :: type_methods where
  "no_methods = \<lparr>implements_marshaler = (\<lambda>_. False), implements_unmarshaler = (\<lambda>_. False), implements_converter = (\<lambda>_. False)\<rparr>"

definition no_entry :: TypeReflectCacheEntry where
  "no_entry = \<lparr>isJsonMarshaler = False, ptrIsJsonMarshaler = False, isJsonUnmarshaler = False, isStringConvertable = False,
     ptrIsStringConvertable = False, structFields = [], orderedStructFields = [], entryStore = []\<rparr>"

definition pair_reflect :: "'e user_code \<Rightarrow> 'e reflect_env" where
  "pair_reflect U = \<lparr>entry_of = (\<lambda>t. case new_entry go_growth pair_env no_methods t of None \<Rightarrow> no_entry | Some e \<Rightarrow> e), user = U\<rparr>"

definition pair_value :: "string \<Rightarrow> string \<Rightarrow> rv" where
  "pair_value x y = RV (TStruct ''S'') (DStruct [RV TString (DString x), RV TString (DString y)])"

definition pair_map :: "rv \<Rightarrow> rv" where
  "pair_map v = RV (TMap (TStruct ''S'')) (DMap (Some [(''k'', v)]))"

lemma pair_entry:
  "new_entry go_growth pair_env no_methods (TStruct ''S'') = Some
     \<lparr>isJsonMarshaler = False, ptrIsJsonMarshaler = False, isJsonUnmarshaler = False, isStringConvertable = False,
      ptrIsStringConvertable = False,
      structFields = [(''x'', \<lparr>JsonName = ''x'', isOmitEmpty = False, fieldPath = \<lparr>s_array = 0, s_len = 1, s_cap = 1\<rparr>, fieldType = TString, TypeEntry = None\<rparr>),
        (''y'', \<lparr>JsonName = ''y'', isOmitEmpty = False, fieldPath = \<lparr>s_array = 1, s_len = 1, s_cap = 1\<rparr>, fieldType = TString, TypeEntry = None\<rparr>)],
      orderedStructFields = [\<lparr>JsonName = ''x'', isOmitEmpty = False, fieldPath = \<lparr>s_array = 0, s_len = 1, s_cap = 1\<rparr>, fieldType = TString, TypeEntry = None\<rparr>,
        \<lparr>JsonName = ''y'', isOmitEmpty = False, fieldPath = \<lparr>s_array = 1, s_len = 1, s_cap = 1\<rparr>, fieldType = TString, TypeEntry = None\<rparr>],
      entryStore = [[0], [1]]\<rparr>"
  by (simp add: new_entry_def eval_nat_numeral NumFields_def pair_env_def nested_tags slice_append_def nil_slice_def slice_elems_def
      go_growth_def no_methods_def order_fields_def Let_def)

lemma pair_zero: "zero_value (Suc 0) pair_env (TStruct ''S'') = Some (pair_value [] [])"
  by (simp add: pair_env_def pair_value_def eval_nat_numeral)

text \<open>In place the other field keeps its value; in a map it is lost.\<close>

lemma pair_Set:
  "sr_Set (pair_reflect U) 1 pair_env (pair_value a b, True) None ''x'' (GoString c) = Some (In_Place (pair_value c b))"
  "sr_Set (pair_reflect U) 1 pair_env (pair_value a b, False) (Some (pair_map (pair_value a b), ''k'')) ''x'' (GoString c) =
     Some (In_Parent (pair_map (pair_value c [])))"
  by (simp_all add: sr_Set_def sr_update_def pair_reflect_def pair_value_def pair_map_def pair_entry pair_zero [unfolded pair_value_def]
      GetFrom_def slice_elems_def dereference_simps Value_Set_def ValueOf_any_def assign_to_def SetMapIndex_def Let_def del: zero_value.simps)

end
