(* ===== verification/Reflect_Cache.thy ===== *)
theory Reflect_Cache
  imports Reflect_Maps
begin

text \<open>
  The cache of \<^verbatim>\<open>value/reflectcache.go\<close>.  Entries are objects on a heap, with an address for every pointer; the cache and the updates map
  types to addresses, and a field has in \<^verbatim>\<open>TypeEntry\<close> the address of the entry of its type.  Types may refer to themselves, so the
  entry of a type is registered before the entries of its fields are resolved.
\<close>

section \<open>Model\<close>

type_synonym reflectCacheMap = "(rtype \<times> nat) list"
type_synonym entry_heap = "TypeReflectCacheEntry list"

text \<open>The map \<^verbatim>\<open>structFields\<close> and the slice \<^verbatim>\<open>orderedStructFields\<close> have pointers to the same fields.\<close>

definition set_TypeEntry :: "string \<Rightarrow> nat \<Rightarrow> TypeReflectCacheEntry \<Rightarrow> TypeReflectCacheEntry" where
  "set_TypeEntry k a e =
     e\<lparr>structFields := map (\<lambda>(n, f). (n, if n = k then f\<lparr>TypeEntry := Some a\<rparr> else f)) (structFields e),
       orderedStructFields := map (\<lambda>f. if JsonName f = k then f\<lparr>TypeEntry := Some a\<rparr> else f) (orderedStructFields e)\<rparr>"

definition field_TypeEntry :: "string \<Rightarrow> TypeReflectCacheEntry \<Rightarrow> nat option" where
  "field_TypeEntry k e = (case map_of (structFields e) k of None \<Rightarrow> None | Some f \<Rightarrow> TypeEntry f)"

text \<open>\<open>new t\<close> is the new entry of a type.  The first argument bounds the nesting of structs in structs.\<close>

fun typeReflectEntryOf ::
  "nat \<Rightarrow> (rtype \<Rightarrow> TypeReflectCacheEntry option) \<Rightarrow> reflectCacheMap \<Rightarrow> rtype \<Rightarrow> reflectCacheMap \<times> entry_heap \<Rightarrow>
   (nat \<times> reflectCacheMap \<times> entry_heap) option"
  and resolve_fields ::
  "nat \<Rightarrow> (rtype \<Rightarrow> TypeReflectCacheEntry option) \<Rightarrow> reflectCacheMap \<Rightarrow> nat \<Rightarrow> (string \<times> FieldCacheEntry) list \<Rightarrow> reflectCacheMap \<times> entry_heap \<Rightarrow>
   (reflectCacheMap \<times> entry_heap) option" where
  "typeReflectEntryOf 0 new cm t s = None"
| "typeReflectEntryOf (Suc n) new cm t (updates, h) =
     (case map_of cm t of
        Some a \<Rightarrow> Some (a, updates, h)
      | None \<Rightarrow> (case map_of updates t of
          Some a \<Rightarrow> Some (a, updates, h)
        | None \<Rightarrow> (case new t of
            None \<Rightarrow> None
          | Some typeEntry \<Rightarrow>
              map_option (Pair (length h))
                (resolve_fields n new cm (length h) (structFields typeEntry) (AList.update t (length h) updates, h @ [typeEntry])))))"
| "resolve_fields n new cm a [] s = Some s"
| "resolve_fields n new cm a ((k, field) # flds) (updates, h) =
     (if field_TypeEntry k (h ! a) \<noteq> None then resolve_fields n new cm a flds (updates, h)
      else case typeReflectEntryOf n new cm (fieldType field) (updates, h) of
             None \<Rightarrow> None
           | Some (b, updates', h') \<Rightarrow> resolve_fields n new cm a flds (updates', h'[a := set_TypeEntry k b (h' ! a)]))"

text \<open>\<^verbatim>\<open>update\<close> merges new entries into the current map, unless another caller has added them all in the meantime.\<close>

definition cache_update :: "reflectCacheMap \<Rightarrow> reflectCacheMap \<Rightarrow> reflectCacheMap" where
  "cache_update updates current =
     (if \<not> (\<exists>u \<in> set updates. map_of current (fst u) = None) then current
      else fold (\<lambda>(t, update). AList.update t update) updates current)"

definition TypeReflectEntryOf ::
  "nat \<Rightarrow> (rtype \<Rightarrow> TypeReflectCacheEntry option) \<Rightarrow> rtype \<Rightarrow> reflectCacheMap \<times> entry_heap \<Rightarrow> (nat \<times> reflectCacheMap \<times> entry_heap) option" where
  "TypeReflectEntryOf n new t s =
     (case s of (cm, h) \<Rightarrow>
        (case map_of cm t of
           Some a \<Rightarrow> Some (a, cm, h)
         | None \<Rightarrow> (case typeReflectEntryOf n new cm t ([], h) of
             None \<Rightarrow> None
           | Some (result, updates, h') \<Rightarrow> Some (result, if length updates > 0 then cache_update updates cm else cm, h'))))"

section \<open>Correct caches\<close>

text \<open>An entry without its pointers.\<close>

definition bare :: "TypeReflectCacheEntry \<Rightarrow> TypeReflectCacheEntry" where
  "bare e = e\<lparr>structFields := map (map_prod id (TypeEntry_update (\<lambda>_. None))) (structFields e),
     orderedStructFields := map (TypeEntry_update (\<lambda>_. None)) (orderedStructFields e)\<rparr>"

definition entry_fields :: "TypeReflectCacheEntry \<Rightarrow> FieldCacheEntry set" where
  "entry_fields e = snd ` set (structFields e) \<union> set (orderedStructFields e)"

text \<open>The fields are known by their names, and both collections have the same.\<close>

definition entry_wf :: "TypeReflectCacheEntry \<Rightarrow> bool" where
  "entry_wf e \<longleftrightarrow> distinct (map fst (structFields e)) \<and> (\<forall>x \<in> set (structFields e). JsonName (snd x) = fst x) \<and>
     set (orderedStructFields e) = snd ` set (structFields e)"

text \<open>The entry at an address is the entry of its type, and a pointer that a field has goes to the entry of the type of the field.\<close>

definition entry_at :: "(rtype \<Rightarrow> TypeReflectCacheEntry option) \<Rightarrow> (rtype \<rightharpoonup> nat) \<Rightarrow> entry_heap \<Rightarrow> rtype \<Rightarrow> nat \<Rightarrow> bool" where
  "entry_at new m h t a \<longleftrightarrow> a < length h \<and> new t = Some (bare (h ! a)) \<and> entry_wf (h ! a) \<and>
     (\<forall>f \<in> entry_fields (h ! a). \<forall>b. TypeEntry f = Some b \<longrightarrow> m (fieldType f) = Some b)"

definition resolved :: "TypeReflectCacheEntry \<Rightarrow> bool" where
  "resolved e \<longleftrightarrow> (\<forall>f \<in> entry_fields e. TypeEntry f \<noteq> None)"

text \<open>In a correct cache all pointers are set, and go to entries of the cache.\<close>

definition cache_correct :: "(rtype \<Rightarrow> TypeReflectCacheEntry option) \<Rightarrow> reflectCacheMap \<times> entry_heap \<Rightarrow> bool" where
  "cache_correct new s \<longleftrightarrow> (case s of (cm, h) \<Rightarrow>
     \<forall>t a. map_of cm t = Some a \<longrightarrow> entry_at new (map_of cm) h t a \<and> resolved (h ! a))"

section \<open>Single entries\<close>

lemma new_entry_bare:
  assumes "entry_ok e"
  shows "bare e = e" "entry_wf e"
proof -
  have named: "distinct (map fst (structFields e))" "\<forall>x \<in> set (structFields e). JsonName (snd x) = fst x \<and> TypeEntry (snd x) = None"
    and ord: "orderedStructFields e = map snd (sort_key fst (structFields e))"
    using assms by (auto simp: entry_ok_def infos_named_def list_all_iff order_fields_def)
  have clear: "f\<lparr>TypeEntry := None\<rparr> = f" if "TypeEntry f = None" for f :: FieldCacheEntry using that by (cases f) simp
  have "map (map_prod id (TypeEntry_update (\<lambda>_. None))) (structFields e) = structFields e"
    using named(2) clear by (intro map_idI) (auto simp: map_prod_def)
  moreover have "map (TypeEntry_update (\<lambda>_. None)) (orderedStructFields e) = orderedStructFields e"
    using named(2) clear by (intro map_idI) (auto simp: ord)
  ultimately show "bare e = e" by (simp add: bare_def)
  show "entry_wf e" using named ord by (auto simp: entry_wf_def)
qed

lemma new_entry_unresolved: "bare e = e \<Longrightarrow> f \<in> entry_fields e \<Longrightarrow> TypeEntry f = None"
proof -
  assume b: "bare e = e" and f: "f \<in> entry_fields e"
  have "g \<in> entry_fields (bare e) \<Longrightarrow> TypeEntry g = None" for g
    by (auto simp: entry_fields_def bare_def)
  then show ?thesis using b f by simp
qed

lemma bare_set_TypeEntry [simp]: "bare (set_TypeEntry k a e) = bare e"
  by (auto simp: bare_def set_TypeEntry_def comp_def map_prod_def split_beta intro!: map_cong)

lemma bare_sel:
  "map fst (structFields (bare e)) = map fst (structFields e)"
  "map_of (structFields (bare e)) k = map_option (TypeEntry_update (\<lambda>_. None)) (map_of (structFields e) k)"
proof -
  show "map fst (structFields (bare e)) = map fst (structFields e)" by (simp add: bare_def)
  have "map_of (map (map_prod id g) kvs) k = map_option g (map_of kvs k)" for g :: "FieldCacheEntry \<Rightarrow> FieldCacheEntry" and kvs
    by (induction kvs) auto
  then show "map_of (structFields (bare e)) k = map_option (TypeEntry_update (\<lambda>_. None)) (map_of (structFields e) k)"
    by (simp add: bare_def)
qed

lemma entry_wf_fields:
  assumes "entry_wf e"
  shows "f \<in> entry_fields e \<longleftrightarrow> map_of (structFields e) (JsonName f) = Some f"
proof -
  have "f \<in> entry_fields e \<longleftrightarrow> f \<in> snd ` set (structFields e)" using assms by (simp add: entry_wf_def entry_fields_def)
  also have "\<dots> \<longleftrightarrow> (JsonName f, f) \<in> set (structFields e)" using assms by (force simp: entry_wf_def)
  also have "\<dots> \<longleftrightarrow> map_of (structFields e) (JsonName f) = Some f" using assms by (simp add: entry_wf_def)
  finally show ?thesis .
qed

lemma structFields_set_TypeEntry:
  assumes "entry_wf e"
  shows "snd ` set (structFields (set_TypeEntry k a e)) =
    (\<lambda>f. if JsonName f = k then f\<lparr>TypeEntry := Some a\<rparr> else f) ` snd ` set (structFields e)"
proof -
  have "snd (case x of (n, f) \<Rightarrow> (n, if n = k then f\<lparr>TypeEntry := Some a\<rparr> else f)) =
      (if JsonName (snd x) = k then snd x\<lparr>TypeEntry := Some a\<rparr> else snd x)" if "x \<in> set (structFields e)" for x
    using assms that by (cases x) (auto simp: entry_wf_def)
  then show ?thesis by (simp add: set_TypeEntry_def image_image del: if_image_distrib)
qed

lemma entry_fields_set_TypeEntry:
  "entry_wf e \<Longrightarrow> entry_fields (set_TypeEntry k a e) = (\<lambda>f. if JsonName f = k then f\<lparr>TypeEntry := Some a\<rparr> else f) ` entry_fields e"
  by (simp add: entry_fields_def structFields_set_TypeEntry image_Un del: if_image_distrib)
    (simp add: set_TypeEntry_def del: if_image_distrib)

lemma entry_wf_set_TypeEntry:
  assumes "entry_wf e"
  shows "entry_wf (set_TypeEntry k a e)"
proof -
  have "map fst (structFields (set_TypeEntry k a e)) = map fst (structFields e)" by (simp add: set_TypeEntry_def split_beta comp_def)
  moreover have "\<forall>x \<in> set (structFields (set_TypeEntry k a e)). JsonName (snd x) = fst x"
    using assms by (auto simp: entry_wf_def set_TypeEntry_def)
  moreover have "set (orderedStructFields (set_TypeEntry k a e)) = snd ` set (structFields (set_TypeEntry k a e))"
    using assms by (simp add: structFields_set_TypeEntry del: if_image_distrib) (simp add: entry_wf_def set_TypeEntry_def del: if_image_distrib)
  ultimately show ?thesis using assms by (simp add: entry_wf_def)
qed

lemma field_set_TypeEntry:
  "field_TypeEntry k' (set_TypeEntry k a e) =
    (if k' = k \<and> map_of (structFields e) k \<noteq> None then Some a else field_TypeEntry k' e)"
proof -
  have "map_of (map (\<lambda>(n, f). (n, if n = k then g f else f)) kvs) k' = map_option (\<lambda>f. if k' = k then g f else f) (map_of kvs k')"
    for g :: "FieldCacheEntry \<Rightarrow> FieldCacheEntry" and kvs
    by (induction kvs) auto
  then show ?thesis by (auto simp: field_TypeEntry_def set_TypeEntry_def split: option.splits)
qed

lemma resolved_names:
  assumes "entry_wf e" "\<And>k. k \<in> fst ` set (structFields e) \<Longrightarrow> field_TypeEntry k e \<noteq> None"
  shows "resolved e"
  using assms by (force simp: resolved_def entry_fields_def entry_wf_def field_TypeEntry_def)

section \<open>States while entries are resolved\<close>

text \<open>A lookup sees the cache and the updates.\<close>

abbreviation seen :: "reflectCacheMap \<Rightarrow> reflectCacheMap \<Rightarrow> rtype \<rightharpoonup> nat" where
  "seen cm u \<equiv> map_of u ++ map_of cm"

definition entries_ok :: "(rtype \<Rightarrow> TypeReflectCacheEntry option) \<Rightarrow> bool" where
  "entries_ok new \<longleftrightarrow> (\<forall>t e. new t = Some e \<longrightarrow> bare e = e \<and> entry_wf e)"

definition heap_inv :: "(rtype \<Rightarrow> TypeReflectCacheEntry option) \<Rightarrow> reflectCacheMap \<Rightarrow> reflectCacheMap \<Rightarrow> entry_heap \<Rightarrow> bool" where
  "heap_inv new cm u h \<longleftrightarrow> distinct (map fst u) \<and> (\<forall>t a. seen cm u t = Some a \<longrightarrow> entry_at new (seen cm u) h t a)"

text \<open>Updates are only added, for types that are not in the cache, at new addresses; what is added is resolved.\<close>

definition updates_extend :: "reflectCacheMap \<Rightarrow> reflectCacheMap \<Rightarrow> entry_heap \<Rightarrow> reflectCacheMap \<Rightarrow> entry_heap \<Rightarrow> bool" where
  "updates_extend cm u h u' h' \<longleftrightarrow> map_of u \<subseteq>\<^sub>m map_of u' \<and> length h \<le> length h' \<and>
     (\<forall>t b. map_of u' t = Some b \<and> map_of u t = None \<longrightarrow> map_of cm t = None \<and> length h \<le> b \<and> b < length h' \<and> resolved (h' ! b))"

lemma entries_okD: "entries_ok new \<Longrightarrow> new t = Some e \<Longrightarrow> bare e = e \<and> entry_wf e"
  unfolding entries_ok_def by blast

lemma updates_extend_refl [simp]: "updates_extend cm u h u h"
  by (auto simp: updates_extend_def)

lemma updates_extend_seenD: "updates_extend cm u h u' h' \<Longrightarrow> seen cm u t = Some a \<Longrightarrow> seen cm u' t = Some a"
  by (auto simp: updates_extend_def map_le_def map_add_Some_iff dom_def)

lemma updates_extend_trans:
  assumes "updates_extend cm u h u1 h1" "updates_extend cm u1 h1 u' h'" "\<And>b. length h \<le> b \<Longrightarrow> b < length h1 \<Longrightarrow> h' ! b = h1 ! b"
  shows "updates_extend cm u h u' h'"
proof -
  have "map_of cm t = None \<and> length h \<le> b \<and> b < length h' \<and> resolved (h' ! b)" if b: "map_of u' t = Some b" "map_of u t = None" for t b
  proof (cases "map_of u1 t")
    case None
    then have "map_of cm t = None \<and> length h1 \<le> b \<and> b < length h' \<and> resolved (h' ! b)" using assms(2) b by (auto simp: updates_extend_def)
    moreover have "length h \<le> length h1" using assms(1) by (simp add: updates_extend_def)
    ultimately show ?thesis by auto
  next
    case (Some c)
    then have "c = b" using assms(2) b by (auto simp: updates_extend_def map_le_def dom_def)
    then have "map_of cm t = None \<and> length h \<le> b \<and> b < length h1 \<and> resolved (h1 ! b)" using assms(1) b Some by (auto simp: updates_extend_def)
    then show ?thesis using assms(2,3) by (auto simp: updates_extend_def)
  qed
  then show ?thesis using assms(1,2) by (auto simp: updates_extend_def intro: map_le_trans)
qed

lemma updates_extend_set: "updates_extend cm u h u' h' \<Longrightarrow> a < length h \<Longrightarrow> updates_extend cm u h u' (h'[a := e])"
  by (fastforce simp: updates_extend_def nth_list_update)

lemma updates_extend_new:
  assumes ext: "updates_extend cm (AList.update t (length h) u) (h @ [e]) u' h'" and fresh: "seen cm u t = None"
    and at: "seen cm u' t = Some (length h)" and res: "resolved (h' ! length h)"
  shows "updates_extend cm u h u' h'"
proof -
  let ?u = "AList.update t (length h) u"
  have "map_of cm x = None \<and> length h \<le> b \<and> b < length h' \<and> resolved (h' ! b)" if b: "map_of u' x = Some b" "map_of u x = None" for x b
  proof (cases "x = t")
    case True
    then show ?thesis using at fresh b res ext by (auto simp: updates_extend_def)
  next
    case False
    then have "map_of ?u x = None" using b(2) by (simp add: update_conv')
    then show ?thesis using ext b(1) by (fastforce simp: updates_extend_def)
  qed
  moreover have "map_of u \<subseteq>\<^sub>m map_of ?u" using fresh by (auto simp: map_le_def dom_def update_conv')
  ultimately show ?thesis using ext by (auto simp: updates_extend_def intro: map_le_trans)
qed

lemma entry_at_mono:
  assumes "entry_at new m h t a" "m \<subseteq>\<^sub>m m'" "length h \<le> length h'" "h' ! a = h ! a"
  shows "entry_at new m' h' t a"
  using assms by (fastforce simp: entry_at_def map_le_def dom_def)

lemma heap_inv_new:
  assumes inv: "heap_inv new cm u h" and ok: "entries_ok new" and e: "new t = Some e" and fresh: "seen cm u t = None"
  shows "heap_inv new cm (AList.update t (length h) u) (h @ [e])"
proof -
  let ?u = "AList.update t (length h) u"
  have seen: "seen cm ?u = (seen cm u)(t \<mapsto> length h)"
    using fresh by (auto simp: fun_eq_iff update_conv' map_add_def split: option.splits)
  have "entry_at new (seen cm ?u) (h @ [e]) x a" if a: "seen cm ?u x = Some a" for x a
  proof (cases "x = t")
    case True
    have "f \<in> entry_fields e \<Longrightarrow> TypeEntry f = None" for f using ok e new_entry_unresolved by (auto simp: entries_ok_def)
    then show ?thesis using True a e ok by (auto simp: seen entry_at_def entries_ok_def)
  next
    case False
    then have old: "entry_at new (seen cm u) h x a" using a inv unfolding seen by (auto simp: heap_inv_def)
    then have "(h @ [e]) ! a = h ! a" by (auto simp: entry_at_def nth_append)
    moreover have "seen cm u \<subseteq>\<^sub>m seen cm ?u" using fresh unfolding seen by (auto simp: map_le_def)
    ultimately show ?thesis using entry_at_mono [OF old] by auto
  qed
  then show ?thesis using inv by (auto simp: heap_inv_def intro: distinct_update)
qed

lemma heap_inv_set_TypeEntry:
  assumes inv: "heap_inv new cm u h" and g: "map_of (structFields (h ! a)) k = Some g" and b: "seen cm u (fieldType g) = Some b"
    and a: "seen cm u t0 = Some a"
  shows "heap_inv new cm u (h[a := set_TypeEntry k b (h ! a)])"
proof -
  let ?h = "h[a := set_TypeEntry k b (h ! a)]"
  have at: "entry_at new (seen cm u) h t0 a" using inv a by (auto simp: heap_inv_def)
  have al: "a < length h" and wf: "entry_wf (h ! a)" using at by (auto simp: entry_at_def)
  have ptr: "seen cm u (fieldType f) = Some c" if f: "f \<in> entry_fields (?h ! a)" "TypeEntry f = Some c" for f c
  proof -
    obtain f0 where f0: "f0 \<in> entry_fields (h ! a)" "f = (if JsonName f0 = k then f0\<lparr>TypeEntry := Some b\<rparr> else f0)"
      using f(1) al entry_fields_set_TypeEntry [OF wf] by auto
    show ?thesis
    proof (cases "JsonName f0 = k")
      case True
      then have "f0 = g" using f0(1) g entry_wf_fields [OF wf] by auto
      then show ?thesis using True f0(2) f(2) b by auto
    qed (use f0 f(2) at in \<open>auto simp: entry_at_def\<close>)
  qed
  have "entry_at new (seen cm u) ?h x c" if "seen cm u x = Some c" for x c
    using inv that ptr al entry_wf_set_TypeEntry by (cases "c = a") (auto simp: heap_inv_def entry_at_def)
  then show ?thesis using inv by (auto simp: heap_inv_def)
qed

section \<open>All pointers are set\<close>

lemma resolved_bare:
  assumes "entry_wf e" "bare e = e0" "\<And>k. k \<in> fst ` set (structFields e0) \<Longrightarrow> field_TypeEntry k e \<noteq> None"
  shows "resolved e"
proof (rule resolved_names [OF assms(1)])
  fix k assume "k \<in> fst ` set (structFields e)"
  then have "k \<in> set (map fst (structFields (bare e)))" unfolding bare_sel by simp
  then show "field_TypeEntry k e \<noteq> None" using assms(2,3) by simp
qed

lemma same_field:
  assumes "bare e = bare e'" "map_of (structFields e) k = Some g"
  shows "\<exists>g'. map_of (structFields e') k = Some g' \<and> fieldType g' = fieldType g"
proof -
  have "map_option (TypeEntry_update (\<lambda>_. None)) (map_of (structFields e') k) = Some (g\<lparr>TypeEntry := None\<rparr>)"
    using assms(1) bare_sel(2) [of e k] bare_sel(2) [of e' k] assms(2) by simp
  then obtain g' where "map_of (structFields e') k = Some g'" "g'\<lparr>TypeEntry := None\<rparr> = g\<lparr>TypeEntry := None\<rparr>" by auto
  moreover have "fieldType (f\<lparr>TypeEntry := None\<rparr>) = fieldType f" for f :: FieldCacheEntry by simp
  ultimately show ?thesis by metis
qed

lemma typeReflectEntryOf_newE:
  assumes "typeReflectEntryOf (Suc n) new cm t (u, h) = Some (a, u', h')" "map_of cm t = None" "map_of u t = None"
  obtains e where "new t = Some e" "a = length h"
    "resolve_fields n new cm (length h) (structFields e) (AList.update t (length h) u, h @ [e]) = Some (u', h')"
proof (cases "new t")
  case (Some e)
  then show ?thesis using assms that [OF Some] by (cases "resolve_fields n new cm (length h) (structFields e) (AList.update t (length h) u, h @ [e])") simp_all
qed (use assms in simp)

lemma typeReflectEntryOf_correct:
  "typeReflectEntryOf n new cm t (u, h) = Some (a, u', h') \<Longrightarrow> heap_inv new cm u h \<Longrightarrow> entries_ok new \<Longrightarrow>
    heap_inv new cm u' h' \<and> updates_extend cm u h u' h' \<and> (\<forall>b < length h. h' ! b = h ! b) \<and> seen cm u' t = Some a"
  "resolve_fields n new cm a flds (u, h) = Some (u', h') \<Longrightarrow> heap_inv new cm u h \<Longrightarrow> entries_ok new \<Longrightarrow> seen cm u t0 = Some a \<Longrightarrow>
    (\<forall>x \<in> set flds. \<exists>g. map_of (structFields (h ! a)) (fst x) = Some g \<and> fieldType g = fieldType (snd x)) \<Longrightarrow>
    heap_inv new cm u' h' \<and> updates_extend cm u h u' h' \<and> (\<forall>b < length h. b \<noteq> a \<longrightarrow> h' ! b = h ! b) \<and> bare (h' ! a) = bare (h ! a) \<and>
    (\<forall>k. field_TypeEntry k (h ! a) \<noteq> None \<or> k \<in> fst ` set flds \<longrightarrow> field_TypeEntry k (h' ! a) \<noteq> None)"
proof (induction n new cm t "(u, h)" and n new cm a flds "(u, h)" arbitrary: u h a u' h' and u h t0 u' h' rule: typeReflectEntryOf_resolve_fields.induct)
  case (2 n new cm t u h)
  show ?case
  proof (cases "map_of cm t = None \<and> map_of u t = None")
    case False
    then show ?thesis using "2.prems" by (auto simp: map_add_def split: option.splits)
  next
    case True
    let ?u = "AList.update t (length h) u"
    obtain e where e: "new t = Some e" "resolve_fields n new cm (length h) (structFields e) (?u, h @ [e]) = Some (u', h')" and a: "a = length h"
      using typeReflectEntryOf_newE [OF "2.prems"(1)] True by blast
    have wf: "bare e = e" "entry_wf e" using entries_okD [OF "2.prems"(3) e(1)] by simp_all
    have inv: "heap_inv new cm ?u (h @ [e])" using heap_inv_new [OF "2.prems"(2,3) e(1)] True by (simp add: map_add_def)
    have "\<forall>x \<in> set (structFields e). \<exists>g. map_of (structFields ((h @ [e]) ! length h)) (fst x) = Some g \<and> fieldType g = fieldType (snd x)"
      using wf(2) by (auto simp: entry_wf_def)
    moreover have seen: "seen cm ?u t = Some (length h)" using True by (simp add: map_add_def update_conv')
    ultimately have r: "heap_inv new cm u' h'" "updates_extend cm ?u (h @ [e]) u' h'" "\<forall>b < Suc (length h). b \<noteq> length h \<longrightarrow> h' ! b = (h @ [e]) ! b"
      "bare (h' ! length h) = e" "\<forall>k \<in> fst ` set (structFields e). field_TypeEntry k (h' ! length h) \<noteq> None"
      using "2.hyps" [OF _ _ e(1) e(2) inv "2.prems"(3) seen] True wf(1) by auto
    have at: "seen cm u' t = Some (length h)" using updates_extend_seenD [OF r(2) seen] .
    then have "entry_at new (seen cm u') h' t (length h)" using r(1) by (auto simp: heap_inv_def)
    then have "resolved (h' ! length h)" using resolved_bare r(4,5) by (auto simp: entry_at_def)
    from updates_extend_new [OF r(2) _ at this] True have "updates_extend cm u h u' h'" by (simp add: map_add_def)
    then show ?thesis using r at a by (auto simp: nth_append)
  qed
next
  case (4 n new cm a k field flds u h)
  have at: "entry_at new (seen cm u) h t0 a" using "4.prems"(2,4) by (auto simp: heap_inv_def)
  obtain g where g: "map_of (structFields (h ! a)) k = Some g" "fieldType g = fieldType field" using "4.prems"(5) by auto
  show ?case
  proof (cases "field_TypeEntry k (h ! a) = None")
    case False
    then show ?thesis using "4.hyps"(1) [of u' h' t0] "4.prems" by auto
  next
    case True
    then obtain b u1 h1 where t: "typeReflectEntryOf n new cm (fieldType field) (u, h) = Some (b, u1, h1)"
      and f: "resolve_fields n new cm a flds (u1, h1[a := set_TypeEntry k b (h1 ! a)]) = Some (u', h')"
      using "4.prems"(1) by (auto split: option.splits)
    let ?h = "h1[a := set_TypeEntry k b (h1 ! a)]"
    have t': "heap_inv new cm u1 h1" "updates_extend cm u h u1 h1" "\<forall>b < length h. h1 ! b = h ! b" "seen cm u1 (fieldType field) = Some b"
      using "4.hyps"(2) [OF _ t "4.prems"(2,3)] True by auto
    have len: "a < length h" "length h \<le> length h1" using at t'(2) by (auto simp: entry_at_def updates_extend_def)
    have seen: "seen cm u1 t0 = Some a" using updates_extend_seenD [OF t'(2) "4.prems"(4)] .
    have a: "?h ! a = set_TypeEntry k b (h ! a)" using len t'(3) by simp
    have inv: "heap_inv new cm u1 ?h" using heap_inv_set_TypeEntry [OF t'(1) _ _ seen, of k g b] g t'(3,4) len by simp
    have "\<forall>x \<in> set flds. \<exists>g. map_of (structFields (?h ! a)) (fst x) = Some g \<and> fieldType g = fieldType (snd x)"
    proof
      fix x assume "x \<in> set flds"
      then obtain g where g: "map_of (structFields (h ! a)) (fst x) = Some g" "fieldType g = fieldType (snd x)" using "4.prems"(5) by auto
      from same_field [OF _ g(1), of "?h ! a"] g(2) show "\<exists>g. map_of (structFields (?h ! a)) (fst x) = Some g \<and> fieldType g = fieldType (snd x)"
        unfolding a by auto
    qed
    then have r: "heap_inv new cm u' h'" "updates_extend cm u1 ?h u' h'" "\<forall>b < length h1. b \<noteq> a \<longrightarrow> h' ! b = h1 ! b" "bare (h' ! a) = bare (h ! a)"
      "\<forall>k'. field_TypeEntry k' (?h ! a) \<noteq> None \<or> k' \<in> fst ` set flds \<longrightarrow> field_TypeEntry k' (h' ! a) \<noteq> None"
      using "4.hyps"(3) [OF _ t _ _ f inv "4.prems"(3) seen] True a by auto
    have "updates_extend cm u h u' h'" using r(3) len by (intro updates_extend_trans [OF updates_extend_set [OF t'(2)] r(2)]) auto
    moreover have "field_TypeEntry k' (h ! a) \<noteq> None \<or> k' = k \<Longrightarrow> field_TypeEntry k' (?h ! a) \<noteq> None" for k'
      unfolding a field_set_TypeEntry using g(1) by auto
    ultimately show ?thesis using r t'(3) len by auto
  qed
qed auto

section \<open>The recursion ends\<close>

text \<open>The types that are left to describe become fewer with every entry, also when types refer to each other.\<close>

definition types_left :: "rtype set \<Rightarrow> reflectCacheMap \<Rightarrow> reflectCacheMap \<Rightarrow> rtype set" where
  "types_left U cm u = {t \<in> U. seen cm u t = None}"

definition closed_types :: "(rtype \<Rightarrow> TypeReflectCacheEntry option) \<Rightarrow> rtype set \<Rightarrow> bool" where
  "closed_types new U \<longleftrightarrow> finite U \<and> (\<forall>t \<in> U. \<exists>e. new t = Some e \<and> fieldType ` snd ` set (structFields e) \<subseteq> U)"

lemma typeReflectEntryOf_keeps:
  "typeReflectEntryOf n new cm t (u, h) = Some (a, u', h') \<Longrightarrow> map_of u x \<noteq> None \<Longrightarrow> map_of u' x \<noteq> None"
  "resolve_fields n new cm a flds (u, h) = Some (u', h') \<Longrightarrow> map_of u x \<noteq> None \<Longrightarrow> map_of u' x \<noteq> None"
proof (induction n new cm t "(u, h)" and n new cm a flds "(u, h)" arbitrary: u h a u' h' and u h u' h' rule: typeReflectEntryOf_resolve_fields.induct)
  case (2 n new cm t u h)
  show ?case
  proof (cases "map_of cm t = None \<and> map_of u t = None")
    case True
    obtain e where e: "new t = Some e" "resolve_fields n new cm (length h) (structFields e) (AList.update t (length h) u, h @ [e]) = Some (u', h')"
      using typeReflectEntryOf_newE [OF "2.prems"(1)] True by blast
    show ?thesis using "2.hyps" [OF _ _ e] True "2.prems"(2) by (simp add: update_conv')
  qed (use "2.prems" in \<open>auto split: option.splits\<close>)
next
  case (4 n new cm a k field flds u h)
  show ?case
  proof (cases "field_TypeEntry k (h ! a) = None")
    case True
    then obtain b u1 h1 where t: "typeReflectEntryOf n new cm (fieldType field) (u, h) = Some (b, u1, h1)"
      and f: "resolve_fields n new cm a flds (u1, h1[a := set_TypeEntry k b (h1 ! a)]) = Some (u', h')"
      using "4.prems"(1) by (auto split: option.splits)
    show ?thesis using "4.hyps"(3) [OF _ t _ _ f] "4.hyps"(2) [OF _ t "4.prems"(2)] True by simp
  qed (use 4 in simp)
qed auto

lemma types_left_mono:
  assumes "finite U" "\<And>x. map_of u x \<noteq> None \<Longrightarrow> map_of u' x \<noteq> None"
  shows "card (types_left U cm u') \<le> card (types_left U cm u)"
proof (rule card_mono)
  show "types_left U cm u' \<subseteq> types_left U cm u" using assms(2) unfolding types_left_def map_add_None by blast
qed (use assms(1) in \<open>simp add: types_left_def\<close>)

lemma typeReflectEntryOf_total:
  assumes closed: "closed_types new U"
  shows "t \<in> U \<Longrightarrow> card (types_left U cm u) < n \<Longrightarrow> \<exists>r. typeReflectEntryOf n new cm t (u, h) = Some r"
    "fieldType ` snd ` set flds \<subseteq> U \<Longrightarrow> card (types_left U cm u) < n \<or> flds = [] \<Longrightarrow> \<exists>s. resolve_fields n new cm a flds (u, h) = Some s"
  using closed
proof (induction n new cm t "(u, h)" and n new cm a flds "(u, h)" arbitrary: u h and u h rule: typeReflectEntryOf_resolve_fields.induct)
  case (2 n new cm t u h)
  show ?case
  proof (cases "map_of cm t = None \<and> map_of u t = None")
    case True
    obtain e where e: "new t = Some e" "fieldType ` snd ` set (structFields e) \<subseteq> U"
      using "2.prems"(1,3) by (auto simp: closed_types_def)
    have "types_left U cm (AList.update t (length h) u) = types_left U cm u - {t}"
      by (auto simp: types_left_def update_conv')
    moreover have "t \<in> types_left U cm u" using True "2.prems"(1) by (simp add: types_left_def)
    moreover have "finite (types_left U cm u)" using "2.prems"(3) by (auto simp: types_left_def closed_types_def)
    ultimately have "card (types_left U cm (AList.update t (length h) u)) < n" using card_Diff1_less [of "types_left U cm u" t] "2.prems"(2) by simp
    then have "\<exists>s. resolve_fields n new cm (length h) (structFields e) (AList.update t (length h) u, h @ [e]) = Some s"
      using "2.hyps" [OF _ _ e(1,2) _ "2.prems"(3)] True by simp
    then show ?thesis using True e(1) by auto
  qed (auto split: option.splits)
next
  case (4 n new cm a k field flds u h)
  show ?case
  proof (cases "field_TypeEntry k (h ! a) = None")
    case True
    then obtain b u1 h1 where t: "typeReflectEntryOf n new cm (fieldType field) (u, h) = Some (b, u1, h1)" using "4.hyps"(2) "4.prems" by fastforce
    have "card (types_left U cm u1) \<le> card (types_left U cm u)"
      using typeReflectEntryOf_keeps(1) [OF t] "4.prems"(3) by (intro types_left_mono) (auto simp: closed_types_def)
    then show ?thesis using "4.hyps"(3) [OF _ t] True t "4.prems" by auto
  qed (use 4 in auto)
qed auto

section \<open>The cache stays correct\<close>

lemma map_of_fold_update: "distinct (map fst u) \<Longrightarrow> map_of (fold (\<lambda>(t, a). AList.update t a) u cm) = map_of cm ++ map_of u"
proof (induction u arbitrary: cm)
  case (Cons x u)
  obtain t a where x: "x = (t, a)" by (cases x)
  have "map_of u t = None" using Cons.prems x by (simp add: map_of_eq_None_iff)
  then show ?case using Cons x by (auto simp: fun_eq_iff update_conv' map_add_def split: option.splits)
qed simp

lemma cache_update_seen:
  assumes "distinct (map fst u)" "\<And>t b. map_of u t = Some b \<Longrightarrow> map_of cm t = None"
  shows "map_of (cache_update u cm) = seen cm u"
proof (cases u)
  case (Cons x u')
  have "map_of u (fst x) \<noteq> None" using Cons by simp
  then have "map_of cm (fst x) = None" using assms(2) by auto
  then have "cache_update u cm = fold (\<lambda>(t, a). AList.update t a) u cm" using Cons by (auto simp: cache_update_def)
  moreover have "dom (map_of cm) \<inter> dom (map_of u) = {}" using assms(2) by auto
  ultimately show ?thesis using map_of_fold_update [OF assms(1)] map_add_comm by metis
qed (simp add: cache_update_def)

lemma TypeReflectEntryOf_correct:
  assumes ok: "entries_ok new" and closed: "closed_types new U" and t: "t \<in> U" and cc: "cache_correct new (cm, h)" and n: "card U < n"
  shows "\<exists>a cm' h'. TypeReflectEntryOf n new t (cm, h) = Some (a, cm', h') \<and> map_of cm' t = Some a \<and> cache_correct new (cm', h') \<and>
    (\<forall>x b. map_of cm x = Some b \<longrightarrow> map_of cm' x = Some b \<and> h' ! b = h ! b)"
proof (cases "map_of cm t")
  case None
  have "card (types_left U cm []) \<le> card U" using closed by (intro card_mono) (auto simp: types_left_def closed_types_def)
  then obtain a u h' where run: "typeReflectEntryOf n new cm t ([], h) = Some (a, u, h')"
    using typeReflectEntryOf_total(1) [OF closed t, of cm "[]" n h] n by auto
  have "heap_inv new cm [] h" using cc by (auto simp: heap_inv_def cache_correct_def)
  note r = typeReflectEntryOf_correct(1) [OF run this ok]
  have seen: "map_of (cache_update u cm) = seen cm u" using r by (intro cache_update_seen) (auto simp: heap_inv_def updates_extend_def)
  have same: "h' ! b = h ! b \<and> resolved (h ! b)" if "map_of cm x = Some b" for x b using cc r that by (auto simp: cache_correct_def entry_at_def)
  have "entry_at new (seen cm u) h' x b \<and> resolved (h' ! b)" if "seen cm u x = Some b" for x b
    using r that same by (auto simp: heap_inv_def updates_extend_def map_add_Some_iff)
  then have "cache_correct new (cache_update u cm, h')" by (simp add: cache_correct_def seen)
  moreover have "u \<noteq> []" using r None by auto
  ultimately show ?thesis using None run r same seen by (auto simp: TypeReflectEntryOf_def)
qed (use cc in \<open>auto simp: TypeReflectEntryOf_def\<close>)

lemma cache_correctD:
  assumes "cache_correct new (cm, h)" "map_of cm t = Some a"
  shows "new t = Some (bare (h ! a))" "\<And>f. f \<in> entry_fields (h ! a) \<Longrightarrow> \<exists>b. TypeEntry f = Some b \<and> map_of cm (fieldType f) = Some b"
  using assms by (fastforce simp: cache_correct_def entry_at_def resolved_def)+

lemma new_entries_ok: "entries_ok (new_entry grow T M)"
  unfolding entries_ok_def using new_entry_bare [OF new_entry_ok] by blast

end
