(* ===== verification/From_Value.thy ===== *)
theory From_Value
  imports Schema_Ok
begin

text \<open>
  \<^verbatim>\<open>fieldpath/fromvalue.go\<close>: the set of the leaf fields of a value without a schema.  The walk appends to the path of the
  walker, hands every leaf's path to a callback, and guesses the key fields of list items.
\<close>

section \<open>Model\<close>

definition AssociativeListCandidateFieldNames :: "string list" where
  "AssociativeListCandidateFieldNames = [''key'', ''id'', ''name'']"

text \<open>The loop over the candidate names; only scalars are accepted as keys.\<close>

fun guess_keys :: "GoMap \<Rightarrow> string list \<Rightarrow> FieldList" where
  "guess_keys m [] = []"
| "guess_keys m (name # names) =
     (case map_of m name of
        None \<Rightarrow> guess_keys m names
      | Some f \<Rightarrow> if is_null f \<or> is_map f \<or> is_list f then guess_keys m names else (name, f) # guess_keys m names)"

definition GuessBestListPathElement :: "nat \<Rightarrow> Value \<Rightarrow> PathElement" where
  "GuessBestListPathElement index item =
     (if \<not> is_map item then pe_index (of_nat index)
      else let keys = guess_keys (AsMap item) AssociativeListCandidateFieldNames
           in if length keys > 0 then pe_key (FieldList_Sort keys) else pe_index (of_nat index))"

text \<open>\<open>walk\<close> with its loops over the range of a list and the entries of a map; the last argument is the state of the callback.\<close>

fun walk :: "Path \<Rightarrow> Value \<Rightarrow> (Path \<Rightarrow> 's \<Rightarrow> 's) \<Rightarrow> 's \<Rightarrow> 's"
  and walk_items :: "Path \<Rightarrow> nat \<Rightarrow> Value list \<Rightarrow> (Path \<Rightarrow> 's \<Rightarrow> 's) \<Rightarrow> 's \<Rightarrow> 's"
  and walk_fields :: "Path \<Rightarrow> GoMap \<Rightarrow> (Path \<Rightarrow> 's \<Rightarrow> 's) \<Rightarrow> 's \<Rightarrow> 's" where
  "walk path (VList l) do s = walk_items path 0 l do s"
| "walk path (VMap m) do s = walk_fields path m do s"
| "walk path v do s = (if length path > 0 then do path s else s)"
| "walk_items path i [] do s = s"
| "walk_items path i (v # vs) do s = walk_items path (Suc i) vs do (walk (path @ [GuessBestListPathElement i v]) v do s)"
| "walk_fields path [] do s = s"
| "walk_fields path ((k, v) # m) do s = walk_fields path m do (walk (path @ [pe_field k]) v do s)"

definition SetFromValue :: "Value \<Rightarrow> FieldSet" where
  "SetFromValue v = walk [] v (\<lambda>p s. Set_Insert s p) (NewSet [])"

section \<open>The leaves of a value\<close>

inductive leaf_path :: "Value \<Rightarrow> Path \<Rightarrow> bool" where
  leaf_here: "\<not> is_list v \<Longrightarrow> \<not> is_map v \<Longrightarrow> leaf_path v []"
| leaf_item: "i < length l \<Longrightarrow> leaf_path (l ! i) p \<Longrightarrow> leaf_path (VList l) (GuessBestListPathElement i (l ! i) # p)"
| leaf_field: "(k, v) \<in> set m \<Longrightarrow> leaf_path v p \<Longrightarrow> leaf_path (VMap m) (pe_field k # p)"

inductive_simps leaf_path_simps: "leaf_path (VList l) p" "leaf_path (VMap m) p"

text \<open>The paths in the order of the walk.\<close>

fun leaves :: "Value \<Rightarrow> Path list" and item_leaves :: "nat \<Rightarrow> Value list \<Rightarrow> Path list" and field_leaves :: "GoMap \<Rightarrow> Path list" where
  "leaves (VList l) = item_leaves 0 l"
| "leaves (VMap m) = field_leaves m"
| "leaves v = [[]]"
| "item_leaves i [] = []"
| "item_leaves i (v # vs) = map ((#) (GuessBestListPathElement i v)) (leaves v) @ item_leaves (Suc i) vs"
| "field_leaves [] = []"
| "field_leaves ((k, v) # m) = map ((#) (pe_field k)) (leaves v) @ field_leaves m"

lemma walk_leaves:
  "walk path v do s = foldl (\<lambda>s q. do q s) s (filter (\<lambda>q. q \<noteq> []) (map ((@) path) (leaves v)))"
  "walk_items path i vs do s = foldl (\<lambda>s q. do q s) s (filter (\<lambda>q. q \<noteq> []) (map ((@) path) (item_leaves i vs)))"
  "walk_fields path m do s = foldl (\<lambda>s q. do q s) s (filter (\<lambda>q. q \<noteq> []) (map ((@) path) (field_leaves m)))"
  by (induction path v "do" s and path i vs "do" s and path m "do" s rule: walk_walk_items_walk_fields.induct)
    (simp_all add: comp_def)

lemma SetFromValue_NewSet: "SetFromValue v = NewSet (filter (\<lambda>q. q \<noteq> []) (leaves v))"
  by (simp add: SetFromValue_def walk_leaves(1) NewSet_def map_idI)

lemma leaves_iff:
  "p \<in> set (leaves v) \<longleftrightarrow> leaf_path v p"
  "p \<in> set (item_leaves i vs) \<longleftrightarrow> (\<exists>j < length vs. \<exists>q. p = GuessBestListPathElement (i + j) (vs ! j) # q \<and> leaf_path (vs ! j) q)"
  "p \<in> set (field_leaves m) \<longleftrightarrow> (\<exists>(k, x) \<in> set m. \<exists>q. p = pe_field k # q \<and> leaf_path x q)"
proof (induction v and i vs and m arbitrary: p and p and p rule: leaves_item_leaves_field_leaves.induct)
  case (1 l)
  then show ?case by (auto simp: leaf_path_simps)
next
  case (2 m)
  then show ?case by (force simp: leaf_path_simps)
next
  case (5 i v vs)
  show ?case by (auto simp: 5 less_Suc_eq_0_disj)
next
  case (7 k v m)
  show ?case by (auto simp: 7)
qed (auto intro: leaf_path.intros elim: leaf_path.cases)

section \<open>The paths are well-formed\<close>

lemma guess_keys_ok: "value_ok m (VMap fs) \<Longrightarrow> fields_ok m (guess_keys fs names)"
  by (induction names) (auto simp: fields_ok_def value_ok_map_of split: option.splits)

lemma GuessBest_ok: "value_ok m v \<Longrightarrow> pe_ok m (GuessBestListPathElement i v)"
  by (cases v) (simp_all add: GuessBestListPathElement_def Let_def guess_keys_ok)

lemma leaf_path_ok: "leaf_path v p \<Longrightarrow> value_ok m v \<Longrightarrow> path_ok m p"
proof (induction rule: leaf_path.induct)
  case (leaf_item i l p)
  then have "value_ok m (l ! i)" by (auto simp: list_all_length)
  then show ?case using leaf_item.IH GuessBest_ok by simp
next
  case (leaf_field k v fs p)
  then have "value_ok m v" by (auto simp: list_all_iff)
  then show ?case using leaf_field.IH by simp
qed simp

lemma SetFromValue_leaves:
  assumes "value_ok m v"
  shows "Set_wf m (SetFromValue v)"
    and "path_ok m p \<Longrightarrow> Set_Has (SetFromValue v) p \<longleftrightarrow> (\<exists>q. q \<noteq> [] \<and> leaf_path v q \<and> Path_Equals q p)"
proof -
  have ok: "list_all (path_ok m) (filter (\<lambda>q. q \<noteq> []) (leaves v))"
    using leaf_path_ok [OF _ assms] by (auto simp: list_all_iff leaves_iff(1))
  show "Set_wf m (SetFromValue v)" unfolding SetFromValue_NewSet by (rule NewSet_wf [OF ok])
  show "Set_Has (SetFromValue v) p \<longleftrightarrow> (\<exists>q. q \<noteq> [] \<and> leaf_path v q \<and> Path_Equals q p)" if "path_ok m p"
    unfolding SetFromValue_NewSet NewSet_Has [OF ok that] by (auto simp: leaves_iff(1))
qed

end
