(* ===== verification/Allocators.thy ===== *)
theory Allocators
  imports SMD_Prelude
begin

text \<open>
  \<^verbatim>\<open>value/allocator.go\<close>: the freelist allocator of the short-lived objects that wrap values.  Objects live in a heap and are
  known by their addresses; the allocator keeps the addresses of objects that were given back, in one bounded list per kind of
  object.  Clients are a step relation: they allocate, write to objects that they hold, and give back objects that they hold.
\<close>

section \<open>Model\<close>

datatype object_kind =
    valueUnstructured_obj
  | listUnstructuredRange_obj
  | valueReflect_obj
  | mapReflect_obj
  | structReflect_obj
  | listReflect_obj
  | listReflectRange_obj

text \<open>The references of an object: its value (for a range that of the value it reuses), its parent map and key, and its list.\<close>

record 'v object =
  ob_kind :: object_kind
  ob_Value :: "'v option"
  ob_ParentMap :: "'v option"
  ob_ParentMapKey :: "'v option"
  ob_list :: "'v option"

definition new_object :: "object_kind \<Rightarrow> 'v object" where
  "new_object k = \<lparr>ob_kind = k, ob_Value = None, ob_ParentMap = None, ob_ParentMapKey = None, ob_list = None\<rparr>"

type_synonym freelist = "nat list"

record freelistAllocator =
  fl_valueUnstructured :: freelist
  fl_listUnstructuredRange :: freelist
  fl_valueReflect :: freelist
  fl_mapReflect :: freelist
  fl_structReflect :: freelist
  fl_listReflect :: freelist
  fl_listReflectRange :: freelist

definition NewFreelistAllocator :: freelistAllocator where
  "NewFreelistAllocator = \<lparr>fl_valueUnstructured = [], fl_listUnstructuredRange = [], fl_valueReflect = [], fl_mapReflect = [],
     fl_structReflect = [], fl_listReflect = [], fl_listReflectRange = []\<rparr>"

definition freelistMaxSize :: nat where
  "freelistMaxSize = 1000"

text \<open>The heap: the object at an address below the length of the list.\<close>

type_synonym 'v heap = "'v object list"

definition heap_new :: "object_kind \<Rightarrow> 'v heap \<Rightarrow> nat \<times> 'v heap" where
  "heap_new k h = (length h, h @ [new_object k])"

definition freelist_allocate :: "object_kind \<Rightarrow> freelist \<Rightarrow> 'v heap \<Rightarrow> nat \<times> freelist \<times> 'v heap" where
  "freelist_allocate k l h =
     (let n = length l in
      if n > 0 then (l ! (n - 1), take (n - 1) l, h)
      else (case heap_new k h of (a, h') \<Rightarrow> (a, l, h')))"

definition freelist_free :: "freelist \<Rightarrow> nat \<Rightarrow> freelist" where
  "freelist_free l v = (if length l < freelistMaxSize then l @ [v] else l)"

fun get_list :: "object_kind \<Rightarrow> freelistAllocator \<Rightarrow> freelist" where
  "get_list valueUnstructured_obj w = fl_valueUnstructured w"
| "get_list listUnstructuredRange_obj w = fl_listUnstructuredRange w"
| "get_list valueReflect_obj w = fl_valueReflect w"
| "get_list mapReflect_obj w = fl_mapReflect w"
| "get_list structReflect_obj w = fl_structReflect w"
| "get_list listReflect_obj w = fl_listReflect w"
| "get_list listReflectRange_obj w = fl_listReflectRange w"

fun put_list :: "object_kind \<Rightarrow> freelist \<Rightarrow> freelistAllocator \<Rightarrow> freelistAllocator" where
  "put_list valueUnstructured_obj l w = w\<lparr>fl_valueUnstructured := l\<rparr>"
| "put_list listUnstructuredRange_obj l w = w\<lparr>fl_listUnstructuredRange := l\<rparr>"
| "put_list valueReflect_obj l w = w\<lparr>fl_valueReflect := l\<rparr>"
| "put_list mapReflect_obj l w = w\<lparr>fl_mapReflect := l\<rparr>"
| "put_list structReflect_obj l w = w\<lparr>fl_structReflect := l\<rparr>"
| "put_list listReflect_obj l w = w\<lparr>fl_listReflect := l\<rparr>"
| "put_list listReflectRange_obj l w = w\<lparr>fl_listReflectRange := l\<rparr>"

text \<open>The seven \<^verbatim>\<open>alloc\<close> methods of the allocator.\<close>

definition alloc :: "object_kind \<Rightarrow> freelistAllocator \<Rightarrow> 'v heap \<Rightarrow> nat \<times> freelistAllocator \<times> 'v heap" where
  "alloc k w h = (case freelist_allocate k (get_list k w) h of (a, l, h') \<Rightarrow> (a, put_list k l w, h'))"

text \<open>What \<^verbatim>\<open>Free\<close> resets in an object.\<close>

fun release :: "'v object \<Rightarrow> 'v object" where
  "release v =
     (case ob_kind v of
        valueUnstructured_obj \<Rightarrow> v\<lparr>ob_Value := None\<rparr>
      | listUnstructuredRange_obj \<Rightarrow> v\<lparr>ob_Value := None\<rparr>
      | valueReflect_obj \<Rightarrow> v\<lparr>ob_ParentMapKey := None, ob_ParentMap := None\<rparr>
      | mapReflect_obj \<Rightarrow> v
      | structReflect_obj \<Rightarrow> v
      | listReflect_obj \<Rightarrow> v
      | listReflectRange_obj \<Rightarrow> v\<lparr>ob_ParentMapKey := None, ob_ParentMap := None\<rparr>)"

definition allocator_Free :: "nat \<Rightarrow> freelistAllocator \<Rightarrow> 'v heap \<Rightarrow> freelistAllocator \<times> 'v heap" where
  "allocator_Free a w h =
     (let v = h ! a; k = ob_kind v in (put_list k (freelist_free (get_list k w) a) w, h[a := release v]))"

section \<open>Clients\<close>

text \<open>The state: the allocator, the heap, and the addresses that clients hold.\<close>

record 'v alloc_state =
  as_lists :: freelistAllocator
  as_heap :: "'v heap"
  as_live :: "nat set"

inductive alloc_step :: "'v alloc_state \<Rightarrow> 'v alloc_state \<Rightarrow> bool" where
  step_alloc: "alloc k w h = (a, w', h') \<Longrightarrow>
    alloc_step \<lparr>as_lists = w, as_heap = h, as_live = live\<rparr> \<lparr>as_lists = w', as_heap = h', as_live = insert a live\<rparr>"
| step_write: "a \<in> live \<Longrightarrow> ob_kind v = ob_kind (h ! a) \<Longrightarrow>
    alloc_step \<lparr>as_lists = w, as_heap = h, as_live = live\<rparr> \<lparr>as_lists = w, as_heap = h[a := v], as_live = live\<rparr>"
| step_free: "a \<in> live \<Longrightarrow> allocator_Free a w h = (w', h') \<Longrightarrow>
    alloc_step \<lparr>as_lists = w, as_heap = h, as_live = live\<rparr> \<lparr>as_lists = w', as_heap = h', as_live = live - {a}\<rparr>"

definition alloc_init :: "'v alloc_state" where
  "alloc_init = \<lparr>as_lists = NewFreelistAllocator, as_heap = [], as_live = {}\<rparr>"

inductive alloc_reachable :: "'v alloc_state \<Rightarrow> bool" where
  reach_init: "alloc_reachable alloc_init"
| reach_step: "alloc_reachable s \<Longrightarrow> alloc_step s t \<Longrightarrow> alloc_reachable t"

section \<open>Invariant\<close>

text \<open>Every list has objects of its kind, each once, which nobody holds and which have been released.\<close>

definition list_inv :: "'v alloc_state \<Rightarrow> object_kind \<Rightarrow> bool" where
  "list_inv s k \<longleftrightarrow>
     (let l = get_list k (as_lists s) in
      distinct l \<and> length l \<le> freelistMaxSize \<and> set l \<inter> as_live s = {} \<and>
      (\<forall>a \<in> set l. a < length (as_heap s) \<and> ob_kind (as_heap s ! a) = k \<and> release (as_heap s ! a) = as_heap s ! a))"

definition alloc_inv :: "'v alloc_state \<Rightarrow> bool" where
  "alloc_inv s \<longleftrightarrow> (\<forall>k. list_inv s k) \<and> (\<forall>a \<in> as_live s. a < length (as_heap s))"

lemma get_put [simp]: "get_list j (put_list k l w) = (if j = k then l else get_list j w)"
  by (cases k; cases j) simp_all

lemma ob_kind_release [simp]: "ob_kind (release v) = ob_kind v"
  by (simp split: object_kind.splits)

lemma release_release [simp]: "release (release v) = release v"
  by (simp split: object_kind.splits)

declare release.simps [simp del]

lemma take_butlast_last: "l \<noteq> [] \<Longrightarrow> l ! (length l - 1) = last l \<and> take (length l - 1) l = butlast l"
  by (simp add: last_conv_nth butlast_conv_take)

lemma alloc_cases:
  assumes "alloc k w h = (a, w', h')"
  obtains (reuse) l where "get_list k w = l @ [a]" "w' = put_list k l w" "h' = h"
    | (fresh) "get_list k w = []" "w' = put_list k [] w" "h' = h @ [new_object k]" "a = length h"
proof (cases "get_list k w = []")
  case False
  let ?l = "get_list k w"
  have "a = last ?l" "w' = put_list k (butlast ?l) w" "h' = h"
    using assms False take_butlast_last [OF False] by (simp_all add: alloc_def freelist_allocate_def Let_def)
  then show ?thesis using False by (intro reuse [of "butlast ?l"]) simp_all
qed (use assms fresh in \<open>auto simp: alloc_def freelist_allocate_def heap_new_def Let_def\<close>)

text \<open>An allocation returns an object of the kind asked for that nobody holds.\<close>

lemma alloc_not_live:
  assumes inv: "alloc_inv s" and al: "alloc k (as_lists s) (as_heap s) = (a, w', h')"
  shows "a \<notin> as_live s" "a < length h'" "ob_kind (h' ! a) = k" "release (h' ! a) = h' ! a"
proof -
  have k: "list_inv s k" and live: "\<forall>b \<in> as_live s. b < length (as_heap s)" using inv by (auto simp: alloc_inv_def)
  have "a \<notin> as_live s \<and> a < length h' \<and> ob_kind (h' ! a) = k \<and> release (h' ! a) = h' ! a"
    using al
  proof (cases rule: alloc_cases)
    case (reuse l)
    then show ?thesis using k by (auto simp: list_inv_def Let_def)
  next
    case fresh
    then show ?thesis using live by (auto simp: new_object_def release.simps split: object_kind.splits)
  qed
  then show "a \<notin> as_live s" "a < length h'" "ob_kind (h' ! a) = k" "release (h' ! a) = h' ! a" by auto
qed

lemma alloc_inv_step: "alloc_step s t \<Longrightarrow> alloc_inv s \<Longrightarrow> alloc_inv t"
proof (induction rule: alloc_step.induct)
  case (step_alloc k w h a w' h' live)
  let ?s = "\<lparr>as_lists = w, as_heap = h, as_live = live\<rparr>" and ?t = "\<lparr>as_lists = w', as_heap = h', as_live = insert a live\<rparr>"
  have inv: "list_inv ?s j" "b \<in> live \<Longrightarrow> b < length h" for j b using step_alloc.prems by (auto simp: alloc_inv_def)
  from step_alloc.hyps have "list_inv ?t j" for j
  proof (cases rule: alloc_cases)
    case (reuse l)
    have "a \<notin> set (get_list j w)" if "j \<noteq> k"
      using that inv(1) [of j] inv(1) [of k] reuse(1) by (auto simp: list_inv_def Let_def)
    then show ?thesis using inv(1) [of j] inv(1) [of k] reuse by (auto simp: list_inv_def Let_def)
  next
    case fresh
    then show ?thesis using inv(1) [of j] by (auto simp: list_inv_def Let_def nth_append)
  qed
  moreover have "b < length h'" if "b \<in> insert a live" for b
    using that inv(2) [of b] step_alloc.hyps alloc_not_live(2) [of ?s k a w' h'] step_alloc.prems
    by (cases rule: alloc_cases [OF step_alloc.hyps]) auto
  ultimately show ?case by (simp add: alloc_inv_def)
next
  case (step_write a live v h w)
  then have "list_inv \<lparr>as_lists = w, as_heap = h[a := v], as_live = live\<rparr> j" for j
    by (fastforce simp: alloc_inv_def list_inv_def Let_def nth_list_update)
  then show ?case using step_write by (simp add: alloc_inv_def)
next
  case (step_free a live w h w' h')
  let ?s = "\<lparr>as_lists = w, as_heap = h, as_live = live\<rparr>"
  have inv: "list_inv ?s j" "a < length h" for j using step_free by (auto simp: alloc_inv_def)
  have w': "w' = put_list (ob_kind (h ! a)) (freelist_free (get_list (ob_kind (h ! a)) w) a) w" "h' = h[a := release (h ! a)]"
    using step_free.hyps(2) by (auto simp: allocator_Free_def Let_def)
  have "list_inv \<lparr>as_lists = w', as_heap = h', as_live = live - {a}\<rparr> j" for j
    using inv(1) [of j] inv(2) step_free.hyps(1)
    by (auto simp: w' list_inv_def Let_def freelist_free_def nth_list_update)
  then show ?case using step_free.prems by (simp add: alloc_inv_def w')
qed

lemma alloc_reachable_inv: "alloc_reachable s \<Longrightarrow> alloc_inv s"
proof (induction rule: alloc_reachable.induct)
  case reach_init
  have "get_list k NewFreelistAllocator = []" for k by (cases k) (simp_all add: NewFreelistAllocator_def)
  then show ?case by (simp add: alloc_init_def alloc_inv_def list_inv_def)
qed (rule alloc_inv_step)

end
