(* ===== verification/Properties_Reflect.thy ===== *)
theory Properties_Reflect
  imports Properties_Values Reflect_Laws Reflect_Update Reflect_Cache From_Value Allocators
begin

text \<open>
  The properties of the implementations of \<^verbatim>\<open>Value\<close>, of the cache of struct types, of the allocators and of sets made from
  values, each with a concrete instance.
\<close>

section \<open>Unstructured values\<close>

text \<open>C31 (bounds): \<^verbatim>\<open>IsInt\<close> accepts the integer types of all widths but \<^verbatim>\<open>uint64\<close>, and \<^verbatim>\<open>AsInt\<close> panics exactly on what \<^verbatim>\<open>IsInt\<close>
  refuses.  What it returns as an \<^verbatim>\<open>int64\<close> is the number itself when it is below \<open>2\<^sup>6\<^sup>3\<close>; only a \<^verbatim>\<open>uint\<close> can be larger, and is
  then wrapped.\<close>

theorem AsInt_widths:
  "(vu_IsInt v \<longleftrightarrow> go_number v \<noteq> None \<and> (\<forall>i. v \<noteq> GoUint64 i)) \<and>
   (case vu_AsInt v of
      None \<Rightarrow> \<not> vu_IsInt v
    | Some i \<Rightarrow> vu_IsInt v \<and> (\<exists>n. go_number v = Some n \<and> sint i = (if n < 2 ^ 63 then n else n - 2 ^ 64) \<and> (n < 2 ^ 63 \<or> (\<exists>j. v = GoUint j))))"
proof (cases "vu_AsInt v")
  case None
  then show ?thesis using vu_scalars(2) [of v] vu_IsInt_number [of v] by (auto split: if_splits)
next
  case (Some i)
  then have int: "vu_IsInt v" using vu_scalars(2) [of v] by (auto split: if_splits)
  then obtain n where n: "go_number v = Some n" "\<forall>i. v \<noteq> GoUint64 i" using vu_IsInt_number [of v] by blast
  have "n < 2 ^ 63 \<or> (\<exists>j. v = GoUint j)" using go_number_64 [OF n(1)] n(2) by (cases "n < 2 ^ 63") auto
  then show ?thesis using Some int n vu_AsInt_number [OF Some n(1)] vu_IsInt_number [of v] by auto
qed

text \<open>C38 (refinement): on data whose map keys are distinct strings a \<^verbatim>\<open>valueUnstructured\<close> is of exactly one kind (of none if its
  type is not known), and a method \<^verbatim>\<open>As...\<close> returns exactly for values of its kind.  A map, with keys of type \<^verbatim>\<open>string\<close> or of type
  \<^verbatim>\<open>interface{}\<close>, behaves as one finite map: \<^verbatim>\<open>Get\<close>, \<^verbatim>\<open>Has\<close>, \<^verbatim>\<open>Length\<close>, \<^verbatim>\<open>Empty\<close> and \<^verbatim>\<open>Iterate\<close> speak of the same entries,
  \<^verbatim>\<open>Set\<close> and \<^verbatim>\<open>Delete\<close> change the entry of their key and no other.\<close>

theorem Unstructured_view:
  assumes "go_ok v"
  shows "length (filter id [vu_IsNull v, vu_IsBool v, vu_IsInt v, vu_IsFloat v, vu_IsString v, vu_IsList v, vu_IsMap v]) =
      (if v = GoOther \<or> (\<exists>i. v = GoUint64 i) then 0 else 1) \<and>
    (vu_AsBool v \<noteq> None \<longleftrightarrow> vu_IsBool v) \<and> (vu_AsInt v \<noteq> None \<longleftrightarrow> vu_IsInt v) \<and> (vu_AsFloat v \<noteq> None \<longleftrightarrow> vu_IsFloat v) \<and>
    (vu_AsString v \<noteq> None \<longleftrightarrow> vu_IsString v) \<and> (vu_AsListUsing v \<noteq> None \<longleftrightarrow> vu_IsList v) \<and> (vu_AsMapUsing v \<noteq> None \<longleftrightarrow> vu_IsMap v) \<and>
    (\<forall>m. vu_AsMapUsing v = Some m \<longrightarrow>
      distinct (map fst (mu_entries m)) \<and> mu_GetUsing m k = map_of (mu_entries m) k \<and> (mu_Has m k \<longleftrightarrow> mu_GetUsing m k \<noteq> None) \<and>
      mu_Length m = card {j. mu_Has m j} \<and> (mu_Empty m \<longleftrightarrow> (\<forall>j. \<not> mu_Has m j)) \<and>
      mu_IterateUsing m fn s = iterate_until (\<lambda>(j, x). fn j x) (mu_entries m) s \<and>
      mu_GetUsing (mu_Set m k x) j = (if j = k then Some x else mu_GetUsing m j) \<and>
      mu_GetUsing (mu_Delete m k) j = (if j = k then None else mu_GetUsing m j) \<and>
      mu_Length (mu_Set m k x) = (if mu_Has m k then mu_Length m else Suc (mu_Length m)))"
proof -
  have "length (filter id [vu_IsNull v, vu_IsBool v, vu_IsInt v, vu_IsFloat v, vu_IsString v, vu_IsList v, vu_IsMap v]) =
      (if v = GoOther \<or> (\<exists>i. v = GoUint64 i) then 0 else 1)" by (cases v) simp_all
  moreover have ok: "mu_ok m" if "vu_AsMapUsing v = Some m" for m
    using that assms by (cases v) (fastforce simp: list_all_iff)+
  ultimately show ?thesis
    using un.no_panic [OF assms] mu.distinct [OF ok] mu.get [OF ok] mu.has [OF ok] mu.len_keys [OF ok] mu.empty_no_keys [OF ok]
      mu.iter [OF ok, of _ fn s] mu.get_set [OF ok] mu.get_delete [OF ok] mu.len_set [OF ok] by simp
qed

theorem Unstructured_view_witness:
  "mu_Length (mapUnstructuredInterface [(GoString ''a'', GoInt8 (- 1))]) = card {j. mu_Has (mapUnstructuredInterface [(GoString ''a'', GoInt8 (- 1))]) j} \<and>
   mu_GetUsing (mu_Set (mapUnstructuredInterface [(GoString ''a'', GoInt8 (- 1))]) ''b'' GoNil) ''a'' = Some (GoInt8 (- 1))"
  using Unstructured_view [of "GoMapInterface [(GoString ''a'', GoInt8 (- 1))]" "''b''" "\<lambda>_ _ s. (True, s)" "()" GoNil "''a''"]
  by simp

text \<open>C40 (liveness): the loop \<^verbatim>\<open>for r.Next() { r.Item() }\<close> over the range of a list ends without a panic and visits every item once, in
  order, with its index.\<close>

theorem Range_visits_all: "range_loop (RangeUsing l) = Some (map (\<lambda>j. (int j, l ! j)) [0..<length l])"
  by (rule range_loop_Range)

section \<open>Reflected values\<close>

definition ex_user :: "string user_code" where
  "ex_user = \<lparr>MarshalJSON = (\<lambda>_. Inl []), ToUnstructured_method = (\<lambda>_. GoNil), decode_string = (\<lambda>_. Inl []), decode_map = (\<lambda>_. Inl []),
     decode_slice = (\<lambda>_. Inl []), decode_int64 = (\<lambda>_. Inl []), decode_float64 = (\<lambda>_. Inl []), parse_float64 = (\<lambda>_. Inl [])\<rparr>"

abbreviation pair_E :: "string reflect_env" where
  "pair_E \<equiv> pair_reflect ex_user"

lemma pair_no_convert: "\<not> CanConvertToUnstructured (entry_of pair_E t)"
  by (auto simp: pair_reflect_def CanConvertToUnstructured_def no_entry_def new_entry_def no_methods_def Let_def split: option.splits)

lemma pair_reuse: "reuse pair_E (RV TString (DString x), a) = Inr (RV TString (DString x), a)"
  by (simp add: reuse_def pair_no_convert dereference_def kind_def Let_def)

lemma pair_type [simp]: "rv_Type (pair_value x y) = TStruct ''S''"
  by (simp add: pair_value_def)

lemma pair_fields:
  "eachStructField pair_E (pair_value x y, a) = Inr [(''x'', RV TString (DString x), a), (''y'', RV TString (DString y), a)]"
  by (simp add: eachStructField_def struct_fields_of_def pair_reflect_def [of ex_user] pair_entry CanOmit_def GetFrom_def slice_elems_def
      dereference_simps pair_reuse [unfolded pair_reflect_def] pair_value_def Let_def)

lemma pair_string_shows: "rshows pair_E (RV TString (DString x), a) (VString x)"
  by (rule shows_string) (simp add: vr_AsString_def kind_def)

lemma pair_shows: "rshows pair_E (pair_value x y, a) (VMap [(''x'', VString x), (''y'', VString y)])"
  using shows_map [of "(pair_value x y, a)" "structReflect (pair_value x y, a)" pair_E
      "[(''x'', RV TString (DString x), a), (''y'', RV TString (DString y), a)]" "[(''x'', VString x), (''y'', VString y)]"]
  by (simp add: vr_AsMapUsing_def kind_def pair_fields pair_string_shows)

lemma pair_new_entry: "new_entry go_growth pair_env no_methods (TStruct ''S'') = Some (entry_of pair_E (TStruct ''S''))"
  using pair_entry by (simp add: pair_reflect_def)

text \<open>C14 (refinement): a reflected map or struct shows the trees of its entries, and all methods of the map (\<^verbatim>\<open>Get\<close>, \<^verbatim>\<open>Has\<close>, \<^verbatim>\<open>Length\<close>,
  \<^verbatim>\<open>Empty\<close>, \<^verbatim>\<open>Iterate\<close>) speak of the same entries and do not panic.  The fields of a struct are those of its cached type.\<close>

theorem Reflect_map_view:
  assumes "reflect_ok E r" "vr_AsMapUsing r = Some m" "Kind_of (fst r) = Struct_Kind \<Longrightarrow> new_entry grow T M (rv_Type (fst r)) = Some (entry_of E (rv_Type (fst r)))"
    "Kind_of (fst r) = Map_Kind \<Longrightarrow> data_Map (rv_data (fst r)) \<noteq> None"
  shows "\<exists>kvs. reflect_entries E m = Inr kvs \<and> reflected E r = VMap (map (map_prod id (reflected E)) kvs) \<and> distinct (map fst kvs) \<and>
    (\<forall>k. reflect_get E m k = map_option Inr (map_of kvs k) \<and> reflect_has E m k = Some (map_of kvs k \<noteq> None)) \<and>
    reflect_length E m = Some (length kvs) \<and> reflect_empty E m = Some (kvs = []) \<and>
    reflect_iterate E m fn s = Some (iterate_until (\<lambda>(k, v). fn k v) kvs s)"
proof -
  obtain kvs fs where kvs: "reflect_entries E m = Inr kvs" "distinct (map fst kvs)"
    using shows_map_iff [OF reflect_okD [OF assms(1)] assms(2)] by blast
  have m: "m = structReflect r \<and> Kind_of (fst r) = Struct_Kind \<or> m = mapReflect r \<and> Kind_of (fst r) = Map_Kind"
    using assms(2) kind_Kind(1,2) [of "fst r"] by (auto simp: vr_AsMapUsing_def split: option.splits reflectType.splits)
  have "reflect_map_ok E m"
    using m kvs assms(3,4) new_entry_ok by (auto simp: reflect_map_ok_def)
  then show ?thesis
    using kvs reflect_map_methods [OF _ kvs(1)] re.tree(7) [OF assms(1,2)] by (auto simp: reflect_fields_def)
qed

theorem Reflect_map_view_witness:
  "\<exists>kvs. reflect_entries pair_E (structReflect (pair_value ''a'' ''b'', True)) = Inr kvs \<and>
    reflected pair_E (pair_value ''a'' ''b'', True) = VMap (map (map_prod id (reflected pair_E)) kvs) \<and>
    reflect_get pair_E (structReflect (pair_value ''a'' ''b'', True)) ''x'' = map_option Inr (map_of kvs ''x'')"
proof -
  have "reflect_ok pair_E (pair_value ''a'' ''b'', True)" using shows_reflected [OF pair_shows] by blast
  moreover have "vr_AsMapUsing (pair_value ''a'' ''b'', True) = Some (structReflect (pair_value ''a'' ''b'', True))"
    by (simp add: vr_AsMapUsing_def kind_def)
  ultimately show ?thesis
    using Reflect_map_view [of pair_E "(pair_value ''a'' ''b'', True)" "structReflect (pair_value ''a'' ''b'', True)" go_growth pair_env no_methods
        "\<lambda>_ _ u. (True, u)" "()"] pair_new_entry by auto
qed

text \<open>C15 (equivalence): \<^verbatim>\<open>Unstructured\<close> of a reflected value returns, and the copy shows the tree that the value shows.\<close>

theorem Reflect_Unstructured:
  assumes "reflect_ok E r"
  shows "\<exists>u n. (\<forall>d \<ge> n. vr_Unstructured d E r = Some u) \<and> go_ok u \<and> unstructured u = reflected E r"
  using Unstructured_shows [OF reflect_okD [OF assms]] by (auto simp: copies_def)

theorem Reflect_Unstructured_witness:
  "\<exists>u n. (\<forall>d \<ge> n. vr_Unstructured d pair_E (pair_value ''a'' ''b'', True) = Some u) \<and> go_ok u \<and>
    unstructured u = VMap [(''x'', VString ''a''), (''y'', VString ''b'')]"
  using Reflect_Unstructured [of pair_E "(pair_value ''a'' ''b'', True)"] shows_reflected [OF pair_shows [of "''a''" "''b''" True]] by auto

text \<open>Plain data of interfaces, lists and string-keyed maps shows the same tree by reflection as without.\<close>

theorem Reflect_ValueOf:
  assumes "plain u" "go_ok u" "\<not> CanConvertToUnstructured (entry_of E TInterface)"
  shows "reflect_ok E (ValueOf u, a) \<and> reflected E (ValueOf u, a) = unstructured u"
  by (rule shows_reflected [OF ValueOf_shows [OF assms(3,1,2)]])

theorem Reflect_ValueOf_witness:
  "reflected pair_E (ValueOf (GoSlice [GoInt64 1, GoNil, GoMapString [(''k'', GoBool True)]]), True) =
    VList [VInt 1, VNull, VMap [(''k'', VBool True)]]"
  using Reflect_ValueOf [of "GoSlice [GoInt64 1, GoNil, GoMapString [(''k'', GoBool True)]]" pair_E True] pair_no_convert by simp

text \<open>C16 (equivalence): the optimised iteration over two structs of the same type visits exactly what the generic zip visits in the order
  of the keys.\<close>

theorem structZip_equiv:
  assumes "eachStructField E lhs = Inr l" "eachStructField E rhs = Inr m" "rv_Type (fst lhs) = rv_Type (fst rhs)"
    "new_entry grow T M (rv_Type (fst lhs)) = Some (entry_of E (rv_Type (fst lhs)))"
  shows "structZip E lhs rhs fn s = Some (lexicalKeyOrderedMapZip (Some l) (Some m) fn s)"
  by (rule structZip_entries [OF assms(1-3) new_entry_ok [OF assms(4)]])

theorem structZip_equiv_witness:
  "structZip pair_E (pair_value ''a'' ''b'', True) (pair_value ''c'' ''d'', True) (\<lambda>k _ _ ks. (k = ''x'', k # ks)) [] =
    Some (False, [''y'', ''x''])"
proof -
  have "structZip pair_E (pair_value ''a'' ''b'', True) (pair_value ''c'' ''d'', True) (\<lambda>k _ _ ks. (k = ''x'', k # ks)) [] =
    Some (lexicalKeyOrderedMapZip (Some [(''x'', RV TString (DString ''a''), True), (''y'', RV TString (DString ''b''), True)])
      (Some [(''x'', RV TString (DString ''c''), True), (''y'', RV TString (DString ''d''), True)]) (\<lambda>k _ _ ks. (k = ''x'', k # ks)) [])"
    by (rule structZip_equiv [OF pair_fields pair_fields, where grow = go_growth and T = pair_env and M = no_methods]) (simp_all add: pair_new_entry)
  then show ?thesis by (simp add: lexicalKeyOrderedMapZip_def map_Length_def map_keys_def map_Get_def)
qed

section \<open>The cache of struct types\<close>

text \<open>C18 (functional): with the growth of slices of the Go runtime, the cached fields of a struct whose inline structs are nested at
  most two deep are the fields of the struct and of its inline structs, each with its name, its type and its path.\<close>

theorem Struct_fields_correct:
  assumes "buildStructCacheEntry 3 go_growth T t nil_slice ([], []) = Some (st, infos)" "n \<ge> 3"
  shows "buildStructCacheEntry n go_growth T t nil_slice ([], []) = Some (st, infos) \<and> struct_paths 3 T t [] [] = Some (resolve st infos)"
  using struct_entries_correct [OF go_growth_exact assms] by blast

theorem Struct_fields_correct_witness:
  "struct_paths 3 pair_env (TStruct ''S'') [] [] = Some [(''x'', False, [0], TString), (''y'', False, [1], TString)]"
proof -
  let ?f = "\<lambda>n a. \<lparr>JsonName = n, isOmitEmpty = False, fieldPath = \<lparr>s_array = a, s_len = 1, s_cap = 1\<rparr>, fieldType = TString, TypeEntry = None\<rparr>"
  have "buildStructCacheEntry 3 go_growth pair_env (TStruct ''S'') nil_slice ([], []) = Some ([[0], [1]], [(''x'', ?f ''x'' 0), (''y'', ?f ''y'' 1)])"
    by (simp add: eval_nat_numeral NumFields_def pair_env_def nested_tags slice_append_def nil_slice_def slice_elems_def go_growth_def Let_def)
  from Struct_fields_correct [OF this, of 3] show ?thesis by (simp add: resolve_def slice_elems_def)
qed

text \<open>The general statement stops at two levels: with three structs inline in each other, \<^verbatim>\<open>append(fieldPath, field.Index)\<close> writes into an
  array that the path of a sibling field shares, and both fields of the innermost struct get the path of the last one.\<close>

theorem Struct_fields_aliased:
  "struct_paths 5 nested_env (TStruct ''A'') [] [] = Some [(''x'', False, [0, 0, 0, 0], TString), (''y'', False, [0, 0, 0, 1], TString)] \<and>
   map_option (\<lambda>(st, infos). resolve st infos) (buildStructCacheEntry 5 go_growth nested_env (TStruct ''A'') nil_slice ([], [])) =
     Some [(''x'', False, [0, 0, 0, 1], TString), (''y'', False, [0, 0, 0, 1], TString)]"
  using nested_aliased by blast

text \<open>C17 (invariant): \<^verbatim>\<open>TypeReflectEntryOf\<close> returns for every type of a finite set that is closed under the types of fields, and
  keeps a correct cache correct.  The entry it returns is the one that the type itself gives, with the pointer of every field set to the
  entry that the cache has for the type of the field; entries that the cache had before stay as they were.\<close>

theorem Reflect_cache_correct:
  assumes "new = new_entry grow T M" "closed_types new U" "t \<in> U" "card U < n" "cache_correct new (cm, h)"
  shows "\<exists>a cm' h'. TypeReflectEntryOf n new t (cm, h) = Some (a, cm', h') \<and> map_of cm' t = Some a \<and> new t = Some (bare (h' ! a)) \<and>
    (\<forall>f \<in> entry_fields (h' ! a). \<exists>b. TypeEntry f = Some b \<and> map_of cm' (fieldType f) = Some b \<and> new (fieldType f) = Some (bare (h' ! b))) \<and>
    cache_correct new (cm', h') \<and> (\<forall>x b. map_of cm x = Some b \<longrightarrow> map_of cm' x = Some b \<and> h' ! b = h ! b)"
proof -
  obtain a cm' h' where r: "TypeReflectEntryOf n new t (cm, h) = Some (a, cm', h')" "map_of cm' t = Some a" "cache_correct new (cm', h')"
    "\<forall>x b. map_of cm x = Some b \<longrightarrow> map_of cm' x = Some b \<and> h' ! b = h ! b"
    using TypeReflectEntryOf_correct [OF _ assms(2,3,5,4)] new_entries_ok assms(1) by blast
  then show ?thesis using cache_correctD [OF r(3)] by blast
qed

text \<open>A list node that refers to itself.\<close>

definition node_env :: type_env where
  "node_env = \<lparr>struct_names = [''N''], struct_fields = (\<lambda>_. [\<lparr>sf_Name = ''Next'', sf_Tag = ''x'', sf_Type = TPtr (TStruct ''N'')\<rparr>])\<rparr>"

theorem Reflect_cache_correct_witness:
  "\<exists>a cm' h'. TypeReflectEntryOf 3 (new_entry go_growth node_env no_methods) (TStruct ''N'') ([], []) = Some (a, cm', h') \<and>
    (\<exists>f \<in> entry_fields (h' ! a). \<exists>b. TypeEntry f = Some b \<and> map_of cm' (TPtr (TStruct ''N'')) = Some b) \<and>
    cache_correct (new_entry go_growth node_env no_methods) (cm', h')"
proof -
  let ?new = "new_entry go_growth node_env no_methods" and ?U = "{TStruct ''N'', TPtr (TStruct ''N'')}"
  have ptr: "\<exists>e. ?new (TPtr (TStruct ''N'')) = Some e \<and> structFields e = []" by (simp add: new_entry_def)
  have str: "\<exists>e. ?new (TStruct ''N'') = Some e \<and> map (fieldType \<circ> snd) (structFields e) = [TPtr (TStruct ''N'')]"
    by (simp add: new_entry_def eval_nat_numeral NumFields_def node_env_def nested_tags slice_append_def nil_slice_def Let_def)
  have "closed_types ?new ?U" using ptr str by (fastforce simp: closed_types_def)
  moreover have "cache_correct ?new ([], [])" by (simp add: cache_correct_def)
  moreover have "card ?U < 3" by simp
  ultimately obtain a cm' h' where r: "TypeReflectEntryOf 3 ?new (TStruct ''N'') ([], []) = Some (a, cm', h')" "?new (TStruct ''N'') = Some (bare (h' ! a))"
    "\<forall>f \<in> entry_fields (h' ! a). \<exists>b. TypeEntry f = Some b \<and> map_of cm' (fieldType f) = Some b" "cache_correct ?new (cm', h')"
    using Reflect_cache_correct [of ?new go_growth node_env no_methods ?U "TStruct ''N''" 3 "[]" "[]"] by fastforce
  have "map (fieldType \<circ> snd) (structFields (bare (h' ! a))) = [TPtr (TStruct ''N'')]" using str r(2) by auto
  then have "map (fieldType \<circ> snd) (structFields (h' ! a)) = [TPtr (TStruct ''N'')]" by (simp add: bare_def comp_def)
  then have "\<exists>f \<in> entry_fields (h' ! a). fieldType f = TPtr (TStruct ''N'')" by (auto simp: entry_fields_def)
  then show ?thesis using r by metis
qed

section \<open>Writes\<close>

text \<open>\<^verbatim>\<open>Set\<close> on a struct that can be written in place changes the field and keeps the others; on a struct that is an element of a
  map it replaces the struct by a zero one with only the field set, so the other fields are lost.\<close>

theorem Struct_Set_in_map:
  "sr_Set (pair_reflect U) 1 pair_env (pair_value a b, True) None ''x'' (GoString c) = Some (In_Place (pair_value c b)) \<and>
   sr_Set (pair_reflect U) 1 pair_env (pair_value a b, False) (Some (pair_map (pair_value a b), ''k'')) ''x'' (GoString c) =
     Some (In_Parent (pair_map (pair_value c [])))"
  using pair_Set by blast

section \<open>Allocators\<close>

text \<open>C37 (safety): as long as clients write to and give back only objects that they hold, the freelist allocator never hands out an object
  that is held, the object has the kind that was asked for, and no freelist grows beyond its limit.\<close>

theorem Allocator_safe:
  assumes "alloc_reachable s" "alloc k (as_lists s) (as_heap s) = (a, w', h')"
  shows "a \<notin> as_live s \<and> a < length h' \<and> ob_kind (h' ! a) = k \<and> (\<forall>j. length (get_list j (as_lists s)) \<le> freelistMaxSize)"
  using alloc_not_live [OF alloc_reachable_inv [OF assms(1)] assms(2)] alloc_reachable_inv [OF assms(1)]
  by (auto simp: alloc_inv_def list_inv_def Let_def)

theorem Allocator_safe_witness:
  "\<exists>s a w' h'. alloc valueReflect_obj (as_lists s) (as_heap s) = (a, w', h') \<and> as_live s = {0 :: nat} \<and> a \<notin> as_live (s :: nat alloc_state)"
proof -
  let ?w = "put_list valueReflect_obj [] NewFreelistAllocator"
  let ?s = "\<lparr>as_lists = ?w, as_heap = [new_object valueReflect_obj], as_live = {0}\<rparr> :: nat alloc_state"
  have "alloc_step alloc_init ?s"
    unfolding alloc_init_def using step_alloc [of valueReflect_obj NewFreelistAllocator "[]" 0 ?w "[new_object valueReflect_obj]" "{}"]
    by (simp add: alloc_def freelist_allocate_def heap_new_def NewFreelistAllocator_def)
  then have "alloc_reachable ?s" using reach_init reach_step by blast
  moreover obtain a w' h' where al: "alloc valueReflect_obj (as_lists ?s) (as_heap ?s) = (a, w', h')" using prod_cases3 by blast
  ultimately have "a \<notin> as_live ?s" using Allocator_safe [of ?s valueReflect_obj a w' h'] by blast
  then show ?thesis using al by fastforce
qed

section \<open>Sets from values\<close>

text \<open>C39 (functional): \<^verbatim>\<open>SetFromValue\<close> is a well-formed set of exactly the paths from the root to a leaf: field names through maps, and
  for the items of lists the guessed key or the index.\<close>

theorem SetFromValue_correct:
  assumes "value_ok m v" "path_ok m p"
  shows "Set_wf m (SetFromValue v) \<and> (Set_Has (SetFromValue v) p \<longleftrightarrow> (\<exists>q. q \<noteq> [] \<and> leaf_path v q \<and> Path_Equals q p))"
  using SetFromValue_leaves [OF assms(1)] assms(2) by blast

theorem SetFromValue_correct_witness:
  "Set_Has (SetFromValue (VMap [(''l'', VList [VMap [(''name'', VString ''a''), (''v'', VInt 1)]])]))
     [pe_field ''l'', pe_key [(''name'', VString ''a'')], pe_field ''v'']"
proof -
  let ?i = "VMap [(''name'', VString ''a''), (''v'', VInt 1)]"
  let ?p = "[pe_field ''l'', pe_key [(''name'', VString ''a'')], pe_field ''v'']"
  have "GuessBestListPathElement 0 ?i = pe_key [(''name'', VString ''a'')]"
    by (simp add: GuessBestListPathElement_def AssociativeListCandidateFieldNames_def FieldList_Sort_def)
  moreover have "leaf_path (VList [?i]) [GuessBestListPathElement 0 ?i, pe_field ''v'']"
    using leaf_item [of 0 "[?i]" "[pe_field ''v'']"] leaf_field [of "''v''" "VInt 1" "[(''name'', VString ''a''), (''v'', VInt 1)]" "[]"]
      leaf_here [of "VInt 1"] by simp
  ultimately have "leaf_path (VMap [(''l'', VList [?i])]) ?p" using leaf_field [of "''l''" "VList [?i]" "[(''l'', VList [?i])]"] by simp
  moreover have ok: "path_ok No_Floats ?p" "value_ok No_Floats (VMap [(''l'', VList [?i])])" by (simp_all add: fields_ok_def)
  moreover have "Path_Equals ?p ?p" using path.eqv_refl [OF ok(1)] .
  ultimately show ?thesis using SetFromValue_correct [of No_Floats "VMap [(''l'', VList [?i])]" ?p] by blast
qed

end
