(* ===== verification/Printing.thy ===== *)
theory Printing
  imports Compare_Values Managers Decimal
begin

text \<open>
  The methods that print for people: \<^verbatim>\<open>value.ToString\<close>, \<^verbatim>\<open>PathElement.String\<close>, \<^verbatim>\<open>Path.String\<close>, \<^verbatim>\<open>Set.String\<close>, \<^verbatim>\<open>ManagedFields.String\<close>,
  \<^verbatim>\<open>Comparison.String\<close>, \<^verbatim>\<open>Conflict.Error\<close>, \<^verbatim>\<open>Conflicts.Error\<close> and \<^verbatim>\<open>ValidationErrors.Error\<close>.  How package \<^verbatim>\<open>fmt\<close> prints a float, quotes a string (which depends on
  the tables of Unicode) and treats a text as a format is an argument.
\<close>

section \<open>Model\<close>

record go_fmt =
  fmt_float :: "float64 \<Rightarrow> string"
  fmt_quote :: "string \<Rightarrow> string"
  fmt_noargs :: "string \<Rightarrow> string"

fun Join :: "string list \<Rightarrow> string \<Rightarrow> string" where
  "Join [] sep = []"
| "Join [x] sep = x"
| "Join (x # y # xs) sep = x @ sep @ Join (y # xs) sep"

definition show_bool :: "bool \<Rightarrow> string" where
  "show_bool b = (if b then ''true'' else ''false'')"

fun ToString :: "go_fmt \<Rightarrow> Value \<Rightarrow> string" where
  "ToString F VNull = ''null''"
| "ToString F (VFloat f) = fmt_float F f"
| "ToString F (VInt i) = Itoa i"
| "ToString F (VString s) = fmt_quote F s"
| "ToString F (VBool b) = show_bool b"
| "ToString F (VList l) = ''['' @ Join (map (ToString F) l) '','' @ '']''"
| "ToString F (VMap m) = Join (map (\<lambda>(k, v). k @ ''='' @ ToString F v) m) []"
| "ToString F VOther = ''{{undefined}}''"

definition PathElement_String :: "go_fmt \<Rightarrow> PathElement \<Rightarrow> string" where
  "PathElement_String F e =
     (case FieldName e of
        Some n \<Rightarrow> ''.'' @ n
      | None \<Rightarrow> (case Key e of
          Some key \<Rightarrow> ''['' @ Join (map (\<lambda>(name, v). name @ ''='' @ ToString F v) key) '','' @ '']''
        | None \<Rightarrow> (case Value e of
            Some v \<Rightarrow> ''[='' @ ToString F v @ '']''
          | None \<Rightarrow> (case Index e of
              Some i \<Rightarrow> ''['' @ Itoa i @ '']''
            | None \<Rightarrow> ''{{invalid path element}}''))))"

definition Path_String :: "go_fmt \<Rightarrow> Path \<Rightarrow> string" where
  "Path_String F fp = Join (map (PathElement_String F) fp) []"

definition newline :: string where
  "newline = [CHR 0x0A]"

definition Set_String :: "go_fmt \<Rightarrow> FieldSet \<Rightarrow> string" where
  "Set_String F s = Join (Set_Iterate s (\<lambda>p elements. elements @ [Path_String F p]) []) newline"

definition ManagedFields_String :: "go_fmt \<Rightarrow> ManagedFields \<Rightarrow> string" where
  "ManagedFields_String F lhs =
     concat (map (\<lambda>(k, v). k @ '':'' @ newline @
       ''- Applied: '' @ show_bool (applied v) @ newline @
       ''- APIVersion: '' @ apiVersion v @ newline @
       ''- Set: '' @ Set_String F (vset v) @ newline) lhs)"

definition Comparison_String :: "go_fmt \<Rightarrow> Comparison \<Rightarrow> string" where
  "Comparison_String F c =
     (if \<not> Set_Empty (Modified c) then ''- Modified Fields:'' @ newline @ Set_String F (Modified c) @ newline else []) @
     (if \<not> Set_Empty (Added c) then ''- Added Fields:'' @ newline @ Set_String F (Added c) @ newline else []) @
     (if \<not> Set_Empty (Removed c) then ''- Removed Fields:'' @ newline @ Set_String F (Removed c) @ newline else [])"

definition Conflict_Error :: "go_fmt \<Rightarrow> Conflict \<Rightarrow> string" where
  "Conflict_Error F c = ''conflict with '' @ fmt_quote F (Manager c) @ '': '' @ Path_String F (Conflict_Path c)"

text \<open>The Go map from managers to their paths, in the order of the conflicts.\<close>

definition add_conflict :: "Conflict \<Rightarrow> (string \<times> Path list) list \<Rightarrow> (string \<times> Path list) list" where
  "add_conflict c m = AList.update (Manager c) ((case map_of m (Manager c) of None \<Rightarrow> [] | Some ps \<Rightarrow> ps) @ [Conflict_Path c]) m"

definition by_manager :: "Conflicts \<Rightarrow> (string \<times> Path list) list" where
  "by_manager conflicts =
     fold add_conflict conflicts []"

definition Conflicts_Error :: "go_fmt \<Rightarrow> Conflicts \<Rightarrow> string" where
  "Conflicts_Error F conflicts =
     (case conflicts of
        [c] \<Rightarrow> Conflict_Error F c
      | _ \<Rightarrow>
        (let m = by_manager conflicts; managers = sort (map fst m) in
         Join (concat (map (\<lambda>manager.
             (''conflicts with '' @ fmt_quote F manager @ '':'') #
             map (\<lambda>p. ''- '' @ Path_String F p) (case map_of m manager of None \<Rightarrow> [] | Some ps \<Rightarrow> ps)) managers)) newline))"

text \<open>The texts of the messages are the argument \<open>message\<close>.\<close>

definition ValidationError_Error :: "go_fmt \<Rightarrow> (error_message \<Rightarrow> string) \<Rightarrow> ValidationError \<Rightarrow> string" where
  "ValidationError_Error F message ve =
     (let path = Path_String F (Err_Path ve)
      in if length path = 0 then message (ErrorMessage ve) else path @ '': '' @ message (ErrorMessage ve))"

definition ValidationErrors_Error :: "go_fmt \<Rightarrow> (error_message \<Rightarrow> string) \<Rightarrow> ValidationErrors \<Rightarrow> string" where
  "ValidationErrors_Error F message errs =
     (case errs of
        [e] \<Rightarrow> ValidationError_Error F message e
      | _ \<Rightarrow> Join (''errors:'' # map (\<lambda>e. ''  '' @ ValidationError_Error F message e) errs) newline)"

section \<open>Sets\<close>

text \<open>A set prints its paths, one on each line, in the order of the set.\<close>

lemma Set_String_lines: "Set_String F s = Join (map (Path_String F) (Set_paths s)) newline"
  by (simp add: Set_String_def Set_Iterate_fold fold_snoc)

lemma Comparison_String_same: "Comparison_IsSame c \<Longrightarrow> Comparison_String F c = []"
  by (simp add: Comparison_IsSame_def Comparison_String_def)

section \<open>Conflicts\<close>

lemma by_manager_step:
  assumes "distinct (map fst m)"
  shows "distinct (map fst (fold add_conflict cs m)) \<and> map_of (fold add_conflict cs m) k =
      (if k \<in> Manager ` set cs \<or> map_of m k \<noteq> None
       then Some ((case map_of m k of None \<Rightarrow> [] | Some ps \<Rightarrow> ps) @ map Conflict_Path (filter (\<lambda>c. Manager c = k) cs)) else None)"
  using assms
proof (induction cs arbitrary: m)
  case (Cons c cs)
  have "distinct (map fst (add_conflict c m))" unfolding add_conflict_def using Cons.prems by (rule distinct_update)
  from Cons.IH [OF this] show ?case by (auto simp: add_conflict_def update_conv' split: option.splits)
qed (auto split: option.splits)

lemma by_manager_keys:
  "distinct (map fst (by_manager cs))" "fst ` set (by_manager cs) = Manager ` set cs"
  "k \<in> Manager ` set cs \<Longrightarrow> map_of (by_manager cs) k = Some (map Conflict_Path (filter (\<lambda>c. Manager c = k) cs))"
proof -
  show "distinct (map fst (by_manager cs))" using by_manager_step [of "[]" cs] by (simp add: by_manager_def)
  have get: "map_of (by_manager cs) k = (if k \<in> Manager ` set cs then Some (map Conflict_Path (filter (\<lambda>c. Manager c = k) cs)) else None)" for k
    using by_manager_step [of "[]" cs k] by (simp add: by_manager_def)
  then have "map_of (by_manager cs) k \<noteq> None \<longleftrightarrow> k \<in> Manager ` set cs" for k by simp
  then show "fst ` set (by_manager cs) = Manager ` set cs" by (metis (no_types, lifting) map_of_eq_None_iff set_eqI)
  show "map_of (by_manager cs) k = Some (map Conflict_Path (filter (\<lambda>c. Manager c = k) cs))" if "k \<in> Manager ` set cs"
    using get that by simp
qed

text \<open>The message has every manager once, in order, followed by its paths in the order of the conflicts.\<close>

definition grouped_messages :: "go_fmt \<Rightarrow> Conflicts \<Rightarrow> string list" where
  "grouped_messages F cs =
     concat (map (\<lambda>manager. (''conflicts with '' @ fmt_quote F manager @ '':'') #
       map (\<lambda>p. ''- '' @ Path_String F p) (map Conflict_Path (filter (\<lambda>c. Manager c = manager) cs))) (sorted_list_of_set (Manager ` set cs)))"

lemma Conflicts_Error_grouped:
  assumes "length cs \<noteq> 1"
  shows "Conflicts_Error F cs = Join (grouped_messages F cs) newline"
proof -
  have managers: "sort (map fst (by_manager cs)) = sorted_list_of_set (Manager ` set cs)"
    using by_manager_keys(1,2) [of cs] by (metis list.set_map sorted_list_of_set_sort_remdups distinct_remdups_id)
  have lines: "(case map_of (by_manager cs) k of None \<Rightarrow> [] | Some ps \<Rightarrow> ps) = map Conflict_Path (filter (\<lambda>c. Manager c = k) cs)"
    if "k \<in> Manager ` set cs" for k
    using by_manager_keys(3) [OF that] by simp
  have "Conflicts_Error F cs = Join (concat (map (\<lambda>k. (''conflicts with '' @ fmt_quote F k @ '':'') #
      map (\<lambda>p. ''- '' @ Path_String F p) (case map_of (by_manager cs) k of None \<Rightarrow> [] | Some ps \<Rightarrow> ps)) (sorted_list_of_set (Manager ` set cs)))) newline"
    using assms unfolding managers [symmetric] by (auto simp: Conflicts_Error_def Let_def split: list.splits)
  also have "\<dots> = Join (grouped_messages F cs) newline"
    unfolding grouped_messages_def by (intro arg_cong2 [where f = Join] arg_cong [where f = concat] map_cong refl) (simp add: lines)
  finally show ?thesis .
qed

end
