(* ===== verification/Command_Line.thy ===== *)
theory Command_Line
  imports Parsing Printing Serialization
begin

text \<open>
  \<^verbatim>\<open>internal/cli/options.go\<close>, \<^verbatim>\<open>internal/cli/operation.go\<close> and \<^verbatim>\<open>smd/main.go\<close>: the command line program.  Files and the standard output
  are a state; reading a file that does not exist fails, and so does a write when the device is full.  The YAML and JSON
  libraries, and the parsing of the flags' values, are arguments.
\<close>

section \<open>Files\<close>

record os =
  files :: "string \<rightharpoonup> string"
  creatable :: "string \<Rightarrow> bool"
  stdout :: string
  device_full :: bool

datatype 'y cli_error =
    Schema_Required
  | Unreadable_Schema string
  | Bad_Schema string "'y parse_error"
  | No_Types
  | ErrTooManyOperations
  | ErrNeedTwoArgs
  | No_Operation
  | Unwritable_Output string
  | Unreadable_File string
  | Bad_File string "'y parse_error"
  | Bad_Empty_Object "'y parse_error"
  | Merge_Failed ValidationErrors
  | Compare_Failed ValidationErrors
  | Encode_Failed
  | Write_Failed

datatype writer = Stdout | File string

definition write_to :: "writer \<Rightarrow> string \<Rightarrow> os \<Rightarrow> os \<times> 'y cli_error option" where
  "write_to w x s =
     (if device_full s then (s, Some Write_Failed)
      else case w of
        Stdout \<Rightarrow> (s\<lparr>stdout := stdout s @ x\<rparr>, None)
      | File name \<Rightarrow> (s\<lparr>files := (files s)(name \<mapsto> (case files s name of None \<Rightarrow> [] | Some old \<Rightarrow> old) @ x)\<rparr>, None))"

text \<open>The libraries: YAML into values and into schemas, values into YAML, JSON, and package \<^verbatim>\<open>fmt\<close>; \<open>flushed\<close> is what the JSON
  stream has already passed on when the encoding of a set fails.\<close>

record ('i, 'e, 'y) cli_libs =
  yaml_value :: "YAMLObject \<Rightarrow> 'y + Value"
  yaml_schema :: "YAMLObject \<Rightarrow> TypeDef list \<times> 'y option"
  ToYAML :: "Value option \<Rightarrow> string option"
  json :: "('i, 'e) json_lib"
  flushed :: "FieldSet \<Rightarrow> string"
  cli_fmt :: go_fmt

section \<open>Options\<close>

record Options =
  schemaPath :: string
  typeName :: string
  opt_output :: string
  opt_listTypes :: bool
  validatePath :: string
  opt_merge :: bool
  opt_compare :: bool
  opt_fieldset :: string
  lhsPath :: string
  rhsPath :: string

text \<open>\<^verbatim>\<open>AddFlags\<close>: the defaults, and the field that a flag sets; \<open>None\<close> is an unknown flag or a value of the wrong kind.\<close>

definition Options_default :: Options where
  "Options_default = \<lparr>schemaPath = [], typeName = [], opt_output = ''-'', opt_listTypes = False, validatePath = [], opt_merge = False,
     opt_compare = False, opt_fieldset = [], lhsPath = [], rhsPath = []\<rparr>"

datatype flag_value = StringFlag string | BoolFlag bool

definition set_flag :: "string \<Rightarrow> flag_value \<Rightarrow> Options \<Rightarrow> Options option" where
  "set_flag name v opts =
     (case v of
        StringFlag x \<Rightarrow>
          if name = ''schema'' then Some (opts\<lparr>schemaPath := x\<rparr>)
          else if name = ''type-name'' then Some (opts\<lparr>typeName := x\<rparr>)
          else if name = ''output'' then Some (opts\<lparr>opt_output := x\<rparr>)
          else if name = ''validate'' then Some (opts\<lparr>validatePath := x\<rparr>)
          else if name = ''fieldset'' then Some (opts\<lparr>opt_fieldset := x\<rparr>)
          else if name = ''lhs'' then Some (opts\<lparr>lhsPath := x\<rparr>)
          else if name = ''rhs'' then Some (opts\<lparr>rhsPath := x\<rparr>)
          else None
      | BoolFlag b \<Rightarrow>
          if name = ''list-types'' then Some (opts\<lparr>opt_listTypes := b\<rparr>)
          else if name = ''merge'' then Some (opts\<lparr>opt_merge := b\<rparr>)
          else if name = ''compare'' then Some (opts\<lparr>opt_compare := b\<rparr>)
          else None)"

record operationBase =
  base_parser :: Parser
  base_typeName :: string

datatype cli_operation =
    Cli_ListTypes operationBase
  | Cli_Validation operationBase string
  | Cli_Merge operationBase string string
  | Cli_Compare operationBase string string
  | Cli_Fieldset operationBase string

definition count_true :: "bool \<Rightarrow> nat" where
  "count_true b = (if b then 1 else 0)"

definition Options_Resolve :: "('i, 'e, 'y) cli_libs \<Rightarrow> nat \<Rightarrow> nat \<Rightarrow> os \<Rightarrow> Options \<Rightarrow> 'y cli_error + cli_operation" where
  "Options_Resolve L ss_addr addr s opts =
     (if schemaPath opts = [] then Inl Schema_Required
      else case files s (schemaPath opts) of
        None \<Rightarrow> Inl (Unreadable_Schema (schemaPath opts))
      | Some b \<Rightarrow> (case NewParser (yaml_value L) (yaml_schema L) ss_addr addr b of
          Inl err \<Rightarrow> Inl (Bad_Schema (schemaPath opts) err)
        | Inr parser \<Rightarrow>
            if typeName opts = [] \<and> length (schema_types (Parser_Schema parser)) = 0 then Inl No_Types
            else
              let base = \<lparr>base_parser = parser,
                    base_typeName = (if typeName opts = [] then fst (hd (schema_types (Parser_Schema parser))) else typeName opts)\<rparr>;
                  count = count_true (opt_merge opts) + count_true (opt_compare opts) + count_true (validatePath opts \<noteq> []) +
                    count_true (opt_listTypes opts) + count_true (opt_fieldset opts \<noteq> [])
              in if count > 1 then Inl ErrTooManyOperations
                 else if opt_listTypes opts then Inr (Cli_ListTypes base)
                 else if validatePath opts \<noteq> [] then Inr (Cli_Validation base (validatePath opts))
                 else if opt_merge opts then
                   (if lhsPath opts = [] \<or> rhsPath opts = [] then Inl ErrNeedTwoArgs else Inr (Cli_Merge base (lhsPath opts) (rhsPath opts)))
                 else if opt_compare opts then
                   (if lhsPath opts = [] \<or> rhsPath opts = [] then Inl ErrNeedTwoArgs else Inr (Cli_Compare base (lhsPath opts) (rhsPath opts)))
                 else if opt_fieldset opts \<noteq> [] then Inr (Cli_Fieldset base (opt_fieldset opts))
                 else Inl No_Operation))"

text \<open>\<^verbatim>\<open>os.Create\<close> truncates a file that exists.\<close>

definition OpenOutput :: "Options \<Rightarrow> os \<Rightarrow> os \<times> ('y cli_error + writer)" where
  "OpenOutput opts s =
     (if opt_output opts = ''-'' then (s, Inr Stdout)
      else if creatable s (opt_output opts) then (s\<lparr>files := (files s)(opt_output opts \<mapsto> [])\<rparr>, Inr (File (opt_output opts)))
      else (s, Inl (Unwritable_Output (opt_output opts))))"

section \<open>Operations\<close>

definition parseFile :: "('i, 'e, 'y) cli_libs \<Rightarrow> operationBase \<Rightarrow> os \<Rightarrow> string \<Rightarrow> 'y cli_error + TypedValue" where
  "parseFile L b s path =
     (case files s path of
        None \<Rightarrow> Inl (Unreadable_File path)
      | Some bytes \<Rightarrow> (case FromYAML (yaml_value L) (Parser_Type (base_parser b) (base_typeName b)) bytes [] of
          Inl err \<Rightarrow> Inl (Bad_File path err)
        | Inr tv \<Rightarrow> Inr tv))"

definition validation_Execute :: "('i, 'e, 'y) cli_libs \<Rightarrow> operationBase \<Rightarrow> string \<Rightarrow> os \<Rightarrow> os \<times> 'y cli_error option" where
  "validation_Execute L b fileToValidate s =
     (case parseFile L b s fileToValidate of Inl err \<Rightarrow> (s, Some err) | Inr _ \<Rightarrow> (s, None))"

definition fieldset_Execute :: "('i, 'e, 'y) cli_libs \<Rightarrow> operationBase \<Rightarrow> string \<Rightarrow> writer \<Rightarrow> os \<Rightarrow> os \<times> 'y cli_error option" where
  "fieldset_Execute L b fileToUse w s =
     (case parseFile L b s fileToUse of
        Inl err \<Rightarrow> (s, Some err)
      | Inr tv \<Rightarrow> (case FromYAML (yaml_value L) (Parser_Type (base_parser b) (base_typeName b)) ''{}'' [] of
          Inl err \<Rightarrow> (s, Some (Bad_Empty_Object err))
        | Inr emptyObj \<Rightarrow> (case TypedValue_Compare emptyObj tv of
            Inl errs \<Rightarrow> (s, Some (Compare_Failed errs))
          | Inr c \<Rightarrow> (case ToJSONStream (json L) (Added c) of
              Inl err \<Rightarrow> (fst (write_to w (flushed L (Added c)) s :: os \<times> 'y cli_error option), Some Encode_Failed)
            | Inr x \<Rightarrow> write_to w x s))))"

text \<open>Errors of the writes are dropped.\<close>

definition listTypes_Execute :: "operationBase \<Rightarrow> writer \<Rightarrow> os \<Rightarrow> os \<times> 'y cli_error option" where
  "listTypes_Execute b w s =
     (fold (\<lambda>td s. fst (write_to w (fst td @ newline) s :: os \<times> 'y cli_error option)) (schema_types (Parser_Schema (base_parser b))) s, None)"

definition merge_Execute :: "('i, 'e, 'y) cli_libs \<Rightarrow> operationBase \<Rightarrow> string \<Rightarrow> string \<Rightarrow> writer \<Rightarrow> os \<Rightarrow> os \<times> 'y cli_error option" where
  "merge_Execute L b lhs rhs w s =
     (case parseFile L b s lhs of
        Inl err \<Rightarrow> (s, Some err)
      | Inr l \<Rightarrow> (case parseFile L b s rhs of
          Inl err \<Rightarrow> (s, Some err)
        | Inr r \<Rightarrow> (case TypedValue_Merge l r of
            Inl errs \<Rightarrow> (s, Some (Merge_Failed errs))
          | Inr out \<Rightarrow> (case ToYAML L (tv_value out) of
              None \<Rightarrow> (s, Some Encode_Failed)
            | Some yaml \<Rightarrow> write_to w yaml s))))"

text \<open>The text of the comparison is the format of \<^verbatim>\<open>Fprintf\<close>.\<close>

definition compare_Execute :: "('i, 'e, 'y) cli_libs \<Rightarrow> operationBase \<Rightarrow> string \<Rightarrow> string \<Rightarrow> writer \<Rightarrow> os \<Rightarrow> os \<times> 'y cli_error option" where
  "compare_Execute L b lhs rhs w s =
     (case parseFile L b s lhs of
        Inl err \<Rightarrow> (s, Some err)
      | Inr l \<Rightarrow> (case parseFile L b s rhs of
          Inl err \<Rightarrow> (s, Some err)
        | Inr r \<Rightarrow> (case TypedValue_Compare l r of
            Inl errs \<Rightarrow> (s, Some (Compare_Failed errs))
          | Inr got \<Rightarrow>
              if Comparison_IsSame got then write_to w ''No difference'' s
              else write_to w (fmt_noargs (cli_fmt L) (Comparison_String (cli_fmt L) got)) s)))"

fun Execute :: "('i, 'e, 'y) cli_libs \<Rightarrow> cli_operation \<Rightarrow> writer \<Rightarrow> os \<Rightarrow> os \<times> 'y cli_error option" where
  "Execute L (Cli_ListTypes b) w s = listTypes_Execute b w s"
| "Execute L (Cli_Validation b f) w s = validation_Execute L b f s"
| "Execute L (Cli_Merge b l r) w s = merge_Execute L b l r w s"
| "Execute L (Cli_Compare b l r) w s = compare_Execute L b l r w s"
| "Execute L (Cli_Fieldset b f) w s = fieldset_Execute L b f w s"

text \<open>\<^verbatim>\<open>main\<close> after the flags are parsed; the output is opened before the operation reads its files.\<close>

definition main :: "('i, 'e, 'y) cli_libs \<Rightarrow> nat \<Rightarrow> nat \<Rightarrow> Options \<Rightarrow> os \<Rightarrow> os \<times> 'y cli_error option" where
  "main L ss_addr addr opts s =
     (case Options_Resolve L ss_addr addr s opts of
        Inl err \<Rightarrow> (s, Some err)
      | Inr op \<Rightarrow> (case OpenOutput opts s of
          (s', Inl err) \<Rightarrow> (s', Some err)
        | (s', Inr out) \<Rightarrow> Execute L op out s'))"

end
