(* ===== verification/Properties_Cli.thy ===== *)
theory Properties_Cli
  imports Properties_Reflect Command_Line
begin

text \<open>
  The properties of the command line program and of the messages, each with a concrete instance.
\<close>

section \<open>Options\<close>

text \<open>The operations that the options ask for, and the one that an operation is.\<close>

definition requested :: "Options \<Rightarrow> string set" where
  "requested opts =
     set ((if opt_merge opts then [''merge''] else []) @ (if opt_compare opts then [''compare''] else []) @
       (if validatePath opts \<noteq> [] then [''validate''] else []) @ (if opt_listTypes opts then [''list-types''] else []) @
       (if opt_fieldset opts \<noteq> [] then [''fieldset''] else []))"

fun operation_name :: "cli_operation \<Rightarrow> string" where
  "operation_name (Cli_ListTypes b) = ''list-types''"
| "operation_name (Cli_Validation b f) = ''validate''"
| "operation_name (Cli_Merge b l r) = ''merge''"
| "operation_name (Cli_Compare b l r) = ''compare''"
| "operation_name (Cli_Fieldset b f) = ''fieldset''"

lemma card_requested:
  "card (requested opts) = count_true (opt_merge opts) + count_true (opt_compare opts) + count_true (validatePath opts \<noteq> []) +
     count_true (opt_listTypes opts) + count_true (opt_fieldset opts \<noteq> [])"
  by (simp add: requested_def count_true_def)

text \<open>C35 (error): with a schema that is read and has a type to use, \<^verbatim>\<open>Resolve\<close> fails with too many operations exactly when more than one
  is asked for and with none exactly when none is; it succeeds exactly when one is asked for and \<^verbatim>\<open>--merge\<close> and \<^verbatim>\<open>--compare\<close> have both files,
  and the operation is then the one asked for.\<close>

theorem Resolve_operation:
  assumes "schemaPath opts \<noteq> []" "files s (schemaPath opts) = Some b"
    "NewParser (yaml_value L) (yaml_schema L) ss_addr addr b = Inr parser"
    "typeName opts \<noteq> [] \<or> schema_types (Parser_Schema parser) \<noteq> []"
  shows "(Options_Resolve L ss_addr addr s opts = Inl ErrTooManyOperations \<longleftrightarrow> 1 < card (requested opts)) \<and>
    (Options_Resolve L ss_addr addr s opts = Inl No_Operation \<longleftrightarrow> requested opts = {}) \<and>
    ((\<exists>op. Options_Resolve L ss_addr addr s opts = Inr op) \<longleftrightarrow>
      card (requested opts) = 1 \<and> (requested opts \<subseteq> {''merge'', ''compare''} \<longrightarrow> lhsPath opts \<noteq> [] \<and> rhsPath opts \<noteq> [])) \<and>
    (\<forall>op. Options_Resolve L ss_addr addr s opts = Inr op \<longrightarrow> requested opts = {operation_name op})"
proof -
  have none: "requested opts = {} \<longleftrightarrow> card (requested opts) = 0" by (simp add: requested_def)
  show ?thesis
    using assms unfolding none card_requested
    by (auto simp: Options_Resolve_def Let_def requested_def count_true_def)
qed

section \<open>A concrete run\<close>

text \<open>A schema with one type, its text as a YAML decoder reads it, and a file.\<close>

definition ex_cli_types :: "TypeDef list" where
  "ex_cli_types = [(''config'', MkAtom None None (Some (MkMap [MkField ''name'' ex_string VNull] [] TypeRef_zero [])))]"

definition ex_cli_schema_document :: Value where
  "ex_cli_schema_document =
     VMap [(''types'', VList [VMap [(''name'', VString ''config''),
       (''map'', VMap [(''fields'', VList [VMap [(''name'', VString ''name''), (''type'', VMap [(''scalar'', VString ''string'')])]])])]])]"

definition ex_cli_value :: Value where
  "ex_cli_value = VMap [(''name'', VString ''web'')]"

definition ex_libs :: "(unit, unit, unit) cli_libs" where
  "ex_libs = \<lparr>yaml_value = (\<lambda>x. if x = ''S'' then Inr ex_cli_schema_document else if x = ''F'' then Inr ex_cli_value else Inl ()),
     yaml_schema = (\<lambda>x. if x = ''S'' then (ex_cli_types, None) else ([], Some ())),
     ToYAML = (\<lambda>v. if v = Some ex_cli_value then Some ''F'' else None),
     json = \<lparr>render = (\<lambda>_. Inl ()), iterate = (\<lambda>_. ()), Read = (\<lambda>_. (VNull, ())), Skip = id, map_first = (\<lambda>_. (None, ())),
       map_next = (\<lambda>_. (None, ())), iter_Error = (\<lambda>_. None), ReportError = (\<lambda>_ _. ()), is_EOF = (\<lambda>_. True)\<rparr>,
     flushed = (\<lambda>_. []), cli_fmt = \<lparr>fmt_float = (\<lambda>_. []), fmt_quote = id, fmt_noargs = id\<rparr>\<rparr>"

definition ex_os :: os where
  "ex_os = \<lparr>files = [''schema.yaml'' \<mapsto> ''S'', ''f.yaml'' \<mapsto> ''F''], creatable = (\<lambda>_. True), stdout = [], device_full = False\<rparr>"

definition ex_options :: Options where
  "ex_options = Options_default\<lparr>schemaPath := ''schema.yaml'', typeName := ''config''\<rparr>"

definition ex_parser :: Parser where
  "ex_parser = \<lparr>Parser_Schema = \<lparr>schema_address = 1, schema_types = ex_cli_types\<rparr>\<rparr>"

lemma ex_NewParser: "NewParser (yaml_value ex_libs) (yaml_schema ex_libs) 0 1 ''S'' = Inr ex_parser"
  by code_simp

lemma ex_options_sel [simp]:
  "schemaPath ex_options = ''schema.yaml''" "typeName ex_options = ''config''" "files ex_os ''schema.yaml'' = Some ''S''"
  "files ex_os ''f.yaml'' = Some ''F''" "\<not> device_full ex_os" "stdout ex_os = []"
  by (simp_all add: ex_options_def Options_default_def ex_os_def)

theorem Resolve_operation_witness:
  "Options_Resolve ex_libs 0 1 ex_os ex_options = Inl No_Operation \<and>
   Options_Resolve ex_libs 0 1 ex_os (ex_options\<lparr>opt_merge := True, opt_compare := True\<rparr>) = Inl ErrTooManyOperations \<and>
   (\<exists>op. Options_Resolve ex_libs 0 1 ex_os (ex_options\<lparr>opt_fieldset := ''f.yaml''\<rparr>) = Inr op)"
  using Resolve_operation [of ex_options ex_os "''S''" ex_libs 0 1 ex_parser]
    Resolve_operation [of "ex_options\<lparr>opt_merge := True, opt_compare := True\<rparr>" ex_os "''S''" ex_libs 0 1 ex_parser]
    Resolve_operation [of "ex_options\<lparr>opt_fieldset := ''f.yaml''\<rparr>" ex_os "''S''" ex_libs 0 1 ex_parser] ex_NewParser
  by (simp add: requested_def ex_options_def Options_default_def)

section \<open>Files\<close>

text \<open>A step that writes only to \<open>w\<close>.\<close>

definition writes_only :: "writer \<Rightarrow> os \<Rightarrow> os \<Rightarrow> bool" where
  "writes_only w s s' \<longleftrightarrow> (\<forall>name. w \<noteq> File name \<longrightarrow> files s' name = files s name) \<and> (w \<noteq> Stdout \<longrightarrow> stdout s' = stdout s) \<and>
     (\<exists>x. stdout s' = stdout s @ x)"

lemma writes_only_refl [simp]: "writes_only w s s"
  by (simp add: writes_only_def)

lemma writes_only_trans: "writes_only w s s' \<Longrightarrow> writes_only w s' s'' \<Longrightarrow> writes_only w s s''"
  by (auto simp: writes_only_def)

lemma write_to_only [simp]: "writes_only w s (fst (write_to w x s))"
  by (auto simp: write_to_def writes_only_def split: writer.splits)

lemma listTypes_only: "writes_only w s (fst (listTypes_Execute b w s))"
proof -
  have "writes_only w s (fold (\<lambda>td s. fst (write_to w (fst td @ newline) s)) tds s)" for tds
    by (induction tds arbitrary: s) (auto intro: writes_only_trans [OF write_to_only])
  then show ?thesis by (simp add: listTypes_Execute_def)
qed

lemma Execute_only: "writes_only w s (fst (Execute L op w s))"
  by (cases op) (auto simp: listTypes_only validation_Execute_def merge_Execute_def compare_Execute_def fieldset_Execute_def
      split: sum.splits option.splits)

text \<open>C34 (safety): the program changes no file but the output, and standard output only by what it adds to it and only when that is the
  output; when the options are refused it changes nothing.\<close>

theorem main_writes_only_output:
  assumes "main L ss_addr addr opts s = (s', err)"
  shows "(\<forall>name. name \<noteq> opt_output opts \<or> opt_output opts = ''-'' \<longrightarrow> files s' name = files s name) \<and>
    (\<exists>x. stdout s' = stdout s @ x) \<and> (opt_output opts \<noteq> ''-'' \<longrightarrow> stdout s' = stdout s) \<and>
    (isl (Options_Resolve L ss_addr addr s opts) \<longrightarrow> s' = s)"
proof (cases "Options_Resolve L ss_addr addr s opts")
  case (Inr op)
  consider (refused) e where "OpenOutput opts s = (s, Inl e)" "opt_output opts \<noteq> ''-''" "s' = s"
    | (std) "opt_output opts = ''-''" "s' = fst (Execute L op Stdout s)"
    | (created) "opt_output opts \<noteq> ''-''"
        "s' = fst (Execute L op (File (opt_output opts)) (s\<lparr>files := (files s)(opt_output opts \<mapsto> [])\<rparr>))"
    using assms Inr by (fastforce simp: main_def OpenOutput_def split: if_splits)
  then show ?thesis
    using Inr Execute_only [of Stdout s L op]
      Execute_only [of "File (opt_output opts)" "s\<lparr>files := (files s)(opt_output opts \<mapsto> [])\<rparr>" L op]
    by cases (auto simp: writes_only_def)
qed (use assms in \<open>auto simp: main_def\<close>)

theorem main_writes_only_output_witness:
  "\<exists>s' err. main ex_libs 0 1 (ex_options\<lparr>opt_listTypes := True, opt_output := ''out''\<rparr>) ex_os = (s', err) \<and>
     files s' ''out'' = Some (''config'' @ newline) \<and> files s' ''f.yaml'' = Some ''F'' \<and> stdout s' = []"
proof -
  let ?o = "ex_options\<lparr>opt_listTypes := True, opt_output := ''out''\<rparr>"
  obtain s' err where r: "main ex_libs 0 1 ?o ex_os = (s', err)" by (cases "main ex_libs 0 1 ?o ex_os")
  have "files (fst (main ex_libs 0 1 ?o ex_os)) ''out'' = Some (''config'' @ newline)" by code_simp
  moreover have "files s' ''f.yaml'' = Some ''F''" "stdout s' = []" using main_writes_only_output [OF r] by simp_all
  ultimately show ?thesis using r by simp
qed

text \<open>The output is created before the files are read: an input that is also the output is lost.\<close>

lemma main_truncates_input:
  "let r = main ex_libs 0 1 (ex_options\<lparr>opt_merge := True, lhsPath := ''f.yaml'', rhsPath := ''f.yaml'', opt_output := ''f.yaml''\<rparr>) ex_os
   in files (fst r) ''f.yaml'' = Some [] \<and> snd r = Some (Bad_File ''f.yaml'' (Bad_YAML ()))"
  by code_simp

section \<open>A file and itself\<close>

text \<open>What \<^verbatim>\<open>--validate\<close> accepts is read by the other operations.\<close>

lemma validate_reads:
  assumes "main L ss_addr addr (Options_default\<lparr>schemaPath := sp, typeName := t, validatePath := f\<rparr>) s = (s, None)" "f \<noteq> []" "t \<noteq> []"
  obtains b parser tv where "sp \<noteq> []" "files s sp = Some b" "NewParser (yaml_value L) (yaml_schema L) ss_addr addr b = Inr parser"
    "parseFile L \<lparr>base_parser = parser, base_typeName = t\<rparr> s f = Inr tv"
  using assms
  by (auto simp: main_def Options_Resolve_def Options_default_def OpenOutput_def validation_Execute_def Let_def count_true_def
      split: if_splits option.splits sum.splits)

lemma parseFile_value:
  assumes "parseFile L b s f = Inr tv" "files s f = Some doc" "yaml_value L doc = Inr v"
  shows "tv = AsTypedUnvalidated (Some v) (Parser_Schema (base_parser b)) (MkTypeRef (Some (base_typeName b)) Atom_zero None)"
  using assms by (auto simp: parseFile_def FromYAML_def Parser_Type_def AsTyped_def AsTypedUnvalidated_def Let_def split: if_splits sum.splits option.splits)

lemma same_file_typed:
  assumes "tv = AsTypedUnvalidated (Some v) sch (MkTypeRef (Some t) Atom_zero None)"
    and "Schema_ok m (schema_types sch)" "value_ok m v" "mergeable (schema_types sch) False (MkTypeRef (Some t) Atom_zero None) v"
  shows "TypedValue_Merge tv tv = Inr tv" "TypedValue_Compare tv tv = Inr Comparison_empty" "tv_value tv = Some v"
proof -
  have ok: "TypedValue_ok m tv" "tv_value tv = Some v" "TypeRef_Equals (tv_typeRef tv) (tv_typeRef tv)"
    "mergeable (schema_types (tv_schema tv)) False (tv_typeRef tv) v"
    using assms by (simp_all add: AsTypedUnvalidated_def TypedValue_ok_def Atom_zero_def)
  show "TypedValue_Merge tv tv = Inr tv" using ok by (intro Merge_same)
  show "TypedValue_Compare tv tv = Inr Comparison_empty" using ok by (intro Compare_self mergeable_mono)
  show "tv_value tv = Some v" by (rule ok)
qed

text \<open>C33 (functional): a file that \<^verbatim>\<open>--validate\<close> accepts, with lists that are atomic or associative without duplicates, merged with
  itself is printed as the YAML of its value, and compared with itself gives ``No difference''.\<close>

theorem same_file:
  assumes "main L ss_addr addr (Options_default\<lparr>schemaPath := sp, typeName := t, validatePath := f\<rparr>) s = (s, None)" "f \<noteq> []" "t \<noteq> []"
    and "files s sp = Some b" "NewParser (yaml_value L) (yaml_schema L) ss_addr addr b = Inr parser"
    and "files s f = Some doc" "yaml_value L doc = Inr v" "\<not> device_full s" "ToYAML L (Some v) = Some y"
    and "Schema_ok m (schema_types (Parser_Schema parser))" "value_ok m v"
    and "mergeable (schema_types (Parser_Schema parser)) False (MkTypeRef (Some t) Atom_zero None) v"
  shows "main L ss_addr addr (Options_default\<lparr>schemaPath := sp, typeName := t, opt_merge := True, lhsPath := f, rhsPath := f\<rparr>) s =
      (s\<lparr>stdout := stdout s @ y\<rparr>, None) \<and>
    main L ss_addr addr (Options_default\<lparr>schemaPath := sp, typeName := t, opt_compare := True, lhsPath := f, rhsPath := f\<rparr>) s =
      (s\<lparr>stdout := stdout s @ ''No difference''\<rparr>, None)"
proof -
  obtain tv where sp: "sp \<noteq> []" and tv: "parseFile L \<lparr>base_parser = parser, base_typeName = t\<rparr> s f = Inr tv"
    using validate_reads [OF assms(1-3)] assms(4,5) by (metis Inr_inject option.inject)
  note same = same_file_typed [OF parseFile_value [OF tv assms(6,7), simplified] assms(10-12)]
  have "Comparison_IsSame Comparison_empty"
    by (simp add: Comparison_IsSame_def Comparison_empty_def NewSet_def PathElementSet_Size_def)
  then show ?thesis
    using assms(2-5,8,9) sp tv same
    by (simp add: main_def Options_Resolve_def Options_default_def OpenOutput_def merge_Execute_def compare_Execute_def Let_def
        count_true_def write_to_def)
qed

lemma ex_cli_mergeable: "mergeable ex_cli_types False (MkTypeRef (Some ''config'') Atom_zero None) ex_cli_value"
proof -
  have r: "Resolve ex_cli_types (MkTypeRef (Some ''config'') Atom_zero None) =
      Some (MkAtom None None (Some (MkMap [MkField ''name'' ex_string VNull] [] TypeRef_zero [])))"
    "Resolve ex_cli_types ex_string = Some (MkAtom (Some String) None None)"
    "field_typeref (MkMap [MkField ''name'' ex_string VNull] [] TypeRef_zero []) ''name'' = ex_string"
    by code_simp+
  have "mergeable ex_cli_types False ex_string (VString ''web'')"
    by (rule mergeable_scalar [OF r(2), of String]) (simp_all add: scalar_ok_def)
  then show ?thesis unfolding ex_cli_value_def by (intro mergeable_map [OF r(1)]) (auto simp: r(3))
qed

theorem same_file_witness:
  "stdout (fst (main ex_libs 0 1 (ex_options\<lparr>opt_merge := True, lhsPath := ''f.yaml'', rhsPath := ''f.yaml''\<rparr>) ex_os)) = ''F'' \<and>
   stdout (fst (main ex_libs 0 1 (ex_options\<lparr>opt_compare := True, lhsPath := ''f.yaml'', rhsPath := ''f.yaml''\<rparr>) ex_os)) = ''No difference''"
proof -
  have "snd (main ex_libs 0 1 (ex_options\<lparr>validatePath := ''f.yaml''\<rparr>) ex_os) = None" by code_simp
  moreover have "fst (main ex_libs 0 1 (ex_options\<lparr>validatePath := ''f.yaml''\<rparr>) ex_os) = ex_os"
    using ex_NewParser by (simp add: main_def Options_Resolve_def validation_Execute_def OpenOutput_def ex_options_def Options_default_def Let_def
        count_true_def split: sum.splits)
  ultimately have v: "main ex_libs 0 1 (Options_default\<lparr>schemaPath := ''schema.yaml'', typeName := ''config'', validatePath := ''f.yaml''\<rparr>) ex_os =
      (ex_os, None)"
    by (simp add: prod_eq_iff ex_options_def)
  have "yaml_value ex_libs ''F'' = Inr ex_cli_value" "ToYAML ex_libs (Some ex_cli_value) = Some ''F''"
    by (simp_all add: ex_libs_def)
  moreover have "Schema_ok No_Floats ex_cli_types" "value_ok No_Floats ex_cli_value"
    by (simp_all add: ex_cli_types_def ex_cli_value_def Schema_ok_def ex_string_def Atom_zero_def TypeRef_zero_def)
  ultimately show ?thesis
    using same_file [OF v _ _ _ ex_NewParser, of "''F''" ex_cli_value "''F''" No_Floats] ex_cli_mergeable
    by (simp add: ex_options_def ex_parser_def)
qed

end
