(* ===== verification/Walkers.thy ===== *)
theory Walkers
  imports Slices Typed_Values Reconcile_Schema "HOL-Library.Multiset"
begin

text \<open>
  The walkers of package \<^verbatim>\<open>typed\<close> as objects.  A walker that descends takes a walker that an earlier descent has finished with, or
  a new one, copies itself into it and appends to its path, which is a slice that shares its array with the slices of the
  walkers above; the walkers at the root come from a pool.  The other theories pass walkers by value.  The theorem of this
  theory is that this is the same: whatever the walkers do, each of them that is in use shows the fields and the path that it has by value.
\<close>

section \<open>Model\<close>

text \<open>\<open>'f\<close> are the fields of a walker besides its path and the list of spare walkers, to which it has a pointer.\<close>

record 'f walker =
  w_fields :: 'f
  w_path :: slice
  spareWalkers :: "nat option"

record 'f walk_heap =
  w_objs :: "'f walker list"
  w_lists :: "nat list list"
  w_arrays :: "PathElement list list"

text \<open>\<^verbatim>\<open>prepareDescent\<close> up to \<^verbatim>\<open>*v2 = *v\<close>.\<close>

definition take_spare :: "nat \<Rightarrow> 'f walk_heap \<Rightarrow> nat \<times> 'f walk_heap" where
  "take_spare a h =
     (let (p, lists) = (case spareWalkers (w_objs h ! a) of
            None \<Rightarrow> (length (w_lists h), w_lists h @ [[]]) | Some p \<Rightarrow> (p, w_lists h));
          v = (w_objs h ! a)\<lparr>spareWalkers := Some p\<rparr>;
          objs = (w_objs h)[a := v]
      in if lists ! p \<noteq> [] then
           (last (lists ! p), h\<lparr>w_objs := objs[last (lists ! p) := v], w_lists := lists[p := butlast (lists ! p)]\<rparr>)
         else (length objs, h\<lparr>w_objs := objs @ [v], w_lists := lists\<rparr>))"

definition append_path :: "(nat \<Rightarrow> nat) \<Rightarrow> PathElement \<Rightarrow> nat \<Rightarrow> 'f walk_heap \<Rightarrow> 'f walk_heap" where
  "append_path grow pe a h =
     (let (arrays, s) = slice_append grow PathElement_zero (w_arrays h) (w_path (w_objs h ! a)) pe
      in h\<lparr>w_objs := (w_objs h)[a := (w_objs h ! a)\<lparr>w_path := s\<rparr>], w_arrays := arrays\<rparr>)"

definition set_fields :: "('f \<Rightarrow> 'f) \<Rightarrow> nat \<Rightarrow> 'f walk_heap \<Rightarrow> 'f walk_heap" where
  "set_fields g a h = h\<lparr>w_objs := (w_objs h)[a := (w_objs h ! a)\<lparr>w_fields := g (w_fields (w_objs h ! a))\<rparr>]\<rparr>"

definition prepareDescent :: "(nat \<Rightarrow> nat) \<Rightarrow> PathElement option \<Rightarrow> ('f \<Rightarrow> 'f) \<Rightarrow> nat \<Rightarrow> 'f walk_heap \<Rightarrow> nat \<times> 'f walk_heap" where
  "prepareDescent grow pe g a h =
     (let (a2, h1) = take_spare a h;
          h2 = (case pe of None \<Rightarrow> h1 | Some e \<Rightarrow> append_path grow e a2 h1)
      in (a2, set_fields g a2 h2))"

text \<open>\<^verbatim>\<open>finishDescent\<close>: with \<open>restore\<close> the walker takes the path of the finished walker less its last element.  \<open>None\<close> is a nil
  dereference.\<close>

definition finishDescent :: "bool \<Rightarrow> ('f \<Rightarrow> 'f \<Rightarrow> 'f) \<Rightarrow> nat \<Rightarrow> nat \<Rightarrow> 'f walk_heap \<Rightarrow> 'f walk_heap option" where
  "finishDescent restore g a a2 h =
     (let v = w_objs h ! a; v2 = w_objs h ! a2;
          path = (if restore then (w_path v2)\<lparr>s_len := s_len (w_path v2) - 1\<rparr> else w_path v)
      in case spareWalkers v of
           None \<Rightarrow> None
         | Some p \<Rightarrow> Some (h\<lparr>w_objs := (w_objs h)[a := v\<lparr>w_fields := g (w_fields v2) (w_fields v), w_path := path\<rparr>],
             w_lists := (w_lists h)[p := w_lists h ! p @ [a2]]\<rparr>))"

text \<open>What walkers do: descend, change their own fields, append to their path for a moment (\<^verbatim>\<open>append(w.path, pe)\<close> as an argument), return
  from a descent, work on a copy of themselves (\<^verbatim>\<open>w2 := *w\<close>) and drop it.  The stack has the walkers in use, the innermost first.\<close>

datatype frame = Copied | Child bool

datatype 'f walk_op =
    Descend "PathElement option" "'f \<Rightarrow> 'f"
  | Work "'f \<Rightarrow> 'f"
  | Scratch PathElement
  | Ascend bool "'f \<Rightarrow> 'f \<Rightarrow> 'f"
  | Copy
  | Drop

type_synonym 'f walk_config = "(nat \<times> frame) list \<times> 'f walk_heap"

fun walk_step :: "(nat \<Rightarrow> nat) \<Rightarrow> 'f walk_op \<Rightarrow> 'f walk_config \<Rightarrow> 'f walk_config option" where
  "walk_step grow (Descend pe g) ((a, c) # r, h) =
     (case prepareDescent grow pe g a h of (a2, h') \<Rightarrow> Some ((a2, Child (pe \<noteq> None)) # (a, c) # r, h'))"
| "walk_step grow (Work g) ((a, c) # r, h) = Some ((a, c) # r, set_fields g a h)"
| "walk_step grow (Scratch pe) ((a, c) # r, h) =
     Some ((a, c) # r, h\<lparr>w_arrays := fst (slice_append grow PathElement_zero (w_arrays h) (w_path (w_objs h ! a)) pe)\<rparr>)"
| "walk_step grow (Ascend restore g) ((a2, Child b) # (a, c) # r, h) =
     (if restore \<longrightarrow> b then map_option (\<lambda>h'. ((a, c) # r, h')) (finishDescent restore g a a2 h) else None)"
| "walk_step grow Copy ((a, c) # r, h) =
     Some ((length (w_objs h), Copied) # (a, c) # r, h\<lparr>w_objs := w_objs h @ [w_objs h ! a]\<rparr>)"
| "walk_step grow Drop ((a2, Copied) # x # r, h) = Some (x # r, h)"
| "walk_step grow _ _ = None"

text \<open>The same by value.\<close>

type_synonym 'f walk_view = "('f \<times> Path \<times> frame) list"

fun value_step :: "'f walk_op \<Rightarrow> 'f walk_view \<Rightarrow> 'f walk_view option" where
  "value_step (Descend pe g) ((f, p, c) # r) =
     Some ((g f, p @ (case pe of None \<Rightarrow> [] | Some e \<Rightarrow> [e]), Child (pe \<noteq> None)) # (f, p, c) # r)"
| "value_step (Work g) ((f, p, c) # r) = Some ((g f, p, c) # r)"
| "value_step (Scratch pe) ((f, p, c) # r) = Some ((f, p, c) # r)"
| "value_step (Ascend restore g) ((f2, p2, Child b) # (f, p, c) # r) = (if restore \<longrightarrow> b then Some ((g f2 f, p, c) # r) else None)"
| "value_step Copy ((f, p, c) # r) = Some ((f, p, Copied) # (f, p, c) # r)"
| "value_step Drop ((f2, p2, Copied) # x # r) = Some (x # r)"
| "value_step _ _ = None"

fun steps :: "('o \<Rightarrow> 's \<Rightarrow> 's option) \<Rightarrow> 'o list \<Rightarrow> 's \<Rightarrow> 's option" where
  "steps f [] s = Some s"
| "steps f (x # xs) s = Option.bind (f x s) (steps f xs)"

definition view_of :: "'f walk_heap \<Rightarrow> nat \<times> frame \<Rightarrow> 'f \<times> Path \<times> frame" where
  "view_of h x = (w_fields (w_objs h ! fst x), slice_elems (w_arrays h) (w_path (w_objs h ! fst x)), snd x)"

definition view :: "'f walk_config \<Rightarrow> 'f walk_view" where
  "view c = map (view_of (snd c)) (fst c)"

section \<open>The invariant\<close>

text \<open>The path of a walker is the path of the walker that has made it, or that path with one more element.\<close>

fun linked :: "'f walk_view \<Rightarrow> bool" where
  "linked ((f2, p2, k) # (f, p, c) # r) \<longleftrightarrow> (if k = Child True then p2 \<noteq> [] \<and> butlast p2 = p else p2 = p) \<and> linked ((f, p, c) # r)"
| "linked _ \<longleftrightarrow> True"

fun shares :: "'f walk_heap \<Rightarrow> (nat \<times> frame) list \<Rightarrow> bool" where
  "shares h (x # y # r) \<longleftrightarrow> (snd x \<noteq> Copied \<longrightarrow> spareWalkers (w_objs h ! fst y) \<noteq> None) \<and> shares h (y # r)"
| "shares h _ \<longleftrightarrow> True"

definition walker_ok :: "'f walk_heap \<Rightarrow> 'f walker \<Rightarrow> bool" where
  "walker_ok h w \<longleftrightarrow> slice_wf (w_arrays h) (w_path w) \<and> (\<forall>p. spareWalkers w = Some p \<longrightarrow> p < length (w_lists h))"

text \<open>The walkers in use are distinct, and none of them is spare.\<close>

definition heap_ok :: "'f walk_config \<Rightarrow> bool" where
  "heap_ok c \<longleftrightarrow> (case c of (stk, h) \<Rightarrow>
     distinct (map fst stk @ concat (w_lists h)) \<and> (\<forall>a \<in> set (map fst stk @ concat (w_lists h)). a < length (w_objs h)) \<and>
     (\<forall>x \<in> set stk. walker_ok h (w_objs h ! fst x)) \<and> shares h stk)"

definition walk_ok :: "'f walk_config \<Rightarrow> bool" where
  "walk_ok c \<longleftrightarrow> heap_ok c \<and> linked (view c)"

lemma linked_tl: "linked (x # r) \<Longrightarrow> linked r"
  by (cases "(x # r)" rule: linked.cases) auto

lemma linked_length: "linked (x # r) \<Longrightarrow> y \<in> set r \<Longrightarrow> length (fst (snd y)) \<le> length (fst (snd x))"
proof (induction r arbitrary: x)
  case (Cons z r)
  obtain f2 p2 k f p c where xz: "x = (f2, p2, k)" "z = (f, p, c)" by (cases x; cases z)
  have "length p \<le> length p2" using Cons.prems(1) by (auto simp: xz split: if_splits)
  moreover have "length (fst (snd y)) \<le> length p" using Cons.IH [of z] Cons.prems by (auto simp: xz)
  ultimately show ?case by (simp add: xz)
qed simp

lemma shares_tl: "shares h (x # r) \<Longrightarrow> shares h r"
  by (cases r) auto

lemma shares_mono:
  "shares h r \<Longrightarrow> (\<And>x. x \<in> set r \<Longrightarrow> spareWalkers (w_objs h ! fst x) \<noteq> None \<Longrightarrow> spareWalkers (w_objs h' ! fst x) \<noteq> None) \<Longrightarrow> shares h' r"
  by (induction h r rule: shares.induct) auto

lemma mset_concat_update:
  "i < length xs \<Longrightarrow> mset (concat (xs[i := y])) + mset (xs ! i) = mset (concat xs) + mset y"
  by (induction xs arbitrary: i) (auto simp: ac_simps split: nat.splits)

text \<open>No walker in use has a longer path than the innermost one.\<close>

definition innermost :: "'f walk_config \<Rightarrow> bool" where
  "innermost c \<longleftrightarrow> (case c of (stk, h) \<Rightarrow> \<forall>x \<in> set stk. s_len (w_path (w_objs h ! fst x)) \<le> s_len (w_path (w_objs h ! fst (hd stk))))"

lemma walk_ok_innermost:
  assumes "walk_ok (x # r, h)"
  shows "innermost (x # r, h)"
proof -
  have len: "length (slice_elems (w_arrays h) (w_path (w_objs h ! fst y))) = s_len (w_path (w_objs h ! fst y))" if "y \<in> set (x # r)" for y
    using that assms by (intro length_slice_elems slice_wf_ok) (auto simp: walk_ok_def heap_ok_def walker_ok_def)
  have "s_len (w_path (w_objs h ! fst y)) \<le> s_len (w_path (w_objs h ! fst x))" if "y \<in> set r" for y
    using linked_length [of "view_of h x" "map (view_of h) r" "view_of h y"] assms that len [of x] len [of y]
    by (auto simp: walk_ok_def view_def view_of_def)
  then show ?thesis by (auto simp: innermost_def)
qed

section \<open>One step\<close>

text \<open>A change of the innermost walker, and of arrays behind its path.\<close>

lemma change_top:
  assumes ok: "heap_ok ((a, c) # r, h)" "innermost ((a, c) # r, h)"
    and keeps: "\<And>t. slice_wf (w_arrays h) t \<Longrightarrow> s_len t \<le> s_len (w_path (w_objs h ! a)) \<Longrightarrow>
      slice_wf arr t \<and> slice_elems arr t = slice_elems (w_arrays h) t"
    and h': "h' = h\<lparr>w_objs := (w_objs h)[a := w], w_arrays := arr\<rparr>" and w: "walker_ok h' w"
  shows "heap_ok ((a, c) # r, h')" "map (view_of h') ((a, c) # r) = (w_fields w, slice_elems arr (w_path w), c) # map (view_of h) r"
    "w_objs h' ! a = w"
proof -
  have a: "a < length (w_objs h)" "a \<notin> fst ` set r" using ok(1) by (auto simp: heap_ok_def)
  show wa: "w_objs h' ! a = w" using a by (simp add: h')
  have same: "w_objs h' ! fst x = w_objs h ! fst x" if "x \<in> set r" for x
    using a(2) that by (metis h' imageI nth_list_update_neq walk_heap.select_convs(1) walk_heap.surjective walk_heap.update_convs(1,3))
  have ks: "slice_wf arr (w_path (w_objs h ! fst x)) \<and> slice_elems arr (w_path (w_objs h ! fst x)) = slice_elems (w_arrays h) (w_path (w_objs h ! fst x))"
    if "x \<in> set r" for x
    using that ok by (intro keeps) (auto simp: heap_ok_def innermost_def walker_ok_def)
  have "shares h' ((a, c) # r)" using ok(1) same by (cases r) (auto simp: heap_ok_def intro: shares_mono)
  moreover have "walker_ok h' (w_objs h' ! fst x)" if "x \<in> set r" for x
    using ok(1) ks [OF that] same [OF that] that by (auto simp: heap_ok_def walker_ok_def h')
  ultimately show "heap_ok ((a, c) # r, h')" using ok(1) w wa by (auto simp: heap_ok_def h')
  show "map (view_of h') ((a, c) # r) = (w_fields w, slice_elems arr (w_path w), c) # map (view_of h) r"
  proof -
    have "w_arrays h' = arr" by (simp add: h')
    then have "view_of h' x = view_of h x" if "x \<in> set r" for x using ks [OF that] same [OF that] by (simp add: view_of_def)
    then show ?thesis using wa \<open>w_arrays h' = arr\<close> by (simp add: view_of_def)
  qed
qed

text \<open>A walker that is taken from the spare ones, or new, is not in use.\<close>

lemma take_spare_ok:
  assumes ok: "heap_ok ((a, c) # r, h)" and t: "take_spare a h = (a2, h1)" and k: "k \<noteq> Copied"
  shows "heap_ok ((a2, k) # (a, c) # r, h1)" "map (view_of h1) ((a, c) # r) = map (view_of h) ((a, c) # r)"
    "w_path (w_objs h1 ! a2) = w_path (w_objs h ! a)" "w_fields (w_objs h1 ! a2) = w_fields (w_objs h ! a)"
    "\<forall>x \<in> set ((a, c) # r). w_path (w_objs h1 ! fst x) = w_path (w_objs h ! fst x)" "w_arrays h1 = w_arrays h"
proof -
  have a: "a < length (w_objs h)" "a \<notin> fst ` set r" "walker_ok h (w_objs h ! a)" using ok by (auto simp: heap_ok_def)
  obtain p lists where pl: "(case spareWalkers (w_objs h ! a) of None \<Rightarrow> (length (w_lists h), w_lists h @ [[]]) | Some p \<Rightarrow> (p, w_lists h)) = (p, lists)"
    by fastforce
  have p: "p < length lists" "concat lists = concat (w_lists h)" "length (w_lists h) \<le> length lists"
    using pl a(3) by (auto simp: walker_ok_def split: option.splits)
  define v where "v = (w_objs h ! a)\<lparr>spareWalkers := Some p\<rparr>"
  have h1: "(lists ! p \<noteq> [] \<and> a2 = last (lists ! p) \<and>
        h1 = h\<lparr>w_objs := (w_objs h)[a := v, a2 := v], w_lists := lists[p := butlast (lists ! p)]\<rparr>) \<or>
      (a2 = length (w_objs h) \<and> h1 = h\<lparr>w_objs := (w_objs h)[a := v] @ [v], w_lists := lists\<rparr>)"
    using t by (auto simp: take_spare_def pl Let_def v_def split: if_splits)
  consider (spare) "mset (concat (w_lists h1)) + {#a2#} = mset (concat (w_lists h))" "length (w_objs h1) = length (w_objs h)"
    | (fresh) "a2 = length (w_objs h)" "w_lists h1 = lists" "length (w_objs h1) = Suc (length (w_objs h))"
  proof (cases "lists ! p = []")
    case False
    then have "mset (lists ! p) = mset (butlast (lists ! p)) + {#last (lists ! p)#}"
      by (metis append_butlast_last_id mset_append mset_single_iff_right)
    then show ?thesis using that h1 mset_concat_update [OF p(1), of "butlast (lists ! p)"] p(2) by auto
  qed (use h1 that in auto)
  moreover define L where "L = map fst ((a, c) # r) @ concat (w_lists h)"
  moreover have dL: "distinct L" "\<forall>b \<in> set L. b < length (w_objs h)" using ok by (auto simp: heap_ok_def L_def)
  ultimately have D: "distinct (a2 # map fst ((a, c) # r) @ concat (w_lists h1)) \<and>
      (\<forall>b \<in> set (a2 # map fst ((a, c) # r) @ concat (w_lists h1)). b < length (w_objs h1))"
  proof cases
    case spare
    then have m: "mset (a2 # map fst ((a, c) # r) @ concat (w_lists h1)) = mset L"
      by (simp add: ac_simps L_def)
    show ?thesis
      unfolding spare(2) mset_eq_imp_distinct_iff [OF m] mset_eq_setD [OF m] using dL by simp
  next
    case fresh
    then have "map fst ((a, c) # r) @ concat (w_lists h1) = L" by (simp add: L_def p(2))
    then show ?thesis using dL fresh(1,3) by (metis distinct.simps(2) less_SucI less_Suc_eq less_irrefl set_ConsD)
  qed
  then have at: "w_objs h1 ! a2 = v" "w_objs h1 ! a = v" "w_arrays h1 = w_arrays h" "length lists = length (w_lists h1)"
    using h1 a(1) by (auto simp: nth_append)
  have same: "w_objs h1 ! fst x = w_objs h ! fst x" if "x \<in> set r" for x
  proof -
    have "fst x \<noteq> a2" "fst x \<noteq> a" "fst x < length (w_objs h)" using that ok D by (auto simp: heap_ok_def)
    then show ?thesis using h1 by (auto simp: nth_append)
  qed
  show v: "w_path (w_objs h1 ! a2) = w_path (w_objs h ! a)" "w_fields (w_objs h1 ! a2) = w_fields (w_objs h ! a)"
    by (simp_all add: at v_def)
  show "\<forall>x \<in> set ((a, c) # r). w_path (w_objs h1 ! fst x) = w_path (w_objs h ! fst x)" "w_arrays h1 = w_arrays h"
    using same by (auto simp: at v_def)
  show "map (view_of h1) ((a, c) # r) = map (view_of h) ((a, c) # r)" using same by (auto simp: view_of_def at v_def)
  have "walker_ok h1 v" "\<forall>x \<in> set r. walker_ok h1 (w_objs h1 ! fst x)"
    using ok same p at by (auto simp: heap_ok_def walker_ok_def v_def)
  moreover have "shares h1 ((a2, k) # (a, c) # r)"
    using ok same by (cases r) (auto simp: heap_ok_def at v_def intro: shares_mono)
  ultimately show "heap_ok ((a2, k) # (a, c) # r, h1)" using D by (simp add: heap_ok_def at)
qed

lemma change_fields:
  assumes "heap_ok ((a, c) # r, h)" "innermost ((a, c) # r, h)"
  shows "heap_ok ((a, c) # r, set_fields g a h)"
    "map (view_of (set_fields g a h)) ((a, c) # r) =
      (g (w_fields (w_objs h ! a)), slice_elems (w_arrays h) (w_path (w_objs h ! a)), c) # map (view_of h) r"
proof -
  let ?w = "(w_objs h ! a)\<lparr>w_fields := g (w_fields (w_objs h ! a))\<rparr>"
  have "walker_ok (set_fields g a h) ?w" using assms(1) by (simp add: heap_ok_def walker_ok_def set_fields_def)
  moreover have "set_fields g a h = h\<lparr>w_objs := (w_objs h)[a := ?w], w_arrays := w_arrays h\<rparr>" by (simp add: set_fields_def)
  ultimately show "heap_ok ((a, c) # r, set_fields g a h)"
    "map (view_of (set_fields g a h)) ((a, c) # r) =
      (g (w_fields (w_objs h ! a)), slice_elems (w_arrays h) (w_path (w_objs h ! a)), c) # map (view_of h) r"
    using change_top [OF assms, of "w_arrays h" "set_fields g a h" ?w] by simp_all
qed

lemma change_path:
  assumes "heap_ok ((a, c) # r, h)" "innermost ((a, c) # r, h)" "\<And>n. n < grow n"
  shows "heap_ok ((a, c) # r, append_path grow e a h)" "innermost ((a, c) # r, append_path grow e a h)"
    "map (view_of (append_path grow e a h)) ((a, c) # r) =
      (w_fields (w_objs h ! a), slice_elems (w_arrays h) (w_path (w_objs h ! a)) @ [e], c) # map (view_of h) r"
proof -
  let ?h = "append_path grow e a h"
  obtain arr s where s: "slice_append grow PathElement_zero (w_arrays h) (w_path (w_objs h ! a)) e = (arr, s)" by fastforce
  let ?w = "(w_objs h ! a)\<lparr>w_path := s\<rparr>"
  have h: "?h = h\<lparr>w_objs := (w_objs h)[a := ?w], w_arrays := arr\<rparr>" by (simp add: append_path_def s)
  have wf: "slice_wf (w_arrays h) (w_path (w_objs h ! a))" using assms(1) by (simp add: heap_ok_def walker_ok_def)
  note app = append_wf [OF wf assms(3) s]
  have "walker_ok ?h ?w" using assms(1) app(1) by (simp add: heap_ok_def walker_ok_def h)
  note top = change_top [OF assms(1,2) _ h this]
  show "heap_ok ((a, c) # r, ?h)" using top(1) append_keeps [OF s] by blast
  show "map (view_of ?h) ((a, c) # r) = (w_fields (w_objs h ! a), slice_elems (w_arrays h) (w_path (w_objs h ! a)) @ [e], c) # map (view_of h) r"
    using top(2) append_keeps [OF s] app(2) by simp
  have len: "s_len (w_path (w_objs h ! a)) \<le> s_len s" using s by (auto simp: slice_append_def split: if_splits)
  have a: "a < length (w_objs h)" using assms(1) by (simp add: heap_ok_def)
  have "s_len (w_path (w_objs ?h ! fst x)) \<le> s_len s" if "x \<in> set r" for x
  proof -
    have "s_len (w_path (w_objs h ! fst x)) \<le> s_len (w_path (w_objs h ! a))" using assms(2) that by (simp add: innermost_def)
    then show ?thesis using len a by (cases "fst x = a") (simp_all add: h)
  qed
  then show "innermost ((a, c) # r, ?h)" using a by (auto simp: innermost_def h)
qed

text \<open>The linking by value.\<close>

lemma value_step_linked: "linked vs \<Longrightarrow> value_step op vs = Some vs' \<Longrightarrow> linked vs'"
  by (cases "(op, vs)" rule: value_step.cases)
    (auto simp: butlast_append elim: linked.elims split: option.splits if_splits dest: linked_tl)

lemma Descend_sim:
  assumes ok: "walk_ok ((a, c) # r, h)" and grow: "\<And>n. n < grow n" and d: "prepareDescent grow pe g a h = (a2, h')"
  shows "heap_ok ((a2, Child (pe \<noteq> None)) # (a, c) # r, h') \<and>
    value_step (Descend pe g) (view ((a, c) # r, h)) = Some (view ((a2, Child (pe \<noteq> None)) # (a, c) # r, h'))"
proof -
  let ?k = "Child (pe \<noteq> None)"
  obtain h1 where t: "take_spare a h = (a2, h1)" using d by (auto simp: prepareDescent_def split: prod.splits)
  have heap: "heap_ok ((a, c) # r, h)" using ok by (simp add: walk_ok_def)
  note s = take_spare_ok [OF heap t frame.distinct(2) [of "pe \<noteq> None"]]
  have inner: "innermost ((a2, ?k) # (a, c) # r, h1)"
    using walk_ok_innermost [OF ok] s(3) s(5-) by (auto simp: innermost_def)
  have vs: "view_of h1 (a, c) # map (view_of h1) r = view ((a, c) # r, h)" using s(2,3) by (simp add: view_def)
  show ?thesis
  proof (cases pe)
    case None
    then have h': "h' = set_fields g a2 h1" using d t by (simp add: prepareDescent_def)
    show ?thesis
      using change_fields [of a2 ?k "(a, c) # r" h1 g] s inner vs None by (simp add: h' view_def view_of_def)
  next
    case (Some e)
    then have h': "h' = set_fields g a2 (append_path grow e a2 h1)" using d t by (simp add: prepareDescent_def)
    note p = change_path [OF s(1) inner grow, of e]
    show ?thesis
      using change_fields [OF p(1,2), of g] p(3) s vs Some by (simp add: h' view_def view_of_def)
  qed
qed

lemma Scratch_sim:
  assumes ok: "walk_ok ((a, c) # r, h)"
    and h': "h' = h\<lparr>w_arrays := fst (slice_append grow PathElement_zero (w_arrays h) (w_path (w_objs h ! a)) pe)\<rparr>"
  shows "heap_ok ((a, c) # r, h') \<and> view ((a, c) # r, h') = view ((a, c) # r, h)"
proof -
  have heap: "heap_ok ((a, c) # r, h)" using ok by (simp add: walk_ok_def)
  obtain arr s where s: "slice_append grow PathElement_zero (w_arrays h) (w_path (w_objs h ! a)) pe = (arr, s)" by fastforce
  have eq: "h' = h\<lparr>w_objs := (w_objs h)[a := w_objs h ! a], w_arrays := arr\<rparr>" by (simp add: h' s)
  have wf: "slice_wf (w_arrays h) (w_path (w_objs h ! a))" using heap by (simp add: heap_ok_def walker_ok_def)
  have "walker_ok h' (w_objs h ! a)" using heap append_keeps(1) [OF s wf] by (simp add: heap_ok_def walker_ok_def eq)
  note top = change_top [OF heap walk_ok_innermost [OF ok] _ eq this]
  then show ?thesis using append_keeps [OF s] wf by (simp add: view_def view_of_def)
qed

lemma Ascend_sim:
  assumes ok: "walk_ok ((a2, Child b) # (a, c) # r, h)" and b: "restore \<longrightarrow> b"
  shows "\<exists>h'. finishDescent restore g a a2 h = Some h' \<and> heap_ok ((a, c) # r, h') \<and>
    value_step (Ascend restore g) (view ((a2, Child b) # (a, c) # r, h)) = Some (view ((a, c) # r, h'))"
proof -
  let ?v = "w_objs h ! a" and ?v2 = "w_objs h ! a2"
  let ?p = "if restore then (w_path ?v2)\<lparr>s_len := s_len (w_path ?v2) - 1\<rparr> else w_path ?v"
  let ?w = "?v\<lparr>w_fields := g (w_fields ?v2) (w_fields ?v), w_path := ?p\<rparr>"
  have heap: "heap_ok ((a2, Child b) # (a, c) # r, h)" using ok by (simp add: walk_ok_def)
  then have wf: "walker_ok h ?v" "walker_ok h ?v2" and a: "a < length (w_objs h)" "a \<notin> fst ` set r" by (auto simp: heap_ok_def)
  obtain p where p: "spareWalkers ?v = Some p" "p < length (w_lists h)" using heap by (auto simp: heap_ok_def walker_ok_def)
  define h' where "h' = h\<lparr>w_objs := (w_objs h)[a := ?w], w_lists := (w_lists h)[p := w_lists h ! p @ [a2]]\<rparr>"
  have fin: "finishDescent restore g a a2 h = Some h'" by (simp add: finishDescent_def p h'_def Let_def)
  have elems: "slice_elems (w_arrays h) ?p = slice_elems (w_arrays h) (w_path ?v)"
    using ok b wf(2) by (auto simp: walk_ok_def view_def view_of_def shrink_elems [simplified] walker_ok_def)
  have m: "mset (map fst ((a, c) # r) @ concat (w_lists h')) = mset (map fst ((a2, Child b) # (a, c) # r) @ concat (w_lists h))"
    using mset_concat_update [OF p(2), of "w_lists h ! p @ [a2]"] by (simp add: h'_def ac_simps)
  have same: "w_objs h' ! fst x = w_objs h ! fst x" if "x \<in> set r" for x
  proof -
    have "fst x \<noteq> a" using a(2) that by (metis imageI)
    then show ?thesis by (simp add: h'_def)
  qed
  have "walker_ok h' ?w" using wf shrink_wf [of "w_arrays h" "w_path ?v2" 1] by (simp add: walker_ok_def h'_def)
  moreover have "w_objs h' ! a = ?w" using a(1) by (simp add: h'_def)
  moreover have "walker_ok h' (w_objs h' ! fst x)" if "x \<in> set r" for x
    unfolding same [OF that] using heap that by (simp add: heap_ok_def walker_ok_def h'_def)
  ultimately have oks: "\<forall>x \<in> set ((a, c) # r). walker_ok h' (w_objs h' ! fst x)" by simp
  have "shares h' ((a, c) # r)" using heap same by (cases r) (auto simp: heap_ok_def intro: shares_mono)
  with oks heap have "heap_ok ((a, c) # r, h')"
    unfolding heap_ok_def prod.case mset_eq_imp_distinct_iff [OF m] mset_eq_setD [OF m] by (simp add: h'_def)
  moreover have "view ((a, c) # r, h') = (g (w_fields ?v2) (w_fields ?v), slice_elems (w_arrays h) (w_path ?v), c) # map (view_of h) r"
    using same a(1) elems by (auto simp: view_def view_of_def h'_def)
  ultimately show ?thesis using fin b by (simp add: view_def view_of_def)
qed

lemma Copy_sim:
  assumes ok: "walk_ok ((a, c) # r, h)" and h': "h' = h\<lparr>w_objs := w_objs h @ [w_objs h ! a]\<rparr>"
  shows "heap_ok ((length (w_objs h), Copied) # (a, c) # r, h') \<and>
    value_step Copy (view ((a, c) # r, h)) = Some (view ((length (w_objs h), Copied) # (a, c) # r, h'))"
proof -
  have heap: "heap_ok ((a, c) # r, h)" using ok by (simp add: walk_ok_def)
  then have bound: "\<forall>x \<in> set ((a, c) # r). fst x < length (w_objs h)" by (simp add: heap_ok_def ball_Un)
  have same: "w_objs h' ! fst x = w_objs h ! fst x" if "x \<in> set ((a, c) # r)" for x
  proof -
    have "fst x < length (w_objs h)" using bound that by blast
    then show ?thesis by (simp add: h' nth_append)
  qed
  have "shares h ((a, c) # r)" using heap by (simp add: heap_ok_def)
  then have sh: "shares h' ((a, c) # r)" by (rule shares_mono) (simp add: same)
  have oks: "walker_ok h' (w_objs h' ! fst x)" if "x \<in> set ((a, c) # r)" for x
    unfolding same [OF that] using heap that by (auto simp: heap_ok_def walker_ok_def h')
  have "heap_ok ((length (w_objs h), Copied) # (a, c) # r, h')"
  proof -
    define L where "L = map fst ((a, c) # r) @ concat (w_lists h)"
    have "distinct L" "\<forall>b \<in> set L. b < length (w_objs h)" using heap by (simp_all add: heap_ok_def L_def)
    then have "distinct (length (w_objs h) # L) \<and> (\<forall>b \<in> set (length (w_objs h) # L). b < length (w_objs h'))" by (auto simp: h')
    moreover have "walker_ok h' (w_objs h' ! length (w_objs h))" using heap by (simp add: h' heap_ok_def walker_ok_def)
    moreover have "\<forall>x \<in> set ((a, c) # r). walker_ok h' (w_objs h' ! fst x)" using oks by blast
    ultimately show ?thesis using sh unfolding L_def by (simp add: heap_ok_def) (simp add: h')
  qed
  moreover have arr: "w_arrays h' = w_arrays h" by (simp add: h')
  then have "map (view_of h') ((a, c) # r) = map (view_of h) ((a, c) # r)"
    by (intro map_cong refl) (simp only: view_of_def same)
  moreover have "view_of h' (length (w_objs h), Copied) = (w_fields (w_objs h ! a), slice_elems (w_arrays h) (w_path (w_objs h ! a)), Copied)"
    by (simp add: view_of_def h')
  ultimately show ?thesis by (simp add: view_def view_of_def [of h "(a, c)"])
qed

lemma view_hd: "view ((a, c) # r, h) = (w_fields (w_objs h ! a), slice_elems (w_arrays h) (w_path (w_objs h ! a)), c) # map (view_of h) r"
  by (simp add: view_def view_of_def)

lemma walk_step_sim:
  assumes ok: "walk_ok cf" and grow: "\<And>n. n < grow n"
  shows "case walk_step grow op cf of
      None \<Rightarrow> value_step op (view cf) = None
    | Some cf' \<Rightarrow> heap_ok cf' \<and> value_step op (view cf) = Some (view cf')"
proof (cases "(grow, op, cf)" rule: walk_step.cases)
  case (1 grow' pe g a c r h)
  obtain a2 h' where d: "prepareDescent grow pe g a h = (a2, h')" by fastforce
  then show ?thesis using 1 Descend_sim [OF _ grow d] ok by simp
next
  case (2 grow' g a c r h)
  then have cf: "walk_ok ((a, c) # r, h)" using ok by simp
  then show ?thesis
    using 2 change_fields [OF _ walk_ok_innermost [OF cf], of g] by (simp add: walk_ok_def view_def view_of_def)
next
  case (3 grow' pe a c r h)
  then show ?thesis using Scratch_sim [OF _ refl, of a c r h grow pe] ok by (simp add: view_hd)
next
  case (4 grow' restore g a2 b a c r h)
  then show ?thesis using Ascend_sim [of a2 b a c r h restore g] ok by (auto simp: view_def view_of_def)
next
  case (5 grow' a c r h)
  then show ?thesis using Copy_sim [OF _ refl, of a c r h] ok by simp
next
  case (6 grow' a2 x r h)
  then show ?thesis using ok shares_tl [of h "(a2, Copied)" "x # r"] by (simp add: walk_ok_def heap_ok_def view_def view_of_def)
qed (simp_all add: view_def view_of_def)

lemma walk_step_ok:
  "walk_ok cf \<Longrightarrow> (\<And>n. n < grow n) \<Longrightarrow> walk_step grow op cf = Some cf' \<Longrightarrow> walk_ok cf' \<and> value_step op (view cf) = Some (view cf')"
  using walk_step_sim [of cf grow op] value_step_linked [of "view cf" op "view cf'"] by (simp add: walk_ok_def)

section \<open>Runs\<close>

lemma walks_by_value:
  assumes "walk_ok cf" "\<And>n. n < grow n"
  shows "map_option view (steps (walk_step grow) ops cf) = steps value_step ops (view cf)"
    "steps (walk_step grow) ops cf = Some cf' \<Longrightarrow> walk_ok cf'"
proof -
  have "map_option view (steps (walk_step grow) ops cf) = steps value_step ops (view cf) \<and>
      pred_option walk_ok (steps (walk_step grow) ops cf)"
    using assms(1)
  proof (induction ops arbitrary: cf)
    case (Cons op ops)
    show ?case
    proof (cases "walk_step grow op cf")
      case None
      then show ?thesis using walk_step_sim [OF Cons.prems assms(2), of op] by simp
    next
      case (Some cf1)
      then show ?thesis using walk_step_ok [OF Cons.prems assms(2) Some] Cons.IH [of cf1] by simp
    qed
  qed simp
  then show "map_option view (steps (walk_step grow) ops cf) = steps value_step ops (view cf)"
    "steps (walk_step grow) ops cf = Some cf' \<Longrightarrow> walk_ok cf'" by auto
qed

text \<open>The path of the walker at the root is empty between the descents.\<close>

lemma value_step_root: "value_step op vs = Some vs' \<Longrightarrow> vs' \<noteq> [] \<and> fst (snd (last vs')) = fst (snd (last vs))"
  by (cases "(op, vs)" rule: value_step.cases) (auto split: if_splits)

lemma value_steps_root:
  "steps value_step ops vs = Some vs' \<Longrightarrow> vs \<noteq> [] \<Longrightarrow> vs' \<noteq> [] \<and> fst (snd (last vs')) = fst (snd (last vs))"
proof (induction ops arbitrary: vs)
  case (Cons op ops)
  then obtain vs1 where "value_step op vs = Some vs1" "steps value_step ops vs1 = Some vs'" by (auto simp: bind_eq_Some_conv)
  then show ?case using value_step_root [of op vs vs1] Cons.IH [of vs1] by simp
qed simp

section \<open>The walkers of the package\<close>

text \<open>Pointers are addresses.  The fields of \<^verbatim>\<open>compareWalker\<close> and \<^verbatim>\<open>mergingWalker\<close> are the records of \<open>Compare_Values\<close> and
  \<open>Merge_Values\<close> without their paths.\<close>

record validatingObjectWalker =
  vw_value :: "Value option"
  vw_schema :: "SchemaPtr option"
  vw_typeRef :: TypeRef
  vw_allowDuplicates :: bool

definition validate_walker :: "TypedValue \<Rightarrow> validatingObjectWalker \<Rightarrow> validatingObjectWalker" where
  "validate_walker tv v =
     v\<lparr>vw_value := tv_value tv, vw_schema := Some (tv_schema tv), vw_typeRef := tv_typeRef tv, vw_allowDuplicates := False\<rparr>"

definition validate_finished :: "validatingObjectWalker \<Rightarrow> validatingObjectWalker" where
  "validate_finished v = v\<lparr>vw_schema := None, vw_typeRef := TypeRef_zero\<rparr>"

definition validate_prepareDescent :: "TypeRef \<Rightarrow> validatingObjectWalker walk_op" where
  "validate_prepareDescent tr = Descend None (\<lambda>v. v\<lparr>vw_typeRef := tr\<rparr>)"

definition validate_finishDescent :: "validatingObjectWalker walk_op" where
  "validate_finishDescent = Ascend False (\<lambda>_ v. v)"

record toFieldSetWalker =
  tw_value :: "Value option"
  tw_schema :: "SchemaPtr option"
  tw_typeRef :: TypeRef
  tw_set :: "nat option"

text \<open>\<open>new_set\<close> is the address of the new set.\<close>

definition toFieldSet_walker :: "TypedValue \<Rightarrow> nat \<Rightarrow> toFieldSetWalker \<Rightarrow> toFieldSetWalker" where
  "toFieldSet_walker tv new_set v =
     v\<lparr>tw_value := tv_value tv, tw_schema := Some (tv_schema tv), tw_typeRef := tv_typeRef tv, tw_set := Some new_set\<rparr>"

definition toFieldSet_finished :: "toFieldSetWalker walker \<Rightarrow> toFieldSetWalker walker" where
  "toFieldSet_finished v =
     v\<lparr>w_fields := (w_fields v)\<lparr>tw_schema := None, tw_typeRef := TypeRef_zero, tw_set := None\<rparr>, w_path := nil_slice\<rparr>"

definition toFieldSet_prepareDescent :: "PathElement \<Rightarrow> TypeRef \<Rightarrow> toFieldSetWalker walk_op" where
  "toFieldSet_prepareDescent pe tr = Descend (Some pe) (\<lambda>v. v\<lparr>tw_typeRef := tr\<rparr>)"

definition toFieldSet_finishDescent :: "toFieldSetWalker walk_op" where
  "toFieldSet_finishDescent = Ascend True (\<lambda>_ v. v)"

definition merge_descend :: "PathElement \<Rightarrow> TypeRef \<Rightarrow> mergingWalker walk_op" where
  "merge_descend pe tr = Descend (Some pe) (\<lambda>w. w\<lparr>mw_typeRef := tr, mw_lhs := None, mw_rhs := None, mw_out := None\<rparr>)"

definition compare_descend :: "PathElement \<Rightarrow> TypeRef \<Rightarrow> compareWalker walk_op" where
  "compare_descend pe tr = Descend (Some pe) (\<lambda>w. w\<lparr>cw_typeRef := tr, cw_lhs := None, cw_rhs := None\<rparr>)"

record reconcileWithSchemaWalker =
  rw_value :: "TypedValue option"
  rw_schema :: "SchemaPtr option"
  rw_fieldSet :: "FieldSet option"
  rw_typeRef :: TypeRef
  rw_isAtomic :: bool
  rw_toRemove :: "FieldSet option"
  rw_toAdd :: "FieldSet option"

definition reconcile_finished :: "reconcileWithSchemaWalker walker \<Rightarrow> reconcileWithSchemaWalker walker" where
  "reconcile_finished v =
     v\<lparr>w_fields := (w_fields v)\<lparr>rw_fieldSet := None, rw_schema := None, rw_value := None, rw_typeRef := TypeRef_zero, rw_toRemove := None,
         rw_toAdd := None\<rparr>, w_path := nil_slice\<rparr>"

definition reconcile_descend :: "PathElement \<Rightarrow> TypeRef \<Rightarrow> reconcileWithSchemaWalker walk_op" where
  "reconcile_descend pe tr = Descend (Some pe) (\<lambda>v. v\<lparr>rw_typeRef := tr\<rparr>)"

text \<open>The fields and the path of the finished walker, which the code clears, are overwritten when it is taken again.\<close>

definition reconcile_ascend :: "reconcileWithSchemaWalker walk_op" where
  "reconcile_ascend =
     Ascend False (\<lambda>v2 v. v\<lparr>rw_toRemove := union_nil (rw_toRemove v) (rw_toRemove v2), rw_toAdd := union_nil (rw_toAdd v) (rw_toAdd v2)\<rparr>)"

lemma descend_by_value:
  "\<exists>w'. value_step (merge_descend pe tr) ((w, p, c) # r) = Some ((w', p @ [pe], Child True) # (w, p, c) # r) \<and>
     w'\<lparr>mw_path := p @ [pe]\<rparr> = merge_prepareDescent (w\<lparr>mw_path := p\<rparr>) pe tr"
  "\<exists>u'. value_step (compare_descend pe tr) ((u, p, c) # r') = Some ((u', p @ [pe], Child True) # (u, p, c) # r') \<and>
     u'\<lparr>cw_path := p @ [pe]\<rparr> = compare_prepareDescent (u\<lparr>cw_path := p\<rparr>) pe tr"
  by (simp_all add: merge_descend_def compare_descend_def merge_prepareDescent_def compare_prepareDescent_def)

text \<open>A walker from the pool is as good as a new one: all that it had is overwritten.\<close>

lemma pooled_walkers:
  "validate_walker tv v = validate_walker tv v'" "toFieldSet_walker tv n t = toFieldSet_walker tv n t'"
  "s_len (w_path (toFieldSet_finished tw)) = 0" "s_len (w_path (reconcile_finished rw)) = 0"
  by (cases v; cases v'; cases t; cases t'; simp add: validate_walker_def toFieldSet_walker_def toFieldSet_finished_def
      reconcile_finished_def nil_slice_def)+

section \<open>Walking with reuse\<close>

text \<open>C24 (refinement): whatever a walker from the pool and its descendants do, and whichever spare walkers and arrays they take again,
  every walker in use has the fields and the path that it would have by value; the walkers in use are distinct and none of them is spare,
  and a walk that is back at the root has an empty path, as the next user of the pool expects.\<close>

theorem Walkers_by_value:
  assumes "walk_ok ([(a, Child False)], h)" "s_len (w_path (w_objs h ! a)) = 0" "\<And>n. n < grow n"
  shows "map_option view (steps (walk_step grow) ops ([(a, Child False)], h)) = steps value_step ops [(w_fields (w_objs h ! a), [], Child False)] \<and>
    (steps (walk_step grow) ops ([(a, Child False)], h) = Some (stk, h') \<longrightarrow>
      distinct (map fst stk @ concat (w_lists h')) \<and> s_len (w_path (w_objs h' ! fst (last stk))) = 0)"
proof -
  have v: "view ([(a, Child False)], h) = [(w_fields (w_objs h ! a), [], Child False)]"
    using assms(2) by (simp add: view_def view_of_def slice_elems_def)
  note run = walks_by_value [OF assms(1,3), of ops, unfolded v]
  moreover have "distinct (map fst stk @ concat (w_lists h')) \<and> s_len (w_path (w_objs h' ! fst (last stk))) = 0"
    if r: "steps (walk_step grow) ops ([(a, Child False)], h) = Some (stk, h')"
  proof -
    have ok: "walk_ok (stk, h')" by (rule run(2) [OF r])
    have root: "view (stk, h') \<noteq> []" "fst (snd (last (view (stk, h')))) = []"
      using run(1) r value_steps_root [of ops "[(w_fields (w_objs h ! a), [], Child False)]" "view (stk, h')"] by auto
    then have ne: "stk \<noteq> []" by (auto simp: view_def)
    with root(2) have "slice_elems (w_arrays h') (w_path (w_objs h' ! fst (last stk))) = []" by (simp add: view_def last_map view_of_def)
    moreover have "slice_wf (w_arrays h') (w_path (w_objs h' ! fst (last stk)))"
      using ok ne by (auto simp: walk_ok_def heap_ok_def walker_ok_def)
    ultimately have "s_len (w_path (w_objs h' ! fst (last stk))) = 0" using length_slice_elems slice_wf_ok by (metis list.size(3))
    then show ?thesis using ok by (simp add: walk_ok_def heap_ok_def)
  qed
  ultimately show ?thesis by blast
qed

text \<open>Two descents: the second takes the walker of the first, and the place of its path element, again.\<close>

definition ex_walk :: "string walk_config" where
  "ex_walk = ([(0, Child False)], \<lparr>w_objs = [\<lparr>w_fields = ''root'', w_path = nil_slice, spareWalkers = None\<rparr>], w_lists = [], w_arrays = []\<rparr>)"

definition ex_ops :: "string walk_op list" where
  "ex_ops = [Descend (Some (pe_field ''a'')) (\<lambda>_. ''first''), Scratch (pe_field ''x''), Ascend True (\<lambda>_ v. v),
     Descend (Some (pe_field ''b'')) (\<lambda>_. ''second'')]"

theorem Walkers_by_value_witness:
  "\<exists>stk h'. steps (walk_step (\<lambda>n. n + 2)) ex_ops ex_walk = Some (stk, h') \<and> map fst stk = [1, 0] \<and> length (w_objs h') = 2 \<and>
     view (stk, h') = [(''second'', [pe_field ''b''], Child True), (''root'', [], Child False)] \<and> distinct (map fst stk @ concat (w_lists h'))"
proof -
  have ok: "walk_ok ([(0, Child False)], snd ex_walk)" "s_len (w_path (w_objs (snd ex_walk) ! 0)) = 0"
    by (simp_all add: ex_walk_def walk_ok_def heap_ok_def walker_ok_def view_def nil_slice_def slice_wf_def)
  have c: "ex_walk = ([(0, Child False)], snd ex_walk)" by (simp add: ex_walk_def)
  have "case steps (walk_step (\<lambda>n. n + 2)) ex_ops ex_walk of None \<Rightarrow> False | Some (stk, h') \<Rightarrow> map fst stk = [1, 0] \<and> length (w_objs h') = 2"
    by code_simp
  then obtain stk h' where r: "steps (walk_step (\<lambda>n. n + 2)) ex_ops ex_walk = Some (stk, h')" "map fst stk = [1, 0]" "length (w_objs h') = 2"
    by (auto split: option.splits)
  have "steps value_step ex_ops [(w_fields (w_objs (snd ex_walk) ! 0), [], Child False)] =
      Some [(''second'', [pe_field ''b''], Child True), (''root'', [], Child False)]"
    by (simp add: ex_ops_def ex_walk_def)
  then show ?thesis using Walkers_by_value [OF ok, of "\<lambda>n. n + 2" ex_ops stk h'] r unfolding c [symmetric] by auto
qed

end
