(* ===== verification/Reflect_Lists.thy ===== *)
theory Reflect_Lists
  imports Reflect_Laws Reflect_Update Parsing
begin

text \<open>
  The ranges and the equality of \<^verbatim>\<open>value/listreflect.go\<close>, the equality of structs of \<^verbatim>\<open>value/structreflect.go\<close>,
  \<^verbatim>\<open>ParseableType.FromStructured\<close> of \<^verbatim>\<open>typed/parser.go\<close>, which types a value that is read by reflection, and
  \<^verbatim>\<open>convertMapAnyToMapString\<close> of \<^verbatim>\<open>internal/fixture/state.go\<close>.
\<close>

section \<open>Ranges\<close>

record listReflectRange =
  rr_list :: reflect_value
  rr_i :: int

text \<open>\<open>None\<close> is \<^verbatim>\<open>EmptyRange\<close>.\<close>

definition lr_RangeUsing :: "reflect_value \<Rightarrow> listReflectRange option" where
  "lr_RangeUsing r = (if lr_Length r = 0 then None else Some \<lparr>rr_list = r, rr_i = - 1\<rparr>)"

definition lrr_Next :: "listReflectRange \<Rightarrow> bool \<times> listReflectRange" where
  "lrr_Next r = (let r' = r\<lparr>rr_i := rr_i r + 1\<rparr> in (rr_i r' < int (lr_Length (rr_list r')), r'))"

text \<open>\<open>None\<close> is a panic.\<close>

definition lrr_Item :: "'e reflect_env \<Rightarrow> listReflectRange \<Rightarrow> (int \<times> reflect_value) option" where
  "lrr_Item E r =
     (if rr_i r < 0 then None
      else if rr_i r \<ge> int (lr_Length (rr_list r)) then None
      else case lr_AtUsing E (rr_list r) (nat (rr_i r)) of Inl e \<Rightarrow> None | Inr v \<Rightarrow> Some (rr_i r, v))"

lemma mapE_nth: "mapE f xs = Inr ys \<Longrightarrow> length ys = length xs \<and> (\<forall>i < length xs. f (xs ! i) = Inr (ys ! i))"
  by (simp add: mapE_Inr list_all2_conv_all_nth)

lemma items_at: "reflect_items E r = Some l \<Longrightarrow> length l = lr_Length r \<and> (\<forall>i < length l. lr_AtUsing E r i = Inr (l ! i))"
  by (auto simp: reflect_items_def vr_AsListUsing_def dest!: mapE_nth split: option.splits sum.splits if_splits)

text \<open>The range of a reflected list is the range over its items.\<close>

fun range_of :: "'v list \<Rightarrow> listReflectRange option \<Rightarrow> 'v ListRange" where
  "range_of l None = EmptyRange"
| "range_of l (Some r) = ListRange l (rr_i r)"

lemma reflect_range:
  assumes "reflect_items E r = Some l"
  shows "range_of l (lr_RangeUsing r) = RangeUsing l"
    "rr_list q = r \<Longrightarrow> Range_Next (range_of l (Some q)) = map_prod id (\<lambda>q. range_of l (Some q)) (lrr_Next q)"
    "rr_list q = r \<Longrightarrow> Range_Item (range_of l (Some q)) = lrr_Item E q"
proof -
  note at = items_at [OF assms]
  show "range_of l (lr_RangeUsing r) = RangeUsing l" using at by (simp add: lr_RangeUsing_def RangeUsing_def)
  show "Range_Next (range_of l (Some q)) = map_prod id (\<lambda>q. range_of l (Some q)) (lrr_Next q)" if "rr_list q = r"
    using at that by (simp add: lrr_Next_def Let_def)
  show "Range_Item (range_of l (Some q)) = lrr_Item E q" if "rr_list q = r"
    using at that by (auto simp: lrr_Item_def split: sum.splits)
qed

section \<open>Equality\<close>

text \<open>\<^verbatim>\<open>reflect.DeepEqual\<close>.  Slices, maps and pointers that share their memory, which \<open>same\<close> tells, are equal; a function is equal
  to another if both are nil.\<close>

fun DeepEqual :: "(rdata \<Rightarrow> rdata \<Rightarrow> bool) \<Rightarrow> rv \<Rightarrow> rv \<Rightarrow> bool"
  and deep_data :: "(rdata \<Rightarrow> rdata \<Rightarrow> bool) \<Rightarrow> rdata \<Rightarrow> rdata \<Rightarrow> bool"
  and deep_list :: "(rdata \<Rightarrow> rdata \<Rightarrow> bool) \<Rightarrow> rv list \<Rightarrow> rv list \<Rightarrow> bool"
  and deep_map :: "(rdata \<Rightarrow> rdata \<Rightarrow> bool) \<Rightarrow> (string \<times> rv) list \<Rightarrow> (string \<times> rv) list \<Rightarrow> bool" where
  "DeepEqual same (RV t d) (RV t' d') = (t = t' \<and> deep_data same d d')"
| "deep_data same (DBool b) d = (case d of DBool b' \<Rightarrow> b = b' | _ \<Rightarrow> False)"
| "deep_data same (DInt i) d = (case d of DInt i' \<Rightarrow> i = i' | _ \<Rightarrow> False)"
| "deep_data same (DUint i) d = (case d of DUint i' \<Rightarrow> i = i' | _ \<Rightarrow> False)"
| "deep_data same (DFloat f) d = (case d of DFloat f' \<Rightarrow> float64_eq f f' | _ \<Rightarrow> False)"
| "deep_data same (DString s) d = (case d of DString s' \<Rightarrow> s = s' | _ \<Rightarrow> False)"
| "deep_data same (DSlice None) d = (d = DSlice None)"
| "deep_data same (DSlice (Some l)) d =
     (case d of
        DSlice (Some l') \<Rightarrow> length l = length l' \<and> (same (DSlice (Some l)) d \<or> deep_list same l l')
      | _ \<Rightarrow> False)"
| "deep_data same (DMap None) d = (d = DMap None)"
| "deep_data same (DMap (Some m)) d =
     (case d of
        DMap (Some m') \<Rightarrow> length m = length m' \<and> (same (DMap (Some m)) d \<or> deep_map same m m')
      | _ \<Rightarrow> False)"
| "deep_data same (DStruct l) d = (case d of DStruct l' \<Rightarrow> deep_list same l l' | _ \<Rightarrow> False)"
| "deep_data same (DPtr None) d = (d = DPtr None)"
| "deep_data same (DPtr (Some x)) d = (case d of DPtr (Some y) \<Rightarrow> same (DPtr (Some x)) d \<or> DeepEqual same x y | _ \<Rightarrow> False)"
| "deep_data same (DInterface None) d = (d = DInterface None)"
| "deep_data same (DInterface (Some x)) d = (case d of DInterface (Some y) \<Rightarrow> DeepEqual same x y | _ \<Rightarrow> False)"
| "deep_data same (DOther b) d = (case d of DOther b' \<Rightarrow> b \<and> b' | _ \<Rightarrow> False)"
| "deep_list same [] ys = (ys = [])"
| "deep_list same (x # xs) ys = (case ys of [] \<Rightarrow> False | y # ys' \<Rightarrow> DeepEqual same x y \<and> deep_list same xs ys')"
| "deep_map same [] m = True"
| "deep_map same ((k, x) # r) m = ((case map_of m k of None \<Rightarrow> False | Some y \<Rightarrow> DeepEqual same x y) \<and> deep_map same r m)"

text \<open>The other list is reflected, or is known by its items; \<open>eq\<close> is \<^verbatim>\<open>EqualsUsing\<close> of two values.\<close>

definition lr_EqualsUsing ::
  "'e reflect_env \<Rightarrow> (rdata \<Rightarrow> rdata \<Rightarrow> bool) \<Rightarrow> ('v \<Rightarrow> 'v \<Rightarrow> bool) \<Rightarrow> (reflect_value \<Rightarrow> 'v) \<Rightarrow> reflect_value \<Rightarrow> reflect_value + 'v list \<Rightarrow> bool option" where
  "lr_EqualsUsing E same eq wrap r other =
     (case other of
        Inl otherReflectList \<Rightarrow> Some (DeepEqual same (fst r) (fst otherReflectList))
      | Inr l \<Rightarrow> (case vr_AsListUsing E r of
          Some (Inr items) \<Rightarrow> Some (ListEqualsUsing eq (map wrap items) l)
        | _ \<Rightarrow> None))"

definition sr_EqualsUsing ::
  "'e reflect_env \<Rightarrow> ('v \<Rightarrow> 'v \<Rightarrow> bool) \<Rightarrow> (reflect_value \<Rightarrow> 'v) \<Rightarrow> reflect_value \<Rightarrow> (string \<times> 'v) list \<Rightarrow> bool option" where
  "sr_EqualsUsing E eq wrap r m =
     (case eachStructField E r of
        Inl e \<Rightarrow> None
      | Inr kvs \<Rightarrow> Some (MapEqualsUsing eq (Some (map (map_prod id wrap) kvs)) (Some m)))"

text \<open>Against a list of another kind the equality is the one of the trees.\<close>

lemma lr_EqualsUsing_tree:
  assumes "rshows E r (VList vs)"
  shows "lr_EqualsUsing E same eq (reflected E) r (Inr l) = Some (ListEqualsUsing eq vs l)"
proof -
  obtain items where i: "vr_AsListUsing E r = Some (Inr items)" "list_all2 (rshows E) items vs"
    using assms by (cases rule: rshowsE) auto
  then show ?thesis using shows_items [OF i(2)] by (simp add: lr_EqualsUsing_def)
qed

text \<open>Two reflected lists with the trees [1] and [1.0], which are equal, are not.\<close>

lemma lr_EqualsUsing_types:
  assumes "r = RV (TSlice TInterface) (DSlice (Some [ValueOf (GoInt64 i)]))"
    and "s = RV (TSlice TInterface) (DSlice (Some [ValueOf (GoFloat64 (float64_of_int64 i))]))"
  shows "lr_EqualsUsing E (\<lambda>_ _. False) eq wrap (r, a) (Inl (s, b)) = Some False" "Equals (VInt i) (VFloat (float64_of_int64 i))"
  by (simp_all add: assms lr_EqualsUsing_def Equals_same float64_eq_def float64_of_int64_def)

section \<open>Typing what is read by reflection\<close>

text \<open>The walkers read the value by its methods; the tree that they see is read here to the depth \<open>n\<close>, and \<open>None\<close> is a panic or a larger
  depth.  A nil interface is the null value.\<close>

datatype 'e structured_error = Bad_Struct "'e reflect_error" | Bad_Object ValidationErrors

definition FromStructured ::
  "nat \<Rightarrow> 'e reflect_env \<Rightarrow> ParseableType \<Rightarrow> rv option \<Rightarrow> ValidationOptions list \<Rightarrow> ('e structured_error + TypedValue) option" where
  "FromStructured n E p x opts =
     (let typed = (\<lambda>V. case AsTyped (Some V) (pt_Schema p) (pt_TypeRef p) opts of Inl errs \<Rightarrow> Inl (Bad_Object errs) | Inr tv \<Rightarrow> Inr tv)
      in case NewValueReflect E x of
           None \<Rightarrow> Some (typed VNull)
         | Some (Inl err) \<Rightarrow> Some (Inl (Bad_Struct err))
         | Some (Inr r) \<Rightarrow> map_option (\<lambda>u. typed (unstructured u)) (vr_Unstructured n E r))"

text \<open>A pointer to data that shows a tree is typed as the tree is.\<close>

lemma FromStructured_tree:
  assumes "NewValueReflect E x = Some (Inr r)" "rshows E r V"
  shows "\<exists>n. \<forall>d \<ge> n. FromStructured d E p x opts =
    Some (case FromUnstructured p V opts of Inl errs \<Rightarrow> Inl (Bad_Object errs) | Inr tv \<Rightarrow> Inr tv)"
proof -
  obtain u n where u: "\<forall>d \<ge> n. vr_Unstructured d E r = Some u" "unstructured u = V"
    using Unstructured_shows [OF assms(2)] by (auto simp: copies_def)
  then show ?thesis by (intro exI [of _ n]) (simp add: FromStructured_def FromUnstructured_def assms(1))
qed

section \<open>String-keyed copies\<close>

text \<open>\<open>None\<close> is the panic of a key that is not a string.\<close>

fun convertMapAnyToMapString :: "go \<Rightarrow> go option"
  and convert_fields :: "(string \<times> go) list \<Rightarrow> (string \<times> go) list option"
  and convert_entries :: "(go \<times> go) list \<Rightarrow> (string \<times> go) list option"
  and convert_items :: "go list \<Rightarrow> go list option" where
  "convertMapAnyToMapString (GoMapString m) = map_option GoMapString (convert_fields m)"
| "convertMapAnyToMapString (GoMapInterface m) = map_option GoMapString (convert_entries m)"
| "convertMapAnyToMapString (GoSlice l) = map_option GoSlice (convert_items l)"
| "convertMapAnyToMapString u = Some u"
| "convert_fields [] = Some []"
| "convert_fields ((k, v) # r) =
     (case (convertMapAnyToMapString v, convert_fields r) of (Some w, Some ws) \<Rightarrow> Some ((k, w) # ws) | _ \<Rightarrow> None)"
| "convert_entries [] = Some []"
| "convert_entries ((k, v) # r) =
     (case (vu_AsString k, convertMapAnyToMapString v, convert_entries r) of
        (Some x, Some w, Some ws) \<Rightarrow> Some ((x, w) # ws) | _ \<Rightarrow> None)"
| "convert_items [] = Some []"
| "convert_items (v # r) =
     (case (convertMapAnyToMapString v, convert_items r) of (Some w, Some ws) \<Rightarrow> Some (w # ws) | _ \<Rightarrow> None)"

text \<open>A copy shows the same tree.\<close>

lemma convert_shows:
  "go_ok u \<Longrightarrow> \<exists>w. convertMapAnyToMapString u = Some w \<and> unstructured w = unstructured u"
  "list_all (\<lambda>(k, v). go_ok v) kvs \<Longrightarrow> \<exists>ws. convert_fields kvs = Some ws \<and> unstructured (GoMapString ws) = unstructured (GoMapString kvs)"
  "list_all (\<lambda>(k, v). vu_IsString k \<and> go_ok v) es \<Longrightarrow>
    \<exists>ws. convert_entries es = Some ws \<and> unstructured (GoMapString ws) = unstructured (GoMapInterface es)"
  "list_all go_ok l \<Longrightarrow> \<exists>ws. convert_items l = Some ws \<and> map unstructured ws = map unstructured l"
  by (induction u and kvs and es and l rule: convertMapAnyToMapString_convert_fields_convert_entries_convert_items.induct)
    (fastforce simp: vu_IsString_iff)+

end
