(* ===== verification/Spec2Isabelle.thy ===== *)
theory Spec2Isabelle
  imports Properties_Cli Walkers Reflect_Lists
begin

text \<open>
  A verification of structured-merge-diff, the Go library behind server-side apply.

  \<^bold>\<open>The program.\<close>  An object is an untyped tree (package \<^verbatim>\<open>value\<close>) that is read through a schema (package \<^verbatim>\<open>schema\<close>).
  A field of an object is a path (package \<^verbatim>\<open>fieldpath\<close>), and a set of paths is a trie.  Package \<^verbatim>\<open>typed\<close> walks one or two
  values along the schema: it validates a value, computes the set of its fields, merges two values, compares them, removes
  or extracts a set of fields, and brings a set in line with a changed schema.  Package \<^verbatim>\<open>merge\<close> keeps for every manager
  the set of fields it owns: \<^verbatim>\<open>Update\<close> gives a manager what it changed, \<^verbatim>\<open>Apply\<close> merges the configuration of a manager into
  the live object, refuses to take fields of others unless it is forced, and prunes the fields that the manager applied
  before and no longer mentions.  \<^verbatim>\<open>internal/fixture\<close> drives the updater as a state machine.

  \<^bold>\<open>Theories and sources.\<close>  Definitions have the names of the Go functions, with the receiver type in front where two
  types have a method of one name.

  \<^item> \<open>SMD_Prelude\<close>: the Go routines the sources use (\<^verbatim>\<open>strings.Compare\<close>, \<^verbatim>\<open>sort.Search\<close>, iteration with early exit) and the
    locales \<open>comparator\<close> and \<open>key_order\<close>: the laws of a \<^verbatim>\<open>Compare\<close> function and of an \<^verbatim>\<open>Equals\<close> that agrees with it.
  \<^item> \<open>Values\<close>, \<open>Value_Order\<close>: \<^verbatim>\<open>value/value.go\<close>, \<^verbatim>\<open>scalar.go\<close>, \<^verbatim>\<open>list.go\<close>, \<^verbatim>\<open>map.go\<close>, \<^verbatim>\<open>fields.go\<close>, \<^verbatim>\<open>mapunstructured.go\<close>.
    A value is a datatype with the dynamic types that \<^verbatim>\<open>NewValueInterface\<close> distinguishes; \<^verbatim>\<open>int64\<close> is a 64-bit word.
    \<open>Compare\<close> is a total preorder on values of one number mode, and not in general.
  \<^item> \<open>Go_Values\<close>: \<^verbatim>\<open>value/valueunstructured.go\<close>, \<^verbatim>\<open>listunstructured.go\<close>, \<^verbatim>\<open>mapunstructured.go\<close> over the dynamic values of an
    \<^verbatim>\<open>interface{}\<close>, with integers of all widths, and the ranges of \<^verbatim>\<open>list.go\<close>.  Locales \<open>value_view\<close>, \<open>map_view\<close> and
    \<open>mutable_map\<close> are the contract of the interfaces \<^verbatim>\<open>Value\<close> and \<^verbatim>\<open>Map\<close>: what the methods return is one tree, a \<open>Value\<close> of
    \<open>Values\<close>, on which all later theories work.  \<open>go_number\<close> is the number that an integer of any width is.
  \<^item> \<open>Slices\<close>: Go slices on a store of arrays, which \<^verbatim>\<open>append\<close> may share.
  \<^item> \<open>Reflect_Types\<close>, \<open>Reflect_Paths\<close>: \<^verbatim>\<open>value/jsontagutil.go\<close> and the types and entries of \<^verbatim>\<open>reflectcache.go\<close>.  Field paths are
    Go slices on a store of arrays, so that \<^verbatim>\<open>append\<close> may share an array; the cached paths agree with a reference
    definition as long as it does not, and an example shows that it can.
  \<^item> \<open>Reflect_Values\<close>, \<open>Reflect_Maps\<close>, \<open>Reflect_Update\<close>, \<open>Reflect_Laws\<close>: \<^verbatim>\<open>value/valuereflect.go\<close>, \<^verbatim>\<open>listreflect.go\<close>,
    \<^verbatim>\<open>mapreflect.go\<close>, \<^verbatim>\<open>structreflect.go\<close> and the conversions of \<^verbatim>\<open>reflectcache.go\<close>.  \<open>rshows\<close> relates a reflected value to
    the tree that it shows; the contracts hold for every value that shows one, copies show the same tree, and the optimised
    zips are the generic ones.  \<open>Reflect_Lists\<close>: ranges and equality of reflected lists, with \<^verbatim>\<open>reflect.DeepEqual\<close>, and
    \<^verbatim>\<open>FromStructured\<close>, which types reflected data as it types the tree that the data shows.
  \<^item> \<open>Reflect_Cache\<close>: the cache of \<^verbatim>\<open>reflectcache.go\<close> over a heap of entries.  Every field of a cached entry points to the entry
    that the cache has for its type, also when types refer to themselves, so a walk along \<^verbatim>\<open>TypeEntry\<close> sees the entries that
    \<open>entry_of\<close> gives the theories above.
  \<^item> \<open>Allocators\<close>: \<^verbatim>\<open>value/allocator.go\<close> over a heap of objects, with its clients as a step relation.
  \<^item> \<open>Path_Elements\<close>, \<open>Element_Sets\<close>: \<^verbatim>\<open>fieldpath/element.go\<close>, \<^verbatim>\<open>path.go\<close>, \<^verbatim>\<open>pathelementmap.go\<close>.  Sorted slices stay ascending
    and implement sets and maps (locale \<open>keyed_map\<close>).
  \<^item> \<open>Field_Set\<close>, \<open>Field_Set_Laws\<close>, \<open>Field_Set_Views\<close>, \<open>Named_Fields\<close>, \<open>Field_Set_Spec\<close>: \<^verbatim>\<open>fieldpath/set.go\<close>.  Every operation
    keeps the invariant \<open>Set_wf\<close> and refines the operation on sets of paths; locale \<open>path_set\<close> is the contract that the
    later theories use.
  \<^item> \<open>From_Value\<close>: \<^verbatim>\<open>fieldpath/fromvalue.go\<close>; the set of the paths to the leaves of a value.
  \<^item> \<open>Decimal\<close>, \<open>Serialization\<close>, \<open>Serialization_Laws\<close>, \<open>Serialization_Roundtrip\<close>: \<^verbatim>\<open>fieldpath/serialize.go\<close>, \<^verbatim>\<open>serialize-pe.go\<close> and the
    JSON functions of \<^verbatim>\<open>value.go\<close>.  Reading ends on every text, and reads back what was written.
  \<^item> \<open>Managers\<close>: \<^verbatim>\<open>fieldpath/managers.go\<close>, \<^verbatim>\<open>merge/conflict.go\<close>.  A Go map is an association list with distinct keys; its
    order stands for the arbitrary order of \<^verbatim>\<open>range\<close>, and the theorems hold for every order.
  \<^item> \<open>Schema\<close>, \<open>Schema_Ok\<close>: \<^verbatim>\<open>schema/elements.go\<close>, \<^verbatim>\<open>equals.go\<close>, with the lazily built indexes and the cache of resolved
    references as explicit state.
  \<^item> \<open>Typed_Helpers\<close>, \<open>Validate\<close>, \<open>To_Field_Set\<close>, \<open>Owned_Paths\<close>, \<open>Remove_Items\<close>, \<open>Merge_Values\<close>, \<open>Merge_Laws\<close>,
    \<open>Compare_Values\<close>, \<open>Compare_Laws\<close>, \<open>Compare_Sets\<close>, \<open>Reconcile_Schema\<close>, \<open>Typed_Values\<close>: the files of package \<^verbatim>\<open>typed\<close>.
    Every walker is a function that ends by the size of the value or set it walks; a walker's mutable fields are a
    record that is threaded through the calls.
  \<^item> \<open>Walkers\<close>: the walkers as the objects they are in Go, taken from pools and reused for each descent, with paths that share
    arrays; they have the fields and the paths that they have by value, which justifies the records above.
  \<^item> \<open>Kept_Values\<close>, \<open>Struct_Fields\<close>: what removal and merging keep of a well-formed value, and how a scalar struct field
    moves through all the walkers.
  \<^item> \<open>Parsing\<close>: \<^verbatim>\<open>typed/parser.go\<close>, \<^verbatim>\<open>schema/schemaschema.go\<close>.
  \<^item> \<open>Updater\<close>: \<^verbatim>\<open>merge/update.go\<close>.  \<open>Updater_Laws\<close>, \<open>Update_Conflicts\<close>, \<open>Ownership\<close>, \<open>Pruning\<close>, \<open>Merged_Fields\<close>: who owns
    what afterwards, when an apply is refused, and which fields a merged object and the object of an apply have.
  \<^item> \<open>Test_State\<close>, \<open>State_Laws\<close>: \<^verbatim>\<open>internal/fixture/state.go\<close> and the invariant of the states that are reached.
  \<^item> \<open>Printing\<close>: the \<^verbatim>\<open>String\<close> and \<^verbatim>\<open>Error\<close> methods of values, paths, sets, managed fields, comparisons, conflicts and validation
    errors.
  \<^item> \<open>Command_Line\<close>: \<^verbatim>\<open>internal/cli\<close> and \<^verbatim>\<open>smd/main.go\<close> over a state of files and standard output.
  \<^item> \<open>Properties_Fieldpath\<close>, \<open>Properties_Schema\<close>, \<open>Properties_Typed\<close>, \<open>Properties_Merge\<close>, \<open>Properties_Values\<close>,
    \<open>Properties_Reflect\<close>, \<open>Properties_Cli\<close>: the properties of the program, each with a concrete instance.

  \<^bold>\<open>Errors and panics.\<close>  Errors are values of a datatype with a constructor per format string; a nil dereference is the
  error \<open>Panic\<close>, a loop that does not end is \<open>Diverges\<close>.  The loop of \<open>merge_list_loop\<close> has as fuel
  the number of items of both lists, since an iteration consumes an item or changes nothing; \<open>Merge_ends\<close> shows that
  this is enough.  The reader of sets has as fuel the measure of the input that every read consumes (\<open>FromJSON_total\<close>).  The
  number of struct types bounds the nesting of inline structs, and the number of types the recursion of the cache
  (\<open>Reflect_cache_correct\<close>); \<open>vr_Unstructured\<close> returns from some depth on (\<open>Reflect_Unstructured\<close>).

  \<^bold>\<open>Arguments.\<close>  Code outside the repository is an argument of the definitions that use it: the converter between
  versions (a record of its two functions), YAML decoders, the JSON iterator and stream (\<open>json_lib\<close>), the printing of floats
  and quoted strings (\<open>go_fmt\<close>), the libraries and the files of the command line program (\<open>cli_libs\<close>, \<open>os\<close>), the methods of a
  user's types (\<open>user_code\<close>), the capacity that the runtime gives a slice that grows, the order of a \<^verbatim>\<open>range\<close>.  A theorem on pruned fields assumes
  that the converter returns its argument at the versions involved (\<open>identity_at\<close>), which is what a converter does
  between versions with one representation; the theorems on ownership do not.

  \<^bold>\<open>Not modelled.\<close>  YAML text and the scanning of JSON text, which the libraries do; the parsing of command line flags, which
  package \<^verbatim>\<open>flag\<close> does; the texts of error messages, which are constructors; updates of the type cache at the same time, which a
  lock serialises; the pools of JSON streams and buffers; \<^verbatim>\<open>fieldSetAtPath\<close>, \<^verbatim>\<open>descendToPath\<close> and the
  \<^verbatim>\<open>indexListPathElements\<close> of \<^verbatim>\<open>compare.go\<close>, which nothing calls.
\<close>

end
